(* ===== verification/Prelude.thy ===== *)
theory Prelude
  imports Main "HOL-Library.Word"
begin

text \<open>
  Shared vocabulary of the UName*It development.

  Machine integers are words of the width the C code declares (\<open>unsigned8\<close>,
  \<open>unsigned16\<close>, \<open>unsigned32\<close> of \<^verbatim>\<open>include/arith_types.c\<close>); a signed 32 bit
  \<open>int\<close> or \<open>DB_INT32\<close> that can overflow is an \<^typ>\<open>int\<close> reduced by \<open>int32\<close>.
  A C string is the list of its bytes without the terminating NUL; \<open>c_at\<close> reads it with
  the NUL in place.  The result of a Tcl command procedure is a value of \<open>tcl_result\<close>.
\<close>

unbundle bit_operations_syntax

type_synonym u8 = "8 word"
type_synonym u16 = "16 word"
type_synonym u32 = "32 word"
type_synonym cstr = "u8 list"

named_theorems codec_simps \<open>evaluation of byte and digit codecs\<close>
named_theorems wf_intros \<open>preservation of well-formedness\<close>

text \<open>Character constants and string literals of the C sources.\<close>

abbreviation ch :: "char \<Rightarrow> u8" where
  "ch c \<equiv> of_char c"

definition cstr :: "string \<Rightarrow> cstr" where
  "cstr s = map ch s"

text \<open>Reading a NUL terminated string at an index up to and including the terminator.\<close>

definition c_at :: "cstr \<Rightarrow> nat \<Rightarrow> u8" where
  "c_at s i = (if i < length s then s ! i else 0)"

definition no_nul :: "cstr \<Rightarrow> bool" where
  "no_nul s \<longleftrightarrow> 0 \<notin> set s"

text \<open>Two's complement reduction of a mathematical integer to a signed 32 bit value.\<close>

definition int32 :: "int \<Rightarrow> int" where
  "int32 x = (x + 2147483648) mod 4294967296 - 2147483648"

abbreviation INT32_MAX :: int where "INT32_MAX \<equiv> 2147483647"
abbreviation INT32_MIN :: int where "INT32_MIN \<equiv> -2147483648"

definition is_int32 :: "int \<Rightarrow> bool" where
  "is_int32 x \<longleftrightarrow> INT32_MIN \<le> x \<and> x \<le> INT32_MAX"

text \<open>What a Tcl command procedure leaves behind: a result with \<open>TCL_OK\<close>, or \<open>TCL_ERROR\<close>
  with the \<open>errorCode\<close> list (empty where the C code sets none) and the error message.\<close>

datatype 'r tcl_result = Tcl_Ok 'r | Tcl_Error (errorCode: "cstr list") (errorMsg: cstr)

text \<open>How a call ends: with a value, in \<open>panic\<close> (also a failed \<open>assert\<close> or \<open>check\<close>), or with
  an access outside the object it was given.\<close>

datatype 'a c_run = Done 'a | Panic | Overrun

fun c_bind :: "'a c_run \<Rightarrow> ('a \<Rightarrow> 'b c_run) \<Rightarrow> 'b c_run" where
  "c_bind (Done x) f = f x"
| "c_bind Panic f = Panic"
| "c_bind Overrun f = Overrun"

text \<open>The usage error every command of the address and UUID libraries starts with.\<close>

definition usage_error :: "cstr list \<Rightarrow> string \<Rightarrow> 'r tcl_result" where
  "usage_error argv msg =
     Tcl_Error [cstr ''UNAMEIT'', cstr ''EUSAGE'', hd argv]
       (cstr ''wrong # args: should be '' @ [34] @ hd argv @ cstr msg @ [34])"

text \<open>\<open>Udb_Error\<close> of \<^verbatim>\<open>libudb/errcode.c\<close>: the error code list is the code and its arguments.\<close>

definition Udb_Error :: "string \<Rightarrow> cstr list \<Rightarrow> 'r tcl_result" where
  "Udb_Error code args = Tcl_Error (cstr ''UNAMEIT'' # cstr code # args) []"

subsection \<open>Strings\<close>

lemma c_bind_Done: "c_bind m f = Done y \<longleftrightarrow> (\<exists>x. m = Done x \<and> f x = Done y)"
  by (cases m) auto

lemma c_bind_assoc: "c_bind (c_bind m f) g = c_bind m (\<lambda>x. c_bind (f x) g)"
  by (cases m) simp_all

lemma c_at_less [simp]: "i < length s \<Longrightarrow> c_at s i = s ! i"
  by (simp add: c_at_def)

lemma c_at_length [simp]: "c_at s (length s) = 0"
  by (simp add: c_at_def)

lemma c_at_Cons_0 [simp]: "c_at (c # s) 0 = c"
  by (simp add: c_at_def)

lemma c_at_Nil [simp]: "c_at [] i = 0"
  by (simp add: c_at_def)

lemma c_at_Cons_Suc [simp]: "c_at (c # s) (Suc i) = c_at s i"
  by (simp add: c_at_def)

lemma no_nul_Nil [simp]: "no_nul []"
  by (simp add: no_nul_def)

lemma no_nul_Cons [simp]: "no_nul (c # s) \<longleftrightarrow> c \<noteq> 0 \<and> no_nul s"
  by (auto simp: no_nul_def)

lemma no_nul_append [simp]: "no_nul (s @ t) \<longleftrightarrow> no_nul s \<and> no_nul t"
  by (auto simp: no_nul_def)

lemma length_cstr [simp]: "length (cstr s) = length s"
  by (simp add: cstr_def)

lemma nth_cstr [simp]: "i < length s \<Longrightarrow> cstr s ! i = ch (s ! i)"
  by (simp add: cstr_def)

subsection \<open>Signed 32 bit values\<close>

lemma int32_id [simp]: "is_int32 x \<Longrightarrow> int32 x = x"
  by (simp add: is_int32_def int32_def)

lemma is_int32_int32 [simp, wf_intros]: "is_int32 (int32 x)"
proof -
  have "0 \<le> (x + 2147483648) mod 4294967296" "(x + 2147483648) mod 4294967296 < 4294967296"
    by simp_all
  then show ?thesis unfolding is_int32_def int32_def by linarith
qed

lemma int32_cong: "x mod 4294967296 = y mod 4294967296 \<Longrightarrow> int32 x = int32 y"
  unfolding int32_def by (drule mod_add_cong [OF _ refl, of x 4294967296 y 2147483648]) (simp only:)

lemma int32_mod: "int32 x mod 4294967296 = x mod 4294967296"
proof -
  have "int32 x mod 4294967296 = ((x + 2147483648) mod 4294967296 - 2147483648) mod 4294967296"
    by (simp add: int32_def)
  also have "\<dots> = (x + 2147483648 - 2147483648) mod 4294967296" by (rule mod_diff_left_eq)
  finally show ?thesis by simp
qed

lemma int32_add [simp]: "int32 (int32 x + y) = int32 (x + y)" "int32 (x + int32 y) = int32 (x + y)"
proof -
  show *: "int32 (int32 x + y) = int32 (x + y)" for x y
    using mod_add_left_eq [of "int32 x" 4294967296 y] mod_add_left_eq [of x 4294967296 y] int32_mod [of x]
    by (intro int32_cong) (simp only:)
  show "int32 (x + int32 y) = int32 (x + y)" using * [of y x] by (simp only: add.commute)
qed

lemma int32_0 [simp]: "int32 0 = 0"
  by (simp add: int32_def)

lemma int32_wraps_down: "2147483648 \<le> x \<Longrightarrow> x < 6442450944 \<Longrightarrow> int32 x = x - 4294967296"
  unfolding int32_def using mod_pos_pos_trivial [of "x - 2147483648" 4294967296] minus_mod_self2 [of "x + 2147483648" 4294967296] by simp


subsection \<open>Lists\<close>

lemma take_nth_drop: "i < length xs \<Longrightarrow> take i xs @ xs ! i # drop (Suc i) xs = xs"
  by (rule id_take_nth_drop [symmetric])

lemma fold_update_map:
  "m \<le> length xs \<Longrightarrow>
   fold (\<lambda>i out. out[i := f (out ! i)]) [0..<m] xs = map f (take m xs) @ drop m xs"
proof (induction m)
  case (Suc m)
  then have "fold (\<lambda>i out. out[i := f (out ! i)]) [0..<Suc m] xs =
      (map f (take m xs) @ drop m xs)[m := f ((map f (take m xs) @ drop m xs) ! m)]"
    by simp
  also have "\<dots> = map f (take m xs) @ (drop m xs)[0 := f (xs ! m)]"
    using Suc.prems by (simp add: list_update_append nth_append)
  also have "(drop m xs)[0 := f (xs ! m)] = f (xs ! m) # drop (Suc m) xs"
    using Suc.prems by (cases "drop m xs") (auto simp: drop_Suc tl_drop dest: arg_cong [where f = tl])
  finally show ?case using Suc.prems by (simp add: take_Suc_conv_app_nth)
qed simp

lemma upt_0_unfold: "2 \<le> n \<Longrightarrow> [0..<n] = 0 # 1 # [2..<n]"
  by (simp add: upt_conv_Cons numeral_2_eq_2)

subsection \<open>Words and bit positions\<close>

lemma bit_mask_numeral [simp]:
  "bit (15 :: int) n \<longleftrightarrow> n < 4"
  "bit (63 :: int) n \<longleftrightarrow> n < 6"
  "bit (255 :: int) n \<longleftrightarrow> n < 8"
proof -
  have "(15 :: int) = mask 4" "(63 :: int) = mask 6" "(255 :: int) = mask 8"
    by (simp_all add: mask_eq_exp_minus_1)
  then show "bit (15 :: int) n \<longleftrightarrow> n < 4" "bit (63 :: int) n \<longleftrightarrow> n < 6" "bit (255 :: int) n \<longleftrightarrow> n < 8"
    by (simp_all only: bit_mask_iff) simp_all
qed

lemma word_less_exp_bit:
  fixes x :: "'a::len word"
  assumes "m < LENGTH('a)" "\<And>n. bit x n \<Longrightarrow> n < m"
  shows "x < 2 ^ m"
proof -
  have "x = take_bit m x"
    using assms(2) by (intro bit_eqI) (auto simp: bit_simps)
  also have "take_bit m x = x AND mask m" by (simp add: take_bit_eq_mask)
  also have "\<dots> < 2 ^ m" using assms(1) by (rule and_mask_less')
  finally show ?thesis .
qed

lemma unat_ucast_u8: "unat (ucast (x :: u8) :: u32) = unat x"
proof -
  have "unat x < 2 ^ 32" using unsigned_less [of x, where 'a = nat] by simp
  then show ?thesis by (simp add: unsigned_ucast_eq take_bit_nat_eq_self)
qed

lemma unat_in_set:
  assumes "list_all (\<lambda>i. i < 256) xs"
  shows "unat (c :: u8) \<in> set xs \<longleftrightarrow> c \<in> of_nat ` set xs"
proof
  assume "unat c \<in> set xs"
  then have "of_nat (unat c) \<in> (of_nat ` set xs :: u8 set)" by (rule imageI)
  then show "c \<in> of_nat ` set xs" by simp
qed (use assms in \<open>auto simp: list_all_iff unat_of_nat\<close>)

lemma mod3_cases:
  fixes i :: nat
  obtains (0) q where "i = 3 * q" | (1) q where "i = 3 * q + 1" | (2) q where "i = 3 * q + 2"
proof -
  have "i = 3 * (i div 3) \<or> i = 3 * (i div 3) + 1 \<or> i = 3 * (i div 3) + 2" by presburger
  then show thesis using that by blast
qed

lemma mod4_cases:
  fixes i :: nat
  obtains (0) q where "i = 4 * q" | (1) q where "i = 4 * q + 1" 
  | (2) q where "i = 4 * q + 2" | (3) q where "i = 4 * q + 3"
proof -
  have "i = 4 * (i div 4) \<or> i = 4 * (i div 4) + 1 \<or> i = 4 * (i div 4) + 2 \<or> i = 4 * (i div 4) + 3" by presburger
  then show thesis using that by blast
qed

lemma msb_index:
  fixes k n :: nat
  assumes "n < w" "k < m"
  shows "w * k + (w - 1) - n < w * m" "(w * k + (w - 1) - n) div w = k"
    "w - 1 - (w * k + (w - 1) - n) mod w = n"
proof -
  define r where "r = w - 1 - n"
  have r: "w * k + (w - 1) - n = w * k + r" "r < w" "w - 1 - r = n"
    using assms(1) by (auto simp: r_def)
  have "w * k + r < w * Suc k" using r(2) by simp
  also have "\<dots> \<le> w * m" using assms(2) by (intro mult_le_mono2) simp
  finally show "w * k + (w - 1) - n < w * m" by (simp only: r(1))
  show "(w * k + (w - 1) - n) div w = k" "w - 1 - (w * k + (w - 1) - n) mod w = n"
    unfolding r(1) using r(2,3) by simp_all
qed

lemma msb_index_split: "w * (p div w) + (w - 1) - (w - 1 - p mod w) = p" if "0 < w" for p w :: nat
proof -
  have "p mod w < w" using that by simp
  then have "w * (p div w) + (w - 1) - (w - 1 - p mod w) = w * (p div w) + p mod w" by simp
  then show ?thesis by simp
qed

subsection \<open>The contract of a binary/ASCII codec\<close>

text \<open>What the clients of an encoder and its checking decoder rely on: decoding undoes
  encoding, and a string is accepted only if it is the encoding of what it decodes to.\<close>

locale codec =
  fixes enc :: "'a \<Rightarrow> 'b" and dec :: "'b \<Rightarrow> 'a option" and valid :: "'a \<Rightarrow> bool"
  assumes dec_enc: "valid x \<Longrightarrow> dec (enc x) = Some x"
    and enc_dec: "dec s = Some x \<Longrightarrow> valid x \<and> enc x = s"
begin

lemma enc_inj: "valid x \<Longrightarrow> valid y \<Longrightarrow> enc x = enc y \<longleftrightarrow> x = y"
  using dec_enc by (metis option.inject)

lemma dec_inj: "dec s = Some x \<Longrightarrow> dec t = Some x \<Longrightarrow> s = t"
  using enc_dec by blast

lemma accepts_iff: "dec s = Some x \<longleftrightarrow> valid x \<and> s = enc x"
  using dec_enc enc_dec by blast

lemma accepts_range: "dec s \<noteq> None \<longleftrightarrow> (\<exists>x. valid x \<and> s = enc x)"
  using accepts_iff by blast

end

end
