(* ===== verification/Radix.thy ===== *)
theory Radix
  imports Prelude
begin

text \<open>
  The binary/ASCII codecs of \<^verbatim>\<open>libradix/radix.c\<close>: radix 64 for 128 bit UUIDs and
  radix 16 for addresses, MAC addresses and license keys.  Buffers are byte lists; the
  loops of the C code are folds over the index range, in the same order.
\<close>

section \<open>Radix 64\<close>

abbreviation RDATA :: nat where "RDATA \<equiv> 16"
abbreviation R64 :: nat where "R64 \<equiv> 23"

definition radix64 :: "u8 list" where
  "radix64 = cstr ''./0123456789ABCDEFGHIJKLMNOPQRSTUVWXYZabcdefghijklmnopqrstuvwxyz''"

definition enc64_step :: "u8 list \<Rightarrow> nat \<Rightarrow> u8 list \<Rightarrow> u8 list" where
  "enc64_step inb i out =
     (let i_div_6 = (8 * i) div 6;
          i_mod_6 = (8 * i) mod 6;
          v = (ucast (inb ! i) :: u32);
          out1 = out[i_div_6 := out ! i_div_6 OR ucast (drop_bit (2 + i_mod_6) v AND 0x3f)]
      in out1[Suc i_div_6 :=
           out1 ! Suc i_div_6 OR ucast (push_bit (4 - i_mod_6) v AND 0x3f)])"

definition enc64_digits :: "u8 list \<Rightarrow> u8 list" where
  "enc64_digits inb = fold (enc64_step inb) [0..<RDATA] (replicate R64 0)"

definition Udb_Radix64_Encode :: "u8 list \<Rightarrow> u8 list" where
  "Udb_Radix64_Encode inb =
     fold (\<lambda>i out. out[i := radix64 ! unat (out ! i)]) [0..<R64 - 1] (enc64_digits inb)"

definition digit64 :: "u8 \<Rightarrow> u32 option" where
  "digit64 c =
     (if ch CHR ''.'' \<le> c \<and> c \<le> ch CHR ''9'' then Some (ucast c - ucast (ch CHR ''.''))
      else if ch CHR ''A'' \<le> c \<and> c \<le> ch CHR ''Z'' then Some (ucast c + 12 - ucast (ch CHR ''A''))
      else if ch CHR ''a'' \<le> c \<and> c \<le> ch CHR ''z'' then Some (ucast c + 38 - ucast (ch CHR ''a''))
      else None)"

definition dec64_step :: "nat \<Rightarrow> u32 \<Rightarrow> u8 list \<Rightarrow> int \<times> u8 list" where
  "dec64_step i d out =
     (let i_div_8 = (4 * i + 2 * i) div 8;
          i_mod_8 = (4 * i + 2 * i) mod 8
      in if i_mod_8 < 3
         then (0, out[i_div_8 := out ! i_div_8 OR ucast (push_bit (2 - i_mod_8) d)])
         else (let carry = push_bit (10 - i_mod_8) d AND 0xff;
                   out1 = out[i_div_8 := out ! i_div_8 OR ucast (drop_bit (i_mod_8 - 2) d)]
               in if Suc i_div_8 < RDATA
                  then (0, out1[Suc i_div_8 := out1 ! Suc i_div_8 OR ucast carry])
                  else if carry \<noteq> 0 then (1, out1) else (0, out1)))"

fun dec64_loop :: "cstr \<Rightarrow> nat list \<Rightarrow> u8 list \<Rightarrow> int \<times> u8 list" where
  "dec64_loop s [] out = (if c_at s (R64 - 1) = 0 then (0, out) else (1, out))"
| "dec64_loop s (i # is) out =
     (case digit64 (c_at s i) of
        None \<Rightarrow> (1, out)
      | Some d \<Rightarrow> (case dec64_step i d out of
                     (r, out1) \<Rightarrow> if r \<noteq> 0 then (r, out1) else dec64_loop s is out1))"

definition Udb_Radix64_Decode :: "cstr \<Rightarrow> int \<times> u8 list" where
  "Udb_Radix64_Decode s = dec64_loop s [0..<R64 - 1] (replicate RDATA 0)"

subsection \<open>The digits are the bits of the input, most significant first\<close>

lemma length_enc64_step [simp]: "length (enc64_step inb i out) = length out"
  by (simp add: enc64_step_def Let_def)

lemma enc64_step_bit:
  assumes "length out = 23" "i < 16" "k < 23"
  shows "bit (enc64_step inb i out ! k) n \<longleftrightarrow> bit (out ! k) n \<or>
     (n < 6 \<and> 8 * i \<le> 6 * k + 5 - n \<and> 6 * k + 5 - n < 8 * i + 8 \<and>
      bit (inb ! i) (7 - (6 * k + 5 - n - 8 * i)))"
proof (cases i rule: mod3_cases)
  case (0 q)
  have "8 * (3 * q) div 6 = 4 * q" "8 * (3 * q) mod 6 = 0" by simp_all
  with 0 assms show ?thesis
    by (auto simp: enc64_step_def Let_def nth_list_update bit_simps dest: bit_imp_le_length)
next
  case (1 q)
  have "8 * (3 * q + 1) div 6 = 4 * q + 1" "8 * (3 * q + 1) mod 6 = 2" by presburger+
  with 1 assms show ?thesis
    by (cases "n < 4")
      (auto simp: enc64_step_def Let_def nth_list_update bit_simps dest: bit_imp_le_length)
next
  case (2 q)
  have "8 * (3 * q + 2) div 6 = 4 * q + 2" "8 * (3 * q + 2) mod 6 = 4" by presburger+
  with 2 assms show ?thesis
    by (cases "n < 2")
      (auto simp: enc64_step_def Let_def nth_list_update bit_simps dest: bit_imp_le_length)
qed

lemma length_fold_enc64_step [simp]: "length (fold (enc64_step inb) is out) = length out"
  by (induction "is" arbitrary: out) auto

lemma enc64_loop_bit:
  assumes "j \<le> 16" "k < 23"
  shows "bit (fold (enc64_step inb) [0..<j] (replicate 23 0) ! k) n \<longleftrightarrow>
     n < 6 \<and> 6 * k + 5 - n < 8 * j \<and>
     bit (inb ! ((6 * k + 5 - n) div 8)) (7 - (6 * k + 5 - n) mod 8)"
  using assms(1)
proof (induction j)
  case 0
  then show ?case using assms(2) by simp
next
  case (Suc j)
  let ?F = "\<lambda>j. fold (enc64_step inb) [0..<j] (replicate 23 0) ! k"
  obtain p where p: "6 * k + 5 - n = p" by simp
  have IH: "bit (?F j) n \<longleftrightarrow> n < 6 \<and> p < 8 * j \<and> bit (inb ! (p div 8)) (7 - p mod 8)"
    using Suc by (simp add: p)
  have F: "?F (Suc j) = enc64_step inb j (fold (enc64_step inb) [0..<j] (replicate 23 0)) ! k"
    by simp
  have "bit (?F (Suc j)) n \<longleftrightarrow> bit (?F j) n \<or>
     (n < 6 \<and> 8 * j \<le> p \<and> p < 8 * j + 8 \<and> bit (inb ! j) (7 - (p - 8 * j)))"
    unfolding F by (subst enc64_step_bit) (use Suc.prems assms(2) in \<open>simp_all add: p\<close>)
  moreover have "p div 8 = j \<and> p mod 8 = p - 8 * j" if "8 * j \<le> p" "p < 8 * j + 8"
    using that by presburger
  ultimately show ?case unfolding IH p by (cases "p < 8 * j") auto
qed

lemma enc64_digits_bit:
  "k < 23 \<Longrightarrow> bit (enc64_digits inb ! k) n \<longleftrightarrow>
     n < 6 \<and> 6 * k + 5 - n < 128 \<and>
     bit (inb ! ((6 * k + 5 - n) div 8)) (7 - (6 * k + 5 - n) mod 8)"
  using enc64_loop_bit [of 16 k inb n] by (simp add: enc64_digits_def)

lemma dec64_step_fst: "i < 22 \<Longrightarrow> fst (dec64_step i d out) = (if i = 21 \<and> push_bit 4 d AND 0xff \<noteq> 0 then 1 else 0)"
proof -
  assume "i < 22"
  then have "3 * i div 4 < 15 \<or> i = 20 \<or> i = 21" by presburger
  then show ?thesis by (auto simp: dec64_step_def Let_def)
qed

lemma length_dec64_step [simp]: "length (snd (dec64_step i d out)) = length out"
  by (simp add: dec64_step_def Let_def)

lemma bit_digit64:
  assumes "(d :: u32) < 64" "bit d j"
  shows "j < 6"
proof -
  have "d AND mask 6 = d" using assms(1) by (intro less_mask_eq) simp
  then have "bit (d AND mask 6) j" using assms(2) by simp
  then show ?thesis by (simp add: bit_simps)
qed

lemma dec64_step_bit:
  assumes "length out = 16" "i < 22" "k < 16" "d < 64"
  shows "bit (snd (dec64_step i d out) ! k) n \<longleftrightarrow> bit (out ! k) n \<or>
     (n < 8 \<and> 6 * i \<le> 8 * k + 7 - n \<and> 8 * k + 7 - n < 6 * i + 6 \<and>
      bit d (5 - (8 * k + 7 - n - 6 * i)))"
proof -
  note d = bit_digit64 [OF assms(4)]
  show ?thesis
proof (cases i rule: mod4_cases)
  case (0 q)
  have "6 * (4 * q) div 8 = 3 * q" "6 * (4 * q) mod 8 = 0" by presburger+
  with 0 assms show ?thesis
    by (auto simp: dec64_step_def Let_def nth_list_update bit_simps dest: d)
next
  case (1 q)
  have "6 * (4 * q + 1) div 8 = 3 * q" "6 * (4 * q + 1) mod 8 = 6" by presburger+
  with 1 assms show ?thesis
    by (cases "n < 2") (auto simp: dec64_step_def Let_def nth_list_update bit_simps dest: d)
next
  case (2 q)
  have "6 * (4 * q + 2) div 8 = 3 * q + 1" "6 * (4 * q + 2) mod 8 = 4" by presburger+
  with 2 assms show ?thesis
    by (cases "n < 4") (auto simp: dec64_step_def Let_def nth_list_update bit_simps dest: d)
next
  case (3 q)
  have "6 * (4 * q + 3) div 8 = 3 * q + 2" "6 * (4 * q + 3) mod 8 = 2" by presburger+
  with 3 assms show ?thesis
    by (cases "n < 6") (auto simp: dec64_step_def Let_def nth_list_update bit_simps dest: d)
qed
qed

lemma dec64_loop_ok:
  assumes "length out = 16" "j \<le> 22" "c_at s 22 = 0" "push_bit 4 (ds 21) AND 0xff = (0 :: u32)"
    and "\<And>i. j \<le> i \<Longrightarrow> i < 22 \<Longrightarrow> digit64 (c_at s i) = Some (ds i) \<and> ds i < 64"
  shows "\<exists>out'. dec64_loop s [j..<22] out = (0, out') \<and> length out' = 16 \<and>
     (\<forall>k<16. \<forall>n. bit (out' ! k) n \<longleftrightarrow> bit (out ! k) n \<or>
       (n < 8 \<and> 6 * j \<le> 8 * k + 7 - n \<and> bit (ds ((8 * k + 7 - n) div 6)) (5 - (8 * k + 7 - n) mod 6)))"
  using assms(2,1,5)
proof (induction j arbitrary: out rule: inc_induct)
  case base
  then show ?case using assms(3) by auto
next
  case (step j)
  let ?out = "snd (dec64_step j (ds j) out)"
  have fs: "fst (dec64_step j (ds j) out) = 0"
    using step.hyps assms(4) by (simp add: dec64_step_fst)
  have bt: "bit (?out ! k) n \<longleftrightarrow> bit (out ! k) n \<or>
     (n < 8 \<and> 6 * j \<le> 8 * k + 7 - n \<and> 8 * k + 7 - n < 6 * j + 6 \<and>
      bit (ds j) (5 - (8 * k + 7 - n - 6 * j)))" if "k < 16" for k n
    using dec64_step_bit [of out j k "ds j" n] that step by simp
  have "\<exists>out'. dec64_loop s [Suc j..<22] ?out = (0, out') \<and> length out' = 16 \<and>
    (\<forall>k<16. \<forall>n. bit (out' ! k) n \<longleftrightarrow> bit (?out ! k) n \<or>
       (n < 8 \<and> 6 * Suc j \<le> 8 * k + 7 - n \<and> bit (ds ((8 * k + 7 - n) div 6)) (5 - (8 * k + 7 - n) mod 6)))"
    by (rule step.IH) (use step.prems in auto)
  then obtain out' where o: "dec64_loop s [Suc j..<22] ?out = (0, out')" "length out' = 16"
    "\<forall>k<16. \<forall>n. bit (out' ! k) n \<longleftrightarrow> bit (?out ! k) n \<or>
       (n < 8 \<and> 6 * Suc j \<le> 8 * k + 7 - n \<and> bit (ds ((8 * k + 7 - n) div 6)) (5 - (8 * k + 7 - n) mod 6))"
    by blast
  have "bit (out' ! k) n \<longleftrightarrow> bit (out ! k) n \<or>
       (n < 8 \<and> 6 * j \<le> 8 * k + 7 - n \<and> bit (ds ((8 * k + 7 - n) div 6)) (5 - (8 * k + 7 - n) mod 6))"
    if "k < 16" for k n
  proof -
    obtain p where p: "8 * k + 7 - n = p" by simp
    have "p div 6 = j \<and> p mod 6 = p - 6 * j" if "6 * j \<le> p" "p < 6 * j + 6"
      using that by presburger
    moreover have "bit (out' ! k) n \<longleftrightarrow> (bit (out ! k) n \<or>
        (n < 8 \<and> 6 * j \<le> p \<and> p < 6 * j + 6 \<and> bit (ds j) (5 - (p - 6 * j)))) \<or>
        (n < 8 \<and> 6 * Suc j \<le> p \<and> bit (ds (p div 6)) (5 - p mod 6))"
      using o(3) bt that by (simp add: p del: diff_diff_left)
    ultimately show ?thesis unfolding p by (cases "p < 6 * j + 6") auto
  qed
  moreover have "dec64_loop s [j..<22] out = (0, out')"
    using step fs o(1) by (simp add: upt_conv_Cons split_def)
  ultimately show ?case using o(2) by blast
qed

lemma dec64_loop_inv:
  assumes "dec64_loop s is out = (0, out')" "set is \<subseteq> {..<22}"
  shows "(\<forall>i\<in>set is. digit64 (c_at s i) \<noteq> None) \<and> c_at s 22 = 0 \<and>
     (21 \<in> set is \<longrightarrow> push_bit 4 (the (digit64 (c_at s 21))) AND 0xff = 0)"
  using assms
proof (induction s "is" out rule: dec64_loop.induct)
  case (2 s i "is" out)
  from "2.prems" obtain d where d: "digit64 (c_at s i) = Some d"
    by (auto split: option.splits)
  have r: "fst (dec64_step i d out) = 0" "dec64_loop s is (snd (dec64_step i d out)) = (0, out')"
    using "2.prems" d by (auto simp: split_def split: if_splits)
  then have "i = 21 \<longrightarrow> push_bit 4 d AND 0xff = 0"
    by (auto simp: dec64_step_fst split: if_splits)
  moreover have "(\<forall>i\<in>set is. digit64 (c_at s i) \<noteq> None) \<and> c_at s 22 = 0 \<and>
     (21 \<in> set is \<longrightarrow> push_bit 4 (the (digit64 (c_at s 21))) AND 0xff = 0)"
    using "2.IH" [OF d prod.collapse] r "2.prems"(2) by simp
  ultimately show ?case using d by auto
qed (auto split: if_splits)

lemma length_enc64_digits [simp]: "length (enc64_digits inb) = 23"
  by (simp add: enc64_digits_def)

lemma Radix64_Encode_eq:
  shows
  "Udb_Radix64_Encode inb = map (\<lambda>x. radix64 ! unat x) (take 22 (enc64_digits inb)) @ [0]"
proof -
  have "enc64_digits inb ! 22 = 0"
    by (rule bit_eqI) (auto simp: enc64_digits_bit)
  then have "drop 22 (enc64_digits inb) = [0]"
    by (intro nth_equalityI) auto
  then show ?thesis
    using fold_update_map [of 22 "enc64_digits inb" "\<lambda>x. radix64 ! unat x"]
    by (simp add: Udb_Radix64_Encode_def)
qed

lemma enc64_digit_less: "k < 23 \<Longrightarrow> enc64_digits inb ! k < 64"
  using word_less_exp_bit [of 6 "enc64_digits inb ! k"] by (simp add: enc64_digits_bit)

lemma radix64_ranges: "radix64 = map of_nat ([46..<58] @ [65..<91] @ [97..<123])"
  by (simp add: radix64_def cstr_def)

lemma map_digit64: "map digit64 radix64 = map (\<lambda>i. Some (of_nat i)) [0..<64]"
  by (simp add: radix64_ranges digit64_def upt_0_unfold)

lemma length_radix64 [simp]: "length radix64 = 64"
  by (simp add: radix64_def)

lemma digit64_nth: "i < 64 \<Longrightarrow> digit64 (radix64 ! i) = Some (of_nat i)"
  using arg_cong [OF map_digit64, of "\<lambda>xs. xs ! i"] by simp

lemma digit64_radix64: "x < 64 \<Longrightarrow> digit64 (radix64 ! unat x) = Some (ucast x)"
  for x :: u8
  using digit64_nth [of "unat x"] by (simp add: word_less_nat_alt)

lemma digit64_SomeD:
  assumes "digit64 c = Some d"
  shows "d < 64 \<and> radix64 ! unat d = c"
proof -
  have "unat c \<in> set ([46..<58] @ [65..<91] @ [97..<123])"
    using assms unfolding digit64_def set_append set_upt
    by (simp add: word_le_nat_alt less_Suc_eq_le split: if_splits)
  then have "of_nat (unat c) \<in> set radix64" unfolding radix64_ranges set_map by (rule imageI)
  then obtain i where i: "i < 64" "c = radix64 ! i" by (auto simp: in_set_conv_nth)
  with assms digit64_nth have "d = of_nat i" by simp
  with i show ?thesis by (simp add: word_less_nat_alt unat_of_nat)
qed

lemma Radix64_decode_encode:
  assumes "length b = 16"
  shows "Udb_Radix64_Decode (take 22 (Udb_Radix64_Encode b)) = (0, b)"
proof -
  let ?s = "take 22 (Udb_Radix64_Encode b)"
  let ?d = "\<lambda>i. ucast (enc64_digits b ! i) :: u32"
  have s: "?s = map (\<lambda>x. radix64 ! unat x) (take 22 (enc64_digits b))"
    by (simp add: Radix64_Encode_eq)
  have dig: "digit64 (c_at ?s i) = Some (?d i)" if "i < 22" for i
    using that enc64_digit_less [of i b] by (simp add: s digit64_radix64)
  have less: "?d i < 64" if "i < 22" for i
  proof -
    have "?d i < 2 ^ 6"
      using that by (intro word_less_exp_bit) (auto simp: bit_simps enc64_digits_bit)
    then show ?thesis by simp
  qed
  have last: "push_bit 4 (?d 21) AND 0xff = 0"
    by (rule bit_eqI) (auto simp: bit_simps enc64_digits_bit)
  have "\<exists>out'. dec64_loop ?s [0..<22] (replicate 16 0) = (0, out') \<and> length out' = 16 \<and>
     (\<forall>k<16. \<forall>n. bit (out' ! k) n \<longleftrightarrow> bit (replicate 16 (0::u8) ! k) n \<or>
       (n < 8 \<and> 6 * 0 \<le> 8 * k + 7 - n \<and> bit (?d ((8 * k + 7 - n) div 6)) (5 - (8 * k + 7 - n) mod 6)))"
    using dig less last by (intro dec64_loop_ok) (auto simp: s c_at_def)
  then obtain out' where o: "dec64_loop ?s [0..<22] (replicate 16 0) = (0, out')" "length out' = 16"
     "\<And>k n. k < 16 \<Longrightarrow> bit (out' ! k) n \<longleftrightarrow>
       n < 8 \<and> bit (?d ((8 * k + 7 - n) div 6)) (5 - (8 * k + 7 - n) mod 6)"
    by auto
  have "out' ! k = b ! k" if k: "k < 16" for k
  proof (rule bit_word_eqI)
    fix n assume "n < LENGTH(8)"
    then have n: "n < 8" by simp
    obtain p where p: "8 * k + 7 - n = p" by simp
    have "p < 128" "p div 8 = k" "7 - p mod 8 = n"
      using msb_index [OF n k] by (simp_all add: p)
    moreover have "6 * (p div 6) + 5 - (5 - p mod 6) = p"
      using msb_index_split [of 6 p] by simp
    moreover have "5 - p mod 6 < 6" "p div 6 < 23" using \<open>p < 128\<close> by auto
    ultimately show "bit (out' ! k) n = bit (b ! k) n"
      using o(3) [OF k, of n] n by (simp add: bit_simps enc64_digits_bit p)
  qed
  then have "out' = b" using o(2) assms by (intro nth_equalityI) auto
  then show ?thesis using o(1) by (simp add: Udb_Radix64_Decode_def)
qed

lemma Radix64_Decode_okD:
  assumes "no_nul s" "Udb_Radix64_Decode s = (0, b)"
  defines "d \<equiv> \<lambda>i. the (digit64 (c_at s i))"
  shows "length s = 22" "length b = 16" "push_bit 4 (d 21) AND 0xff = 0"
    and "\<And>i. i < 22 \<Longrightarrow> d i < 64 \<and> radix64 ! unat (d i) = s ! i"
    and "\<And>k n. k < 16 \<Longrightarrow> bit (b ! k) n \<longleftrightarrow>
       n < 8 \<and> bit (d ((8 * k + 7 - n) div 6)) (5 - (8 * k + 7 - n) mod 6)"
proof -
  have inv: "(\<forall>i\<in>set [0..<22]. digit64 (c_at s i) \<noteq> None) \<and> c_at s 22 = 0 \<and>
     (21 \<in> set [0..<22] \<longrightarrow> push_bit 4 (the (digit64 (c_at s 21))) AND 0xff = 0)"
    using assms(2) by (intro dec64_loop_inv) (auto simp: Udb_Radix64_Decode_def)
  then have dig: "digit64 (c_at s i) = Some (d i)" if "i < 22" for i
    using that by (force simp: d_def)
  show last: "push_bit 4 (d 21) AND 0xff = 0" using inv by (simp add: d_def)
  have "\<not> 22 < length s"
    using inv assms(1) unfolding no_nul_def by (metis c_at_less nth_mem)
  moreover have "\<not> length s < 22"
    using dig [of "length s"] by (auto simp: digit64_def)
  ultimately show len: "length s = 22" by simp
  show less: "d i < 64 \<and> radix64 ! unat (d i) = s ! i" if "i < 22" for i
    using that dig [OF that] digit64_SomeD len by (metis c_at_less)
  have "\<exists>out'. dec64_loop s [0..<22] (replicate 16 0) = (0, out') \<and> length out' = 16 \<and>
     (\<forall>k<16. \<forall>n. bit (out' ! k) n \<longleftrightarrow> bit (replicate 16 (0::u8) ! k) n \<or>
       (n < 8 \<and> 6 * 0 \<le> 8 * k + 7 - n \<and> bit (d ((8 * k + 7 - n) div 6)) (5 - (8 * k + 7 - n) mod 6)))"
    using dig less last inv by (intro dec64_loop_ok) auto
  then show "length b = 16" "\<And>k n. k < 16 \<Longrightarrow> bit (b ! k) n \<longleftrightarrow>
       n < 8 \<and> bit (d ((8 * k + 7 - n) div 6)) (5 - (8 * k + 7 - n) mod 6)"
    using assms(2) by (auto simp: Udb_Radix64_Decode_def)
qed

lemma enc64_digits_decoded:
  assumes b: "\<And>k n. k < 16 \<Longrightarrow> bit (b ! k) n \<longleftrightarrow>
       n < 8 \<and> bit (d ((8 * k + 7 - n) div 6)) (5 - (8 * k + 7 - n) mod 6)"
    and last: "push_bit 4 (d 21) AND 0xff = (0 :: u32)" and k: "k < 22" and "n < 6"
  shows "bit (enc64_digits b ! k) n \<longleftrightarrow> bit (d k) n"
proof -
  obtain p where p: "6 * k + 5 - n = p" by simp
  have i: "p < 132" "p div 6 = k" "5 - p mod 6 = n"
    using msb_index [OF \<open>n < 6\<close> k] by (simp_all add: p)
  have j: "8 * (p div 8) + 7 - (7 - p mod 8) = p" using msb_index_split [of 8 p] by simp
  have e: "bit (enc64_digits b ! k) n \<longleftrightarrow> p < 128 \<and> bit (b ! (p div 8)) (7 - p mod 8)"
    using k \<open>n < 6\<close> by (simp add: enc64_digits_bit p)
  show ?thesis
  proof (cases "p < 128")
    case True
    then have "p div 8 < 16" "7 - p mod 8 < 8" by simp_all
    with True e i j b [of "p div 8" "7 - p mod 8"] show ?thesis by simp
  next
    case False
    then have "p = 128 \<or> p = 129 \<or> p = 130 \<or> p = 131" using i(1) by linarith
    then have "k = 21" "n < 4" using i(2,3) by auto
    moreover have "bit (push_bit 4 (d 21) AND 0xff) (n + 4) \<longleftrightarrow> bit (d 21) n"
      using \<open>n < 4\<close> by (auto simp: bit_simps)
    ultimately show ?thesis using e False last by simp
  qed
qed

lemma Radix64_encode_decode:
  assumes "no_nul s" "Udb_Radix64_Decode s = (0, b)"
  shows "length b = 16 \<and> s = take 22 (Udb_Radix64_Encode b)"
proof -
  let ?d = "\<lambda>i. the (digit64 (c_at s i))"
  note D = Radix64_Decode_okD [OF assms]
  have "ucast (enc64_digits b ! k) = ?d k" if k: "k < 22" for k
  proof (rule bit_word_eqI)
    fix n :: nat
    show "bit (ucast (enc64_digits b ! k) :: u32) n = bit (?d k) n"
      using k enc64_digits_decoded [OF D(5,3) k, of n] D(4) [OF k] bit_digit64 [of "?d k" n]
      by (cases "n < 6") (auto simp: bit_simps enc64_digits_bit)
  qed
  then have "unat (enc64_digits b ! k) = unat (?d k)" if "k < 22" for k
    using that by (metis unat_ucast_u8)
  then have "s = take 22 (Udb_Radix64_Encode b)"
    using D(1,4) by (intro nth_equalityI) (auto simp: Radix64_Encode_eq)
  with D(2) show ?thesis by simp
qed

section \<open>Radix 16\<close>

definition radix16 :: "u8 list" where
  "radix16 = cstr ''0123456789abcdef''"

definition Udb_Radix16_Encode :: "u8 list \<Rightarrow> nat \<Rightarrow> cstr" where
  "Udb_Radix16_Encode inb octets =
     concat (map (\<lambda>i. [radix16 ! unat (drop_bit 4 (inb ! i) AND 0xf),
                      radix16 ! unat (inb ! i AND 0xf)]) [0..<octets])"

definition hex_digit :: "u8 \<Rightarrow> u32 option" where
  "hex_digit c =
     (if ch CHR ''0'' \<le> c \<and> c \<le> ch CHR ''9'' then Some (ucast c - ucast (ch CHR ''0''))
      else if ch CHR ''A'' \<le> c \<and> c \<le> ch CHR ''F'' then Some (ucast c - ucast (ch CHR ''A'') + 10)
      else if ch CHR ''a'' \<le> c \<and> c \<le> ch CHR ''f'' then Some (ucast c - ucast (ch CHR ''a'') + 10)
      else None)"

text \<open>The octet count is not bounded here; the doubling in the code wraps for counts from \<open>2 ^ 31\<close> on, which no caller gives.\<close>

function dec16_loop :: "cstr \<Rightarrow> nat \<Rightarrow> nat \<Rightarrow> u8 list \<Rightarrow> int \<times> u8 list" where
  "dec16_loop s octets p out =
     (if c_at s p \<noteq> 0 \<and> p < 2 * octets
      then case hex_digit (c_at s p) of
             None \<Rightarrow> (1, out)
           | Some hex \<Rightarrow>
               dec16_loop s octets (Suc p)
                 (if odd p then out[p div 2 := out ! (p div 2) OR ucast hex]
                  else out[p div 2 := ucast (push_bit 4 hex)])
      else if c_at s p \<noteq> 0 \<or> p \<noteq> 2 * octets then (1, out) else (0, out))"
  by pat_completeness auto
termination
  by (relation "measure (\<lambda>(s, octets, p, out). 2 * octets - p)") auto

declare dec16_loop.simps [simp del]

definition Udb_Radix16_Decode :: "cstr \<Rightarrow> nat \<Rightarrow> u8 list \<Rightarrow> int \<times> u8 list" where
  "Udb_Radix16_Decode s octets out = dec16_loop s octets 0 out"

definition hex_byte :: "cstr \<Rightarrow> nat \<Rightarrow> u8" where
  "hex_byte s k =
     ucast (push_bit 4 (the (hex_digit (s ! (2 * k))))) OR
     ucast (the (hex_digit (s ! Suc (2 * k))))"

lemma radix16_ranges: "radix16 = map of_nat ([48..<58] @ [97..<103])"
  by (simp add: radix16_def cstr_def)

lemma length_radix16 [simp]: "length radix16 = 16"
  by (simp add: radix16_def)

lemma hex_digit_nth: "i < 16 \<Longrightarrow> hex_digit (radix16 ! i) = Some (of_nat i)"
proof -
  have "map hex_digit radix16 = map (\<lambda>i. Some (of_nat i)) [0..<16]"
    by (simp add: radix16_ranges hex_digit_def upt_0_unfold)
  from arg_cong [OF this, of "\<lambda>xs. xs ! i"] show "i < 16 \<Longrightarrow> ?thesis" by simp
qed

lemma hex_digit_0 [simp]: "hex_digit 0 = None"
  by (simp add: hex_digit_def)

lemma hex_digit_less: "hex_digit c = Some d \<Longrightarrow> d < 16"
  by (auto simp: hex_digit_def word_less_nat_alt word_le_nat_alt unat_sub_if' unat_word_ariths unat_ucast_u8 split: if_splits)

lemma dec16_loop_ok:
  assumes "length s = 2 * n" "no_nul s" "\<forall>c\<in>set s. hex_digit c \<noteq> None" "k \<le> n" "length out = n"
  shows "dec16_loop s n (2 * k) out = (0, take k out @ map (hex_byte s) [k..<n])"
  using assms(4,5)
proof (induction k arbitrary: out rule: inc_induct)
  case base
  then show ?case using assms(1) by (simp add: dec16_loop.simps c_at_def)
next
  case (step k)
  have dig: "\<exists>h. hex_digit (s ! i) = Some h" "s ! i \<noteq> 0" if "i < 2 * n" for i
    using that assms(1-3) unfolding no_nul_def by (metis nth_mem option.collapse)+
  have k: "2 * k < 2 * n" "Suc (2 * k) < 2 * n" using step.hyps by simp_all
  obtain h0 h1 where h: "hex_digit (s ! (2 * k)) = Some h0" "hex_digit (s ! Suc (2 * k)) = Some h1"
    using dig(1) k by blast
  let ?out = "out[k := hex_byte s k]"
  have "dec16_loop s n (2 * k) out = dec16_loop s n (2 * Suc k) ?out"
    using k h dig(2) step.prems assms(1)
    by (subst dec16_loop.simps, subst dec16_loop.simps) (simp add: hex_byte_def)
  also have "\<dots> = (0, take (Suc k) ?out @ map (hex_byte s) [Suc k..<n])"
    using step by (intro step.IH) simp
  also have "take (Suc k) ?out = take k out @ [hex_byte s k]"
    using step by (simp add: take_Suc_conv_app_nth)
  finally show ?case using step.hyps by (simp add: upt_conv_Cons)
qed

lemma dec16_loop_inv:
  assumes "fst (dec16_loop s n p out) = 0" "p \<le> 2 * n"
  shows "(\<forall>i. p \<le> i \<and> i < 2 * n \<longrightarrow> hex_digit (c_at s i) \<noteq> None) \<and> c_at s (2 * n) = 0"
  using assms
proof (induction s n p out rule: dec16_loop.induct)
  case (1 s n p out)
  show ?case
  proof (cases "c_at s p \<noteq> 0 \<and> p < 2 * n")
    case True
    with "1.prems" obtain h where h: "hex_digit (c_at s p) = Some h"
      by (auto simp: dec16_loop.simps [of s n p out] split: option.splits)
    with True "1.prems" have "fst (dec16_loop s n (Suc p) (if odd p then out[p div 2 := out ! (p div 2) OR ucast h]
          else out[p div 2 := ucast (push_bit 4 h)])) = 0"
      by (simp add: dec16_loop.simps [of s n p out])
    from "1.IH" [OF True h this] True have
      "\<forall>i. Suc p \<le> i \<and> i < 2 * n \<longrightarrow> hex_digit (c_at s i) \<noteq> None" "c_at s (2 * n) = 0" by auto
    moreover have "p \<le> i \<Longrightarrow> i = p \<or> Suc p \<le> i" for i by auto
    ultimately show ?thesis using h by blast
  next
    case False
    then show ?thesis using "1.prems" by (auto simp: dec16_loop.simps [of s n p out] split: if_splits)
  qed
qed

lemma Radix16_decode_iff:
  assumes "no_nul s" "length out = n"
  shows "fst (Udb_Radix16_Decode s n out) = 0 \<longleftrightarrow>
     length s = 2 * n \<and> (\<forall>c\<in>set s. hex_digit c \<noteq> None)"
proof
  assume "fst (Udb_Radix16_Decode s n out) = 0"
  then have i: "\<And>i. i < 2 * n \<Longrightarrow> hex_digit (c_at s i) \<noteq> None" "c_at s (2 * n) = 0"
    using dec16_loop_inv [of s n 0 out] by (auto simp: Udb_Radix16_Decode_def)
  have "\<not> 2 * n < length s" using i(2) assms(1) unfolding no_nul_def by (metis c_at_less nth_mem)
  moreover have "\<not> length s < 2 * n" using i(1) [of "length s"] by auto
  ultimately have "length s = 2 * n" by simp
  with i(1) show "length s = 2 * n \<and> (\<forall>c\<in>set s. hex_digit c \<noteq> None)"
    by (metis c_at_less in_set_conv_nth)
next
  assume "length s = 2 * n \<and> (\<forall>c\<in>set s. hex_digit c \<noteq> None)"
  then show "fst (Udb_Radix16_Decode s n out) = 0"
    using dec16_loop_ok [of s n 0 out] assms by (simp add: Udb_Radix16_Decode_def)
qed

lemma Radix16_decode_value:
  assumes "no_nul s" "length out = n" "fst (Udb_Radix16_Decode s n out) = 0"
  shows "snd (Udb_Radix16_Decode s n out) = map (hex_byte s) [0..<n]"
  using assms dec16_loop_ok [of s n 0 out] Radix16_decode_iff [of s out n]
  by (simp add: Udb_Radix16_Decode_def)

lemma length_Radix16_Encode [simp]: "length (Udb_Radix16_Encode b n) = 2 * n"
  by (induction n) (simp_all add: Udb_Radix16_Encode_def)

lemma nth_Radix16_Encode:
  "i < n \<Longrightarrow> Udb_Radix16_Encode b n ! (2 * i) = radix16 ! unat (drop_bit 4 (b ! i) AND 0xf)"
  "i < n \<Longrightarrow> Udb_Radix16_Encode b n ! Suc (2 * i) = radix16 ! unat (b ! i AND 0xf)"
proof (induction n)
  case (Suc n)
  have E: "Udb_Radix16_Encode b (Suc n) = Udb_Radix16_Encode b n @
     [radix16 ! unat (drop_bit 4 (b ! n) AND 0xf), radix16 ! unat (b ! n AND 0xf)]"
    by (simp add: Udb_Radix16_Encode_def)
  { case 1 then show ?case using Suc by (cases "i = n") (simp_all add: E nth_append) }
  { case 2 then show ?case using Suc by (cases "i = n") (auto simp add: E nth_append) }
qed simp_all

lemma nibble_less: "unat ((x :: u8) AND 0xf) < 16"
proof -
  have "x AND 0xf < 2 ^ 4" by (rule word_less_exp_bit) (auto simp: bit_simps)
  then show ?thesis by (simp add: word_less_nat_alt)
qed

lemma Radix16_decode_encode:
  assumes "length b = n" "length out = n"
  shows "Udb_Radix16_Decode (Udb_Radix16_Encode b n) n out = (0, b)"
proof -
  let ?s = "Udb_Radix16_Encode b n"
  have nth: "hex_digit (?s ! i) = Some (of_nat (unat ((if even i then drop_bit 4 (b ! (i div 2)) else b ! (i div 2)) AND 0xf)))"
    if "i < 2 * n" for i
  proof (cases "even i")
    case True
    then obtain j where "i = 2 * j" by blast
    then show ?thesis using that by (simp add: nth_Radix16_Encode hex_digit_nth nibble_less)
  next
    case False
    then obtain j where "i = Suc (2 * j)" using oddE by fastforce
    then show ?thesis using that by (simp add: nth_Radix16_Encode hex_digit_nth nibble_less)
  qed
  have "\<forall>c\<in>set ?s. hex_digit c \<noteq> None" using nth by (auto simp: in_set_conv_nth)
  moreover from this have "no_nul ?s" unfolding no_nul_def by (metis hex_digit_0)
  ultimately have D: "Udb_Radix16_Decode ?s n out = (0, map (hex_byte ?s) [0..<n])"
    using dec16_loop_ok [of ?s n 0 out] assms by (simp add: Udb_Radix16_Decode_def)
  have "hex_byte ?s i = b ! i" if "i < n" for i
    unfolding hex_byte_def using that nth [of "2 * i"] nth [of "Suc (2 * i)"]
    by (intro bit_eqI) (auto simp: bit_simps)
  then have "map (hex_byte ?s) [0..<n] = b" using assms by (intro nth_equalityI) auto
  with D show ?thesis by simp
qed

lemma radix16_hex_digit: "c \<in> set radix16 \<Longrightarrow> radix16 ! unat (the (hex_digit c)) = c"
  by (auto simp: in_set_conv_nth hex_digit_nth unat_of_nat)

lemma radix16_hex_digit_Some: "c \<in> set radix16 \<Longrightarrow> hex_digit c \<noteq> None"
  by (auto simp: in_set_conv_nth hex_digit_nth)

lemma nibbles_of_byte:
  fixes h0 h1 :: u32
  assumes "h0 < 16" "h1 < 16"
  shows "unat (drop_bit 4 (ucast (push_bit 4 h0) OR ucast h1 :: u8) AND 0xf) = unat h0"
    and "unat ((ucast (push_bit 4 h0) OR ucast h1 :: u8) AND 0xf) = unat h1"
proof -
  have b: "bit h n \<Longrightarrow> n < 4" if "h < 16" for h :: u32 and n
  proof -
    have "h AND mask 4 = h" using that by (intro less_mask_eq) simp
    moreover assume "bit h n"
    ultimately have "bit (h AND mask 4) n" by simp
    then show ?thesis by (simp add: bit_simps)
  qed
  note b' = b [OF assms(1)] b [OF assms(2)]
  have "ucast (drop_bit 4 (ucast (push_bit 4 h0) OR ucast h1 :: u8) AND 0xf) = h0"
    "ucast ((ucast (push_bit 4 h0) OR ucast h1 :: u8) AND 0xf) = h1"
    by (rule bit_word_eqI, auto simp: bit_simps dest: b')+
  then show "unat (drop_bit 4 (ucast (push_bit 4 h0) OR ucast h1 :: u8) AND 0xf) = unat h0"
    "unat ((ucast (push_bit 4 h0) OR ucast h1 :: u8) AND 0xf) = unat h1"
    by (metis unat_ucast_u8)+
qed

lemma Radix16_encode_decode:
  assumes "set s \<subseteq> set radix16" "length s = 2 * n" "length out = n"
  shows "fst (Udb_Radix16_Decode s n out) = 0 \<and>
     Udb_Radix16_Encode (snd (Udb_Radix16_Decode s n out)) n = s"
proof -
  have hex: "\<forall>c\<in>set s. hex_digit c \<noteq> None" using assms(1) radix16_hex_digit_Some by blast
  then have nn: "no_nul s" unfolding no_nul_def by (metis hex_digit_0)
  let ?b = "map (hex_byte s) [0..<n]"
  have ok: "fst (Udb_Radix16_Decode s n out) = 0" using Radix16_decode_iff assms hex nn by blast
  have b: "snd (Udb_Radix16_Decode s n out) = ?b" by (rule Radix16_decode_value [OF nn assms(3) ok])
  have dig: "the (hex_digit (s ! i)) < 16 \<and> radix16 ! unat (the (hex_digit (s ! i))) = s ! i"
    if "i < 2 * n" for i
    using that assms(1,2) hex hex_digit_less radix16_hex_digit
    by (metis nth_mem option.collapse subsetD)
  have pair: "Udb_Radix16_Encode ?b n ! (2 * k) = s ! (2 * k) \<and>
      Udb_Radix16_Encode ?b n ! Suc (2 * k) = s ! Suc (2 * k)" if "k < n" for k
    using that dig [of "2 * k"] dig [of "Suc (2 * k)"]
    by (simp add: nth_Radix16_Encode hex_byte_def nibbles_of_byte del: drop_bit_or)
  have "Udb_Radix16_Encode ?b n ! i = s ! i" if "i < 2 * n" for i
    using that pair [of "i div 2"] by (cases "even i") (auto elim!: evenE oddE)
  then have "Udb_Radix16_Encode ?b n = s" using assms(2) by (intro nth_equalityI) auto
  with ok b show ?thesis by simp
qed

section \<open>The codec contract\<close>

text \<open>The two codecs as their callers use them: the NUL terminated text of an identifier,
  and the decoded bytes when the decoder returned 0.\<close>

definition uuid_text :: "u8 list \<Rightarrow> cstr" where
  "uuid_text b = take (R64 - 1) (Udb_Radix64_Encode b)"

definition uuid_bytes :: "cstr \<Rightarrow> u8 list option" where
  "uuid_bytes s =
     (if no_nul s \<and> fst (Udb_Radix64_Decode s) = 0 then Some (snd (Udb_Radix64_Decode s)) else None)"

definition hex_text :: "nat \<Rightarrow> u8 list \<Rightarrow> cstr" where
  "hex_text n b = Udb_Radix16_Encode b n"

definition hex_bytes :: "nat \<Rightarrow> cstr \<Rightarrow> u8 list option" where
  "hex_bytes n s =
     (if set s \<subseteq> set radix16 \<and> fst (Udb_Radix16_Decode s n (replicate n 0)) = 0
      then Some (snd (Udb_Radix16_Decode s n (replicate n 0))) else None)"

lemma no_nul_uuid_text: "no_nul (uuid_text b)"
proof -
  have "radix64 ! unat (enc64_digits b ! k) \<noteq> 0" if "k < 22" for k
  proof -
    have "digit64 (radix64 ! unat (enc64_digits b ! k)) \<noteq> None"
      using digit64_radix64 [OF enc64_digit_less, of k b] that by simp
    then show ?thesis by (auto simp: digit64_def)
  qed
  then show ?thesis
    by (force simp: uuid_text_def no_nul_def Radix64_Encode_eq in_set_conv_nth)
qed

lemma no_nul_radix16: "set s \<subseteq> set radix16 \<Longrightarrow> no_nul s"
  unfolding no_nul_def by (metis hex_digit_0 radix16_hex_digit_Some subsetD)

lemma set_hex_text: "set (hex_text n b) \<subseteq> set radix16"
  unfolding hex_text_def Udb_Radix16_Encode_def by (auto simp: nibble_less)

interpretation uuid64: codec uuid_text uuid_bytes "\<lambda>b. length b = RDATA"
proof
  show "uuid_bytes (uuid_text b) = Some b" if "length b = RDATA" for b
    using that no_nul_uuid_text Radix64_decode_encode [of b] by (simp add: uuid_bytes_def uuid_text_def)
  show "length b = RDATA \<and> uuid_text b = s" if "uuid_bytes s = Some b" for s b
    using that Radix64_encode_decode [of s b]
    by (cases "Udb_Radix64_Decode s") (auto simp: uuid_bytes_def uuid_text_def split: if_splits)
qed

interpretation hex16: codec "hex_text n" "hex_bytes n" "\<lambda>b. length b = n" for n
proof
  show "hex_bytes n (hex_text n b) = Some b" if "length b = n" for b
    using that set_hex_text by (simp add: hex_bytes_def hex_text_def Radix16_decode_encode)
  show "length b = n \<and> hex_text n b = s" if "hex_bytes n s = Some b" for s b
  proof -
    from that have s: "set s \<subseteq> set radix16" "fst (Udb_Radix16_Decode s n (replicate n 0)) = 0"
      and b: "b = snd (Udb_Radix16_Decode s n (replicate n 0))"
      by (auto simp: hex_bytes_def split: if_splits)
    then have "length s = 2 * n"
      using Radix16_decode_iff [of s "replicate n 0" n] no_nul_radix16 by simp
    then show ?thesis
      using s b Radix16_encode_decode [of s n "replicate n 0"] Radix16_decode_value [of s "replicate n 0" n]
        no_nul_radix16 by (simp add: hex_text_def)
  qed
qed

section \<open>Properties\<close>

text \<open>C14: the radix 64 decoder returns 0 on a C string exactly when that string is the 22
  characters the encoder writes for the 16 bytes it decoded; so encoding and decoding are
  inverse to each other, every 16 byte identifier has a textual form and no two texts name
  the same identifier.\<close>

theorem radix64_accepts_exactly_encodings:
  assumes "no_nul s"
  shows "Udb_Radix64_Decode s = (0, b) \<longleftrightarrow> length b = RDATA \<and> s = take (R64 - 1) (Udb_Radix64_Encode b)"
proof -
  have "Udb_Radix64_Decode s = (0, b) \<longleftrightarrow> uuid_bytes s = Some b"
    if "\<not> (fst (Udb_Radix64_Decode s) = 0 \<and> snd (Udb_Radix64_Decode s) \<noteq> b)"
    using that assms by (cases "Udb_Radix64_Decode s") (auto simp: uuid_bytes_def)
  moreover have "uuid_bytes s \<noteq> Some b"
    if "fst (Udb_Radix64_Decode s) = 0 \<and> snd (Udb_Radix64_Decode s) \<noteq> b"
    using that assms by (simp add: uuid_bytes_def)
  ultimately show ?thesis
    using uuid64.accepts_iff [of s b] unfolding uuid_text_def by fastforce
qed

theorem radix64_accepts_exactly_encodings_witness:
  "Udb_Radix64_Decode (cstr ''.....................E'') = (0, replicate 15 0 @ [1])"
proof -
  have "no_nul (cstr ''.....................E'')" by (simp add: cstr_def)
  moreover have "take 22 (Udb_Radix64_Encode (replicate 15 0 @ [1])) = cstr ''.....................E''"
    by code_simp
  ultimately show ?thesis
    using radix64_accepts_exactly_encodings [of "cstr ''.....................E''" "replicate 15 0 @ [1]"]
    by simp
qed

text \<open>The hexadecimal digits of either case, each with its value.\<close>

definition hex_alphabet :: "(u8 \<times> nat) list" where
  "hex_alphabet = zip (cstr ''0123456789abcdefABCDEF'') ([0..<16] @ [10..<16])"

lemma hex_alphabet_facts: "map fst hex_alphabet = cstr ''0123456789abcdefABCDEF''" "list_all (\<lambda>p. snd p < 16) hex_alphabet"
  by code_simp+

lemma hex_digit_letters: "hex_digit c \<noteq> None \<longleftrightarrow> c \<in> fst ` set hex_alphabet"
proof -
  let ?is = "[48..<58] @ [97..<103] @ [65..<71] :: nat list"
  have "cstr ''0123456789abcdefABCDEF'' = map of_nat ?is" by (simp add: cstr_def)
  then have set: "fst ` set hex_alphabet = of_nat ` set ?is" unfolding set_map [symmetric] hex_alphabet_facts(1) by (rule arg_cong)
  have "hex_digit c \<noteq> None \<longleftrightarrow> unat c \<in> set ?is"
    unfolding set_append set_upt Un_iff atLeastLessThan_iff hex_digit_def word_le_nat_alt by auto
  also have "\<dots> \<longleftrightarrow> c \<in> of_nat ` set ?is"
    by (rule unat_in_set) simp
  finally show ?thesis unfolding set .
qed

lemma hex_digit_alphabet: "hex_digit c = map_option of_nat (map_of hex_alphabet c)"
proof (cases "map_of hex_alphabet c")
  case None
  then show ?thesis using hex_digit_letters [of c] by (auto simp: map_of_eq_None_iff)
next
  case (Some h)
  have "list_all (\<lambda>(c, h). hex_digit c = Some (of_nat h)) hex_alphabet" by code_simp
  then show ?thesis using map_of_SomeD [OF Some] Some by (auto simp: list_all_iff)
qed

lemma hex_byte_value:
  assumes "map_of hex_alphabet (s ! (2 * k)) = Some h" "map_of hex_alphabet (s ! Suc (2 * k)) = Some l"
  shows "hex_byte s k = of_nat (16 * h + l)"
proof -
  have "h < 16" "l < 16" using assms hex_alphabet_facts(2) by (auto dest!: map_of_SomeD simp: list_all_iff)
  moreover have "\<forall>h\<in>set [0..<16]. \<forall>l\<in>set [0..<16]. ucast (push_bit 4 (of_nat h :: u32)) OR ucast (of_nat l :: u32) = (of_nat (16 * h + l) :: u8)" by code_simp
  ultimately show ?thesis using assms by (simp add: hex_byte_def hex_digit_alphabet)
qed

text \<open>C26: the radix 16 decoder for n octets accepts exactly the strings of 2n characters from \<open>0-9\<close>, \<open>a-f\<close>
  and \<open>A-F\<close>, and then fills the whole output buffer: each byte is 16 times the value of the first digit
  of its pair plus that of the second, the value of a digit being its place in the alphabet, whatever the buffer held before.\<close>

theorem radix16_decode_accepts_iff:
  assumes "no_nul s" "length out = n"
  shows "Udb_Radix16_Decode s n out = (0, b) \<longleftrightarrow>
     length s = 2 * n \<and> set s \<subseteq> set (cstr ''0123456789abcdefABCDEF'') \<and> length b = n \<and>
     (\<forall>k<n. b ! k = of_nat (16 * the (map_of hex_alphabet (s ! (2 * k))) + the (map_of hex_alphabet (s ! Suc (2 * k)))))"
proof -
  let ?byte = "\<lambda>k. of_nat (16 * the (map_of hex_alphabet (s ! (2 * k))) + the (map_of hex_alphabet (s ! Suc (2 * k))))"
  have dom: "hex_digit c \<noteq> None \<longleftrightarrow> c \<in> set (cstr ''0123456789abcdefABCDEF'')" for c
    unfolding hex_digit_letters set_map [symmetric] hex_alphabet_facts(1) by (rule refl)
  have byte: "hex_byte s k = ?byte k"
    if "length s = 2 * n" "\<forall>c\<in>set s. hex_digit c \<noteq> None" "k < n" for k
  proof -
    have "hex_digit (s ! (2 * k)) \<noteq> None" "hex_digit (s ! Suc (2 * k)) \<noteq> None" using that by auto
    then show ?thesis using hex_byte_value [of s k] by (auto simp: hex_digit_alphabet)
  qed
  have "Udb_Radix16_Decode s n out = (0, b) \<longleftrightarrow> length s = 2 * n \<and> (\<forall>c\<in>set s. hex_digit c \<noteq> None) \<and> b = map (hex_byte s) [0..<n]"
    using Radix16_decode_iff [OF assms] Radix16_decode_value [OF assms] by (cases "Udb_Radix16_Decode s n out") auto
  also have "\<dots> \<longleftrightarrow> length s = 2 * n \<and> (\<forall>c\<in>set s. hex_digit c \<noteq> None) \<and> length b = n \<and> (\<forall>k<n. b ! k = hex_byte s k)"
    using list_eq_iff_nth_eq [of b "map (hex_byte s) [0..<n]"] by (simp cong: conj_cong)
  also have "\<dots> \<longleftrightarrow> length s = 2 * n \<and> set s \<subseteq> set (cstr ''0123456789abcdefABCDEF'') \<and> length b = n \<and> (\<forall>k<n. b ! k = ?byte k)"
  proof (rule conj_cong [OF refl], rule conj_cong)
    show "(\<forall>c\<in>set s. hex_digit c \<noteq> None) \<longleftrightarrow> set s \<subseteq> set (cstr ''0123456789abcdefABCDEF'')" unfolding dom subset_iff Ball_def by (rule refl)
    assume "length s = 2 * n" "set s \<subseteq> set (cstr ''0123456789abcdefABCDEF'')"
    moreover from this(2) have "\<forall>c\<in>set s. hex_digit c \<noteq> None" unfolding dom subset_iff Ball_def .
    ultimately have "hex_byte s k = ?byte k" if "k < n" for k using that by (intro byte)
    then show "length b = n \<and> (\<forall>k<n. b ! k = hex_byte s k) \<longleftrightarrow> length b = n \<and> (\<forall>k<n. b ! k = ?byte k)" by simp
  qed
  finally show ?thesis .
qed

theorem radix16_decode_accepts_iff_witness:
  "Udb_Radix16_Decode (cstr ''0aF1'') 2 [7, 7] = (0, [0x0a, 0xf1])"
proof -
  have "\<forall>k<2. [0x0a, 0xf1 :: u8] ! k = of_nat (16 * the (map_of hex_alphabet (cstr ''0aF1'' ! (2 * k))) + the (map_of hex_alphabet (cstr ''0aF1'' ! Suc (2 * k))))"
    by code_simp
  moreover have "no_nul (cstr ''0aF1'')" "set (cstr ''0aF1'') \<subseteq> set (cstr ''0123456789abcdefABCDEF'')" by (simp_all add: cstr_def)
  ultimately show ?thesis
    using radix16_decode_accepts_iff [of "cstr ''0aF1''" "[7, 7]" 2 "[0x0a, 0xf1]"] by simp
qed

text \<open>C23: radix 16 round trip in both directions: decoding the encoding of n bytes gives the
  bytes back, and encoding the decoding of a string of 2n lower case hexadecimal digits gives
  the string back.\<close>

theorem radix16_roundtrip:
  assumes "length out = n" "length b = n" "set s \<subseteq> set radix16" "length s = 2 * n"
  shows "Udb_Radix16_Decode (Udb_Radix16_Encode b n) n out = (0, b) \<and>
         Udb_Radix16_Encode (snd (Udb_Radix16_Decode s n out)) n = s"
  using Radix16_decode_encode [of b n out] Radix16_encode_decode [of s n out] assms by simp

theorem radix16_roundtrip_witness:
  "Udb_Radix16_Decode (Udb_Radix16_Encode [0xc0, 0xa8] 2) 2 [0, 0] = (0, [0xc0, 0xa8]) \<and>
   Udb_Radix16_Encode (snd (Udb_Radix16_Decode (cstr ''7f01'') 2 [0, 0])) 2 = cstr ''7f01''"
  by (rule radix16_roundtrip) (simp_all add: radix16_def cstr_def)

end
