(* ===== verification/Address.thy ===== *)
theory Address
  imports Prelude
begin

text \<open>
  Arithmetic on addresses written as hexadecimal strings (\<^verbatim>\<open>libaddress/address.c\<close>).  The
  commands take the C argument vector, argument 0 being the command name.  \<open>Tcl_GetInt\<close>
  belongs to the Tcl library and is an argument of \<open>Make_Mask\<close>; where it fails the message
  in the interpreter is its own and is left empty here.  The table of
  \<^verbatim>\<open>common_bits.h\<close> is computed as \<^verbatim>\<open>include/make_cbits.c\<close> does.
\<close>

unbundle bit_operations_syntax

section \<open>Model\<close>

definition cbits_table :: "(nat \<times> int) list" where
  "cbits_table =
     [(0x0F, 0), (0x07, 1), (0x8F, 1), (0x03, 2), (0x47, 2), (0x8B, 2), (0xCF, 2),
      (0x01, 3), (0x23, 3), (0x45, 3), (0x67, 3), (0x89, 3), (0xAB, 3), (0xCD, 3), (0xEF, 3)]"

definition Common_Bits_Table :: "int list" where
  "Common_Bits_Table = fold (\<lambda>(i, v) T. T[i := v]) cbits_table (replicate 256 (- 1))"

definition lower_digit :: "u8 \<Rightarrow> nat option" where
  "lower_digit c =
     (if ch CHR ''0'' \<le> c \<and> c \<le> ch CHR ''9'' then Some (unat c - unat (ch CHR ''0''))
      else if ch CHR ''a'' \<le> c \<and> c \<le> ch CHR ''f'' then Some (unat c - unat (ch CHR ''a'') + 10)
      else None)"

fun common_bits_tail :: "cstr \<Rightarrow> cstr \<Rightarrow> int \<Rightarrow> int" where
  "common_bits_tail [] bs bit_count = (if c_at bs 0 = 0 then bit_count else - 1)"
| "common_bits_tail (a # as) bs bit_count =
     (if a \<noteq> ch CHR ''0'' then - 1
      else if c_at bs 0 \<noteq> ch CHR ''f'' then - 1
      else common_bits_tail as (tl bs) bit_count)"

fun common_bits_loop :: "cstr \<Rightarrow> cstr \<Rightarrow> int \<Rightarrow> int" where
  "common_bits_loop [] bs bit_count = (if c_at bs 0 = 0 then bit_count else - 1)"
| "common_bits_loop (ac # as) bs bit_count =
     (case lower_digit ac of
        None \<Rightarrow> - 1
      | Some a \<Rightarrow>
          (case lower_digit (c_at bs 0) of
             None \<Rightarrow> - 1
           | Some b \<Rightarrow>
               if a \<noteq> b
               then (let i = 16 * a + b
                     in if Common_Bits_Table ! i = - 1 then - 1
                        else common_bits_tail as (tl bs) (bit_count + Common_Bits_Table ! i))
               else common_bits_loop as (tl bs) (bit_count + 4)))"

text \<open>The count is not bounded here; the \<open>int\<close> of the code holds it for strings of less than \<open>2 ^ 29\<close> digits.\<close>

definition Unameit_Common_Bits :: "cstr \<Rightarrow> cstr \<Rightarrow> int" where
  "Unameit_Common_Bits as bs = common_bits_loop as bs 0"

definition Common_BitsCmd :: "cstr list \<Rightarrow> int tcl_result" where
  "Common_BitsCmd argv =
     (if length argv \<noteq> 3 then usage_error argv '' address1 address2''
      else Tcl_Ok (Unameit_Common_Bits (argv ! 1) (argv ! 2)))"

fun mask_bits_ones :: "cstr \<Rightarrow> int \<Rightarrow> int \<times> cstr" where
  "mask_bits_ones [] n = (n, [])"
| "mask_bits_ones (c # s) n = (if c = ch CHR ''f'' then mask_bits_ones s (n + 4) else (n, c # s))"

definition mask_bits_count :: "cstr \<Rightarrow> int" where
  "mask_bits_count m =
     (let (n, s) = mask_bits_ones m 0;
          (n, s) = (if c_at s 0 = ch CHR ''e'' then (n + 3, tl s)
                    else if c_at s 0 = ch CHR ''c'' then (n + 2, tl s)
                    else if c_at s 0 = ch CHR ''8'' then (n + 1, tl s)
                    else (n, s));
          s = dropWhile (\<lambda>c. c = ch CHR ''0'') s
      in if c_at s 0 \<noteq> 0 then - 1 else n)"

definition Mask_Bits :: "cstr list \<Rightarrow> int tcl_result" where
  "Mask_Bits argv =
     (if length argv \<noteq> 2 then usage_error argv '' mask''
      else Tcl_Ok (mask_bits_count (argv ! 1)))"

datatype Bitwise_Op = Bitwise_And | Bitwise_Or | Bitwise_Xor | Bitwise_Mask

definition nibble_val :: "u8 \<Rightarrow> int" where
  "nibble_val c = (if c > ch CHR ''9'' then uint c - uint (ch CHR ''a'') + 10
                   else uint c - uint (ch CHR ''0''))"

definition nibble_char :: "int \<Rightarrow> u8" where
  "nibble_char i = (if i > 9 then word_of_int (uint (ch CHR ''a'') + i - 10)
                    else word_of_int (uint (ch CHR ''0'') + i))"

fun bitwise_nibble :: "Bitwise_Op \<Rightarrow> int \<Rightarrow> int \<Rightarrow> int" where
  "bitwise_nibble Bitwise_And i1 i2 = i1 AND i2"
| "bitwise_nibble Bitwise_Mask i1 i2 = i1 AND (NOT i2 AND 0xf)"
| "bitwise_nibble Bitwise_Or i1 i2 = i1 OR i2"
| "bitwise_nibble Bitwise_Xor i1 i2 = i1 XOR i2"

definition Bitwise :: "Bitwise_Op \<Rightarrow> cstr list \<Rightarrow> cstr tcl_result" where
  "Bitwise oper argv =
     (if length argv \<noteq> 3 then usage_error argv '' address1 address2''
      else
        let a1 = argv ! 1; a2 = argv ! 2;
            i1 = Unameit_Common_Bits a1 a1;
            i2 = Unameit_Common_Bits a2 a2
        in if i1 < 0 \<or> i1 AND 7 \<noteq> 0 then
             Tcl_Error [] (cstr ''Malformed address: '' @ [34] @ a1 @ [34])
           else if i2 < 0 \<or> i2 AND 7 \<noteq> 0 then
             Tcl_Error [] (cstr ''Malformed address: '' @ [34] @ a2 @ [34])
           else if i2 \<noteq> i1 then
             Tcl_Error [] (cstr ''Address lengths differ: '' @ [34] @ a1 @ [34, 32, 34] @ a2 @ [34])
           else
             let len = nat (drop_bit 2 i1)
             in Tcl_Ok (map (\<lambda>c. nibble_char (bitwise_nibble oper (nibble_val (a1 ! c)) (nibble_val (a2 ! c))))
                         [0..<len]))"

fun decrement_loop :: "nat \<Rightarrow> cstr \<Rightarrow> cstr" where
  "decrement_loop 0 r = r"
| "decrement_loop (Suc cp) r =
     (if r ! cp = ch CHR ''a'' then r[cp := ch CHR ''9'']
      else if r ! cp = ch CHR ''0'' then decrement_loop cp (r[cp := ch CHR ''f''])
      else r[cp := r ! cp - 1])"

definition Decrement :: "cstr list \<Rightarrow> cstr tcl_result" where
  "Decrement argv =
     (if length argv \<noteq> 2 then usage_error argv '' address''
      else Tcl_Ok (decrement_loop (length (argv ! 1)) (argv ! 1)))"

fun increment_loop :: "nat \<Rightarrow> cstr \<Rightarrow> cstr" where
  "increment_loop 0 r = r"
| "increment_loop (Suc cp) r =
     (if r ! cp = ch CHR ''9'' then r[cp := ch CHR ''a'']
      else if r ! cp = ch CHR ''f'' then increment_loop cp (r[cp := ch CHR ''0''])
      else r[cp := r ! cp + 1])"

definition Increment :: "cstr list \<Rightarrow> cstr tcl_result" where
  "Increment argv =
     (if length argv \<noteq> 2 then usage_error argv '' address''
      else Tcl_Ok (increment_loop (length (argv ! 1)) (argv ! 1)))"

definition left_bits :: "u8 list" where "left_bits = cstr ''08ce''"
definition right_bits :: "u8 list" where "right_bits = cstr ''0137''"

text \<open>The digits \<open>Make_Mask\<close> writes after its argument checks.  The buffer has room for
  \<open>len\<close> digits and the NUL, so a longer text is an overrun.\<close>

definition mask_digits :: "int \<Rightarrow> int \<Rightarrow> bool \<Rightarrow> cstr c_run" where
  "mask_digits len bits left =
     (let uniform_bytes = bits div 4;
          len = int32 (len * 2)
      in if int32 (len + 1) < 0 then Panic
         else
           let byte_count = (if left then uniform_bytes else int32 (len - uniform_bytes - 1));
               r = replicate (nat byte_count) (if left then ch CHR ''f'' else ch CHR ''0'')
                 @ (if uniform_bytes \<noteq> len
                    then [if left then left_bits ! nat (bits AND 3) else right_bits ! nat (bits AND 3)]
                    else [])
                 @ replicate (nat (if left then int32 (len - uniform_bytes - 1) else uniform_bytes))
                     (if left then ch CHR ''0'' else ch CHR ''f'')
           in if int (length r) > len then Overrun else Done r)"

definition Make_Mask :: "(cstr \<Rightarrow> int option) \<Rightarrow> cstr list \<Rightarrow> cstr tcl_result c_run" where
  "Make_Mask Tcl_GetInt argv =
     (if length argv \<noteq> 3 then Done (usage_error argv '' length numbits'')
      else case Tcl_GetInt (argv ! 1) of
        None \<Rightarrow> Done (Tcl_Error [] [])
      | Some len \<Rightarrow>
          if len < 0 then Done (Tcl_Error [] (cstr ''Bad address length '' @ [34] @ argv ! 1 @ [34]))
          else case Tcl_GetInt (argv ! 2) of
            None \<Rightarrow> Done (Tcl_Error [] [])
          | Some b \<Rightarrow>
              let left = (b \<ge> 0); bits = (if left then b else int32 (- b))
              in if bits > int32 (len * 8)
                 then Done (Tcl_Error [] (cstr ''Bad numbits > length '' @ [34] @ argv ! 2 @ [34]))
                 else case mask_digits len bits left of
                   Done r \<Rightarrow> Done (Tcl_Ok r) | Panic \<Rightarrow> Panic | Overrun \<Rightarrow> Overrun)"

section \<open>What the strings denote\<close>

text \<open>An address is a string of lower case hexadecimal digits; its value is the number they
  write.\<close>


definition addr_ok :: "cstr \<Rightarrow> bool" where
  "addr_ok s \<longleftrightarrow> (\<forall>c\<in>set s. lower_digit c \<noteq> None)"

definition addr_digit :: "u8 \<Rightarrow> nat" where
  "addr_digit c = the (lower_digit c)"

primrec addr_val :: "cstr \<Rightarrow> nat" where
  "addr_val [] = 0"
| "addr_val (c # s) = addr_digit c * 16 ^ length s + addr_val s"

lemma addr_ok_simps [simp]:
  "addr_ok []" "addr_ok (c # s) \<longleftrightarrow> lower_digit c \<noteq> None \<and> addr_ok s"
  "addr_ok (s @ t) \<longleftrightarrow> addr_ok s \<and> addr_ok t"
  by (auto simp: addr_ok_def)

lemma addr_val_append: "addr_val (s @ t) = addr_val s * 16 ^ length t + addr_val t"
  by (induction s) (simp_all add: power_add algebra_simps)

lemma addr_val_snoc: "addr_val (s @ [c]) = 16 * addr_val s + addr_digit c"
  by (simp add: addr_val_append)

lemma lower_digit_0 [simp]: "lower_digit 0 = None"
  by (simp add: lower_digit_def)

lemma lower_digit_char:
  "lower_digit c = Some d \<longleftrightarrow> d < 16 \<and> c = nibble_char (int d)"
proof
  assume "lower_digit c = Some d"
  then show "d < 16 \<and> c = nibble_char (int d)"
    by (auto simp: lower_digit_def nibble_char_def word_le_nat_alt word_unat_eq_iff unat_of_nat
        unat_word_ariths split: if_splits)
next
  assume a: "d < 16 \<and> c = nibble_char (int d)"
  have "\<forall>d\<in>{..<16}. lower_digit (nibble_char (int d)) = Some d" by code_simp
  then show "lower_digit c = Some d" using a by blast
qed

lemma addr_digit_less: "lower_digit c \<noteq> None \<Longrightarrow> addr_digit c < 16"
  using lower_digit_char by (fastforce simp: addr_digit_def)

lemma addr_val_less: "addr_ok s \<Longrightarrow> addr_val s < 16 ^ length s"
proof (induction s)
  case (Cons c s)
  then have "addr_digit c \<le> 15" "addr_val s < 16 ^ length s" using addr_digit_less [of c] by auto
  then have "addr_digit c * 16 ^ length s + addr_val s < 15 * 16 ^ length s + 16 ^ length s"
    by (intro add_le_less_mono mult_le_mono1)
  then show ?case by simp
qed simp

lemma addr_digit_Some: "lower_digit c = Some d \<Longrightarrow> addr_digit c = d"
  by (simp add: addr_digit_def)

lemma addr_digit_inj: "lower_digit c \<noteq> None \<Longrightarrow> lower_digit c' \<noteq> None \<Longrightarrow> addr_digit c = addr_digit c' \<longleftrightarrow> c = c'"
  unfolding addr_digit_def using lower_digit_char by (metis option.collapse)

text \<open>\<open>A\<close> and \<open>B\<close> are the first and last of the addresses of \<open>w\<close> bits that share a prefix of
  \<open>k\<close> bits.\<close>

definition addr_block :: "nat \<Rightarrow> nat \<Rightarrow> nat \<Rightarrow> nat \<Rightarrow> bool" where
  "addr_block w k A B \<longleftrightarrow> k \<le> w \<and> 2 ^ (w - k) dvd A \<and> B + 1 = A + 2 ^ (w - k)"

lemma addr_block_same:
  assumes "A < 2 ^ m" "B < 2 ^ m"
  shows "addr_block (m + 4) k (x * 2 ^ m + A) (x * 2 ^ m + B) \<longleftrightarrow> 4 \<le> k \<and> addr_block m (k - 4) A B"
proof (cases "4 \<le> k")
  case True
  then obtain j where j: "k = j + 4" by (metis add.commute le_Suc_ex)
  have "2 ^ (m - j) dvd x * (2 :: nat) ^ m" by (simp add: le_imp_power_dvd)
  then show ?thesis by (auto simp: addr_block_def j dvd_add_right_iff)
next
  case False
  then have "Suc m \<le> m + 4 - k" by simp
  then have "(2 :: nat) ^ m * 2 \<le> 2 ^ (m + 4 - k)"
    using power_increasing [of "Suc m" "m + 4 - k" "2 :: nat"] by simp
  then show ?thesis using assms False by (auto simp: addr_block_def)
qed

lemma addr_block_diff_dvd:
  fixes A B m x y :: nat
  assumes "A < 2 ^ m" "B < 2 ^ m" "2 ^ m dvd x * 2 ^ m + A" "2 ^ m dvd y * 2 ^ m + (B + 1)"
  shows "A = 0 \<and> B + 1 = 2 ^ m"
proof -
  have "2 ^ m dvd A" "2 ^ m dvd B + 1" using assms(3,4) by (simp_all only: dvd_add_right_iff dvd_triv_right)
  then show ?thesis using assms(1,2) dvd_imp_le [of "2 ^ m" "B + 1"] nat_dvd_not_less [of A "2 ^ m"]
    by (cases "A = 0") simp_all
qed

lemma addr_block_diff_less:
  fixes A B m x y :: nat
  assumes "A < 2 ^ m" "B < 2 ^ m" "x \<noteq> y"
    and l: "addr_block (m + 4) k (x * 2 ^ m + A) (y * 2 ^ m + B)"
  shows "k < 4"
proof (rule ccontr)
  assume "\<not> k < 4"
  then have "2 ^ (m + 4 - k) dvd (2 :: nat) ^ m" by (simp add: le_imp_power_dvd)
  then obtain q where q: "(2 :: nat) ^ m = 2 ^ (m + 4 - k) * q" by blast
  define s where "s = (2 ^ (m + 4 - k) :: nat)"
  have s: "0 < s" "2 ^ m = s * q" by (simp_all add: s_def q)
  from l obtain r where r: "x * 2 ^ m + A = s * r" "y * 2 ^ m + B + 1 = s * r + s"
    by (auto simp: addr_block_def simp flip: s_def)
  then have r': "y * 2 ^ m + B = s * r + (s - 1)" using s(1) by simp
  have "s * r div (s * q) = x" unfolding r(1) [symmetric] s(2) [symmetric] using assms(1) by simp
  moreover have "(s * r + (s - 1)) div (s * q) = y"
    unfolding r' [symmetric] s(2) [symmetric] using assms(2) by simp
  moreover have "(s * r + (s - 1)) div s = r" using s(1) by (subst div_mult_self4) simp_all
  ultimately show False using assms(3) s(1) by (simp add: div_mult2_eq)
qed

lemma addr_block_diff:
  assumes "A < 2 ^ m" "B < 2 ^ m" "x \<noteq> y"
  shows "addr_block (m + 4) k (x * 2 ^ m + A) (y * 2 ^ m + B) \<longleftrightarrow>
     A = 0 \<and> B + 1 = 2 ^ m \<and> k < 4 \<and> addr_block 4 k x y"
proof
  assume l: "addr_block (m + 4) k (x * 2 ^ m + A) (y * 2 ^ m + B)"
  have "k < 4" using addr_block_diff_less [OF assms l] .
  then obtain j where j: "m + 4 - k = m + j" "j = 4 - k" by fastforce
  let ?s = "2 ^ (m + j) :: nat"
  from l j have l: "?s dvd x * 2 ^ m + A" "y * 2 ^ m + (B + 1) = x * 2 ^ m + A + ?s"
    by (simp_all add: addr_block_def)
  have x: "2 ^ m dvd x * 2 ^ m + A" using l(1) by (rule power_le_dvd) simp
  moreover have "2 ^ m dvd y * 2 ^ m + (B + 1)" unfolding l(2)
    by (rule dvd_add [OF x]) (simp add: le_imp_power_dvd)
  ultimately have AB: "A = 0" "B + 1 = 2 ^ m" using addr_block_diff_dvd assms(1,2) by blast+
  have "2 ^ m * (y + 1) = 2 ^ m * (x + 2 ^ j)" using l(2) AB by (simp add: algebra_simps power_add)
  then have "y + 1 = x + 2 ^ j" by (simp only: mult_cancel1) simp
  moreover have "2 ^ j dvd x" using l(1) AB by (simp add: power_add mult.commute)
  ultimately show "A = 0 \<and> B + 1 = 2 ^ m \<and> k < 4 \<and> addr_block 4 k x y"
    using AB \<open>k < 4\<close> j by (simp add: addr_block_def)
next
  assume r: "A = 0 \<and> B + 1 = 2 ^ m \<and> k < 4 \<and> addr_block 4 k x y"
  then obtain j where j: "m + 4 - k = m + j" "4 - k = j" by fastforce
  have "y * 2 ^ m + B + 1 = (y + 1) * 2 ^ m" using r by (simp add: algebra_simps)
  also have "\<dots> = x * 2 ^ m + 2 ^ (m + j)" using r by (simp add: addr_block_def j algebra_simps power_add)
  finally show "addr_block (m + 4) k (x * 2 ^ m + A) (y * 2 ^ m + B)"
    using r by (simp add: addr_block_def j power_add mult.commute)
qed

lemma addr_digit_consts [simp]:
  "lower_digit 48 = Some 0" "lower_digit 102 = Some 15" "addr_digit 48 = 0" "addr_digit 102 = 15"
  by (simp_all add: lower_digit_def addr_digit_def)

lemma lower_digit_eq_const:
  "lower_digit c = Some 0 \<longleftrightarrow> c = ch CHR ''0''" "lower_digit c = Some 15 \<longleftrightarrow> c = ch CHR ''f''"
  by (simp_all add: lower_digit_char nibble_char_def)

lemma c_at_0_nul: "no_nul bs \<Longrightarrow> c_at bs 0 = 0 \<longleftrightarrow> bs = []"
  by (cases bs) auto

lemma no_nul_tl [simp]: "no_nul bs \<Longrightarrow> no_nul (tl bs)"
  by (cases bs) auto

lemma common_bits_tail_iff:
  assumes "no_nul bs" "0 \<le> n"
  shows "common_bits_tail as bs n =
     (if addr_ok as \<and> addr_ok bs \<and> length as = length bs \<and> addr_val as = 0 \<and>
         addr_val bs + 1 = 16 ^ length bs then n else - 1)"
  using assms(1)
proof (induction as arbitrary: bs)
  case Nil
  then show ?case by (auto simp: c_at_0_nul)
next
  case (Cons a as)
  show ?case
  proof (cases bs)
    case (Cons b bs')
    have "addr_digit a * 16 ^ length as + addr_val as = 0 \<longleftrightarrow> a = ch CHR ''0'' \<and> addr_val as = 0"
      if "lower_digit a \<noteq> None"
      using that lower_digit_eq_const(1) [of a] by (auto simp: addr_digit_def)
    moreover have "addr_digit b * 16 ^ length bs' + addr_val bs' + 1 = 16 * 16 ^ length bs' \<longleftrightarrow>
       b = ch CHR ''f'' \<and> addr_val bs' + 1 = 16 ^ length bs'"
      if "lower_digit b \<noteq> None" "addr_ok bs'"
    proof -
      have "addr_digit b \<le> 15" "addr_val bs' + 1 \<le> 16 ^ length bs'"
        using addr_digit_less that addr_val_less by fastforce+
      then have "addr_digit b * 16 ^ length bs' + addr_val bs' + 1 = 16 * 16 ^ length bs' \<longleftrightarrow>
        addr_digit b = 15 \<and> addr_val bs' + 1 = 16 ^ length bs'"
        by (cases "addr_digit b = 15") (auto dest!: le_neq_implies_less [of "addr_digit b"] simp: less_eq_Suc_le dest: mult_le_mono1 [of _ 14 "16 ^ length bs'"])
      then show ?thesis using that(1) lower_digit_eq_const(2) [of b] by (auto simp: addr_digit_def)
    qed
    ultimately show ?thesis using Cons Cons.prems Cons.IH [of bs'] assms
      by (cases "lower_digit a"; cases "lower_digit b") auto
  qed auto
qed

lemma fold_updates_nth:
  "i < length T \<Longrightarrow> fold (\<lambda>(i, v) T. T[i := v]) kvs T ! i =
     (case map_of (rev kvs) i of None \<Rightarrow> T ! i | Some v \<Rightarrow> v)"
  by (induction kvs arbitrary: T)
     (auto simp: nth_list_update map_add_def split: option.splits)

lemma Common_Bits_Table_nth:
  "i < 256 \<Longrightarrow> Common_Bits_Table ! i = (case map_of (rev cbits_table) i of None \<Rightarrow> - 1 | Some v \<Rightarrow> v)"
  by (simp add: Common_Bits_Table_def fold_updates_nth split: option.splits)

lemma cbits_table_sound:
  "map_of (rev cbits_table) i = Some v \<Longrightarrow>
     0 \<le> v \<and> v < 4 \<and> addr_block 4 (nat v) (i div 16) (i mod 16)"
proof -
  have "\<forall>(i, v)\<in>set (rev cbits_table). 0 \<le> v \<and> v < 4 \<and> addr_block 4 (nat v) (i div 16) (i mod 16)"
    by code_simp
  moreover assume "map_of (rev cbits_table) i = Some v"
  ultimately show ?thesis using map_of_SomeD by fastforce
qed

lemma cbits_table_complete:
  assumes "addr_block 4 k x y" "x < 16" "y < 16" "x \<noteq> y"
  shows "map_of (rev cbits_table) (16 * x + y) = Some (int k)"
proof -
  have "\<forall>k\<in>set [0..<4]. \<forall>x\<in>set [0..<16]. 2 ^ (4 - k) dvd x \<longrightarrow>
     map_of (rev cbits_table) (17 * x + 2 ^ (4 - k) - 1) = Some (int k)"
    by code_simp
  moreover have "k < 4" using assms(1,4) by (cases "k = 4") (auto simp: addr_block_def)
  moreover have "17 * x + 2 ^ (4 - k) - 1 = 16 * x + y" "2 ^ (4 - k) dvd x"
    using assms(1) by (auto simp: addr_block_def)
  ultimately show ?thesis using assms(2) by (metis atLeastLessThan_iff le0 set_upt)
qed

lemma common_bits_table_iff:
  assumes "x < 16" "y < 16" "x \<noteq> y"
  shows "Common_Bits_Table ! (16 * x + y) = int k \<longleftrightarrow> addr_block 4 k x y"
    and "Common_Bits_Table ! (16 * x + y) < 4" "- 1 \<le> Common_Bits_Table ! (16 * x + y)"
proof -
  have "(16 * x + y) div 16 = x" "(16 * x + y) mod 16 = y" using assms by simp_all
  note S = cbits_table_sound [of "16 * x + y", unfolded this]
  show "Common_Bits_Table ! (16 * x + y) = int k \<longleftrightarrow> addr_block 4 k x y"
    using S cbits_table_complete [OF _ assms] assms(1,2)
    by (fastforce simp: Common_Bits_Table_nth split: option.splits)
  show "Common_Bits_Table ! (16 * x + y) < 4" "- 1 \<le> Common_Bits_Table ! (16 * x + y)"
    using S assms(1,2) by (auto simp: Common_Bits_Table_nth split: option.splits)
qed

lemma Common_Bits_Table_ge: "x < 16 \<Longrightarrow> y < 16 \<Longrightarrow> - 1 \<le> Common_Bits_Table ! (16 * x + y)"
  using cbits_table_sound [of "16 * x + y"] by (auto simp: Common_Bits_Table_nth split: option.splits)
lemma common_bits_loop_iff:
  assumes "no_nul bs"
  shows "common_bits_loop as bs (int n) = int k \<longleftrightarrow>
     addr_ok as \<and> addr_ok bs \<and> length as = length bs \<and>
     n \<le> k \<and> addr_block (4 * length as) (k - n) (addr_val as) (addr_val bs)"
  using assms
proof (induction as arbitrary: bs n)
  case Nil
  then show ?case by (cases bs) (auto simp: addr_block_def)
next
  case (Cons a as)
  show ?case
  proof (cases bs)
    case Nil
    then show ?thesis by (auto split: option.splits)
  next
    case bs: (Cons b bs')
    show ?thesis
    proof (cases "lower_digit a \<noteq> None \<and> lower_digit b \<noteq> None")
      case False
      then show ?thesis by (auto simp: bs split: option.splits)
    next
      case True
      then obtain x y where xy: "lower_digit a = Some x" "lower_digit b = Some y" by auto
      then have d: "addr_digit a = x" "addr_digit b = y" "x < 16" "y < 16"
        using lower_digit_char by (auto simp: addr_digit_Some)
      have nn: "no_nul bs'" using Cons.prems bs by simp
      have val: "addr_val (a # as) = x * 2 ^ (4 * length as) + addr_val as"
        "addr_val (b # bs') = y * 2 ^ (4 * length bs') + addr_val bs'"
        using d by (simp_all add: power_mult)
      have less: "addr_ok s \<Longrightarrow> addr_val s < 2 ^ (4 * length s)" for s
        using addr_val_less [of s] by (simp add: power_mult)
      have ok: "addr_ok (a # as) \<longleftrightarrow> addr_ok as" "addr_ok (b # bs') \<longleftrightarrow> addr_ok bs'"
        using xy by simp_all
      have len: "4 * length (a # as) = 4 * length as + 4" "length (a # as) = length (b # bs') \<longleftrightarrow> length as = length bs'"
        by simp_all
      show ?thesis
      proof (cases "x = y")
        case True
        have "common_bits_loop (a # as) bs (int n) = common_bits_loop as bs' (int (n + 4))"
          using xy True by (simp add: bs add.commute)
        also have "\<dots> = int k \<longleftrightarrow> addr_ok as \<and> addr_ok bs' \<and> length as = length bs' \<and>
          n \<le> k \<and> 4 \<le> k - n \<and> addr_block (4 * length as) (k - n - 4) (addr_val as) (addr_val bs')"
          unfolding Cons.IH [OF nn] by (auto simp: diff_diff_left)
        also have "\<dots> \<longleftrightarrow> addr_ok as \<and> addr_ok bs' \<and> length as = length bs' \<and>
          n \<le> k \<and> addr_block (4 * length as + 4) (k - n) (addr_val (a # as)) (addr_val (b # bs'))"
          unfolding val True
          using addr_block_same [of "addr_val as" "4 * length as" "addr_val bs'" "k - n" y] less by metis
        finally show ?thesis unfolding bs ok len by blast
      next
        case False
        let ?t = "Common_Bits_Table ! (16 * x + y)"
        have t: "?t = int j \<longleftrightarrow> addr_block 4 j x y" "?t < 4" "- 1 \<le> ?t" for j
          using common_bits_table_iff d False by simp_all
        have "common_bits_loop (a # as) bs (int n) =
           (if ?t = - 1 then - 1 else common_bits_tail as bs' (int n + ?t))"
          using xy False by (simp add: bs Let_def)
        also have "\<dots> = int k \<longleftrightarrow> n \<le> k \<and> k - n < 4 \<and> ?t = int (k - n) \<and>
            addr_ok as \<and> addr_ok bs' \<and> length as = length bs' \<and> addr_val as = 0 \<and>
            addr_val bs' + 1 = 16 ^ length bs'"
          using t(2,3) nn by (auto simp: common_bits_tail_iff)
        also have "\<dots> \<longleftrightarrow> n \<le> k \<and> addr_ok as \<and> addr_ok bs' \<and> length as = length bs' \<and>
            (addr_val as = 0 \<and> addr_val bs' + 1 = 2 ^ (4 * length as) \<and> k - n < 4 \<and> addr_block 4 (k - n) x y)"
          unfolding t(1) by (auto simp: power_mult)
        also have "\<dots> \<longleftrightarrow> n \<le> k \<and> addr_ok as \<and> addr_ok bs' \<and> length as = length bs' \<and>
            addr_block (4 * length as + 4) (k - n) (addr_val (a # as)) (addr_val (b # bs'))"
          unfolding val
          using addr_block_diff [of "addr_val as" "4 * length as" "addr_val bs'" x y "k - n"] less False by metis
        finally show ?thesis unfolding bs ok len by blast
      qed
    qed
  qed
qed

lemma Common_Bits_iff:
  "no_nul bs \<Longrightarrow> Unameit_Common_Bits as bs = int k \<longleftrightarrow>
     addr_ok as \<and> addr_ok bs \<and> length as = length bs \<and>
     addr_block (4 * length as) k (addr_val as) (addr_val bs)"
  using common_bits_loop_iff [of bs as 0 k] by (simp add: Unameit_Common_Bits_def)

lemma Common_Bits_ge: "- 1 \<le> Unameit_Common_Bits as bs"
proof -
  have tail: "0 \<le> n \<Longrightarrow> - 1 \<le> common_bits_tail as bs n" for as bs n
    by (induction as bs n rule: common_bits_tail.induct) auto
  have "0 \<le> n \<Longrightarrow> - 1 \<le> common_bits_loop as bs n" for n
  proof (induction as bs n rule: common_bits_loop.induct)
    case (2 ac as bs n)
    have "0 \<le> n + Common_Bits_Table ! (16 * x + y)"
      if "lower_digit ac = Some x" "lower_digit (c_at bs 0) = Some y" "Common_Bits_Table ! (16 * x + y) \<noteq> - 1" for x y
    proof -
      have "x < 16" "y < 16" using that lower_digit_char by blast+
      then show ?thesis using Common_Bits_Table_ge [of x y] that(3) "2.prems" by simp
    qed
    then show ?case using 2 by (auto simp: tail Let_def split: option.splits)
  qed auto
  then show ?thesis by (simp add: Unameit_Common_Bits_def)
qed

lemma Common_Bits_same: "no_nul s \<Longrightarrow> Unameit_Common_Bits s s = (if addr_ok s then 4 * int (length s) else - 1)"
proof -
  assume "no_nul s"
  note iff = Common_Bits_iff [OF this, of s]
  have "addr_block (4 * length s) k A A \<longleftrightarrow> k = 4 * length s" for k A
  proof -
    have "1 = (2 :: nat) ^ (4 * length s - k) \<longleftrightarrow> 4 * length s - k = 0"
      using power_inject_exp [of "2 :: nat" 0 "4 * length s - k"] by simp
    then show ?thesis by (auto simp: addr_block_def)
  qed
  note iff = iff [unfolded this]
  show ?thesis
  proof (cases "addr_ok s")
    case True
    then show ?thesis using iff [of "4 * length s"] by simp
  next
    case False
    then have "Unameit_Common_Bits s s \<noteq> int k" for k using iff by simp
    then have "\<not> 0 \<le> Unameit_Common_Bits s s" by (metis nonneg_int_cases)
    then show ?thesis using False Common_Bits_ge [of s s] by simp
  qed
qed

lemma lower_digit_induct:
  assumes "lower_digit c \<noteq> None"
  obtains d where "d < 16" "c = nibble_char (int d)" "addr_digit c = d"
  using assms lower_digit_char addr_digit_Some by blast

lemma all_digits: "(\<forall>d\<in>set [0..<16]. P d) \<Longrightarrow> d < 16 \<Longrightarrow> P d" for d :: nat
  by simp

lemma incdec_digit:
  assumes "lower_digit c \<noteq> None"
  shows "c \<noteq> 57 \<Longrightarrow> c \<noteq> 102 \<Longrightarrow> lower_digit (c + 1) = Some (addr_digit c + 1)"
    "c \<noteq> 97 \<Longrightarrow> c \<noteq> 48 \<Longrightarrow> lower_digit (c - 1) = Some (addr_digit c - 1) \<and> 0 < addr_digit c"
proof -
  obtain d where d: "d < 16" "c = nibble_char (int d)" "addr_digit c = d"
    using assms by (rule lower_digit_induct)
  have "\<forall>d\<in>set [0..<16]. let c = nibble_char (int d) in
     (c \<noteq> 57 \<longrightarrow> c \<noteq> 102 \<longrightarrow> lower_digit (c + 1) = Some (d + 1)) \<and>
     (c \<noteq> 97 \<longrightarrow> c \<noteq> 48 \<longrightarrow> lower_digit (c - 1) = Some (d - 1) \<and> 0 < d)"
    by code_simp
  from all_digits [OF this d(1)]
  show "c \<noteq> 57 \<Longrightarrow> c \<noteq> 102 \<Longrightarrow> lower_digit (c + 1) = Some (addr_digit c + 1)"
    "c \<noteq> 97 \<Longrightarrow> c \<noteq> 48 \<Longrightarrow> lower_digit (c - 1) = Some (addr_digit c - 1) \<and> 0 < addr_digit c"
    using d by (simp_all add: Let_def)
qed

lemma addr_digit_consts2 [simp]:
  "lower_digit 57 = Some 9" "lower_digit 97 = Some 10" "addr_digit 57 = 9" "addr_digit 97 = 10"
  by (simp_all add: lower_digit_def addr_digit_def)

lemma increment_loop_append:
  assumes "addr_ok p"
  shows "\<exists>p'. increment_loop (length p) (p @ q) = p' @ q \<and> length p' = length p \<and> addr_ok p' \<and>
     addr_val p' = (addr_val p + 1) mod 16 ^ length p"
  using assms
proof (induction p arbitrary: q rule: rev_induct)
  case (snoc c p)
  have c: "lower_digit c \<noteq> None" and p: "addr_ok p" using snoc.prems by auto
  have less: "addr_val p < 16 ^ length p" using addr_val_less [OF p] .
  have E: "increment_loop (length (p @ [c])) ((p @ [c]) @ q) =
     (if c = 57 then (p @ [97]) @ q else if c = 102 then increment_loop (length p) (p @ 48 # q)
      else (p @ [c + 1]) @ q)"
    by (simp add: nth_append list_update_append)
  consider "c = 57" | "c = 102" | "c \<noteq> 57" "c \<noteq> 102" by blast
  then show ?case
  proof cases
    case 2
    from snoc.IH [OF p, of "48 # q"] obtain p' where
      p': "increment_loop (length p) (p @ 48 # q) = p' @ 48 # q" "length p' = length p" "addr_ok p'"
        "addr_val p' = (addr_val p + 1) mod 16 ^ length p" by blast
    have "16 * ((addr_val p + 1) mod 16 ^ length p) = (16 * addr_val p + 16) mod (16 * 16 ^ length p)"
      by (simp add: mult_mod_right add.commute)
    then have "addr_val (p' @ [48]) = (addr_val (p @ [c]) + 1) mod 16 ^ length (p @ [c])"
      using p'(4) 2 by (simp add: addr_val_snoc add.commute)
    then show ?thesis using p' 2 unfolding E
      by (intro exI [of _ "p' @ [48]"]) simp
  next
    case 3
    have d: "lower_digit (c + 1) = Some (addr_digit c + 1)" using incdec_digit(1) [OF c 3] .
    then have "addr_digit c + 1 < 16" using lower_digit_char by blast
    then have "16 * addr_val p + addr_digit c + 1 < 16 * 16 ^ length p" using less by linarith
    then show ?thesis using d 3 p unfolding E
      by (intro exI [of _ "p @ [c + 1]"]) (simp add: addr_val_snoc addr_digit_Some)
  qed (use less p in \<open>auto simp: E addr_val_snoc intro!: exI [of _ "p @ [97]"]\<close>)
qed auto

lemma decrement_loop_append:
  assumes "addr_ok p"
  shows "\<exists>p'. decrement_loop (length p) (p @ q) = p' @ q \<and> length p' = length p \<and> addr_ok p' \<and>
     addr_val p' = (addr_val p + 16 ^ length p - 1) mod 16 ^ length p"
  using assms
proof (induction p arbitrary: q rule: rev_induct)
  case (snoc c p)
  have c: "lower_digit c \<noteq> None" and p: "addr_ok p" using snoc.prems by auto
  have less: "addr_val p < 16 ^ length p" using addr_val_less [OF p] .
  have E: "decrement_loop (length (p @ [c])) ((p @ [c]) @ q) =
     (if c = 97 then (p @ [57]) @ q else if c = 48 then decrement_loop (length p) (p @ 102 # q)
      else (p @ [c - 1]) @ q)"
    by (simp add: nth_append list_update_append)
  consider "c = 97" | "c = 48" | "c \<noteq> 97" "c \<noteq> 48" by blast
  then show ?case
  proof cases
    case 1
    have "16 * addr_val p + 9 < 16 * 16 ^ length p" using less by simp
    moreover have "addr_val (p @ [c]) + 16 ^ length (p @ [c]) - 1 = 16 * 16 ^ length p + (16 * addr_val p + 9)"
      using 1 by (simp add: addr_val_snoc)
    ultimately have "addr_val (p @ [57]) = (addr_val (p @ [c]) + 16 ^ length (p @ [c]) - 1) mod 16 ^ length (p @ [c])"
      by (simp add: addr_val_snoc)
    then show ?thesis using 1 p unfolding E
      by (intro exI [of _ "p @ [57]"]) simp
  next
    case 2
    from snoc.IH [OF p, of "102 # q"] obtain p' where
      p': "decrement_loop (length p) (p @ 102 # q) = p' @ 102 # q" "length p' = length p" "addr_ok p'"
        "addr_val p' = (addr_val p + 16 ^ length p - 1) mod 16 ^ length p" by blast
    let ?M = "16 ^ length p :: nat"
    have "16 * addr_val p + 16 * ?M - 1 = 16 * (addr_val p + ?M - 1) + 15"
      by (simp add: algebra_simps Suc_leI add_increasing)
    also have "\<dots> mod (16 * ?M) = 16 * ((addr_val p + ?M - 1) mod ?M) + 15"
    proof -
      have "16 * ((addr_val p + ?M - 1) mod ?M) + 15 < 16 * ?M"
        using mod_less_divisor [of ?M "addr_val p + ?M - 1", OF zero_less_power] by linarith
      then show ?thesis by (metis mod_add_left_eq mod_less mult_mod_right)
    qed
    finally show ?thesis using p' 2 unfolding E
      by (intro exI [of _ "p' @ [102]"]) (simp add: addr_val_snoc)
  next
    case 3
    obtain e where d: "lower_digit (c - 1) = Some e" "addr_digit c = Suc e"
      using incdec_digit(2) [OF c 3] by (cases "addr_digit c") auto
    then have "e < 16" using lower_digit_char by blast
    then have "16 * addr_val p + e < 16 * 16 ^ length p" using less by linarith
    moreover have "addr_val (p @ [c]) + 16 ^ length (p @ [c]) - 1 = 16 * 16 ^ length p + (16 * addr_val p + e)"
      using d(2) by (simp add: addr_val_snoc)
    ultimately have "addr_val (p @ [c - 1]) = (addr_val (p @ [c]) + 16 ^ length (p @ [c]) - 1) mod 16 ^ length (p @ [c])"
      using d(1) by (simp add: addr_val_snoc addr_digit_Some)
    then show ?thesis using d 3 p unfolding E
      by (intro exI [of _ "p @ [c - 1]"]) simp
  qed
qed auto

lemma Increment_ok:
  assumes "addr_ok s"
  obtains r where "Increment [cmd, s] = Tcl_Ok r" "addr_ok r" "length r = length s"
    "addr_val r = (addr_val s + 1) mod 16 ^ length s"
  using increment_loop_append [OF assms, of "[]"] that by (auto simp: Increment_def)

lemma Decrement_ok:
  assumes "addr_ok s"
  obtains r where "Decrement [cmd, s] = Tcl_Ok r" "addr_ok r" "length r = length s"
    "addr_val r = (addr_val s + 16 ^ length s - 1) mod 16 ^ length s"
  using decrement_loop_append [OF assms, of "[]"] that by (auto simp: Decrement_def)

lemma addr_val_inj:
  assumes "addr_ok s" "addr_ok t" "length s = length t" "addr_val s = addr_val t"
  shows "s = t"
  using assms
proof (induction s arbitrary: t)
  case (Cons c s)
  obtain d t' where t: "t = d # t'" using Cons.prems(3) by (cases t) auto
  have len: "length t' = length s" using Cons.prems(3) t by simp
  have less: "addr_val s < 16 ^ length s" "addr_val t' < 16 ^ length s"
    using Cons.prems(1,2) t addr_val_less [of s] addr_val_less [of t'] by (simp_all add: len)
  have "addr_digit c * 16 ^ length s + addr_val s = addr_digit d * 16 ^ length s + addr_val t'"
    using Cons.prems(4) by (simp add: t len)
  note eq = arg_cong [OF this, of "\<lambda>x. x div 16 ^ length s"] arg_cong [OF this, of "\<lambda>x. x mod 16 ^ length s"]
  have "addr_digit c = addr_digit d" using eq(1) less by (simp only: div_mult_self3 div_less)
  then have "c = d" using Cons.prems(1,2) t addr_digit_inj [of c d] by simp
  moreover have "addr_val s = addr_val t'" using eq(2) less by (simp only: mod_mult_self3 mod_less)
  then have "s = t'" using Cons.IH [of t'] Cons.prems(1-3) t by simp
  ultimately show ?case using t by simp
qed simp

lemma nibble_val_digit: "lower_digit c \<noteq> None \<Longrightarrow> nibble_val c = int (addr_digit c)"
proof -
  assume "lower_digit c \<noteq> None"
  then obtain d where d: "d < 16" "c = nibble_char (int d)" "addr_digit c = d"
    by (rule lower_digit_induct)
  have "\<forall>d\<in>set [0..<16]. nibble_val (nibble_char (int d)) = int d" by code_simp
  from all_digits [OF this d(1)] show ?thesis using d by simp
qed

lemma nibble_char_digit: "0 \<le> i \<Longrightarrow> i < 16 \<Longrightarrow> lower_digit (nibble_char i) = Some (nat i)"
  by (simp add: lower_digit_char)

fun bitwise_int :: "Bitwise_Op \<Rightarrow> int \<Rightarrow> int \<Rightarrow> int" where
  "bitwise_int Bitwise_And a b = a AND b"
| "bitwise_int Bitwise_Mask a b = a AND NOT b"
| "bitwise_int Bitwise_Or a b = a OR b"
| "bitwise_int Bitwise_Xor a b = a XOR b"

lemma bit_nibble_cons:
  fixes a x :: int
  assumes "0 \<le> x" "x < 16"
  shows "bit (16 * a + x) n \<longleftrightarrow> (if n < 4 then bit x n else bit a (n - 4))"
proof -
  have "16 * a + x = push_bit 4 a + take_bit 4 x"
    using assms by (simp add: push_bit_eq_mult take_bit_eq_mod)
  also have "\<dots> = push_bit 4 a OR take_bit 4 x"
    by (rule disjunctive_add) (auto simp: bit_simps)
  finally have "16 * a + x = push_bit 4 a OR take_bit 4 x" .
  moreover have "take_bit 4 x = x" using assms by (simp add: take_bit_eq_mod)
  moreover have "bit x n \<Longrightarrow> n < 4"
    using \<open>take_bit 4 x = x\<close> bit_take_bit_iff [of 4 x n] by simp
  ultimately show ?thesis by (auto simp: bit_simps)
qed

lemma bitwise_nibble_range:
  assumes "0 \<le> x" "x < 16" "0 \<le> y" "y < 16"
  shows "0 \<le> bitwise_nibble oper x y \<and> bitwise_nibble oper x y < 16"
proof (cases oper)
  case Bitwise_And
  then show ?thesis using assms AND_upper1 [of x y] by simp
next
  case Bitwise_Or
  then show ?thesis using assms OR_upper [of x 4 y] by simp
next
  case Bitwise_Xor
  then show ?thesis using assms XOR_upper [of x 4 y] by simp
next
  case Bitwise_Mask
  then show ?thesis using assms AND_upper1 [of x "NOT y AND 15"] by simp
qed

lemma bit_bitwise_nibble:
  "n < 4 \<Longrightarrow> bit (bitwise_nibble oper x y) n = bit (bitwise_int oper x y) n"
  by (cases oper) (auto simp: bit_simps)

lemma bitwise_int_cons:
  assumes "0 \<le> x" "x < 16" "0 \<le> y" "y < 16"
  shows "bitwise_int oper (16 * a + x) (16 * b + y) = 16 * bitwise_int oper a b + bitwise_nibble oper x y"
proof (rule bit_eqI)
  fix n :: nat
  note r = bitwise_nibble_range [OF assms, of oper, THEN conjunct1] bitwise_nibble_range [OF assms, of oper, THEN conjunct2]
  show "bit (bitwise_int oper (16 * a + x) (16 * b + y)) n \<longleftrightarrow> bit (16 * bitwise_int oper a b + bitwise_nibble oper x y) n"
    unfolding bit_nibble_cons [OF r]
    by (cases oper; simp add: bit_simps bit_nibble_cons assms bit_bitwise_nibble)
qed

definition addr_bitwise :: "Bitwise_Op \<Rightarrow> cstr \<Rightarrow> cstr \<Rightarrow> cstr" where
  "addr_bitwise oper s t =
     map (\<lambda>i. nibble_char (bitwise_nibble oper (nibble_val (s ! i)) (nibble_val (t ! i)))) [0..<length s]"

lemma addr_bitwise_snoc:
  "length s = length t \<Longrightarrow> addr_bitwise oper (s @ [c]) (t @ [d]) =
     addr_bitwise oper s t @ [nibble_char (bitwise_nibble oper (nibble_val c) (nibble_val d))]"
  by (auto simp: addr_bitwise_def nth_append)

lemma addr_bitwise_val:
  assumes "addr_ok s" "addr_ok t" "length s = length t"
  shows "addr_ok (addr_bitwise oper s t) \<and> length (addr_bitwise oper s t) = length s \<and>
     int (addr_val (addr_bitwise oper s t)) = bitwise_int oper (int (addr_val s)) (int (addr_val t))"
  using assms
proof (induction s arbitrary: t rule: rev_induct)
  case Nil
  then show ?case by (cases oper) (simp_all add: addr_bitwise_def)
next
  case (snoc c s)
  then obtain t' d where t: "t = t' @ [d]" by (cases t rule: rev_cases) auto
  have ok: "addr_ok s" "addr_ok t'" "length s = length t'" "lower_digit c \<noteq> None" "lower_digit d \<noteq> None"
    using snoc.prems t by auto
  note IH = snoc.IH [OF ok(1-3)]
  define b where "b = bitwise_nibble oper (int (addr_digit c)) (int (addr_digit d))"
  have b: "0 \<le> b" "b < 16"
    using bitwise_nibble_range [of "int (addr_digit c)" "int (addr_digit d)" oper] addr_digit_less ok(4,5)
    by (simp_all add: b_def)
  have d: "lower_digit (nibble_char b) = Some (nat b)" using nibble_char_digit b by blast
  have "bitwise_int oper (16 * int (addr_val s) + int (addr_digit c)) (16 * int (addr_val t') + int (addr_digit d)) =
     16 * bitwise_int oper (int (addr_val s)) (int (addr_val t')) + b"
    unfolding b_def using addr_digit_less ok(4,5) by (intro bitwise_int_cons) simp_all
  then show ?case unfolding t addr_bitwise_snoc [OF ok(3)] nibble_val_digit [OF ok(4)] nibble_val_digit [OF ok(5)]
      b_def [symmetric]
    using IH b d by (simp add: addr_val_snoc addr_digit_Some)
qed

lemma and_7_iff: "(4 * int n AND 7 \<noteq> 0) \<longleftrightarrow> odd n"
proof -
  have "4 * int n AND 7 = 4 * int n mod 2 ^ 3"
    using take_bit_eq_mask [of 3 "4 * int n"] by (simp add: take_bit_eq_mod mask_eq_exp_minus_1)
  also have "(4 * int n mod 2 ^ 3 \<noteq> 0) \<longleftrightarrow> odd n" by (simp, presburger)
  finally show ?thesis .
qed

lemma addr_ok_no_nul: "addr_ok s \<Longrightarrow> no_nul s"
  unfolding addr_ok_def no_nul_def by (metis lower_digit_0)

lemma Bitwise_eq:
  assumes "no_nul s" "no_nul t"
  shows "Bitwise oper [cmd, s, t] =
     (if \<not> addr_ok s \<or> odd (length s) then Tcl_Error [] (cstr ''Malformed address: '' @ [34] @ s @ [34])
      else if \<not> addr_ok t \<or> odd (length t) then Tcl_Error [] (cstr ''Malformed address: '' @ [34] @ t @ [34])
      else if length s \<noteq> length t then
        Tcl_Error [] (cstr ''Address lengths differ: '' @ [34] @ s @ [34, 32, 34] @ t @ [34])
      else Tcl_Ok (addr_bitwise oper s t))"
proof -
  have "drop_bit 2 (4 * int n) = int n" for n by (simp add: drop_bit_eq_div)
  then show ?thesis
    using and_7_iff [of "length s"] and_7_iff [of "length t"] assms
    by (simp add: Bitwise_def Common_Bits_same addr_bitwise_def)
qed

lemma mask_bits_ones_replicate:
  "mask_bits_ones (replicate n 102 @ s) k = mask_bits_ones s (k + 4 * int n)"
  by (induction n arbitrary: k) (simp_all add: algebra_simps)

lemma dropWhile_replicate: "dropWhile (\<lambda>c. c = x) (replicate n x) = []"
  by (induction n) auto

text \<open>The digits of a mask of \<open>8 * len\<close> bits with \<open>bits\<close> leading or trailing ones.\<close>

definition left_mask :: "nat \<Rightarrow> nat \<Rightarrow> cstr" where
  "left_mask n b = replicate (b div 4) 102 @
     (if b div 4 \<noteq> n then left_bits ! (b mod 4) # replicate (n - b div 4 - 1) 48 else [])"

definition right_mask :: "nat \<Rightarrow> nat \<Rightarrow> cstr" where
  "right_mask n b = (if b div 4 \<noteq> n then replicate (n - b div 4 - 1) 48 @ [right_bits ! (b mod 4)] else []) @
     replicate (b div 4) 102"

lemma and_3_mod: "nat (int b AND 3) = b mod 4"
proof -
  have "int b AND 3 = int (b mod 4)"
    using take_bit_eq_mask [of 2 "int b"] by (simp add: take_bit_eq_mod mask_eq_exp_minus_1 zmod_int)
  then show ?thesis by simp
qed

lemma mask_digits_eq:
  assumes "b \<le> 8 * l" "l < 2 ^ 28"
  shows "mask_digits (int l) (int b) left = Done (if left then left_mask (2 * l) b else right_mask (2 * l) b)"
proof -
  have l: "int32 (int l * 2) = int (2 * l)" "int32 (int (2 * l) + 1) = int (2 * l) + 1"
    "int32 (int (2 * l) - int (b div 4) - 1) = int (2 * l) - int (b div 4) - 1"
    using assms by (subst int32_id; simp add: is_int32_def)+
  have d: "int b div 4 = int (b div 4)" "nat (int (2 * l) - int (b div 4) - 1) = 2 * l - b div 4 - 1"
    by simp_all
  have "b div 4 \<le> 2 * l" using assms(1) by simp
  then show ?thesis
    unfolding mask_digits_def Let_def l d and_3_mod
    by (auto simp: left_mask_def right_mask_def l d)
qed

lemma length_masks: "b \<le> 4 * n \<Longrightarrow> length (left_mask n b) = n" "b \<le> 4 * n \<Longrightarrow> length (right_mask n b) = n"
  by (auto simp: left_mask_def right_mask_def)

lemma less_4_cases: "r < 4 \<Longrightarrow> r = 0 \<or> r = 1 \<or> r = 2 \<or> r = 3" for r :: nat
  by auto

lemma mask_bits_left_mask:
  assumes "b \<le> 4 * n"
  shows "mask_bits_count (left_mask n b) = int b"
proof (cases "b div 4 = n")
  case True
  then show ?thesis using assms mask_bits_ones_replicate [of n "[]" 0]
    by (simp add: left_mask_def mask_bits_count_def Let_def)
next
  case False
  have b: "b mod 4 < 4" "int b = int (4 * (b div 4) + b mod 4)" by simp_all
  show ?thesis
    unfolding left_mask_def mask_bits_count_def mask_bits_ones_replicate b(2)
    using False less_4_cases [OF b(1)]
    by (elim disjE) (simp_all add: left_bits_def cstr_def dropWhile_replicate del: mod_mult_div_eq mult_div_mod_eq div_mult_mod_eq)
qed

lemma mask_bits_ones_split:
  "\<exists>n s. m = replicate n 102 @ s \<and> (s = [] \<or> hd s \<noteq> 102) \<and> mask_bits_ones m k = (k + 4 * int n, s)"
proof (induction m arbitrary: k)
  case (Cons c m)
  show ?case
  proof (cases "c = 102")
    case True
    from Cons.IH [of "k + 4"] obtain n s where "m = replicate n 102 @ s" "s = [] \<or> hd s \<noteq> 102"
      "mask_bits_ones m (k + 4) = (k + 4 + 4 * int n, s)" by blast
    then show ?thesis using True by (intro exI [of _ "Suc n"] exI [of _ s]) simp
  qed (intro exI [of _ 0] exI [of _ "c # m"], simp)
qed simp

lemma dropWhile_zeros: "no_nul s \<Longrightarrow> c_at (dropWhile (\<lambda>c. c = x) s) 0 = 0 \<longleftrightarrow> s = replicate (length s) x"
proof (induction s)
  case (Cons c s)
  then show ?case by (cases "c = x") auto
qed simp

lemma mask_bits_inv:
  assumes "no_nul m" "mask_bits_count m = int k"
  shows "k \<le> 4 * length m \<and> m = left_mask (length m) k"
proof -
  obtain n s where m: "m = replicate n 102 @ s" and s: "s = [] \<or> hd s \<noteq> 102"
    and ones: "mask_bits_ones m 0 = (4 * int n, s)" using mask_bits_ones_split [of m 0] by auto
  have nn: "no_nul s" using assms(1) m by simp
  define zeros where "zeros t = (t = replicate (length t) (48 :: u8))" for t
  have z: "c_at (dropWhile (\<lambda>c. c = 48) t) 0 = 0 \<longleftrightarrow> zeros t" if "no_nul t" for t
    using dropWhile_zeros [OF that] by (simp add: zeros_def)
  have "\<exists>r<4. k = 4 * n + r \<and> (s = [] \<and> r = 0 \<or> (\<exists>t. s = left_bits ! r # t \<and> zeros t))"
  proof (cases s)
    case Nil
    then show ?thesis using assms(2) ones by (intro exI [of _ 0]) (simp add: mask_bits_count_def)
  next
    case (Cons c t)
    have t: "no_nul t" using nn Cons by simp
    have lb: "left_bits ! 0 = 48" "left_bits ! 1 = 56" "left_bits ! 2 = 99" "left_bits ! 3 = 101"
      by (simp_all add: left_bits_def)
    have zc: "zeros (c # t) \<longleftrightarrow> c = 48 \<and> zeros t" by (simp add: zeros_def)
    note eq = assms(2) [unfolded mask_bits_count_def ones Cons, simplified]
    consider "c = 101" | "c = 99" | "c = 56" | "c \<noteq> 101" "c \<noteq> 99" "c \<noteq> 56" by blast
    then show ?thesis
    proof cases
      case 1 then show ?thesis using eq Cons t lb z by (intro exI [of _ 3]) (auto split: if_splits)
    next
      case 2 then show ?thesis using eq Cons t lb z by (intro exI [of _ 2]) (auto split: if_splits)
    next
      case 3 then show ?thesis using eq Cons t lb z by (intro exI [of _ 1]) (auto split: if_splits)
    next
      case 4 then show ?thesis using eq Cons t nn lb z [of s] zc by (intro exI [of _ 0]) (auto split: if_splits)
    qed
  qed
  then obtain r where r: "r < 4" "k = 4 * n + r" "s = [] \<and> r = 0 \<or> (\<exists>t. s = left_bits ! r # t \<and> zeros t)"
    by blast
  then have "k div 4 = n" "k mod 4 = r" by simp_all
  then show ?thesis using r m by (auto simp: left_mask_def zeros_def)
qed

lemma addr_val_replicate:
  "addr_val (replicate n 48) = 0" "addr_val (replicate n 102) + 1 = 16 ^ n"
  by (induction n) simp_all

lemma addr_ok_replicate [simp]: "lower_digit c \<noteq> None \<Longrightarrow> addr_ok (replicate n c)"
  by (induction n) simp_all

lemma mask_bits_digit:
  assumes "r < 4"
  shows "lower_digit (left_bits ! r) = Some (16 - 2 ^ (4 - r))" "lower_digit (right_bits ! r) = Some (2 ^ r - 1)"
  using less_4_cases [OF assms] by (auto simp: left_bits_def right_bits_def cstr_def lower_digit_def)

lemma left_mask_val:
  assumes "b \<le> 4 * n"
  shows "addr_ok (left_mask n b) \<and> addr_val (left_mask n b) + 2 ^ (4 * n - b) = 2 ^ (4 * n)"
proof -
  define q r where qr: "q = b div 4" "r = b mod 4"
  have b: "b = 4 * q + r" "r < 4" by (simp_all add: qr)
  note d = mask_bits_digit(1) [OF b(2)]
  show ?thesis
  proof (cases "q = n")
    case True
    then have "r = 0" using assms b(1) by simp
    then show ?thesis using True b addr_val_replicate(2) [of n]
      by (simp add: left_mask_def power_mult flip: qr)
  next
    case False
    then obtain m where m: "n = q + Suc m" using assms b less_imp_Suc_add [of q n] by auto
    let ?M = "16 ^ m :: nat" and ?Q = "16 ^ q :: nat" and ?s = "2 ^ (4 - r) :: nat"
    have s: "?s \<le> 16" using power_increasing [of "4 - r" 4 "2 :: nat"] by simp
    have "4 * n - b = 4 - r + 4 * m" using m b by simp
    then have p: "2 ^ (4 * n - b) = ?s * ?M" "2 ^ (4 * n) = ?Q * (16 * ?M)"
      by (simp_all add: m power_add power_mult)
    have "left_mask n b = replicate q 102 @ left_bits ! r # replicate m 48"
      using m by (simp add: left_mask_def flip: qr)
    then have v: "addr_val (left_mask n b) = addr_val (replicate q 102) * (16 * ?M) + (16 - ?s) * ?M"
      using d by (simp add: addr_val_append addr_val_replicate addr_digit_Some)
    have "addr_val (left_mask n b) + ?s * ?M = addr_val (replicate q 102) * (16 * ?M) + (16 - ?s + ?s) * ?M"
      unfolding v by (simp only: add_mult_distrib add.assoc)
    also have "\<dots> = (addr_val (replicate q 102) + 1) * (16 * ?M)"
      using s by (simp add: add_mult_distrib)
    finally show ?thesis unfolding p addr_val_replicate(2)
      using d m by (simp add: left_mask_def flip: qr)
  qed
qed

lemma right_mask_val:
  assumes "b \<le> 4 * n"
  shows "addr_ok (right_mask n b) \<and> addr_val (right_mask n b) + 1 = 2 ^ b"
proof -
  define q r where qr: "q = b div 4" "r = b mod 4"
  have b: "b = 4 * q + r" "r < 4" by (simp_all add: qr)
  note d = mask_bits_digit(2) [OF b(2)]
  have p: "(2 :: nat) ^ b = 2 ^ r * 16 ^ q" unfolding b(1) by (simp add: power_add power_mult)
  define A where "A = (if q \<noteq> n then 2 ^ r - 1 else 0 :: nat)"
  have A: "A + 1 = 2 ^ r" using assms b by (auto simp: A_def)
  have "addr_val (right_mask n b) = A * 16 ^ q + addr_val (replicate q 102)"
    using d by (simp add: A_def right_mask_def addr_val_append addr_val_snoc addr_val_replicate addr_digit_Some flip: qr)
  then have "addr_val (right_mask n b) + 1 = (A + 1) * 16 ^ q"
    using addr_val_replicate(2) [of q] by (simp add: add_mult_distrib)
  also have "\<dots> = 2 ^ b" unfolding A p ..
  finally show ?thesis using d by (simp add: right_mask_def flip: qr)
qed

section \<open>Properties\<close>

text \<open>C18: \<open>Unameit_Common_Bits\<close> answers k exactly when both arguments are addresses of the same
  length and they are the first and the last address of one block with a k bit prefix: the
  first is a multiple of the block size and the last is the first plus the size minus one.
  In every other case the answer is -1.\<close>

theorem common_bits_address_block:
  assumes "no_nul bs"
  shows "(Unameit_Common_Bits as bs = int k \<longleftrightarrow>
      addr_ok as \<and> addr_ok bs \<and> length as = length bs \<and> k \<le> 4 * length as \<and>
      2 ^ (4 * length as - k) dvd addr_val as \<and>
      addr_val bs + 1 = addr_val as + 2 ^ (4 * length as - k)) \<and>
    - 1 \<le> Unameit_Common_Bits as bs"
  using Common_Bits_iff [OF assms, of as k] Common_Bits_ge [of as bs] unfolding addr_block_def by simp

theorem common_bits_address_block_witness:
  "Unameit_Common_Bits (cstr ''c0a80100'') (cstr ''c0a801ff'') = 24"
proof -
  have "addr_ok (cstr ''c0a80100'') \<and> addr_ok (cstr ''c0a801ff'')"
    "addr_val (cstr ''c0a80100'') = 0xc0a80100" "addr_val (cstr ''c0a801ff'') = 0xc0a801ff"
    by (simp_all add: cstr_def addr_digit_def lower_digit_def)
  moreover have "no_nul (cstr ''c0a801ff'')" by (simp add: cstr_def)
  ultimately show ?thesis
    using common_bits_address_block [of "cstr ''c0a801ff''" "cstr ''c0a80100''" 24] by simp
qed

text \<open>C28: incrementing and decrementing an address of n digits adds and subtracts one modulo
  16 to the n, keeps the length, and each undoes the other.\<close>

theorem increment_decrement_inverse:
  assumes "addr_ok s"
  shows "\<exists>r q. Increment [cmd, s] = Tcl_Ok r \<and> Decrement [cmd, s] = Tcl_Ok q \<and>
     length r = length s \<and> length q = length s \<and> addr_ok r \<and> addr_ok q \<and>
     addr_val r = (addr_val s + 1) mod 16 ^ length s \<and>
     addr_val q = (addr_val s + 16 ^ length s - 1) mod 16 ^ length s \<and>
     Decrement [cmd, r] = Tcl_Ok s \<and> Increment [cmd, q] = Tcl_Ok s"
proof -
  obtain r where r: "Increment [cmd, s] = Tcl_Ok r" "addr_ok r" "length r = length s"
    "addr_val r = (addr_val s + 1) mod 16 ^ length s" using assms by (rule Increment_ok)
  obtain q where q: "Decrement [cmd, s] = Tcl_Ok q" "addr_ok q" "length q = length s"
    "addr_val q = (addr_val s + 16 ^ length s - 1) mod 16 ^ length s" using assms by (rule Decrement_ok)
  obtain r' where r': "Decrement [cmd, r] = Tcl_Ok r'" "addr_ok r'" "length r' = length r"
    "addr_val r' = (addr_val r + 16 ^ length r - 1) mod 16 ^ length r" using r(2) by (rule Decrement_ok)
  obtain q' where q': "Increment [cmd, q] = Tcl_Ok q'" "addr_ok q'" "length q' = length q"
    "addr_val q' = (addr_val q + 1) mod 16 ^ length q" using q(2) by (rule Increment_ok)
  have less: "addr_val s < 16 ^ length s" using assms by (rule addr_val_less)
  define M v where "M = (16 ^ length s :: nat)" and "v = addr_val s"
  have M: "v < M" using less by (simp add: M_def v_def)
  have "((v + 1) mod M + M - 1) mod M = v"
    using M by (cases "v + 1 = M") (auto simp: Suc_lessI)
  then have "r' = s" using r r' assms by (intro addr_val_inj) (simp_all add: M_def v_def)
  moreover have "((v + M - 1) mod M + 1) mod M = (v + M - 1 + 1) mod M" by (rule mod_add_left_eq)
  then have "((v + M - 1) mod M + 1) mod M = v" using M by simp
  then have "q' = s" using q q' assms by (intro addr_val_inj) (simp_all add: M_def v_def)
  ultimately show ?thesis using r q r'(1) q'(1) by auto
qed

theorem increment_decrement_inverse_witness:
  "\<exists>r q. Increment [[], cstr ''c0ff''] = Tcl_Ok r \<and> Decrement [[], cstr ''c0ff''] = Tcl_Ok q \<and>
     addr_val r = 0xc100 \<and> addr_val q = 0xc0fe \<and> Decrement [[], r] = Tcl_Ok (cstr ''c0ff'')"
proof -
  have "addr_ok (cstr ''c0ff'')" "addr_val (cstr ''c0ff'') = 0xc0ff" by (simp_all add: cstr_def addr_digit_def lower_digit_def)
  then show ?thesis
    using increment_decrement_inverse [of "cstr ''c0ff''" "[]"] by auto
qed

text \<open>C30: the and, or, xor and mask commands reject arguments that are not addresses of whole
  bytes and arguments of different lengths, and otherwise return the address of that length
  whose value is the bitwise operation on the two values.\<close>

theorem bitwise_commands_correct:
  assumes "no_nul s" "no_nul t"
  shows "if addr_ok s \<and> addr_ok t \<and> even (length s) \<and> length s = length t
     then \<exists>r. Bitwise oper [cmd, s, t] = Tcl_Ok r \<and> addr_ok r \<and> length r = length s \<and>
       int (addr_val r) = (case oper of
           Bitwise_And \<Rightarrow> int (addr_val s) AND int (addr_val t)
         | Bitwise_Or \<Rightarrow> int (addr_val s) OR int (addr_val t)
         | Bitwise_Xor \<Rightarrow> int (addr_val s) XOR int (addr_val t)
         | Bitwise_Mask \<Rightarrow> int (addr_val s) AND NOT (int (addr_val t)))
     else \<exists>msg. Bitwise oper [cmd, s, t] = Tcl_Error [] msg"
proof (cases "addr_ok s \<and> addr_ok t \<and> even (length s) \<and> length s = length t")
  case True
  then have "Bitwise oper [cmd, s, t] = Tcl_Ok (addr_bitwise oper s t)"
    by (auto simp: Bitwise_eq [OF assms])
  moreover have "(case oper of
           Bitwise_And \<Rightarrow> int (addr_val s) AND int (addr_val t)
         | Bitwise_Or \<Rightarrow> int (addr_val s) OR int (addr_val t)
         | Bitwise_Xor \<Rightarrow> int (addr_val s) XOR int (addr_val t)
         | Bitwise_Mask \<Rightarrow> int (addr_val s) AND NOT (int (addr_val t))) =
      bitwise_int oper (int (addr_val s)) (int (addr_val t))" by (cases oper) simp_all
  ultimately show ?thesis using True addr_bitwise_val [of s t oper] by auto
next
  case False
  then show ?thesis using Bitwise_eq [OF assms] by auto
qed

theorem bitwise_commands_correct_witness:
  "\<exists>r. Bitwise Bitwise_Mask [[], cstr ''0aff'', cstr ''00f0''] = Tcl_Ok r \<and> addr_val r = 0x0a0f"
proof -
  have "addr_ok (cstr ''0aff'')" "addr_ok (cstr ''00f0'')" "addr_val (cstr ''0aff'') = 0x0aff"
    "addr_val (cstr ''00f0'') = 0xf0" "no_nul (cstr ''0aff'')" "no_nul (cstr ''00f0'')"
    by (simp_all add: cstr_def addr_digit_def lower_digit_def)
  then show ?thesis
    using bitwise_commands_correct [of "cstr ''0aff''" "cstr ''00f0''" Bitwise_Mask "[]"] by auto
qed

text \<open>C31: for a length l in bytes below 2 to the 28 and b bits, \<open>Make_Mask\<close> fails on b greater
  than 8l, returns for b at least 0 the 2l digits with b leading one bits (and \<open>Mask_Bits\<close>
  reads b back from them) and for negative b the 2l digits with -b trailing one bits.\<close>

theorem make_mask_roundtrip:
  assumes "get_int a1 = Some (int l)" "get_int a2 = Some b" "l < 2 ^ 28" "INT32_MIN < b" "b \<le> INT32_MAX"
  shows "(\<bar>b\<bar> > 8 * int l \<longrightarrow> (\<exists>msg. Make_Mask get_int [cmd, a1, a2] = Done (Tcl_Error [] msg))) \<and>
    (\<bar>b\<bar> \<le> 8 * int l \<longrightarrow> (\<exists>r. Make_Mask get_int [cmd, a1, a2] = Done (Tcl_Ok r) \<and>
       length r = 2 * l \<and> addr_ok r \<and>
       (if b \<ge> 0 then addr_val r + 2 ^ (8 * l - nat b) = 2 ^ (8 * l) \<and> Mask_Bits [cmd, r] = Tcl_Ok b
        else addr_val r + 1 = 2 ^ nat (- b))))"
proof -
  define n where "n = nat \<bar>b\<bar>"
  have i: "int32 (int l * 8) = int (8 * l)" "int32 (- b) = - b"
    using assms(3-5) by (subst int32_id; simp add: is_int32_def)+
  have n: "(if 0 \<le> b then b else int32 (- b)) = int n" by (simp add: n_def i)
  have M: "Make_Mask get_int [cmd, a1, a2] =
     (if int n > int (8 * l) then Done (Tcl_Error [] (cstr ''Bad numbits > length '' @ [34] @ a2 @ [34]))
      else (case mask_digits (int l) (int n) (b \<ge> 0) of
              Done r \<Rightarrow> Done (Tcl_Ok r) | Panic \<Rightarrow> Panic | Overrun \<Rightarrow> Overrun))"
    using assms(1,2) unfolding Make_Mask_def Let_def by (simp add: n i(1) [simplified])
  have "\<bar>b\<bar> = int n" by (simp add: n_def)
  moreover have "b \<ge> 0 \<Longrightarrow> b = int n" "b < 0 \<Longrightarrow> - b = int n" by (simp_all add: n_def)
  moreover have "n \<le> 8 * l \<Longrightarrow> Mask_Bits [cmd, left_mask (2 * l) n] = Tcl_Ok (int n)"
    by (simp add: Mask_Bits_def mask_bits_left_mask)
  ultimately show ?thesis
    using mask_digits_eq [OF _ assms(3), of n] left_mask_val [of n "2 * l"] right_mask_val [of n "2 * l"]
      length_masks [of n "2 * l"] unfolding M by auto
qed

text \<open>A decimal reader to instantiate \<open>Tcl_GetInt\<close> with.\<close>

definition dec_int :: "cstr \<Rightarrow> int option" where
  "dec_int s = (if s \<noteq> [] \<and> (\<forall>c\<in>set s. 48 \<le> c \<and> c \<le> 57)
     then Some (fold (\<lambda>c v. 10 * v + (uint c - 48)) s 0) else None)"

theorem make_mask_roundtrip_witness:
  "\<exists>r. Make_Mask dec_int [[], cstr ''4'', cstr ''20''] = Done (Tcl_Ok r) \<and>
     addr_val r = 0xfffff000 \<and> Mask_Bits [[], r] = Tcl_Ok 20"
proof -
  have "dec_int (cstr ''4'') = Some (int 4)" "dec_int (cstr ''20'') = Some 20"
    by (simp_all add: dec_int_def cstr_def)
  from make_mask_roundtrip [OF this, of "[]"] show ?thesis by auto
qed

text \<open>C32: \<open>Mask_Bits\<close> answers k exactly on the masks with k leading one bits and zeros after
  them.\<close>

theorem mask_bits_accepts_iff:
  assumes "no_nul m"
  shows "Mask_Bits [cmd, m] = Tcl_Ok (int k) \<longleftrightarrow>
     addr_ok m \<and> k \<le> 4 * length m \<and> addr_val m + 2 ^ (4 * length m - k) = 2 ^ (4 * length m)"
proof
  assume "Mask_Bits [cmd, m] = Tcl_Ok (int k)"
  then have "k \<le> 4 * length m" "m = left_mask (length m) k"
    using mask_bits_inv [OF assms, of k] by (simp_all add: Mask_Bits_def)
  then show "addr_ok m \<and> k \<le> 4 * length m \<and> addr_val m + 2 ^ (4 * length m - k) = 2 ^ (4 * length m)"
    using left_mask_val [of k "length m"] by simp
next
  assume m: "addr_ok m \<and> k \<le> 4 * length m \<and> addr_val m + 2 ^ (4 * length m - k) = 2 ^ (4 * length m)"
  then have "m = left_mask (length m) k"
    using left_mask_val [of k "length m"] length_masks(1) [of k "length m"] by (intro addr_val_inj) auto
  then have "mask_bits_count m = int k" using m mask_bits_left_mask [of k "length m"] by simp
  then show "Mask_Bits [cmd, m] = Tcl_Ok (int k)" by (simp add: Mask_Bits_def)
qed

theorem mask_bits_accepts_iff_witness: "Mask_Bits [[], cstr ''fe00''] = Tcl_Ok 7"
proof -
  have "no_nul (cstr ''fe00'')" "addr_ok (cstr ''fe00'')" "addr_val (cstr ''fe00'') = 0xfe00" by (simp_all add: cstr_def addr_digit_def lower_digit_def)
  then show ?thesis using mask_bits_accepts_iff [of "cstr ''fe00''" "[]" 7] by simp
qed

text \<open>C37: no length makes \<open>Make_Mask\<close> reject the most negative bit count: its negation overflows to itself and passes the
  comparison with the length.  For every length up to \<open>3 * 2 ^ 28\<close> octets the digits then written do not fit the
  buffer; for longer ones the count of digits overflows as well and the result is the single digit 0, until the size of
  the buffer overflows and the allocation fails.\<close>

theorem make_mask_int_min_overruns:
  assumes "get_int a1 = Some len" "0 \<le> len" "len \<le> INT32_MAX" "get_int a2 = Some INT32_MIN"
  shows "Make_Mask get_int [cmd, a1, a2] =
    (if len \<le> 0x30000000 then Overrun else if len < 0x40000000 then Done (Tcl_Ok (cstr ''0'')) else Panic)"
proof -
  have neg: "int32 (- INT32_MIN) = INT32_MIN" by (simp add: int32_def)
  have ge: "\<not> INT32_MIN > int32 (len * 8)" using is_int32_int32 [of "len * 8"] by (simp add: is_int32_def)
  have M: "Make_Mask get_int [cmd, a1, a2] = (case mask_digits len INT32_MIN False of Done r \<Rightarrow> Done (Tcl_Ok r) | Panic \<Rightarrow> Panic | Overrun \<Rightarrow> Overrun)"
    using assms neg ge by (simp add: Make_Mask_def Let_def)
  consider "len \<le> 0x30000000" | "0x30000000 < len" "len < 0x40000000" | "0x40000000 \<le> len" by linarith
  then show ?thesis
  proof cases
    case 1
    then have "int32 (len * 2) = len * 2" "int32 (len * 2 + 1) = len * 2 + 1" "int32 (536870911 + len * 2) = 536870911 + len * 2"
      using assms(2) by (auto intro!: int32_id simp: is_int32_def)
    then show ?thesis unfolding M mask_digits_def using 1 assms(2) by (simp add: Let_def)
  next
    case 2
    then have "int32 (len * 2) = len * 2" "int32 (len * 2 + 1) = len * 2 + 1" "int32 (536870911 + len * 2) = 536870911 + len * 2 - 4294967296"
      using assms(2,3) int32_wraps_down [of "536870911 + len * 2"] by (simp_all add: int32_def)
    then show ?thesis unfolding M mask_digits_def using 2 by (simp add: Let_def right_bits_def cstr_def)
  next
    case 3
    then have "int32 (len * 2) = len * 2 - 4294967296" "int32 (len * 2 - 4294967296 + 1) < 0"
      using assms(3) int32_wraps_down [of "len * 2"] by (simp_all add: int32_id is_int32_def)
    then show ?thesis unfolding M mask_digits_def using 3 by (simp add: Let_def)
  qed
qed

theorem make_mask_int_min_overruns_witness:
  "Make_Mask (\<lambda>s. if s = [52] then Some 4 else Some INT32_MIN) [[], [52], []] = Overrun"
  using make_mask_int_min_overruns [of "\<lambda>s. if s = [52] then Some 4 else Some INT32_MIN" "[52]" 4 "[]" "[]"] by simp

end
