(* ===== verification/Md5.thy ===== *)
theory Md5
  imports Prelude
begin

text \<open>
  The message digest of \<^verbatim>\<open>libconn/md5.c\<close> (context of \<^verbatim>\<open>include/md5.h\<close>), used by the connection
  library for message integrity checks and by the license keys.  \<open>Transform\<close> follows the
  source statement by statement; the reference it is compared with is the MD5 definition of
  RFC 1321: index schedule, shift and constant tables, padding and little endian length.
\<close>

unbundle bit_operations_syntax

section \<open>Model\<close>

record MD5_CTX =
  ctx_i0 :: u32
  ctx_i1 :: u32
  ctx_buf :: "u32 list"
  ctx_in :: "u8 list"
  ctx_digest :: "u8 list"

definition PADDING :: "u8 list" where
  "PADDING = 0x80 # replicate 63 0"

definition md5_F :: "u32 \<Rightarrow> u32 \<Rightarrow> u32 \<Rightarrow> u32" where
  "md5_F x y z = ((x AND y) OR (NOT x AND z))"

definition md5_G :: "u32 \<Rightarrow> u32 \<Rightarrow> u32 \<Rightarrow> u32" where
  "md5_G x y z = ((x AND z) OR (y AND NOT z))"

definition md5_H :: "u32 \<Rightarrow> u32 \<Rightarrow> u32 \<Rightarrow> u32" where
  "md5_H x y z = (x XOR y XOR z)"

definition md5_I :: "u32 \<Rightarrow> u32 \<Rightarrow> u32 \<Rightarrow> u32" where
  "md5_I x y z = (y XOR (x OR NOT z))"

definition ROTATE_LEFT :: "u32 \<Rightarrow> nat \<Rightarrow> u32" where
  "ROTATE_LEFT x n = (push_bit n x OR drop_bit (32 - n) x)"

text \<open>Each macro assigns its first argument; the function returns the assigned value.\<close>

definition FF :: "u32 \<Rightarrow> u32 \<Rightarrow> u32 \<Rightarrow> u32 \<Rightarrow> u32 \<Rightarrow> nat \<Rightarrow> u32 \<Rightarrow> u32" where
  "FF a b c d x s ac = ROTATE_LEFT (a + (md5_F b c d + x + ac)) s + b"

definition GG :: "u32 \<Rightarrow> u32 \<Rightarrow> u32 \<Rightarrow> u32 \<Rightarrow> u32 \<Rightarrow> nat \<Rightarrow> u32 \<Rightarrow> u32" where
  "GG a b c d x s ac = ROTATE_LEFT (a + (md5_G b c d + x + ac)) s + b"

definition HH :: "u32 \<Rightarrow> u32 \<Rightarrow> u32 \<Rightarrow> u32 \<Rightarrow> u32 \<Rightarrow> nat \<Rightarrow> u32 \<Rightarrow> u32" where
  "HH a b c d x s ac = ROTATE_LEFT (a + (md5_H b c d + x + ac)) s + b"

definition II :: "u32 \<Rightarrow> u32 \<Rightarrow> u32 \<Rightarrow> u32 \<Rightarrow> u32 \<Rightarrow> nat \<Rightarrow> u32 \<Rightarrow> u32" where
  "II a b c d x s ac = ROTATE_LEFT (a + (md5_I b c d + x + ac)) s + b"

type_synonym md5_regs = "u32 \<times> u32 \<times> u32 \<times> u32"

definition Transform_Round1 :: "u32 list \<Rightarrow> md5_regs \<Rightarrow> md5_regs" where
  "Transform_Round1 inp = (\<lambda>(a, b, c, d).
     (let a = FF a b c d (inp ! 0) 7 0xd76aa478;
          d = FF d a b c (inp ! 1) 12 0xe8c7b756;
          c = FF c d a b (inp ! 2) 17 0x242070db;
          b = FF b c d a (inp ! 3) 22 0xc1bdceee;
          a = FF a b c d (inp ! 4) 7 0xf57c0faf;
          d = FF d a b c (inp ! 5) 12 0x4787c62a;
          c = FF c d a b (inp ! 6) 17 0xa8304613;
          b = FF b c d a (inp ! 7) 22 0xfd469501;
          a = FF a b c d (inp ! 8) 7 0x698098d8;
          d = FF d a b c (inp ! 9) 12 0x8b44f7af;
          c = FF c d a b (inp ! 10) 17 0xffff5bb1;
          b = FF b c d a (inp ! 11) 22 0x895cd7be;
          a = FF a b c d (inp ! 12) 7 0x6b901122;
          d = FF d a b c (inp ! 13) 12 0xfd987193;
          c = FF c d a b (inp ! 14) 17 0xa679438e;
          b = FF b c d a (inp ! 15) 22 0x49b40821
      in (a, b, c, d)))"

definition Transform_Round2 :: "u32 list \<Rightarrow> md5_regs \<Rightarrow> md5_regs" where
  "Transform_Round2 inp = (\<lambda>(a, b, c, d).
     (let a = GG a b c d (inp ! 1) 5 0xf61e2562;
          d = GG d a b c (inp ! 6) 9 0xc040b340;
          c = GG c d a b (inp ! 11) 14 0x265e5a51;
          b = GG b c d a (inp ! 0) 20 0xe9b6c7aa;
          a = GG a b c d (inp ! 5) 5 0xd62f105d;
          d = GG d a b c (inp ! 10) 9 0x2441453;
          c = GG c d a b (inp ! 15) 14 0xd8a1e681;
          b = GG b c d a (inp ! 4) 20 0xe7d3fbc8;
          a = GG a b c d (inp ! 9) 5 0x21e1cde6;
          d = GG d a b c (inp ! 14) 9 0xc33707d6;
          c = GG c d a b (inp ! 3) 14 0xf4d50d87;
          b = GG b c d a (inp ! 8) 20 0x455a14ed;
          a = GG a b c d (inp ! 13) 5 0xa9e3e905;
          d = GG d a b c (inp ! 2) 9 0xfcefa3f8;
          c = GG c d a b (inp ! 7) 14 0x676f02d9;
          b = GG b c d a (inp ! 12) 20 0x8d2a4c8a
      in (a, b, c, d)))"

definition Transform_Round3 :: "u32 list \<Rightarrow> md5_regs \<Rightarrow> md5_regs" where
  "Transform_Round3 inp = (\<lambda>(a, b, c, d).
     (let a = HH a b c d (inp ! 5) 4 0xfffa3942;
          d = HH d a b c (inp ! 8) 11 0x8771f681;
          c = HH c d a b (inp ! 11) 16 0x6d9d6122;
          b = HH b c d a (inp ! 14) 23 0xfde5380c;
          a = HH a b c d (inp ! 1) 4 0xa4beea44;
          d = HH d a b c (inp ! 4) 11 0x4bdecfa9;
          c = HH c d a b (inp ! 7) 16 0xf6bb4b60;
          b = HH b c d a (inp ! 10) 23 0xbebfbc70;
          a = HH a b c d (inp ! 13) 4 0x289b7ec6;
          d = HH d a b c (inp ! 0) 11 0xeaa127fa;
          c = HH c d a b (inp ! 3) 16 0xd4ef3085;
          b = HH b c d a (inp ! 6) 23 0x4881d05;
          a = HH a b c d (inp ! 9) 4 0xd9d4d039;
          d = HH d a b c (inp ! 12) 11 0xe6db99e5;
          c = HH c d a b (inp ! 15) 16 0x1fa27cf8;
          b = HH b c d a (inp ! 2) 23 0xc4ac5665
      in (a, b, c, d)))"

definition Transform_Round4 :: "u32 list \<Rightarrow> md5_regs \<Rightarrow> md5_regs" where
  "Transform_Round4 inp = (\<lambda>(a, b, c, d).
     (let a = II a b c d (inp ! 0) 6 0xf4292244;
          d = II d a b c (inp ! 7) 10 0x432aff97;
          c = II c d a b (inp ! 14) 15 0xab9423a7;
          b = II b c d a (inp ! 5) 21 0xfc93a039;
          a = II a b c d (inp ! 12) 6 0x655b59c3;
          d = II d a b c (inp ! 3) 10 0x8f0ccc92;
          c = II c d a b (inp ! 10) 15 0xffeff47d;
          b = II b c d a (inp ! 1) 21 0x85845dd1;
          a = II a b c d (inp ! 8) 6 0x6fa87e4f;
          d = II d a b c (inp ! 15) 10 0xfe2ce6e0;
          c = II c d a b (inp ! 6) 15 0xa3014314;
          b = II b c d a (inp ! 13) 21 0x4e0811a1;
          a = II a b c d (inp ! 4) 6 0xf7537e82;
          d = II d a b c (inp ! 11) 10 0xbd3af235;
          c = II c d a b (inp ! 2) 15 0x2ad7d2bb;
          b = II b c d a (inp ! 9) 21 0xeb86d391
      in (a, b, c, d)))"

definition Transform :: "u32 list \<Rightarrow> u32 list \<Rightarrow> u32 list" where
  "Transform buf inp =
     (let (a, b, c, d) =
        Transform_Round4 inp (Transform_Round3 inp (Transform_Round2 inp (Transform_Round1 inp
          (buf ! 0, buf ! 1, buf ! 2, buf ! 3))))
      in [buf ! 0 + a, buf ! 1 + b, buf ! 2 + c, buf ! 3 + d])"

definition MD5Init :: "MD5_CTX \<Rightarrow> MD5_CTX" where
  "MD5Init ctx = ctx\<lparr>ctx_i0 := 0, ctx_i1 := 0,
     ctx_buf := [0x67452301, 0xefcdab89, 0x98badcfe, 0x10325476]\<rparr>"

definition md5_word :: "u8 list \<Rightarrow> nat \<Rightarrow> u32" where
  "md5_word inb ii =
     (push_bit 24 (ucast (inb ! (ii + 3))) OR push_bit 16 (ucast (inb ! (ii + 2))) OR
      push_bit 8 (ucast (inb ! (ii + 1))) OR ucast (inb ! ii))"

text \<open>One turn of the byte loop: buffer state, input buffer and fill index.\<close>

definition md5_byte :: "u8 \<Rightarrow> u32 list \<times> u8 list \<times> nat \<Rightarrow> u32 list \<times> u8 list \<times> nat" where
  "md5_byte byte = (\<lambda>(buf, inb, mdi).
     (let inb = inb[mdi := byte]; mdi = mdi + 1
      in if mdi = 0x40
         then (Transform buf (map (\<lambda>i. md5_word inb (4 * i)) [0..<16]), inb, 0)
         else (buf, inb, mdi)))"

definition MD5Update :: "MD5_CTX \<Rightarrow> u8 list \<Rightarrow> u32 \<Rightarrow> MD5_CTX" where
  "MD5Update ctx inBuf inLen =
     (let mdi = unat (drop_bit 3 (ctx_i0 ctx) AND 0x3F);
          i1 = (if ctx_i0 ctx + push_bit 3 inLen < ctx_i0 ctx then ctx_i1 ctx + 1 else ctx_i1 ctx);
          (buf, inb, mdi) = fold md5_byte (take (unat inLen) inBuf) (ctx_buf ctx, ctx_in ctx, mdi)
      in ctx\<lparr>ctx_i0 := ctx_i0 ctx + push_bit 3 inLen, ctx_i1 := i1 + drop_bit 29 inLen,
             ctx_buf := buf, ctx_in := inb\<rparr>)"

definition md5_le_bytes :: "u32 \<Rightarrow> u8 list" where
  "md5_le_bytes w = [ucast (w AND 0xFF), ucast (drop_bit 8 w AND 0xFF),
     ucast (drop_bit 16 w AND 0xFF), ucast (drop_bit 24 w AND 0xFF)]"

definition MD5Final :: "MD5_CTX \<Rightarrow> MD5_CTX" where
  "MD5Final ctx =
     (let in14 = ctx_i0 ctx; in15 = ctx_i1 ctx;
          mdi = drop_bit 3 (ctx_i0 ctx) AND 0x3F;
          padLen = (if mdi < 56 then 56 - mdi else 120 - mdi);
          ctx = MD5Update ctx PADDING padLen;
          inw = map (\<lambda>i. md5_word (ctx_in ctx) (4 * i)) [0..<14] @ [in14, in15];
          buf = Transform (ctx_buf ctx) inw
      in ctx\<lparr>ctx_buf := buf, ctx_digest := concat (map (\<lambda>i. md5_le_bytes (buf ! i)) [0..<4])\<rparr>)"

section \<open>The reference\<close>

definition md5_shift :: "nat \<Rightarrow> nat" where
  "md5_shift i = [[7, 12, 17, 22], [5, 9, 14, 20], [4, 11, 16, 23], [6, 10, 15, 21]] ! (i div 16) ! (i mod 4)"

definition md5_index :: "nat \<Rightarrow> nat" where
  "md5_index i = (if i < 16 then i else if i < 32 then (5 * i + 1) mod 16
     else if i < 48 then (3 * i + 5) mod 16 else (7 * i) mod 16)"

definition md5_K :: "u32 list" where
  "md5_K = [0xd76aa478, 0xe8c7b756, 0x242070db, 0xc1bdceee, 0xf57c0faf, 0x4787c62a, 0xa8304613, 0xfd469501,
     0x698098d8, 0x8b44f7af, 0xffff5bb1, 0x895cd7be, 0x6b901122, 0xfd987193, 0xa679438e, 0x49b40821,
     0xf61e2562, 0xc040b340, 0x265e5a51, 0xe9b6c7aa, 0xd62f105d, 0x2441453, 0xd8a1e681, 0xe7d3fbc8,
     0x21e1cde6, 0xc33707d6, 0xf4d50d87, 0x455a14ed, 0xa9e3e905, 0xfcefa3f8, 0x676f02d9, 0x8d2a4c8a,
     0xfffa3942, 0x8771f681, 0x6d9d6122, 0xfde5380c, 0xa4beea44, 0x4bdecfa9, 0xf6bb4b60, 0xbebfbc70,
     0x289b7ec6, 0xeaa127fa, 0xd4ef3085, 0x4881d05, 0xd9d4d039, 0xe6db99e5, 0x1fa27cf8, 0xc4ac5665,
     0xf4292244, 0x432aff97, 0xab9423a7, 0xfc93a039, 0x655b59c3, 0x8f0ccc92, 0xffeff47d, 0x85845dd1,
     0x6fa87e4f, 0xfe2ce6e0, 0xa3014314, 0x4e0811a1, 0xf7537e82, 0xbd3af235, 0x2ad7d2bb, 0xeb86d391]"

definition md5_round_fun :: "nat \<Rightarrow> u32 \<Rightarrow> u32 \<Rightarrow> u32 \<Rightarrow> u32" where
  "md5_round_fun i b c d =
     (if i < 16 then md5_F b c d else if i < 32 then md5_G b c d
      else if i < 48 then md5_H b c d else md5_I b c d)"

definition md5_op :: "u32 list \<Rightarrow> nat \<Rightarrow> md5_regs \<Rightarrow> md5_regs" where
  "md5_op inp i = (\<lambda>(a, b, c, d).
     (d, b + word_rotl (md5_shift i) (a + md5_round_fun i b c d + inp ! md5_index i + md5_K ! i), b, c))"

definition md5_compress :: "u32 list \<Rightarrow> u32 list \<Rightarrow> u32 list" where
  "md5_compress buf inp =
     (let (a, b, c, d) = fold (md5_op inp) [0..<64] (buf ! 0, buf ! 1, buf ! 2, buf ! 3)
      in [buf ! 0 + a, buf ! 1 + b, buf ! 2 + c, buf ! 3 + d])"


section \<open>Transform is the reference compression function\<close>

lemma ROTATE_LEFT_rotl:
  assumes "0 < n" "n < 32"
  shows "ROTATE_LEFT x n = word_rotl n x"
proof (rule bit_word_eqI)
  fix i assume i: "i < LENGTH(32)"
  show "bit (ROTATE_LEFT x n) i = bit (word_rotl n x) i"
  proof (cases "n \<le> i")
    case True
    then have "(i + (32 - n)) mod 32 = i - n" using i assms by (simp add: mod_if)
    then show ?thesis using True i assms bit_imp_le_length [of x "32 - n + i"]
      by (auto simp: ROTATE_LEFT_def bit_simps bit_word_rotl_iff)
  next
    case False
    then have "(32 + i - n) mod 32 = 32 + i - n" by simp
    then show ?thesis using False i assms
      by (auto simp: ROTATE_LEFT_def bit_simps bit_word_rotl_iff add.commute [of i])
  qed
qed

lemma Let_keep: "(\<And>x. v = x \<Longrightarrow> f x = r) \<Longrightarrow> Let v f = r"
  by simp

lemma md5_shift_range: "i < 64 \<Longrightarrow> 0 < md5_shift i \<and> md5_shift i < 32"
proof -
  have "\<forall>i\<in>set [0..<64]. 0 < md5_shift i \<and> md5_shift i < 32" by code_simp
  then show "i < 64 \<Longrightarrow> ?thesis" by simp
qed

lemma md5_op_eq:
  "i < 64 \<Longrightarrow> md5_op inp i (a, b, c, d) =
     (d, (if i < 16 then FF else if i < 32 then GG else if i < 48 then HH else II)
            a b c d (inp ! md5_index i) (md5_shift i) (md5_K ! i), b, c)"
  using md5_shift_range [of i]
  by (simp add: md5_op_def md5_round_fun_def FF_def GG_def HH_def II_def ROTATE_LEFT_rotl add_ac)

lemmas md5_eval = md5_op_eq md5_index_def md5_shift_def md5_K_def

lemma Transform_Round1_eq: "Transform_Round1 inp r = fold (md5_op inp) [0..<16] r"
proof -
  obtain a b c d where r: "r = (a, b, c, d)" by (cases r)
  have u: "[0..<16] = [0,1,2,3,4,5,6,7,8,9,10,11,12,13,14,15]" by (simp add: upt_conv_Cons)
  show ?thesis unfolding r u Transform_Round1_def prod.case
    by (rule Let_keep)+ (simp add: md5_eval)
qed

lemma Transform_Round2_eq: "Transform_Round2 inp r = fold (md5_op inp) [16..<32] r"
proof -
  obtain a b c d where r: "r = (a, b, c, d)" by (cases r)
  have u: "[16..<32] = [16,17,18,19,20,21,22,23,24,25,26,27,28,29,30,31]" by (simp add: upt_conv_Cons)
  show ?thesis unfolding r u Transform_Round2_def prod.case
    by (rule Let_keep)+ (simp add: md5_eval)
qed

lemma Transform_Round3_eq: "Transform_Round3 inp r = fold (md5_op inp) [32..<48] r"
proof -
  obtain a b c d where r: "r = (a, b, c, d)" by (cases r)
  have u: "[32..<48] = [32,33,34,35,36,37,38,39,40,41,42,43,44,45,46,47]" by (simp add: upt_conv_Cons)
  show ?thesis unfolding r u Transform_Round3_def prod.case
    by (rule Let_keep)+ (simp add: md5_eval)
qed

lemma Transform_Round4_eq: "Transform_Round4 inp r = fold (md5_op inp) [48..<64] r"
proof -
  obtain a b c d where r: "r = (a, b, c, d)" by (cases r)
  have u: "[48..<64] = [48,49,50,51,52,53,54,55,56,57,58,59,60,61,62,63]" by (simp add: upt_conv_Cons)
  show ?thesis unfolding r u Transform_Round4_def prod.case
    by (rule Let_keep)+ (simp add: md5_eval)
qed

lemma Transform_eq_compress: "Transform buf inp = md5_compress buf inp"
proof -
  have "[0..<64] = [0..<16] @ [16..<32] @ [32..<48] @ [48..<64]" by (simp add: upt_conv_Cons)
  then show ?thesis unfolding Transform_def md5_compress_def
    by (simp add: Transform_Round1_eq Transform_Round2_eq Transform_Round3_eq Transform_Round4_eq del: upt_rec_numeral)
qed

section \<open>The context represents the message read so far\<close>

text \<open>The reference state after the complete blocks of a message.\<close>

definition md5_words :: "u8 list \<Rightarrow> nat \<Rightarrow> u32 list" where
  "md5_words inb n = map (\<lambda>i. md5_word inb (4 * i)) [0..<n]"

fun md5_blocks :: "u32 list \<Rightarrow> u8 list \<Rightarrow> u32 list" where
  "md5_blocks buf msg =
     (if length msg < 64 then buf
      else md5_blocks (md5_compress buf (md5_words (take 64 msg) 16)) (drop 64 msg))"

declare md5_blocks.simps [simp del]

definition md5_init :: "u32 list" where
  "md5_init = [0x67452301, 0xefcdab89, 0x98badcfe, 0x10325476]"

text \<open>Padding and length of RFC 1321: a one bit, zeros up to 56 modulo 64, and the bit count
  as 64 bit little endian number.\<close>

definition md5_pad :: "nat \<Rightarrow> u8 list" where
  "md5_pad n = take (if n mod 64 < 56 then 56 - n mod 64 else 120 - n mod 64) PADDING"

definition md5_length :: "nat \<Rightarrow> u8 list" where
  "md5_length n = md5_le_bytes (of_nat (8 * n)) @ md5_le_bytes (of_nat (8 * n div 2 ^ 32))"

definition md5_reference :: "u8 list \<Rightarrow> u8 list" where
  "md5_reference msg =
     concat (map md5_le_bytes (md5_blocks md5_init (msg @ md5_pad (length msg) @ md5_length (length msg))))"

lemma md5_blocks_short: "length msg < 64 \<Longrightarrow> md5_blocks buf msg = buf"
  by (simp add: md5_blocks.simps)

lemma md5_blocks_append:
  "64 dvd length a \<Longrightarrow> md5_blocks buf (a @ b) = md5_blocks (md5_blocks buf a) b"
proof (induction "length a" arbitrary: a buf rule: less_induct)
  case less
  show ?case
  proof (cases "a = []")
    case False
    then have l: "64 \<le> length a" using less.prems by (auto dest: dvd_imp_le)
    then have "64 dvd length (drop 64 a)" using less.prems by (simp add: dvd_minus_self)
    moreover have "length (drop 64 a) < length a" using l by simp
    ultimately show ?thesis using l less.hyps [of "drop 64 a"]
      by (simp add: md5_blocks.simps [of _ "a @ b"] md5_blocks.simps [of _ a])
  qed (simp add: md5_blocks_short)
qed

text \<open>Buffer state, input buffer and fill index represent a message.\<close>

definition md5_rep :: "u32 list \<times> u8 list \<times> nat \<Rightarrow> u8 list \<Rightarrow> bool" where
  "md5_rep = (\<lambda>(buf, inb, mdi) msg.
     length inb = 64 \<and> mdi < 64 \<and>
     (\<exists>p. msg = p @ take mdi inb \<and> 64 dvd length p \<and> buf = md5_blocks md5_init p))"

lemma md5_rep_index: "md5_rep (buf, inb, mdi) msg \<Longrightarrow> mdi = length msg mod 64"
  by (auto simp: md5_rep_def)

lemma md5_block_full:
  "length inb = 64 \<Longrightarrow> md5_blocks buf inb = md5_compress buf (map (\<lambda>i. md5_word inb (4 * i)) [0..<16])"
  by (simp add: md5_blocks.simps md5_words_def)

lemma md5_byte_rep:
  assumes "md5_rep st msg"
  shows "md5_rep (md5_byte c st) (msg @ [c])"
proof -
  obtain buf inb mdi where st: "st = (buf, inb, mdi)" by (cases st)
  from assms obtain p where r: "length inb = 64" "mdi < 64" "msg = p @ take mdi inb" "64 dvd length p"
    "buf = md5_blocks md5_init p" by (auto simp: st md5_rep_def)
  have t: "take (Suc mdi) (inb[mdi := c]) = take mdi inb @ [c]"
    using r(1,2) by (simp add: take_Suc_conv_app_nth)
  show ?thesis
  proof (cases "Suc mdi = 64")
    case True
    let ?in = "inb[mdi := c]"
    have "take mdi inb @ [c] = ?in" using t r(1) unfolding True by simp
    then have "msg @ [c] = (p @ ?in) @ take 0 ?in" using r(3) by simp
    moreover have "md5_blocks md5_init (p @ ?in) = Transform buf (map (\<lambda>i. md5_word ?in (4 * i)) [0..<16])"
      using r(1) by (simp only: md5_blocks_append [OF r(4)] r(5) md5_block_full Transform_eq_compress length_list_update)
    moreover have "md5_byte c st = (Transform buf (map (\<lambda>i. md5_word ?in (4 * i)) [0..<16]), ?in, 0)"
      using True unfolding st md5_byte_def by (simp only: prod.case Let_def Suc_eq_plus1 simp_thms if_True)
    moreover have "64 dvd length (p @ ?in)" using r(1,4) by simp
    ultimately show ?thesis using r(1) unfolding md5_rep_def by (simp only: prod.case length_list_update) auto
  next
    case False
    then have "md5_byte c st = (buf, inb[mdi := c], Suc mdi)"
      unfolding st md5_byte_def by (simp only: prod.case Let_def Suc_eq_plus1 if_False)
    then show ?thesis using r False t by (simp only: md5_rep_def prod.case length_list_update) auto
  qed
qed

lemma md5_fold_rep: "md5_rep st msg \<Longrightarrow> md5_rep (fold md5_byte bs st) (msg @ bs)"
proof (induction bs arbitrary: st msg)
  case (Cons c bs)
  then show ?case using md5_byte_rep [of st msg c] Cons.IH [of "md5_byte c st" "msg @ [c]"] by simp
qed simp

subsection \<open>The bit counter\<close>

lemma unat_mdi: "unat (drop_bit 3 (w :: u32) AND 0x3F) = unat w div 8 mod 64"
proof -
  have "drop_bit 3 w AND 0x3F = take_bit 6 (drop_bit 3 w)"
    by (simp add: take_bit_eq_mask mask_eq_exp_minus_1)
  then have "unat (drop_bit 3 w AND 0x3F) = take_bit 6 (drop_bit 3 (unat w))"
    by (simp only: unsigned_take_bit_eq unat_drop_bit_eq)
  then show ?thesis by (simp add: take_bit_eq_mod drop_bit_eq_div)
qed

lemma mdi_eq: "unat (drop_bit 3 (of_nat (8 * n) :: u32) AND 0x3F) = n mod 64"
proof -
  have "8 * n mod (8 * (64 * 8388608)) div 8 mod 64 = n mod 64"
    by (simp only: mult_mod_right [symmetric] nonzero_mult_div_cancel_left mod_mult2_eq) simp
  then show ?thesis by (simp add: unat_mdi unat_of_nat del: of_nat_mult)
qed

lemma word_add_carry:
  "((of_nat a + of_nat b :: u32) < of_nat a) \<longleftrightarrow> 2 ^ 32 \<le> a mod 2 ^ 32 + b mod 2 ^ 32"
proof -
  define x y M where "x = a mod 2 ^ 32" and "y = b mod 2 ^ 32" and "M = (2 ^ 32 :: nat)"
  have M: "x < M" "y < M" by (simp_all add: x_def y_def M_def)
  have "unat (of_nat a + of_nat b :: u32) = (x + y) mod M" "unat (of_nat a :: u32) = x"
    by (simp_all add: unat_word_ariths unat_of_nat x_def y_def M_def)
  moreover have "(x + y) mod M = (if M \<le> x + y then x + y - M else x + y)"
    using M by (cases "M \<le> x + y") (simp_all add: le_mod_geq)
  ultimately have "(unat (of_nat a + of_nat b :: u32) < unat (of_nat a :: u32)) \<longleftrightarrow> M \<le> x + y"
    using M by auto
  then show ?thesis unfolding word_less_nat_alt x_def y_def M_def .
qed

lemma md5_count_step:
  fixes inLen :: u32
  shows "of_nat a + push_bit 3 inLen = (of_nat (a + 8 * unat inLen) :: u32)"
    and "(if of_nat a + push_bit 3 inLen < (of_nat a :: u32) then of_nat (a div 2 ^ 32) + 1
          else of_nat (a div 2 ^ 32)) + drop_bit 29 inLen = (of_nat ((a + 8 * unat inLen) div 2 ^ 32) :: u32)"
proof -
  have p: "push_bit 3 inLen = of_nat (8 * unat inLen)"
    by (simp add: push_bit_eq_mult mult.commute)
  then show "of_nat a + push_bit 3 inLen = (of_nat (a + 8 * unat inLen) :: u32)" by simp
  let ?b = "8 * unat inLen" and ?c = "if 2 ^ 32 \<le> a mod 2 ^ 32 + 8 * unat inLen mod 2 ^ 32 then 1 else 0 :: nat"
  have d: "drop_bit 29 inLen = of_nat (?b div 2 ^ 32)"
  proof -
    have "?b div 2 ^ 32 = unat inLen div 2 ^ 29" by simp
    also have "\<dots> = unat (drop_bit 29 inLen)" unfolding unat_drop_bit_eq by (simp only: drop_bit_eq_div)
    finally show ?thesis by (simp only: of_nat_unat ucast_id)
  qed
  have "(a + ?b) div 2 ^ 32 = a div 2 ^ 32 + ?b div 2 ^ 32 + (a mod 2 ^ 32 + ?b mod 2 ^ 32) div 2 ^ 32"
    by (rule div_add1_eq)
  also have "(a mod 2 ^ 32 + ?b mod 2 ^ 32) div 2 ^ 32 = ?c"
  proof -
    have "x div 2 ^ 32 = (if 2 ^ 32 \<le> x then 1 else 0)" if "x < 2 * 2 ^ 32" for x :: nat
      using that by (auto simp: div_if)
    moreover have "a mod 2 ^ 32 + ?b mod 2 ^ 32 < 2 * 2 ^ 32"
      using mod_less_divisor [of "2 ^ 32" a] mod_less_divisor [of "2 ^ 32" ?b] by simp
    ultimately show ?thesis by blast
  qed
  finally show "(if of_nat a + push_bit 3 inLen < (of_nat a :: u32) then of_nat (a div 2 ^ 32) + 1
          else of_nat (a div 2 ^ 32)) + drop_bit 29 inLen = (of_nat ((a + ?b) div 2 ^ 32) :: u32)"
    unfolding p word_add_carry d by (simp only: of_nat_add) simp
qed

subsection \<open>Update and Final\<close>

definition md5_ctx_rep :: "MD5_CTX \<Rightarrow> u8 list \<Rightarrow> bool" where
  "md5_ctx_rep ctx msg \<longleftrightarrow>
     md5_rep (ctx_buf ctx, ctx_in ctx, length msg mod 64) msg \<and>
     ctx_i0 ctx = of_nat (8 * length msg) \<and> ctx_i1 ctx = of_nat (8 * length msg div 2 ^ 32)"

lemma MD5Init_rep: "length (ctx_in ctx) = 64 \<Longrightarrow> md5_ctx_rep (MD5Init ctx) []"
  by (simp add: md5_ctx_rep_def md5_rep_def MD5Init_def md5_init_def md5_blocks_short)

lemma MD5Update_eq:
  assumes "ctx_i0 ctx = of_nat (8 * n)" "ctx_i1 ctx = of_nat (8 * n div 2 ^ 32)"
  shows "MD5Update ctx inBuf inLen =
     (case fold md5_byte (take (unat inLen) inBuf) (ctx_buf ctx, ctx_in ctx, n mod 64) of (buf, inb, mdi) \<Rightarrow>
       ctx\<lparr>ctx_i0 := of_nat (8 * (n + unat inLen)), ctx_i1 := of_nat (8 * (n + unat inLen) div 2 ^ 32),
           ctx_buf := buf, ctx_in := inb\<rparr>)"
  unfolding MD5Update_def Let_def assms mdi_eq add_mult_distrib2
    md5_count_step(2) [symmetric] md5_count_step(1) [symmetric] ..

lemma MD5Update_rep:
  assumes rep: "md5_ctx_rep ctx msg" and len: "unat inLen \<le> length inBuf"
  shows "md5_ctx_rep (MD5Update ctx inBuf inLen) (msg @ take (unat inLen) inBuf)"
proof -
  let ?t = "take (unat inLen) inBuf"
  have c: "ctx_i0 ctx = of_nat (8 * length msg)" "ctx_i1 ctx = of_nat (8 * length msg div 2 ^ 32)"
    and r: "md5_rep (ctx_buf ctx, ctx_in ctx, length msg mod 64) msg"
    using rep by (simp_all only: md5_ctx_rep_def)
  obtain buf inb mdi where f: "fold md5_byte ?t (ctx_buf ctx, ctx_in ctx, length msg mod 64) = (buf, inb, mdi)"
    by (metis prod_cases3)
  have R: "md5_rep (buf, inb, mdi) (msg @ ?t)" using md5_fold_rep [OF r, of ?t] f by simp
  have L: "length (msg @ ?t) = length msg + unat inLen" using len by simp
  have i: "(length msg + unat inLen) mod 64 = mdi" using md5_rep_index [OF R] by (simp only: L)
  show ?thesis unfolding md5_ctx_rep_def MD5Update_eq [OF c] f L i prod.case using R by simp
qed

lemma MD5Update_append:
  assumes "md5_ctx_rep ctx msg" "length a + length b < 2 ^ 32"
  shows "MD5Update (MD5Update ctx a (of_nat (length a))) b (of_nat (length b)) =
     MD5Update ctx (a @ b) (of_nat (length (a @ b)))"
proof -
  have u: "unat (of_nat (length a) :: u32) = length a" "unat (of_nat (length b) :: u32) = length b"
    "unat (of_nat (length a + length b) :: u32) = length a + length b"
    using assms(2) by (simp_all add: unat_of_nat del: of_nat_add)
  have c: "ctx_i0 ctx = of_nat (8 * length msg)" "ctx_i1 ctx = of_nat (8 * length msg div 2 ^ 32)"
    and r: "md5_rep (ctx_buf ctx, ctx_in ctx, length msg mod 64) msg"
    using assms(1) by (simp_all only: md5_ctx_rep_def)
  obtain buf inb mdi where f: "fold md5_byte a (ctx_buf ctx, ctx_in ctx, length msg mod 64) = (buf, inb, mdi)"
    by (metis prod_cases3)
  have i: "mdi = (length msg + length a) mod 64"
    using md5_rep_index [of buf inb mdi "msg @ a"] md5_fold_rep [OF r, of a] f by simp
  let ?c = "ctx\<lparr>ctx_i0 := of_nat (8 * (length msg + length a)),
      ctx_i1 := of_nat (8 * (length msg + length a) div 2 ^ 32), ctx_buf := buf, ctx_in := inb\<rparr>"
  have U: "MD5Update ctx a (of_nat (length a)) = ?c"
    unfolding MD5Update_eq [OF c] u take_all [OF order_refl] f prod.case ..
  have "MD5Update ?c b (of_nat (length b)) =
     (case fold md5_byte b (buf, inb, mdi) of (buf, inb, mdi) \<Rightarrow>
       ?c\<lparr>ctx_i0 := of_nat (8 * (length msg + length a + length b)),
          ctx_i1 := of_nat (8 * (length msg + length a + length b) div 2 ^ 32), ctx_buf := buf, ctx_in := inb\<rparr>)"
    by (subst MD5Update_eq [of _ "length msg + length a"]) (simp_all add: u i)
  also have "\<dots> = MD5Update ctx (a @ b) (of_nat (length (a @ b)))"
    unfolding MD5Update_eq [OF c] length_append u take_all [OF eq_refl [OF length_append]] fold_append comp_apply f
    by (simp add: add.assoc split: prod.splits)
  finally show ?thesis unfolding U .
qed

subsection \<open>The last block\<close>

lemma length_le_bytes [simp]: "length (md5_le_bytes w) = 4"
  by (simp add: md5_le_bytes_def)

lemma bytes_of_word:
  fixes w :: u32
  shows "push_bit 24 (ucast (ucast (drop_bit 24 w AND 0xFF) :: u8)) OR
     push_bit 16 (ucast (ucast (drop_bit 16 w AND 0xFF) :: u8)) OR
     push_bit 8 (ucast (ucast (drop_bit 8 w AND 0xFF) :: u8)) OR ucast (ucast (w AND 0xFF) :: u8) = w"
proof (rule bit_word_eqI)
  fix n assume "n < LENGTH(32)"
  then consider "n < 8" | "8 \<le> n" "n < 16" | "16 \<le> n" "n < 24" | "24 \<le> n" "n < 32" by fastforce
  then show "bit (push_bit 24 (ucast (ucast (drop_bit 24 w AND 0xFF) :: u8) :: u32) OR
     push_bit 16 (ucast (ucast (drop_bit 16 w AND 0xFF) :: u8)) OR
     push_bit 8 (ucast (ucast (drop_bit 8 w AND 0xFF) :: u8)) OR ucast (ucast (w AND 0xFF) :: u8)) n = bit w n"
    by cases (auto simp: bit_simps)
qed

lemma md5_word_le: "md5_word (p @ md5_le_bytes w @ q) (length p) = w"
proof -
  have n: "(p @ md5_le_bytes w @ q) ! (length p + i) = md5_le_bytes w ! i" if "i < 4" for i
    using that by (simp add: nth_append)
  have "md5_le_bytes w ! 3 = ucast (drop_bit 24 w AND 0xFF)" "md5_le_bytes w ! 2 = ucast (drop_bit 16 w AND 0xFF)"
    "md5_le_bytes w ! 1 = ucast (drop_bit 8 w AND 0xFF)" "md5_le_bytes w ! 0 = ucast (w AND 0xFF)"
    by (simp_all add: md5_le_bytes_def)
  then show ?thesis unfolding md5_word_def using n [of 3] n [of 2] n [of 1] n [of 0] bytes_of_word [of w]
    by (simp only:) simp
qed

lemma md5_word_prefix: "ii + 3 < length p \<Longrightarrow> md5_word (p @ q) ii = md5_word p ii"
  by (simp add: md5_word_def nth_append)

lemma md5_word_take: "ii + 3 < n \<Longrightarrow> md5_word (take n p) ii = md5_word p ii"
  by (simp add: md5_word_def)

lemma md5_words_last:
  assumes "length inb = 64"
  shows "map (\<lambda>i. md5_word (take 56 inb @ md5_le_bytes x @ md5_le_bytes y) (4 * i)) [0..<16] =
     map (\<lambda>i. md5_word inb (4 * i)) [0..<14] @ [x, y]"
proof -
  let ?b = "take 56 inb @ md5_le_bytes x @ md5_le_bytes y"
  have "[0..<16] = [0..<14] @ [14, 15 :: nat]" by (simp add: upt_conv_Cons)
  moreover have "md5_word ?b (4 * 14) = x" using md5_word_le [of "take 56 inb" x] assms by simp
  moreover have "md5_word ?b (4 * 15) = y"
    using md5_word_le [of "take 56 inb @ md5_le_bytes x" y "[]"] assms by simp
  moreover have "md5_word ?b (4 * i) = md5_word inb (4 * i)" if "i < 14" for i
    using that assms by (simp add: md5_word_prefix md5_word_take)
  ultimately show ?thesis by simp
qed

lemma length_compress [simp]: "length (md5_compress buf inp) = 4"
  by (simp add: md5_compress_def split: prod.splits)

lemma concat_le_bytes: "length buf = 4 \<Longrightarrow> concat (map (\<lambda>i. md5_le_bytes (buf ! i)) [0..<4]) = concat (map md5_le_bytes buf)"
proof -
  assume "length buf = 4"
  then have "map (\<lambda>i. md5_le_bytes (buf ! i)) [0..<4] = map md5_le_bytes buf"
    by (intro nth_equalityI) simp_all
  then show ?thesis by (simp only:)
qed

lemma MD5Final_rep:
  assumes "md5_ctx_rep ctx msg"
  shows "ctx_digest (MD5Final ctx) = md5_reference msg"
proof -
  let ?n = "length msg"
  define k where "k = (if ?n mod 64 < 56 then 56 - ?n mod 64 else 120 - ?n mod 64)"
  define mdi where "mdi = (drop_bit 3 (ctx_i0 ctx) AND 0x3F)"
  define padLen where "padLen = (if mdi < 56 then 56 - mdi else 120 - mdi)"
  have c: "ctx_i0 ctx = of_nat (8 * ?n)" "ctx_i1 ctx = of_nat (8 * ?n div 2 ^ 32)"
    using assms by (simp_all only: md5_ctx_rep_def)
  have m: "unat mdi = ?n mod 64" unfolding mdi_def c by (rule mdi_eq)
  have m64: "?n mod 64 < 64" by simp
  have k: "unat padLen = k"
    using m m64 by (auto simp: padLen_def k_def word_less_nat_alt unat_sub word_le_nat_alt)
  have k64: "k \<le> 64" by (auto simp: k_def)
  define ctx' where "ctx' = MD5Update ctx PADDING padLen"
  have rep: "md5_ctx_rep ctx' (msg @ md5_pad ?n)"
    using MD5Update_rep [OF assms, of padLen PADDING] k k64
    by (simp add: ctx'_def PADDING_def md5_pad_def k_def)
  have "length (msg @ md5_pad ?n) mod 64 = (?n + k) mod 64"
    using k64 by (simp add: md5_pad_def PADDING_def flip: k_def)
  also have "(?n + k) mod 64 = (?n mod 64 + k) mod 64" by (simp add: mod_add_left_eq)
  also have "\<dots> = 56" using m64 by (auto simp: k_def)
  finally obtain p where p: "length (ctx_in ctx') = 64" "msg @ md5_pad ?n = p @ take 56 (ctx_in ctx')"
    "64 dvd length p" "ctx_buf ctx' = md5_blocks md5_init p"
    using rep by (auto simp: md5_ctx_rep_def md5_rep_def)
  let ?last = "take 56 (ctx_in ctx') @ md5_le_bytes (ctx_i0 ctx) @ md5_le_bytes (ctx_i1 ctx)"
  let ?buf = "Transform (ctx_buf ctx') (map (\<lambda>i. md5_word (ctx_in ctx') (4 * i)) [0..<14] @ [ctx_i0 ctx, ctx_i1 ctx])"
  have "msg @ md5_pad ?n @ md5_length ?n = p @ ?last" using p(2) by (simp add: md5_length_def c append_assoc [symmetric] del: append_assoc)
  then have "md5_blocks md5_init (msg @ md5_pad ?n @ md5_length ?n) = md5_blocks (ctx_buf ctx') ?last"
    by (simp only: md5_blocks_append [OF p(3)] p(4))
  also have "\<dots> = ?buf"
    using p(1) by (subst md5_block_full) (simp_all only: md5_words_last [OF p(1)] Transform_eq_compress, simp)
  finally have "md5_reference msg = concat (map md5_le_bytes ?buf)" by (simp only: md5_reference_def)
  also have "\<dots> = concat (map (\<lambda>i. md5_le_bytes (?buf ! i)) [0..<4])"
    by (simp only: Transform_eq_compress length_compress concat_le_bytes)
  finally show ?thesis
    unfolding MD5Final_def Let_def mdi_def [symmetric] padLen_def [symmetric] ctx'_def [symmetric] by simp
qed

lemma length_md5_blocks: "length buf = 4 \<Longrightarrow> length (md5_blocks buf msg) = 4"
proof (induction buf msg rule: md5_blocks.induct)
  case (1 buf msg)
  then show ?case by (cases "length msg < 64") (simp_all add: md5_blocks.simps [of buf msg])
qed

lemma length_md5_reference [simp]: "length (md5_reference m) = 16"
proof -
  have "length (md5_blocks md5_init x) = 4" for x by (rule length_md5_blocks) (simp add: md5_init_def)
  moreover have "length (concat (map md5_le_bytes ws)) = 4 * length ws" for ws by (induction ws) simp_all
  ultimately show ?thesis by (simp add: md5_reference_def)
qed

section \<open>Properties\<close>

lemma MD5_chunks_rep:
  assumes "md5_ctx_rep ctx msg" "\<forall>c\<in>set chunks. length c < 2 ^ 32"
  shows "md5_ctx_rep (fold (\<lambda>c ctx. MD5Update ctx c (of_nat (length c))) chunks ctx) (msg @ concat chunks)"
  using assms
proof (induction chunks arbitrary: ctx msg)
  case (Cons c chunks)
  have "unat (of_nat (length c) :: u32) = length c" using Cons.prems(2) by (simp add: unat_of_nat)
  then have "md5_ctx_rep (MD5Update ctx c (of_nat (length c))) (msg @ c)"
    using MD5Update_rep [OF Cons.prems(1), of "of_nat (length c)" c] by simp
  from Cons.IH [OF this] Cons.prems(2) show ?case by simp
qed simp

lemma md5_empty_block:
  "md5_compress md5_init [0x80, 0, 0, 0, 0, 0, 0, 0, 0, 0, 0, 0, 0, 0, 0, 0] =
     [0xd98c1dd4, 0x4b2008f, 0x980980e9, 0x7e42f8ec]"
  by (simp add: md5_init_def upt_conv_Cons md5_compress_def md5_eval FF_def GG_def HH_def II_def
      md5_F_def md5_G_def md5_H_def md5_I_def ROTATE_LEFT_def)

lemma md5_reference_empty:
  "md5_reference [] = [0xd4, 0x1d, 0x8c, 0xd9, 0x8f, 0x00, 0xb2, 0x04,
                       0xe9, 0x80, 0x09, 0x98, 0xec, 0xf8, 0x42, 0x7e]"
proof -
  let ?b = "0x80 # replicate 63 0 :: u8 list"
  have "md5_pad 0 = 0x80 # replicate 55 0" by (simp add: md5_pad_def PADDING_def take_Cons')
  moreover have "md5_length 0 = replicate 8 0"
    by (simp add: md5_length_def md5_le_bytes_def) (simp add: numeral_eq_Suc)
  ultimately have p: "md5_pad 0 @ md5_length 0 = ?b"
    using replicate_add [of 55 8 "0 :: u8"] by simp
  have z: "?b ! k = 0" if "0 < k" "k < 64" for k using that by (simp add: nth_Cons')
  have w: "md5_word ?b (4 * i) = (if i = 0 then 0x80 else 0)" if "i < 16" for i
    using that z by (simp add: md5_word_def)
  have u: "[0..<16] = [0,1,2,3,4,5,6,7,8,9,10,11,12,13,14,15 :: nat]" by (simp add: upt_conv_Cons)
  have "map (\<lambda>i. md5_word ?b (4 * i)) [0..<16] = map (\<lambda>i. if i = 0 then 0x80 else 0) [0..<16]"
    using w by (intro map_cong) auto
  then have m: "map (\<lambda>i. md5_word ?b (4 * i)) [0..<16] = [0x80, 0, 0, 0, 0, 0, 0, 0, 0, 0, 0, 0, 0, 0, 0, 0]"
    unfolding u by simp
  have r: "md5_blocks md5_init ([] @ md5_pad (length []) @ md5_length (length [])) = [0xd98c1dd4, 0x4b2008f, 0x980980e9, 0x7e42f8ec]"
    unfolding list.size append_Nil p by (subst md5_block_full) (simp, simp only: m md5_empty_block)
  show ?thesis unfolding md5_reference_def r by (simp add: md5_le_bytes_def)
qed

text \<open>The 64 statements of \<open>Transform\<close> compute the compression function of the MD5
  definition: the same index schedule, rotations, constants and round functions, with
  rotations as true 32 bit rotations, added to the chaining value.\<close>

theorem transform_is_md5_compress: "Transform buf inp = md5_compress buf inp"
  by (rule Transform_eq_compress)

text \<open>C20: whatever the pieces a message is fed to \<open>MD5Update\<close> in, \<open>MD5Final\<close> leaves in the
  context the digest that the MD5 definition gives for the whole message: all blocks, the
  padding to 56 modulo 64 and the bit count, also where that count passes 32 bits.\<close>

theorem md5_digest_correct:
  assumes "length (ctx_in ctx) = 64" "\<forall>c\<in>set chunks. length c < 2 ^ 32"
  shows "ctx_digest (MD5Final (fold (\<lambda>c ctx. MD5Update ctx c (of_nat (length c))) chunks (MD5Init ctx))) =
     md5_reference (concat chunks)"
  using MD5Final_rep MD5_chunks_rep [OF MD5Init_rep [OF assms(1)] assms(2)] by simp

theorem md5_digest_correct_witness:
  "ctx_digest (MD5Final (fold (\<lambda>c ctx. MD5Update ctx c (of_nat (length c))) [[], []]
     (MD5Init \<lparr>ctx_i0 = 7, ctx_i1 = 7, ctx_buf = [], ctx_in = replicate 64 1, ctx_digest = []\<rparr>))) =
   [0xd4, 0x1d, 0x8c, 0xd9, 0x8f, 0x00, 0xb2, 0x04, 0xe9, 0x80, 0x09, 0x98, 0xec, 0xf8, 0x42, 0x7e]"
  using md5_digest_correct [of "\<lparr>ctx_i0 = 7, ctx_i1 = 7, ctx_buf = [], ctx_in = replicate 64 1, ctx_digest = []\<rparr>" "[[], []]"]
  by (simp add: md5_reference_empty)

text \<open>C33: feeding two pieces to \<open>MD5Update\<close> one after the other leaves exactly the context that
  feeding their concatenation at once does, bit counter and partial block included.\<close>

theorem md5_update_streaming:
  assumes "md5_ctx_rep ctx msg" "length a + length b < 2 ^ 32"
  shows "MD5Update (MD5Update ctx a (of_nat (length a))) b (of_nat (length b)) =
     MD5Update ctx (a @ b) (of_nat (length (a @ b)))"
  using assms by (rule MD5Update_append)

theorem md5_update_streaming_witness:
  "MD5Update (MD5Update (MD5Init \<lparr>ctx_i0 = 0, ctx_i1 = 0, ctx_buf = [], ctx_in = replicate 64 0, ctx_digest = []\<rparr>)
     [1, 2] 2) [3] 1 =
   MD5Update (MD5Init \<lparr>ctx_i0 = 0, ctx_i1 = 0, ctx_buf = [], ctx_in = replicate 64 0, ctx_digest = []\<rparr>) [1, 2, 3] 3"
  using md5_update_streaming [OF MD5Init_rep, of "\<lparr>ctx_i0 = 0, ctx_i1 = 0, ctx_buf = [], ctx_in = replicate 64 0, ctx_digest = []\<rparr>" "[1, 2]" "[3]"]
  by simp

end
