(* ===== verification/License.thy ===== *)
theory License
  imports Radix Md5
begin

text \<open>
  License keys and license usage counters: \<^verbatim>\<open>libudb/license.c\<close>, the key generator
  \<open>New_Key\<close> of \<^verbatim>\<open>unameitkey/main.c\<close> and \<open>Udb_String_To_Int32\<close> of \<^verbatim>\<open>libudb/convert.c\<close>.

  The environment of the checks (Tcl variables of the license file, MAC address, conversion
  and query functions of the database, clock) is a record of arguments.  A procedure that
  may call \<open>exit\<close> returns \<open>Exits\<close> with what it wrote to standard error.  The MD5 context is a
  local variable in C; its bytes are indeterminate before \<open>MD5Init\<close> and are zero here.
  Times are seconds that fit the 32 bit \<open>long\<close> of the supported platforms.
\<close>

unbundle bit_operations_syntax

section \<open>Model\<close>

datatype 'a proc = Returns 'a | Exits cstr

datatype lparam_t = Host_Units | Person_Units | License_Start | License_End

record license_state =
  license_start :: int
  license_end :: int
  license_host_units :: int
  license_person_units :: int
  current_item_units :: int
  current_host_units :: int
  current_person_units :: int
  delta_item_units :: int
  delta_host_units :: int
  delta_person_units :: int

record lic_env =
  unameitPriv :: "string \<Rightarrow> cstr option"
  db_put_int :: "cstr \<Rightarrow> int option"
  mac_address :: "u8 list option"
  now_time :: int
  has_named_item :: bool
  run_count :: "string \<Rightarrow> int option"

definition expired_phrase :: string where
  "expired_phrase = ''UName*It license expired''"

definition expired_msg :: "u8 list" where
  "expired_msg = cstr expired_phrase @ [0, 0] @ cstr ''0123456789abcdef'' @ [0]"

definition item_query :: string where
  "item_query = ''select count(x) from all named_item x where x.'' @ [CHR 0x22] @ ''deleted'' @ [CHR 0x22] @ '' IS NULL''"

definition host_query :: string where
  "host_query = ''select count(x) from all host x where x.'' @ [CHR 0x22] @ ''deleted'' @ [CHR 0x22] @ '' IS NULL''"

definition person_query :: string where
  "person_query = ''select count(x) from all person x where x.'' @ [CHR 0x22] @ ''deleted'' @ [CHR 0x22] @ '' IS NULL''"

text \<open>\<open>fputs\<close> writes the message up to its first NUL, then a newline follows.\<close>

definition Expired :: "'a proc" where
  "Expired = Exits (cstr expired_phrase @ [10])"

definition fresh_ctx :: MD5_CTX where
  "fresh_ctx = \<lparr>ctx_i0 = 0, ctx_i1 = 0, ctx_buf = [], ctx_in = replicate 64 0, ctx_digest = replicate 16 0\<rparr>"

abbreviation md5_add :: "u8 list \<Rightarrow> MD5_CTX \<Rightarrow> MD5_CTX" where
  "md5_add bytes ctx \<equiv> MD5Update ctx bytes (of_nat (length bytes))"

definition Udb_String_To_Int32 :: "(cstr \<Rightarrow> int option) \<Rightarrow> cstr \<Rightarrow> int option" where
  "Udb_String_To_Int32 db_value_put input = (if input = [] then None else db_value_put input)"

definition Decode_And_Cksum_Param ::
  "lic_env \<Rightarrow> string \<Rightarrow> bool \<Rightarrow> MD5_CTX \<Rightarrow> (MD5_CTX \<times> int) proc" where
  "Decode_And_Cksum_Param env param want ctx =
     (case unameitPriv env param of
        None \<Rightarrow> Expired
      | Some val \<Rightarrow>
          (if want
           then case Udb_String_To_Int32 (db_put_int env) val of
                  None \<Rightarrow> Expired
                | Some v \<Rightarrow> Returns (md5_add (val @ [0]) ctx, v)
           else Returns (md5_add (val @ [0]) ctx, 0)))"

definition fmt_02x :: "u8 \<Rightarrow> cstr" where
  "fmt_02x b = [radix16 ! unat (drop_bit 4 b), radix16 ! unat (b AND 0xf)]"

definition ntoh32 :: "u8 list \<Rightarrow> nat \<Rightarrow> u32" where
  "ntoh32 buf i =
     (push_bit 24 (ucast (buf ! (4 * i))) OR push_bit 16 (ucast (buf ! (4 * i + 1))) OR
      push_bit 8 (ucast (buf ! (4 * i + 2))) OR ucast (buf ! (4 * i + 3)))"

definition hton32 :: "u32 \<Rightarrow> u8 list" where
  "hton32 w = [ucast (drop_bit 24 w), ucast (drop_bit 16 w), ucast (drop_bit 8 w), ucast w]"

definition xor_digest :: "u8 list \<Rightarrow> u8 list \<Rightarrow> u8 list" where
  "xor_digest buf digest = fold (\<lambda>i buf. buf[i := buf ! i XOR digest ! i]) [0..<16] buf"

fun lparam_index :: "lparam_t \<Rightarrow> nat" where
  "lparam_index Host_Units = 0"
| "lparam_index Person_Units = 1"
| "lparam_index License_Start = 2"
| "lparam_index License_End = 3"

definition Udb_License_Param :: "lic_env \<Rightarrow> lparam_t \<Rightarrow> license_state \<Rightarrow> (int \<times> license_state) proc" where
  "Udb_License_Param env what st =
     (let ctx = md5_add (cstr person_query @ [0]) (md5_add (cstr host_query @ [0])
                  (md5_add (cstr item_query @ [0]) (md5_add expired_msg (MD5Init fresh_ctx))))
      in case mac_address env of
        None \<Rightarrow> Exits (cstr ''Can't read MAC address'' @ [10])
      | Some mac \<Rightarrow>
          (let ctx = md5_add (concat (map (\<lambda>i. fmt_02x (mac ! i)) [0..<6]) @ [0]) ctx
           in case Decode_And_Cksum_Param env ''license_type'' False ctx of
             Exits m \<Rightarrow> Exits m
           | Returns (ctx, _) \<Rightarrow>
          (case Decode_And_Cksum_Param env ''license_host_units'' True ctx of
             Exits m \<Rightarrow> Exits m
           | Returns (ctx, h) \<Rightarrow>
          (case Decode_And_Cksum_Param env ''license_person_units'' True ctx of
             Exits m \<Rightarrow> Exits m
           | Returns (ctx, p) \<Rightarrow>
          (case Decode_And_Cksum_Param env ''license_start'' True ctx of
             Exits m \<Rightarrow> Exits m
           | Returns (ctx, s) \<Rightarrow>
          (case Decode_And_Cksum_Param env ''license_end'' True ctx of
             Exits m \<Rightarrow> Exits m
           | Returns (ctx, e) \<Rightarrow>
          (let ctx = MD5Final ctx;
               st = st\<lparr>license_host_units := h, license_person_units := p,
                       license_start := s, license_end := e\<rparr>
           in case unameitPriv env ''license_key'' of
                None \<Rightarrow> Expired
              | Some lkey \<Rightarrow>
                  (case Udb_Radix16_Decode lkey 16 (replicate 16 0) of (r, buf) \<Rightarrow>
                     if r \<noteq> 0 then Expired
                     else Returns (sint (ntoh32 (xor_digest buf (ctx_digest ctx)) (lparam_index what)), st)))))))))"

definition Udb_License_Info :: "cstr list \<Rightarrow> license_state \<Rightarrow> (int \<times> int) tcl_result" where
  "Udb_License_Info argv st =
     (if length argv \<noteq> 1 then Udb_Error ''EUSAGE'' [hd argv]
      else Tcl_Ok (current_host_units st, current_person_units st))"

definition Get_Count :: "lic_env \<Rightarrow> string \<Rightarrow> int" where
  "Get_Count env query = (case run_count env query of None \<Rightarrow> 0 | Some n \<Rightarrow> n)"

text \<open>The locals \<open>license_start\<close> and \<open>license_end\<close> of \<open>Udb_Init_License\<close> (unsigned) hide the
  statics of the same names, so both comparisons of line 245 compare a local with itself.\<close>

definition Udb_Init_License :: "lic_env \<Rightarrow> license_state \<Rightarrow> license_state proc" where
  "Udb_Init_License env st =
     (case Udb_License_Param env License_Start st of
        Exits m \<Rightarrow> Exits m
      | Returns (s, st) \<Rightarrow>
     (case Udb_License_Param env License_End st of
        Exits m \<Rightarrow> Exits m
      | Returns (e, st) \<Rightarrow>
     (let l_start = (word_of_int s :: u32); l_end = (word_of_int e :: u32); now = now_time env
      in if l_start \<noteq> l_start \<or> l_end \<noteq> l_end then Expired
         else if (l_end \<noteq> - 1 \<and> now > uint l_end) \<or> (l_start \<noteq> - 1 \<and> now < uint l_start) then Expired
         else
     (case Udb_License_Param env Host_Units st of
        Exits m \<Rightarrow> Exits m
      | Returns (h, st) \<Rightarrow>
          if license_host_units st \<noteq> h then Expired
          else
     (case Udb_License_Param env Person_Units st of
        Exits m \<Rightarrow> Exits m
      | Returns (p, st) \<Rightarrow>
          if license_person_units st \<noteq> p then Expired
          else if \<not> has_named_item env then Exits (cstr ''Database not initialized'' @ [10])
          else
            let n = Get_Count env item_query;
                st = st\<lparr>current_host_units := n, current_person_units := n, current_item_units := n\<rparr>;
                st = (if n > 0 then st\<lparr>current_host_units := Get_Count env host_query,
                                       current_person_units := Get_Count env person_query\<rparr>
                      else st)
            in Returns (st\<lparr>delta_host_units := 0, delta_person_units := 0, delta_item_units := 0\<rparr>))))))"

record 'c class_tests =
  Udb_Is_Data_Class :: "'c \<Rightarrow> bool"
  Udb_Is_Host_Class :: "'c \<Rightarrow> bool"
  Udb_Is_Person_Class :: "'c \<Rightarrow> bool"

definition Udb_Adjust_License_Count :: "'c class_tests \<Rightarrow> 'c \<Rightarrow> int \<Rightarrow> license_state \<Rightarrow> license_state" where
  "Udb_Adjust_License_Count T cls count st =
     (if \<not> Udb_Is_Data_Class T cls then st
      else
        let st = st\<lparr>delta_item_units := int32 (delta_item_units st + count)\<rparr>
        in if Udb_Is_Host_Class T cls then st\<lparr>delta_host_units := int32 (delta_host_units st + count)\<rparr>
           else if Udb_Is_Person_Class T cls then st\<lparr>delta_person_units := int32 (delta_person_units st + count)\<rparr>
           else st)"

definition Udb_Rollback_License_Limits :: "license_state \<Rightarrow> license_state" where
  "Udb_Rollback_License_Limits st = st\<lparr>delta_item_units := 0, delta_host_units := 0, delta_person_units := 0\<rparr>"

definition Udb_Update_License_Limits :: "license_state \<Rightarrow> license_state" where
  "Udb_Update_License_Limits st =
     st\<lparr>current_item_units := int32 (current_item_units st + delta_item_units st),
        current_host_units := int32 (current_host_units st + delta_host_units st),
        current_person_units := int32 (current_person_units st + delta_person_units st),
        delta_item_units := 0, delta_host_units := 0, delta_person_units := 0\<rparr>"

definition Udb_Over_License_Count :: "license_state \<Rightarrow> bool" where
  "Udb_Over_License_Count st \<longleftrightarrow>
     int32 (current_host_units st + delta_host_units st) > license_host_units st \<or>
     int32 (current_person_units st + delta_person_units st) > license_person_units st \<or>
     int32 (current_item_units st + delta_item_units st) >
       int32 (10 * int32 (license_host_units st + license_person_units st))"

subsection \<open>The key generator\<close>

fun skip_space :: "cstr \<Rightarrow> cstr" where
  "skip_space [] = []"
| "skip_space (c # s) = (if c = 32 \<or> 9 \<le> c \<and> c \<le> 13 then skip_space s else c # s)"

fun dec_digits :: "cstr \<Rightarrow> int \<Rightarrow> int" where
  "dec_digits [] v = v"
| "dec_digits (c # s) v = (if 48 \<le> c \<and> c \<le> 57 then dec_digits s (10 * v + (uint c - 48)) else v)"

definition strtol10 :: "cstr \<Rightarrow> int" where
  "strtol10 str =
     (let s = skip_space str;
          v = (if c_at s 0 = 45 then - dec_digits (tl s) 0
               else if c_at s 0 = 43 then dec_digits (tl s) 0 else dec_digits s 0)
      in if v > INT32_MAX then INT32_MAX else if v < INT32_MIN then INT32_MIN else v)"

definition key_padding :: "u8 list" where
  "key_padding = [0] @ cstr ''0123456789abcdef'' @ [0]"

definition dashed :: "cstr \<Rightarrow> cstr" where
  "dashed key = concat (map (\<lambda>i. (if i \<noteq> 0 \<and> i mod 4 = 0 then [ch CHR ''-''] else []) @ [key ! i]) [0..<32])"

definition New_Key :: "cstr option \<Rightarrow> (cstr \<Rightarrow> int option) \<Rightarrow> cstr list \<Rightarrow> cstr tcl_result" where
  "New_Key read_password Tcl_GetInt argv =
     (if length argv \<noteq> 7 then Tcl_Error [] []
      else case read_password of
        None \<Rightarrow> Tcl_Error [] (cstr ''Password mismatch'')
      | Some phrase \<Rightarrow>
          (let type = argv ! 1; host_units_str = argv ! 2; person_units_str = argv ! 3;
               start_time_str = argv ! 4; end_time_str = argv ! 5; macaddress = argv ! 6
           in case Tcl_GetInt host_units_str of
                None \<Rightarrow> Tcl_Error [] []
              | Some host_units \<Rightarrow>
             (case Tcl_GetInt person_units_str of
                None \<Rightarrow> Tcl_Error [] []
              | Some person_units \<Rightarrow>
                (let ctx = fold md5_add
                       [phrase @ [0], key_padding, cstr item_query @ [0], cstr host_query @ [0],
                        cstr person_query @ [0], macaddress @ [0], type @ [0], host_units_str @ [0],
                        person_units_str @ [0], start_time_str @ [0], end_time_str @ [0]]
                       (MD5Init fresh_ctx);
                     ctx = MD5Final ctx;
                     buf = hton32 (word_of_int host_units) @ hton32 (word_of_int person_units) @
                           hton32 (word_of_int (strtol10 start_time_str)) @
                           hton32 (word_of_int (strtol10 end_time_str));
                     buf = xor_digest buf (ctx_digest ctx)
                 in Tcl_Ok (dashed (Udb_Radix16_Encode buf 16))))))"


section \<open>Byte level lemmas\<close>

lemma length_hton32 [simp]: "length (hton32 w) = 4"
  by (simp add: hton32_def)

lemma ntoh_hton: "ntoh32 (p @ hton32 w @ q) i = w" if "length p = 4 * i"
proof -
  have n: "(p @ hton32 w @ q) ! (4 * i + k) = hton32 w ! k" if "k < 4" for k
    using that \<open>length p = 4 * i\<close> by (simp add: nth_append)
  have h: "hton32 w ! 0 = ucast (drop_bit 24 w)" "hton32 w ! 1 = ucast (drop_bit 16 w)"
    "hton32 w ! 2 = ucast (drop_bit 8 w)" "hton32 w ! 3 = ucast w"
    by (simp_all add: hton32_def)
  have "push_bit 24 (ucast (ucast (drop_bit 24 w) :: u8)) OR push_bit 16 (ucast (ucast (drop_bit 16 w) :: u8)) OR
     push_bit 8 (ucast (ucast (drop_bit 8 w) :: u8)) OR ucast (ucast w :: u8) = w"
  proof (rule bit_word_eqI)
    fix n assume "n < LENGTH(32)"
    then consider "n < 8" | "8 \<le> n" "n < 16" | "16 \<le> n" "n < 24" | "24 \<le> n" "n < 32" by fastforce
    then show "bit (push_bit 24 (ucast (ucast (drop_bit 24 w) :: u8) :: u32) OR push_bit 16 (ucast (ucast (drop_bit 16 w) :: u8)) OR
     push_bit 8 (ucast (ucast (drop_bit 8 w) :: u8)) OR ucast (ucast w :: u8)) n = bit w n"
      by cases (auto simp: bit_simps)
  qed
  then show ?thesis unfolding ntoh32_def using n [of 0] n [of 1] n [of 2] n [of 3] h by simp
qed

lemma xor_digest_eq:
  assumes "length buf = 16"
  shows "xor_digest buf d = map (\<lambda>i. buf ! i XOR d ! i) [0..<16]"
proof -
  have "fold (\<lambda>i buf. buf[i := buf ! i XOR d ! i]) [0..<m] buf =
     map (\<lambda>i. buf ! i XOR d ! i) [0..<m] @ drop m buf" if "m \<le> 16" for m
    using that
  proof (induction m)
    case (Suc m)
    then obtain x xs where x: "drop m buf = x # xs" "x = buf ! m" "drop (Suc m) buf = xs"
      using assms by (metis Cons_nth_drop_Suc Suc_le_lessD)
    then show ?case using Suc assms by (simp add: nth_append list_update_append)
  qed simp
  from this [of 16] show ?thesis using assms by (simp add: xor_digest_def)
qed

lemma length_xor_digest: "length buf = 16 \<Longrightarrow> length (xor_digest buf d) = 16"
  by (simp add: xor_digest_eq)

lemma xor_digest_inv: "length buf = 16 \<Longrightarrow> xor_digest (xor_digest buf d) d = buf"
  by (subst xor_digest_eq) (auto simp: xor_digest_eq xor.assoc intro!: nth_equalityI)

lemma filter_dashed:
  assumes "length key = 32" "ch CHR ''-'' \<notin> set key"
  shows "filter (\<lambda>c. c \<noteq> ch CHR ''-'') (dashed key) = key"
proof -
  have "filter (\<lambda>c. c \<noteq> ch CHR ''-'') (concat (map (\<lambda>i. (if i \<noteq> 0 \<and> i mod 4 = 0 then [ch CHR ''-''] else []) @ [key ! i]) is)) =
     map ((!) key) is" if "\<forall>i\<in>set is. i < 32" for "is"
    using that assms
  proof (induction "is")
    case (Cons i "is")
    have "key ! i \<noteq> ch CHR ''-''" using Cons.prems by (metis list.set_intros(1) nth_mem)
    then show ?case using Cons by simp
  qed simp
  from this [of "[0..<32]"] show ?thesis using assms map_nth [of key] by (simp add: dashed_def)
qed

lemma no_dash_radix16: "ch CHR ''-'' \<notin> set radix16"
  by (simp add: radix16_def cstr_def)

lemma fmt_02x_hex_text: "length mac = n \<Longrightarrow> concat (map (\<lambda>i. fmt_02x (mac ! i)) [0..<n]) = hex_text n mac"
proof -
  have "drop_bit 4 b AND 0xf = drop_bit 4 b" for b :: u8
    by (intro bit_eqI) (auto simp: bit_simps dest: bit_imp_le_length)
  then show ?thesis by (simp add: hex_text_def Udb_Radix16_Encode_def fmt_02x_def)
qed

section \<open>The key check against the key generator\<close>

definition license_message :: "cstr \<Rightarrow> cstr \<Rightarrow> cstr \<Rightarrow> cstr \<Rightarrow> cstr \<Rightarrow> cstr \<Rightarrow> u8 list" where
  "license_message macs type hs ps ss es =
     expired_msg @ cstr item_query @ [0] @ cstr host_query @ [0] @ cstr person_query @ [0] @
     macs @ [0] @ type @ [0] @ hs @ [0] @ ps @ [0] @ ss @ [0] @ es @ [0]"

text \<open>The license file as the daemon has read it: the five parameters, the strings' integer
  values, the key without its dashes and the MAC address of the machine.\<close>

definition license_file ::
  "lic_env \<Rightarrow> u8 list \<Rightarrow> cstr \<Rightarrow> cstr \<times> int \<Rightarrow> cstr \<times> int \<Rightarrow> cstr \<times> int \<Rightarrow> cstr \<times> int \<Rightarrow> cstr \<Rightarrow> bool" where
  "license_file env mac type = (\<lambda>(hs, h) (ps, p) (ss, s) (es, e) key.
     mac_address env = Some mac \<and> length mac = 6 \<and>
     unameitPriv env ''license_type'' = Some type \<and> length type < 2 ^ 31 \<and>
     unameitPriv env ''license_host_units'' = Some hs \<and> Udb_String_To_Int32 (db_put_int env) hs = Some h \<and> length hs < 2 ^ 31 \<and>
     unameitPriv env ''license_person_units'' = Some ps \<and> Udb_String_To_Int32 (db_put_int env) ps = Some p \<and> length ps < 2 ^ 31 \<and>
     unameitPriv env ''license_start'' = Some ss \<and> Udb_String_To_Int32 (db_put_int env) ss = Some s \<and> length ss < 2 ^ 31 \<and>
     unameitPriv env ''license_end'' = Some es \<and> Udb_String_To_Int32 (db_put_int env) es = Some e \<and> length es < 2 ^ 31 \<and>
     unameitPriv env ''license_key'' = Some key)"

lemma fold_md5_digest:
  assumes "\<forall>c\<in>set chunks. length c < 2 ^ 32"
  shows "ctx_digest (MD5Final (fold md5_add chunks (MD5Init fresh_ctx))) = md5_reference (concat chunks)"
  using MD5Final_rep MD5_chunks_rep [OF MD5Init_rep assms, of fresh_ctx] by (simp add: fresh_ctx_def)

lemma License_Param_eq:
  assumes "license_file env mac type (hs, h) (ps, p) (ss, s) (es, e) key"
  shows "Udb_License_Param env what st =
     (case Udb_Radix16_Decode key 16 (replicate 16 0) of (r, buf) \<Rightarrow>
        if r \<noteq> 0 then Expired
        else Returns (sint (ntoh32 (xor_digest buf (md5_reference (license_message (hex_text 6 mac) type hs ps ss es)))
                       (lparam_index what)),
               st\<lparr>license_host_units := h, license_person_units := p, license_start := s, license_end := e\<rparr>))"
proof -
  note f = assms [unfolded license_file_def prod.case]
  have q: "length expired_msg < 2 ^ 32" "length (cstr item_query @ [0]) < 2 ^ 32"
    "length (cstr host_query @ [0]) < 2 ^ 32" "length (cstr person_query @ [0]) < 2 ^ 32"
    by (simp_all add: expired_msg_def expired_phrase_def item_query_def host_query_def person_query_def)
  let ?chunks = "[expired_msg, cstr item_query @ [0], cstr host_query @ [0], cstr person_query @ [0],
     hex_text 6 mac @ [0], type @ [0], hs @ [0], ps @ [0], ss @ [0], es @ [0]]"
  have "\<forall>c\<in>set ?chunks. length c < 2 ^ 32" using q f by (simp add: hex_text_def)
  from fold_md5_digest [OF this]
  have d: "ctx_digest (MD5Final (fold md5_add ?chunks (MD5Init fresh_ctx))) =
     md5_reference (license_message (hex_text 6 mac) type hs ps ss es)"
    by (simp add: license_message_def)
  show ?thesis
    using f d by (simp add: Udb_License_Param_def Decode_And_Cksum_Param_def fmt_02x_hex_text Let_def split: prod.splits)
qed

definition key_text :: "u8 list \<Rightarrow> int \<Rightarrow> int \<Rightarrow> int \<Rightarrow> int \<Rightarrow> cstr" where
  "key_text digest h p s e = hex_text 16 (xor_digest
     (hton32 (word_of_int h) @ hton32 (word_of_int p) @ hton32 (word_of_int s) @ hton32 (word_of_int e)) digest)"

fun lparam_of :: "lparam_t \<Rightarrow> int \<Rightarrow> int \<Rightarrow> int \<Rightarrow> int \<Rightarrow> int" where
  "lparam_of Host_Units h p s e = h"
| "lparam_of Person_Units h p s e = p"
| "lparam_of License_Start h p s e = s"
| "lparam_of License_End h p s e = e"

lemma New_Key_eq:
  assumes "get_int hs = Some h" "get_int ps = Some p"
    "length phrase < 2 ^ 31" "length type < 2 ^ 31" "length hs < 2 ^ 31" "length ps < 2 ^ 31"
    "length ss < 2 ^ 31" "length es < 2 ^ 31" "length macs < 2 ^ 31"
  shows "New_Key (Some phrase) get_int [cmd, type, hs, ps, ss, es, macs] =
     Tcl_Ok (dashed (key_text (md5_reference (phrase @ [0] @ key_padding @ cstr item_query @ [0] @
        cstr host_query @ [0] @ cstr person_query @ [0] @ macs @ [0] @ type @ [0] @ hs @ [0] @
        ps @ [0] @ ss @ [0] @ es @ [0])) h p (strtol10 ss) (strtol10 es)))"
proof -
  let ?chunks = "[phrase @ [0], key_padding, cstr item_query @ [0], cstr host_query @ [0],
     cstr person_query @ [0], macs @ [0], type @ [0], hs @ [0], ps @ [0], ss @ [0], es @ [0]]"
  have "\<forall>c\<in>set ?chunks. length c < 2 ^ 32"
    using assms by (simp add: key_padding_def item_query_def host_query_def person_query_def)
  from fold_md5_digest [OF this] show ?thesis
    using assms(1,2) by (simp add: New_Key_def Let_def key_text_def hex_text_def)
qed

lemma decode_key_text:
  "length d = 16 \<Longrightarrow> Udb_Radix16_Decode (key_text d h p s e) 16 (replicate 16 0) =
     (0, xor_digest (hton32 (word_of_int h) @ hton32 (word_of_int p) @ hton32 (word_of_int s) @ hton32 (word_of_int e)) d)"
  unfolding key_text_def hex_text_def by (intro Radix16_decode_encode) (simp_all add: length_xor_digest)

lemma sint_word_of_int32: "is_int32 x \<Longrightarrow> sint (word_of_int x :: u32) = x"
  by (simp add: is_int32_def sint_word_ariths(1) signed_take_bit_int_eq_self sint_sbintrunc')

lemma lparam_word:
  assumes "is_int32 h" "is_int32 p" "is_int32 s" "is_int32 e"
  shows "sint (ntoh32 (hton32 (word_of_int h) @ hton32 (word_of_int p) @ hton32 (word_of_int s) @ hton32 (word_of_int e))
     (lparam_index what)) = lparam_of what h p s e"
proof (cases what)
  case Host_Units
  then show ?thesis using assms ntoh_hton [of "[]" 0 "word_of_int h"] by (simp add: sint_word_of_int32)
next
  case Person_Units
  then show ?thesis using assms ntoh_hton [of "hton32 (word_of_int h)" 1 "word_of_int p"] by (simp add: sint_word_of_int32)
next
  case License_Start
  then show ?thesis using assms ntoh_hton [of "hton32 (word_of_int h) @ hton32 (word_of_int p)" 2 "word_of_int s"]
    by (simp add: sint_word_of_int32)
next
  case License_End
  then show ?thesis
    using assms ntoh_hton [of "hton32 (word_of_int h) @ hton32 (word_of_int p) @ hton32 (word_of_int s)" 3 "word_of_int e" "[]"]
    by (simp add: sint_word_of_int32)
qed

text \<open>A key made for the digest of the file's own parameters yields the four numbers it was made
  with.\<close>

lemma License_Param_key:
  assumes "license_file env mac type (hs, h) (ps, p) (ss, s) (es, e)
      (key_text (md5_reference (license_message (hex_text 6 mac) type hs ps ss es)) h' p' s' e')"
    and "is_int32 h'" "is_int32 p'" "is_int32 s'" "is_int32 e'"
  shows "Udb_License_Param env what st = Returns (lparam_of what h' p' s' e',
     st\<lparr>license_host_units := h, license_person_units := p, license_start := s, license_end := e\<rparr>)"
  unfolding License_Param_eq [OF assms(1)]
  by (simp add: decode_key_text xor_digest_inv lparam_word [OF assms(2-5)])

lemma expired_phrase_message: "cstr expired_phrase @ [0] @ key_padding = expired_msg"
  by (simp add: expired_msg_def key_padding_def)

lemma key_text_no_dash: "length (key_text d h p s e) = 32 \<and> ch CHR ''-'' \<notin> set (key_text d h p s e)"
  using set_hex_text no_dash_radix16 by (auto simp: key_text_def hex_text_def)

lemma is_int32_strtol10: "is_int32 (strtol10 s)"
  by (simp add: strtol10_def Let_def is_int32_def)

lemma Init_License_eq:
  assumes "\<And>what st. Udb_License_Param env what st = Returns (lparam_of what h' p' s' e',
     st\<lparr>license_host_units := h, license_person_units := p, license_start := s, license_end := e\<rparr>)"
    and "has_named_item env"
  shows "Udb_Init_License env st =
     (if h = h' \<and> p = p' \<and>
         (word_of_int e' = (- 1 :: u32) \<or> now_time env \<le> uint (word_of_int e' :: u32)) \<and>
         (word_of_int s' = (- 1 :: u32) \<or> uint (word_of_int s' :: u32) \<le> now_time env)
      then let n = Get_Count env item_query in
        Returns (st\<lparr>license_host_units := h, license_person_units := p, license_start := s, license_end := e,
          current_item_units := n,
          current_host_units := (if n > 0 then Get_Count env host_query else n),
          current_person_units := (if n > 0 then Get_Count env person_query else n),
          delta_item_units := 0, delta_host_units := 0, delta_person_units := 0\<rparr>)
      else Expired)"
  unfolding Udb_Init_License_def assms(1) proc.case prod.case
  using assms(2) by (auto simp: Let_def not_le not_less)

section \<open>Usage counters\<close>

text \<open>The calls the transaction code makes, and what they mean: adjustments collect in a pending
  list that a commit appends to the committed ones and a rollback drops.\<close>

datatype 'c lic_call = Adjust 'c int | Commit | Rollback

fun lic_step :: "'c class_tests \<Rightarrow> 'c lic_call \<Rightarrow> license_state \<Rightarrow> license_state" where
  "lic_step T (Adjust c n) st = Udb_Adjust_License_Count T c n st"
| "lic_step T Commit st = Udb_Update_License_Limits st"
| "lic_step T Rollback st = Udb_Rollback_License_Limits st"

fun lic_log :: "'c lic_call \<Rightarrow> ('c \<times> int) list \<times> ('c \<times> int) list \<Rightarrow> ('c \<times> int) list \<times> ('c \<times> int) list" where
  "lic_log (Adjust c n) (done_l, pend) = (done_l, pend @ [(c, n)])"
| "lic_log Commit (done_l, pend) = (done_l @ pend, [])"
| "lic_log Rollback (done_l, pend) = (done_l, [])"

definition lic_sum :: "('c \<Rightarrow> bool) \<Rightarrow> ('c \<times> int) list \<Rightarrow> int" where
  "lic_sum P l = sum_list (map snd (filter (\<lambda>x. P (fst x)) l))"

definition items_of :: "'c class_tests \<Rightarrow> 'c \<Rightarrow> bool" where
  "items_of T c \<longleftrightarrow> Udb_Is_Data_Class T c"
definition hosts_of :: "'c class_tests \<Rightarrow> 'c \<Rightarrow> bool" where
  "hosts_of T c \<longleftrightarrow> Udb_Is_Data_Class T c \<and> Udb_Is_Host_Class T c"
definition persons_of :: "'c class_tests \<Rightarrow> 'c \<Rightarrow> bool" where
  "persons_of T c \<longleftrightarrow> Udb_Is_Data_Class T c \<and> \<not> Udb_Is_Host_Class T c \<and> Udb_Is_Person_Class T c"

definition lic_rel :: "'c class_tests \<Rightarrow> license_state \<Rightarrow> license_state \<Rightarrow> ('c \<times> int) list \<times> ('c \<times> int) list \<Rightarrow> bool" where
  "lic_rel T st0 st = (\<lambda>(done_l, pend).
     current_item_units st = int32 (current_item_units st0 + lic_sum (items_of T) done_l) \<and>
     current_host_units st = int32 (current_host_units st0 + lic_sum (hosts_of T) done_l) \<and>
     current_person_units st = int32 (current_person_units st0 + lic_sum (persons_of T) done_l) \<and>
     delta_item_units st = int32 (lic_sum (items_of T) pend) \<and>
     delta_host_units st = int32 (lic_sum (hosts_of T) pend) \<and>
     delta_person_units st = int32 (lic_sum (persons_of T) pend) \<and>
     license_host_units st = license_host_units st0 \<and> license_person_units st = license_person_units st0)"

lemma lic_sum_simps [simp]:
  "lic_sum P [] = 0" "lic_sum P (l @ l') = lic_sum P l + lic_sum P l'"
  "lic_sum P (x # l) = (if P (fst x) then snd x else 0) + lic_sum P l"
  by (simp_all add: lic_sum_def)

lemma lic_step_rel: "lic_rel T st0 st log \<Longrightarrow> lic_rel T st0 (lic_step T c st) (lic_log c log)"
  by (cases log; cases c)
     (auto simp: lic_rel_def Udb_Adjust_License_Count_def Udb_Update_License_Limits_def
        Udb_Rollback_License_Limits_def items_of_def hosts_of_def persons_of_def Let_def add.assoc)

lemma lic_run_rel: "lic_rel T st0 st log \<Longrightarrow> lic_rel T st0 (fold (lic_step T) cs st) (fold lic_log cs log)"
proof (induction cs arbitrary: st log)
  case (Cons c cs)
  then show ?case using lic_step_rel [of T st0 st log c] by simp
qed simp

section \<open>Properties\<close>

text \<open>C21: a key that \<open>New_Key\<close> makes under the vendor's passphrase, stored in the license file
  together with the parameters it was made for and read on the machine with that MAC address,
  decodes to exactly those parameters: the two unit counts and the two times.\<close>

theorem license_key_roundtrip:
  assumes "New_Key (Some (cstr expired_phrase)) get_int [cmd, type, hs, ps, ss, es, hex_text 6 mac] = Tcl_Ok key"
    and "license_file env mac type (hs, h) (ps, p) (ss, s) (es, e) (filter (\<lambda>c. c \<noteq> ch CHR ''-'') key)"
    and "get_int hs = Some h" "get_int ps = Some p" "is_int32 h" "is_int32 p"
  shows "Udb_License_Param env what st =
     Returns (case what of Host_Units \<Rightarrow> h | Person_Units \<Rightarrow> p | License_Start \<Rightarrow> strtol10 ss | License_End \<Rightarrow> strtol10 es,
       st\<lparr>license_host_units := h, license_person_units := p, license_start := s, license_end := e\<rparr>)"
proof -
  let ?d = "md5_reference (license_message (hex_text 6 mac) type hs ps ss es)"
  note f = assms(2) [unfolded license_file_def prod.case]
  have m: "cstr expired_phrase @ [0] @ key_padding @ x = expired_msg @ x" for x
    using expired_phrase_message by (metis append.assoc)
  have "New_Key (Some (cstr expired_phrase)) get_int [cmd, type, hs, ps, ss, es, hex_text 6 mac] =
     Tcl_Ok (dashed (key_text ?d h p (strtol10 ss) (strtol10 es)))"
    using f assms(3,4) unfolding license_message_def m [symmetric]
    by (intro New_Key_eq) (simp_all add: expired_phrase_def hex_text_def)
  then have "key = dashed (key_text ?d h p (strtol10 ss) (strtol10 es))" using assms(1) by simp
  then have "filter (\<lambda>c. c \<noteq> ch CHR ''-'') key = key_text ?d h p (strtol10 ss) (strtol10 es)"
    using key_text_no_dash filter_dashed by blast
  moreover have "lparam_of what h p (strtol10 ss) (strtol10 es) =
     (case what of Host_Units \<Rightarrow> h | Person_Units \<Rightarrow> p | License_Start \<Rightarrow> strtol10 ss | License_End \<Rightarrow> strtol10 es)"
    by (cases what) simp_all
  ultimately show ?thesis
    using License_Param_key [of env mac type hs h ps p ss s es e h p "strtol10 ss" "strtol10 es" what st] assms(2,5,6)
      is_int32_strtol10 by simp
qed

text \<open>An environment for a given license file.\<close>

definition sample_env :: "cstr \<Rightarrow> lic_env" where
  "sample_env key = \<lparr>unameitPriv = map_of [(''license_type'', cstr ''prod''), (''license_host_units'', cstr ''7''),
       (''license_person_units'', cstr ''9''), (''license_start'', cstr ''-1''), (''license_end'', cstr ''-1''),
       (''license_key'', key)],
     db_put_int = (\<lambda>s. Some (strtol10 s)), mac_address = Some [8, 0, 32, 1, 2, 3], now_time = 5,
     has_named_item = True, run_count = (\<lambda>_. Some 0)\<rparr>"

lemma sample_numbers: "strtol10 (cstr ''7'') = 7" "strtol10 (cstr ''9'') = 9" "strtol10 (cstr ''-1'') = - 1"
  by (simp_all add: strtol10_def cstr_def Let_def)

lemma sample_file: "license_file (sample_env key) [8, 0, 32, 1, 2, 3] (cstr ''prod'') (cstr ''7'', 7) (cstr ''9'', 9)
   (cstr ''-1'', - 1) (cstr ''-1'', - 1) key"
  using sample_numbers by (simp add: license_file_def sample_env_def Udb_String_To_Int32_def cstr_def)

theorem license_key_roundtrip_witness:
  "\<exists>key. New_Key (Some (cstr expired_phrase)) (\<lambda>s. Some (strtol10 s))
       [[], cstr ''prod'', cstr ''7'', cstr ''9'', cstr ''-1'', cstr ''-1'', hex_text 6 [8, 0, 32, 1, 2, 3]] = Tcl_Ok key \<and>
     (\<forall>st. \<exists>st'. Udb_License_Param (sample_env (filter (\<lambda>c. c \<noteq> ch CHR ''-'') key)) Person_Units st = Returns (9, st'))"
proof -
  obtain key where k: "New_Key (Some (cstr expired_phrase)) (\<lambda>s. Some (strtol10 s))
       [[], cstr ''prod'', cstr ''7'', cstr ''9'', cstr ''-1'', cstr ''-1'', hex_text 6 [8, 0, 32, 1, 2, 3]] = Tcl_Ok key"
    by (simp add: New_Key_def Let_def)
  have "Udb_License_Param (sample_env (filter (\<lambda>c. c \<noteq> ch CHR ''-'') key)) what st =
     Returns (case what of Host_Units \<Rightarrow> 7 | Person_Units \<Rightarrow> 9 | License_Start \<Rightarrow> strtol10 (cstr ''-1'') | License_End \<Rightarrow> strtol10 (cstr ''-1''),
       st\<lparr>license_host_units := 7, license_person_units := 9, license_start := - 1, license_end := - 1\<rparr>)" for what st
    using license_key_roundtrip [OF k sample_file, of what st] sample_numbers by (simp add: is_int32_def)
  then show ?thesis using k by auto
qed

text \<open>C22: after \<open>Udb_Init_License\<close> and any sequence of adjustments, commits and rollbacks, the
  current counts are the initial ones plus the committed adjustments and the deltas are the
  adjustments since the last commit or rollback, each by class and modulo 2 to the 32; a
  rolled back adjustment leaves no trace and the licensed limits do not change.\<close>

theorem license_counters_refine_log:
  assumes "delta_item_units ini = 0" "delta_host_units ini = 0" "delta_person_units ini = 0"
    and "is_int32 (current_item_units ini)" "is_int32 (current_host_units ini)" "is_int32 (current_person_units ini)"
    and "fold lic_log calls ([], []) = (done_l, pend)" "st = fold (lic_step T) calls ini"
  shows "current_item_units st = int32 (current_item_units ini + lic_sum (items_of T) done_l) \<and>
     current_host_units st = int32 (current_host_units ini + lic_sum (hosts_of T) done_l) \<and>
     current_person_units st = int32 (current_person_units ini + lic_sum (persons_of T) done_l) \<and>
     delta_item_units st = int32 (lic_sum (items_of T) pend) \<and>
     delta_host_units st = int32 (lic_sum (hosts_of T) pend) \<and>
     delta_person_units st = int32 (lic_sum (persons_of T) pend) \<and>
     license_host_units st = license_host_units ini \<and> license_person_units st = license_person_units ini"
proof -
  have "lic_rel T ini ini ([], [])" using assms(1-6) by (simp add: lic_rel_def)
  from lic_run_rel [OF this, of calls] show ?thesis by (simp add: assms(7,8) lic_rel_def)
qed

theorem license_counters_refine_log_witness:
  "current_host_units (fold (lic_step \<lparr>Udb_Is_Data_Class = \<lambda>c. True, Udb_Is_Host_Class = \<lambda>c. c, Udb_Is_Person_Class = \<lambda>c. \<not> c\<rparr>)
      [Adjust True 1, Adjust False 1, Rollback, Adjust True 1, Adjust True 1, Commit, Adjust True 1]
      \<lparr>license_start = 0, license_end = 0, license_host_units = 5, license_person_units = 5,
       current_item_units = 3, current_host_units = 2, current_person_units = 1,
       delta_item_units = 0, delta_host_units = 0, delta_person_units = 0\<rparr>) = 4"
  using license_counters_refine_log [where
      T = "\<lparr>Udb_Is_Data_Class = \<lambda>c. True, Udb_Is_Host_Class = \<lambda>c. c, Udb_Is_Person_Class = \<lambda>c. \<not> c\<rparr>" and
      calls = "[Adjust True 1, Adjust False 1, Rollback, Adjust True 1, Adjust True 1, Commit, Adjust True 1]" and
      done_l = "[(True, 1), (True, 1)]" and pend = "[(True, 1)]" and
      ini = "\<lparr>license_start = 0, license_end = 0, license_host_units = 5, license_person_units = 5,
       current_item_units = 3, current_host_units = 2, current_person_units = 1,
       delta_item_units = 0, delta_host_units = 0, delta_person_units = 0\<rparr>"]
  by (simp add: is_int32_def hosts_of_def)

text \<open>C38: \<open>Udb_Init_License\<close> does not compare the dates of the license file with those in the
  key: whatever dates the file holds, a key that matches its unit counts and carries no dates
  is accepted, and the accepted state keeps the file's dates.\<close>

theorem init_license_ignores_file_dates:
  assumes "license_file env mac type (hs, h) (ps, p) (ss, s) (es, e)
      (key_text (md5_reference (license_message (hex_text 6 mac) type hs ps ss es)) h p (- 1) (- 1))"
    and "is_int32 h" "is_int32 p" "has_named_item env"
  shows "\<exists>st'. Udb_Init_License env st = Returns st' \<and> license_start st' = s \<and> license_end st' = e \<and>
     Udb_License_Param env License_Start st = Returns (- 1, st\<lparr>license_host_units := h, license_person_units := p,
       license_start := s, license_end := e\<rparr>)"
proof -
  have i: "is_int32 (- 1)" by (simp add: is_int32_def)
  note P = License_Param_key [OF assms(1-3) i i]
  show ?thesis using Init_License_eq [OF P assms(4), of st] P [of License_Start st] by (simp add: Let_def)
qed

theorem init_license_ignores_file_dates_witness:
  "\<exists>key st'. Udb_Init_License (sample_env key\<lparr>unameitPriv := (unameitPriv (sample_env key))(''license_end'' \<mapsto> cstr ''7'')\<rparr>)
      \<lparr>license_start = 0, license_end = 0, license_host_units = 0, license_person_units = 0,
       current_item_units = 0, current_host_units = 0, current_person_units = 0,
       delta_item_units = 0, delta_host_units = 0, delta_person_units = 0\<rparr> = Returns st' \<and> license_end st' = 7"
proof -
  let ?st = "\<lparr>license_start = 0, license_end = 0, license_host_units = 0, license_person_units = 0,
       current_item_units = 0, current_host_units = 0, current_person_units = 0,
       delta_item_units = 0, delta_host_units = 0, delta_person_units = 0\<rparr>"
  let ?mac = "[8, 0, 32, 1, 2, 3]"
  define key where "key = key_text (md5_reference (license_message (hex_text 6 ?mac) (cstr ''prod'') (cstr ''7'') (cstr ''9'') (cstr ''-1'') (cstr ''7''))) 7 9 (- 1) (- 1)"
  let ?env = "sample_env key\<lparr>unameitPriv := (unameitPriv (sample_env key))(''license_end'' \<mapsto> cstr ''7'')\<rparr>"
  have "license_file ?env ?mac (cstr ''prod'') (cstr ''7'', 7) (cstr ''9'', 9) (cstr ''-1'', - 1) (cstr ''7'', 7) key"
    using sample_numbers by (simp add: license_file_def sample_env_def Udb_String_To_Int32_def cstr_def)
  from init_license_ignores_file_dates [OF this [unfolded key_def], of ?st] show ?thesis
    by (auto simp: is_int32_def sample_env_def simp flip: key_def)
qed

end
