(* ===== verification/Uuid.thy ===== *)
theory Uuid
  imports Radix
begin

text \<open>
  Generation of universally unique identifiers: \<^verbatim>\<open>libuuid/uuid.c\<close> and \<^verbatim>\<open>include/uuid.h\<close>.

  The statics of the C file are a record.  \<open>gettimeofday\<close> is the list of the results of its
  coming calls, \<open>None\<close> for a failed one; an operation that needs more results than the list
  holds is still running and has the value \<open>None\<close>.  MAC address, process id and the
  indeterminate local of \<open>true_random_init\<close> are in the environment record.
\<close>

unbundle bit_operations_syntax

section \<open>Model\<close>

record uuid_time_t =
  t_lo :: u32
  t_hi :: u32

record uuid_t =
  time_low :: u32
  time_mid :: u16
  time_hi_and_version :: u16
  clock_seq_hi_and_reserved :: u8
  clock_seq_low :: u8
  node :: "u8 list"

record uuid_state =
  saved_addr :: "u8 list"
  time_now :: uuid_time_t
  time_last :: uuid_time_t
  time_adjust :: u16
  clock_seq :: u16
  rand_m :: u32
  rand_ia :: u32
  rand_ib :: u32
  rand_irand :: u32
  got_address :: bool
  uuid_init_done :: bool
  gettimeofday :: "(u32 \<times> u32) option list"

record uuid_env =
  Uuid_Get_Macaddress :: "u8 list option"
  os_pid :: u32
  stack_time :: uuid_time_t

abbreviation SIGN :: u32 where "SIGN \<equiv> 0x80000000"

definition UADD_UVLW_2_UVLW :: "uuid_time_t \<Rightarrow> uuid_time_t \<Rightarrow> uuid_time_t" where
  "UADD_UVLW_2_UVLW add1 add2 =
     (if ((t_lo add1 AND SIGN) XOR (t_lo add2 AND SIGN)) = 0
      then (if t_lo add1 AND SIGN \<noteq> 0
            then \<lparr>t_lo = t_lo add1 + t_lo add2, t_hi = t_hi add1 + t_hi add2 + 1\<rparr>
            else \<lparr>t_lo = t_lo add1 + t_lo add2, t_hi = t_hi add1 + t_hi add2\<rparr>)
      else (let lo = t_lo add1 + t_lo add2; hi = t_hi add1 + t_hi add2
            in if lo AND SIGN = 0 then \<lparr>t_lo = lo, t_hi = hi + 1\<rparr> else \<lparr>t_lo = lo, t_hi = hi\<rparr>))"

definition UADD_ULW_2_UVLW :: "u32 \<Rightarrow> uuid_time_t \<Rightarrow> uuid_time_t" where
  "UADD_ULW_2_UVLW add1 add2 =
     (if add1 AND t_lo add2 AND SIGN \<noteq> 0
      then \<lparr>t_lo = add1 + t_lo add2, t_hi = t_hi add2 + 1\<rparr>
      else (let lo = add1 + t_lo add2
            in if lo AND SIGN = 0 then \<lparr>t_lo = lo, t_hi = t_hi add2 + 1\<rparr>
               else \<lparr>t_lo = lo, t_hi = t_hi add2\<rparr>))"

definition UADD_UW_2_UVLW :: "u16 \<Rightarrow> uuid_time_t \<Rightarrow> uuid_time_t" where
  "UADD_UW_2_UVLW add1 add2 =
     (if t_lo add2 AND SIGN \<noteq> 0
      then (let lo = ucast add1 + t_lo add2
            in if lo AND SIGN = 0 then \<lparr>t_lo = lo, t_hi = t_hi add2 + 1\<rparr>
               else \<lparr>t_lo = lo, t_hi = t_hi add2\<rparr>)
      else \<lparr>t_lo = ucast add1 + t_lo add2, t_hi = t_hi add2\<rparr>)"

definition uuid__uemul :: "u32 \<Rightarrow> u32 \<Rightarrow> uuid_time_t" where
  "uuid__uemul u v =
     (let uuid1 = drop_bit 16 u; uuid2 = u AND 0xffff;
          v1 = drop_bit 16 v; v2 = v AND 0xffff;
          temp = uuid2 * v2;
          lo = temp AND 0xffff;
          temp = uuid1 * v2 + drop_bit 16 temp;
          hi = drop_bit 16 temp;
          temp = uuid2 * v1 + (temp AND 0xffff);
          lo = lo + push_bit 16 (temp AND 0xffff);
          hi = hi + (uuid1 * v1 + drop_bit 16 temp)
      in \<lparr>t_lo = lo, t_hi = hi\<rparr>)"

definition os_base_time_diff :: uuid_time_t where
  "os_base_time_diff = \<lparr>t_lo = 0x13814000, t_hi = 0x01B21DD2\<rparr>"

definition os_time_of :: "u32 \<Rightarrow> u32 \<Rightarrow> uuid_time_t" where
  "os_time_of sec usec =
     (let utc = uuid__uemul sec 10000000;
          usecs = uuid__uemul usec 10;
          utc = UADD_UVLW_2_UVLW usecs utc
      in UADD_UVLW_2_UVLW utc os_base_time_diff)"

text \<open>The new value of the time argument, which a failed \<open>gettimeofday\<close> leaves unchanged.\<close>

definition uuid__get_os_time :: "uuid_time_t \<Rightarrow> uuid_state \<Rightarrow> (uuid_time_t \<times> uuid_state) option" where
  "uuid__get_os_time old st =
     (case gettimeofday st of
        [] \<Rightarrow> None
      | r # rs \<Rightarrow>
          Some (case r of None \<Rightarrow> old | Some (sec, usec) \<Rightarrow> os_time_of sec usec, st\<lparr>gettimeofday := rs\<rparr>))"

definition true_random_init :: "uuid_env \<Rightarrow> uuid_state \<Rightarrow> uuid_state option" where
  "true_random_init env st =
     (let st = st\<lparr>rand_m := 971, rand_ia := 11113, rand_ib := 104322, rand_irand := 4181\<rparr>
      in case uuid__get_os_time (stack_time env) st of
           None \<Rightarrow> None
         | Some (t, st) \<Rightarrow>
             (let seed = (ucast (t_lo t) XOR ucast (drop_bit 16 (t_lo t)) XOR
                          ucast (t_hi t) XOR ucast (drop_bit 16 (t_hi t)) :: u16)
              in Some (st\<lparr>rand_irand := rand_irand st + (ucast seed + os_pid env)\<rparr>)))"

definition true_random :: "uuid_state \<Rightarrow> u16 \<times> uuid_state" where
  "true_random st =
     (let m = rand_m st + 7; ia = rand_ia st + 1907; ib = rand_ib st + 73939;
          m = (if m \<ge> 9973 then m - 9871 else m);
          ia = (if ia \<ge> 99991 then ia - 89989 else ia);
          ib = (if ib \<ge> 224729 then ib - 96233 else ib);
          irand = rand_irand st * m + ia + ib
      in (ucast (drop_bit 16 irand XOR (irand AND 0x3fff)),
          st\<lparr>rand_m := m, rand_ia := ia, rand_ib := ib, rand_irand := irand\<rparr>))"

definition init_uuid :: "uuid_env \<Rightarrow> uuid_state \<Rightarrow> uuid_state option" where
  "init_uuid env st =
     (case true_random_init env st of
        None \<Rightarrow> None
      | Some st \<Rightarrow>
     (case uuid__get_os_time (time_last st) st of
        None \<Rightarrow> None
      | Some (t, st) \<Rightarrow>
          (case true_random (st\<lparr>time_last := t\<rparr>) of
             (r, st) \<Rightarrow> Some (st\<lparr>clock_seq := r, uuid_init_done := True\<rparr>))))"

datatype uuid_compval_t = uuid_e_less_than | uuid_e_equal_to | uuid_e_greater_than

definition time_cmp :: "uuid_time_t \<Rightarrow> uuid_time_t \<Rightarrow> uuid_compval_t" where
  "time_cmp time1 time2 =
     (if t_hi time1 < t_hi time2 then uuid_e_less_than
      else if t_hi time1 > t_hi time2 then uuid_e_greater_than
      else if t_lo time1 < t_lo time2 then uuid_e_less_than
      else if t_lo time1 > t_lo time2 then uuid_e_greater_than
      else uuid_e_equal_to)"

definition new_clock_seq :: "uuid_state \<Rightarrow> uuid_state" where
  "new_clock_seq st =
     (let st = (if clock_seq st = 0 then case true_random st of (r, st) \<Rightarrow> st\<lparr>clock_seq := r\<rparr> else st);
          seq = (clock_seq st + 1) AND 0x3fff
      in st\<lparr>clock_seq := (if seq = 0 then seq + 1 else seq)\<rparr>)"

definition Get_Uuid_Address :: "uuid_env \<Rightarrow> uuid_state \<Rightarrow> u8 list option \<times> uuid_state" where
  "Get_Uuid_Address env st =
     (if got_address st then (Some (saved_addr st), st)
      else case Uuid_Get_Macaddress env of
        Some addr \<Rightarrow> (Some addr, st\<lparr>got_address := True, saved_addr := addr\<rparr>)
      | None \<Rightarrow> (None, st))"

abbreviation MAX_TIME_ADJUST :: u16 where "MAX_TIME_ADJUST \<equiv> 0x7fff"

text \<open>The \<open>do\<close> loop of \<open>Create_Uuid\<close>; the flag \<open>got_no_time\<close> is never cleared in it.\<close>

fun create_loop :: "(u32 \<times> u32) option list \<Rightarrow> bool \<Rightarrow> uuid_state \<Rightarrow> uuid_state option" where
  "create_loop [] got_no_time st = None"
| "create_loop (r # rs) got_no_time st =
     (let st = st\<lparr>time_now := (case r of None \<Rightarrow> time_now st | Some (sec, usec) \<Rightarrow> os_time_of sec usec),
                  gettimeofday := rs\<rparr>;
          (got_no_time, st) =
            (case time_cmp (time_now st) (time_last st) of
               uuid_e_less_than \<Rightarrow> (got_no_time, (new_clock_seq st)\<lparr>time_adjust := 0\<rparr>)
             | uuid_e_greater_than \<Rightarrow> (got_no_time, st\<lparr>time_adjust := 0\<rparr>)
             | uuid_e_equal_to \<Rightarrow>
                 if time_adjust st = MAX_TIME_ADJUST then (True, st)
                 else (got_no_time, st\<lparr>time_adjust := time_adjust st + 1\<rparr>))
      in if got_no_time then create_loop rs got_no_time st else Some st)"

definition make_uuid :: "uuid_time_t \<Rightarrow> u16 \<Rightarrow> u8 list \<Rightarrow> uuid_t" where
  "make_uuid now seq eaddr =
     \<lparr>time_low = t_lo now,
      time_mid = ucast (t_hi now AND 0x0000ffff),
      time_hi_and_version = ucast (drop_bit 16 (t_hi now AND 0x0fff0000)) OR 0x1000,
      clock_seq_hi_and_reserved = ucast (drop_bit 8 (seq AND 0x3f00)) OR 0x80,
      clock_seq_low = ucast (seq AND 0xff),
      node = eaddr\<rparr>"

definition Create_Uuid :: "uuid_env \<Rightarrow> uuid_state \<Rightarrow> (uuid_t option \<times> uuid_state) option" where
  "Create_Uuid env st =
     (case (if uuid_init_done st then Some st else init_uuid env st) of
        None \<Rightarrow> None
      | Some st \<Rightarrow>
          (case Get_Uuid_Address env st of
             (None, st) \<Rightarrow> Some (None, st)
           | (Some eaddr, st) \<Rightarrow>
               (case create_loop (gettimeofday st) False st of
                  None \<Rightarrow> None
                | Some st \<Rightarrow>
                    (let st = st\<lparr>time_last := time_now st\<rparr>;
                         st = (if time_adjust st \<noteq> 0
                               then st\<lparr>time_now := UADD_UW_2_UVLW (time_adjust st) (time_now st)\<rparr> else st)
                     in Some (Some (make_uuid (time_now st) (clock_seq st) eaddr), st)))))"

definition uuid_network_bytes :: "uuid_t \<Rightarrow> u8 list" where
  "uuid_network_bytes u =
     [ucast (drop_bit 24 (time_low u)), ucast (drop_bit 16 (time_low u)),
      ucast (drop_bit 8 (time_low u)), ucast (time_low u),
      ucast (drop_bit 8 (time_mid u)), ucast (time_mid u),
      ucast (drop_bit 8 (time_hi_and_version u)), ucast (time_hi_and_version u),
      clock_seq_hi_and_reserved u, clock_seq_low u] @ node u"

definition Uuid_StringCreate :: "uuid_env \<Rightarrow> uuid_state \<Rightarrow> (cstr option \<times> uuid_state) option" where
  "Uuid_StringCreate env st =
     map_option (\<lambda>(u, st). (map_option (\<lambda>u. take (R64 - 1) (Udb_Radix64_Encode (uuid_network_bytes u))) u, st))
       (Create_Uuid env st)"

definition Uuid_Valid :: "cstr \<Rightarrow> bool" where
  "Uuid_Valid s \<longleftrightarrow> fst (Udb_Radix64_Decode s) = 0"

text \<open>A null result of \<open>Uuid_StringCreate\<close> makes \<open>Tcl_SetResult\<close> set the empty result.\<close>

definition Uuidgen :: "uuid_env \<Rightarrow> cstr list \<Rightarrow> uuid_state \<Rightarrow> (cstr tcl_result \<times> uuid_state) option" where
  "Uuidgen env argv st =
     map_option (\<lambda>(s, st). (Tcl_Ok (case s of None \<Rightarrow> [] | Some s \<Rightarrow> s), st)) (Uuid_StringCreate env st)"

definition Uuidok :: "cstr list \<Rightarrow> int tcl_result" where
  "Uuidok argv = Tcl_Ok (if length argv = 2 \<and> Uuid_Valid (argv ! 1) then 1 else 0)"

section \<open>64 bit arithmetic\<close>

definition t64 :: "uuid_time_t \<Rightarrow> nat" where
  "t64 t = unat (t_hi t) * 2 ^ 32 + unat (t_lo t)"

lemma t64_less: "t64 t < 2 ^ 64"
proof -
  have "unat (t_hi t) \<le> 2 ^ 32 - 1" "unat (t_lo t) \<le> 2 ^ 32 - 1"
    using unsigned_less [of "t_hi t", where 'a = nat] unsigned_less [of "t_lo t", where 'a = nat] by simp_all
  then have "t64 t \<le> (2 ^ 32 - 1) * 2 ^ 32 + (2 ^ 32 - 1)"
    unfolding t64_def by (intro add_mono mult_le_mono1)
  then show ?thesis by simp
qed

lemma t64_inj: "t64 a = t64 b \<longleftrightarrow> a = b"
proof
  assume e: "t64 a = t64 b"
  have l: "unat x < 2 ^ 32" for x :: u32 using unsigned_less [of x, where 'a = nat] by simp
  have "unat (t_hi a) = t64 a div 2 ^ 32" "unat (t_hi b) = t64 b div 2 ^ 32"
     "unat (t_lo a) = t64 a mod 2 ^ 32" "unat (t_lo b) = t64 b mod 2 ^ 32"
    using l by (simp_all add: t64_def)
  then have "unat (t_hi a) = unat (t_hi b)" "unat (t_lo a) = unat (t_lo b)" using e by (simp_all only:)
  then show "a = b" by (intro uuid_time_t.equality) (simp_all add: word_unat_eq_iff)
qed simp

lemma and_SIGN: "x AND SIGN = (if bit x 31 then SIGN else 0)" for x :: u32
proof (rule bit_word_eqI)
  fix n assume "n < LENGTH(32)"
  have "SIGN = push_bit 31 1" by simp
  then have "bit SIGN n \<longleftrightarrow> n = 31" by (simp only: bit_push_bit_iff) (auto simp: bit_1_iff)
  then show "bit (x AND SIGN) n = bit (if bit x 31 then SIGN else 0) n" by (auto simp: bit_simps)
qed

lemma sign_clear: "(x AND SIGN = 0) \<longleftrightarrow> unat x < 2 ^ 31" for x :: u32
proof -
  have "bit x 31 \<longleftrightarrow> odd (unat x div 2 ^ 31)"
    using bit_iff_odd [of "unat x" 31] by (simp only: bit_unsigned_iff) simp
  moreover have "unat x < 2 ^ 32" using unsigned_less [of x, where 'a = nat] by simp
  then have "unat x div 2 ^ 31 < 2" by (simp add: div_less_iff_less_mult)
  then have "unat x div 2 ^ 31 = 0 \<or> unat x div 2 ^ 31 = 1" by linarith
  then have "odd (unat x div 2 ^ 31) \<longleftrightarrow> \<not> unat x < 2 ^ 31" by (auto simp: div_eq_0_iff)
  ultimately show ?thesis by (auto simp: and_SIGN)
qed

lemma sign_xor: "((a AND SIGN) XOR (b AND SIGN) = 0) \<longleftrightarrow> ((a AND SIGN = 0) = (b AND SIGN = 0))" for a b :: u32
  by (simp add: and_SIGN)

definition carry32 :: "u32 \<Rightarrow> u32 \<Rightarrow> bool" where
  "carry32 a b \<longleftrightarrow> 2 ^ 32 \<le> unat a + unat b"

lemma unat_u32: "unat (x :: u32) < 2 ^ 32"
  using unsigned_less [of x, where 'a = nat] by simp

lemma unat_add_carry: "unat (a + b :: u32) = (if carry32 a b then unat a + unat b - 2 ^ 32 else unat a + unat b)"
proof -
  have "unat (a + b) = (unat a + unat b) mod 2 ^ 32" by (simp add: unat_word_ariths)
  then show ?thesis using unat_u32 [of a] unat_u32 [of b] by (simp add: carry32_def le_mod_geq)
qed

lemma t64_add:
  "t64 \<lparr>t_lo = a + b, t_hi = (if carry32 a b then x + y + 1 else x + y)\<rparr> =
     (t64 \<lparr>t_lo = a, t_hi = x\<rparr> + t64 \<lparr>t_lo = b, t_hi = y\<rparr>) mod 2 ^ 64"
proof -
  define c where "c = (if carry32 a b then 1 else 0 :: nat)"
  have lo: "unat (a + b) + c * 2 ^ 32 = unat a + unat b"
    by (auto simp: unat_add_carry c_def carry32_def)
  define h where "h = unat x + unat y + c"
  have "(if carry32 a b then x + y + 1 else x + y) = of_nat h" by (simp add: h_def c_def)
  then have hi: "unat (if carry32 a b then x + y + 1 else x + y) = h mod 2 ^ 32" by (simp add: unat_of_nat)
  have "(t64 \<lparr>t_lo = a, t_hi = x\<rparr> + t64 \<lparr>t_lo = b, t_hi = y\<rparr>) = h * 2 ^ 32 + unat (a + b)"
    using lo by (simp add: t64_def h_def algebra_simps)
  moreover have "(h * 2 ^ 32 + unat (a + b)) mod (2 ^ 32 * 2 ^ 32) = h mod 2 ^ 32 * 2 ^ 32 + unat (a + b)"
    using unat_u32 [of "a + b"] by (simp only: mod_mult2_eq) (simp add: mult.commute)
  ultimately show ?thesis using hi by (simp add: t64_def)
qed

lemma UADD_UVLW_t64: "t64 (UADD_UVLW_2_UVLW a b) = (t64 a + t64 b) mod 2 ^ 64"
proof -
  have c: "carry32 x y \<longleftrightarrow> (if (x AND SIGN = 0) = (y AND SIGN = 0) then x AND SIGN \<noteq> 0 else (x + y) AND SIGN = 0)" for x y
    unfolding sign_clear unat_add_carry using unat_u32 [of x] unat_u32 [of y]
    by (auto simp: carry32_def)
  have "UADD_UVLW_2_UVLW a b = \<lparr>t_lo = t_lo a + t_lo b,
     t_hi = (if carry32 (t_lo a) (t_lo b) then t_hi a + t_hi b + 1 else t_hi a + t_hi b)\<rparr>"
    by (auto simp: UADD_UVLW_2_UVLW_def sign_xor c Let_def)
  moreover have "t64 \<lparr>t_lo = t_lo t, t_hi = t_hi t\<rparr> = t64 t" for t by (simp add: t64_def)
  ultimately show ?thesis using t64_add [of "t_lo a" "t_lo b" "t_hi a" "t_hi b"] by (simp only:)
qed

lemma unat_ucast_u16: "unat (ucast (x :: u16) :: u32) = unat x"
proof -
  have "unat x < 2 ^ 16" using unsigned_less [of x, where 'a = nat] by simp
  then show ?thesis by (simp add: unsigned_ucast_eq take_bit_nat_eq_self)
qed

lemma UADD_UW_t64: "t64 (UADD_UW_2_UVLW a b) = (unat a + t64 b) mod 2 ^ 64"
proof -
  have a: "unat (ucast a :: u32) < 2 ^ 16" using unsigned_less [of a, where 'a = nat] by (simp add: unat_ucast_u16)
  have c: "carry32 (ucast a) y \<longleftrightarrow> y AND SIGN \<noteq> 0 \<and> (ucast a + y) AND SIGN = 0" for y
    unfolding sign_clear unat_add_carry using unat_u32 [of y] a
    by (auto simp: carry32_def)
  have "UADD_UW_2_UVLW a b = \<lparr>t_lo = ucast a + t_lo b,
     t_hi = (if carry32 (ucast a) (t_lo b) then 0 + t_hi b + 1 else 0 + t_hi b)\<rparr>"
    by (auto simp: UADD_UW_2_UVLW_def c Let_def)
  then show ?thesis using t64_add [of "ucast a" "t_lo b" 0 "t_hi b"] by (simp add: t64_def unat_ucast_u16)
qed

lemma unat_low16: "unat (x AND 0xffff :: u32) = unat x mod 65536"
proof -
  have "x AND 0xffff = take_bit 16 x" by (simp add: take_bit_eq_mask mask_eq_exp_minus_1)
  then show ?thesis by (simp only: unsigned_take_bit_eq) (simp add: take_bit_eq_mod)
qed

lemma unat_high16: "unat (drop_bit 16 x :: u32) = unat x div 65536"
  unfolding unat_drop_bit_eq by (simp add: drop_bit_eq_div)

lemma unat_mult_add: "unat x * unat y + unat z < 2 ^ 32 \<Longrightarrow> unat (x * y + z :: u32) = unat x * unat y + unat z"
  by (simp add: unat_word_ariths mod_simps)

lemma knuth_bounds:
  fixes a b r :: nat
  assumes "a < 65536" "b < 65536" "r < 65536"
  shows "a * b + r < 2 ^ 32"
proof -
  have "a \<le> 65535" "b \<le> 65535" using assms(1,2) by simp_all
  then have "a * b \<le> 65535 * 65535" by (rule mult_le_mono)
  then show ?thesis using assms(3) by simp
qed

lemma knuth_sum:
  fixes ac ad bc bd :: nat
  assumes "bd = 65536 * q1 + r1" "ad + q1 = 65536 * q2 + r2" "bc + r2 = 65536 * q3 + r3"
  shows "(q2 + (ac + q3)) * 4294967296 + (r1 + r3 * 65536) = 4294967296 * ac + 65536 * ad + 65536 * bc + bd"
  using assms by simp

lemma uemul_t64: "t64 (uuid__uemul u v) = unat u * unat v"
proof -
  define a b c d where "a = unat u div 65536" and "b = unat u mod 65536"
    and "c = unat v div 65536" and "d = unat v mod 65536"
  have u: "unat u = a * 65536 + b" "unat v = c * 65536 + d" by (simp_all add: a_def b_def c_def d_def)
  have l: "a < 65536" "b < 65536" "c < 65536" "d < 65536"
    using unat_u32 [of u] unat_u32 [of v] by (simp_all add: a_def b_def c_def d_def div_less_iff_less_mult)
  define T1 where "T1 = b * d"
  define T2 where "T2 = a * d + T1 div 65536"
  define T3 where "T3 = b * c + T2 mod 65536"
  define w1 where "w1 = (u AND 0xffff) * (v AND 0xffff)"
  define w2 where "w2 = drop_bit 16 u * (v AND 0xffff) + drop_bit 16 w1"
  define w3 where "w3 = (u AND 0xffff) * drop_bit 16 v + (w2 AND 0xffff)"
  have T1: "T1 < 2 ^ 32" using knuth_bounds [of b d 0] l by (simp add: T1_def)
  have w1: "unat w1 = T1"
    using unat_mult_add [of "u AND 0xffff" "v AND 0xffff" 0] T1 by (simp add: w1_def T1_def unat_low16 flip: b_def d_def)
  have T1': "T1 div 65536 < 65536" using T1 by (simp add: div_less_iff_less_mult)
  have T2: "T2 < 2 ^ 32" unfolding T2_def using knuth_bounds l T1' by blast
  have w2: "unat w2 = T2"
    using unat_mult_add [of "drop_bit 16 u" "v AND 0xffff" "drop_bit 16 w1"] T2 w1
    by (simp add: w2_def T2_def unat_low16 unat_high16 flip: a_def d_def)
  have T3: "T3 < 2 ^ 32" unfolding T3_def using knuth_bounds l by simp
  have w3: "unat w3 = T3"
    using unat_mult_add [of "u AND 0xffff" "drop_bit 16 v" "w2 AND 0xffff"] T3 w2
    by (simp add: w3_def T3_def unat_low16 unat_high16 flip: b_def c_def)
  let ?lo = "(w1 AND 0xffff) + push_bit 16 (w3 AND 0xffff)"
  let ?hi = "drop_bit 16 w2 + (drop_bit 16 u * drop_bit 16 v + drop_bit 16 w3)"
  have e: "uuid__uemul u v = \<lparr>t_lo = ?lo, t_hi = ?hi\<rparr>"
    by (simp add: uuid__uemul_def Let_def w1_def w2_def w3_def)
  have lo: "unat ?lo = T1 mod 65536 + T3 mod 65536 * 65536"
  proof -
    have "push_bit 16 (w3 AND 0xffff) = (w3 AND 0xffff) * 0x10000" by (simp add: push_bit_eq_mult)
    then have "unat ?lo = unat ((w3 AND 0xffff) * 0x10000 + (w1 AND 0xffff))" by (simp add: add.commute)
    also have "\<dots> = unat (w3 AND 0xffff) * unat (0x10000 :: u32) + unat (w1 AND 0xffff)"
    proof (rule unat_mult_add)
      have "T3 mod 65536 \<le> 65535" "T1 mod 65536 \<le> 65535" by (simp_all flip: less_Suc_eq_le)
      then show "unat (w3 AND 0xffff) * unat (0x10000 :: u32) + unat (w1 AND 0xffff) < 2 ^ 32"
        by (simp add: unat_low16 w1 w3)
    qed
    finally show ?thesis by (simp add: unat_low16 w1 w3)
  qed
  have prod: "(T2 div 65536 + (a * c + T3 div 65536)) * 2 ^ 32 + (T1 mod 65536 + T3 mod 65536 * 65536) = unat u * unat v"
  proof -
    have "b * d = 65536 * (T1 div 65536) + T1 mod 65536" "a * d + T1 div 65536 = 65536 * (T2 div 65536) + T2 mod 65536"
      "b * c + T2 mod 65536 = 65536 * (T3 div 65536) + T3 mod 65536"
      unfolding mult_div_mod_eq by (simp_all add: T1_def T2_def T3_def)
    from knuth_sum [OF this, of "a * c"]
    have "(T2 div 65536 + (a * c + T3 div 65536)) * 2 ^ 32 + (T1 mod 65536 + T3 mod 65536 * 65536) =
       4294967296 * (a * c) + 65536 * (a * d) + 65536 * (b * c) + b * d" by simp
    moreover have "unat u * unat v = 4294967296 * (a * c) + 65536 * (a * d) + 65536 * (b * c) + b * d"
      by (simp add: u algebra_simps)
    ultimately show ?thesis by (simp only:)
  qed
  have "unat ?hi = T2 div 65536 + (a * c + T3 div 65536)"
  proof -
    have "unat u * unat v < 2 ^ 32 * 2 ^ 32" using unat_u32 [of u] unat_u32 [of v] by (intro mult_strict_mono) simp_all
    then have less: "T2 div 65536 + (a * c + T3 div 65536) < 2 ^ 32" using prod by simp
    have "?hi = of_nat (T2 div 65536 + (a * c + T3 div 65536))"
      using w2 w3 by (intro word_unat_eq_iff [THEN iffD2])
        (simp add: unat_word_ariths unat_high16 unat_of_nat mod_simps flip: a_def c_def)
    then show ?thesis using less by (simp add: unat_of_nat del: of_nat_add of_nat_mult)
  qed
  with lo prod show ?thesis unfolding e by (simp add: t64_def)
qed

lemma os_time_t64:
  assumes "unat usec < 1000000"
  shows "t64 (os_time_of sec usec) = 10 * unat usec + 10000000 * unat sec + 0x01B21DD213814000"
    and "t64 (os_time_of sec usec) < 2 ^ 60"
proof -
  have d: "t64 os_base_time_diff = 0x01B21DD213814000" by (simp add: t64_def os_base_time_diff_def)
  have l: "10 * unat usec + 10000000 * unat sec + 0x01B21DD213814000 < 2 ^ 60"
    using assms unat_u32 [of sec] by simp
  have "t64 (os_time_of sec usec) = ((unat usec * 10 + unat sec * 10000000) mod 2 ^ 64 + t64 os_base_time_diff) mod 2 ^ 64"
    by (simp add: os_time_of_def Let_def UADD_UVLW_t64 uemul_t64)
  also have "\<dots> = 10 * unat usec + 10000000 * unat sec + 0x01B21DD213814000"
    using l unfolding d by simp
  finally show "t64 (os_time_of sec usec) = 10 * unat usec + 10000000 * unat sec + 0x01B21DD213814000" .
  then show "t64 (os_time_of sec usec) < 2 ^ 60" using l by simp
qed

text \<open>The macro for a 32 bit addend, which nothing uses, adds a carry to the sum of two small
  numbers.\<close>

lemma uadd_ulw_wrong_carry:
  "t64 (UADD_ULW_2_UVLW 1 \<lparr>t_lo = 1, t_hi = 0\<rparr>) = 2 ^ 32 + 2"
  by (simp add: UADD_ULW_2_UVLW_def t64_def)

section \<open>The fields of an identifier\<close>

definition uuid_stamp :: "uuid_t \<Rightarrow> nat" where
  "uuid_stamp u = unat (time_low u) + 2 ^ 32 * unat (time_mid u) + 2 ^ 48 * (unat (time_hi_and_version u) mod 2 ^ 12)"

definition uuid_seq :: "uuid_t \<Rightarrow> nat" where
  "uuid_seq u = 2 ^ 8 * (unat (clock_seq_hi_and_reserved u) mod 2 ^ 6) + unat (clock_seq_low u)"

lemma unat_take_bit: "unat (take_bit n (x :: 'a::len word)) = unat x mod 2 ^ n"
  unfolding unsigned_take_bit_eq by (simp only: take_bit_eq_mod)

lemma unat_drop_div: "unat (drop_bit n (x :: 'a::len word)) = unat x div 2 ^ n"
  unfolding unat_drop_bit_eq by (simp only: drop_bit_eq_div)

lemma bit_field_masks [simp]:
  "bit (4095 :: int) n \<longleftrightarrow> n < 12" "bit (192 :: int) n \<longleftrightarrow> n = 6 \<or> n = 7" "bit (128 :: int) n \<longleftrightarrow> n = 7"
proof -
  have "(4095 :: int) = mask 12" by (simp add: mask_eq_exp_minus_1)
  then show "bit (4095 :: int) n \<longleftrightarrow> n < 12" by (simp only: bit_mask_iff) simp
  have "(192 :: int) = push_bit 6 (mask 2)" by (simp add: mask_eq_exp_minus_1)
  then show "bit (192 :: int) n \<longleftrightarrow> n = 6 \<or> n = 7" by (simp only: bit_push_bit_iff bit_mask_iff) auto
  have "(128 :: int) = push_bit 7 (mask 1)" by (simp add: mask_eq_exp_minus_1)
  then show "bit (128 :: int) n \<longleftrightarrow> n = 7" by (simp only: bit_push_bit_iff bit_mask_iff) auto
qed

lemma unat_ucast_mod: "unat (ucast (x :: 'a::len word) :: 'b::len word) = unat x mod 2 ^ LENGTH('b)"
  by (simp add: unsigned_ucast_eq take_bit_eq_mod)

lemma make_uuid_stamp: "uuid_stamp (make_uuid t seq a) = t64 t mod 2 ^ 60"
proof -
  let ?h = "t_hi t" and ?u = "make_uuid t seq a"
  have m: "time_mid ?u = ucast (take_bit 16 ?h)"
    by (simp add: make_uuid_def take_bit_eq_mask mask_eq_exp_minus_1)
  have mid: "unat (time_mid ?u) = unat ?h mod 2 ^ 16"
    unfolding m unat_ucast_mod unat_take_bit by simp
  have "take_bit 12 (time_hi_and_version ?u) = ucast (take_bit 12 (drop_bit 16 ?h))"
    by (rule bit_word_eqI) (auto simp: make_uuid_def bit_simps bit_mask_iff)
  then have "unat (take_bit 12 (time_hi_and_version ?u)) = unat (ucast (take_bit 12 (drop_bit 16 ?h)) :: u16)" by simp
  then have hi: "unat (time_hi_and_version ?u) mod 2 ^ 12 = unat ?h div 2 ^ 16 mod 2 ^ 12"
    unfolding unat_take_bit unat_ucast_mod unat_drop_div by simp
  have "t64 t mod 2 ^ 60 = unat ?h mod 2 ^ 28 * 2 ^ 32 + unat (t_lo t)"
  proof -
    have "t64 t mod (2 ^ 32 * 2 ^ 28) = 2 ^ 32 * (t64 t div 2 ^ 32 mod 2 ^ 28) + t64 t mod 2 ^ 32"
      by (rule mod_mult2_eq)
    moreover have "t64 t div 2 ^ 32 = unat ?h" "t64 t mod 2 ^ 32 = unat (t_lo t)"
      using unat_u32 [of "t_lo t"] by (simp_all add: t64_def)
    ultimately show ?thesis by (simp add: mult.commute)
  qed
  moreover have "unat ?h mod (2 ^ 16 * 2 ^ 12) = 2 ^ 16 * (unat ?h div 2 ^ 16 mod 2 ^ 12) + unat ?h mod 2 ^ 16"
    by (rule mod_mult2_eq)
  moreover have "time_low ?u = t_lo t" by (simp add: make_uuid_def)
  ultimately show ?thesis unfolding uuid_stamp_def mid hi by simp
qed

lemma make_uuid_seq: "uuid_seq (make_uuid t seq a) = unat seq mod 2 ^ 14"
proof -
  let ?u = "make_uuid t seq a"
  have "clock_seq_low ?u = ucast (take_bit 8 seq)"
    by (simp add: make_uuid_def take_bit_eq_mask mask_eq_exp_minus_1)
  then have low: "unat (clock_seq_low ?u) = unat seq mod 2 ^ 8" by (simp add: unat_ucast_mod unat_take_bit)
  have "take_bit 6 (clock_seq_hi_and_reserved ?u) = ucast (take_bit 6 (drop_bit 8 seq))"
    by (rule bit_word_eqI) (auto simp: make_uuid_def bit_simps)
  then have "unat (take_bit 6 (clock_seq_hi_and_reserved ?u)) = unat (ucast (take_bit 6 (drop_bit 8 seq)) :: u8)" by simp
  then have hi: "unat (clock_seq_hi_and_reserved ?u) mod 2 ^ 6 = unat seq div 2 ^ 8 mod 2 ^ 6"
    unfolding unat_take_bit unat_ucast_mod unat_drop_div by simp
  have "unat seq mod (2 ^ 8 * 2 ^ 6) = 2 ^ 8 * (unat seq div 2 ^ 8 mod 2 ^ 6) + unat seq mod 2 ^ 8"
    by (rule mod_mult2_eq)
  then show ?thesis unfolding uuid_seq_def low hi by simp
qed

lemma make_uuid_version:
  "drop_bit 12 (time_hi_and_version (make_uuid t seq a)) = 1"
  "clock_seq_hi_and_reserved (make_uuid t seq a) AND 0xC0 = 0x80"
proof -
  show "drop_bit 12 (time_hi_and_version (make_uuid t seq a)) = 1"
    by (rule bit_word_eqI) (auto simp: make_uuid_def bit_simps)
  show "clock_seq_hi_and_reserved (make_uuid t seq a) AND 0xC0 = 0x80"
    by (rule bit_word_eqI) (auto simp: make_uuid_def bit_simps)
qed

section \<open>Creating identifiers\<close>

lemma time_cmp_t64:
  "time_cmp a b = (if t64 a < t64 b then uuid_e_less_than
     else if t64 a = t64 b then uuid_e_equal_to else uuid_e_greater_than)"
proof -
  have hi: "t64 x < t64 y" if "t_hi x < t_hi y" for x y
  proof -
    have "unat (t_hi x) * 2 ^ 32 + 2 ^ 32 \<le> unat (t_hi y) * 2 ^ 32"
      using that by (simp add: word_less_nat_alt flip: mult_Suc)
    then show ?thesis using unat_u32 [of "t_lo x"] unfolding t64_def by linarith
  qed
  have lo: "t64 a < t64 b \<longleftrightarrow> t_lo a < t_lo b" if "t_hi a = t_hi b"
    using that by (simp add: t64_def word_less_nat_alt)
  have "t64 a = t64 b \<longleftrightarrow> t_hi a = t_hi b \<and> t_lo a = t_lo b"
    unfolding t64_inj by (metis uuid_time_t.equality old.unit.exhaust)
  then show ?thesis
    using hi [of a b] hi [of b a] lo unfolding time_cmp_def by (auto simp: not_less_iff_gr_or_eq)
qed

text \<open>One successful turn: what the next call does with a reading.\<close>

definition uuid_turn :: "uuid_time_t \<Rightarrow> uuid_state \<Rightarrow> uuid_state" where
  "uuid_turn now st =
     (if t64 now < t64 (time_last st) then (new_clock_seq st)\<lparr>time_adjust := 0\<rparr>
      else if t64 now = t64 (time_last st) then st\<lparr>time_adjust := time_adjust st + 1\<rparr>
      else st\<lparr>time_adjust := 0\<rparr>)"

lemma new_clock_seq_fields [simp]:
  "time_now (new_clock_seq st) = time_now st" "time_last (new_clock_seq st) = time_last st"
  "time_adjust (new_clock_seq st) = time_adjust st" "gettimeofday (new_clock_seq st) = gettimeofday st"
  "got_address (new_clock_seq st) = got_address st" "saved_addr (new_clock_seq st) = saved_addr st"
  "uuid_init_done (new_clock_seq st) = uuid_init_done st"
  by (simp_all add: new_clock_seq_def true_random_def Let_def)

lemma uuid_turn_fields [simp]:
  "time_now (uuid_turn t st) = time_now st" "time_last (uuid_turn t st) = time_last st"
  "gettimeofday (uuid_turn t st) = gettimeofday st"
  "got_address (uuid_turn t st) = got_address st" "saved_addr (uuid_turn t st) = saved_addr st"
  "uuid_init_done (uuid_turn t st) = uuid_init_done st"
  by (simp_all add: uuid_turn_def)

lemma create_loop_turn:
  assumes "\<not> (t64 (os_time_of s us) = t64 (time_last st) \<and> time_adjust st = MAX_TIME_ADJUST)"
  shows "create_loop (Some (s, us) # rs) False st =
     Some (uuid_turn (os_time_of s us) (st\<lparr>time_now := os_time_of s us, gettimeofday := rs\<rparr>))"
  using assms by (auto simp: time_cmp_t64 uuid_turn_def Let_def)

definition stamped :: "u16 \<Rightarrow> uuid_time_t \<Rightarrow> uuid_time_t" where
  "stamped adj t = (if adj \<noteq> 0 then UADD_UW_2_UVLW adj t else t)"

lemma t64_stamped: "t64 (stamped adj t) = (unat adj + t64 t) mod 2 ^ 64"
  using t64_less [of t] by (simp add: stamped_def UADD_UW_t64)

lemma Create_Uuid_turn:
  assumes "uuid_init_done st" "got_address st" "gettimeofday st = Some (s, us) # rs"
    "\<not> (t64 (os_time_of s us) = t64 (time_last st) \<and> time_adjust st = MAX_TIME_ADJUST)"
  defines "now \<equiv> os_time_of s us"
  defines "st' \<equiv> uuid_turn now (st\<lparr>time_now := now, gettimeofday := rs\<rparr>)"
  shows "Create_Uuid env st = Some (Some (make_uuid (stamped (time_adjust st') now) (clock_seq st') (saved_addr st)),
     st'\<lparr>time_last := now, time_now := stamped (time_adjust st') now\<rparr>)"
  unfolding Create_Uuid_def
  using assms(1-3) create_loop_turn [OF assms(4)]
  by (simp add: Get_Uuid_Address_def stamped_def Let_def st'_def now_def)

lemma create_loop_stuck: "create_loop rs True st = None"
proof (induction rs arbitrary: st)
  case (Cons r rs)
  then show ?case by (simp add: Let_def split: uuid_compval_t.split)
qed simp

lemma new_clock_seq_differs:
  "unat (clock_seq (new_clock_seq st)) mod 2 ^ 14 \<noteq> unat (clock_seq st) mod 2 ^ 14"
proof -
  define s where "s = (if clock_seq st = 0 then fst (true_random st) else clock_seq st)"
  define q where "q = (s + 1) AND 0x3fff"
  have n: "clock_seq (new_clock_seq st) = (if q = 0 then 1 else q)"
    by (simp add: new_clock_seq_def Let_def q_def s_def split: prod.split)
  have "q = take_bit 14 (s + 1)" by (simp add: q_def take_bit_eq_mask mask_eq_exp_minus_1)
  then have q: "unat q = (unat s + 1) mod 2 ^ 14"
  proof -
    have "unat (s + 1) mod 2 ^ 14 = ((unat s + 1) mod 2 ^ 16) mod 2 ^ 14" by (simp add: unat_word_ariths)
    also have "\<dots> = (unat s + 1) mod 2 ^ 14" by (rule mod_mod_cancel) simp
    finally show ?thesis using \<open>q = take_bit 14 (s + 1)\<close> by (simp only: unat_take_bit)
  qed
  then have l: "unat q < 2 ^ 14" by simp
  show ?thesis
  proof (cases "q = 0")
    case True
    then have z: "(unat s + 1) mod 2 ^ 14 = 0" using q by simp
    have "unat (clock_seq st) mod 2 ^ 14 \<noteq> 1"
    proof
      assume a: "unat (clock_seq st) mod 2 ^ 14 = 1"
      then have "s = clock_seq st" by (auto simp: s_def)
      then have "(unat s + 1) mod 2 ^ 14 = (1 + 1) mod 2 ^ 14" using a by (metis mod_add_left_eq)
      then show False using z by simp
    qed
    then show ?thesis using True n by simp
  next
    case False
    then have u: "unat q \<noteq> 0" by (simp add: unat_eq_zero)
    have "unat q \<noteq> unat (clock_seq st) mod 2 ^ 14"
    proof
      assume a: "unat q = unat (clock_seq st) mod 2 ^ 14"
      then have "clock_seq st \<noteq> 0" using u by auto
      then have "s = clock_seq st" by (simp add: s_def)
      then have "(unat s + 1) mod 2 ^ 14 = unat s mod 2 ^ 14" using a q by simp
      then show False by (simp add: mod_Suc split: if_splits)
    qed
    then show ?thesis using False n l by simp
  qed
qed

section \<open>Sequences of identifiers\<close>

fun create_uuids :: "uuid_env \<Rightarrow> nat \<Rightarrow> uuid_state \<Rightarrow> (uuid_t list \<times> uuid_state) option" where
  "create_uuids env 0 st = Some ([], st)"
| "create_uuids env (Suc n) st =
     (case Create_Uuid env st of
        Some (Some u, st) \<Rightarrow> (case create_uuids env n st of Some (us, st) \<Rightarrow> Some (u # us, st) | None \<Rightarrow> None)
      | _ \<Rightarrow> None)"

text \<open>The readings never go back, hold fewer than a million microseconds, and no reading occurs
  more than ten times in a row; \<open>k\<close> counts the repetitions of the previous one.\<close>

fun ticks_ok :: "nat \<Rightarrow> u32 \<times> u32 \<Rightarrow> (u32 \<times> u32) list \<Rightarrow> bool" where
  "ticks_ok k p [] = True"
| "ticks_ok k (s, us) ((s', us') # rs) =
     (unat us' < 1000000 \<and>
      (if (s', us') = (s, us) then k < 9 \<and> ticks_ok (k + 1) (s', us') rs
       else (s < s' \<or> s = s' \<and> us < us') \<and> ticks_ok 0 (s', us') rs))"

lemma os_time_mono:
  assumes "unat us < 1000000" "unat us' < 1000000" "s < s' \<or> s = s' \<and> us < us'"
  shows "t64 (os_time_of s us) + 10 \<le> t64 (os_time_of s' us')"
  unfolding os_time_t64(1) [OF assms(1)] os_time_t64(1) [OF assms(2)]
  using assms by (auto simp: word_less_nat_alt)

text \<open>Stamps grow from call to call while the clock sequence stays, so no two are equal.\<close>

lemma create_uuids_increasing:
  assumes "ticks_ok k (s, us) rs" "unat us < 1000000" "k < 10"
    "uuid_init_done st" "got_address st" "gettimeofday st = map Some rs"
    "time_last st = os_time_of s us" "time_adjust st = of_nat k"
  shows "\<exists>ids st'. create_uuids env (length rs) st = Some (ids, st') \<and> length ids = length rs \<and>
     sorted_wrt (<) (map uuid_stamp ids) \<and> (\<forall>u\<in>set ids. t64 (time_last st) + k < uuid_stamp u)"
  using assms
proof (induction rs arbitrary: k s us st)
  case (Cons r rs)
  obtain s' us' where r: "r = (s', us')" by (cases r)
  define now where "now = os_time_of s' us'"
  define st1 where "st1 = uuid_turn now (st\<lparr>time_now := now, gettimeofday := map Some rs\<rparr>)"
  define k' where "k' = (if (s', us') = (s, us) then k + 1 else 0)"
  have u': "unat us' < 1000000" and tl: "ticks_ok k' (s', us') rs" and k': "k' < 10"
    using Cons.prems(1) by (auto simp: r k'_def split: if_splits)
  have k16: "unat (of_nat k :: u16) = k" "unat (of_nat k' :: u16) = k'"
    using Cons.prems(3) k' by (simp_all add: unat_of_nat)
  have prev: "t64 (os_time_of s us) + k < t64 now + k'" "t64 (os_time_of s us) \<le> t64 now"
    using Cons.prems(1) os_time_mono [OF Cons.prems(2) u', of s s'] Cons.prems(3)
    by (auto simp: r k'_def now_def split: if_splits)
  have eq: "t64 now = t64 (os_time_of s us) \<longleftrightarrow> (s', us') = (s, us)"
    using Cons.prems(1) os_time_mono [OF Cons.prems(2) u', of s s'] by (auto simp: r now_def split: if_splits)
  have adj: "time_adjust st1 = of_nat k'" "clock_seq st1 = clock_seq st"
    using prev(2) eq Cons.prems(7,8) by (auto simp: st1_def uuid_turn_def k'_def)
  have "time_adjust st \<noteq> MAX_TIME_ADJUST"
  proof
    assume "time_adjust st = MAX_TIME_ADJUST"
    then have "unat (of_nat k :: u16) = unat MAX_TIME_ADJUST" using Cons.prems(8) by simp
    then show False using k16(1) Cons.prems(3) by simp
  qed
  then have C: "Create_Uuid env st = Some (Some (make_uuid (stamped (time_adjust st1) now) (clock_seq st1) (saved_addr st)),
     st1\<lparr>time_last := now, time_now := stamped (time_adjust st1) now\<rparr>)"
    using Create_Uuid_turn [of st s' us' "map Some rs" env] Cons.prems(4-6) by (simp add: r st1_def now_def)
  let ?u = "make_uuid (stamped (time_adjust st1) now) (clock_seq st1) (saved_addr st)"
  let ?st = "st1\<lparr>time_last := now, time_now := stamped (time_adjust st1) now\<rparr>"
  have stamp: "uuid_stamp ?u = t64 now + k'"
  proof -
    have "t64 now + k' < 2 ^ 60"
      using os_time_t64(1) [OF u', of s'] unat_u32 [of s'] u' k' by (simp add: now_def)
    then show ?thesis by (simp add: make_uuid_stamp t64_stamped adj k16 add.commute)
  qed
  from Cons.IH [OF tl u' k', of ?st] obtain ids st' where
    I: "create_uuids env (length rs) ?st = Some (ids, st')" "length ids = length rs"
       "sorted_wrt (<) (map uuid_stamp ids)" "\<forall>u\<in>set ids. t64 now + k' < uuid_stamp u"
    using Cons.prems(4,5) adj by (auto simp: st1_def now_def)
  show ?case using C I stamp prev(1) Cons.prems(7)
    by (intro exI [of _ "?u # ids"] exI [of _ st']) (auto simp: sorted_wrt_map)
qed simp

section \<open>Properties\<close>

text \<open>C34: \<open>uuid__uemul\<close> is the exact 64 bit product of two 32 bit numbers, and the addition
  macro adds 64 bit numbers modulo 2 to the 64.\<close>

theorem uuid_arithmetic_exact:
  "unat (t_hi (uuid__uemul u v)) * 2 ^ 32 + unat (t_lo (uuid__uemul u v)) = unat u * unat v \<and>
   t64 (UADD_UVLW_2_UVLW a b) = (t64 a + t64 b) mod 2 ^ 64 \<and>
   t64 (UADD_UW_2_UVLW w b) = (unat w + t64 b) mod 2 ^ 64"
  using uemul_t64 [of u v] UADD_UVLW_t64 [of a b] UADD_UW_t64 [of w b] unfolding t64_def by simp

text \<open>C16: starting from an initialised generator, as long as the clock does not go back and no
  reading of it is seen more than ten times in a row (counting the one of the
  initialisation), every call returns and all identifiers made are different.\<close>

theorem created_uuids_distinct:
  assumes "ticks_ok 0 (s, us) rs" "unat us < 1000000"
    "uuid_init_done st" "got_address st" "gettimeofday st = map Some rs"
    "time_last st = os_time_of s us" "time_adjust st = 0"
  shows "\<exists>ids st'. create_uuids env (length rs) st = Some (ids, st') \<and> length ids = length rs \<and> distinct ids"
proof -
  obtain ids st' where i: "create_uuids env (length rs) st = Some (ids, st')" "length ids = length rs"
    "sorted_wrt (<) (map uuid_stamp ids)"
    using create_uuids_increasing [OF assms(1,2) _ assms(3-6), of env] assms(7) by auto
  have "distinct (map uuid_stamp ids)" using i(3) strict_sorted_imp_sorted strict_sorted_iff by blast
  then have "distinct ids" by (rule distinct_map [THEN iffD1, THEN conjunct1])
  with i show ?thesis by blast
qed

definition sample_uuid_state :: "u16 \<Rightarrow> (u32 \<times> u32) list \<Rightarrow> uuid_state" where
  "sample_uuid_state adj rs =
     \<lparr>saved_addr = [8, 0, 32, 1, 2, 3], time_now = \<lparr>t_lo = 0, t_hi = 0\<rparr>, time_last = os_time_of 800000000 5,
      time_adjust = adj, clock_seq = 77, rand_m = 1, rand_ia = 1, rand_ib = 1, rand_irand = 1,
      got_address = True, uuid_init_done = True, gettimeofday = map Some rs\<rparr>"

theorem created_uuids_distinct_witness:
  "\<exists>ids st'. create_uuids \<lparr>Uuid_Get_Macaddress = None, os_pid = 1, stack_time = \<lparr>t_lo = 0, t_hi = 0\<rparr>\<rparr> 3
      (sample_uuid_state 0 [(800000000, 5), (800000000, 5), (800000000, 6)]) = Some (ids, st') \<and>
    length ids = 3 \<and> distinct ids"
proof -
  let ?rs = "[(800000000, 5), (800000000, 5), (800000000, 6)] :: (u32 \<times> u32) list"
  have "ticks_ok 0 (800000000, 5) ?rs" by simp
  from created_uuids_distinct [OF this, of "sample_uuid_state 0 ?rs"] show ?thesis
    by (simp add: sample_uuid_state_def numeral_3_eq_3)
qed

text \<open>C35: an identifier has version 1 and the DCE variant bits, carries the low 60 bits of its
  time stamp and the low 14 bits of the clock sequence, and its text as \<open>Uuid_StringCreate\<close>
  writes it is accepted by \<open>Uuid_Valid\<close>.\<close>

theorem uuid_fields_and_text:
  fixes t :: uuid_time_t and seq :: u16
  assumes "length a = 6"
  defines "u \<equiv> make_uuid t seq a"
  shows "drop_bit 12 (time_hi_and_version u) = 1 \<and> clock_seq_hi_and_reserved u AND 0xC0 = 0x80 \<and>
     uuid_stamp u = t64 t mod 2 ^ 60 \<and> uuid_seq u = unat seq mod 2 ^ 14 \<and> node u = a \<and>
     Uuid_Valid (take (R64 - 1) (Udb_Radix64_Encode (uuid_network_bytes u)))"
proof -
  have "length (uuid_network_bytes u) = 16" using assms(1) by (simp add: uuid_network_bytes_def u_def make_uuid_def)
  then have "Uuid_Valid (take (R64 - 1) (Udb_Radix64_Encode (uuid_network_bytes u)))"
    using Radix64_decode_encode by (simp add: Uuid_Valid_def)
  then show ?thesis using make_uuid_version [of t seq a] make_uuid_stamp [of t seq a] make_uuid_seq [of t seq a]
    by (simp add: u_def make_uuid_def)
qed

theorem uuid_fields_and_text_witness:
  "Uuid_Valid (take (R64 - 1) (Udb_Radix64_Encode (uuid_network_bytes
     (make_uuid \<lparr>t_lo = 5, t_hi = 7\<rparr> 9 [8, 0, 32, 1, 2, 3]))))"
  using uuid_fields_and_text [of "[8, 0, 32, 1, 2, 3]" "\<lparr>t_lo = 5, t_hi = 7\<rparr>" 9] by simp

text \<open>C36: when the clock is found behind the last time used, the call returns an identifier whose
  clock sequence differs from the one in use before.\<close>

theorem clock_set_back_changes_sequence:
  assumes "uuid_init_done st" "got_address st" "gettimeofday st = Some (s, us) # rs"
    "t64 (os_time_of s us) < t64 (time_last st)"
  shows "\<exists>u st'. Create_Uuid env st = Some (Some u, st') \<and> uuid_seq u \<noteq> unat (clock_seq st) mod 2 ^ 14"
proof -
  define now where "now = os_time_of s us"
  define st' where "st' = uuid_turn now (st\<lparr>time_now := now, gettimeofday := rs\<rparr>)"
  have "clock_seq st' = clock_seq (new_clock_seq (st\<lparr>time_now := now, gettimeofday := rs\<rparr>))"
    using assms(4) by (simp add: st'_def uuid_turn_def now_def)
  then have "unat (clock_seq st') mod 2 ^ 14 \<noteq> unat (clock_seq st) mod 2 ^ 14"
    using new_clock_seq_differs [of "st\<lparr>time_now := now, gettimeofday := rs\<rparr>"] by simp
  then show ?thesis using Create_Uuid_turn [OF assms(1-3), of env] assms(4)
    by (simp add: make_uuid_seq st'_def now_def)
qed

theorem clock_set_back_changes_sequence_witness:
  "\<exists>u st'. Create_Uuid \<lparr>Uuid_Get_Macaddress = None, os_pid = 1, stack_time = \<lparr>t_lo = 0, t_hi = 0\<rparr>\<rparr>
     (sample_uuid_state 0 [(800000000, 4)]) = Some (Some u, st') \<and> uuid_seq u \<noteq> 77"
proof -
  have "t64 (os_time_of 800000000 4) < t64 (os_time_of 800000000 5)" by (simp add: os_time_t64)
  then show ?thesis
    using clock_set_back_changes_sequence [of "sample_uuid_state 0 [(800000000, 4)]" 800000000 4 "[]"]
    by (simp add: sample_uuid_state_def)
qed

text \<open>C40: eleven identifiers made on one reading of the clock collide with the first one made a
  microsecond later: the adjustment then reaches the next reading, and the identifier returned
  twice is the same.\<close>

theorem fast_creation_repeats_uuid:
  assumes "uuid_init_done st" "got_address st"
    "gettimeofday st = Some (s, us) # Some (s, us + 1) # rs" "unat us + 1 < 1000000"
    "time_last st = os_time_of s us" "time_adjust st = 9"
  shows "\<exists>u st1 st2. Create_Uuid env st = Some (Some u, st1) \<and> Create_Uuid env st1 = Some (Some u, st2)"
proof -
  let ?t = "os_time_of s us" and ?t' = "os_time_of s (us + 1)"
  have us: "unat (us + 1) = unat us + 1" using assms(4) unat_u32 [of us] by (simp add: unat_word_ariths)
  have t: "t64 ?t' = t64 ?t + 10" "t64 ?t' < 2 ^ 60"
    using assms(4) os_time_t64 [of us s] os_time_t64 [of "us + 1" s] by (simp_all add: us)
  have turn: "uuid_turn ?t (st\<lparr>time_now := ?t, gettimeofday := Some (s, us + 1) # rs\<rparr>) =
     st\<lparr>time_now := ?t, gettimeofday := Some (s, us + 1) # rs, time_adjust := 10\<rparr>"
    using assms(5,6) by (simp add: uuid_turn_def)
  define st1 where "st1 = st\<lparr>time_now := stamped 10 ?t, gettimeofday := Some (s, us + 1) # rs, time_adjust := 10, time_last := ?t\<rparr>"
  have 1: "Create_Uuid env st = Some (Some (make_uuid (stamped 10 ?t) (clock_seq st) (saved_addr st)), st1)"
    using Create_Uuid_turn [OF assms(1-3), of env] assms(5,6) unfolding turn by (simp add: st1_def)
  have turn': "uuid_turn ?t' (st1\<lparr>time_now := ?t', gettimeofday := rs\<rparr>) = st1\<lparr>time_now := ?t', gettimeofday := rs, time_adjust := 0\<rparr>"
    using t by (simp add: uuid_turn_def st1_def)
  have "Create_Uuid env st1 = Some (Some (make_uuid (stamped 0 ?t') (clock_seq st) (saved_addr st)),
     st1\<lparr>time_now := stamped 0 ?t', gettimeofday := rs, time_adjust := 0, time_last := ?t'\<rparr>)"
    using Create_Uuid_turn [of st1 s "us + 1" rs env] assms(1,2) t unfolding turn' by (simp add: st1_def)
  moreover have "stamped 0 ?t' = stamped 10 ?t"
    using t by (simp add: t64_stamped flip: t64_inj)
  ultimately show ?thesis using 1 by auto
qed

theorem fast_creation_repeats_uuid_witness:
  "\<exists>u st1 st2. Create_Uuid \<lparr>Uuid_Get_Macaddress = None, os_pid = 1, stack_time = \<lparr>t_lo = 0, t_hi = 0\<rparr>\<rparr>
       (sample_uuid_state 9 [(800000000, 5), (800000000, 6)]) = Some (Some u, st1) \<and>
     Create_Uuid \<lparr>Uuid_Get_Macaddress = None, os_pid = 1, stack_time = \<lparr>t_lo = 0, t_hi = 0\<rparr>\<rparr> st1 = Some (Some u, st2)"
  using fast_creation_repeats_uuid [of "sample_uuid_state 9 [(800000000, 5), (800000000, 6)]" 800000000 5 "[]"]
  by (simp add: sample_uuid_state_def)

text \<open>C39: once the adjustment is exhausted on a reading of the clock, \<open>Create_Uuid\<close> does not
  return, whatever the clock shows afterwards: the flag that keeps the loop going is never
  cleared.\<close>

theorem create_uuid_spins_forever:
  assumes "uuid_init_done st" "got_address st" "gettimeofday st = Some (s, us) # rs"
    "time_last st = os_time_of s us" "time_adjust st = MAX_TIME_ADJUST"
  shows "Create_Uuid env st = None"
proof -
  have "create_loop (Some (s, us) # rs) False st = None"
    using assms(4,5) by (simp add: Let_def time_cmp_t64 create_loop_stuck)
  then show ?thesis using assms(1-3) by (simp add: Create_Uuid_def Get_Uuid_Address_def)
qed

theorem create_uuid_spins_forever_witness:
  "Create_Uuid \<lparr>Uuid_Get_Macaddress = None, os_pid = 1, stack_time = \<lparr>t_lo = 0, t_hi = 0\<rparr>\<rparr>
     (sample_uuid_state MAX_TIME_ADJUST [(800000000, 5), (800000000, 6), (800000001, 0)]) = None"
  using create_uuid_spins_forever [of "sample_uuid_state MAX_TIME_ADJUST [(800000000, 5), (800000000, 6), (800000001, 0)]" 800000000 5]
  by (simp add: sample_uuid_state_def)

end
