(* ===== verification/Conn.thy ===== *)
theory Conn
  imports Prelude
begin

text \<open>
  Message transport between client and server: \<^verbatim>\<open>include/conn.h\<close>, \<^verbatim>\<open>libconn/conn.c\<close> and the
  scatter/gather I/O of \<^verbatim>\<open>libconn/conn_stream.c\<close>.

  A message is a 16 byte header, the data and, if a message integrity check is set up, a 16
  byte trailer; it moves through a window of up to three \<open>iovec\<close>s over non-blocking sockets.
  An \<open>iovec\<close> points into one of the three buffers.  A socket is the list of the outcomes of
  the coming \<open>recv\<close> and \<open>send\<close> calls and the bytes sent so far; a call with no outcome left
  would block.  The integrity check functions, which the authentication modules install, are
  an argument.  A failed \<open>assert\<close> is \<open>Panic\<close>, a write outside a buffer is \<open>Overrun\<close>.
\<close>

unbundle bit_operations_syntax

section \<open>Model\<close>

datatype conn_state_t = CONN_NEW | CONN_READING | CONN_IODONE | CONN_WRITING | CONN_EOF

datatype conn_error_t = ERR_CONN_OK | ERR_CONN_INVAL | ERR_CONN_SHORT | ERR_CONN_SIZE
  | ERR_CONN_READ | ERR_CONN_WRITE | ERR_CONN_MAGIC

datatype free_proc = TCL_STATIC | TCL_DYNAMIC | TCL_VOLATILE | Free_Proc

datatype region = R_Header | R_Data | R_Mic

record iovec =
  iov_reg :: region
  iov_base :: nat
  iov_len :: nat

abbreviation CONN_MAGIC :: u32 where "CONN_MAGIC \<equiv> 0x95110814"
abbreviation CONN_PKT_LEN :: nat where "CONN_PKT_LEN \<equiv> 0x1000"
abbreviation HDR_LEN :: nat where "HDR_LEN \<equiv> 16"
abbreviation MIC_LEN :: nat where "MIC_LEN \<equiv> 16"
abbreviation MAX_COPY_SIZE :: nat where "MAX_COPY_SIZE \<equiv> 4 * 1024 + 16"

text \<open>The connection with its message.  \<open>read_mic\<close> and \<open>write_mic\<close> say whether the
  \<open>update_mic\<close> pointers of the two directions are set; \<open>crypto\<close> stands for the two contexts
  the integrity check functions keep; \<open>conn_callback_set\<close> says whether \<open>conn_callback\<close> is.\<close>

record 'x conn_t =
  conn_state :: conn_state_t
  conn_errno :: conn_error_t
  conn_callback_set :: bool
  conn_lastio :: int
  conn_stream :: "nat option"
  iov :: "iovec list"
  nvec :: nat
  header_data :: "u8 list"
  header_offset :: nat
  auth_type :: u32
  maxlen :: u32
  msg_length :: u32
  msg_offset :: u32
  msg_data :: "u8 list option"
  msg_free :: free_proc
  trailer_offset :: nat
  trailer_mic :: "u8 list"
  read_mic :: bool
  read_mic_ok :: bool
  write_mic :: bool
  crypto :: 'x

text \<open>The function pointers of a connection: the integrity check functions (the second argument
  is \<open>reset\<close>) and the callback, which gets the previous state and also says whether it called
  \<open>Unameit_Conn_Terminate\<close>.\<close>

record 'x conn_ops =
  update_read_mic :: "'x conn_t \<Rightarrow> bool \<Rightarrow> 'x conn_t c_run"
  update_write_mic :: "'x conn_t \<Rightarrow> bool \<Rightarrow> 'x conn_t c_run"
  conn_callback :: "'x conn_t \<Rightarrow> conn_state_t \<Rightarrow> 'x conn_t \<times> bool"

definition mic_expected :: "'x conn_t \<Rightarrow> conn_state_t \<Rightarrow> bool" where
  "mic_expected c state \<longleftrightarrow> (state = CONN_READING \<and> read_mic c) \<or> (state = CONN_WRITING \<and> write_mic c)"

definition iov_init_trailer :: "'x conn_t \<Rightarrow> conn_state_t \<Rightarrow> 'x conn_t" where
  "iov_init_trailer c state =
     (let vec = (if header_offset c < HDR_LEN then 1 else 0);
          vec = (if msg_offset c < msg_length c then vec + 1 else vec)
      in if mic_expected c state
         then c\<lparr>trailer_offset := 0,
                iov := (iov c)[vec := \<lparr>iov_reg = R_Mic, iov_base = 0, iov_len = MIC_LEN\<rparr>],
                nvec := vec + 1\<rparr>
         else c\<lparr>nvec := vec\<rparr>)"

definition iov_init_data :: "'x conn_t \<Rightarrow> conn_state_t \<Rightarrow> 'x conn_t" where
  "iov_init_data c state =
     (let vec = (if header_offset c < HDR_LEN then 1 else 0 :: nat);
          c = c\<lparr>msg_offset := 0\<rparr>
      in if msg_length c > of_nat (CONN_PKT_LEN - HDR_LEN)
         then c\<lparr>iov := (iov c)[vec := \<lparr>iov_reg = R_Data, iov_base = 0, iov_len = CONN_PKT_LEN - HDR_LEN\<rparr>],
                nvec := vec + 1\<rparr>
         else iov_init_trailer
                (c\<lparr>iov := (iov c)[vec := \<lparr>iov_reg = R_Data, iov_base = 0, iov_len = unat (msg_length c)\<rparr>]\<rparr>)
                state)"

definition iov_init_header :: "'x conn_t \<Rightarrow> conn_state_t \<Rightarrow> 'x conn_t" where
  "iov_init_header c state =
     (let c = c\<lparr>header_offset := 0,
                iov := (iov c)[0 := \<lparr>iov_reg = R_Header, iov_base = 0, iov_len = HDR_LEN\<rparr>],
                nvec := 1\<rparr>
      in if state = CONN_WRITING then iov_init_data c state else c)"

text \<open>Big endian fields of the header: magic 0, auth_type 4, result 8, datalen 12.\<close>

definition ntoh_copy :: "u8 list \<Rightarrow> nat \<Rightarrow> u32" where
  "ntoh_copy buf p =
     (push_bit 24 (ucast (buf ! p)) OR push_bit 16 (ucast (buf ! (p + 1))) OR
      push_bit 8 (ucast (buf ! (p + 2))) OR ucast (buf ! (p + 3)))"

definition net_bytes :: "u32 \<Rightarrow> u8 list" where
  "net_bytes w = [ucast (drop_bit 24 w), ucast (drop_bit 16 w), ucast (drop_bit 8 w), ucast w]"

definition alloc_data :: "u8 list \<Rightarrow> 'x conn_t \<Rightarrow> 'x conn_t c_run" where
  "alloc_data heap c =
     (let magic = ntoh_copy (header_data c) 0
      in if magic \<noteq> CONN_MAGIC then Done (c\<lparr>conn_errno := ERR_CONN_MAGIC\<rparr>)
         else
           let datalen = ntoh_copy (header_data c) 12
           in if maxlen c \<noteq> 0 \<and> maxlen c < datalen then Done (c\<lparr>conn_errno := ERR_CONN_SIZE\<rparr>)
              else
                let size = unat (datalen + 1);
                    buf = take size heap @ replicate (size - length heap) 0
                in if unat datalen < size
                   then Done (c\<lparr>msg_length := datalen, auth_type := ntoh_copy (header_data c) 4,
                                msg_data := Some (buf[unat datalen := 0]), msg_free := TCL_DYNAMIC\<rparr>)
                   else Overrun)"

abbreviation iov0_advance :: "nat \<Rightarrow> 'x conn_t \<Rightarrow> 'x conn_t" where
  "iov0_advance nio c \<equiv>
     c\<lparr>iov := (iov c)[0 := (iov c ! 0)\<lparr>iov_base := iov_base (iov c ! 0) + nio,
                                     iov_len := iov_len (iov c ! 0) - nio\<rparr>]\<rparr>"

definition slide_trailer :: "nat \<Rightarrow> 'x conn_t \<Rightarrow> 'x conn_t c_run" where
  "slide_trailer nio c =
     (if nio = 0 \<or> nvec c = 0 then Done c
      else
        let tail = int MIC_LEN - int (trailer_offset c) - int nio
        in if tail > 0
           then Done (iov0_advance nio (c\<lparr>trailer_offset := trailer_offset c + nio\<rparr>))
           else if tail \<noteq> 0 then Panic
           else Done (c\<lparr>trailer_offset := MIC_LEN, nvec := 0\<rparr>))"

definition slide_data :: "nat \<Rightarrow> 'x conn_t \<Rightarrow> 'x conn_t c_run" where
  "slide_data nio c =
     (if nio = 0 then Done c
      else if msg_offset c < msg_length c
      then (let tail = sint (msg_length c - msg_offset c - of_nat nio)
            in if tail > 0
               then (let c = c\<lparr>msg_offset := msg_offset c + of_nat nio\<rparr>;
                         v = (iov c ! 0)\<lparr>iov_base := iov_base (iov c ! 0) + nio\<rparr>
                     in if tail > int CONN_PKT_LEN
                        then Done (c\<lparr>iov := (iov c)[0 := v\<lparr>iov_len := CONN_PKT_LEN\<rparr>]\<rparr>)
                        else Done (iov_init_trailer (c\<lparr>iov := (iov c)[0 := v\<lparr>iov_len := nat tail\<rparr>]\<rparr>) (conn_state c)))
               else slide_trailer (nat (- tail))
                      (iov_init_trailer (c\<lparr>msg_offset := msg_length c\<rparr>) (conn_state c)))
      else slide_trailer nio c)"

definition slide_window :: "u8 list \<Rightarrow> 'x conn_t \<Rightarrow> nat \<Rightarrow> 'x conn_t c_run" where
  "slide_window heap c nio =
     (if header_offset c < HDR_LEN
      then (let tail = int HDR_LEN - int (header_offset c) - int nio
            in if tail > 0
               then Done (iov0_advance nio (c\<lparr>header_offset := header_offset c + nio\<rparr>))
               else (let nio = nat (- tail); c = c\<lparr>header_offset := HDR_LEN\<rparr>
                     in c_bind (if conn_state c = CONN_READING
                                then if nvec c = 1 \<and> nio = 0 then alloc_data heap c else Panic
                                else Done c)
                          (\<lambda>c. slide_data nio (iov_init_data c (conn_state c)))))
      else slide_data nio c)"

definition newstate :: "'x conn_t \<Rightarrow> conn_state_t \<Rightarrow> 'x conn_t" where
  "newstate c state =
     (let c = c\<lparr>msg_data := None, msg_free := TCL_STATIC\<rparr>
      in if conn_errno c \<noteq> ERR_CONN_OK then c
         else
           let c = (if conn_state c \<noteq> CONN_IODONE \<and> (header_offset c \<noteq> 0 \<or> conn_state c \<noteq> state)
                    then c\<lparr>conn_errno := ERR_CONN_INVAL\<rparr> else c)
           in c\<lparr>conn_state := state, msg_length := 0, msg_offset := 0, header_offset := 0\<rparr>)"

subsection \<open>Scatter/gather I/O\<close>

datatype recv_item = Arrives "u8 list" | Recv_Blocks | Peer_Eof | Recv_Error
datatype send_item = Takes nat | Send_Blocks | Send_Error

record sock =
  sock_in :: "recv_item list"
  sock_room :: "send_item list"
  sock_out :: "u8 list"

text \<open>Outcome of one I/O call as \<open>Check_Io\<close> reports it: bytes moved, -2 for an operation that
  would block or was interrupted, -1 for any other error.\<close>

datatype io_result = Nio nat | Would_Block | Io_Error

definition recv_call :: "nat \<Rightarrow> sock \<Rightarrow> (u8 list option \<times> io_result) \<times> sock" where
  "recv_call len s =
     (case sock_in s of
        [] \<Rightarrow> ((None, Would_Block), s)
      | Recv_Blocks # q \<Rightarrow> ((None, Would_Block), s\<lparr>sock_in := q\<rparr>)
      | Peer_Eof # q \<Rightarrow> ((Some [], Nio 0), s)
      | Recv_Error # q \<Rightarrow> ((None, Io_Error), s\<lparr>sock_in := q\<rparr>)
      | Arrives b # q \<Rightarrow>
          if length b \<le> len then ((Some b, Nio (length b)), s\<lparr>sock_in := q\<rparr>)
          else ((Some (take len b), Nio len), s\<lparr>sock_in := Arrives (drop len b) # q\<rparr>))"

definition send_call :: "u8 list \<Rightarrow> sock \<Rightarrow> io_result \<times> sock" where
  "send_call bytes s =
     (case sock_room s of
        [] \<Rightarrow> (Would_Block, s)
      | Send_Blocks # q \<Rightarrow> (Would_Block, s\<lparr>sock_room := q\<rparr>)
      | Send_Error # q \<Rightarrow> (Io_Error, s\<lparr>sock_room := q\<rparr>)
      | Takes n # q \<Rightarrow>
          (Nio (min n (length bytes)), s\<lparr>sock_room := q, sock_out := sock_out s @ take n bytes\<rparr>))"

fun region_bytes :: "'x conn_t \<Rightarrow> region \<Rightarrow> u8 list" where
  "region_bytes c R_Header = header_data c"
| "region_bytes c R_Data = (case msg_data c of None \<Rightarrow> [] | Some d \<Rightarrow> d)"
| "region_bytes c R_Mic = trailer_mic c"

definition seg_bytes :: "'x conn_t \<Rightarrow> iovec \<Rightarrow> u8 list" where
  "seg_bytes c v = take (iov_len v) (drop (iov_base v) (region_bytes c (iov_reg v)))"

definition write_at :: "u8 list \<Rightarrow> nat \<Rightarrow> u8 list \<Rightarrow> u8 list" where
  "write_at buf p b = take p buf @ b @ drop (p + length b) buf"

fun store_bytes :: "region \<Rightarrow> nat \<Rightarrow> u8 list \<Rightarrow> 'x conn_t \<Rightarrow> 'x conn_t" where
  "store_bytes R_Header p b c = c\<lparr>header_data := write_at (header_data c) p b\<rparr>"
| "store_bytes R_Data p b c = c\<lparr>msg_data := map_option (\<lambda>d. write_at d p b) (msg_data c)\<rparr>"
| "store_bytes R_Mic p b c = c\<lparr>trailer_mic := write_at (trailer_mic c) p b\<rparr>"

fun readv_loop :: "iovec list \<Rightarrow> nat \<Rightarrow> 'x conn_t \<Rightarrow> sock \<Rightarrow> io_result \<times> 'x conn_t \<times> sock" where
  "readv_loop [] tot c s = (Nio tot, c, s)"
| "readv_loop (v # vs) tot c s =
     (case recv_call (iov_len v) s of
        ((Some b, r), s) \<Rightarrow>
          (let c = store_bytes (iov_reg v) (iov_base v) b c
           in if length b \<noteq> iov_len v then (Nio (tot + length b), c, s)
              else readv_loop vs (tot + length b) c s)
      | ((None, r), s) \<Rightarrow> (if tot \<noteq> 0 then Nio tot else r, c, s))"

definition Unameit_Stream_Readv :: "'x conn_t \<Rightarrow> sock \<Rightarrow> (io_result \<times> 'x conn_t \<times> sock) c_run" where
  "Unameit_Stream_Readv c s =
     (if nvec c < 1 then Panic
      else if nvec c = 1
      then (case recv_call (iov_len (iov c ! 0)) s of
              ((Some b, r), s) \<Rightarrow> Done (r, store_bytes (iov_reg (iov c ! 0)) (iov_base (iov c ! 0)) b c, s)
            | ((None, r), s) \<Rightarrow> Done (r, c, s))
      else Done (readv_loop (take (nvec c) (iov c)) 0 c s))"

text \<open>The copy loop of \<open>Unameit_Stream_Writev\<close>: segments are appended to the buffer until it
  is full.\<close>

fun writev_copy :: "'x conn_t \<Rightarrow> iovec list \<Rightarrow> nat \<Rightarrow> u8 list" where
  "writev_copy c [] tot = []"
| "writev_copy c (v # vs) tot =
     (if tot < MAX_COPY_SIZE
      then (let ncopy = (if iov_len v < MAX_COPY_SIZE - tot then iov_len v else MAX_COPY_SIZE - tot)
            in take ncopy (seg_bytes c v) @ writev_copy c vs (tot + ncopy))
      else [])"

definition Unameit_Stream_Writev :: "'x conn_t \<Rightarrow> sock \<Rightarrow> (io_result \<times> sock) c_run" where
  "Unameit_Stream_Writev c s =
     (if nvec c < 1 then Panic
      else if nvec c = 1 \<or> iov_len (iov c ! 0) > MAX_COPY_SIZE
      then Done (send_call (seg_bytes c (iov c ! 0)) s)
      else Done (send_call (writev_copy c (take (nvec c) (iov c)) 0) s))"

subsection \<open>Progress of a connection\<close>

text \<open>One pass of the loop of \<open>Unameit_Conn_Progress\<close>: whether the function returned, and the
  new state.  \<open>heap\<close> is the content of the memory \<open>ckalloc\<close> hands out.\<close>

definition write_step :: "'x conn_ops \<Rightarrow> u8 list \<Rightarrow> 'x conn_t \<Rightarrow> sock \<Rightarrow> (bool \<times> 'x conn_t \<times> sock) c_run" where
  "write_step ops heap c s =
     c_bind (if write_mic c then update_write_mic ops c False else Done c) (\<lambda>c.
     c_bind (Unameit_Stream_Writev c s) (\<lambda>(r, s).
       case r of
         Would_Block \<Rightarrow> Done (True, c, s)
       | Io_Error \<Rightarrow> Done (True, c\<lparr>conn_errno := ERR_CONN_WRITE\<rparr>, s)
       | Nio n \<Rightarrow>
           if n = 0 then Done (True, c, s)
           else c_bind (slide_window heap c n) (\<lambda>c. Done (False, c, s))))"

definition read_arrived :: "'x conn_ops \<Rightarrow> u8 list \<Rightarrow> nat \<Rightarrow> 'x conn_t \<Rightarrow> sock \<Rightarrow> (bool \<times> 'x conn_t \<times> sock) c_run" where
  "read_arrived ops heap nio c s =
     c_bind (slide_window heap c nio) (\<lambda>c.
       if header_offset c < HDR_LEN then Done (True, c, s)
       else c_bind (if read_mic c then update_read_mic ops c False else Done c)
              (\<lambda>c. Done (False, c, s)))"

definition read_step :: "'x conn_ops \<Rightarrow> u8 list \<Rightarrow> 'x conn_t \<Rightarrow> sock \<Rightarrow> (bool \<times> 'x conn_t \<times> sock) c_run" where
  "read_step ops heap c s =
     c_bind (Unameit_Stream_Readv c s) (\<lambda>(r, c, s).
       case r of
         Would_Block \<Rightarrow> Done (True, c, s)
       | Io_Error \<Rightarrow> Done (True, c\<lparr>conn_errno := ERR_CONN_READ\<rparr>, s)
       | Nio n \<Rightarrow>
           if n = 0
           then if header_offset c = 0 then Done (True, c\<lparr>conn_state := CONN_EOF\<rparr>, s)
                else if header_offset c < HDR_LEN \<or> msg_offset c < msg_length c \<or> trailer_offset c > 0
                then Done (True, c\<lparr>conn_errno := ERR_CONN_SHORT\<rparr>, s)
                else read_arrived ops heap MIC_LEN (c\<lparr>trailer_mic := replicate MIC_LEN 0\<rparr>) s
           else read_arrived ops heap n c s)"

function progress_loop :: "'x conn_ops \<Rightarrow> u8 list \<Rightarrow> nat \<Rightarrow> 'x conn_t \<Rightarrow> sock \<Rightarrow> (bool \<times> 'x conn_t \<times> sock) c_run" where
  "progress_loop ops heap packets c s =
     (if nvec c = 0 then Done (False, c, s)
      else c_bind (if conn_state c = CONN_WRITING then write_step ops heap c s else read_step ops heap c s)
        (\<lambda>(ret, c, s).
           if ret then Done (True, c, s)
           else if packets + 1 > 16 then Done (False, c, s)
           else progress_loop ops heap (packets + 1) c s))"
  by pat_completeness auto
termination
  by (relation "measure (\<lambda>(ops, heap, packets, c, s). 17 - packets)") auto

declare progress_loop.simps [simp del]

text \<open>\<open>Unameit_Conn_Progress\<close> up to the callback, with the answer whether the message is
  complete, and the whole function.\<close>

definition progress_io :: "'x conn_ops \<Rightarrow> u8 list \<Rightarrow> 'x conn_t \<Rightarrow> sock \<Rightarrow> (bool \<times> 'x conn_t \<times> sock) c_run" where
  "progress_io ops heap c s =
     (if conn_errno c \<noteq> ERR_CONN_OK then Done (False, c, s)
      else if \<not> conn_callback_set c \<or> (conn_state c \<noteq> CONN_WRITING \<and> conn_state c \<noteq> CONN_READING)
      then Done (False, c\<lparr>conn_errno := ERR_CONN_INVAL\<rparr>, s)
      else c_bind (progress_loop ops heap 0 c s) (\<lambda>(ret, c, s). Done (\<not> ret \<and> nvec c = 0, c, s)))"

definition Unameit_Conn_Progress :: "'x conn_ops \<Rightarrow> u8 list \<Rightarrow> 'x conn_t \<Rightarrow> sock \<Rightarrow> ('x conn_t \<times> sock \<times> bool) c_run" where
  "Unameit_Conn_Progress ops heap c s =
     c_bind (progress_io ops heap c s) (\<lambda>(complete, c, s).
       if \<not> complete then Done (c, s, False)
       else
         let prev_state = conn_state c;
             c = (if prev_state = CONN_READING \<and> \<not> read_mic c then c\<lparr>read_mic_ok := True\<rparr> else c);
             (c, term) = conn_callback ops (c\<lparr>conn_state := CONN_IODONE\<rparr>) prev_state
         in Done (c, s, term))"

subsection \<open>Messages\<close>

definition conn_zero :: "'x \<Rightarrow> 'x conn_t" where
  "conn_zero x =
     \<lparr>conn_state = CONN_NEW, conn_errno = ERR_CONN_OK, conn_callback_set = False, conn_lastio = 0,
      conn_stream = None, iov = replicate 3 \<lparr>iov_reg = R_Header, iov_base = 0, iov_len = 0\<rparr>, nvec = 0,
      header_data = replicate HDR_LEN 0, header_offset = 0, auth_type = 0, maxlen = 0,
      msg_length = 0, msg_offset = 0, msg_data = None, msg_free = TCL_STATIC, trailer_offset = 0,
      trailer_mic = replicate MIC_LEN 0, read_mic = False, read_mic_ok = False, write_mic = False, crypto = x\<rparr>"

definition Unameit_Conn_Connect :: "'x \<Rightarrow> nat option \<Rightarrow> 'x conn_t option" where
  "Unameit_Conn_Connect x stream =
     (case stream of
        None \<Rightarrow> None
      | Some fd \<Rightarrow> Some ((conn_zero x)\<lparr>conn_state := CONN_IODONE, conn_stream := Some fd, conn_errno := ERR_CONN_OK,
          conn_callback_set := False\<rparr>))"

text \<open>\<open>lenP\<close> says whether the caller passed a length pointer; the result is the data pointer
  with the length and the result code, \<open>None\<close> for \<open>NULL\<close> with nothing stored.\<close>

definition Unameit_Conn_Read :: "bool \<Rightarrow> 'x conn_t \<Rightarrow> (u8 list option \<times> u32 \<times> u32) option \<times> 'x conn_t" where
  "Unameit_Conn_Read lenP c =
     (if conn_errno c \<noteq> ERR_CONN_OK then (None, c)
      else if \<not> lenP then (None, c\<lparr>conn_errno := ERR_CONN_INVAL\<rparr>)
      else (Some (msg_data c, msg_length c, ntoh_copy (header_data c) 8),
            newstate (c\<lparr>msg_data := None, msg_free := TCL_STATIC\<rparr>) CONN_IODONE))"

definition Unameit_Conn_Write ::
  "'x conn_ops \<Rightarrow> 'x conn_t \<Rightarrow> u8 list \<Rightarrow> u32 \<Rightarrow> u32 \<Rightarrow> u32 \<Rightarrow> free_proc \<Rightarrow> 'x conn_t c_run" where
  "Unameit_Conn_Write ops c data len atype result free_proc =
     (let c = newstate c CONN_WRITING;
          (data, free_proc) = (if free_proc = TCL_VOLATILE then (take (unat len) data, TCL_DYNAMIC) else (data, free_proc));
          c = c\<lparr>msg_data := Some data, msg_free := free_proc\<rparr>
      in if conn_errno c \<noteq> ERR_CONN_OK then Done c
         else
           let c = iov_init_header
                     (c\<lparr>msg_length := len,
                        header_data := net_bytes CONN_MAGIC @ net_bytes atype @ net_bytes result @ net_bytes len\<rparr>)
                     CONN_WRITING
           in if write_mic c then update_write_mic ops c True else Done c)"

definition Unameit_Conn_Poll :: "'x conn_ops \<Rightarrow> 'x conn_t \<Rightarrow> 'x conn_t c_run" where
  "Unameit_Conn_Poll ops c =
     (if conn_errno c \<noteq> ERR_CONN_OK then Done c
      else
        let c = newstate c CONN_READING
        in if conn_errno c \<noteq> ERR_CONN_OK then Done c
           else
             let c = iov_init_header c CONN_READING
             in if read_mic c then update_read_mic ops c True else Done c)"

subsection \<open>The server loop\<close>

text \<open>A connection of the server with its socket and its membership in the descriptor sets of the
  last \<open>select\<close>.  The list of the server's connections is \<open>connQueue\<close> from the head on;
  \<open>srv_closed\<close> records the descriptors that were closed.\<close>

record 'x srv_conn =
  sc_conn :: "'x conn_t"
  sc_sock :: sock
  sc_write :: bool
  sc_read :: bool

record 'x server =
  connQueue :: "'x srv_conn list"
  srv_closed :: "nat option list"
  conn_terminate_flag :: bool

definition Unameit_Conn_Terminate :: "'x server \<Rightarrow> 'x server" where
  "Unameit_Conn_Terminate sv = sv\<lparr>conn_terminate_flag := True\<rparr>"

text \<open>Tearing down a connection: the data is freed and the stream closed; the connection leaves
  the queue it is on.\<close>

definition Unameit_Conn_Reap :: "'x conn_t \<Rightarrow> 'x conn_t \<times> nat option list" where
  "Unameit_Conn_Reap c =
     (let c = newstate c CONN_IODONE
      in (c\<lparr>conn_stream := None\<rparr>, if conn_stream c \<noteq> None then [conn_stream c] else []))"

definition server_accept :: "'x conn_ops \<Rightarrow> 'x \<Rightarrow> (nat \<times> sock) option \<Rightarrow> int \<Rightarrow> 'x server \<Rightarrow> 'x server" where
  "server_accept ops x acc now sv =
     (case acc of
        None \<Rightarrow> sv
      | Some (fd, sk) \<Rightarrow>
          let c = (conn_zero x)\<lparr>conn_state := CONN_IODONE, conn_stream := Some fd, conn_callback_set := True, conn_lastio := now\<rparr>;
              (c, term) = conn_callback ops c CONN_NEW;
              sv = sv\<lparr>connQueue := \<lparr>sc_conn = c, sc_sock = sk, sc_write = False, sc_read = False\<rparr> # connQueue sv\<rparr>
          in if term then Unameit_Conn_Terminate sv else sv)"

text \<open>The connection that is left (none if it was reaped), the descriptors closed, and whether the
  callback called \<open>Unameit_Conn_Terminate\<close>.\<close>

definition server_progress :: "'x conn_ops \<Rightarrow> u8 list \<Rightarrow> 'x srv_conn \<Rightarrow> ('x srv_conn list \<times> nat option list \<times> bool) c_run" where
  "server_progress ops heap e =
     c_bind (Unameit_Conn_Progress ops heap (sc_conn e) (sc_sock e)) (\<lambda>(c, s, term).
       if conn_errno c \<noteq> ERR_CONN_OK \<or> conn_state c = CONN_EOF
       then Done ([], snd (Unameit_Conn_Reap c), term)
       else Done ([e\<lparr>sc_conn := c, sc_sock := s\<rparr>], [], term))"

text \<open>The scan before \<open>select\<close>: idle and finished connections are reaped, the others enter the
  set that fits their state.\<close>

fun scan_queue :: "int \<Rightarrow> int \<Rightarrow> 'x srv_conn list \<Rightarrow> 'x srv_conn list \<times> nat option list" where
  "scan_queue timeout now [] = ([], [])"
| "scan_queue timeout now (e # es) =
     (let (q, closed) = scan_queue timeout now es; c = sc_conn e
      in if timeout > 0 \<and> now - conn_lastio c > timeout then (q, snd (Unameit_Conn_Reap c) @ closed)
         else case conn_state c of
           CONN_WRITING \<Rightarrow> (e\<lparr>sc_write := True, sc_read := False\<rparr> # q, closed)
         | CONN_READING \<Rightarrow> (e\<lparr>sc_write := False, sc_read := True\<rparr> # q, closed)
         | _ \<Rightarrow> (q, snd (Unameit_Conn_Reap c) @ closed))"

text \<open>The two passes over the queue after \<open>select\<close>: \<open>wr\<close> selects the set, \<open>chk\<close> says whether
  the pass also stops when termination is requested.\<close>

fun serve_queue :: "'x conn_ops \<Rightarrow> u8 list \<Rightarrow> int \<Rightarrow> bool \<Rightarrow> nat \<Rightarrow> bool \<Rightarrow> 'x srv_conn list \<Rightarrow>
    ('x srv_conn list \<times> nat option list \<times> nat \<times> bool) c_run" where
  "serve_queue ops heap now wr nready flag [] = Done ([], [], nready, flag)"
| "serve_queue ops heap now wr nready flag (e # es) =
     (if nready = 0 \<or> (\<not> wr \<and> flag) then Done (e # es, [], nready, flag)
      else if (if wr then sc_write e else sc_read e)
      then c_bind (server_progress ops heap (e\<lparr>sc_conn := (sc_conn e)\<lparr>conn_lastio := now\<rparr>\<rparr>)) (\<lambda>(q, cl, term).
           c_bind (serve_queue ops heap now wr (nready - 1) (flag \<or> term) es) (\<lambda>(q', cl', n, f).
             Done (q @ q', cl @ cl', n, f)))
      else c_bind (serve_queue ops heap now wr nready flag es) (\<lambda>(q', cl', n, f). Done (e # q', cl', n, f)))"

text \<open>What one \<open>select\<close> reports: interrupted, failed, timed out, or whether the listening socket is
  ready (with the outcome of \<open>accept\<close>) and, in queue order, which connections are.\<close>

datatype select_result = Sel_Intr | Sel_Fail | Sel_Timeout | Sel_Ready bool "(nat \<times> sock) option" "bool list"

definition ready_sets :: "bool list \<Rightarrow> 'x srv_conn list \<Rightarrow> 'x srv_conn list" where
  "ready_sets rs q = map2 (\<lambda>r e. e\<lparr>sc_write := sc_write e \<and> r, sc_read := sc_read e \<and> r\<rparr>)
     (rs @ replicate (length q) False) q"

definition server_pass :: "'x conn_ops \<Rightarrow> u8 list \<Rightarrow> 'x \<Rightarrow> int \<Rightarrow> int \<Rightarrow> select_result \<Rightarrow> 'x server \<Rightarrow> 'x server c_run" where
  "server_pass ops heap x timeout now sel sv =
     (let (q, closed) = scan_queue timeout now (connQueue sv);
          sv = sv\<lparr>connQueue := q, srv_closed := srv_closed sv @ closed\<rparr>
      in case sel of
           Sel_Intr \<Rightarrow> Done sv
         | Sel_Fail \<Rightarrow> Done (Unameit_Conn_Terminate sv)
         | Sel_Timeout \<Rightarrow> Done (Unameit_Conn_Terminate sv)
         | Sel_Ready lst acc rs \<Rightarrow>
             let q = ready_sets rs q;
                 nready = length (filter (\<lambda>e. sc_write e \<or> sc_read e) q) + (if lst then 1 else 0);
                 sv = sv\<lparr>connQueue := q\<rparr>;
                 (sv, nready) = (if lst then (server_accept ops x acc now sv, nready - 1) else (sv, nready))
             in c_bind (serve_queue ops heap now True nready (conn_terminate_flag sv) (connQueue sv)) (\<lambda>(q, cl, nready, flag).
                c_bind (serve_queue ops heap now False nready flag q) (\<lambda>(q, cl', nready, flag).
                  Done \<lparr>connQueue = q, srv_closed = srv_closed sv @ cl @ cl', conn_terminate_flag = flag\<rparr>)))"

fun server_loop :: "'x conn_ops \<Rightarrow> u8 list \<Rightarrow> 'x \<Rightarrow> int \<Rightarrow> (int \<times> select_result) list \<Rightarrow> 'x server \<Rightarrow> 'x server c_run" where
  "server_loop ops heap x timeout [] sv = Done sv"
| "server_loop ops heap x timeout ((now, sel) # evs) sv =
     (if conn_terminate_flag sv then Done sv
      else c_bind (server_pass ops heap x timeout now sel sv) (server_loop ops heap x timeout evs))"

text \<open>\<open>Unameit_Conn_Loop\<close> on a finite sequence of \<open>select\<close> outcomes: the loop and, once
  termination was requested, the teardown of the connections left.\<close>

definition Unameit_Conn_Loop :: "'x conn_ops \<Rightarrow> u8 list \<Rightarrow> 'x \<Rightarrow> int \<Rightarrow> (int \<times> select_result) list \<Rightarrow> 'x server c_run" where
  "Unameit_Conn_Loop ops heap x hours evs =
     c_bind (server_loop ops heap x (if hours > 0 then int32 (hours * 3600) else 0) evs
               \<lparr>connQueue = [], srv_closed = [], conn_terminate_flag = False\<rparr>) (\<lambda>sv.
       if conn_terminate_flag sv
       then Done (sv\<lparr>connQueue := [],
                     srv_closed := srv_closed sv @ concat (map (\<lambda>e. snd (Unameit_Conn_Reap (sc_conn e))) (connQueue sv))\<rparr>)
       else Done sv)"

end
