(* ===== verification/ConnSend.thy ===== *)
theory ConnSend
  imports Conn
begin

text \<open>
  The sending side of a connection.  \<open>transfer_wf\<close> describes the window of segments of a
  transfer at any position of its message; \<open>slide_window\<close> keeps it and never fails an
  assertion.  The contract of the integrity check is the locale \<open>write_mic_contract\<close>; inside it,
  whatever the socket accepts, the bytes sent are those of the message up to the position.
\<close>

unbundle bit_operations_syntax

abbreviation seg :: "region \<Rightarrow> nat \<Rightarrow> nat \<Rightarrow> iovec" where
  "seg r p n \<equiv> \<lparr>iov_reg = r, iov_base = p, iov_len = n\<rparr>"

abbreviation c_len :: "'x conn_t \<Rightarrow> nat" where "c_len c \<equiv> unat (msg_length c)"
abbreviation c_off :: "'x conn_t \<Rightarrow> nat" where "c_off c \<equiv> unat (msg_offset c)"
abbreviation c_mic :: "'x conn_t \<Rightarrow> bool" where "c_mic c \<equiv> mic_expected c (conn_state c)"

text \<open>The position of a transfer in its message, and the window of segments that goes with it
  when the data segment has length \<open>w\<close>.\<close>

definition msg_pos :: "'x conn_t \<Rightarrow> nat" where
  "msg_pos c = header_offset c + c_off c
     + (if c_mic c \<and> header_offset c = HDR_LEN \<and> c_off c = c_len c then trailer_offset c else 0)"

definition msg_total :: "'x conn_t \<Rightarrow> nat" where
  "msg_total c = HDR_LEN + c_len c + (if c_mic c then MIC_LEN else 0)"

definition data_window :: "'x conn_t \<Rightarrow> nat \<Rightarrow> iovec list" where
  "data_window c w =
     (if c_off c < c_len c then [seg R_Data (c_off c) w] else []) @
     (if c_mic c \<and> c_off c + w = c_len c \<and> trailer_offset c < MIC_LEN
      then [seg R_Mic (trailer_offset c) (MIC_LEN - trailer_offset c)] else [])"

definition window :: "'x conn_t \<Rightarrow> nat \<Rightarrow> iovec list" where
  "window c w =
     (if header_offset c < HDR_LEN then [seg R_Header (header_offset c) (HDR_LEN - header_offset c)] else []) @
     (if header_offset c < HDR_LEN \<and> conn_state c = CONN_READING then [] else data_window c w)"

text \<open>The invariant of a transfer in progress.\<close>

definition transfer_wf :: "'x conn_t \<Rightarrow> nat \<Rightarrow> bool" where
  "transfer_wf c w \<longleftrightarrow>
     (conn_state c = CONN_WRITING \<or> conn_state c = CONN_READING) \<and>
     length (iov c) = 3 \<and> nvec c \<le> 3 \<and> take (nvec c) (iov c) = window c w \<and>
     c_len c < 2 ^ 31 \<and> c_off c + w \<le> c_len c \<and>
     header_offset c \<le> HDR_LEN \<and> trailer_offset c \<le> MIC_LEN \<and>
     w \<le> CONN_PKT_LEN \<and> (c_off c < c_len c \<longrightarrow> 0 < w) \<and>
     (header_offset c < HDR_LEN \<longrightarrow> c_off c = 0 \<and> w \<le> CONN_PKT_LEN - HDR_LEN \<and>
        (if conn_state c = CONN_READING then c_len c = 0 else w = min (c_len c) (CONN_PKT_LEN - HDR_LEN))) \<and>
     (c_mic c \<and> c_off c + w = c_len c \<and> (c_off c < c_len c \<or> header_offset c < HDR_LEN \<and> conn_state c = CONN_WRITING)
        \<longrightarrow> trailer_offset c = 0)"

text \<open>What \<open>slide_window\<close> may change.\<close>

definition same_msg :: "'x conn_t \<Rightarrow> 'x conn_t \<Rightarrow> bool" where
  "same_msg c c' \<longleftrightarrow>
     c' = c\<lparr>iov := iov c', nvec := nvec c', header_offset := header_offset c',
            msg_offset := msg_offset c', trailer_offset := trailer_offset c'\<rparr>"

lemma same_msg_refl [simp]: "same_msg c c"
  by (simp add: same_msg_def)

lemma same_msg_trans: "same_msg a b \<Longrightarrow> same_msg b c \<Longrightarrow> same_msg a c"
  unfolding same_msg_def
  by (cases a, cases b, cases c) simp

lemma sint_small: "\<bar>x\<bar> < 2 ^ 31 \<Longrightarrow> sint (of_int x :: u32) = x"
  by (simp add: signed_take_bit_int_eq_self abs_less_iff sint_sbintrunc')

lemma data_tail:
  assumes "unat (l :: u32) < 2 ^ 31" "unat o' \<le> unat l" "n < 2 ^ 31"
  shows "sint (l - o' - of_nat n) = int (unat l) - int (unat o') - int n"
proof -
  have "l - o' - of_nat n = of_int (int (unat l) - int (unat o') - int n)"
    by (simp add: uint_nat [symmetric])
  moreover have "\<bar>int (unat l) - int (unat o') - int n\<bar> < 2 ^ 31" using assms by (auto simp del: of_nat_unat)
  ultimately show ?thesis by (simp only: sint_small)
qed

lemma unat_add_of_nat: "unat (a :: u32) + n < 2 ^ 32 \<Longrightarrow> unat (a + of_nat n) = unat a + n"
  by (simp add: unat_word_ariths unat_of_nat)

lemma take_single: "take n xs = [x] \<Longrightarrow> n \<le> m \<Longrightarrow> length xs = m \<Longrightarrow> n = 1"
  using length_take [of n xs] by simp

lemma transfer_wf_iov: "transfer_wf c w \<Longrightarrow> nvec c \<le> 3 \<and> length (iov c) = 3 \<and> take (nvec c) (iov c) = window c w"
  by (simp add: transfer_wf_def)

lemma slide_trailer_wf:
  assumes wf: "transfer_wf c 0" and h: "header_offset c = HDR_LEN" "c_off c = c_len c"
    and n: "n \<le> (if c_mic c then MIC_LEN - trailer_offset c else 0)"
  shows "\<exists>c'. slide_trailer n c = Done c' \<and> transfer_wf c' 0 \<and> msg_pos c' = msg_pos c + n \<and> same_msg c c'"
proof (cases "n = 0 \<or> nvec c = 0")
  case True
  then have "n = 0" using wf h n
    by (auto simp: transfer_wf_def window_def data_window_def split: if_splits)
  then show ?thesis using wf by (simp add: slide_trailer_def)
next
  case False
  have m: "c_mic c" "trailer_offset c < MIC_LEN" using False n by (auto split: if_splits)
  have "take (nvec c) (iov c) = [seg R_Mic (trailer_offset c) (MIC_LEN - trailer_offset c)]"
    using wf h m by (simp add: transfer_wf_def window_def data_window_def)
  moreover have "length (iov c) = 3" "nvec c \<le> 3" using wf by (auto simp: transfer_wf_def)
  ultimately have nv: "nvec c = 1" and i0: "iov c ! 0 = seg R_Mic (trailer_offset c) (MIC_LEN - trailer_offset c)"
    by (auto simp: length_Suc_conv take_Suc_conv_app_nth numeral_3_eq_3 le_Suc_eq)
  have L: "length (iov c) = 3" using wf by (simp add: transfer_wf_def)
  show ?thesis
  proof (cases "trailer_offset c + n < MIC_LEN")
    case True
    then show ?thesis
      using False wf h m nv i0 L
      by (auto simp: slide_trailer_def transfer_wf_def window_def data_window_def msg_pos_def same_msg_def
          mic_expected_def take_Suc_conv_app_nth)
  next
    case False2: False
    then have "trailer_offset c + n = MIC_LEN" using n m by simp
    then show ?thesis
      using False wf h m nv i0 L
      by (auto simp: slide_trailer_def transfer_wf_def window_def data_window_def msg_pos_def same_msg_def
          mic_expected_def)
  qed
qed


definition window_len :: "'x conn_t \<Rightarrow> nat" where
  "window_len c = sum_list (map iov_len (take (nvec c) (iov c)))"

lemma finish_data_wf:
  assumes wf: "transfer_wf c w" and h: "header_offset c = HDR_LEN" "c_off c < c_len c"
  defines "c' \<equiv> iov_init_trailer (c\<lparr>msg_offset := msg_length c\<rparr>) (conn_state c)"
  shows "transfer_wf c' 0 \<and> header_offset c' = HDR_LEN \<and> c_off c' = c_len c' \<and> same_msg c c' \<and>
    (c_mic c \<longrightarrow> trailer_offset c' = 0) \<and> (c_mic c' = c_mic c) \<and> msg_pos c' = HDR_LEN + c_len c"
proof -
  have L: "length (iov c) = 3" using wf by (simp add: transfer_wf_def)
  then obtain a b d where "iov c = [a, b, d]" by (auto simp: numeral_3_eq_3 length_Suc_conv)
  then show ?thesis using wf h
    by (auto simp: c'_def iov_init_trailer_def transfer_wf_def window_def data_window_def same_msg_def
        mic_expected_def msg_pos_def word_less_nat_alt)
qed

lemma transfer_data_window:
  assumes wf: "transfer_wf c w" and h: "header_offset c = HDR_LEN" "c_off c < c_len c"
  shows "iov c ! 0 = seg R_Data (c_off c) w"
    "window_len c = w + (if c_mic c \<and> c_off c + w = c_len c then MIC_LEN else 0)"
    "\<exists>b d. iov c = [seg R_Data (c_off c) w, b, d]"
proof -
  obtain a b d where abd: "iov c = [a, b, d]" using wf by (auto simp: transfer_wf_def numeral_3_eq_3 length_Suc_conv)
  have t: "take (nvec c) (iov c) = seg R_Data (c_off c) w #
      (if c_mic c \<and> c_off c + w = c_len c then [seg R_Mic 0 MIC_LEN] else [])"
    using wf h by (auto simp: transfer_wf_def window_def data_window_def)
  then have nv: "nvec c \<noteq> 0" by (cases "nvec c = 0") (auto split: if_splits)
  then show *: "iov c ! 0 = seg R_Data (c_off c) w" using t abd by (cases "nvec c") auto
  show "window_len c = w + (if c_mic c \<and> c_off c + w = c_len c then MIC_LEN else 0)"
    by (simp add: window_len_def t)
  show "\<exists>b d. iov c = [seg R_Data (c_off c) w, b, d]" using * abd by simp
qed

lemma slide_data_wf:
  assumes wf: "transfer_wf c w" and h: "header_offset c = HDR_LEN" and n: "n \<le> window_len c"
  shows "\<exists>c' w'. slide_data n c = Done c' \<and> transfer_wf c' w' \<and> msg_pos c' = msg_pos c + n \<and> same_msg c c'"
proof (cases "n = 0")
  case True
  then show ?thesis using wf by (auto simp: slide_data_def)
next
  case n0: False
  show ?thesis
  proof (cases "c_off c < c_len c")
    case False
    then have off: "c_off c = c_len c" "w = 0" using wf by (auto simp: transfer_wf_def)
    have nn: "n \<le> (if c_mic c then MIC_LEN - trailer_offset c else 0)"
      using n wf h off by (auto simp: transfer_wf_def window_len_def window_def data_window_def split: if_splits)
    have "slide_data n c = slide_trailer n c" using n0 False by (simp add: slide_data_def word_less_nat_alt)
    then show ?thesis using slide_trailer_wf [of c n] wf h off nn by auto
  next
    case lt: True
    note W = transfer_data_window [OF wf h lt]
    have wb: "w \<le> CONN_PKT_LEN" "c_len c < 2 ^ 31" "c_off c + w \<le> c_len c" using wf by (auto simp: transfer_wf_def)
    have nb: "n \<le> w + MIC_LEN" using n W(2) by (simp split: if_splits)
    then have tl: "sint (msg_length c - msg_offset c - of_nat n) = int (c_len c) - int (c_off c) - int n"
      using wb lt by (intro data_tail) auto
    show ?thesis
    proof (cases "c_off c + n < c_len c")
      case True
      have un: "unat (msg_offset c + of_nat n) = c_off c + n"
        using True wb by (simp add: unat_add_of_nat)
      obtain b d where bd: "iov c = [seg R_Data (c_off c) w, b, d]" using W(3) by blast
      define k where "k = c_len c - c_off c - n"
      have k: "0 < k" "int (c_len c) - int (c_off c) - int n = int k" "c_len c = c_off c + n + k"
        using True by (auto simp: k_def of_nat_diff simp del: of_nat_unat)
      have st: "conn_state c = CONN_WRITING \<or> conn_state c = CONN_READING" using wf by (simp add: transfer_wf_def)
      show ?thesis
      proof (cases "k > CONN_PKT_LEN")
        case True
        then have "slide_data n c = Done (c\<lparr>msg_offset := msg_offset c + of_nat n,
            iov := [seg R_Data (c_off c + n) CONN_PKT_LEN, b, d]\<rparr>)"
          using n0 lt k bd by (simp add: slide_data_def word_less_nat_alt tl del: of_nat_unat)
        moreover have "take (nvec c) (iov c) = [seg R_Data (c_off c) w]"
          using wf h lt k wb True by (auto simp: transfer_wf_def window_def data_window_def)
        then have "nvec c = 1"
          using take_single transfer_wf_iov [OF wf] by metis
        ultimately show ?thesis using wf h lt k un True st wb
          by (intro exI [of _ "c\<lparr>msg_offset := msg_offset c + of_nat n,
            iov := [seg R_Data (c_off c + n) CONN_PKT_LEN, b, d]\<rparr>"] exI [of _ CONN_PKT_LEN])
            (auto simp: transfer_wf_def window_def data_window_def same_msg_def
               msg_pos_def mic_expected_def word_less_nat_alt)
      next
        case False
        then have "slide_data n c = Done (iov_init_trailer (c\<lparr>msg_offset := msg_offset c + of_nat n,
            iov := [seg R_Data (c_off c + n) k, b, d]\<rparr>) (conn_state c))"
          using n0 lt k bd by (simp add: slide_data_def word_less_nat_alt tl del: of_nat_unat)
        then show ?thesis using wf h lt k un False st
          by (intro exI [of _ "iov_init_trailer (c\<lparr>msg_offset := msg_offset c + of_nat n,
            iov := [seg R_Data (c_off c + n) k, b, d]\<rparr>) (conn_state c)"] exI [of _ k])
            (auto simp: iov_init_trailer_def transfer_wf_def window_def data_window_def same_msg_def
               msg_pos_def mic_expected_def word_less_nat_alt)
      qed
    next
      case False
      let ?c = "iov_init_trailer (c\<lparr>msg_offset := msg_length c\<rparr>) (conn_state c)"
      let ?r = "c_off c + n - c_len c"
      note F = finish_data_wf [OF wf h lt]
      have e: "nat (int n - (int (c_len c) - int (c_off c))) = ?r" using False by (simp del: of_nat_unat)
      have sd: "slide_data n c = slide_trailer ?r ?c"
        using n0 False lt e by (simp add: slide_data_def word_less_nat_alt tl del: of_nat_unat)
      have "?r \<le> (if c_mic ?c then MIC_LEN - trailer_offset ?c else 0)"
        using F n W(2) False wb by (auto split: if_splits)
      then obtain c' where c': "slide_trailer ?r ?c = Done c'" "transfer_wf c' 0" "msg_pos c' = msg_pos ?c + ?r" "same_msg ?c c'"
        using slide_trailer_wf [of ?c ?r] F by blast
      have "msg_pos c = HDR_LEN + c_off c" using h lt by (simp add: msg_pos_def)
      then have "msg_pos c' = msg_pos c + n" using c'(3) F False lt by simp
      then show ?thesis using sd c' same_msg_trans [OF _ c'(4)] F by auto
    qed
  qed
qed


lemmas transfer_defs = transfer_wf_def window_def data_window_def same_msg_def msg_pos_def mic_expected_def
  word_less_nat_alt window_len_def

lemma iov_three: "length xs = 3 \<Longrightarrow> \<exists>a b d. xs = [a, b, d]"
  by (auto simp: numeral_3_eq_3 length_Suc_conv)

lemma iov_init_data_wf:
  assumes "length (iov c) = 3" "c_len c < 2 ^ 31" "header_offset c = HDR_LEN" "trailer_offset c \<le> MIC_LEN"
    and st: "conn_state c = CONN_WRITING \<or> conn_state c = CONN_READING"
  defines "c' \<equiv> iov_init_data c (conn_state c)"
  shows "transfer_wf c' (min (c_len c) (CONN_PKT_LEN - HDR_LEN))" "same_msg c c'" "msg_pos c' = HDR_LEN"
    "header_offset c' = HDR_LEN"
    "window_len c' = min (c_len c) (CONN_PKT_LEN - HDR_LEN) +
       (if c_mic c \<and> c_len c \<le> CONN_PKT_LEN - HDR_LEN then MIC_LEN else 0)"
proof -
  obtain a b d where i: "iov c = [a, b, d]" using iov_three [OF assms(1)] by blast
  have E: "c' = (if c_len c > CONN_PKT_LEN - HDR_LEN
       then c\<lparr>msg_offset := 0, iov := [seg R_Data 0 (CONN_PKT_LEN - HDR_LEN), b, d], nvec := 1\<rparr>
       else if c_len c > 0
       then if c_mic c then c\<lparr>msg_offset := 0, trailer_offset := 0, iov := [seg R_Data 0 (c_len c), seg R_Mic 0 MIC_LEN, d], nvec := 2\<rparr>
            else c\<lparr>msg_offset := 0, iov := [seg R_Data 0 (c_len c), b, d], nvec := 1\<rparr>
       else if c_mic c then c\<lparr>msg_offset := 0, trailer_offset := 0, iov := [seg R_Mic 0 MIC_LEN, b, d], nvec := 1\<rparr>
            else c\<lparr>msg_offset := 0, iov := [seg R_Data 0 0, b, d], nvec := 0\<rparr>)"
    using i assms(3) by (simp add: c'_def iov_init_data_def iov_init_trailer_def mic_expected_def word_less_nat_alt Let_def)
  have "transfer_wf c' (min (c_len c) (CONN_PKT_LEN - HDR_LEN)) \<and> same_msg c c' \<and> msg_pos c' = HDR_LEN \<and>
    header_offset c' = HDR_LEN \<and> window_len c' = min (c_len c) (CONN_PKT_LEN - HDR_LEN) +
       (if c_mic c \<and> c_len c \<le> CONN_PKT_LEN - HDR_LEN then MIC_LEN else 0)"
  proof (cases "c_len c > CONN_PKT_LEN - HDR_LEN"; cases "c_len c > 0"; cases "c_mic c")
  qed (insert assms(2-4) st i, simp_all add: E transfer_defs min_def, blast+)
  then show "transfer_wf c' (min (c_len c) (CONN_PKT_LEN - HDR_LEN))" "same_msg c c'" "msg_pos c' = HDR_LEN"
    "header_offset c' = HDR_LEN"
    "window_len c' = min (c_len c) (CONN_PKT_LEN - HDR_LEN) +
       (if c_mic c \<and> c_len c \<le> CONN_PKT_LEN - HDR_LEN then MIC_LEN else 0)" by blast+
qed

lemma transfer_header_window:
  assumes wf: "transfer_wf c w" and h: "header_offset c < HDR_LEN"
  shows "\<exists>b d. iov c = [seg R_Header (header_offset c) (HDR_LEN - header_offset c), b, d]"
    "conn_state c = CONN_WRITING \<Longrightarrow> window_len c = HDR_LEN - header_offset c + w + (if c_mic c \<and> w = c_len c then MIC_LEN else 0)"
    "conn_state c = CONN_READING \<Longrightarrow> nvec c = 1"
proof -
  obtain a b d where abd: "iov c = [a, b, d]" using transfer_wf_iov [OF wf] iov_three by blast
  have t: "take (nvec c) (iov c) = seg R_Header (header_offset c) (HDR_LEN - header_offset c) #
      (if conn_state c = CONN_READING then [] else data_window c w)"
    using wf h by (auto simp: transfer_wf_def window_def)
  then have nv: "nvec c \<noteq> 0" by (cases "nvec c = 0") (auto split: if_splits)
  then show "\<exists>b d. iov c = [seg R_Header (header_offset c) (HDR_LEN - header_offset c), b, d]"
    using t abd by (cases "nvec c") auto
  show "window_len c = HDR_LEN - header_offset c + w + (if c_mic c \<and> w = c_len c then MIC_LEN else 0)"
    if "conn_state c = CONN_WRITING"
    using that wf h by (auto simp: window_len_def t data_window_def transfer_wf_def)
  show "nvec c = 1" if "conn_state c = CONN_READING"
    using take_single transfer_wf_iov [OF wf] t that by metis
qed

lemma slide_window_wf:
  assumes wf: "transfer_wf c w" and h: "header_offset c < HDR_LEN \<longrightarrow> conn_state c = CONN_WRITING"
    and n: "n \<le> window_len c"
  shows "\<exists>c' w'. slide_window heap c n = Done c' \<and> transfer_wf c' w' \<and> msg_pos c' = msg_pos c + n \<and> same_msg c c'"
proof (cases "header_offset c < HDR_LEN")
  case False
  then have "header_offset c = HDR_LEN" using wf by (simp add: transfer_wf_def)
  then show ?thesis using slide_data_wf [OF wf _ n] False by (simp add: slide_window_def)
next
  case lt: True
  then have st: "conn_state c = CONN_WRITING" using h by simp
  obtain b d where bd: "iov c = [seg R_Header (header_offset c) (HDR_LEN - header_offset c), b, d]"
    using transfer_header_window [OF wf lt] by blast
  note W = transfer_header_window(2) [OF wf lt st]
  show ?thesis
  proof (cases "header_offset c + n < HDR_LEN")
    case True
    let ?c = "c\<lparr>header_offset := header_offset c + n,
       iov := [seg R_Header (header_offset c + n) (HDR_LEN - header_offset c - n), b, d]\<rparr>"
    have "slide_window heap c n = Done ?c" using True lt bd by (simp add: slide_window_def)
    moreover have tk: "take (nvec c) (iov c) = window c w" using wf by (simp add: transfer_wf_def)
    then have nv: "nvec c \<noteq> 0" using bd lt st by (cases "nvec c") (simp_all add: window_def)
    have dw: "data_window ?c w = data_window c w" by (simp add: data_window_def mic_expected_def)
    have "take (nvec c - 1) [b, d] = data_window c w" using tk nv bd lt st by (simp add: window_def take_Cons')
    then have "take (nvec ?c) (iov ?c) = window ?c w"
      using nv dw lt st True by (simp add: window_def take_Cons')
    then have "transfer_wf ?c w" using wf st lt True by (simp add: transfer_wf_def mic_expected_def)
    moreover have "msg_pos ?c = msg_pos c + n" using lt True by (simp add: msg_pos_def)
    moreover have "same_msg c ?c" by (simp add: same_msg_def)
    ultimately show ?thesis by blast
  next
    case False
    let ?c = "c\<lparr>header_offset := HDR_LEN\<rparr>"
    let ?r = "header_offset c + n - HDR_LEN"
    have e: "nat (int (header_offset c) + int n - int HDR_LEN) = ?r" using False by simp
    have sd: "slide_window heap c n = slide_data ?r (iov_init_data ?c (conn_state ?c))"
      using lt False st by (simp add: slide_window_def nat_diff_distrib' add.commute)
    have l3: "length (iov ?c) = 3" "c_len ?c < 2 ^ 31" "trailer_offset ?c \<le> MIC_LEN"
        "w = min (c_len c) (CONN_PKT_LEN - HDR_LEN)" "c_off c = 0"
      using wf lt st by (auto simp: transfer_wf_def)
    have st': "conn_state ?c = CONN_WRITING \<or> conn_state ?c = CONN_READING" using st by simp
    note I = iov_init_data_wf [OF l3(1,2) _ l3(3) st', simplified]
    have "c_mic ?c = c_mic c" by (simp add: mic_expected_def)
    then have "window_len c = HDR_LEN - header_offset c + window_len (iov_init_data ?c (conn_state ?c))"
      unfolding W using l3(4) by (simp add: I(5) min_def)
    then have rl: "?r \<le> window_len (iov_init_data ?c (conn_state ?c))" using n lt False by linarith
    obtain c' w' where c': "slide_data ?r (iov_init_data ?c (conn_state ?c)) = Done c'" "transfer_wf c' w'"
        "msg_pos c' = HDR_LEN + ?r" "same_msg (iov_init_data ?c (conn_state ?c)) c'"
      using slide_data_wf [OF I(1,4) rl [simplified]] I(3) by auto
    have "same_msg c ?c" by (simp add: same_msg_def)
    from same_msg_trans [OF this] have "same_msg c c'" using same_msg_trans [OF I(2)] c'(4) by simp
    moreover have "msg_pos c' = msg_pos c + n" using c'(3) lt False l3(5) by (simp add: msg_pos_def)
    ultimately show ?thesis using sd c' by auto
  qed
qed


subsection \<open>The window holds the next bytes of the message\<close>

definition msg_bytes :: "'x conn_t \<Rightarrow> u8 list" where
  "msg_bytes c = header_data c @ take (c_len c) (region_bytes c R_Data) @ (if c_mic c then trailer_mic c else [])"

definition bufs_ok :: "'x conn_t \<Rightarrow> bool" where
  "bufs_ok c \<longleftrightarrow> length (header_data c) = HDR_LEN \<and> c_len c \<le> length (region_bytes c R_Data) \<and>
     length (trailer_mic c) = MIC_LEN"

lemma length_msg_bytes: "bufs_ok c \<Longrightarrow> length (msg_bytes c) = msg_total c"
  by (simp add: msg_bytes_def msg_total_def bufs_ok_def)

lemma window_len_eq: "transfer_wf c w \<Longrightarrow> window_len c = sum_list (map iov_len (window c w))"
  by (simp add: transfer_wf_def window_len_def)

lemma take_drop_append_ge: "length xs \<le> p \<Longrightarrow> take n (drop p (xs @ ys)) = take n (drop (p - length xs) ys)"
  by simp

lemma take_drop_two:
  assumes "L \<le> length R" "p + w = L" "length m = k"
  shows "take w (drop p R) @ m = take (w + k) (drop p (take L R @ m))"
  using assms(1,3) unfolding assms(2) [symmetric] by (simp add: take_drop add.commute)

lemma data_window_bytes:
  assumes wf: "transfer_wf c w" and b: "bufs_ok c" and h: "header_offset c = HDR_LEN \<or> conn_state c = CONN_WRITING"
  shows "concat (map (seg_bytes c) (data_window c w)) =
      take (sum_list (map iov_len (data_window c w))) (drop (msg_pos c - header_offset c)
        (take (c_len c) (region_bytes c R_Data) @ (if c_mic c then trailer_mic c else [])))"
proof -
  have tw: "trailer_offset c \<le> MIC_LEN" "c_off c + w \<le> c_len c" "c_off c < c_len c \<longrightarrow> 0 < w" "length (trailer_mic c) = MIC_LEN"
    "c_len c \<le> length (region_bytes c R_Data)"
    using wf b by (auto simp: transfer_wf_def bufs_ok_def)
  show ?thesis
  proof (cases "c_off c < c_len c")
    case True
    then have p: "msg_pos c - header_offset c = c_off c" by (simp add: msg_pos_def)
    show ?thesis
    proof (cases "c_mic c \<and> c_off c + w = c_len c")
      case True2: True
      then have "trailer_offset c = 0" "c_len c = c_off c + w" using wf True by (auto simp: transfer_wf_def)
      then show ?thesis using True True2 tw take_drop_two [of "c_len c" "region_bytes c R_Data" "c_off c" w "trailer_mic c" MIC_LEN]
        by (simp add: p data_window_def seg_bytes_def del: region_bytes.simps(2))
    next
      case False
      then show ?thesis using True tw
        by (auto simp: p data_window_def seg_bytes_def min_def take_drop del: region_bytes.simps(2))
    qed
  next
    case False
    then have o: "c_off c = c_len c" "w = 0" using tw by auto
    show ?thesis
    proof (cases "header_offset c = HDR_LEN")
      case True
      then show ?thesis using o tw
        by (auto simp: msg_pos_def data_window_def seg_bytes_def simp del: region_bytes.simps(2))
    next
      case False
      then have lt: "header_offset c < HDR_LEN" "conn_state c = CONN_WRITING" using wf h by (auto simp: transfer_wf_def)
      then have "c_mic c \<longrightarrow> trailer_offset c = 0" "c_len c = 0" using wf o by (auto simp: transfer_wf_def)
      then show ?thesis using o tw lt
        by (auto simp: msg_pos_def data_window_def seg_bytes_def simp del: region_bytes.simps(2))
    qed
  qed
qed

lemma window_bytes:
  assumes wf: "transfer_wf c w" and b: "bufs_ok c" and h: "header_offset c = HDR_LEN \<or> conn_state c = CONN_WRITING"
  shows "concat (map (seg_bytes c) (take (nvec c) (iov c))) = take (window_len c) (drop (msg_pos c) (msg_bytes c))"
proof -
  let ?R = "take (c_len c) (region_bytes c R_Data) @ (if c_mic c then trailer_mic c else [])"
  have hl: "length (header_data c) = HDR_LEN" "header_offset c \<le> HDR_LEN" using wf b by (auto simp: transfer_wf_def bufs_ok_def)
  have m: "msg_bytes c = header_data c @ ?R" by (simp add: msg_bytes_def)
  have wl: "window_len c = HDR_LEN - header_offset c + sum_list (map iov_len (data_window c w))"
    using wf h hl by (auto simp: window_len_eq [OF wf] window_def)
  have "concat (map (seg_bytes c) (take (nvec c) (iov c))) =
      drop (header_offset c) (header_data c) @ concat (map (seg_bytes c) (data_window c w))"
    using wf h hl by (auto simp: transfer_wf_def window_def seg_bytes_def)
  also have "\<dots> = take (window_len c) (drop (msg_pos c) (msg_bytes c))"
  proof (cases "header_offset c < HDR_LEN")
    case True
    then have "msg_pos c = header_offset c" using wf by (simp add: transfer_wf_def msg_pos_def)
    then show ?thesis using hl unfolding data_window_bytes [OF wf b h] wl m by simp
  next
    case False
    then have "header_offset c = HDR_LEN" "HDR_LEN \<le> msg_pos c" using hl by (auto simp: msg_pos_def)
    then show ?thesis using hl unfolding data_window_bytes [OF wf b h] wl m by simp
  qed
  finally show ?thesis .
qed

lemma window_len_le: "transfer_wf c w \<Longrightarrow> window_len c \<le> MAX_COPY_SIZE"
proof -
  assume wf: "transfer_wf c w"
  have "sum_list (map iov_len (data_window c w)) \<le> w + MIC_LEN"
    by (auto simp: data_window_def)
  moreover have "header_offset c < HDR_LEN \<longrightarrow> w \<le> CONN_PKT_LEN - HDR_LEN" "w \<le> CONN_PKT_LEN"
    using wf by (simp_all add: transfer_wf_def)
  ultimately show ?thesis unfolding window_len_eq [OF wf] window_def by (cases "header_offset c < HDR_LEN") auto
qed

lemma writev_copy_eq:
  assumes "\<And>v. v \<in> set vs \<Longrightarrow> length (seg_bytes c v) = iov_len v" "tot + sum_list (map iov_len vs) \<le> MAX_COPY_SIZE"
  shows "writev_copy c vs tot = concat (map (seg_bytes c) vs)"
  using assms
proof (induction vs arbitrary: tot)
  case Nil
  then show ?case by simp
next
  case (Cons v vs)
  have l: "length (seg_bytes c v) = iov_len v" using Cons.prems by simp
  show ?case
  proof (cases "tot < MAX_COPY_SIZE")
    case True
    have "writev_copy c vs (tot + iov_len v) = concat (map (seg_bytes c) vs)"
      using Cons.prems by (intro Cons.IH) auto
    moreover have "iov_len v \<le> MAX_COPY_SIZE - tot" using Cons.prems(2) by simp
    then have "(if iov_len v < MAX_COPY_SIZE - tot then iov_len v else MAX_COPY_SIZE - tot) = iov_len v" by auto
    ultimately show ?thesis using True l by (simp add: Let_def del: if_split)
  next
    case False
    then have "iov_len v = 0" "sum_list (map iov_len vs) = 0"
      using Cons.prems(2) False unfolding list.map sum_list.Cons by linarith+
    then have "iov_len v = 0" "\<forall>v\<in>set vs. iov_len v = 0" by auto
    then have "seg_bytes c v = []" "\<forall>v\<in>set vs. seg_bytes c v = []" by (auto simp: seg_bytes_def)
    then show ?thesis using False by auto
  qed
qed


lemma seg_bytes_length:
  assumes wf: "transfer_wf c w" and b: "bufs_ok c" and h: "header_offset c = HDR_LEN \<or> conn_state c = CONN_WRITING"
    and v: "v \<in> set (window c w)"
  shows "length (seg_bytes c v) = iov_len v"
proof -
  have "c_off c + w \<le> c_len c" "c_len c \<le> length (region_bytes c R_Data)" using wf b by (auto simp: transfer_wf_def bufs_ok_def)
  then show ?thesis using v b
    by (auto simp: window_def data_window_def seg_bytes_def bufs_ok_def simp del: region_bytes.simps(2) split: if_splits)
qed

lemma Writev_eq:
  assumes wf: "transfer_wf c w" and b: "bufs_ok c" and h: "conn_state c = CONN_WRITING" and n: "nvec c > 0"
  shows "Unameit_Stream_Writev c s = Done (send_call (take (window_len c) (drop (msg_pos c) (msg_bytes c))) s)"
proof -
  have h': "header_offset c = HDR_LEN \<or> conn_state c = CONN_WRITING" using h by simp
  note B = window_bytes [OF wf b h', symmetric]
  have t: "take (nvec c) (iov c) = window c w" and l: "length (iov c) = 3" using wf by (auto simp: transfer_wf_def)
  have "sum_list (map iov_len (take (nvec c) (iov c))) \<le> MAX_COPY_SIZE"
    using window_len_le [OF wf] by (simp add: window_len_def)
  then have "writev_copy c (take (nvec c) (iov c)) 0 = concat (map (seg_bytes c) (take (nvec c) (iov c)))"
    using seg_bytes_length [OF wf b h'] t by (intro writev_copy_eq) auto
  moreover have "nvec c = 1 \<Longrightarrow> take (nvec c) (iov c) = [iov c ! 0]" using l iov_three [OF l] by auto
  moreover have "iov_len (iov c ! 0) \<le> MAX_COPY_SIZE"
  proof -
    have "iov c ! 0 \<in> set (window c w)" using n l unfolding t [symmetric]
      by (metis length_greater_0_conv less_numeral_extra(3) nth_mem nth_take take_eq_Nil2 zero_less_numeral)
    then have "iov_len (iov c ! 0) \<le> sum_list (map iov_len (window c w))" by (simp add: member_le_sum_list)
    then show ?thesis using window_len_le [OF wf] window_len_eq [OF wf] by simp
  qed
  ultimately show ?thesis using n by (auto simp: Unameit_Stream_Writev_def B simp del: take_eq_Nil)
qed

lemma nvec_window: "transfer_wf c w \<Longrightarrow> nvec c = length (window c w)"
  using transfer_wf_iov [of c w] length_take [of "nvec c" "iov c"] by simp

lemma window_cases:
  assumes wf: "transfer_wf c w" and h: "header_offset c = HDR_LEN \<or> conn_state c = CONN_WRITING"
  shows "nvec c = 0 \<and> window_len c = 0 \<and> msg_pos c = msg_total c \<or>
     nvec c > 0 \<and> window_len c > 0 \<and> msg_pos c + window_len c \<le> msg_total c"
proof -
  have tw: "trailer_offset c \<le> MIC_LEN" "c_off c + w \<le> c_len c" "c_off c < c_len c \<longrightarrow> 0 < w" "header_offset c \<le> HDR_LEN"
    using wf by (auto simp: transfer_wf_def)
  consider "header_offset c < HDR_LEN" "conn_state c = CONN_WRITING"
    | "header_offset c = HDR_LEN" "c_off c < c_len c" | "header_offset c = HDR_LEN" "c_off c = c_len c" "w = 0"
    using tw h by fastforce
  then show ?thesis
  proof cases
    case 1
    then have "c_off c = 0" "c_mic c \<and> w = c_len c \<longrightarrow> trailer_offset c = 0" using wf by (auto simp: transfer_wf_def)
    then show ?thesis using 1 tw
      by (auto simp: nvec_window [OF wf] window_len_eq [OF wf] window_def data_window_def msg_pos_def msg_total_def)
  next
    case 2
    then show ?thesis using tw
      by (auto simp: nvec_window [OF wf] window_len_eq [OF wf] window_def data_window_def msg_pos_def msg_total_def)
  next
    case 3
    then show ?thesis using tw
      by (auto simp: nvec_window [OF wf] window_len_eq [OF wf] window_def data_window_def msg_pos_def msg_total_def)
  qed
qed

text \<open>Contract of an integrity check on the sending side: a call keeps the message and the
  transfer, may set up the other direction, and leaves the check value alone once a part of
  it was sent.\<close>

definition mic_frame :: "'x conn_t \<Rightarrow> 'x conn_t \<Rightarrow> bool" where
  "mic_frame c c' \<longleftrightarrow> c' = c\<lparr>trailer_mic := trailer_mic c', read_mic := read_mic c', crypto := crypto c'\<rparr> \<and>
     length (trailer_mic c') = MIC_LEN"

definition in_trailer :: "'x conn_t \<Rightarrow> bool" where
  "in_trailer c \<longleftrightarrow> header_offset c = HDR_LEN \<and> c_off c = c_len c \<and> trailer_offset c > 0"

lemma same_msg_simps:
  assumes "same_msg c c'"
  shows "bufs_ok c' = bufs_ok c" "msg_bytes c' = msg_bytes c" "msg_total c' = msg_total c"
    "conn_state c' = conn_state c" "conn_errno c' = conn_errno c" "conn_callback_set c' = conn_callback_set c"
    "header_data c' = header_data c" "region_bytes c' r = region_bytes c r" "c_len c' = c_len c"
    "write_mic c' = write_mic c" "read_mic c' = read_mic c" "trailer_mic c' = trailer_mic c" "msg_data c' = msg_data c"
    "auth_type c' = auth_type c" "crypto c' = crypto c" "read_mic_ok c' = read_mic_ok c" "maxlen c' = maxlen c"
  using assms unfolding same_msg_def
  by (cases r; cases c; cases c'; simp add: bufs_ok_def msg_bytes_def msg_total_def mic_expected_def)+

lemma mic_frame_simps:
  assumes "mic_frame c c'" "conn_state c = CONN_WRITING"
  shows "transfer_wf c' w = transfer_wf c w" "window_len c' = window_len c" "nvec c' = nvec c"
    "msg_pos c' = msg_pos c" "msg_total c' = msg_total c"
    "conn_state c' = CONN_WRITING" "conn_errno c' = conn_errno c" "conn_callback_set c' = conn_callback_set c"
    "header_data c' = header_data c" "region_bytes c' R_Data = region_bytes c R_Data" "c_len c' = c_len c"
    "write_mic c' = write_mic c" "bufs_ok c \<Longrightarrow> bufs_ok c'" "msg_data c' = msg_data c"
  using assms unfolding mic_frame_def
  by (cases c; cases c'; simp add: transfer_wf_def window_def data_window_def window_len_def msg_pos_def
      bufs_ok_def msg_total_def mic_expected_def)+

definition takes_some :: "send_item list \<Rightarrow> nat" where
  "takes_some room = length (filter (\<lambda>i. case i of Takes n \<Rightarrow> n > 0 | _ \<Rightarrow> False) room)"

lemma takes_some_simps [simp]:
  "takes_some [] = 0" "takes_some (Takes n # q) = (if n > 0 then Suc (takes_some q) else takes_some q)"
  "takes_some (Send_Blocks # q) = takes_some q" "takes_some (Send_Error # q) = takes_some q"
  by (simp_all add: takes_some_def)

text \<open>The message of a transfer: header, data, and whether a check value follows.\<close>

definition msg_of :: "'x conn_t \<Rightarrow> u8 list \<times> u8 list \<times> bool" where
  "msg_of c = (header_data c, take (c_len c) (region_bytes c R_Data), c_mic c)"

lemma msg_of_same_msg: "same_msg c c' \<Longrightarrow> msg_of c' = msg_of c"
  using same_msg_simps [of c c'] by (simp add: msg_of_def mic_expected_def del: region_bytes.simps)

lemma msg_of_mic_frame: "mic_frame c c' \<Longrightarrow> conn_state c = CONN_WRITING \<Longrightarrow> msg_of c' = msg_of c"
  using mic_frame_simps [of c c'] by (simp add: msg_of_def mic_expected_def del: region_bytes.simps)

lemma msg_of_total: "bufs_ok c \<Longrightarrow> bufs_ok c' \<Longrightarrow> msg_of c' = msg_of c \<Longrightarrow> msg_total c' = msg_total c"
  by (simp add: msg_of_def msg_total_def bufs_ok_def del: region_bytes.simps) (metis length_take min.absorb2)

text \<open>Repeated calls of \<open>Unameit_Conn_Progress\<close> until the message is complete.\<close>

primrec drive :: "'x conn_ops \<Rightarrow> u8 list \<Rightarrow> nat \<Rightarrow> 'x conn_t \<Rightarrow> sock \<Rightarrow> (bool \<times> 'x conn_t \<times> sock) c_run" where
  "drive ops heap 0 c s = Done (False, c, s)"
| "drive ops heap (Suc k) c s =
     c_bind (progress_io ops heap c s) (\<lambda>(complete, c, s).
       if complete then Done (True, c, s) else drive ops heap k c s)"

locale write_mic_contract =
  fixes ops :: "'x conn_ops" and usable :: "'x \<Rightarrow> bool" and ready :: "'x conn_t \<Rightarrow> bool"
  assumes reset: "transfer_wf c w \<Longrightarrow> bufs_ok c \<Longrightarrow> conn_state c = CONN_WRITING \<Longrightarrow> write_mic c \<Longrightarrow> msg_pos c = 0 \<Longrightarrow>
    usable (crypto c) \<Longrightarrow> \<exists>c'. update_write_mic ops c True = Done c' \<and> mic_frame c c' \<and> ready c'"
    and update: "transfer_wf c w \<Longrightarrow> bufs_ok c \<Longrightarrow> conn_state c = CONN_WRITING \<Longrightarrow> conn_errno c = ERR_CONN_OK \<Longrightarrow>
    write_mic c \<Longrightarrow> ready c \<Longrightarrow>
    \<exists>c'. update_write_mic ops c False = Done c' \<and> mic_frame c c' \<and>
      (in_trailer c \<longrightarrow> trailer_mic c' = trailer_mic c) \<and>
      (\<forall>c'' w''. same_msg c' c'' \<longrightarrow> transfer_wf c'' w'' \<longrightarrow> msg_pos c' \<le> msg_pos c'' \<longrightarrow>
         msg_pos c'' \<le> msg_pos c' + window_len c' \<longrightarrow> ready c'')"
begin

text \<open>A sender whose socket got the bytes of the message up to its position.\<close>

definition sender :: "u8 list \<Rightarrow> u8 list \<times> u8 list \<times> bool \<Rightarrow> 'x conn_t \<Rightarrow> sock \<Rightarrow> bool" where
  "sender out m c s \<longleftrightarrow> msg_of c = m \<and>
     (\<exists>w. transfer_wf c w) \<and> bufs_ok c \<and> conn_state c = CONN_WRITING \<and> conn_errno c = ERR_CONN_OK \<and>
     conn_callback_set c \<and> (write_mic c \<longrightarrow> ready c) \<and>
     sock_out s = out @ take (msg_pos c) (msg_bytes c)"

lemma update_sender:
  assumes S: "sender out m c s"
  shows "\<exists>c'. (if write_mic c then update_write_mic ops c False else Done c) = Done c' \<and>
     (c' = c \<or> mic_frame c c') \<and> sender out m c' s \<and>
     (write_mic c \<longrightarrow> (\<forall>c'' w''. same_msg c' c'' \<longrightarrow> transfer_wf c'' w'' \<longrightarrow> msg_pos c' \<le> msg_pos c'' \<longrightarrow>
         msg_pos c'' \<le> msg_pos c' + window_len c' \<longrightarrow> ready c''))"
proof (cases "write_mic c")
  case False
  then show ?thesis using S by auto
next
  case True
  obtain w where wf: "transfer_wf c w" and b: "bufs_ok c" and st: "conn_state c = CONN_WRITING" and "ready c" "conn_errno c = ERR_CONN_OK"
    and out: "sock_out s = out @ take (msg_pos c) (msg_bytes c)"
    using S True by (auto simp: sender_def)
  then obtain c' where c': "update_write_mic ops c False = Done c'" "mic_frame c c'"
      "in_trailer c \<longrightarrow> trailer_mic c' = trailer_mic c"
      and r: "\<forall>c'' w''. same_msg c' c'' \<longrightarrow> transfer_wf c'' w'' \<longrightarrow> msg_pos c' \<le> msg_pos c'' \<longrightarrow>
         msg_pos c'' \<le> msg_pos c' + window_len c' \<longrightarrow> ready c''"
    using update True by blast
  note F = mic_frame_simps [OF c'(2) st]
  have "take (msg_pos c) (msg_bytes c') = take (msg_pos c) (msg_bytes c)"
  proof (cases "in_trailer c")
    case True
    then show ?thesis using c'(3) F st by (simp add: msg_bytes_def mic_expected_def)
  next
    case False
    then have "msg_pos c \<le> HDR_LEN + c_len c"
      using wf by (auto simp: in_trailer_def msg_pos_def transfer_wf_def)
    then show ?thesis using b F st by (simp add: msg_bytes_def mic_expected_def bufs_ok_def)
  qed
  moreover have "ready c'" using r [rule_format, of c' w] wf F(1) by simp
  ultimately have "sender out m c' s" using S F out msg_of_mic_frame [OF c'(2) st] by (auto simp: sender_def)
  then show ?thesis using c' r True by auto
qed

lemma write_step_sender:
  assumes S: "sender out m c s" and n: "nvec c > 0"
  shows "\<exists>r c' s'. write_step ops heap c s = Done (r, c', s') \<and> msg_total c' = msg_total c \<and>
     (case sock_room s of
        [] \<Rightarrow> r \<and> s' = s \<and> nvec c' > 0 \<and> sender out m c' s' \<and> msg_pos c' = msg_pos c
      | Send_Blocks # q \<Rightarrow> r \<and> sock_room s' = q \<and> nvec c' > 0 \<and> sender out m c' s' \<and> msg_pos c' = msg_pos c
      | Send_Error # q \<Rightarrow> r \<and> sock_room s' = q \<and> nvec c' > 0 \<and> msg_pos c' = msg_pos c \<and>
           conn_errno c' = ERR_CONN_WRITE \<and> sender out m (c'\<lparr>conn_errno := ERR_CONN_OK\<rparr>) s'
      | Takes k # q \<Rightarrow> (r \<longleftrightarrow> k = 0) \<and> (r \<longrightarrow> nvec c' > 0) \<and> sock_room s' = q \<and> sender out m c' s' \<and>
           msg_pos c' = msg_pos c + min k (window_len c) \<and> window_len c > 0)"
proof -
  obtain c1 where c1: "(if write_mic c then update_write_mic ops c False else Done c) = Done c1"
      "c1 = c \<or> mic_frame c c1" "sender out m c1 s"
    and rd: "write_mic c \<longrightarrow> (\<forall>c'' w''. same_msg c1 c'' \<longrightarrow> transfer_wf c'' w'' \<longrightarrow> msg_pos c1 \<le> msg_pos c'' \<longrightarrow>
         msg_pos c'' \<le> msg_pos c1 + window_len c1 \<longrightarrow> ready c'')"
    using update_sender [OF S] by blast
  have st: "conn_state c = CONN_WRITING" using S by (simp add: sender_def)
  have eqs: "window_len c1 = window_len c" "nvec c1 = nvec c" "msg_pos c1 = msg_pos c" "msg_total c1 = msg_total c"
      "write_mic c1 = write_mic c"
    using c1(2) mic_frame_simps [OF _ st, of c1] by auto
  obtain w where wf: "transfer_wf c1 w" and b: "bufs_ok c1" and st1: "conn_state c1 = CONN_WRITING"
    and out: "sock_out s = out @ take (msg_pos c1) (msg_bytes c1)"
    using c1(3) by (auto simp: sender_def)
  have h: "header_offset c1 = HDR_LEN \<or> conn_state c1 = CONN_WRITING" using st1 by simp
  have win: "window_len c1 > 0" "msg_pos c1 + window_len c1 \<le> msg_total c1"
    using window_cases [OF wf h] n eqs by auto
  define bs where "bs = take (window_len c1) (drop (msg_pos c1) (msg_bytes c1))"
  have lbs: "length bs = window_len c1" using win length_msg_bytes [OF b] by (simp add: bs_def)
  have step: "write_step ops heap c s = (case send_call bs s of (r, s) \<Rightarrow>
       case r of Would_Block \<Rightarrow> Done (True, c1, s) | Io_Error \<Rightarrow> Done (True, c1\<lparr>conn_errno := ERR_CONN_WRITE\<rparr>, s)
       | Nio n \<Rightarrow> if n = 0 then Done (True, c1, s) else c_bind (slide_window heap c1 n) (\<lambda>c. Done (False, c, s)))"
    using Writev_eq [OF wf b st1] n eqs by (simp add: write_step_def c1(1) bs_def)
  show ?thesis
  proof (cases "sock_room s")
    case Nil
    then show ?thesis using step c1(3) eqs n by (auto simp: send_call_def)
  next
    case (Cons i q)
    have S': "sender out m c1 (s\<lparr>sock_room := q\<rparr>)" using c1(3) by (simp add: sender_def)
    show ?thesis
    proof (cases i)
      case (Takes k)
      show ?thesis
      proof (cases "k = 0")
        case True
        then show ?thesis using step S' eqs n win Cons Takes by (auto simp: send_call_def sender_def)
      next
        case False
        let ?l = "min k (window_len c1)"
        obtain c2 w2 where c2: "slide_window heap c1 ?l = Done c2" "transfer_wf c2 w2" "msg_pos c2 = msg_pos c1 + ?l" "same_msg c1 c2"
          using slide_window_wf [OF wf, of ?l heap] st1 by auto
        note F = same_msg_simps [OF c2(4)]
        have t: "take k bs = take ?l (drop (msg_pos c1) (msg_bytes c1))" by (simp add: bs_def)
        have "sock_out s @ take k bs = out @ take (msg_pos c2) (msg_bytes c2)"
          unfolding out t F c2(3) by (simp add: take_add)
        moreover have "write_mic c2 \<longrightarrow> ready c2" using rd c2 eqs F by auto
        ultimately have "sender out m c2 (s\<lparr>sock_room := q, sock_out := sock_out s @ take k bs\<rparr>)"
          using c1(3) c2(2) F msg_of_same_msg [OF c2(4)] by (auto simp: sender_def)
        moreover have "?l \<noteq> 0" using False win(1) by (simp add: min_def)
        ultimately show ?thesis using step Cons Takes False win(1) c2(1,3) F(3) eqs(1,3,4) lbs
          by (intro exI [of _ False] exI [of _ c2] exI [of _ "s\<lparr>sock_room := q, sock_out := sock_out s @ take k bs\<rparr>"])
            (simp add: send_call_def)
      qed
    next
      case Send_Blocks
      then show ?thesis using step Cons S' eqs n by (auto simp: send_call_def)
    next
      case Send_Error
      have "msg_total (c1\<lparr>conn_errno := ERR_CONN_WRITE\<rparr>) = msg_total c1" "msg_pos (c1\<lparr>conn_errno := ERR_CONN_WRITE\<rparr>) = msg_pos c1"
        by (auto simp: msg_total_def msg_pos_def mic_expected_def)
      moreover have "c1\<lparr>conn_errno := ERR_CONN_WRITE, conn_errno := ERR_CONN_OK\<rparr> = c1"
        using S' by (simp add: sender_def)
      ultimately show ?thesis using step Cons Send_Error S' eqs n by (auto simp: send_call_def)
    qed
  qed
qed

lemma progress_loop_sender:
  assumes "sender out m c s"
  shows "\<exists>r c' s'. progress_loop ops heap p c s = Done (r, c', s') \<and> msg_total c' = msg_total c \<and>
     (r \<longrightarrow> nvec c' > 0) \<and>
     (sender out m c' s' \<or> r \<and> conn_errno c' = ERR_CONN_WRITE \<and> Send_Error \<in> set (sock_room s) \<and>
        sender out m (c'\<lparr>conn_errno := ERR_CONN_OK\<rparr>) s') \<and>
     (\<exists>used. sock_room s = used @ sock_room s' \<and> (nvec c > 0 \<longrightarrow> sock_room s \<noteq> [] \<longrightarrow> used \<noteq> [])) \<and>
     msg_pos c + takes_some (sock_room s) \<le> msg_pos c' + takes_some (sock_room s')"
  using assms
proof (induction "17 - p" arbitrary: p c s rule: less_induct)
  case less
  note S = less.prems
  show ?case
  proof (cases "nvec c = 0")
    case True
    then show ?thesis using S by (auto simp: progress_loop.simps [of ops heap p c s])
  next
    case False
    then have nv: "nvec c > 0" by simp
    have st: "conn_state c = CONN_WRITING" using S by (simp add: sender_def)
    obtain r c1 s1 where ws: "write_step ops heap c s = Done (r, c1, s1)" and tot: "msg_total c1 = msg_total c"
      and C: "case sock_room s of
        [] \<Rightarrow> r \<and> s1 = s \<and> nvec c1 > 0 \<and> sender out m c1 s1 \<and> msg_pos c1 = msg_pos c
      | Send_Blocks # q \<Rightarrow> r \<and> sock_room s1 = q \<and> nvec c1 > 0 \<and> sender out m c1 s1 \<and> msg_pos c1 = msg_pos c
      | Send_Error # q \<Rightarrow> r \<and> sock_room s1 = q \<and> nvec c1 > 0 \<and> msg_pos c1 = msg_pos c \<and>
           conn_errno c1 = ERR_CONN_WRITE \<and> sender out m (c1\<lparr>conn_errno := ERR_CONN_OK\<rparr>) s1
      | Takes k # q \<Rightarrow> (r \<longleftrightarrow> k = 0) \<and> (r \<longrightarrow> nvec c1 > 0) \<and> sock_room s1 = q \<and> sender out m c1 s1 \<and>
           msg_pos c1 = msg_pos c + min k (window_len c) \<and> window_len c > 0"
      using write_step_sender [OF S nv, of heap] by blast
    have loop: "progress_loop ops heap p c s =
        (if r then Done (True, c1, s1) else if p + 1 > 16 then Done (False, c1, s1)
         else progress_loop ops heap (p + 1) c1 s1)"
      using False st ws by (simp add: progress_loop.simps [of ops heap p c s])
    show ?thesis
    proof (cases "r \<or> p + 1 > 16")
      case True
      then have "progress_loop ops heap p c s = Done (r, c1, s1)" using loop by auto
      then show ?thesis using C nv tot by (auto split: list.splits send_item.splits)
    next
      case rec: False
      then obtain k q where mq: "sock_room s = Takes k # q" "k > 0" "sock_room s1 = q" "sender out m c1 s1"
          "msg_pos c1 = msg_pos c + min k (window_len c)" "window_len c > 0"
        using C by (auto split: list.splits send_item.splits)
      then have "Suc (msg_pos c) \<le> msg_pos c1" by simp
      moreover have "17 - (p + 1) < 17 - p" using rec by auto
      from less.hyps [OF this mq(4)] obtain r2 c2 s2 used where
        R: "progress_loop ops heap (p + 1) c1 s1 = Done (r2, c2, s2)" "msg_total c2 = msg_total c1" "r2 \<longrightarrow> nvec c2 > 0"
          "sender out m c2 s2 \<or> r2 \<and> conn_errno c2 = ERR_CONN_WRITE \<and> Send_Error \<in> set (sock_room s1) \<and>
             sender out m (c2\<lparr>conn_errno := ERR_CONN_OK\<rparr>) s2"
          "sock_room s1 = used @ sock_room s2"
          "msg_pos c1 + takes_some (sock_room s1) \<le> msg_pos c2 + takes_some (sock_room s2)"
        by blast
      ultimately have "msg_pos c + takes_some (sock_room s) \<le> msg_pos c2 + takes_some (sock_room s2)"
        using mq by simp
      moreover have "sock_room s = (Takes k # used) @ sock_room s2" using mq R(5) by simp
      moreover have "progress_loop ops heap p c s = Done (r2, c2, s2)" using loop rec R(1) by simp
      moreover have "Send_Error \<in> set (sock_room s1) \<Longrightarrow> Send_Error \<in> set (sock_room s)" using mq by simp
      ultimately show ?thesis using R(2-4) tot by (intro exI [of _ r2] exI [of _ c2] exI [of _ s2]) auto
    qed
  qed
qed

lemma drive_sender:
  assumes "sender out m c s" "Send_Error \<notin> set (sock_room s)" "length (sock_room s) < k"
    and "msg_total c \<le> msg_pos c + takes_some (sock_room s)"
  shows "\<exists>c' s'. drive ops heap k c s = Done (True, c', s') \<and> sender out m c' s' \<and> nvec c' = 0"
  using assms
proof (induction k arbitrary: c s)
  case 0
  then show ?case by simp
next
  case (Suc k)
  note S = Suc.prems(1)
  obtain r c1 s1 used where R: "progress_loop ops heap 0 c s = Done (r, c1, s1)" "msg_total c1 = msg_total c" "r \<longrightarrow> nvec c1 > 0"
      "sender out m c1 s1" "sock_room s = used @ sock_room s1" "nvec c > 0 \<longrightarrow> sock_room s \<noteq> [] \<longrightarrow> used \<noteq> []"
      "msg_pos c + takes_some (sock_room s) \<le> msg_pos c1 + takes_some (sock_room s1)"
    using progress_loop_sender [OF S, of heap 0] Suc.prems(2) by (elim exE conjE disjE) simp_all
  have io: "progress_io ops heap c s = Done (\<not> r \<and> nvec c1 = 0, c1, s1)"
    using S R(1) by (simp add: progress_io_def sender_def)
  show ?case
  proof (cases "nvec c1 = 0")
    case True
    then show ?thesis using io R(3,4) by auto
  next
    case False
    have tot: "msg_total c1 \<le> msg_pos c1 + takes_some (sock_room s1)" using R(2,7) Suc.prems(4) by simp
    obtain w where "transfer_wf c1 w" "conn_state c1 = CONN_WRITING" using R(4) by (auto simp: sender_def)
    then have "sock_room s1 \<noteq> []" using window_cases [of c1 w] False tot by auto
    moreover have "nvec c > 0"
    proof (rule ccontr)
      assume "\<not> nvec c > 0"
      then show False using R(1) False by (simp add: progress_loop.simps [of ops heap 0 c s])
    qed
    ultimately have "length (sock_room s1) < k" using R(5,6) Suc.prems(3) by (cases used) auto
    then obtain c' s' where "drive ops heap k c1 s1 = Done (True, c', s')" "sender out m c' s'" "nvec c' = 0"
      using Suc.IH [OF R(4)] R(5) Suc.prems(2) tot by auto
    then show ?thesis using io False by simp
  qed
qed

text \<open>Whatever the socket does, the bytes sent are those of the message up to the position.\<close>

lemma drive_sender_any:
  assumes "sender out m c s \<or> conn_errno c = ERR_CONN_WRITE \<and> sender out m (c\<lparr>conn_errno := ERR_CONN_OK\<rparr>) s"
  shows "\<exists>r c' s'. drive ops heap k c s = Done (r, c', s') \<and>
     (if r then sender out m c' s' \<and> nvec c' = 0
      else sender out m c' s' \<or> conn_errno c' = ERR_CONN_WRITE \<and> sender out m (c'\<lparr>conn_errno := ERR_CONN_OK\<rparr>) s')"
  using assms
proof (induction k arbitrary: c s)
  case 0
  then show ?case by auto
next
  case (Suc k)
  show ?case
  proof (cases "sender out m c s")
    case S: True
    obtain r c1 s1 where R: "progress_loop ops heap 0 c s = Done (r, c1, s1)" "r \<longrightarrow> nvec c1 > 0"
        "sender out m c1 s1 \<or> r \<and> conn_errno c1 = ERR_CONN_WRITE \<and> sender out m (c1\<lparr>conn_errno := ERR_CONN_OK\<rparr>) s1"
      using progress_loop_sender [OF S, of heap 0] by (elim exE conjE) metis
    have io: "progress_io ops heap c s = Done (\<not> r \<and> nvec c1 = 0, c1, s1)"
      using S R(1) by (simp add: progress_io_def sender_def)
    show ?thesis
    proof (cases "\<not> r \<and> nvec c1 = 0")
      case True
      then show ?thesis using io R(3) by auto
    next
      case False
      then have "drive ops heap (Suc k) c s = drive ops heap k c1 s1" using io by auto
      moreover have "sender out m c1 s1 \<or> conn_errno c1 = ERR_CONN_WRITE \<and> sender out m (c1\<lparr>conn_errno := ERR_CONN_OK\<rparr>) s1"
        using R(3) by blast
      ultimately show ?thesis using Suc.IH [of c1 s1] by simp
    qed
  next
    case False
    then have "progress_io ops heap c s = Done (False, c, s)" using Suc.prems by (simp add: progress_io_def)
    then show ?thesis using Suc.IH [OF Suc.prems] by simp
  qed
qed

end

end
