(* ===== verification/ConnRecv.thy ===== *)
theory ConnRecv
  imports ConnSend
begin

text \<open>
  The receiving side of a connection: a read into the window stores the bytes at the position
  of the transfer.  The contract of the integrity check is the locale \<open>read_mic_contract\<close>; inside
  it, a message is assembled from any split of its bytes into packets.
\<close>

unbundle bit_operations_syntax

fun recv_bytes :: "recv_item list \<Rightarrow> u8 list" where
  "recv_bytes [] = []"
| "recv_bytes (Arrives b # q) = b @ recv_bytes q"
| "recv_bytes (_ # q) = recv_bytes q"

definition recv_good :: "recv_item list \<Rightarrow> bool" where
  "recv_good q \<longleftrightarrow> list_all (\<lambda>i. case i of Arrives b \<Rightarrow> b \<noteq> [] | Recv_Blocks \<Rightarrow> True | _ \<Rightarrow> False) q"

definition recv_fuel :: "recv_item list \<Rightarrow> nat" where
  "recv_fuel q = length q + length (recv_bytes q)"

lemma recv_call_good:
  assumes g: "recv_good (sock_in s)" and l: "len > 0"
  shows "(sock_in s = [] \<and> recv_call len s = ((None, Would_Block), s)) \<or>
    (\<exists>s'. recv_call len s = ((None, Would_Block), s') \<and> recv_good (sock_in s') \<and>
       recv_bytes (sock_in s') = recv_bytes (sock_in s) \<and> recv_fuel (sock_in s') < recv_fuel (sock_in s)) \<or>
    (\<exists>b s'. recv_call len s = ((Some b, Nio (length b)), s') \<and> 0 < length b \<and> length b \<le> len \<and> recv_good (sock_in s') \<and>
       recv_bytes (sock_in s) = b @ recv_bytes (sock_in s') \<and> recv_fuel (sock_in s') < recv_fuel (sock_in s))"
proof (cases "sock_in s")
  case Nil
  then show ?thesis by (simp add: recv_call_def)
next
  case (Cons i q)
  then show ?thesis using g l
    by (cases i) (auto simp: recv_call_def recv_good_def recv_fuel_def min_def)
qed

lemma length_write_at [simp]: "p + length b \<le> length buf \<Longrightarrow> length (write_at buf p b) = length buf"
  by (simp add: write_at_def)

lemma take_write_at: "p \<le> length buf \<Longrightarrow> take (p + length b) (write_at buf p b) = take p buf @ b"
  by (simp add: write_at_def)

lemma write_at_append1: "p + length b \<le> length xs \<Longrightarrow> write_at (xs @ ys) p b = write_at xs p b @ ys"
  by (simp add: write_at_def)

lemma write_at_append2: "length xs \<le> p \<Longrightarrow> write_at (xs @ ys) p b = xs @ write_at ys (p - length xs) b"
  by (simp add: write_at_def)

lemma write_at_take: "p + length b \<le> n \<Longrightarrow> take n (write_at buf p b) = write_at (take n buf) p b"
  by (auto simp: write_at_def take_drop min_def) (metis add_leD1 le_antisym)

lemma write_at_write_at:
  "p + length a \<le> length buf \<Longrightarrow> write_at (write_at buf p a) (p + length a) b = write_at buf p (a @ b)"
  by (simp add: write_at_def ac_simps)

lemma store_data_bytes:
  assumes "bufs_ok c" "p + length b \<le> c_len c" "msg_data c \<noteq> None"
  shows "msg_bytes (store_bytes R_Data p b c) = write_at (msg_bytes c) (HDR_LEN + p) b"
  using assms
  by (auto simp: msg_bytes_def bufs_ok_def write_at_append1 write_at_append2 write_at_take mic_expected_def)

lemma store_mic_bytes:
  assumes "bufs_ok c" "p + length b \<le> MIC_LEN" "c_mic c"
  shows "msg_bytes (store_bytes R_Mic p b c) = write_at (msg_bytes c) (HDR_LEN + c_len c + p) b"
  using assms
  by (auto simp: msg_bytes_def bufs_ok_def write_at_append1 write_at_append2 write_at_take mic_expected_def)


text \<open>A read into the window of a transfer past its header stores the received bytes at the
  position of the transfer.\<close>

definition buf_change :: "'x conn_t \<Rightarrow> 'x conn_t \<Rightarrow> bool" where
  "buf_change c c' \<longleftrightarrow> c' = c\<lparr>msg_data := msg_data c', trailer_mic := trailer_mic c'\<rparr> \<and>
     map_option length (msg_data c') = map_option length (msg_data c) \<and>
     length (trailer_mic c') = length (trailer_mic c) \<and>
     (\<forall>d d'. msg_data c = Some d \<longrightarrow> msg_data c' = Some d' \<longrightarrow> drop (c_len c) d' = drop (c_len c) d)"

lemma buf_change_refl [simp]: "buf_change c c"
  by (simp add: buf_change_def)

lemma buf_change_trans: "buf_change a b \<Longrightarrow> buf_change b c \<Longrightarrow> buf_change a c"
  unfolding buf_change_def by (cases a; cases b; cases c) (auto split: option.splits)

lemma buf_change_simps:
  assumes "buf_change c c'"
  shows "transfer_wf c' w = transfer_wf c w" "window_len c' = window_len c" "nvec c' = nvec c" "iov c' = iov c"
    "msg_pos c' = msg_pos c" "msg_total c' = msg_total c" "bufs_ok c' = bufs_ok c"
    "conn_state c' = conn_state c" "conn_errno c' = conn_errno c" "conn_callback_set c' = conn_callback_set c"
    "header_data c' = header_data c" "header_offset c' = header_offset c" "c_len c' = c_len c" "c_off c' = c_off c" "trailer_offset c' = trailer_offset c"
    "write_mic c' = write_mic c" "read_mic c' = read_mic c" "crypto c' = crypto c" "maxlen c' = maxlen c" "auth_type c' = auth_type c"
    "msg_length c' = msg_length c" "msg_offset c' = msg_offset c"
  using assms unfolding buf_change_def
  by (cases c; cases c'; auto simp: transfer_wf_def window_def data_window_def window_len_def msg_pos_def
      bufs_ok_def msg_total_def mic_expected_def split: option.splits)+

lemma buf_change_data:
  assumes "bufs_ok c" "p + length b \<le> c_len c"
  shows "buf_change c (store_bytes R_Data p b c)"
  using assms by (auto simp: buf_change_def bufs_ok_def write_at_def split: option.splits)

lemma buf_change_mic:
  assumes "bufs_ok c" "p + length b \<le> MIC_LEN"
  shows "buf_change c (store_bytes R_Mic p b c)"
  using assms by (auto simp: buf_change_def bufs_ok_def)


definition read_outcome :: "'x conn_t \<Rightarrow> sock \<Rightarrow> io_result \<Rightarrow> 'x conn_t \<Rightarrow> sock \<Rightarrow> bool" where
  "read_outcome c s r c' s' \<longleftrightarrow> recv_good (sock_in s') \<and>
     (r = Would_Block \<and> c' = c \<and> recv_bytes (sock_in s') = recv_bytes (sock_in s) \<and>
        (sock_in s = [] \<and> s' = s \<or> recv_fuel (sock_in s') < recv_fuel (sock_in s)) \<or>
      (\<exists>b. r = Nio (length b) \<and> 0 < length b \<and> length b \<le> window_len c \<and>
         recv_bytes (sock_in s) = b @ recv_bytes (sock_in s') \<and> recv_fuel (sock_in s') < recv_fuel (sock_in s) \<and>
         buf_change c c' \<and> msg_bytes c' = write_at (msg_bytes c) (msg_pos c) b))"

lemma Readv_one:
  assumes v: "iov c = v # rest" "nvec c = 1" "iov_len v > 0" and g: "recv_good (sock_in s)"
    and st: "\<And>b. length b \<le> iov_len v \<Longrightarrow> buf_change c (store_bytes (iov_reg v) (iov_base v) b c) \<and>
       msg_bytes (store_bytes (iov_reg v) (iov_base v) b c) = write_at (msg_bytes c) (msg_pos c) b"
  shows "\<exists>r c' s'. Unameit_Stream_Readv c s = Done (r, c', s') \<and> read_outcome c s r c' s'"
proof -
  have wl: "window_len c = iov_len v" using v by (simp add: window_len_def)
  show ?thesis using recv_call_good [OF g v(3)]
  proof (elim disjE exE conjE)
    assume "recv_call (iov_len v) s = ((None, Would_Block), s)" "sock_in s = []"
    then show ?thesis using v g by (auto simp: Unameit_Stream_Readv_def read_outcome_def)
  next
    fix s' assume "recv_call (iov_len v) s = ((None, Would_Block), s')" "recv_good (sock_in s')"
      "recv_bytes (sock_in s') = recv_bytes (sock_in s)" "recv_fuel (sock_in s') < recv_fuel (sock_in s)"
    then show ?thesis using v by (auto simp: Unameit_Stream_Readv_def read_outcome_def)
  next
    fix b s' assume A: "recv_call (iov_len v) s = ((Some b, Nio (length b)), s')" "0 < length b" "length b \<le> iov_len v"
      "recv_good (sock_in s')" "recv_bytes (sock_in s) = b @ recv_bytes (sock_in s')"
      "recv_fuel (sock_in s') < recv_fuel (sock_in s)"
    then show ?thesis using v st [OF A(3)] wl
      by (intro exI [of _ "Nio (length b)"] exI [of _ "store_bytes (iov_reg v) (iov_base v) b c"] exI [of _ s'])
        (auto simp: Unameit_Stream_Readv_def read_outcome_def simp del: store_bytes.simps)
  qed
qed

lemma Readv_two:
  assumes v: "take (nvec c) (iov c) = [v, u]" "nvec c = 2" "iov_len v > 0" "iov_len u > 0" and g: "recv_good (sock_in s)"
    and st: "\<And>b. length b \<le> iov_len v \<Longrightarrow> buf_change c (store_bytes (iov_reg v) (iov_base v) b c) \<and>
       msg_bytes (store_bytes (iov_reg v) (iov_base v) b c) = write_at (msg_bytes c) (msg_pos c) b"
    and st2: "\<And>b a. length b = iov_len v \<Longrightarrow> length a \<le> iov_len u \<Longrightarrow>
       buf_change c (store_bytes (iov_reg u) (iov_base u) a (store_bytes (iov_reg v) (iov_base v) b c)) \<and>
       msg_bytes (store_bytes (iov_reg u) (iov_base u) a (store_bytes (iov_reg v) (iov_base v) b c))
         = write_at (msg_bytes c) (msg_pos c) (b @ a)"
  shows "\<exists>r c' s'. Unameit_Stream_Readv c s = Done (r, c', s') \<and> read_outcome c s r c' s'"
proof -
  have wl: "window_len c = iov_len v + iov_len u" using v by (simp add: window_len_def)
  have R: "Unameit_Stream_Readv c s = Done (readv_loop [v, u] 0 c s)" using v by (simp add: Unameit_Stream_Readv_def)
  show ?thesis using recv_call_good [OF g v(3)]
  proof (elim disjE exE conjE)
    assume "recv_call (iov_len v) s = ((None, Would_Block), s)" "sock_in s = []"
    then show ?thesis using g by (simp add: R read_outcome_def)
  next
    fix s' assume "recv_call (iov_len v) s = ((None, Would_Block), s')" "recv_good (sock_in s')"
      "recv_bytes (sock_in s') = recv_bytes (sock_in s)" "recv_fuel (sock_in s') < recv_fuel (sock_in s)"
    then show ?thesis by (simp add: R read_outcome_def)
  next
    fix b s' assume A: "recv_call (iov_len v) s = ((Some b, Nio (length b)), s')" "0 < length b" "length b \<le> iov_len v"
      "recv_good (sock_in s')" "recv_bytes (sock_in s) = b @ recv_bytes (sock_in s')"
      "recv_fuel (sock_in s') < recv_fuel (sock_in s)"
    let ?c = "store_bytes (iov_reg v) (iov_base v) b c"
    have one: "read_outcome c s (Nio (length b)) ?c s''" 
      if "recv_good (sock_in s'')" "recv_bytes (sock_in s'') = recv_bytes (sock_in s')" "recv_fuel (sock_in s'') \<le> recv_fuel (sock_in s')" for s''
      using A st [OF A(3)] wl that by (auto simp: read_outcome_def simp del: store_bytes.simps)
    show ?thesis
    proof (cases "length b = iov_len v")
      case False
      then show ?thesis using A one [of s'] by (simp add: R del: store_bytes.simps)
    next
      case lb: True
      show ?thesis using recv_call_good [OF A(4) v(4)]
      proof (elim disjE exE conjE)
        assume "recv_call (iov_len u) s' = ((None, Would_Block), s')" "sock_in s' = []"
        then show ?thesis using A one [of s'] lb v by (simp add: R del: store_bytes.simps)
      next
        fix s'' assume "recv_call (iov_len u) s' = ((None, Would_Block), s'')" "recv_good (sock_in s'')"
          "recv_bytes (sock_in s'') = recv_bytes (sock_in s')" "recv_fuel (sock_in s'') < recv_fuel (sock_in s')"
        then show ?thesis using A one [of s''] lb v by (simp add: R del: store_bytes.simps)
      next
        fix a s'' assume B: "recv_call (iov_len u) s' = ((Some a, Nio (length a)), s'')" "0 < length a" "length a \<le> iov_len u"
          "recv_good (sock_in s'')" "recv_bytes (sock_in s') = a @ recv_bytes (sock_in s'')"
          "recv_fuel (sock_in s'') < recv_fuel (sock_in s')"
        let ?c2 = "store_bytes (iov_reg u) (iov_base u) a ?c"
        have "Unameit_Stream_Readv c s = Done (Nio (length (b @ a)), ?c2, s'')"
          using A B lb by (simp add: R Let_def del: store_bytes.simps)
        moreover have "read_outcome c s (Nio (length (b @ a))) ?c2 s''"
          using A B lb st2 [OF lb B(3)] wl unfolding read_outcome_def by (intro conjI disjI2 exI [of _ "b @ a"]) auto
        ultimately show ?thesis by blast
      qed
    qed
  qed
qed

lemma Readv_data:
  assumes wf: "transfer_wf c w" and b: "bufs_ok c" and st: "conn_state c = CONN_READING" and h: "header_offset c = HDR_LEN"
    and d: "msg_data c \<noteq> None" and g: "recv_good (sock_in s)" and n: "nvec c > 0"
  shows "\<exists>r c' s'. Unameit_Stream_Readv c s = Done (r, c', s') \<and> read_outcome c s r c' s'"
proof -
  have tw: "trailer_offset c \<le> MIC_LEN" "c_off c + w \<le> c_len c" "c_off c < c_len c \<longrightarrow> 0 < w" "length (iov c) = 3"
    using wf by (auto simp: transfer_wf_def)
  have nw: "nvec c = length (window c w)" and tk: "take (nvec c) (iov c) = window c w"
    using nvec_window [OF wf] wf by (auto simp: transfer_wf_def)
  obtain v0 v1 v2 where iov: "iov c = [v0, v1, v2]" using iov_three [OF tw(4)] by blast
  have D: "buf_change c (store_bytes R_Data (c_off c) x c) \<and>
       msg_bytes (store_bytes R_Data (c_off c) x c) = write_at (msg_bytes c) (HDR_LEN + c_off c) x" if "length x \<le> w" for x
    using that tw store_data_bytes [OF b _ d, of "c_off c" x] buf_change_data [OF b, of "c_off c" x] by simp
  show ?thesis
  proof (cases "c_off c < c_len c")
    case lt: True
    then have pos: "msg_pos c = HDR_LEN + c_off c" using h by (simp add: msg_pos_def)
    show ?thesis
    proof (cases "c_mic c \<and> c_off c + w = c_len c")
      case mic: True
      then have t0: "trailer_offset c = 0" using wf lt by (simp add: transfer_wf_def)
      have win: "window c w = [seg R_Data (c_off c) w, seg R_Mic 0 MIC_LEN]"
        using mic lt h t0 by (simp add: window_def data_window_def)
      have M: "buf_change c (store_bytes R_Mic 0 a (store_bytes R_Data (c_off c) x c)) \<and>
          msg_bytes (store_bytes R_Mic 0 a (store_bytes R_Data (c_off c) x c)) = write_at (msg_bytes c) (msg_pos c) (x @ a)"
        if x: "length x = w" and a: "length a \<le> MIC_LEN" for x a
      proof -
        let ?c = "store_bytes R_Data (c_off c) x c"
        have B: "buf_change c ?c" "msg_bytes ?c = write_at (msg_bytes c) (HDR_LEN + c_off c) x" using D [of x] x by auto
        note S = buf_change_simps [OF B(1)]
        have mc: "c_mic ?c" using mic S by (simp add: mic_expected_def del: store_bytes.simps)
        have "msg_bytes (store_bytes R_Mic 0 a ?c) = write_at (msg_bytes ?c) (HDR_LEN + c_len c) a"
          using store_mic_bytes [of ?c 0 a] b S a mc by simp
        also have "\<dots> = write_at (msg_bytes c) (msg_pos c) (x @ a)"
          unfolding B(2) pos using x mic tw length_msg_bytes [OF b]
            write_at_write_at [of "HDR_LEN + c_off c" x "msg_bytes c" a]
          by (simp add: msg_total_def add.assoc)
        finally have m: "msg_bytes (store_bytes R_Mic 0 a ?c) = write_at (msg_bytes c) (msg_pos c) (x @ a)" .
        have "buf_change ?c (store_bytes R_Mic 0 a ?c)" using buf_change_mic [of ?c 0 a] b S a by simp
        then have "buf_change c (store_bytes R_Mic 0 a ?c)" using buf_change_trans [OF B(1)] by blast
        then show ?thesis using m by blast
      qed
      show ?thesis
        by (rule Readv_two [of c "seg R_Data (c_off c) w" "seg R_Mic 0 MIC_LEN"])
          (use win nw tk lt tw g D M pos in \<open>auto simp del: store_bytes.simps\<close>)
    next
      case False
      then have win: "window c w = [seg R_Data (c_off c) w]" using lt h by (auto simp: window_def data_window_def)
      show ?thesis
        by (rule Readv_one [of c "seg R_Data (c_off c) w" "[v1, v2]"])
          (use win nw tk iov lt tw g D pos in \<open>auto simp del: store_bytes.simps\<close>)
    qed
  next
    case False
    then have o: "c_off c = c_len c" "w = 0" using tw by auto
    then have mic: "c_mic c" "trailer_offset c < MIC_LEN" using n nw h by (auto simp: window_def data_window_def split: if_splits)
    then have win: "window c w = [seg R_Mic (trailer_offset c) (MIC_LEN - trailer_offset c)]"
      using o h by (simp add: window_def data_window_def)
    have pos: "msg_pos c = HDR_LEN + c_len c + trailer_offset c" using o h mic by (simp add: msg_pos_def)
    have M: "buf_change c (store_bytes R_Mic (trailer_offset c) x c) \<and>
       msg_bytes (store_bytes R_Mic (trailer_offset c) x c) = write_at (msg_bytes c) (msg_pos c) x"
      if "length x \<le> MIC_LEN - trailer_offset c" for x
      using that mic store_mic_bytes [OF b _ mic(1), of "trailer_offset c" x] buf_change_mic [OF b, of "trailer_offset c" x] pos by simp
    show ?thesis
      by (rule Readv_one [of c "seg R_Mic (trailer_offset c) (MIC_LEN - trailer_offset c)" "[v1, v2]"])
        (use win nw tk iov mic g M pos in \<open>auto simp del: store_bytes.simps\<close>)
  qed
qed

subsection \<open>Receiving a message\<close>

definition rmic_frame :: "'x conn_t \<Rightarrow> 'x conn_t \<Rightarrow> bool" where
  "rmic_frame c c' \<longleftrightarrow> c' = c\<lparr>trailer_mic := trailer_mic c', read_mic_ok := read_mic_ok c', write_mic := write_mic c',
     crypto := crypto c'\<rparr> \<and> length (trailer_mic c') = MIC_LEN"

lemma rmic_frame_simps:
  assumes "rmic_frame c c'" "conn_state c = CONN_READING"
  shows "transfer_wf c' w = transfer_wf c w" "window_len c' = window_len c" "nvec c' = nvec c"
    "msg_pos c' = msg_pos c" "msg_total c' = msg_total c"
    "conn_state c' = CONN_READING" "conn_errno c' = conn_errno c" "conn_callback_set c' = conn_callback_set c"
    "header_data c' = header_data c" "region_bytes c' R_Data = region_bytes c R_Data" "c_len c' = c_len c"
    "read_mic c' = read_mic c" "bufs_ok c \<Longrightarrow> bufs_ok c'" "msg_data c' = msg_data c" "maxlen c' = maxlen c"
    "auth_type c' = auth_type c" "header_offset c' = header_offset c" "length (trailer_mic c') = MIC_LEN"
  using assms unfolding rmic_frame_def
  by (cases c; cases c'; simp add: transfer_wf_def window_def data_window_def window_len_def msg_pos_def
      bufs_ok_def msg_total_def mic_expected_def)+

text \<open>A message the receiver accepts: header, data and check value.\<close>

definition msg_ok :: "u8 list \<Rightarrow> u8 list \<Rightarrow> u8 list \<Rightarrow> u32 \<Rightarrow> bool \<Rightarrow> bool" where
  "msg_ok H D T mx mic \<longleftrightarrow> length H = HDR_LEN \<and> ntoh_copy H 0 = CONN_MAGIC \<and>
     ntoh_copy H 12 = of_nat (length D) \<and> length D < 2 ^ 31 \<and> length T = (if mic then MIC_LEN else 0) \<and>
     (mx = 0 \<or> of_nat (length D) \<le> mx)"

definition received :: "u8 list \<Rightarrow> u8 list \<Rightarrow> u8 list \<Rightarrow> 'x conn_t \<Rightarrow> bool" where
  "received H D T c \<longleftrightarrow> bufs_ok c \<and> auth_type c = ntoh_copy H 4 \<and> c_len c = length D \<and>
     (\<exists>d. msg_data c = Some d \<and> length d = length D + 1 \<and> d ! length D = 0) \<and>
     take (msg_pos c) (msg_bytes c) = take (msg_pos c) (H @ D @ T)"

text \<open>What further bytes of a message leave alone.\<close>

definition msg_extends :: "'x conn_t \<Rightarrow> 'x conn_t \<Rightarrow> bool" where
  "msg_extends c c' \<longleftrightarrow> crypto c' = crypto c \<and> read_mic c' = read_mic c \<and> conn_state c' = conn_state c \<and>
     (header_offset c = HDR_LEN \<longrightarrow> header_offset c' = HDR_LEN \<and> header_data c' = header_data c \<and>
        msg_length c' = msg_length c \<and> c_off c \<le> c_off c' \<and>
        take (c_off c) (region_bytes c' R_Data) = take (c_off c) (region_bytes c R_Data) \<and>
        c_len c' \<le> length (region_bytes c' R_Data))"

lemma stream_split:
  assumes "drop p M @ rest = b @ r" "p + length b \<le> length M"
  shows "take (length b) (drop p M) = b" "r = drop (p + length b) M @ rest"
proof -
  have l: "length b \<le> length (drop p M)" using assms(2) by simp
  have "take (length b) (drop p M @ rest) = b" "drop (length b) (drop p M @ rest) = r" by (simp_all only: assms(1) append_eq_conv_conj) simp_all
  then show "take (length b) (drop p M) = b" "r = drop (p + length b) M @ rest" using l by (simp_all add: add.commute)
qed

lemma take_take_append: "take (length A) (take n (A @ T)) = take n A"
  by (simp add: min_def)

lemma take_le_eq: "take p a = take p m \<Longrightarrow> take q b = take q m \<Longrightarrow> n \<le> p \<Longrightarrow> n \<le> q \<Longrightarrow> take n b = take n a"
  by (metis min_absorb1 take_take)

locale read_mic_contract =
  fixes ops :: "'x conn_ops" and usable :: "'x \<Rightarrow> bool" and rready :: "'x conn_t \<Rightarrow> bool"
  assumes rreset: "conn_state c = CONN_READING \<Longrightarrow> read_mic c \<Longrightarrow> length (trailer_mic c) = MIC_LEN \<Longrightarrow>
      header_offset c = 0 \<Longrightarrow> usable (crypto c) \<Longrightarrow>
      \<exists>c'. update_read_mic ops c True = Done c' \<and> rmic_frame c c' \<and> rready c'"
    and rready_extends: "rready c \<Longrightarrow> msg_extends c c' \<Longrightarrow> rready c'"
    and rupdate: "transfer_wf c w \<Longrightarrow> bufs_ok c \<Longrightarrow> conn_state c = CONN_READING \<Longrightarrow> conn_errno c = ERR_CONN_OK \<Longrightarrow>
      header_offset c = HDR_LEN \<Longrightarrow> read_mic c \<Longrightarrow> rready c \<Longrightarrow>
      \<exists>c'. update_read_mic ops c False = Done c' \<and> rmic_frame c c' \<and>
        (nvec c > 0 \<longrightarrow> rready c' \<and> trailer_mic c' = trailer_mic c)"
begin

definition receiver :: "u8 list \<Rightarrow> u8 list \<Rightarrow> u8 list \<Rightarrow> u8 list \<Rightarrow> 'x conn_t \<Rightarrow> sock \<Rightarrow> bool" where
  "receiver H D T rest c s \<longleftrightarrow>
     (\<exists>w. transfer_wf c w) \<and> conn_state c = CONN_READING \<and> conn_errno c = ERR_CONN_OK \<and> conn_callback_set c \<and>
     (read_mic c \<longrightarrow> rready c) \<and> msg_ok H D T (maxlen c) (read_mic c) \<and>
     length (header_data c) = HDR_LEN \<and> length (trailer_mic c) = MIC_LEN \<and>
     recv_good (sock_in s) \<and> recv_bytes (sock_in s) = drop (msg_pos c) (H @ D @ T) @ rest \<and>
     (if header_offset c < HDR_LEN then take (header_offset c) (header_data c) = take (header_offset c) H
      else received H D T c)"

text \<open>A complete message: the integrity check has seen it with its check value as it arrived.\<close>

definition finished :: "u8 list \<Rightarrow> u8 list \<Rightarrow> u8 list \<Rightarrow> u8 list \<Rightarrow> 'x conn_t \<Rightarrow> sock \<Rightarrow> bool" where
  "finished H D T rest c s \<longleftrightarrow> (\<exists>c0. receiver H D T rest c0 s \<and> nvec c0 = 0 \<and>
     (if read_mic c0 then update_read_mic ops c0 False = Done c \<and> rmic_frame c0 c else c = c0))"

definition progressed :: "u8 list \<Rightarrow> u8 list \<Rightarrow> u8 list \<Rightarrow> u8 list \<Rightarrow> 'x conn_t \<Rightarrow> sock \<Rightarrow> bool" where
  "progressed H D T rest c s \<longleftrightarrow> (if nvec c = 0 then finished H D T rest c s else receiver H D T rest c s)"

lemma receiver_update:
  assumes R: "receiver H D T rest c s" and h: "header_offset c = HDR_LEN"
  shows "\<exists>c'. (if read_mic c then update_read_mic ops c False else Done c) = Done c' \<and> progressed H D T rest c' s"
proof (cases "read_mic c")
  case False
  then show ?thesis using R by (auto simp: progressed_def finished_def)
next
  case True
  have rec: "received H D T c" and st: "conn_state c = CONN_READING" and er: "conn_errno c = ERR_CONN_OK" and rd: "rready c"
    using R h True by (auto simp: receiver_def)
  then have b: "bufs_ok c" by (simp add: received_def)
  obtain w where wf: "transfer_wf c w" using R by (auto simp: receiver_def)
  obtain c' where c': "update_read_mic ops c False = Done c'" "rmic_frame c c'"
      "nvec c > 0 \<longrightarrow> rready c' \<and> trailer_mic c' = trailer_mic c"
    using rupdate [OF wf b st er h True rd] by (elim exE conjE) (rule that)
  note F = rmic_frame_simps [OF c'(2) st]
  show ?thesis
  proof (cases "nvec c = 0")
    case True2: True
    then show ?thesis using R c' True F(3) by (auto simp: progressed_def finished_def)
  next
    case False
    then have m: "msg_bytes c' = msg_bytes c" using c'(3) F st by (simp add: msg_bytes_def mic_expected_def)
    then have "received H D T c'" using rec F by (auto simp: received_def)
    then show ?thesis using R F c' True h False by (auto simp: receiver_def progressed_def)
  qed
qed

lemma receiver_data_arrival:
  assumes R: "receiver H D T rest c s" and h: "header_offset c = HDR_LEN" and n: "nvec c > 0"
    and O: "recv_good (sock_in s1)" "length b \<le> window_len c" "recv_bytes (sock_in s) = b @ recv_bytes (sock_in s1)"
      "buf_change c c1" "msg_bytes c1 = write_at (msg_bytes c) (msg_pos c) b"
  shows "\<exists>c2. slide_window heap c1 (length b) = Done c2 \<and> receiver H D T rest c2 s1 \<and> header_offset c2 = HDR_LEN"
proof -
  let ?M = "H @ D @ T"
  have rec: "received H D T c" and st: "conn_state c = CONN_READING" using R h by (auto simp: receiver_def)
  have b: "bufs_ok c" and ld: "c_len c = length D" using rec by (auto simp: received_def)
  obtain w where wf: "transfer_wf c w" using R by (auto simp: receiver_def)
  note F = buf_change_simps [OF O(4)]
  have h': "header_offset c1 < HDR_LEN \<longrightarrow> conn_state c1 = CONN_WRITING" using F h by simp
  obtain c2 w2 where c2: "slide_window heap c1 (length b) = Done c2" "transfer_wf c2 w2" "msg_pos c2 = msg_pos c1 + length b" "same_msg c1 c2"
    using slide_window_wf [of c1 w "length b" heap] wf F h' O(2) by auto
  note G = same_msg_simps [OF c2(4)]
  have hl: "length H = HDR_LEN" and tl: "length T = (if read_mic c then MIC_LEN else 0)" using R by (auto simp: receiver_def msg_ok_def)
  have mt: "msg_total c = length ?M" using ld hl tl st by (simp add: msg_total_def mic_expected_def)
  have le: "msg_pos c + length b \<le> length ?M" using window_cases [OF wf] h n O(2) mt by fastforce
  have str: "drop (msg_pos c) ?M @ rest = b @ recv_bytes (sock_in s1)" using R O(3) by (simp add: receiver_def)
  note bM = stream_split(1) [OF str le] and rb = stream_split(2) [OF str le]
  have pf: "take (msg_pos c) (msg_bytes c) = take (msg_pos c) ?M" using rec by (simp add: received_def)
  have pl: "msg_pos c \<le> length (msg_bytes c)" using le mt length_msg_bytes [OF b] by simp
  have full: "take (msg_pos c2) (msg_bytes c2) = take (msg_pos c2) ?M"
  proof -
    have "take (msg_pos c2) (msg_bytes c2) = take (msg_pos c) ?M @ b"
      unfolding G c2(3) F O(5) take_write_at [OF pl] pf by (rule refl)
    also have "\<dots> = take (msg_pos c2) ?M" unfolding c2(3) F take_add bM by (rule refl)
    finally show ?thesis .
  qed
  have "\<exists>d. msg_data c2 = Some d \<and> length d = length D + 1 \<and> d ! length D = 0"
  proof -
    obtain d where d: "msg_data c = Some d" "length d = length D + 1" "d ! length D = 0" using rec by (auto simp: received_def)
    obtain d' where d': "msg_data c1 = Some d'" "length d' = length d" "drop (length D) d' = drop (length D) d"
      using O(4) d ld by (auto simp: buf_change_def)
    have "d' ! length D = 0" using d d' by (metis Cons_nth_drop_Suc less_add_one nth_via_drop)
    then show ?thesis using d d' G by simp
  qed
  then have "received H D T c2"
    using full rec b G F ld by (auto simp: received_def)
  moreover have ho: "header_offset c2 = HDR_LEN"
  proof (rule ccontr)
    assume "header_offset c2 \<noteq> HDR_LEN"
    then have "msg_pos c2 < HDR_LEN" using c2(2) by (auto simp: transfer_wf_def msg_pos_def)
    then show False using c2(3) F h by (simp add: msg_pos_def)
  qed
  moreover have "length (trailer_mic c1) = MIC_LEN" "length (header_data c1) = HDR_LEN" using b F(7) by (auto simp: bufs_ok_def)
  moreover have "read_mic c2 \<longrightarrow> rready c2"
  proof
    assume "read_mic c2"
    then have "rready c" using R G F by (simp add: receiver_def)
    moreover have "msg_extends c c2"
    proof -
      have off: "c_off c \<le> c_off c2"
        using c2(2,3) F G wf h ho by (auto simp: transfer_wf_def msg_pos_def split: if_split_asm)
      have le2: "HDR_LEN + c_off c \<le> msg_pos c" using h by (simp add: msg_pos_def)
      have "take (HDR_LEN + c_off c) (msg_bytes c2) = take (HDR_LEN + c_off c) (msg_bytes c)"
        by (rule take_le_eq [OF pf full]) (use le2 c2(3) F(5) in simp_all)
      moreover have "take (HDR_LEN + c_off c) (msg_bytes y) = header_data y @ take (c_off c) (region_bytes y R_Data)"
        if "bufs_ok y" "c_len y = c_len c" for y :: "'x conn_t"
        using that wf by (simp add: msg_bytes_def bufs_ok_def transfer_wf_def min_absorb1 del: region_bytes.simps)
      ultimately have "take (c_off c) (region_bytes c2 R_Data) = take (c_off c) (region_bytes c R_Data)"
        using b G F by simp
      moreover have "c_len c2 \<le> length (region_bytes c2 R_Data)" using b G(1) F(7) by (simp add: bufs_ok_def del: region_bytes.simps)
      ultimately show ?thesis using G F ho off by (auto simp: msg_extends_def unsigned_word_eqI)
    qed
    ultimately show "rready c2" by (rule rready_extends)
  qed
  ultimately have "receiver H D T rest c2 s1"
    using R c2 G F O(1) rb by (auto simp: receiver_def)
  then show ?thesis using c2(1) ho by blast
qed

lemma receiver_header_arrival:
  assumes R: "receiver H D T rest c s" and h: "header_offset c < HDR_LEN" 
    and O: "recv_good (sock_in s1)" "0 < length b" "length b \<le> HDR_LEN - header_offset c" "recv_bytes (sock_in s) = b @ recv_bytes (sock_in s1)"
  defines "c1 \<equiv> store_bytes R_Header (header_offset c) b c"
  shows "\<exists>c2. slide_window heap c1 (length b) = Done c2 \<and> receiver H D T rest c2 s1 \<and> (header_offset c2 < HDR_LEN \<longrightarrow> nvec c2 > 0)"
proof -
  let ?M = "H @ D @ T"
  have st: "conn_state c = CONN_READING" using R by (simp add: receiver_def)
  obtain w where wf: "transfer_wf c w" using R by (auto simp: receiver_def)
  have z: "c_off c = 0" "c_len c = 0" "w = 0" "trailer_offset c \<le> MIC_LEN" "length (iov c) = 3"
    using wf h st by (auto simp: transfer_wf_def)
  have pos: "msg_pos c = header_offset c" using z h by (simp add: msg_pos_def)
  obtain v1 v2 where iov: "iov c = [seg R_Header (header_offset c) (HDR_LEN - header_offset c), v1, v2]" and nv: "nvec c = 1"
    using transfer_header_window [OF wf h] st by blast
  have ok: "msg_ok H D T (maxlen c) (read_mic c)" and hd: "length (header_data c) = HDR_LEN" "length (trailer_mic c) = MIC_LEN"
    "take (header_offset c) (header_data c) = take (header_offset c) H" using R h by (auto simp: receiver_def)
  have hl: "length H = HDR_LEN" using ok by (simp add: msg_ok_def)
  have str: "drop (msg_pos c) ?M @ rest = b @ recv_bytes (sock_in s1)" using R O(4) by (simp add: receiver_def)
  have le: "msg_pos c + length b \<le> length ?M" using O(3) hl pos h by simp
  note bM = stream_split(1) [OF str le] and rb = stream_split(2) [OF str le]
  have bH: "take (length b) (drop (header_offset c) H) = b" using bM pos hl O(3) by simp
  have hdr: "take (header_offset c + length b) (header_data c1) = take (header_offset c + length b) H"
  proof -
    have "take (header_offset c + length b) (header_data c1) = take (header_offset c) H @ b"
      using take_write_at [of "header_offset c" "header_data c" b] hd h by (simp add: c1_def)
    also have "\<dots> = take (header_offset c + length b) H" unfolding take_add bH by (rule refl)
    finally show ?thesis .
  qed
  have c1: "conn_state c1 = CONN_READING" "header_offset c1 = header_offset c" "iov c1 = iov c" "nvec c1 = 1"
    "length (header_data c1) = HDR_LEN" using st nv hd O(3) h by (simp_all add: c1_def)
  show ?thesis
  proof (cases "header_offset c + length b < HDR_LEN")
    case True
    let ?c = "c1\<lparr>header_offset := header_offset c + length b,
       iov := [seg R_Header (header_offset c + length b) (HDR_LEN - header_offset c - length b), v1, v2]\<rparr>"
    have sw: "slide_window heap c1 (length b) = Done ?c"
      using True h iov c1 by (simp add: slide_window_def)
    have "transfer_wf ?c 0" using wf True st z nv h
      by (simp add: c1_def transfer_wf_def window_def data_window_def mic_expected_def)
    moreover have "msg_pos ?c = msg_pos c + length b" using True h z by (simp add: msg_pos_def c1_def)
    moreover have "read_mic c \<longrightarrow> rready ?c"
      using R h rready_extends [of c ?c] by (auto simp: receiver_def msg_extends_def c1_def)
    ultimately have "receiver H D T rest ?c s1" using R O(1) rb hdr True c1 by (auto simp: receiver_def c1_def)
    then show ?thesis using c1 sw by auto
  next
    case False
    then have eq: "header_offset c + length b = HDR_LEN" using O(3) h by simp
    have H1: "header_data c1 = H" using hdr eq c1(5) hl by simp
    have mH: "ntoh_copy H 0 = CONN_MAGIC" "ntoh_copy H 12 = of_nat (length D)" "length D < 2 ^ 31" "maxlen c = 0 \<or> of_nat (length D) \<le> maxlen c"
      using ok by (auto simp: msg_ok_def)
    have uD: "unat (of_nat (length D) :: u32) = length D" "unat (of_nat (length D) + 1 :: u32) = length D + 1"
      using mH(3) unat_add_of_nat [of "of_nat (length D)" 1] by (simp_all add: unat_of_nat)
    define buf where "buf = take (length D + 1) heap @ replicate (length D + 1 - length heap) 0"
    have lbuf: "length buf = length D + 1" by (auto simp: buf_def)
    let ?a = "c1\<lparr>header_offset := HDR_LEN, msg_length := of_nat (length D), auth_type := ntoh_copy H 4,
        msg_data := Some (buf[length D := 0]), msg_free := TCL_DYNAMIC\<rparr>"
    have al: "alloc_data heap (c1\<lparr>header_offset := HDR_LEN\<rparr>) = Done ?a"
      using mH H1 uD by (auto simp: alloc_data_def buf_def c1_def Let_def not_less)
    let ?c2 = "iov_init_data ?a (conn_state ?a)"
    have sw: "slide_window heap c1 (length b) = Done ?c2"
      using False h eq c1 al by (simp add: slide_window_def slide_data_def)
    have I: "transfer_wf ?c2 (min (c_len ?a) (CONN_PKT_LEN - HDR_LEN))" "same_msg ?a ?c2" "msg_pos ?c2 = HDR_LEN" "header_offset ?c2 = HDR_LEN"
      by (rule iov_init_data_wf; use c1 iov z mH uD in \<open>simp add: c1_def\<close>)+
    note G = same_msg_simps [OF I(2)]
    have bk: "bufs_ok ?c2" unfolding G using c1 hd uD lbuf by (simp add: bufs_ok_def c1_def)
    have mb: "take HDR_LEN (msg_bytes ?c2) = H" unfolding G using H1 hl by (simp add: msg_bytes_def)
    have "received H D T ?c2"
      using bk mb I(3) G uD lbuf hl by (simp add: received_def)
    moreover have "drop HDR_LEN ?M @ rest = recv_bytes (sock_in s1)" using rb pos eq by simp
    moreover have "read_mic c \<longrightarrow> rready ?c2"
      using R h rready_extends [of c ?c2] G st by (auto simp: receiver_def msg_extends_def c1_def)
    ultimately have "receiver H D T rest ?c2 s1"
      using R I O(1) bk G c1 unfolding receiver_def by (auto simp: c1_def bufs_ok_def)
    then show ?thesis using sw I(4) by auto
  qed
qed

lemma read_arrived_receiver:
  assumes "slide_window heap c1 n = Done c2" "receiver H D T rest c2 s1" "header_offset c2 < HDR_LEN \<longrightarrow> nvec c2 > 0"
  shows "\<exists>r c'. read_arrived ops heap n c1 s1 = Done (r, c', s1) \<and> progressed H D T rest c' s1 \<and> (r \<longrightarrow> nvec c' > 0)"
proof (cases "header_offset c2 < HDR_LEN")
  case True
  then show ?thesis using assms by (auto simp: read_arrived_def progressed_def)
next
  case False
  then have "header_offset c2 = HDR_LEN" using assms(2) by (auto simp: receiver_def transfer_wf_def)
  then obtain c' where c': "(if read_mic c2 then update_read_mic ops c2 False else Done c2) = Done c'" "progressed H D T rest c' s1"
    using receiver_update [OF assms(2)] by blast
  have "read_arrived ops heap n c1 s1 = Done (False, c', s1)" using assms(1) False c'(1) by (simp add: read_arrived_def)
  then show ?thesis using c'(2) by blast
qed

lemma Readv_header:
  assumes R: "receiver H D T rest c s" and h: "header_offset c < HDR_LEN"
  shows "(sock_in s = [] \<and> Unameit_Stream_Readv c s = Done (Would_Block, c, s)) \<or>
    (\<exists>s'. Unameit_Stream_Readv c s = Done (Would_Block, c, s') \<and> recv_good (sock_in s') \<and>
       recv_bytes (sock_in s') = recv_bytes (sock_in s) \<and> recv_fuel (sock_in s') < recv_fuel (sock_in s)) \<or>
    (\<exists>b s'. Unameit_Stream_Readv c s = Done (Nio (length b), store_bytes R_Header (header_offset c) b c, s') \<and>
       0 < length b \<and> length b \<le> HDR_LEN - header_offset c \<and> recv_good (sock_in s') \<and>
       recv_bytes (sock_in s) = b @ recv_bytes (sock_in s') \<and> recv_fuel (sock_in s') < recv_fuel (sock_in s))"
proof -
  obtain w where wf: "transfer_wf c w" using R by (auto simp: receiver_def)
  have st: "conn_state c = CONN_READING" using R by (simp add: receiver_def)
  obtain v1 v2 where iov: "iov c = [seg R_Header (header_offset c) (HDR_LEN - header_offset c), v1, v2]" and nv: "nvec c = 1"
    using transfer_header_window [OF wf h] st by blast
  have g: "recv_good (sock_in s)" and l: "HDR_LEN - header_offset c > 0" using R h by (auto simp: receiver_def)
  have E: "Unameit_Stream_Readv c s = (case recv_call (HDR_LEN - header_offset c) s of
      ((Some b, r), s) \<Rightarrow> Done (r, store_bytes R_Header (header_offset c) b c, s)
    | ((None, r), s) \<Rightarrow> Done (r, c, s))"
    by (simp add: Unameit_Stream_Readv_def iov nv split: prod.splits option.splits)
  show ?thesis unfolding E using recv_call_good [OF g l]
    by (elim disjE exE conjE) (auto simp del: store_bytes.simps)
qed

lemma read_step_receiver:
  assumes R: "receiver H D T rest c s" and n: "nvec c > 0"
  shows "\<exists>r c' s'. read_step ops heap c s = Done (r, c', s') \<and> progressed H D T rest c' s' \<and> (r \<longrightarrow> nvec c' > 0) \<and>
     (sock_in s = [] \<and> r \<and> c' = c \<and> s' = s \<or> recv_fuel (sock_in s') < recv_fuel (sock_in s))"
proof (cases "header_offset c < HDR_LEN")
  case h: True
  show ?thesis using Readv_header [OF R h]
  proof (elim disjE exE conjE)
    assume "Unameit_Stream_Readv c s = Done (Would_Block, c, s)" "sock_in s = []"
    then show ?thesis using R n by (auto simp: read_step_def progressed_def)
  next
    fix s' assume "Unameit_Stream_Readv c s = Done (Would_Block, c, s')" "recv_good (sock_in s')"
       "recv_bytes (sock_in s') = recv_bytes (sock_in s)" "recv_fuel (sock_in s') < recv_fuel (sock_in s)"
    moreover from this have "receiver H D T rest c s'" using R by (simp add: receiver_def)
    ultimately show ?thesis using n by (auto simp: read_step_def progressed_def)
  next
    fix b s' assume A: "Unameit_Stream_Readv c s = Done (Nio (length b), store_bytes R_Header (header_offset c) b c, s')"
       "0 < length b" "length b \<le> HDR_LEN - header_offset c" "recv_good (sock_in s')"
       "recv_bytes (sock_in s) = b @ recv_bytes (sock_in s')" "recv_fuel (sock_in s') < recv_fuel (sock_in s)"
    obtain c2 where c2: "slide_window heap (store_bytes R_Header (header_offset c) b c) (length b) = Done c2"
        "receiver H D T rest c2 s'" "header_offset c2 < HDR_LEN \<longrightarrow> nvec c2 > 0"
      using receiver_header_arrival [OF R h A(4,2,3,5)] by blast
    obtain r c' where "read_arrived ops heap (length b) (store_bytes R_Header (header_offset c) b c) s' = Done (r, c', s')"
        "progressed H D T rest c' s'" "r \<longrightarrow> nvec c' > 0"
      using read_arrived_receiver [OF c2] by blast
    then show ?thesis using A by (simp add: read_step_def)
  qed
next
  case False
  then have h: "header_offset c = HDR_LEN" using R by (auto simp: receiver_def transfer_wf_def)
  obtain w where wf: "transfer_wf c w" using R by (auto simp: receiver_def)
  have g: "recv_good (sock_in s)" "conn_state c = CONN_READING" "bufs_ok c" "msg_data c \<noteq> None"
    using R h by (auto simp: receiver_def received_def)
  obtain r c1 s1 where O: "Unameit_Stream_Readv c s = Done (r, c1, s1)" "read_outcome c s r c1 s1"
    using Readv_data [OF wf g(3,2) h g(4,1) n] by blast
  from O(2) show ?thesis unfolding read_outcome_def
  proof (elim disjE exE conjE)
    assume "r = Would_Block" "c1 = c" "sock_in s = []" "s1 = s"
    then show ?thesis using R n O(1) by (auto simp: read_step_def progressed_def)
  next
    assume A: "r = Would_Block" "c1 = c" "recv_good (sock_in s1)" "recv_bytes (sock_in s1) = recv_bytes (sock_in s)"
      "recv_fuel (sock_in s1) < recv_fuel (sock_in s)"
    then have "receiver H D T rest c s1" using R by (simp add: receiver_def)
    then show ?thesis using A O(1) n by (auto simp: read_step_def progressed_def)
  next
    fix b assume A: "r = Nio (length b)" "0 < length b" "length b \<le> window_len c" "recv_good (sock_in s1)"
      "recv_bytes (sock_in s) = b @ recv_bytes (sock_in s1)" "recv_fuel (sock_in s1) < recv_fuel (sock_in s)"
      "buf_change c c1" "msg_bytes c1 = write_at (msg_bytes c) (msg_pos c) b"
    obtain c2 where c2: "slide_window heap c1 (length b) = Done c2" "receiver H D T rest c2 s1" "header_offset c2 = HDR_LEN"
      using receiver_data_arrival [OF R h n A(4,3,5,7,8)] by blast
    obtain r2 c' where "read_arrived ops heap (length b) c1 s1 = Done (r2, c', s1)" "progressed H D T rest c' s1" "r2 \<longrightarrow> nvec c' > 0"
      using read_arrived_receiver [OF c2(1,2)] c2(3) by auto
    then show ?thesis using A O(1) by (simp add: read_step_def)
  qed
qed

lemma receiver_not_dry:
  assumes R: "receiver H D T rest c s" and n: "nvec c > 0"
  shows "sock_in s \<noteq> []"
proof
  assume "sock_in s = []"
  then have pos: "length (H @ D @ T) \<le> msg_pos c" using R by (auto simp: receiver_def)
  obtain w where wf: "transfer_wf c w" using R by (auto simp: receiver_def)
  have st: "conn_state c = CONN_READING" and ok: "msg_ok H D T (maxlen c) (read_mic c)" using R by (auto simp: receiver_def)
  show False
  proof (cases "header_offset c < HDR_LEN")
    case True
    then have "msg_pos c < HDR_LEN" using wf by (simp add: msg_pos_def transfer_wf_def)
    then show False using pos ok by (simp add: msg_ok_def)
  next
    case False
    then have h: "header_offset c = HDR_LEN" and "c_len c = length D" using wf R by (auto simp: transfer_wf_def receiver_def received_def)
    then have "msg_total c = length (H @ D @ T)" using ok st by (simp add: msg_total_def msg_ok_def mic_expected_def)
    then show False using window_cases [OF wf] h n pos by auto
  qed
qed

lemma progressed_active:
  "progressed H D T rest c s \<Longrightarrow> conn_errno c = ERR_CONN_OK \<and> conn_callback_set c \<and> conn_state c = CONN_READING"
  by (auto simp: progressed_def finished_def receiver_def dest: rmic_frame_simps(6-8) split: if_split_asm)

lemma progress_loop_receiver:
  assumes "progressed H D T rest c s"
  shows "\<exists>r c' s'. progress_loop ops heap p c s = Done (r, c', s') \<and> progressed H D T rest c' s' \<and> (r \<longrightarrow> nvec c' > 0) \<and>
     (nvec c = 0 \<and> c' = c \<and> s' = s \<or> recv_fuel (sock_in s') < recv_fuel (sock_in s))"
  using assms
proof (induction "17 - p" arbitrary: p c s rule: less_induct)
  case less
  note P = less.prems
  show ?case
  proof (cases "nvec c = 0")
    case True
    then show ?thesis using P by (auto simp: progress_loop.simps [of ops heap p c s])
  next
    case False
    then have nv: "nvec c > 0" and R: "receiver H D T rest c s" using P by (simp_all add: progressed_def)
    have st: "conn_state c \<noteq> CONN_WRITING" using R by (simp add: receiver_def)
    obtain r c1 s1 where rs: "read_step ops heap c s = Done (r, c1, s1)" "progressed H D T rest c1 s1" "r \<longrightarrow> nvec c1 > 0"
       "recv_fuel (sock_in s1) < recv_fuel (sock_in s)"
      using read_step_receiver [OF R nv, of heap] receiver_not_dry [OF R nv] by blast
    have loop: "progress_loop ops heap p c s =
        (if r then Done (True, c1, s1) else if p + 1 > 16 then Done (False, c1, s1)
         else progress_loop ops heap (p + 1) c1 s1)"
      using False st rs by (simp add: progress_loop.simps [of ops heap p c s])
    show ?thesis
    proof (cases "r \<or> p + 1 > 16")
      case True
      then show ?thesis using loop rs by auto
    next
      case rec: False
      then have "17 - (p + 1) < 17 - p" by auto
      from less.hyps [OF this rs(2)] obtain r2 c2 s2 where "progress_loop ops heap (p + 1) c1 s1 = Done (r2, c2, s2)"
          "progressed H D T rest c2 s2" "r2 \<longrightarrow> nvec c2 > 0" "s2 = s1 \<or> recv_fuel (sock_in s2) < recv_fuel (sock_in s1)"
        by blast
      then show ?thesis using loop rec rs(4) by auto
    qed
  qed
qed

lemma drive_receiver:
  assumes "progressed H D T rest c s" "recv_fuel (sock_in s) < k"
  shows "\<exists>c' s'. drive ops heap k c s = Done (True, c', s') \<and> progressed H D T rest c' s' \<and> nvec c' = 0"
  using assms
proof (induction k arbitrary: c s)
  case 0
  then show ?case by simp
next
  case (Suc k)
  obtain r c1 s1 where R: "progress_loop ops heap 0 c s = Done (r, c1, s1)" "progressed H D T rest c1 s1" "r \<longrightarrow> nvec c1 > 0"
      "nvec c = 0 \<and> c1 = c \<and> s1 = s \<or> recv_fuel (sock_in s1) < recv_fuel (sock_in s)"
    using progress_loop_receiver [OF Suc.prems(1), of heap 0] by blast
  have io: "progress_io ops heap c s = Done (\<not> r \<and> nvec c1 = 0, c1, s1)"
    using progressed_active [OF Suc.prems(1)] R(1) by (simp add: progress_io_def)
  show ?case
  proof (cases "nvec c1 = 0")
    case True
    then show ?thesis using io R(2,3) by auto
  next
    case False
    then have "recv_fuel (sock_in s1) < k" using R(4) Suc.prems(2) by auto
    then show ?thesis using Suc.IH [OF R(2)] io False by auto
  qed
qed

end

end
