(* ===== verification/ConnMessages.thy ===== *)
theory ConnMessages
  imports ConnRecv
begin

text \<open>
  Whole messages: \<open>Unameit_Conn_Write\<close> and \<open>Unameit_Conn_Poll\<close> start transfers that satisfy the
  invariants of the two sides, and the composition of both over the network.
\<close>

unbundle bit_operations_syntax

definition conn_wf :: "'x conn_t \<Rightarrow> bool" where
  "conn_wf c \<longleftrightarrow> length (iov c) = 3 \<and> nvec c \<le> 3 \<and> length (header_data c) = HDR_LEN \<and> header_offset c \<le> HDR_LEN \<and>
     length (trailer_mic c) = MIC_LEN \<and> trailer_offset c \<le> MIC_LEN"

text \<open>A connection between messages.\<close>

definition conn_idle :: "'x conn_t \<Rightarrow> bool" where
  "conn_idle c \<longleftrightarrow> conn_wf c \<and> conn_state c = CONN_IODONE \<and> conn_errno c = ERR_CONN_OK \<and> conn_callback_set c"

definition msg_header :: "u32 \<Rightarrow> u32 \<Rightarrow> u32 \<Rightarrow> u8 list" where
  "msg_header atype result len = net_bytes CONN_MAGIC @ net_bytes atype @ net_bytes result @ net_bytes len"

lemma length_net_bytes [simp]: "length (net_bytes w) = 4"
  by (simp add: net_bytes_def)

lemma ntoh_net: "ntoh_copy (a @ net_bytes w @ b) (length a) = w"
proof -
  have "ntoh_copy (a @ net_bytes w @ b) (length a) =
      push_bit 24 (ucast (ucast (drop_bit 24 w) :: u8)) OR push_bit 16 (ucast (ucast (drop_bit 16 w) :: u8)) OR
      push_bit 8 (ucast (ucast (drop_bit 8 w) :: u8)) OR ucast (ucast w :: u8)"
    by (simp add: ntoh_copy_def net_bytes_def nth_append)
  also have "\<dots> = w"
  proof (rule bit_word_eqI)
    fix n assume "n < LENGTH(32)"
    then consider "n < 8" | "8 \<le> n" "n < 16" | "16 \<le> n" "n < 24" | "24 \<le> n" "n < 32" by (simp; linarith)
    then show "bit (push_bit 24 (ucast (ucast (drop_bit 24 w) :: u8)) OR push_bit 16 (ucast (ucast (drop_bit 16 w) :: u8)) OR
      push_bit 8 (ucast (ucast (drop_bit 8 w) :: u8)) OR ucast (ucast w :: u8) :: u32) n = bit w n"
      by cases (auto simp: bit_simps)
  qed
  finally show ?thesis .
qed

lemma msg_header_fields:
  "length (msg_header a r l) = HDR_LEN" "ntoh_copy (msg_header a r l) 0 = CONN_MAGIC" "ntoh_copy (msg_header a r l) 4 = a"
  "ntoh_copy (msg_header a r l) 8 = r" "ntoh_copy (msg_header a r l) 12 = l"
  using ntoh_net [of "[]" CONN_MAGIC] ntoh_net [of "net_bytes CONN_MAGIC" a] ntoh_net [of "net_bytes CONN_MAGIC @ net_bytes a" r]
    ntoh_net [of "net_bytes CONN_MAGIC @ net_bytes a @ net_bytes r" l "[]"]
  by (simp_all add: msg_header_def)


context write_mic_contract begin

lemma Write_sender:
  assumes c: "conn_idle c" and len: "unat len \<le> length data" "unat len < 2 ^ 31" and u: "write_mic c \<longrightarrow> usable (crypto c)"
  shows "\<exists>c'. Unameit_Conn_Write ops c data len atype res fp = Done c' \<and> msg_pos c' = 0 \<and>
     (\<forall>s. sender (sock_out s) (msg_header atype res len, take (unat len) data, write_mic c) c' s)"
proof -
  define data' where "data' = (if fp = TCL_VOLATILE then take (unat len) data else data)"
  define fp' where "fp' = (if fp = TCL_VOLATILE then TCL_DYNAMIC else fp)"
  define c0 where "c0 = (newstate c CONN_WRITING)\<lparr>msg_data := Some data', msg_free := fp',
     msg_length := len, header_data := msg_header atype res len\<rparr>"
  have c0: "conn_state c0 = CONN_WRITING" "conn_errno c0 = ERR_CONN_OK" "msg_length c0 = len" "msg_data c0 = Some data'"
    "header_data c0 = msg_header atype res len" "length (iov c0) = 3" "length (trailer_mic c0) = MIC_LEN" "trailer_offset c0 \<le> MIC_LEN"
    "write_mic c0 = write_mic c" "crypto c0 = crypto c" "conn_callback_set c0"
    using c by (simp_all add: c0_def newstate_def conn_idle_def conn_wf_def)
  define c1 where "c1 = iov_init_header c0 CONN_WRITING"
  have W: "Unameit_Conn_Write ops c data len atype res fp = (if write_mic c1 then update_write_mic ops c1 True else Done c1)"
    using c by (simp add: Unameit_Conn_Write_def c1_def c0_def data'_def fp'_def newstate_def conn_idle_def msg_header_def Let_def)
  obtain a b d where iov: "iov c0 = [a, b, d]" using iov_three [OF c0(6)] by blast
  have E: "c1 = (if unat len > CONN_PKT_LEN - HDR_LEN
       then c0\<lparr>header_offset := 0, msg_offset := 0, iov := [seg R_Header 0 HDR_LEN, seg R_Data 0 (CONN_PKT_LEN - HDR_LEN), d], nvec := 2\<rparr>
       else if unat len > 0
       then if write_mic c then c0\<lparr>header_offset := 0, msg_offset := 0, trailer_offset := 0,
                iov := [seg R_Header 0 HDR_LEN, seg R_Data 0 (unat len), seg R_Mic 0 MIC_LEN], nvec := 3\<rparr>
            else c0\<lparr>header_offset := 0, msg_offset := 0, iov := [seg R_Header 0 HDR_LEN, seg R_Data 0 (unat len), d], nvec := 2\<rparr>
       else if write_mic c then c0\<lparr>header_offset := 0, msg_offset := 0, trailer_offset := 0, iov := [seg R_Header 0 HDR_LEN, seg R_Mic 0 MIC_LEN, d], nvec := 2\<rparr>
            else c0\<lparr>header_offset := 0, msg_offset := 0, iov := [seg R_Header 0 HDR_LEN, seg R_Data 0 0, d], nvec := 1\<rparr>)"
    using c0 iov by (simp add: c1_def iov_init_header_def iov_init_data_def iov_init_trailer_def mic_expected_def word_less_nat_alt Let_def)
  have wf: "transfer_wf c1 (min (unat len) (CONN_PKT_LEN - HDR_LEN))"
  proof (cases "unat len > CONN_PKT_LEN - HDR_LEN"; cases "unat len > 0"; cases "write_mic c")
  qed (insert c0 len, simp_all add: E transfer_wf_def window_def data_window_def mic_expected_def min_def)
  have fr: "same_msg c0 c1" unfolding E same_msg_def by simp
  note G = same_msg_simps [OF fr]
  have l': "unat len \<le> length data'" using len by (simp add: data'_def)
  have b: "bufs_ok c1" unfolding G using c0 l' by (simp add: bufs_ok_def msg_header_fields)
  have pos: "msg_pos c1 = 0" unfolding E by (simp add: msg_pos_def)
  have "take (unat len) data' = take (unat len) data" by (simp add: data'_def)
  then have mo: "msg_of c1 = (msg_header atype res len, take (unat len) data, write_mic c)"
    unfolding msg_of_same_msg [OF fr] using c0 by (simp add: msg_of_def mic_expected_def)
  show ?thesis
  proof (cases "write_mic c")
    case False
    then have "Unameit_Conn_Write ops c data len atype res fp = Done c1" using W G c0 by simp
    moreover have "sender (sock_out s) (msg_header atype res len, take (unat len) data, write_mic c) c1 s" for s
      using wf b G c0 mo pos False unfolding sender_def by auto
    ultimately show ?thesis using pos by blast
  next
    case True
    obtain c' where c': "update_write_mic ops c1 True = Done c'" "mic_frame c1 c'" "ready c'"
      using reset [OF wf b _ _ pos] G c0 u True by auto
    have st: "conn_state c1 = CONN_WRITING" using G c0 by simp
    note F = mic_frame_simps [OF c'(2) st]
    have "Unameit_Conn_Write ops c data len atype res fp = Done c'" using W G c0 True c' by simp
    moreover have "sender (sock_out s) (msg_header atype res len, take (unat len) data, write_mic c) c' s" for s
      using wf b F G c0 mo pos c'(3) msg_of_mic_frame [OF c'(2) st] unfolding sender_def by auto
    ultimately show ?thesis using pos F(4) by auto
  qed
qed

lemma sender_done:
  assumes S: "sender out (H, D, mic) c s" and n: "nvec c = 0"
  shows "sock_out s = out @ H @ D @ (if mic then trailer_mic c else [])"
proof -
  obtain w where wf: "transfer_wf c w" and b: "bufs_ok c" and st: "conn_state c = CONN_WRITING"
    using S by (auto simp: sender_def)
  then have "msg_pos c = msg_total c" using window_cases [OF wf] n by auto
  then have "take (msg_pos c) (msg_bytes c) = msg_bytes c" using length_msg_bytes [OF b] by simp
  then show ?thesis using S by (auto simp: sender_def msg_bytes_def msg_of_def)
qed

lemma Write_delivers:
  assumes "conn_idle c" "unat len \<le> length data" "unat len < 2 ^ 31" "write_mic c \<longrightarrow> usable (crypto c)"
    and "Send_Error \<notin> set (sock_room s)" "length (sock_room s) < k"
    and "HDR_LEN + unat len + (if write_mic c then MIC_LEN else 0) \<le> takes_some (sock_room s)"
  shows "\<exists>c1 c' s'. Unameit_Conn_Write ops c data len atype res fp = Done c1 \<and>
     drive ops heap k c1 s = Done (True, c', s') \<and> sender (sock_out s) (msg_header atype res len, take (unat len) data, write_mic c) c' s' \<and> nvec c' = 0 \<and>
     sock_out s' = sock_out s @ msg_header atype res len @ take (unat len) data @ (if write_mic c then trailer_mic c' else [])"
proof -
  let ?m = "(msg_header atype res len, take (unat len) data, write_mic c)"
  obtain c1 where c1: "Unameit_Conn_Write ops c data len atype res fp = Done c1" "msg_pos c1 = 0" "sender (sock_out s) ?m c1 s"
    using Write_sender [OF assms(1-4)] by blast
  have "msg_total c1 = HDR_LEN + unat len + (if write_mic c then MIC_LEN else 0)"
    using c1(3) assms(2) length_take [of "c_len c1" "region_bytes c1 R_Data"]
    by (auto simp: sender_def msg_of_def msg_total_def bufs_ok_def simp del: region_bytes.simps)
  then obtain c' s' where "drive ops heap k c1 s = Done (True, c', s')" "sender (sock_out s) ?m c' s'" "nvec c' = 0"
    using drive_sender [OF c1(3) assms(5,6), of heap] assms(7) c1(2) by auto
  then show ?thesis using c1(1) sender_done [of "sock_out s"] by blast
qed

end

context read_mic_contract begin

lemma Poll_receiver:
  assumes c: "conn_idle c" and m: "msg_ok H D T (maxlen c) (read_mic c)" and u: "read_mic c \<longrightarrow> usable (crypto c)"
    and s: "recv_good (sock_in s)" "recv_bytes (sock_in s) = H @ D @ T @ rest"
  shows "\<exists>c'. Unameit_Conn_Poll ops c = Done c' \<and> receiver H D T rest c' s \<and> nvec c' > 0"
proof -
  define c1 where "c1 = iov_init_header (newstate c CONN_READING) CONN_READING"
  have P: "Unameit_Conn_Poll ops c = (if read_mic c1 then update_read_mic ops c1 True else Done c1)"
    using c by (simp add: Unameit_Conn_Poll_def c1_def newstate_def conn_idle_def Let_def)
  obtain a b d where iov: "iov c = [a, b, d]" using c iov_three [of "iov c"] by (auto simp: conn_idle_def conn_wf_def)
  have E: "c1 = c\<lparr>msg_data := None, msg_free := TCL_STATIC, conn_state := CONN_READING, msg_length := 0, msg_offset := 0,
      header_offset := 0, iov := [seg R_Header 0 HDR_LEN, b, d], nvec := 1\<rparr>"
    using c iov by (simp add: c1_def newstate_def iov_init_header_def conn_idle_def Let_def)
  have wf: "transfer_wf c1 0" and pos: "msg_pos c1 = 0"
    using c by (simp_all add: E transfer_wf_def window_def conn_idle_def conn_wf_def msg_pos_def)
  have R: "receiver H D T rest c1 s" if "read_mic c \<longrightarrow> rready c1"
    using c wf pos that m u s unfolding receiver_def by (auto simp: E conn_idle_def conn_wf_def)
  show ?thesis
  proof (cases "read_mic c")
    case False
    then show ?thesis using P R by (simp add: E)
  next
    case True
    obtain c' where c': "update_read_mic ops c1 True = Done c'" "rmic_frame c1 c'" "rready c'"
      using rreset [of c1] c u True by (auto simp: E conn_idle_def conn_wf_def)
    have st: "conn_state c1 = CONN_READING" by (simp add: E)
    note F = rmic_frame_simps [OF c'(2) st]
    have "receiver H D T rest c' s"
      using c wf pos m s True F c'(3) unfolding receiver_def by (auto simp: E conn_idle_def conn_wf_def)
    then show ?thesis using P c' True F(3) by (simp add: E)
  qed
qed

lemma receiver_done:
  assumes R: "receiver H D T rest c s" and n: "nvec c = 0"
  shows "header_data c = H" "msg_data c = Some (D @ [0])" "msg_length c = of_nat (length D)" "auth_type c = ntoh_copy H 4"
    "recv_bytes (sock_in s) = rest" "conn_errno c = ERR_CONN_OK" "read_mic c \<longrightarrow> trailer_mic c = T" "header_offset c = HDR_LEN"
    "read_mic c \<longrightarrow> trailer_offset c = MIC_LEN" "c_off c = c_len c"
proof -
  obtain w where wf: "transfer_wf c w" and st: "conn_state c = CONN_READING" and ok: "msg_ok H D T (maxlen c) (read_mic c)"
    using R by (auto simp: receiver_def)
  have h: "\<not> header_offset c < HDR_LEN" using transfer_header_window(3) [OF wf _ st] n by auto
  then have rec: "received H D T c" using R by (simp add: receiver_def)
  have b: "bufs_ok c" and l: "c_len c = length D" using rec by (auto simp: received_def)
  show ho: "header_offset c = HDR_LEN" using h wf by (simp add: transfer_wf_def)
  have pos: "msg_pos c = msg_total c" using window_cases [OF wf] ho n by auto
  have mt: "msg_total c = length (H @ D @ T)" using ok l st by (simp add: msg_total_def msg_ok_def mic_expected_def)
  have end_off: "c_off c = c_len c \<and> (read_mic c \<longrightarrow> trailer_offset c = MIC_LEN)"
    using nvec_window [OF wf] n ho wf st by (auto simp: window_def data_window_def transfer_wf_def mic_expected_def split: if_split_asm)
  then show "c_off c = c_len c" "read_mic c \<longrightarrow> trailer_offset c = MIC_LEN" by auto
  obtain d where d: "msg_data c = Some d" "length d = length D + 1" "d ! length D = 0" using rec by (auto simp: received_def)
  have hl: "length H = HDR_LEN" "length (header_data c) = HDR_LEN" using ok b by (auto simp: msg_ok_def bufs_ok_def)
  have "msg_bytes c = H @ D @ T"
    using rec pos mt length_msg_bytes [OF b] by (simp add: received_def)
  then have *: "header_data c @ take (length D) d @ (if c_mic c then trailer_mic c else []) = H @ D @ T" using hl d l by (simp add: msg_bytes_def)
  then show "header_data c = H" using hl by simp
  have **: "take (length D) d = D" "(if c_mic c then trailer_mic c else []) = T" using * hl d by auto
  then show "msg_data c = Some (D @ [0])" using d take_Suc_conv_app_nth [of "length D" d] by simp
  show "read_mic c \<longrightarrow> trailer_mic c = T" using **(2) st by (auto simp: mic_expected_def)
  show "msg_length c = of_nat (length D)" unfolding l [symmetric] by simp
  show "auth_type c = ntoh_copy H 4" using rec by (simp add: received_def)
  show "recv_bytes (sock_in s) = rest" using R pos mt by (simp add: receiver_def)
  show "conn_errno c = ERR_CONN_OK" using R by (simp add: receiver_def)
qed

lemma finished_done:
  assumes "finished H D T rest c s"
  shows "header_data c = H" "msg_data c = Some (D @ [0])" "msg_length c = of_nat (length D)" "auth_type c = ntoh_copy H 4"
    "recv_bytes (sock_in s) = rest" "conn_errno c = ERR_CONN_OK"
proof -
  obtain c0 where c0: "receiver H D T rest c0 s" "nvec c0 = 0" "c = c0 \<or> rmic_frame c0 c"
    using assms by (auto simp: finished_def split: if_split_asm)
  have st: "conn_state c0 = CONN_READING" using c0(1) by (simp add: receiver_def)
  have "header_data c = header_data c0 \<and> msg_data c = msg_data c0 \<and> msg_length c = msg_length c0 \<and> auth_type c = auth_type c0 \<and>
    conn_errno c = conn_errno c0"
    using c0(3) rmic_frame_simps(7,9,11,14,16) [OF _ st, of c] by (auto intro: unsigned_word_eqI)
  then show "header_data c = H" "msg_data c = Some (D @ [0])" "msg_length c = of_nat (length D)" "auth_type c = ntoh_copy H 4"
    "recv_bytes (sock_in s) = rest" "conn_errno c = ERR_CONN_OK"
    using receiver_done [OF c0(1,2)] by simp_all
qed

lemma Poll_reassembles:
  assumes "conn_idle c" "msg_ok H D T (maxlen c) (read_mic c)" "read_mic c \<longrightarrow> usable (crypto c)"
    and "recv_good (sock_in s)" "recv_bytes (sock_in s) = H @ D @ T @ rest" "recv_fuel (sock_in s) < k"
  shows "\<exists>c1 c' s'. Unameit_Conn_Poll ops c = Done c1 \<and> drive ops heap k c1 s = Done (True, c', s') \<and>
     finished H D T rest c' s' \<and> recv_bytes (sock_in s') = rest \<and> auth_type c' = ntoh_copy H 4 \<and>
     fst (Unameit_Conn_Read True (c'\<lparr>conn_state := CONN_IODONE\<rparr>)) = Some (Some (D @ [0]), of_nat (length D), ntoh_copy H 8)"
proof -
  obtain c1 where c1: "Unameit_Conn_Poll ops c = Done c1" "receiver H D T rest c1 s" "nvec c1 > 0"
    using Poll_receiver [OF assms(1-5)] by blast
  have P: "progressed H D T rest c1 s" using c1(2,3) by (simp add: progressed_def)
  obtain c' s' where c': "drive ops heap k c1 s = Done (True, c', s')" "finished H D T rest c' s'"
    using drive_receiver [OF P assms(6), of heap] unfolding progressed_def by auto
  show ?thesis using c1(1) c' finished_done [OF c'(2)] by (auto simp: Unameit_Conn_Read_def)
qed

end

text \<open>Connections without integrity check.\<close>

interpretation plain_write: write_mic_contract ops "\<lambda>_. False" "\<lambda>_. False" for ops
  by unfold_locales auto

interpretation plain_read: read_mic_contract ops "\<lambda>_. False" "\<lambda>_. False" for ops
  by unfold_locales auto

text \<open>C1: A message written with \<open>Unameit_Conn_Write\<close> on a connection without integrity check is sent
  completely by repeated calls of \<open>Unameit_Conn_Progress\<close>, however few bytes each \<open>send\<close> takes and
  however often it would block, as long as the socket takes enough in all.  A connection that
  polls for a message receives it from any split of these bytes into packets, with the same
  data (NUL terminated), length, result code and authentication type, and takes no byte of
  what follows.\<close>

theorem conn_message_roundtrip:
  assumes "conn_idle w" "\<not> write_mic w" "conn_idle r" "\<not> read_mic r"
    and "unat len \<le> length data" "unat len < 2 ^ 31" "maxlen r = 0 \<or> len \<le> maxlen r"
    and "Send_Error \<notin> set (sock_room sw)" "HDR_LEN + unat len \<le> takes_some (sock_room sw)" "length (sock_room sw) < k"
  shows "\<exists>w1 w' sw'. Unameit_Conn_Write wops w data len atype res fp = Done w1 \<and>
     drive wops wheap k w1 sw = Done (True, w', sw') \<and> sock_out sw' = sock_out sw @ msg_header atype res len @ take (unat len) data \<and>
     (\<forall>sr rest n. recv_good (sock_in sr) \<and> recv_bytes (sock_in sr) = msg_header atype res len @ take (unat len) data @ rest \<and> recv_fuel (sock_in sr) < n \<longrightarrow>
       (\<exists>r1 r' sr'. Unameit_Conn_Poll rops r = Done r1 \<and> drive rops rheap n r1 sr = Done (True, r', sr') \<and>
          recv_bytes (sock_in sr') = rest \<and> auth_type r' = atype \<and>
          fst (Unameit_Conn_Read True (r'\<lparr>conn_state := CONN_IODONE\<rparr>)) = Some (Some (take (unat len) data @ [0]), len, res)))"
proof -
  let ?H = "msg_header atype res len" and ?D = "take (unat len) data"
  obtain w1 w' sw' where W: "Unameit_Conn_Write wops w data len atype res fp = Done w1"
      "drive wops wheap k w1 sw = Done (True, w', sw')" "sock_out sw' = sock_out sw @ ?H @ ?D"
    using plain_write.Write_delivers [where ops = wops and atype = atype and res = res and fp = fp and heap = wheap, OF assms(1,5,6) _ assms(8,10)] assms(2,9) by auto
  have lD: "length ?D = unat len" "of_nat (length ?D) = len" using assms(5) by (simp_all add: min.absorb2)
  have ok: "msg_ok ?H ?D [] (maxlen r) (read_mic r)"
    using assms lD by (simp add: msg_ok_def msg_header_fields)
  have "\<exists>r1 r' sr'. Unameit_Conn_Poll rops r = Done r1 \<and> drive rops rheap n r1 sr = Done (True, r', sr') \<and>
          recv_bytes (sock_in sr') = rest \<and> auth_type r' = atype \<and>
          fst (Unameit_Conn_Read True (r'\<lparr>conn_state := CONN_IODONE\<rparr>)) = Some (Some (?D @ [0]), len, res)"
    if "recv_good (sock_in sr)" "recv_bytes (sock_in sr) = ?H @ ?D @ rest" "recv_fuel (sock_in sr) < n" for sr rest n
    using plain_read.Poll_reassembles [where ops = rops and rest = rest and heap = rheap, OF assms(3) ok _ that(1) _ that(3)] assms(4) that(2) lD(2)
    by (auto simp: msg_header_fields)
  then show ?thesis using W by blast
qed

text \<open>C2: Invariant of the sender: after any number of calls of \<open>Unameit_Conn_Progress\<close> on any
  socket, errors included, nothing panics, the bytes sent are a prefix of header and data, all
  of them when the message is reported complete, and the only error is \<open>ERR_CONN_WRITE\<close>.\<close>

theorem conn_sender_prefix:
  assumes "conn_idle c" "\<not> write_mic c" "unat len \<le> length data" "unat len < 2 ^ 31"
  shows "\<exists>c1 complete c' s' n. Unameit_Conn_Write ops c data len atype res fp = Done c1 \<and>
     drive ops heap k c1 s = Done (complete, c', s') \<and>
     sock_out s' = sock_out s @ take n (msg_header atype res len @ take (unat len) data) \<and>
     (complete \<longrightarrow> n = HDR_LEN + unat len) \<and> conn_errno c' \<in> {ERR_CONN_OK, ERR_CONN_WRITE}"
proof -
  let ?m = "(msg_header atype res len, take (unat len) data, write_mic c)"
  obtain c1 where c1: "Unameit_Conn_Write ops c data len atype res fp = Done c1" "plain_write.sender (sock_out s) ?m c1 s"
    using plain_write.Write_sender [where ops = ops, OF assms(1,3,4)] assms(2) by blast
  obtain r c' s' where d: "drive ops heap k c1 s = Done (r, c', s')"
      "if r then plain_write.sender (sock_out s) ?m c' s' \<and> nvec c' = 0
       else plain_write.sender (sock_out s) ?m c' s' \<or> conn_errno c' = ERR_CONN_WRITE \<and>
         plain_write.sender (sock_out s) ?m (c'\<lparr>conn_errno := ERR_CONN_OK\<rparr>) s'"
    using plain_write.drive_sender_any [where ops = ops, OF disjI1, OF c1(2)] by blast
  have lm: "length (msg_header atype res len @ take (unat len) data) = HDR_LEN + unat len"
    using assms(3) by (simp add: msg_header_fields)
  have pre: "\<exists>n. sock_out s' = sock_out s @ take n (msg_header atype res len @ take (unat len) data)"
    if "plain_write.sender (sock_out s) ?m x s'" for x
  proof -
    have "msg_bytes x = msg_header atype res len @ take (unat len) data"
      using that assms(2) by (auto simp: plain_write.sender_def msg_bytes_def msg_of_def simp del: region_bytes.simps)
    then show ?thesis using that unfolding plain_write.sender_def by metis
  qed
  show ?thesis
  proof (cases r)
    case True
    then have S: "plain_write.sender (sock_out s) ?m c' s'" "nvec c' = 0" using d(2) by simp_all
    have "sock_out s' = sock_out s @ take (HDR_LEN + unat len) (msg_header atype res len @ take (unat len) data)"
      using plain_write.sender_done [OF S] assms(2) by (simp add: msg_header_fields)
    moreover have "conn_errno c' = ERR_CONN_OK" using S(1) by (simp add: plain_write.sender_def)
    ultimately show ?thesis using c1(1) d(1) True by blast
  next
    case False
    then have "\<exists>n. sock_out s' = sock_out s @ take n (msg_header atype res len @ take (unat len) data)"
      using d(2) pre [of c'] pre [of "c'\<lparr>conn_errno := ERR_CONN_OK\<rparr>"] by metis
    moreover have "conn_errno c' \<in> {ERR_CONN_OK, ERR_CONN_WRITE}" using d(2) False by (auto simp: plain_write.sender_def)
    ultimately show ?thesis using c1(1) d(1) False by blast
  qed
qed


definition sample_conn :: "unit conn_t" where
  "sample_conn = (conn_zero ())\<lparr>conn_state := CONN_IODONE, conn_callback_set := True\<rparr>"

definition sample_ops :: "unit conn_ops" where
  "sample_ops = \<lparr>update_read_mic = \<lambda>c r. Done c, update_write_mic = \<lambda>c r. Done c, conn_callback = \<lambda>c st. (c, False)\<rparr>"

lemma sample_idle: "conn_idle sample_conn" "\<not> write_mic sample_conn" "\<not> read_mic sample_conn" "maxlen sample_conn = 0"
  by (simp_all add: sample_conn_def conn_zero_def conn_idle_def conn_wf_def)

theorem conn_message_roundtrip_witness:
  "\<exists>r1 r' sr'. Unameit_Conn_Poll sample_ops sample_conn = Done r1 \<and>
     drive sample_ops [] 40 r1 \<lparr>sock_in = Arrives (take 5 (msg_header 4 7 3)) # Recv_Blocks # Arrives (drop 5 (msg_header 4 7 3) @ [1]) # [Arrives [2, 3]],
       sock_room = [], sock_out = []\<rparr> = Done (True, r', sr') \<and> auth_type r' = 4 \<and>
     fst (Unameit_Conn_Read True (r'\<lparr>conn_state := CONN_IODONE\<rparr>)) = Some (Some [1, 2, 3, 0], 3, 7)"
proof -
  let ?sw = "\<lparr>sock_in = [], sock_room = replicate 19 (Takes 1), sock_out = []\<rparr>"
  let ?sr = "\<lparr>sock_in = Arrives (take 5 (msg_header 4 7 3)) # Recv_Blocks # Arrives (drop 5 (msg_header 4 7 3) @ [1]) # [Arrives [2, 3]],
       sock_room = [], sock_out = []\<rparr> :: sock"
  have room: "Send_Error \<notin> set (sock_room ?sw)" "HDR_LEN + unat (3 :: u32) \<le> takes_some (sock_room ?sw)" "length (sock_room ?sw) < 30"
    by (simp_all add: takes_some_def)
  from conn_message_roundtrip [where wops = sample_ops and rops = sample_ops and wheap = "[]" and rheap = "[]" and atype = 4 and res = 7 and fp = TCL_STATIC,
      OF sample_idle(1,2,1,3) _ _ _ room, of "[1, 2, 3]"]
  have R: "\<forall>sr rest n. recv_good (sock_in sr) \<and> recv_bytes (sock_in sr) = msg_header 4 7 3 @ take (unat (3 :: u32)) [1, 2, 3] @ rest \<and> recv_fuel (sock_in sr) < n \<longrightarrow>
       (\<exists>r1 r' sr'. Unameit_Conn_Poll sample_ops sample_conn = Done r1 \<and> drive sample_ops [] n r1 sr = Done (True, r', sr') \<and>
          recv_bytes (sock_in sr') = rest \<and> auth_type r' = 4 \<and>
          fst (Unameit_Conn_Read True (r'\<lparr>conn_state := CONN_IODONE\<rparr>)) = Some (Some (take (unat (3 :: u32)) [1, 2, 3] @ [0]), 3, 7))"
    using sample_idle(4) by (simp; blast)
  show ?thesis using R [rule_format, of ?sr "[]" 40]
    by (auto simp: recv_good_def recv_fuel_def msg_header_def net_bytes_def)
qed

theorem conn_sender_prefix_witness:
  "\<exists>c1 complete c' s' n. Unameit_Conn_Write sample_ops sample_conn [1, 2, 3] 3 4 7 TCL_STATIC = Done c1 \<and>
     drive sample_ops [] 2 c1 \<lparr>sock_in = [], sock_room = [Takes 2, Send_Error], sock_out = [9]\<rparr> = Done (complete, c', s') \<and>
     sock_out s' = [9] @ take n (msg_header 4 7 3 @ [1, 2, 3])"
  using conn_sender_prefix [OF sample_idle(1,2), of 3 "[1, 2, 3]" sample_ops 4 7 TCL_STATIC "[]" 2 "\<lparr>sock_in = [], sock_room = [Takes 2, Send_Error], sock_out = [9]\<rparr>"]
  by (simp; blast)

end
