(* ===== verification/ConnServer.thy ===== *)
theory ConnServer
  imports Conn "HOL-Library.Multiset"
begin

text \<open>
  The server loop of \<^verbatim>\<open>libconn/conn.c\<close>: which connections a pass serves, and the bookkeeping
  of the descriptors.
\<close>

unbundle bit_operations_syntax

definition keeps_stream :: "'x conn_ops \<Rightarrow> bool" where
  "keeps_stream ops \<longleftrightarrow>
     (\<forall>c st. conn_stream (fst (conn_callback ops c st)) = conn_stream c) \<and>
     (\<forall>c r c'. update_read_mic ops c r = Done c' \<longrightarrow> conn_stream c' = conn_stream c) \<and>
     (\<forall>c r c'. update_write_mic ops c r = Done c' \<longrightarrow> conn_stream c' = conn_stream c)"

lemma stream_iov [simp]:
  "conn_stream (iov_init_trailer c st) = conn_stream c" "conn_stream (iov_init_data c st) = conn_stream c"
  "conn_stream (newstate c st) = conn_stream c"
  by (simp_all add: iov_init_trailer_def iov_init_data_def newstate_def Let_def)

lemma stream_alloc: "alloc_data heap c = Done c' \<Longrightarrow> conn_stream c' = conn_stream c"
  by (auto simp: alloc_data_def Let_def split: if_splits)

lemma stream_slide_data: "slide_data n c = Done c' \<Longrightarrow> conn_stream c' = conn_stream c"
  by (auto simp: slide_data_def slide_trailer_def Let_def split: if_splits)

lemma stream_slide: "slide_window heap c n = Done c' \<Longrightarrow> conn_stream c' = conn_stream c"
  by (auto simp: slide_window_def Let_def c_bind_Done split: if_splits dest!: stream_slide_data stream_alloc)

lemma stream_store [simp]: "conn_stream (store_bytes r p b c) = conn_stream c"
  by (cases r) simp_all

lemma stream_readv_loop: "readv_loop vs n c s = (r, c', s') \<Longrightarrow> conn_stream c' = conn_stream c"
  by (induction vs n c s rule: readv_loop.induct)
    (auto simp: Let_def split: prod.splits option.splits if_splits)

lemma stream_Readv: "Unameit_Stream_Readv c s = Done (r, c', s') \<Longrightarrow> conn_stream c' = conn_stream c"
  by (auto simp: Unameit_Stream_Readv_def split: if_splits prod.splits option.splits dest: stream_readv_loop)

lemma stream_arrived:
  "read_arrived ops heap n c s = Done (r, c', s') \<Longrightarrow> keeps_stream ops \<Longrightarrow> conn_stream c' = conn_stream c"
  by (auto simp: read_arrived_def c_bind_Done keeps_stream_def split: if_splits dest!: stream_slide)

lemma stream_read_step:
  "read_step ops heap c s = Done (r, c', s') \<Longrightarrow> keeps_stream ops \<Longrightarrow> conn_stream c' = conn_stream c"
  by (auto simp: read_step_def c_bind_Done split: if_splits io_result.splits dest!: stream_Readv stream_arrived)

lemma keeps_stream_callback: "keeps_stream ops \<Longrightarrow> conn_stream (fst (conn_callback ops c st)) = conn_stream c"
  by (simp add: keeps_stream_def)

lemma stream_write_step:
  assumes "write_step ops heap c s = Done (r, c', s')" "keeps_stream ops"
  shows "conn_stream c' = conn_stream c"
proof -
  obtain c1 io s1 where u: "(if write_mic c then update_write_mic ops c False else Done c) = Done c1"
    and r: "(case io of Would_Block \<Rightarrow> Done (True, c1, s1) | Io_Error \<Rightarrow> Done (True, c1\<lparr>conn_errno := ERR_CONN_WRITE\<rparr>, s1)
       | Nio n \<Rightarrow> if n = 0 then Done (True, c1, s1) else c_bind (slide_window heap c1 n) (\<lambda>c. Done (False, c, s1))) = Done (r, c', s')"
    using assms(1) unfolding write_step_def c_bind_Done by (auto simp: c_bind_Done)
  have "conn_stream c1 = conn_stream c" using u assms(2) by (auto simp: keeps_stream_def split: if_split_asm)
  moreover have "conn_stream c' = conn_stream c1"
    using r by (cases io) (auto simp: c_bind_Done split: if_split_asm dest!: stream_slide)
  ultimately show ?thesis by simp
qed

lemma stream_loop:
  "progress_loop ops heap p c s = Done (r, c', s') \<Longrightarrow> keeps_stream ops \<Longrightarrow> conn_stream c' = conn_stream c"
proof (induction "17 - p" arbitrary: p c s rule: less_induct)
  case less
  show ?case
  proof (cases "nvec c = 0")
    case True
    then show ?thesis using less.prems by (simp add: progress_loop.simps [of ops heap p c s])
  next
    case False
    then obtain x c1 s1 where st: "(if conn_state c = CONN_WRITING then write_step ops heap c s else read_step ops heap c s) = Done (x, c1, s1)"
        "(if x then Done (True, c1, s1) else if p + 1 > 16 then Done (False, c1, s1) else progress_loop ops heap (p + 1) c1 s1) = Done (r, c', s')"
      using less.prems(1) by (auto simp: progress_loop.simps [of ops heap p c s] c_bind_Done)
    have "conn_stream c1 = conn_stream c" using st(1) less.prems(2) by (auto split: if_splits dest: stream_read_step stream_write_step)
    then show ?thesis using st(2) less.hyps [of "p + 1" c1 s1] less.prems(2) by (auto split: if_splits)
  qed
qed

lemma stream_Progress:
  "Unameit_Conn_Progress ops heap c s = Done (c', s', t) \<Longrightarrow> keeps_stream ops \<Longrightarrow> conn_stream c' = conn_stream c"
proof -
  assume P: "Unameit_Conn_Progress ops heap c s = Done (c', s', t)" and k: "keeps_stream ops"
  then obtain d c1 s1 where io: "progress_io ops heap c s = Done (d, c1, s1)"
    by (auto simp: Unameit_Conn_Progress_def c_bind_Done)
  then have "conn_stream c1 = conn_stream c"
    using k by (auto simp: progress_io_def c_bind_Done split: if_splits dest: stream_loop)
  show ?thesis
  proof (cases d)
    case False
    then show ?thesis using P io \<open>conn_stream c1 = conn_stream c\<close> by (simp add: Unameit_Conn_Progress_def)
  next
    case True
    define c2 where "c2 = (if conn_state c1 = CONN_READING \<and> \<not> read_mic c1 then c1\<lparr>read_mic_ok := True\<rparr> else c1)\<lparr>conn_state := CONN_IODONE\<rparr>"
    have "c' = fst (conn_callback ops c2 (conn_state c1))"
      using P io True by (auto simp: Unameit_Conn_Progress_def c2_def Let_def split: prod.split_asm)
    then have "conn_stream c' = conn_stream c2" using keeps_stream_callback [OF k] by simp
    then show ?thesis using \<open>conn_stream c1 = conn_stream c\<close> by (simp add: c2_def)
  qed
qed

definition streams :: "'x srv_conn list \<Rightarrow> nat option multiset" where
  "streams q = image_mset (\<lambda>e. conn_stream (sc_conn e)) (mset q)"

definition open_queue :: "'x srv_conn list \<Rightarrow> bool" where
  "open_queue q \<longleftrightarrow> (\<forall>e \<in> set q. conn_stream (sc_conn e) \<noteq> None)"

lemma streams_simps [simp]: "streams [] = {#}" "streams (e # q) = add_mset (conn_stream (sc_conn e)) (streams q)"
  "streams (q @ q') = streams q + streams q'"
  by (simp_all add: streams_def)

lemma open_queue_simps [simp]: "open_queue []" "open_queue (e # q) \<longleftrightarrow> conn_stream (sc_conn e) \<noteq> None \<and> open_queue q"
  "open_queue (q @ q') \<longleftrightarrow> open_queue q \<and> open_queue q'"
  by (auto simp: open_queue_def)

lemma Reap_closes: "conn_stream c \<noteq> None \<Longrightarrow> snd (Unameit_Conn_Reap c) = [conn_stream c]"
  by (simp add: Unameit_Conn_Reap_def Let_def)

lemma scan_streams:
  "scan_queue timeout now q = (q', cl) \<Longrightarrow> open_queue q \<Longrightarrow> open_queue q' \<and> mset cl + streams q' = streams q"
proof (induction q arbitrary: q' cl)
  case Nil
  then show ?case by simp
next
  case (Cons e q)
  obtain q1 cl1 where s: "scan_queue timeout now q = (q1, cl1)" by fastforce
  then have IH: "open_queue q1" "mset cl1 + streams q1 = streams q" using Cons.IH Cons.prems(2) by auto
  have o: "conn_stream (sc_conn e) \<noteq> None" using Cons.prems(2) by simp
  show ?case using Cons.prems(1) s IH o Reap_closes [OF o]
    by (auto simp: Let_def split: if_split_asm conn_state_t.split_asm)
qed

lemma server_progress_streams:
  assumes "server_progress ops heap e = Done (q, cl, t)" "keeps_stream ops" "conn_stream (sc_conn e) \<noteq> None"
  shows "open_queue q \<and> mset cl + streams q = {#conn_stream (sc_conn e)#}"
proof -
  obtain c s where P: "Unameit_Conn_Progress ops heap (sc_conn e) (sc_sock e) = Done (c, s, t)"
    and r: "(q, cl) = (if conn_errno c \<noteq> ERR_CONN_OK \<or> conn_state c = CONN_EOF then ([], snd (Unameit_Conn_Reap c))
        else ([e\<lparr>sc_conn := c, sc_sock := s\<rparr>], []))"
    using assms(1) by (auto simp: server_progress_def c_bind_Done split: if_split_asm)
  have "conn_stream c = conn_stream (sc_conn e)" using stream_Progress [OF P assms(2)] .
  then show ?thesis using r assms(3) Reap_closes [of c] by (auto split: if_split_asm)
qed

lemma serve_streams:
  assumes "serve_queue ops heap now wr n f q = Done (q', cl, n', f')" "keeps_stream ops" "open_queue q"
  shows "open_queue q' \<and> mset cl + streams q' = streams q"
  using assms(1,3)
proof (induction q arbitrary: n f q' cl n' f')
  case Nil
  then show ?case by simp
next
  case (Cons e q)
  show ?case
  proof (cases "n = 0 \<or> (\<not> wr \<and> f)")
    case True
    then show ?thesis using Cons.prems by auto
  next
    case go: False
    show ?thesis
    proof (cases "if wr then sc_write e else sc_read e")
      case True
      let ?e = "e\<lparr>sc_conn := (sc_conn e)\<lparr>conn_lastio := now\<rparr>\<rparr>"
      obtain q1 cl1 t q2 cl2 where p: "server_progress ops heap ?e = Done (q1, cl1, t)"
        and r: "serve_queue ops heap now wr (n - 1) (f \<or> t) q = Done (q2, cl2, n', f')" "q' = q1 @ q2" "cl = cl1 @ cl2"
        using Cons.prems(1) go True by (auto simp: c_bind_Done split: if_split_asm)
      have "open_queue q1 \<and> mset cl1 + streams q1 = {#conn_stream (sc_conn e)#}"
        using server_progress_streams [OF p assms(2)] Cons.prems(2) by simp
      moreover have "open_queue q2 \<and> mset cl2 + streams q2 = streams q" using Cons.IH [OF r(1)] Cons.prems(2) by simp
      ultimately show ?thesis unfolding r(2,3)
        by (simp add: add.assoc) (metis add.assoc add.left_commute add_mset_add_single union_commute)
    next
      case False
      then obtain q2 where r: "serve_queue ops heap now wr n f q = Done (q2, cl, n', f')" "q' = e # q2"
        using Cons.prems(1) go by (auto simp: c_bind_Done split: if_split_asm)
      then show ?thesis using Cons.IH [OF r(1)] Cons.prems(2) by auto
    qed
  qed
qed


definition accepted :: "(int \<times> select_result) list \<Rightarrow> nat option list" where
  "accepted evs = concat (map (\<lambda>(now, sel). case sel of Sel_Ready True (Some (fd, sk)) rs \<Rightarrow> [Some fd] | _ \<Rightarrow> []) evs)"

lemma accepted_Cons: "accepted (ev # evs) = accepted [ev] @ accepted evs"
  by (simp add: accepted_def)

lemma ready_sets_streams [simp]: "streams (ready_sets rs q) = streams q"
  and ready_sets_open [simp]: "open_queue (ready_sets rs q) = open_queue q"
proof -
  have *: "map (\<lambda>e. conn_stream (sc_conn e)) (ready_sets rs q) = map (\<lambda>e. conn_stream (sc_conn e)) q"
    by (rule nth_equalityI) (simp_all add: ready_sets_def)
  then show "streams (ready_sets rs q) = streams q" unfolding streams_def by (metis mset_map)
  have "open_queue x \<longleftrightarrow> list_all (\<lambda>s. s \<noteq> None) (map (\<lambda>e. conn_stream (sc_conn e)) x)" for x :: "'a srv_conn list"
    by (simp add: open_queue_def list_all_iff)
  then show "open_queue (ready_sets rs q) = open_queue q" using * by metis
qed

definition balance :: "'x server \<Rightarrow> nat option multiset" where
  "balance sv = mset (srv_closed sv) + streams (connQueue sv)"

lemma accept_balance:
  assumes "keeps_stream ops" "open_queue (connQueue sv)"
  shows "open_queue (connQueue (server_accept ops x acc now sv)) \<and>
     balance (server_accept ops x acc now sv) = mset (accepted [(now, Sel_Ready True acc rs)]) + balance sv"
proof (cases acc)
  case None
  then show ?thesis using assms by (simp add: server_accept_def accepted_def)
next
  case (Some a)
  obtain fd sk where a: "a = (fd, sk)" by fastforce
  obtain c t where cb: "conn_callback ops ((conn_zero x)\<lparr>conn_state := CONN_IODONE, conn_stream := Some fd, conn_callback_set := True, conn_lastio := now\<rparr>) CONN_NEW = (c, t)"
    by fastforce
  then have "conn_stream c = Some fd"
    using keeps_stream_callback [OF assms(1), of "(conn_zero x)\<lparr>conn_state := CONN_IODONE, conn_stream := Some fd, conn_callback_set := True, conn_lastio := now\<rparr>" CONN_NEW] by simp
  then show ?thesis using assms(2) Some a cb by (simp add: server_accept_def accepted_def balance_def Unameit_Conn_Terminate_def Let_def)
qed

lemma pass_balance:
  assumes "server_pass ops heap x timeout now sel sv = Done sv'" "keeps_stream ops" "open_queue (connQueue sv)"
  shows "open_queue (connQueue sv') \<and> balance sv' = mset (accepted [(now, sel)]) + balance sv"
proof -
  obtain q cl where sc: "scan_queue timeout now (connQueue sv) = (q, cl)" by fastforce
  let ?sv = "sv\<lparr>connQueue := q, srv_closed := srv_closed sv @ cl\<rparr>"
  have S: "open_queue q" "mset cl + streams q = streams (connQueue sv)" using scan_streams [OF sc assms(3)] by auto
  have B: "balance ?sv = balance sv" unfolding balance_def S(2) [symmetric] by (simp add: add.assoc)
  show ?thesis
  proof (cases sel)
    case (Sel_Ready lst acc rs)
    let ?r = "?sv\<lparr>connQueue := ready_sets rs q\<rparr>"
    define sv1 where "sv1 = (if lst then server_accept ops x acc now ?r else ?r)"
    have Br: "balance ?r = balance sv" "open_queue (connQueue ?r)" using B S(1) by (simp_all add: balance_def)
    have A: "open_queue (connQueue sv1)" "balance sv1 = mset (accepted [(now, sel)]) + balance sv"
      using accept_balance [OF assms(2) Br(2), of x acc now rs] Br Sel_Ready by (auto simp: sv1_def accepted_def)
    obtain n q1 cl1 n1 f1 q2 cl2 n2 f2 where
      W: "serve_queue ops heap now True n (conn_terminate_flag sv1) (connQueue sv1) = Done (q1, cl1, n1, f1)"
      and R: "serve_queue ops heap now False n1 f1 q1 = Done (q2, cl2, n2, f2)"
      and sv': "sv' = \<lparr>connQueue = q2, srv_closed = srv_closed sv1 @ cl1 @ cl2, conn_terminate_flag = f2\<rparr>"
      using assms(1) unfolding server_pass_def sc
      by (cases lst) (auto simp: Sel_Ready Let_def c_bind_Done sv1_def)
    note w = serve_streams [OF W assms(2) A(1)]
    note r = serve_streams [OF R assms(2)]
    have "balance sv' = mset (srv_closed sv1) + (mset cl1 + (mset cl2 + streams q2))" by (simp add: sv' balance_def add.assoc)
    also have "\<dots> = balance sv1" using w r by (simp add: balance_def)
    finally show ?thesis using A(2) w r by (simp add: sv')
  qed (use assms(1) sc B S in \<open>auto simp: server_pass_def accepted_def Unameit_Conn_Terminate_def balance_def\<close>)
qed

text \<open>The loop handles a prefix of the \<open>select\<close> outcomes: all of them, or those up to the one that terminates it.\<close>

lemma server_loop_balance:
  assumes "server_loop ops heap x timeout evs sv = Done sv'" "keeps_stream ops" "open_queue (connQueue sv)"
  shows "\<exists>n\<le>length evs. open_queue (connQueue sv') \<and> balance sv' = mset (accepted (take n evs)) + balance sv \<and>
     (conn_terminate_flag sv' \<or> n = length evs) \<and> server_loop ops heap x timeout (take n evs) sv = Done sv' \<and>
     (\<forall>m<n. \<exists>v. server_loop ops heap x timeout (take m evs) sv = Done v \<and> \<not> conn_terminate_flag v)"
  using assms(1,3)
proof (induction evs arbitrary: sv)
  case Nil
  then show ?case by (simp add: accepted_def)
next
  case (Cons ev evs)
  obtain now sel where ev: "ev = (now, sel)" by fastforce
  show ?case
  proof (cases "conn_terminate_flag sv")
    case True
    then show ?thesis using Cons.prems ev by (intro exI [of _ 0]) (simp add: accepted_def)
  next
    case False
    then obtain sv1 where p: "server_pass ops heap x timeout now sel sv = Done sv1" "server_loop ops heap x timeout evs sv1 = Done sv'"
      using Cons.prems(1) ev by (auto simp: c_bind_Done)
    note P = pass_balance [OF p(1) assms(2) Cons.prems(2)]
    obtain n where n: "n \<le> length evs" "open_queue (connQueue sv')" "balance sv' = mset (accepted (take n evs)) + balance sv1"
      "conn_terminate_flag sv' \<or> n = length evs" "server_loop ops heap x timeout (take n evs) sv1 = Done sv'"
      "\<forall>m<n. \<exists>v. server_loop ops heap x timeout (take m evs) sv1 = Done v \<and> \<not> conn_terminate_flag v"
      using Cons.IH [OF p(2)] P by blast
    have "\<exists>v. server_loop ops heap x timeout (take m (ev # evs)) sv = Done v \<and> \<not> conn_terminate_flag v" if "m < Suc n" for m
      using that n(6) p(1) False ev by (cases m) auto
    then show ?thesis using P accepted_Cons [of ev "take n evs"] ev n p(1) False by (intro exI [of _ "Suc n"]) simp
  qed
qed

text \<open>C3: The server loop loses no connection and closes none twice.  The \<open>select\<close> outcomes it handles are the first \<open>n\<close>: all of
  them, or those up to and including the one that terminates it (after fewer outcomes it is not yet terminated, after
  these it has the result).  The descriptors closed, together with those of the connections still on the queue, are
  exactly the ones accepted in these outcomes; when the loop has terminated the queue is empty, so each descriptor
  accepted was closed exactly once.\<close>

theorem server_closes_each_connection_once:
  assumes "Unameit_Conn_Loop ops heap x hours evs = Done sv" "keeps_stream ops"
  shows "\<exists>n\<le>length evs.
     mset (srv_closed sv) + image_mset (\<lambda>e. conn_stream (sc_conn e)) (mset (connQueue sv)) = mset (accepted (take n evs)) \<and>
     (conn_terminate_flag sv \<longrightarrow> connQueue sv = []) \<and> (conn_terminate_flag sv \<or> n = length evs) \<and>
     Unameit_Conn_Loop ops heap x hours (take n evs) = Done sv \<and>
     (\<forall>m<n. \<exists>v. Unameit_Conn_Loop ops heap x hours (take m evs) = Done v \<and> \<not> conn_terminate_flag v)"
proof -
  let ?ini = "\<lparr>connQueue = [], srv_closed = [], conn_terminate_flag = False\<rparr> :: 'a server"
  let ?loop = "\<lambda>evs. server_loop ops heap x (if hours > 0 then int32 (hours * 3600) else 0) evs ?ini"
  let ?fin = "\<lambda>sv1. if conn_terminate_flag sv1 then sv1\<lparr>connQueue := [], srv_closed := srv_closed sv1 @
        concat (map (\<lambda>e. snd (Unameit_Conn_Reap (sc_conn e))) (connQueue sv1))\<rparr> else sv1"
  have L: "Unameit_Conn_Loop ops heap x hours evs = Done v \<longleftrightarrow> (\<exists>sv1. ?loop evs = Done sv1 \<and> v = ?fin sv1)" for evs v
    unfolding Unameit_Conn_Loop_def c_bind_Done by (simp only: if_distrib [of Done, symmetric] c_run.inject) blast
  obtain sv1 where l: "?loop evs = Done sv1" and f: "sv = ?fin sv1" using assms(1) L by blast
  obtain n where n: "n \<le> length evs" "open_queue (connQueue sv1)" "balance sv1 = mset (accepted (take n evs))"
    "conn_terminate_flag sv1 \<or> n = length evs" "?loop (take n evs) = Done sv1"
    "\<forall>m<n. \<exists>v. ?loop (take m evs) = Done v \<and> \<not> conn_terminate_flag v"
    using server_loop_balance [OF l assms(2)] by (auto simp: balance_def)
  have "mset (concat (map (\<lambda>e. snd (Unameit_Conn_Reap (sc_conn e))) q)) = streams q" if "open_queue q" for q :: "'a srv_conn list"
    using that by (induction q) (simp_all add: Reap_closes)
  then have "balance sv = balance sv1" using n(2) by (simp add: f balance_def)
  then have B: "mset (srv_closed sv) + image_mset (\<lambda>e. conn_stream (sc_conn e)) (mset (connQueue sv)) = mset (accepted (take n evs))"
    "conn_terminate_flag sv \<longrightarrow> connQueue sv = []" using n(3) by (auto simp: f balance_def streams_def)
  have T: "Unameit_Conn_Loop ops heap x hours (take n evs) = Done sv" using n(5) f L by blast
  have "\<exists>v. Unameit_Conn_Loop ops heap x hours (take m evs) = Done v \<and> \<not> conn_terminate_flag v" if m: "m < n" for m
  proof -
    obtain v where "?loop (take m evs) = Done v" "\<not> conn_terminate_flag v" using n(6) m by blast
    then show ?thesis unfolding L by auto
  qed
  moreover have "conn_terminate_flag sv \<or> n = length evs" using n(4) f by auto
  ultimately show ?thesis using n(1) B T by blast
qed

theorem server_closes_each_connection_once_witness:
  "\<exists>sv. Unameit_Conn_Loop \<lparr>update_read_mic = \<lambda>c r. Done c, update_write_mic = \<lambda>c r. Done c, conn_callback = \<lambda>c st. (c, False)\<rparr> [] () 1
      [(0, Sel_Ready True (Some (5, \<lparr>sock_in = [], sock_room = [], sock_out = []\<rparr>)) []), (1, Sel_Fail)] = Done sv \<and>
     conn_terminate_flag sv \<and> srv_closed sv = [Some 5] \<and> connQueue sv = []"
proof -
  let ?ops = "\<lparr>update_read_mic = \<lambda>c r. Done c, update_write_mic = \<lambda>c r. Done c, conn_callback = \<lambda>c st. (c, False)\<rparr> :: unit conn_ops"
  let ?evs = "[(0, Sel_Ready True (Some (5, \<lparr>sock_in = [], sock_room = [], sock_out = []\<rparr>)) []), (1, Sel_Fail)]"
  let ?sv = "\<lparr>connQueue = [], srv_closed = [Some 5], conn_terminate_flag = True\<rparr> :: unit server"
  have r: "Unameit_Conn_Loop ?ops [] () 1 ?evs = Done ?sv"
    by (simp add: Unameit_Conn_Loop_def server_pass_def ready_sets_def server_accept_def conn_zero_def int32_def
        Unameit_Conn_Reap_def newstate_def Unameit_Conn_Terminate_def)
  have k: "keeps_stream ?ops" by (simp add: keeps_stream_def)
  from server_closes_each_connection_once [OF r k] show ?thesis using r by auto
qed

text \<open>The same pass without the counter of ready descriptors.\<close>

fun serve_all :: "'x conn_ops \<Rightarrow> u8 list \<Rightarrow> int \<Rightarrow> bool \<Rightarrow> bool \<Rightarrow> 'x srv_conn list \<Rightarrow>
    ('x srv_conn list \<times> nat option list \<times> bool) c_run" where
  "serve_all ops heap now wr flag [] = Done ([], [], flag)"
| "serve_all ops heap now wr flag (e # es) =
     (if \<not> wr \<and> flag then Done (e # es, [], flag)
      else if (if wr then sc_write e else sc_read e)
      then c_bind (server_progress ops heap (e\<lparr>sc_conn := (sc_conn e)\<lparr>conn_lastio := now\<rparr>\<rparr>)) (\<lambda>(q, cl, term).
           c_bind (serve_all ops heap now wr (flag \<or> term) es) (\<lambda>(q', cl', f). Done (q @ q', cl @ cl', f)))
      else c_bind (serve_all ops heap now wr flag es) (\<lambda>(q', cl', f). Done (e # q', cl', f)))"

abbreviation in_set :: "bool \<Rightarrow> 'x srv_conn \<Rightarrow> bool" where
  "in_set wr e \<equiv> (if wr then sc_write e else sc_read e)"

abbreviation n_ready :: "bool \<Rightarrow> 'x srv_conn list \<Rightarrow> nat" where
  "n_ready wr q \<equiv> length (filter (in_set wr) q)"

lemma c_bind_cong: "(\<And>x. m = Done x \<Longrightarrow> f x = g x) \<Longrightarrow> c_bind m f = c_bind m g"
  by (cases m) auto

lemma serve_all_none: "n_ready wr q = 0 \<Longrightarrow> serve_all ops heap now wr f q = Done (q, [], f)"
  by (induction q) (auto split: if_split_asm)

lemma serve_queue_all:
  "n_ready wr q \<le> n \<Longrightarrow>
   c_bind (serve_queue ops heap now wr n f q) (\<lambda>(q', cl, n', f'). Done (q', cl, f')) = serve_all ops heap now wr f q"
proof (induction q arbitrary: n f)
  case Nil
  then show ?case by simp
next
  case (Cons e q)
  show ?case
  proof (cases "n = 0")
    case True
    then show ?thesis using serve_all_none [of wr "e # q" ops heap now f] Cons.prems by (simp only: serve_queue.simps) simp
  next
    case False
    show ?thesis
    proof (cases "in_set wr e")
      case True
      then have "n_ready wr q \<le> n - 1" using Cons.prems by (cases wr) auto
      note IH = Cons.IH [OF this, symmetric]
      show ?thesis using True False IH
        by (cases wr) (auto simp: c_bind_assoc split_def intro!: c_bind_cong)
    next
      case F: False
      then have "n_ready wr q \<le> n" using Cons.prems by (cases wr) auto
      note IH = Cons.IH [OF this, symmetric]
      show ?thesis using F False IH by (cases wr) (auto simp: c_bind_assoc split_def intro!: c_bind_cong)
    qed
  qed
qed

lemma serve_queue_left:
  assumes "serve_queue ops heap now True n f q = Done (q', cl, n', f')" "n_ready True q \<le> n"
    and "\<forall>e \<in> set q. \<not> (sc_write e \<and> sc_read e)"
  shows "n' = n - n_ready True q \<and> n_ready False q' = n_ready False q"
  using assms
proof (induction q arbitrary: n f q' cl n' f')
  case Nil
  then show ?case by simp
next
  case (Cons e q)
  show ?case
  proof (cases "n = 0")
    case True
    then show ?thesis using Cons.prems by simp
  next
    case False
    show ?thesis
    proof (cases "sc_write e")
      case True
      then obtain q1 cl1 t q2 cl2 where p: "server_progress ops heap (e\<lparr>sc_conn := (sc_conn e)\<lparr>conn_lastio := now\<rparr>\<rparr>) = Done (q1, cl1, t)"
        and r: "serve_queue ops heap now True (n - 1) (f \<or> t) q = Done (q2, cl2, n', f')" "q' = q1 @ q2"
        using Cons.prems(1) False by (auto simp: c_bind_Done split: if_split_asm)
      have "n_ready False q1 = 0"
        using p True Cons.prems(3) by (auto simp: server_progress_def c_bind_Done split: if_split_asm)
      then show ?thesis using Cons.IH [OF r(1)] Cons.prems(2,3) True r(2) by auto
    next
      case F: False
      then obtain q2 where r: "serve_queue ops heap now True n f q = Done (q2, cl, n', f')" "q' = e # q2"
        using Cons.prems(1) False by (auto simp: c_bind_Done split: if_split_asm)
      then show ?thesis using Cons.IH [OF r(1)] Cons.prems(2,3) F by auto
    qed
  qed
qed

text \<open>C27: The counter of ready descriptors, which ends the two passes over the queue early, never
  starves a connection: with the count \<open>select\<close> reported, flushing the ready writers and then
  serving the ready readers is the same as going through the whole queue.\<close>

theorem select_counter_serves_all_ready:
  assumes "\<forall>e \<in> set q. \<not> (sc_write e \<and> sc_read e)" "n = length (filter (\<lambda>e. sc_write e \<or> sc_read e) q)"
  shows "c_bind (serve_queue ops heap now True n f q) (\<lambda>(q, cl, n, f).
      c_bind (serve_queue ops heap now False n f q) (\<lambda>(q, cl', n, f). Done (q, cl @ cl', f))) =
    c_bind (serve_all ops heap now True f q) (\<lambda>(q, cl, f).
      c_bind (serve_all ops heap now False f q) (\<lambda>(q, cl', f). Done (q, cl @ cl', f)))"
proof -
  have n: "n = n_ready True q + n_ready False q"
    using assms(1) unfolding assms(2) by (induction q) auto
  then have le: "n_ready True q \<le> n" by simp
  show ?thesis
  proof (cases "serve_queue ops heap now True n f q")
    case (Done r)
    obtain q1 cl n1 f1 where r: "r = (q1, cl, n1, f1)" by (cases r)
    have "n_ready False q1 \<le> n1" using serve_queue_left [OF Done [unfolded r] le assms(1)] n by simp
    note R = serve_queue_all [OF this, of ops heap now f1, symmetric]
    have W: "serve_all ops heap now True f q = Done (q1, cl, f1)" using serve_queue_all [OF le, of ops heap now f] Done r by simp
    show ?thesis by (simp add: Done r W R c_bind_assoc split_def)
  qed (use serve_queue_all [OF le, of ops heap now f, symmetric] in simp_all)
qed

definition sample_entry :: "bool \<Rightarrow> unit srv_conn" where
  "sample_entry wr = \<lparr>sc_conn = (conn_zero ())\<lparr>conn_state := (if wr then CONN_WRITING else CONN_READING), conn_callback_set := True\<rparr>,
     sc_sock = \<lparr>sock_in = [Peer_Eof], sock_room = [], sock_out = []\<rparr>, sc_write = wr, sc_read = \<not> wr\<rparr>"

definition sample_server_ops :: "unit conn_ops" where
  "sample_server_ops = \<lparr>update_read_mic = \<lambda>c r. Done c, update_write_mic = \<lambda>c r. Done c, conn_callback = \<lambda>c st. (c, False)\<rparr>"

theorem select_counter_serves_all_ready_witness:
  "c_bind (serve_queue sample_server_ops [] 0 True 2 False [sample_entry False, sample_entry True]) (\<lambda>(q, cl, n, f).
      c_bind (serve_queue sample_server_ops [] 0 False n f q) (\<lambda>(q, cl', n, f). Done (q, cl @ cl', f))) =
    c_bind (serve_all sample_server_ops [] 0 True False [sample_entry False, sample_entry True]) (\<lambda>(q, cl, f).
      c_bind (serve_all sample_server_ops [] 0 False f q) (\<lambda>(q, cl', f). Done (q, cl @ cl', f)))"
  by (rule select_counter_serves_all_ready) (simp_all add: sample_entry_def)

end
