(* ===== verification/DesMd5.thy ===== *)
theory DesMd5
  imports ConnMessages Md5
begin

text \<open>
  The message integrity check of \<^verbatim>\<open>libconn/desmd5.c\<close>: an MD5 digest over the session key, the
  sequence number, the header, the digest of the first message of the session and the data,
  encrypted with DES.  The DES routines of the Kerberos library are an argument.
\<close>

unbundle bit_operations_syntax

section \<open>Model\<close>

record 's des_context =
  seqno :: u32
  ctx_offset :: u32
  des_key :: "u8 list"
  sched :: 's
  md5_ctx :: MD5_CTX
  sessid :: "u8 list"
  final :: bool

record 's des_crypto =
  read_context :: "'s des_context option"
  write_context :: "'s des_context option"

text \<open>The DES library: key schedule and encryption (\<open>True\<close>) or decryption of a block; \<open>fresh\<close> is
  the content of the memory a context is allocated in.\<close>

record 's des_lib =
  mit_des_key_sched :: "u8 list \<Rightarrow> 's"
  mit_des_ecb_encrypt :: "u8 list \<Rightarrow> 's \<Rightarrow> bool \<Rightarrow> u8 list"
  fresh :: "'s des_context"

type_synonym 's des_conn = "'s des_crypto conn_t"

definition Unameit_DesMd5_Mic_Enable :: "'s des_lib \<Rightarrow> 's des_conn \<Rightarrow> u8 list \<Rightarrow> conn_state_t \<Rightarrow> u32 \<Rightarrow> 's des_conn c_run" where
  "Unameit_DesMd5_Mic_Enable lib c key state sq =
     (if conn_errno c \<noteq> ERR_CONN_OK then Done c
      else if conn_state c = state then Panic
      else
        let context = (fresh lib)\<lparr>ctx_offset := 0, seqno := sq, des_key := take 8 key, sched := mit_des_key_sched lib key\<rparr>
        in case state of
             CONN_READING \<Rightarrow> Done (c\<lparr>read_mic := True, crypto := (crypto c)\<lparr>read_context := Some context\<rparr>\<rparr>)
           | CONN_WRITING \<Rightarrow> Done (c\<lparr>write_mic := True, crypto := (crypto c)\<lparr>write_context := Some context\<rparr>\<rparr>)
           | _ \<Rightarrow> Panic)"

text \<open>The start of a digest: key, sequence number, header and, after the first message, the
  session token.\<close>

definition mic_begin :: "'s des_conn \<Rightarrow> 's des_context \<Rightarrow> 's des_context" where
  "mic_begin c ctx =
     (let m = MD5Init (md5_ctx ctx);
          m = MD5Update m (des_key ctx) 8;
          m = MD5Update m (net_bytes (seqno ctx)) 4;
          m = MD5Update m (header_data c) 16;
          m = (if seqno ctx > 0 then MD5Update m (sessid ctx) 16 else m)
      in ctx\<lparr>final := False, md5_ctx := m, ctx_offset := 16\<rparr>)"

definition mic_end :: "bool \<Rightarrow> 's des_conn \<Rightarrow> int" where
  "mic_end encrypt c =
     (if \<not> encrypt then sint (msg_offset c)
      else if header_offset c < HDR_LEN \<and> msg_length c > 0 then sint (msg_offset c + of_nat (iov_len (iov c ! 1)))
      else if msg_offset c < msg_length c then sint (msg_offset c + of_nat (iov_len (iov c ! 0)))
      else sint (msg_length c))"

definition mic_data :: "int \<Rightarrow> 's des_conn \<Rightarrow> 's des_context \<Rightarrow> 's des_context" where
  "mic_data end' c ctx =
     (let start = sint (ctx_offset ctx - 16)
      in if start < end'
         then ctx\<lparr>md5_ctx := MD5Update (md5_ctx ctx) (drop (nat start) (region_bytes c R_Data)) (of_int (end' - start)),
                  ctx_offset := of_int end' + 16\<rparr>
         else ctx)"

definition put_context :: "bool \<Rightarrow> 's des_context \<Rightarrow> 's des_conn \<Rightarrow> 's des_conn" where
  "put_context encrypt ctx c =
     c\<lparr>crypto := (if encrypt then (crypto c)\<lparr>write_context := Some ctx\<rparr> else (crypto c)\<lparr>read_context := Some ctx\<rparr>)\<rparr>"

text \<open>The end of the function, after a check value was made or verified: the digest of the first
  message becomes the session token of both directions.\<close>

definition mic_session :: "'s des_lib \<Rightarrow> bool \<Rightarrow> 's des_context \<Rightarrow> 's des_conn \<Rightarrow> 's des_conn c_run" where
  "mic_session lib encrypt ctx c =
     (if seqno ctx = 0
      then
        let digest = ctx_digest (md5_ctx ctx); ctx = ctx\<lparr>sessid := digest\<rparr>
        in c_bind (Unameit_DesMd5_Mic_Enable lib c (des_key ctx) (if encrypt then CONN_READING else CONN_WRITING) 1) (\<lambda>c.
             case (if encrypt then read_context (crypto c) else write_context (crypto c)) of
               None \<Rightarrow> Overrun
             | Some newcontext \<Rightarrow>
                 Done (put_context encrypt (ctx\<lparr>seqno := seqno ctx + 1\<rparr>)
                        (put_context (\<not> encrypt) (newcontext\<lparr>sessid := digest\<rparr>) c)))
      else Done (put_context encrypt (ctx\<lparr>seqno := seqno ctx + 1\<rparr>) c))"

definition mic_verify :: "'s des_lib \<Rightarrow> 's des_context \<Rightarrow> 's des_conn \<Rightarrow> 's des_conn c_run" where
  "mic_verify lib ctx c =
     (let digest = ctx_digest (md5_ctx ctx);
          mic = mit_des_ecb_encrypt lib (take 8 (trailer_mic c)) (sched ctx) False @ drop 8 (trailer_mic c);
          c = c\<lparr>trailer_mic := mic, read_mic_ok := False\<rparr>
      in if take 8 mic \<noteq> take 8 digest then Done (put_context False ctx c)
         else
           let mic = take 8 mic @ mit_des_ecb_encrypt lib (drop 8 mic) (sched ctx) False;
               c = c\<lparr>trailer_mic := mic\<rparr>
           in if drop 8 mic \<noteq> drop 8 digest then Done (put_context False ctx c)
              else mic_session lib False ctx (c\<lparr>read_mic_ok := True\<rparr>))"

definition mic_seal :: "'s des_lib \<Rightarrow> 's des_context \<Rightarrow> 's des_conn \<Rightarrow> 's des_conn c_run" where
  "mic_seal lib ctx c =
     (let digest = ctx_digest (md5_ctx ctx);
          mic = mit_des_ecb_encrypt lib (take 8 digest) (sched ctx) True @ mit_des_ecb_encrypt lib (drop 8 digest) (sched ctx) True
      in mic_session lib True ctx (c\<lparr>trailer_mic := mic\<rparr>))"

definition Unameit_DesMd5_Update_Mic :: "'s des_lib \<Rightarrow> 's des_conn \<Rightarrow> bool \<Rightarrow> 's des_conn c_run" where
  "Unameit_DesMd5_Update_Mic lib c rst =
     (if conn_state c \<noteq> CONN_READING \<and> conn_state c \<noteq> CONN_WRITING then Panic
      else
        let encrypt = (conn_state c = CONN_WRITING)
        in case (if encrypt then write_context (crypto c) else read_context (crypto c)) of
             None \<Rightarrow> Panic
           | Some ctx \<Rightarrow>
               if rst then Done (put_context encrypt (ctx\<lparr>ctx_offset := 0\<rparr>) c)
               else if ctx_offset ctx = 0 \<and> \<not> encrypt \<and> header_offset c < HDR_LEN then Done c
               else
                 let ctx = (if ctx_offset ctx = 0 then mic_begin c ctx else ctx);
                     end' = mic_end encrypt c;
                     ctx = mic_data end' c ctx
                 in if (of_int end' :: u32) < msg_length c then Done (put_context encrypt ctx c)
                    else if final ctx \<and> encrypt then Done (put_context encrypt ctx c)
                    else
                      let ctx = (if final ctx then ctx else ctx\<lparr>md5_ctx := MD5Final (md5_ctx ctx), final := True\<rparr>)
                      in if encrypt then mic_seal lib ctx c
                         else if trailer_offset c < MIC_LEN then Done (put_context encrypt ctx c)
                         else mic_verify lib ctx c)"

text \<open>The function pointers of a connection on which the check is enabled.\<close>

definition des_ops :: "'s des_lib \<Rightarrow> ('s des_conn \<Rightarrow> conn_state_t \<Rightarrow> 's des_conn \<times> bool) \<Rightarrow> 's des_crypto conn_ops" where
  "des_ops lib cb = \<lparr>update_read_mic = Unameit_DesMd5_Update_Mic lib, update_write_mic = Unameit_DesMd5_Update_Mic lib,
     conn_callback = cb\<rparr>"

lemma des_ops_simps:
  "update_read_mic (des_ops lib cb) = Unameit_DesMd5_Update_Mic lib"
  "update_write_mic (des_ops lib cb) = Unameit_DesMd5_Update_Mic lib"
  by (simp_all add: des_ops_def)

section \<open>The digest\<close>

text \<open>What the check value covers.\<close>

definition mac_prefix :: "u8 list \<Rightarrow> u32 \<Rightarrow> u8 list \<Rightarrow> u8 list \<Rightarrow> u8 list" where
  "mac_prefix K Q S H = K @ net_bytes Q @ H @ (if Q > 0 then S else [])"

definition mac_digest :: "u8 list \<Rightarrow> u32 \<Rightarrow> u8 list \<Rightarrow> u8 list \<Rightarrow> u8 list \<Rightarrow> u8 list" where
  "mac_digest K Q S H D = md5_reference (mac_prefix K Q S H @ D)"

definition seal_digest :: "'s des_lib \<Rightarrow> u8 list \<Rightarrow> u8 list \<Rightarrow> u8 list" where
  "seal_digest lib K dg =
     mit_des_ecb_encrypt lib (take 8 dg) (mit_des_key_sched lib K) True @
     mit_des_ecb_encrypt lib (drop 8 dg) (mit_des_key_sched lib K) True"

text \<open>DES on a block: decryption and encryption are inverse and keep the block size.\<close>

definition des_ok :: "'s des_lib \<Rightarrow> bool" where
  "des_ok lib \<longleftrightarrow> length (ctx_in (md5_ctx (fresh lib))) = 64 \<and>
     (\<forall>b k e. length b = 8 \<longrightarrow> length (mit_des_ecb_encrypt lib b (mit_des_key_sched lib k) e) = 8 \<and>
        mit_des_ecb_encrypt lib (mit_des_ecb_encrypt lib b (mit_des_key_sched lib k) e) (mit_des_key_sched lib k) (\<not> e) = b)"

lemma length_fold_md5_byte: "fold md5_byte bs (buf, inb, mdi) = (buf', inb', mdi') \<Longrightarrow> length inb' = length inb"
  by (induction bs arbitrary: buf inb mdi) (auto simp: md5_byte_def Let_def split: if_split_asm)

lemma length_ctx_in [simp]:
  "length (ctx_in (MD5Update m b l)) = length (ctx_in m)" "length (ctx_in (MD5Final m)) = length (ctx_in m)"
  "length (ctx_in (MD5Init m)) = length (ctx_in m)"
proof -
  show *: "length (ctx_in (MD5Update m b l)) = length (ctx_in m)" for m b l
    by (simp add: MD5Update_def Let_def split: prod.split) (metis length_fold_md5_byte)
  show "length (ctx_in (MD5Final m)) = length (ctx_in m)" by (simp add: MD5Final_def Let_def *)
  show "length (ctx_in (MD5Init m)) = length (ctx_in m)" by (simp add: MD5Init_def)
qed

lemma MD5Update_rep_all:
  "md5_ctx_rep m msg \<Longrightarrow> unat l = length b \<Longrightarrow> md5_ctx_rep (MD5Update m b l) (msg @ b)"
  using MD5Update_rep [of m msg l b] by simp

text \<open>A context for the message with sequence number \<open>Q\<close> of a session, before its first byte.\<close>

definition ctx_session :: "'s des_lib \<Rightarrow> u8 list \<Rightarrow> u32 \<Rightarrow> u8 list \<Rightarrow> 's des_context \<Rightarrow> bool" where
  "ctx_session lib K Q S ctx \<longleftrightarrow> length K = 8 \<and> length S = 16 \<and> des_key ctx = K \<and> sched ctx = mit_des_key_sched lib K \<and>
     length (ctx_in (md5_ctx ctx)) = 64 \<and> seqno ctx = Q \<and> (Q > 0 \<longrightarrow> sessid ctx = S)"

lemma mic_begin_rep:
  assumes "ctx_session lib K Q S ctx" "length (header_data c) = 16"
  shows "ctx_session lib K Q S (mic_begin c ctx)" "md5_ctx_rep (md5_ctx (mic_begin c ctx)) (mac_prefix K Q S (header_data c))"
    "ctx_offset (mic_begin c ctx) = 16" "\<not> final (mic_begin c ctx)"
proof -
  note A = assms(1) [unfolded ctx_session_def]
  have "md5_ctx_rep (MD5Update (MD5Update (MD5Update (MD5Init (md5_ctx ctx)) (des_key ctx) 8) (net_bytes (seqno ctx)) 4) (header_data c) 16)
     ((([] @ des_key ctx) @ net_bytes (seqno ctx)) @ header_data c)"
    using A assms(2) by (intro MD5Update_rep_all MD5Init_rep) simp_all
  then have R: "md5_ctx_rep (MD5Update (MD5Update (MD5Update (MD5Init (md5_ctx ctx)) (des_key ctx) 8) (net_bytes (seqno ctx)) 4) (header_data c) 16)
     (K @ net_bytes Q @ header_data c)" using A by simp
  show "md5_ctx_rep (md5_ctx (mic_begin c ctx)) (mac_prefix K Q S (header_data c))"
  proof (cases "Q > 0")
    case True
    then show ?thesis using MD5Update_rep_all [OF R, of 16 "sessid ctx"] A by (simp add: mic_begin_def mac_prefix_def Let_def)
  next
    case False
    then show ?thesis using R A by (simp add: mic_begin_def mac_prefix_def Let_def)
  qed
  show "ctx_session lib K Q S (mic_begin c ctx)" using A by (simp add: ctx_session_def mic_begin_def Let_def)
  show "ctx_offset (mic_begin c ctx) = 16" "\<not> final (mic_begin c ctx)" by (simp_all add: mic_begin_def Let_def)
qed

text \<open>A context that has digested \<open>n\<close> bytes of data.\<close>

definition ctx_digested :: "'s des_lib \<Rightarrow> u8 list \<Rightarrow> u32 \<Rightarrow> u8 list \<Rightarrow> u8 list \<Rightarrow> u8 list \<Rightarrow> nat \<Rightarrow> 's des_context \<Rightarrow> bool" where
  "ctx_digested lib K Q S H D n ctx \<longleftrightarrow> ctx_session lib K Q S ctx \<and> ctx_offset ctx = of_nat (HDR_LEN + n) \<and> n \<le> length D \<and>
     length D < 2 ^ 31 \<and> \<not> final ctx \<and> md5_ctx_rep (md5_ctx ctx) (mac_prefix K Q S H @ take n D)"

lemma mic_data_digested:
  assumes d: "ctx_digested lib K Q S H D n ctx" and e: "e \<le> length D" and D: "D = take (length D) (region_bytes c R_Data)"
  shows "ctx_digested lib K Q S H D (max n e) (mic_data (int e) c ctx)"
proof -
  have n: "ctx_offset ctx = of_nat (HDR_LEN + n)" "n \<le> length D" "length D < 2 ^ 31"
    and r: "md5_ctx_rep (md5_ctx ctx) (mac_prefix K Q S H @ take n D)" using d by (auto simp: ctx_digested_def)
  have "ctx_offset ctx - 16 = of_int (int n)" using n(1) by simp
  then have st: "sint (ctx_offset ctx - 16) = int n" using sint_small [of "int n"] n by simp
  show ?thesis
  proof (cases "n < e")
    case False
    then have "mic_data (int e) c ctx = ctx" using st by (simp add: mic_data_def)
    then show ?thesis using d False by (simp add: max_def)
  next
    case True
    have eq: "of_int (int e - int n) = (of_nat (e - n) :: u32)" using True by (metis of_int_of_nat_eq of_nat_diff less_imp_le)
    have u: "unat (of_nat (e - n) :: u32) = e - n" using e n by (simp add: unat_of_nat)
    have lr: "e \<le> length (region_bytes c R_Data)" using e arg_cong [OF D, of length] by simp
    have seg: "take (e - n) (drop n (region_bytes c R_Data)) = take (e - n) (drop n D)"
      using e True by (subst D) (simp add: take_drop min_def)
    have "md5_ctx_rep (MD5Update (md5_ctx ctx) (drop n (region_bytes c R_Data)) (of_nat (e - n)))
        ((mac_prefix K Q S H @ take n D) @ take (e - n) (drop n D))"
      using MD5Update_rep [OF r, of "of_nat (e - n)" "drop n (region_bytes c R_Data)"] u lr seg by simp
    moreover have "take n D @ take (e - n) (drop n D) = take e D" using take_add [of n "e - n" D] True by simp
    ultimately have "md5_ctx_rep (MD5Update (md5_ctx ctx) (drop n (region_bytes c R_Data)) (of_nat (e - n))) (mac_prefix K Q S H @ take e D)"
      by simp
    moreover have "mic_data (int e) c ctx = ctx\<lparr>md5_ctx := MD5Update (md5_ctx ctx) (drop n (region_bytes c R_Data)) (of_nat (e - n)),
        ctx_offset := of_nat (HDR_LEN + e)\<rparr>"
      using True st eq by (simp add: mic_data_def add.commute)
    ultimately show ?thesis using d e n True by (simp add: ctx_digested_def ctx_session_def max_def)
  qed
qed


definition ctx_of :: "bool \<Rightarrow> 's des_crypto \<Rightarrow> 's des_context option" where
  "ctx_of encrypt x = (if encrypt then write_context x else read_context x)"

definition next_session :: "u32 \<Rightarrow> u8 list \<Rightarrow> u8 list \<Rightarrow> u8 list" where
  "next_session Q S dg = (if Q = 0 then dg else S)"

lemma mic_session_ok:
  assumes s: "ctx_session lib K Q S ctx" and dg: "ctx_digest (md5_ctx ctx) = dg" "length dg = 16" and lib: "des_ok lib"
    and c: "conn_errno c = ERR_CONN_OK" "conn_state c = (if e then CONN_WRITING else CONN_READING)"
  shows "\<exists>c' ctx'. mic_session lib e ctx c = Done c' \<and> ctx_of e (crypto c') = Some ctx' \<and>
     ctx_session lib K (Q + 1) (next_session Q S dg) ctx' \<and> final ctx' = final ctx \<and> ctx_offset ctx' = ctx_offset ctx \<and>
     (if e then c' = c\<lparr>read_mic := read_mic c', crypto := crypto c'\<rparr> else c' = c\<lparr>write_mic := write_mic c', crypto := crypto c'\<rparr>) \<and>
     (Q = 0 \<longrightarrow> (\<exists>ctx2. ctx_of (\<not> e) (crypto c') = Some ctx2 \<and> ctx_session lib K 1 dg ctx2 \<and> (if e then read_mic c' else write_mic c')))"
proof (cases "Q = 0")
  case False
  then have "mic_session lib e ctx c = Done (put_context e (ctx\<lparr>seqno := Q + 1\<rparr>) c)" using s by (simp add: mic_session_def ctx_session_def)
  then show ?thesis using s False
    by (cases e) (simp_all add: put_context_def ctx_of_def ctx_session_def next_session_def word_gt_0)
next
  case True
  let ?ctx2 = "(fresh lib)\<lparr>ctx_offset := 0, seqno := 1, des_key := K, sched := mit_des_key_sched lib K, sessid := dg\<rparr>"
  have k: "des_key ctx = K" "length K = 8" "seqno ctx = 0" "sched ctx = mit_des_key_sched lib K" "length (ctx_in (md5_ctx ctx)) = 64"
    using s True by (auto simp: ctx_session_def)
  have f: "length (ctx_in (md5_ctx (fresh lib))) = 64" using lib by (simp add: des_ok_def)
  have S2: "ctx_session lib K 1 dg ?ctx2" using k f dg(2) by (simp add: ctx_session_def)
  show ?thesis
  proof (cases e)
    case True
    then have "mic_session lib e ctx c = Done (put_context True (ctx\<lparr>sessid := dg, seqno := 1\<rparr>) (put_context False ?ctx2
        (c\<lparr>read_mic := True, crypto := (crypto c)\<lparr>read_context := Some (?ctx2\<lparr>sessid := sessid (fresh lib)\<rparr>)\<rparr>\<rparr>)))"
      using c k dg by (simp add: mic_session_def Unameit_DesMd5_Mic_Enable_def Let_def)
    then show ?thesis using True \<open>Q = 0\<close> k dg S2
      by (simp add: put_context_def ctx_of_def next_session_def ctx_session_def)
  next
    case False
    then have "mic_session lib e ctx c = Done (put_context False (ctx\<lparr>sessid := dg, seqno := 1\<rparr>) (put_context True ?ctx2
        (c\<lparr>write_mic := True, crypto := (crypto c)\<lparr>write_context := Some (?ctx2\<lparr>sessid := sessid (fresh lib)\<rparr>)\<rparr>\<rparr>)))"
      using c k dg by (simp add: mic_session_def Unameit_DesMd5_Mic_Enable_def Let_def)
    then show ?thesis using False \<open>Q = 0\<close> k dg S2
      by (simp add: put_context_def ctx_of_def next_session_def ctx_session_def)
  qed
qed

lemma MD5Final_digested:
  assumes "ctx_digested lib K Q S H D (length D) ctx"
  shows "ctx_digest (MD5Final (md5_ctx ctx)) = mac_digest K Q S H D"
    "ctx_session lib K Q S (ctx\<lparr>md5_ctx := MD5Final (md5_ctx ctx), final := True\<rparr>)"
  using assms MD5Final_rep [of "md5_ctx ctx" "mac_prefix K Q S H @ D"]
  by (simp_all add: ctx_digested_def mac_digest_def ctx_session_def)

section \<open>The sender\<close>

abbreviation c_data :: "'x conn_t \<Rightarrow> u8 list" where
  "c_data c \<equiv> take (c_len c) (region_bytes c R_Data)"

definition w_sealed :: "'s des_lib \<Rightarrow> u8 list \<Rightarrow> u32 \<Rightarrow> u8 list \<Rightarrow> 's des_conn \<Rightarrow> bool" where
  "w_sealed lib K Q S c \<longleftrightarrow> (\<exists>ctx. write_context (crypto c) = Some ctx \<and> final ctx \<and> ctx_offset ctx = of_nat (HDR_LEN + c_len c) \<and>
     trailer_mic c = seal_digest lib K (mac_digest K Q S (header_data c) (c_data c)) \<and>
     ctx_session lib K (Q + 1) (next_session Q S (mac_digest K Q S (header_data c) (c_data c))) ctx \<and>
     (Q = 0 \<longrightarrow> read_mic c \<and> (\<exists>ctx2. read_context (crypto c) = Some ctx2 \<and>
        ctx_session lib K 1 (mac_digest K Q S (header_data c) (c_data c)) ctx2)))"

definition w_ready :: "'s des_lib \<Rightarrow> u8 list \<Rightarrow> u32 \<Rightarrow> u8 list \<Rightarrow> 's des_conn \<Rightarrow> bool" where
  "w_ready lib K Q S c \<longleftrightarrow> w_sealed lib K Q S c \<or>
     (\<exists>ctx. write_context (crypto c) = Some ctx \<and>
        (ctx_offset ctx = 0 \<and> ctx_session lib K Q S ctx \<and> msg_pos c = 0 \<or>
         (\<exists>n. ctx_digested lib K Q S (header_data c) (c_data c) n ctx \<and> n < c_len c \<and> msg_pos c \<le> HDR_LEN + n)))"

lemma sint_unat_small: "unat (a :: u32) + n < 2 ^ 31 \<Longrightarrow> sint (a + of_nat n) = int (unat a + n)"
proof -
  assume "unat a + n < 2 ^ 31"
  then have "\<bar>int (unat a + n)\<bar> < 2 ^ 31" by (auto simp del: of_nat_unat)
  moreover have "a + of_nat n = of_int (int (unat a + n))" by simp
  ultimately show ?thesis by (simp only: sint_small)
qed

lemma mic_end_write:
  assumes wf: "transfer_wf c w" and st: "conn_state c = CONN_WRITING"
  shows "mic_end True c = int (c_off c + w)"
proof -
  have b: "c_len c < 2 ^ 31" "c_off c + w \<le> c_len c" "c_off c < c_len c \<longrightarrow> 0 < w" using wf by (auto simp: transfer_wf_def)
  have sm: "sint (msg_offset c + of_nat w) = int (c_off c + w)"
    using b by (intro sint_unat_small) simp
  have sl: "sint (msg_length c) = int (c_len c)" using sint_unat_small [of "msg_length c" 0] b by simp
  show ?thesis
  proof (cases "header_offset c < HDR_LEN")
    case True
    obtain v1 v2 where iov: "iov c = [seg R_Header (header_offset c) (HDR_LEN - header_offset c), v1, v2]"
      using transfer_header_window(1) [OF wf True] by blast
    have tk: "take (nvec c) (iov c) = window c w" and o: "c_off c = 0" using wf True by (auto simp: transfer_wf_def)
    show ?thesis
    proof (cases "c_len c > 0")
      case True2: True
      have "iov_len v1 = w" using tk iov True True2 o st
        by (cases "nvec c"; cases "nvec c - 1") (auto simp: window_def data_window_def split: if_split_asm)
      then show ?thesis using True True2 iov sm by (simp add: mic_end_def word_less_nat_alt)
    next
      case False
      then show ?thesis using True b sl o by (simp add: mic_end_def word_less_nat_alt)
    qed
  next
    case False
    then have h: "header_offset c = HDR_LEN" using wf by (simp add: transfer_wf_def)
    show ?thesis
    proof (cases "c_off c < c_len c")
      case True
      then show ?thesis using transfer_data_window(1) [OF wf h True] sm False by (simp add: mic_end_def word_less_nat_alt)
    next
      case False2: False
      then have "c_off c + w = c_len c" using b by simp
      then show ?thesis using False False2 sl by (simp add: mic_end_def word_less_nat_alt del: of_nat_unat)
    qed
  qed
qed


lemma Update_write:
  assumes st: "conn_state c = CONN_WRITING" and ctx: "write_context (crypto c) = Some ctx" and e: "mic_end True c = int e" "e \<le> c_len c" "c_len c < 2 ^ 31"
    and ctx1: "ctx1 = mic_data (int e) c (if ctx_offset ctx = 0 then mic_begin c ctx else ctx)"
  shows "Unameit_DesMd5_Update_Mic lib c False =
    (if e < c_len c \<or> final ctx1 then Done (put_context True ctx1 c)
     else mic_seal lib (ctx1\<lparr>md5_ctx := MD5Final (md5_ctx ctx1), final := True\<rparr>) c)"
proof -
  have "(of_int (int e) :: u32) < msg_length c \<longleftrightarrow> e < c_len c"
    using e by (simp add: word_less_nat_alt unat_of_nat)
  then show ?thesis using st ctx e(1) by (simp add: Unameit_DesMd5_Update_Mic_def ctx1 Let_def)
qed

lemma put_context_same: "write_context (crypto c) = Some ctx \<Longrightarrow> put_context True ctx c = c"
  "read_context (crypto c) = Some ctx \<Longrightarrow> put_context False ctx c = c"
  by (simp_all add: put_context_def)

lemma length_seal: "des_ok lib \<Longrightarrow> length dg = 16 \<Longrightarrow> length (seal_digest lib K dg) = MIC_LEN"
  by (simp add: seal_digest_def des_ok_def)

lemma mic_seal_ok:
  assumes d: "ctx_digested lib K Q S (header_data c) (c_data c) (c_len c) ctx" and lib: "des_ok lib" and b: "bufs_ok c"
    and c: "conn_errno c = ERR_CONN_OK" "conn_state c = CONN_WRITING"
  shows "\<exists>c'. mic_seal lib (ctx\<lparr>md5_ctx := MD5Final (md5_ctx ctx), final := True\<rparr>) c = Done c' \<and> mic_frame c c' \<and> w_sealed lib K Q S c'"
proof -
  let ?D = "c_data c" and ?ctx = "ctx\<lparr>md5_ctx := MD5Final (md5_ctx ctx), final := True\<rparr>"
  have lD: "length ?D = c_len c" using b by (simp add: bufs_ok_def del: region_bytes.simps)
  let ?dg = "mac_digest K Q S (header_data c) ?D"
  have d': "ctx_digested lib K Q S (header_data c) ?D (length ?D) ctx" using d lD by simp
  have dg: "ctx_digest (md5_ctx ?ctx) = ?dg" "ctx_session lib K Q S ?ctx" using MD5Final_digested [OF d'] by simp_all
  have ld: "length ?dg = 16" by (simp add: mac_digest_def)
  have sc: "sched ctx = mit_des_key_sched lib K" using d by (simp add: ctx_digested_def ctx_session_def)
  let ?c = "c\<lparr>trailer_mic := seal_digest lib K ?dg\<rparr>"
  have sl: "mic_seal lib ?ctx c = mic_session lib True ?ctx ?c" using dg sc by (simp add: mic_seal_def seal_digest_def Let_def)
  obtain c' ctx' where M: "mic_session lib True ?ctx ?c = Done c'" "ctx_of True (crypto c') = Some ctx'"
      "ctx_session lib K (Q + 1) (next_session Q S ?dg) ctx'" "final ctx' = final ?ctx" "ctx_offset ctx' = ctx_offset ?ctx"
      "c' = ?c\<lparr>read_mic := read_mic c', crypto := crypto c'\<rparr>"
      "Q = 0 \<longrightarrow> (\<exists>ctx2. ctx_of False (crypto c') = Some ctx2 \<and> ctx_session lib K 1 ?dg ctx2 \<and> read_mic c')"
    using mic_session_ok [OF dg(2,1) ld lib, of ?c True] c by auto
  have f: "header_data c' = header_data c" "region_bytes c' R_Data = region_bytes c R_Data" "msg_length c' = msg_length c"
    "trailer_mic c' = seal_digest lib K ?dg" by (subst M(6), simp)+
  have "mic_frame c c'" using length_seal [OF lib ld] f(4) unfolding mic_frame_def by (subst M(6)) simp
  moreover have "w_sealed lib K Q S c'"
    unfolding w_sealed_def f using M(2-5,7) d by (simp add: ctx_of_def ctx_digested_def) blast
  ultimately show ?thesis using M(1) sl by simp
qed

lemma w_sealed_same_msg: "w_sealed lib K Q S c \<Longrightarrow> same_msg c c' \<Longrightarrow> w_sealed lib K Q S c'"
  using same_msg_simps [of c c'] by (simp add: w_sealed_def del: region_bytes.simps)

lemma digested_window:
  assumes wf: "transfer_wf c w" and st: "conn_state c = CONN_WRITING" and lt: "c_off c + w < c_len c"
  shows "msg_pos c + window_len c \<le> HDR_LEN + (c_off c + w)"
proof (cases "header_offset c < HDR_LEN")
  case True
  then show ?thesis using transfer_header_window(2) [OF wf True st] wf lt by (auto simp: transfer_wf_def msg_pos_def)
next
  case False
  then have h: "header_offset c = HDR_LEN" using wf by (simp add: transfer_wf_def)
  have "c_off c < c_len c" using lt by simp
  then show ?thesis using transfer_data_window(2) [OF wf h] lt h by (simp add: msg_pos_def)
qed

lemma w_update:
  assumes wf: "transfer_wf c w" and b: "bufs_ok c" and st: "conn_state c = CONN_WRITING" and er: "conn_errno c = ERR_CONN_OK"
    and rd: "w_ready lib K Q S c" and lib: "des_ok lib"
  shows "\<exists>c'. Unameit_DesMd5_Update_Mic lib c False = Done c' \<and> mic_frame c c' \<and>
      (in_trailer c \<longrightarrow> trailer_mic c' = trailer_mic c) \<and>
      (\<forall>c'' w''. same_msg c' c'' \<longrightarrow> transfer_wf c'' w'' \<longrightarrow> msg_pos c' \<le> msg_pos c'' \<longrightarrow>
         msg_pos c'' \<le> msg_pos c' + window_len c' \<longrightarrow> w_ready lib K Q S c'')"
proof -
  have e: "mic_end True c = int (c_off c + w)" using mic_end_write [OF wf st] .
  have le: "c_off c + w \<le> c_len c" "c_len c < 2 ^ 31" using wf by (auto simp: transfer_wf_def)
  have lD: "length (c_data c) = c_len c" using b by (simp add: bufs_ok_def del: region_bytes.simps)
  show ?thesis
  proof (cases "w_sealed lib K Q S c")
    case True
    then obtain ctx where ctx: "write_context (crypto c) = Some ctx" "final ctx" "ctx_offset ctx = of_nat (HDR_LEN + c_len c)"
      by (auto simp: w_sealed_def)
    have "ctx_offset ctx \<noteq> 0" using ctx(3) le by (simp add: unat_eq_zero [symmetric] unat_of_nat del: of_nat_add unat_eq_zero)
    moreover have "ctx_offset ctx - 16 = msg_length c + of_nat 0" using ctx(3) by simp
    then have "sint (ctx_offset ctx - 16) = int (c_len c)" using sint_unat_small [of "msg_length c" 0] le by (simp del: of_nat_unat)
    then have "mic_data (int (c_off c + w)) c ctx = ctx" using le by (simp add: mic_data_def Let_def del: of_nat_unat of_nat_add)
    ultimately have "Unameit_DesMd5_Update_Mic lib c False = Done c"
      using Update_write [OF st ctx(1) e le refl, of lib] ctx(2) put_context_same(1) [OF ctx(1)] by simp
    moreover have "mic_frame c c" using b by (simp add: mic_frame_def bufs_ok_def)
    ultimately show ?thesis using True w_sealed_same_msg by (auto simp: w_ready_def)
  next
    case False
    then obtain ctx n where ctx: "write_context (crypto c) = Some ctx"
      and n: "ctx_digested lib K Q S (header_data c) (c_data c) n (if ctx_offset ctx = 0 then mic_begin c ctx else ctx)"
      and nt: "\<not> in_trailer c" and nl: "n < c_len c \<or> n = 0"
    proof -
      from rd False obtain ctx where ctx: "write_context (crypto c) = Some ctx" and
        "ctx_offset ctx = 0 \<and> ctx_session lib K Q S ctx \<and> msg_pos c = 0 \<or>
         (\<exists>n. ctx_digested lib K Q S (header_data c) (c_data c) n ctx \<and> n < c_len c \<and> msg_pos c \<le> HDR_LEN + n)"
        by (auto simp: w_ready_def)
      from this(2) show thesis
      proof (elim disjE exE conjE)
        assume A: "ctx_offset ctx = 0" "ctx_session lib K Q S ctx" "msg_pos c = 0"
        have hl: "length (header_data c) = 16" using b by (simp add: bufs_ok_def)
        have "ctx_digested lib K Q S (header_data c) (c_data c) 0 (mic_begin c ctx)"
          using mic_begin_rep [OF A(2) hl] le lD by (simp add: ctx_digested_def)
        then show thesis using that [OF ctx, of 0] A by (auto simp: in_trailer_def msg_pos_def)
      next
        fix n assume A: "ctx_digested lib K Q S (header_data c) (c_data c) n ctx" "n < c_len c" "msg_pos c \<le> HDR_LEN + n"
        have "ctx_offset ctx \<noteq> 0" using A le
          by (simp add: ctx_digested_def unat_eq_zero [symmetric] unat_of_nat del: of_nat_add unat_eq_zero)
        then show thesis using that [OF ctx, of n] A by (auto simp: in_trailer_def msg_pos_def split: if_split_asm)
      qed
    qed
    define ctx1 where "ctx1 = mic_data (int (c_off c + w)) c (if ctx_offset ctx = 0 then mic_begin c ctx else ctx)"
    define m where "m = max n (c_off c + w)"
    have d1: "ctx_digested lib K Q S (header_data c) (c_data c) m ctx1"
      unfolding ctx1_def m_def by (rule mic_data_digested [OF n]) (use le lD in simp_all)
    have nf: "\<not> final ctx1" using d1 by (simp add: ctx_digested_def)
    note U = Update_write [OF st ctx e le ctx1_def, of lib]
    show ?thesis
    proof (cases "c_off c + w < c_len c")
      case True
      let ?c = "put_context True ctx1 c"
      have fr: "mic_frame c ?c" using b by (simp add: mic_frame_def put_context_def bufs_ok_def)
      note F = mic_frame_simps [OF fr st]
      have "w_ready lib K Q S c''" if "same_msg ?c c''" "msg_pos c'' \<le> msg_pos ?c + window_len ?c" for c''
      proof -
        note G = same_msg_simps [OF that(1)]
        have "msg_pos c'' \<le> HDR_LEN + m" using that(2) F digested_window [OF wf st True] by (simp add: m_def)
        moreover have "m < c_len c" using nl True by (auto simp: m_def)
        moreover have "write_context (crypto c'') = Some ctx1" using G by (simp add: put_context_def)
        ultimately show ?thesis using d1 unfolding w_ready_def G F(9-11) by blast
      qed
      then show ?thesis using U True fr nt by auto
    next
      case False
      then have "m = c_len c" using d1 le lD by (auto simp: m_def ctx_digested_def)
      then obtain c' where "mic_seal lib (ctx1\<lparr>md5_ctx := MD5Final (md5_ctx ctx1), final := True\<rparr>) c = Done c'" "mic_frame c c'" "w_sealed lib K Q S c'"
        using mic_seal_ok [OF _ lib b er st] d1 by blast
      then show ?thesis using U False nf nt w_sealed_same_msg by (auto simp: w_ready_def)
    qed
  qed
qed


section \<open>The receiver\<close>

definition r_final :: "'s des_lib \<Rightarrow> u8 list \<Rightarrow> u32 \<Rightarrow> u8 list \<Rightarrow> 's des_conn \<Rightarrow> 's des_context \<Rightarrow> bool" where
  "r_final lib K Q S c ctx \<longleftrightarrow> final ctx \<and> ctx_offset ctx = of_nat (HDR_LEN + c_len c) \<and> ctx_session lib K Q S ctx \<and>
     ctx_digest (md5_ctx ctx) = mac_digest K Q S (header_data c) (c_data c) \<and> c_len c \<le> c_off c"

definition r_ready :: "'s des_lib \<Rightarrow> u8 list \<Rightarrow> u32 \<Rightarrow> u8 list \<Rightarrow> 's des_conn \<Rightarrow> bool" where
  "r_ready lib K Q S c \<longleftrightarrow> (\<exists>ctx. read_context (crypto c) = Some ctx \<and>
     (ctx_offset ctx = 0 \<and> ctx_session lib K Q S ctx \<or>
      header_offset c = HDR_LEN \<and> length (c_data c) = c_len c \<and>
        ((\<exists>n. ctx_digested lib K Q S (header_data c) (c_data c) n ctx \<and> n \<le> c_off c) \<or> r_final lib K Q S c ctx)))"

lemma r_ready_extends:
  assumes r: "r_ready lib K Q S c" and m: "msg_extends c c'"
  shows "r_ready lib K Q S c'"
proof -
  obtain ctx where ctx: "read_context (crypto c) = Some ctx" and
    C: "ctx_offset ctx = 0 \<and> ctx_session lib K Q S ctx \<or>
      header_offset c = HDR_LEN \<and> length (c_data c) = c_len c \<and>
        ((\<exists>n. ctx_digested lib K Q S (header_data c) (c_data c) n ctx \<and> n \<le> c_off c) \<or> r_final lib K Q S c ctx)"
    using r by (auto simp: r_ready_def)
  have ctx': "read_context (crypto c') = Some ctx" using ctx m by (simp add: msg_extends_def)
  show ?thesis
  proof (cases "ctx_offset ctx = 0 \<and> ctx_session lib K Q S ctx")
    case True
    then show ?thesis using ctx' by (auto simp: r_ready_def)
  next
    case False
    then have h: "header_offset c = HDR_LEN" and lD: "length (c_data c) = c_len c" and
      C: "(\<exists>n. ctx_digested lib K Q S (header_data c) (c_data c) n ctx \<and> n \<le> c_off c) \<or> r_final lib K Q S c ctx"
      using C by blast+
    have m': "header_offset c' = HDR_LEN" "header_data c' = header_data c" "msg_length c' = msg_length c" "c_off c \<le> c_off c'"
        "take (c_off c) (region_bytes c' R_Data) = take (c_off c) (region_bytes c R_Data)" "c_len c' \<le> length (region_bytes c' R_Data)"
      using m h by (auto simp: msg_extends_def simp del: region_bytes.simps)
    have lD': "length (c_data c') = c_len c" using m' by (simp del: region_bytes.simps)
    have tk: "take n (c_data c') = take n (c_data c)" if "n \<le> c_off c" "n \<le> c_len c" for n
    proof -
      have "take n (take (c_off c) (region_bytes c' R_Data)) = take n (take (c_off c) (region_bytes c R_Data))" using m'(5) by simp
      then show ?thesis using that m'(3) by (simp add: min_absorb1 del: region_bytes.simps)
    qed
    from C show ?thesis
    proof (elim disjE exE conjE)
      fix n assume A: "ctx_digested lib K Q S (header_data c) (c_data c) n ctx" "n \<le> c_off c"
      then have "n \<le> c_len c" using lD by (simp add: ctx_digested_def del: region_bytes.simps)
      then have "ctx_digested lib K Q S (header_data c') (c_data c') n ctx"
        using A tk [of n] lD lD' m'(2) by (simp add: ctx_digested_def del: region_bytes.simps take_take)
      moreover have "n \<le> c_off c'" using A(2) m'(4) by simp
      ultimately show ?thesis using ctx' m'(1,3) lD' unfolding r_ready_def by auto
    next
      assume A: "r_final lib K Q S c ctx"
      then have "c_data c' = c_data c" using tk [of "c_len c"] m'(3) by (simp add: r_final_def del: region_bytes.simps)
      then have "r_final lib K Q S c' ctx" using A m'(2-4) by (simp add: r_final_def del: region_bytes.simps)
      then show ?thesis using ctx' m'(1,3) lD' unfolding r_ready_def by auto
    qed
  qed
qed

lemma des_inverse:
  assumes lib: "des_ok lib" and "length T = 16" "length dg = 16"
  shows "(mit_des_ecb_encrypt lib (take 8 T) (mit_des_key_sched lib K) False = take 8 dg \<and>
     mit_des_ecb_encrypt lib (drop 8 T) (mit_des_key_sched lib K) False = drop 8 dg) \<longleftrightarrow> T = seal_digest lib K dg"
proof -
  let ?e = "\<lambda>b. mit_des_ecb_encrypt lib b (mit_des_key_sched lib K) True" and ?d = "\<lambda>b. mit_des_ecb_encrypt lib b (mit_des_key_sched lib K) False"
  have inv: "?d (?e b) = b" "?e (?d b) = b" "length (?e b) = 8" if "length b = 8" for b
    using lib that unfolding des_ok_def by (metis (full_types))+
  have bij: "?d t = g \<longleftrightarrow> t = ?e g" if "length t = 8" "length g = 8" for t g using inv that by metis
  have "T = seal_digest lib K dg \<longleftrightarrow> take 8 T = ?e (take 8 dg) \<and> drop 8 T = ?e (drop 8 dg)"
  proof -
    have "T = seal_digest lib K dg \<longleftrightarrow> take 8 T @ drop 8 T = ?e (take 8 dg) @ ?e (drop 8 dg)" by (simp add: seal_digest_def)
    also have "\<dots> \<longleftrightarrow> take 8 T = ?e (take 8 dg) \<and> drop 8 T = ?e (drop 8 dg)"
      by (rule append_eq_append_conv) (use inv(3) [of "take 8 dg"] assms in simp)
    finally show ?thesis .
  qed
  then show ?thesis using bij assms by simp
qed

lemma mic_verify_ok:
  assumes s: "ctx_session lib K Q S ctx" and dg: "ctx_digest (md5_ctx ctx) = dg" "length dg = 16" and lib: "des_ok lib"
    and c: "conn_errno c = ERR_CONN_OK" "conn_state c = CONN_READING" "length (trailer_mic c) = MIC_LEN"
  shows "\<exists>c'. mic_verify lib ctx c = Done c' \<and> rmic_frame c c' \<and>
     (read_mic_ok c' \<longleftrightarrow> trailer_mic c = seal_digest lib K dg) \<and>
     (read_mic_ok c' \<longrightarrow> (\<exists>ctx'. read_context (crypto c') = Some ctx' \<and> ctx_session lib K (Q + 1) (next_session Q S dg) ctx') \<and>
        (Q = 0 \<longrightarrow> write_mic c' \<and> (\<exists>ctx2. write_context (crypto c') = Some ctx2 \<and> ctx_session lib K 1 dg ctx2)))"
proof -
  let ?d = "\<lambda>b. mit_des_ecb_encrypt lib b (mit_des_key_sched lib K) False"
  let ?T = "trailer_mic c"
  have sc: "sched ctx = mit_des_key_sched lib K" using s by (simp add: ctx_session_def)
  have l8: "length (?d (take 8 ?T)) = 8" "length (?d (drop 8 ?T)) = 8" using lib c(3) by (simp_all add: des_ok_def)
  note inv = des_inverse [OF lib c(3) dg(2), of K]
  show ?thesis
  proof (cases "?d (take 8 ?T) = take 8 dg")
    case False
    then show ?thesis using inv sc dg l8 c(3) by (simp add: mic_verify_def Let_def put_context_def rmic_frame_def)
  next
    case one: True
    show ?thesis
    proof (cases "?d (drop 8 ?T) = drop 8 dg")
      case False
      then show ?thesis using one inv sc dg l8 c(3) by (simp add: mic_verify_def Let_def put_context_def rmic_frame_def)
    next
      case True
      let ?c = "c\<lparr>trailer_mic := take 8 dg @ drop 8 dg, read_mic_ok := True\<rparr>"
      have v: "mic_verify lib ctx c = mic_session lib False ctx ?c"
        using one True sc dg l8 by (simp add: mic_verify_def Let_def)
      obtain c' ctx' where M: "mic_session lib False ctx ?c = Done c'" "ctx_of False (crypto c') = Some ctx'"
          "ctx_session lib K (Q + 1) (next_session Q S dg) ctx'" "c' = ?c\<lparr>write_mic := write_mic c', crypto := crypto c'\<rparr>"
          "Q = 0 \<longrightarrow> (\<exists>ctx2. ctx_of True (crypto c') = Some ctx2 \<and> ctx_session lib K 1 dg ctx2 \<and> write_mic c')"
        using mic_session_ok [OF s dg lib, of ?c False] c by auto
      have tm: "trailer_mic c' = dg" and ok: "read_mic_ok c' = True" by (subst M(4), simp)+
      have "rmic_frame c c'" unfolding rmic_frame_def using dg(2) by (intro conjI, intro trans [OF M(4)]) (simp_all add: tm ok)
      then show ?thesis using v M(1,2,3,5) one True inv ok by (auto simp: ctx_of_def)
    qed
  qed
qed


lemma Update_read:
  assumes st: "conn_state c = CONN_READING" and ctx: "read_context (crypto c) = Some ctx" and h: "header_offset c = HDR_LEN"
    and e: "c_off c \<le> c_len c" "c_len c < 2 ^ 31"
    and ctx1: "ctx1 = mic_data (int (c_off c)) c (if ctx_offset ctx = 0 then mic_begin c ctx else ctx)"
    and ctx2: "ctx2 = (if final ctx1 then ctx1 else ctx1\<lparr>md5_ctx := MD5Final (md5_ctx ctx1), final := True\<rparr>)"
  shows "Unameit_DesMd5_Update_Mic lib c False =
    (if c_off c < c_len c then Done (put_context False ctx1 c)
     else if trailer_offset c < MIC_LEN then Done (put_context False ctx2 c)
     else mic_verify lib ctx2 c)"
proof -
  have m: "mic_end False c = int (c_off c)" using sint_unat_small [of "msg_offset c" 0] e by (simp add: mic_end_def)
  have "(of_int (int (c_off c)) :: u32) < msg_length c \<longleftrightarrow> c_off c < c_len c"
    by (simp add: word_less_nat_alt)
  then show ?thesis unfolding ctx1 ctx2 using st ctx m h by (simp add: Unameit_DesMd5_Update_Mic_def Let_def del: of_nat_unat)
qed

lemma r_final_data:
  assumes "r_final lib K Q S c ctx" "c_off c \<le> c_len c" "c_len c < 2 ^ 31"
  shows "ctx_offset ctx \<noteq> 0" "mic_data (int (c_off c)) c ctx = ctx"
proof -
  have o: "ctx_offset ctx = of_nat (HDR_LEN + c_len c)" using assms(1) unfolding r_final_def by blast
  show "ctx_offset ctx \<noteq> 0" unfolding o using assms(3) by (simp add: unat_eq_zero [symmetric] unat_of_nat del: of_nat_add unat_eq_zero)
  have "ctx_offset ctx - 16 = msg_length c + of_nat 0" using o by simp
  then have "sint (ctx_offset ctx - 16) = int (c_len c)" using sint_unat_small [of "msg_length c" 0] assms(3) by (simp del: of_nat_unat)
  then show "mic_data (int (c_off c)) c ctx = ctx" using assms(2) by (simp add: mic_data_def Let_def del: of_nat_unat)
qed

text \<open>The context after the data part of an update.\<close>

lemma r_ready_data:
  assumes r: "r_ready lib K Q S c" and h: "header_offset c = HDR_LEN" and b: "bufs_ok c"
    and e: "c_off c \<le> c_len c" "c_len c < 2 ^ 31"
  shows "\<exists>ctx ctx1. read_context (crypto c) = Some ctx \<and>
     ctx1 = mic_data (int (c_off c)) c (if ctx_offset ctx = 0 then mic_begin c ctx else ctx) \<and>
     (ctx_digested lib K Q S (header_data c) (c_data c) (c_off c) ctx1 \<or> r_final lib K Q S c ctx1)"
proof -
  have lD: "length (c_data c) = c_len c" and hl: "length (header_data c) = 16" using b by (simp_all add: bufs_ok_def del: region_bytes.simps)
  have D: "c_data c = take (length (c_data c)) (region_bytes c R_Data)" using lD by simp
  obtain ctx where ctx: "read_context (crypto c) = Some ctx" and
    C: "ctx_offset ctx = 0 \<and> ctx_session lib K Q S ctx \<or>
        (\<exists>n. ctx_digested lib K Q S (header_data c) (c_data c) n ctx \<and> n \<le> c_off c) \<or> r_final lib K Q S c ctx"
    using r by (auto simp: r_ready_def)
  let ?ctx1 = "mic_data (int (c_off c)) c (if ctx_offset ctx = 0 then mic_begin c ctx else ctx)"
  have "ctx_digested lib K Q S (header_data c) (c_data c) (c_off c) ?ctx1 \<or> r_final lib K Q S c ?ctx1"
    using C
  proof (elim disjE exE conjE)
    assume A: "ctx_offset ctx = 0" "ctx_session lib K Q S ctx"
    have "ctx_digested lib K Q S (header_data c) (c_data c) 0 (mic_begin c ctx)"
      using mic_begin_rep [OF A(2) hl] e lD by (simp add: ctx_digested_def)
    from mic_data_digested [OF this _ D, of "c_off c"] show ?thesis using A(1) e lD by simp
  next
    fix n assume A: "ctx_digested lib K Q S (header_data c) (c_data c) n ctx" "n \<le> c_off c"
    have "ctx_offset ctx \<noteq> 0" using A e
      by (simp add: ctx_digested_def unat_eq_zero [symmetric] unat_of_nat del: of_nat_add unat_eq_zero)
    then show ?thesis using mic_data_digested [OF A(1) _ D, of "c_off c"] A(2) e lD by (simp add: max_def)
  next
    assume "r_final lib K Q S c ctx"
    then show ?thesis using r_final_data [OF _ e] by simp
  qed
  then show ?thesis using ctx by blast
qed

lemma r_update:
  assumes wf: "transfer_wf c w" and b: "bufs_ok c" and st: "conn_state c = CONN_READING" and er: "conn_errno c = ERR_CONN_OK"
    and h: "header_offset c = HDR_LEN" and mic: "read_mic c" and rd: "r_ready lib K Q S c" and lib: "des_ok lib"
  shows "\<exists>c'. Unameit_DesMd5_Update_Mic lib c False = Done c' \<and> rmic_frame c c' \<and>
     (nvec c > 0 \<longrightarrow> r_ready lib K Q S c' \<and> trailer_mic c' = trailer_mic c) \<and>
     (nvec c = 0 \<longrightarrow> (read_mic_ok c' \<longleftrightarrow> trailer_mic c = seal_digest lib K (mac_digest K Q S (header_data c) (c_data c))) \<and>
        (read_mic_ok c' \<longrightarrow> (\<exists>ctx'. read_context (crypto c') = Some ctx' \<and>
             ctx_session lib K (Q + 1) (next_session Q S (mac_digest K Q S (header_data c) (c_data c))) ctx') \<and>
           (Q = 0 \<longrightarrow> write_mic c' \<and> (\<exists>ctx2. write_context (crypto c') = Some ctx2 \<and>
              ctx_session lib K 1 (mac_digest K Q S (header_data c) (c_data c)) ctx2))))"
proof -
  have e: "c_off c \<le> c_len c" "c_len c < 2 ^ 31" using wf by (auto simp: transfer_wf_def)
  have lD: "length (c_data c) = c_len c" and lT: "length (trailer_mic c) = MIC_LEN" using b by (simp_all add: bufs_ok_def del: region_bytes.simps)
  obtain ctx ctx1 where ctx: "read_context (crypto c) = Some ctx"
    and c1: "ctx1 = mic_data (int (c_off c)) c (if ctx_offset ctx = 0 then mic_begin c ctx else ctx)"
    and C: "ctx_digested lib K Q S (header_data c) (c_data c) (c_off c) ctx1 \<or> r_final lib K Q S c ctx1"
    using r_ready_data [OF rd h b e] by blast
  define ctx2 where "ctx2 = (if final ctx1 then ctx1 else ctx1\<lparr>md5_ctx := MD5Final (md5_ctx ctx1), final := True\<rparr>)"
  note U = Update_read [OF st ctx h e c1 ctx2_def, of lib]
  have put: "r_ready lib K Q S (put_context False x c)" "rmic_frame c (put_context False x c)" "trailer_mic (put_context False x c) = trailer_mic c"
    if "ctx_digested lib K Q S (header_data c) (c_data c) (c_off c) x \<or> r_final lib K Q S c x" for x
    using that h lD lT by (auto simp: r_ready_def put_context_def r_final_def rmic_frame_def simp del: take_take)
  show ?thesis
  proof (cases "c_off c < c_len c")
    case True
    then have "nvec c > 0" using nvec_window [OF wf] h by (simp add: window_def data_window_def)
    then show ?thesis using U True put [OF C] by simp
  next
    case False
    then have eq: "c_off c = c_len c" using e by simp
    have R2: "r_final lib K Q S c ctx2"
      using C
    proof
      assume A: "r_final lib K Q S c ctx1"
      then show ?thesis by (simp add: ctx2_def r_final_def)
    next
      assume A: "ctx_digested lib K Q S (header_data c) (c_data c) (c_off c) ctx1"
      have A': "ctx_digested lib K Q S (header_data c) (c_data c) (length (c_data c)) ctx1" using A eq lD by simp
      then have "\<not> final ctx1" by (simp add: ctx_digested_def)
      then show ?thesis using A eq MD5Final_digested [OF A'] by (simp add: r_final_def ctx2_def ctx_digested_def)
    qed
    show ?thesis
    proof (cases "trailer_offset c < MIC_LEN")
      case True
      then have "nvec c > 0" using nvec_window [OF wf] h eq mic st wf
        by (simp add: window_def data_window_def mic_expected_def transfer_wf_def)
      then show ?thesis using U False True put [OF disjI2 [OF R2]] by simp
    next
      case F: False
      have z: "nvec c = 0" using nvec_window [OF wf] h eq F by (simp add: window_def data_window_def)
      have "length (mac_digest K Q S (header_data c) (c_data c)) = 16" by (simp add: mac_digest_def)
      from mic_verify_ok [where ctx = ctx2 and Q = Q and S = S and K = K, OF _ _ this lib er st lT] R2 U False F z show ?thesis
        by (simp add: r_final_def)
    qed
  qed
qed

definition w_usable :: "'s des_lib \<Rightarrow> u8 list \<Rightarrow> u32 \<Rightarrow> u8 list \<Rightarrow> 's des_crypto \<Rightarrow> bool" where
  "w_usable lib K Q S x \<longleftrightarrow> des_ok lib \<and> (\<exists>ctx. write_context x = Some ctx \<and> ctx_session lib K Q S ctx)"

definition r_usable :: "'s des_lib \<Rightarrow> u8 list \<Rightarrow> u32 \<Rightarrow> u8 list \<Rightarrow> 's des_crypto \<Rightarrow> bool" where
  "r_usable lib K Q S x \<longleftrightarrow> des_ok lib \<and> (\<exists>ctx. read_context x = Some ctx \<and> ctx_session lib K Q S ctx)"

interpretation des_write: write_mic_contract "des_ops lib cb" "w_usable lib K Q S" "\<lambda>c. des_ok lib \<and> w_ready lib K Q S c"
  for lib cb K Q S
proof unfold_locales
  fix c :: "'a des_conn" and w assume A: "transfer_wf c w" "bufs_ok c" "conn_state c = CONN_WRITING" "write_mic c" "msg_pos c = 0" "w_usable lib K Q S (crypto c)"
  then obtain ctx where ctx: "write_context (crypto c) = Some ctx" "ctx_session lib K Q S ctx" "des_ok lib" by (auto simp: w_usable_def)
  let ?c = "put_context True (ctx\<lparr>ctx_offset := 0\<rparr>) c"
  have "update_write_mic (des_ops lib cb) c True = Done ?c"
    using A(3) ctx by (simp add: des_ops_def Unameit_DesMd5_Update_Mic_def)
  moreover have fr: "mic_frame c ?c" using A(2) by (simp add: mic_frame_def put_context_def bufs_ok_def)
  moreover have "w_ready lib K Q S ?c"
    using ctx(2) mic_frame_simps(4) [OF fr A(3)] A(5) by (auto simp: w_ready_def put_context_def ctx_session_def)
  ultimately show "\<exists>c'. update_write_mic (des_ops lib cb) c True = Done c' \<and> mic_frame c c' \<and> (des_ok lib \<and> w_ready lib K Q S c')"
    using ctx(3) by blast
next
  fix c :: "'a des_conn" and w assume A: "transfer_wf c w" "bufs_ok c" "conn_state c = CONN_WRITING" "conn_errno c = ERR_CONN_OK" "write_mic c" "des_ok lib \<and> w_ready lib K Q S c"
  show "\<exists>c'. update_write_mic (des_ops lib cb) c False = Done c' \<and> mic_frame c c' \<and>
      (in_trailer c \<longrightarrow> trailer_mic c' = trailer_mic c) \<and>
      (\<forall>c'' w''. same_msg c' c'' \<longrightarrow> transfer_wf c'' w'' \<longrightarrow> msg_pos c' \<le> msg_pos c'' \<longrightarrow>
         msg_pos c'' \<le> msg_pos c' + window_len c' \<longrightarrow> (des_ok lib \<and> w_ready lib K Q S c''))"
    using w_update [OF A(1-4), of lib K Q S] A(6) by (simp add: des_ops_def)
qed

interpretation des_read: read_mic_contract "des_ops lib cb" "r_usable lib K Q S" "\<lambda>c. des_ok lib \<and> r_ready lib K Q S c"
  for lib cb K Q S
proof unfold_locales
  fix c :: "'a des_conn" assume A: "conn_state c = CONN_READING" "read_mic c" "length (trailer_mic c) = MIC_LEN" "header_offset c = 0" "r_usable lib K Q S (crypto c)"
  then obtain ctx where ctx: "read_context (crypto c) = Some ctx" "ctx_session lib K Q S ctx" "des_ok lib" by (auto simp: r_usable_def)
  let ?c = "put_context False (ctx\<lparr>ctx_offset := 0\<rparr>) c"
  have "update_read_mic (des_ops lib cb) c True = Done ?c"
    using A(1) ctx by (simp add: des_ops_def Unameit_DesMd5_Update_Mic_def)
  moreover have "rmic_frame c ?c" using A(3) by (simp add: rmic_frame_def put_context_def)
  moreover have "r_ready lib K Q S ?c" using ctx(2) by (auto simp: r_ready_def put_context_def ctx_session_def)
  ultimately show "\<exists>c'. update_read_mic (des_ops lib cb) c True = Done c' \<and> rmic_frame c c' \<and> (des_ok lib \<and> r_ready lib K Q S c')"
    using ctx(3) by blast
next
  fix c c' :: "'a des_conn" assume "des_ok lib \<and> r_ready lib K Q S c" "msg_extends c c'"
  then show "des_ok lib \<and> r_ready lib K Q S c'" using r_ready_extends by blast
next
  fix c :: "'a des_conn" and w assume A: "transfer_wf c w" "bufs_ok c" "conn_state c = CONN_READING" "conn_errno c = ERR_CONN_OK" "header_offset c = HDR_LEN"
    "read_mic c" "des_ok lib \<and> r_ready lib K Q S c"
  show "\<exists>c'. update_read_mic (des_ops lib cb) c False = Done c' \<and> rmic_frame c c' \<and>
        (nvec c > 0 \<longrightarrow> (des_ok lib \<and> r_ready lib K Q S c') \<and> trailer_mic c' = trailer_mic c)"
    using r_update [OF A(1-6), of lib K Q S] A(7) by (auto simp: des_ops_def)
qed


section \<open>Properties\<close>

text \<open>The contexts of one direction at two ends, in step before message \<open>Q\<close>.\<close>

definition write_session :: "'s des_lib \<Rightarrow> u8 list \<Rightarrow> u32 \<Rightarrow> u8 list \<Rightarrow> 's des_conn \<Rightarrow> bool" where
  "write_session lib K Q S c \<longleftrightarrow> write_mic c \<and> (\<exists>ctx. write_context (crypto c) = Some ctx \<and> ctx_session lib K Q S ctx)"

definition read_session :: "'s des_lib \<Rightarrow> u8 list \<Rightarrow> u32 \<Rightarrow> u8 list \<Rightarrow> 's des_conn \<Rightarrow> bool" where
  "read_session lib K Q S c \<longleftrightarrow> read_mic c \<and> (\<exists>ctx. read_context (crypto c) = Some ctx \<and> ctx_session lib K Q S ctx)"

lemma des_finished:
  assumes lib: "des_ok lib" and f: "des_read.finished lib cb K Q S H D T rest c s" and lT: "length T = MIC_LEN"
  shows "read_mic_ok c \<longleftrightarrow> T = seal_digest lib K (mac_digest K Q S H D)"
    "read_mic_ok c \<longrightarrow> read_session lib K (Q + 1) (next_session Q S (mac_digest K Q S H D)) c \<and>
       (Q = 0 \<longrightarrow> write_session lib K 1 (mac_digest K Q S H D) c)"
proof -
  obtain c0 where R: "des_read.receiver lib K Q S H D T rest c0 s" "nvec c0 = 0"
    and u: "if read_mic c0 then Unameit_DesMd5_Update_Mic lib c0 False = Done c \<and> rmic_frame c0 c else c = c0"
    using f unfolding des_read.finished_def des_ops_simps by blast
  have st: "conn_state c0 = CONN_READING" using R by (simp add: des_read.receiver_def)
  have mic: "read_mic c0" using R(1) lT by (auto simp: des_read.receiver_def msg_ok_def split: if_split_asm)
  then have m: "read_mic c" using u rmic_frame_simps(12) [OF _ st, of c] by auto
  note F = des_read.receiver_done [OF R]
  have rc: "received H D T c0" "conn_errno c0 = ERR_CONN_OK" "r_ready lib K Q S c0" using R(1) F(8) mic by (auto simp: des_read.receiver_def)
  obtain w where wf: "transfer_wf c0 w" using R(1) by (auto simp: des_read.receiver_def)
  have b: "bufs_ok c0" and ld: "c_len c0 = length D" using rc(1) by (auto simp: received_def)
  have D: "c_data c0 = D" using F(2) ld by simp
  have T: "trailer_mic c0 = T" using F(7) mic by simp
  have "(read_mic_ok c \<longleftrightarrow> T = seal_digest lib K (mac_digest K Q S H D)) \<and>
    (read_mic_ok c \<longrightarrow> (\<exists>ctx'. read_context (crypto c) = Some ctx' \<and>
             ctx_session lib K (Q + 1) (next_session Q S (mac_digest K Q S H D)) ctx') \<and>
           (Q = 0 \<longrightarrow> write_mic c \<and> (\<exists>ctx2. write_context (crypto c) = Some ctx2 \<and> ctx_session lib K 1 (mac_digest K Q S H D) ctx2)))"
    using r_update [OF wf b st rc(2) F(8) mic rc(3) lib] u mic R(2) unfolding D F(1) T by auto
  then show "read_mic_ok c \<longleftrightarrow> T = seal_digest lib K (mac_digest K Q S H D)"
    "read_mic_ok c \<longrightarrow> read_session lib K (Q + 1) (next_session Q S (mac_digest K Q S H D)) c \<and>
       (Q = 0 \<longrightarrow> write_session lib K 1 (mac_digest K Q S H D) c)"
    using m by (auto simp: read_session_def write_session_def)
qed

text \<open>C8: A connection with the DES/MD5 check accepts a message exactly if its trailer is the encrypted
  digest of key, sequence number, header, session token and data: with any other trailer, and so
  after any change of header or data that changes the digest, \<open>mic_ok\<close> is not set.  This holds for
  every split of the message into packets.\<close>

theorem mic_accepts_exactly_sealed:
  assumes "des_ok lib" "conn_idle c" "read_session lib K Q S c" "msg_ok H D T (maxlen c) True"
    and "recv_good (sock_in s)" "recv_bytes (sock_in s) = H @ D @ T @ rest" "recv_fuel (sock_in s) < k"
  shows "\<exists>c1 c' s'. Unameit_Conn_Poll (des_ops lib cb) c = Done c1 \<and> drive (des_ops lib cb) heap k c1 s = Done (True, c', s') \<and>
     header_data c' = H \<and> msg_data c' = Some (D @ [0]) \<and>
     (read_mic_ok c' \<longleftrightarrow> T = seal_digest lib K (md5_reference (mac_prefix K Q S H @ D)))"
proof -
  have ok: "msg_ok H D T (maxlen c) (read_mic c)" using assms(3,4) by (simp add: read_session_def)
  have us: "read_mic c \<longrightarrow> r_usable lib K Q S (crypto c)" using assms(1,3) by (auto simp: read_session_def r_usable_def)
  obtain c1 where P: "Unameit_Conn_Poll (des_ops lib cb) c = Done c1" "des_read.receiver lib K Q S H D T rest c1 s" "nvec c1 > 0"
    using des_read.Poll_receiver [OF assms(2) ok us assms(5,6), of cb] by blast
  have "des_read.progressed lib cb K Q S H D T rest c1 s" using P(2,3) by (simp add: des_read.progressed_def)
  from des_read.drive_receiver [OF this assms(7), of heap] obtain c' s' where d: "drive (des_ops lib cb) heap k c1 s = Done (True, c', s')"
    and f: "des_read.finished lib cb K Q S H D T rest c' s'" by (auto simp: des_read.progressed_def split: if_split_asm)
  have "length T = MIC_LEN" using assms(4) by (simp add: msg_ok_def)
  then show ?thesis using P(1) d des_finished(1) [OF assms(1) f] des_read.finished_done [OF f] by (auto simp: mac_digest_def)
qed


text \<open>C9: Two connections whose contexts are in step exchange a message with the DES/MD5 check: the
  sender sends header, data and the encrypted digest, the receiver assembles the message and
  accepts it, and both ends are in step for the next message; after the first message of a
  session the reverse direction is set up at both ends with its digest as session token.\<close>

theorem mic_session_in_step:
  assumes "des_ok lib" "conn_idle w" "write_session lib K Q S w" "conn_idle r" "read_session lib K Q S r"
    and "unat len \<le> length data" "unat len < 2 ^ 31" "maxlen r = 0 \<or> len \<le> maxlen r"
    and "Send_Error \<notin> set (sock_room sw)" "HDR_LEN + unat len + MIC_LEN \<le> takes_some (sock_room sw)" "length (sock_room sw) < k"
    and H_def: "H = msg_header atype res len" and D_def: "D = take (unat len) data"
  shows "\<exists>w1 w' sw'. Unameit_Conn_Write (des_ops lib cb) w data len atype res fp = Done w1 \<and>
     drive (des_ops lib cb) wheap k w1 sw = Done (True, w', sw') \<and>
     sock_out sw' = sock_out sw @ H @ D @ seal_digest lib K (mac_digest K Q S H D) \<and>
     write_session lib K (Q + 1) (next_session Q S (mac_digest K Q S H D)) w' \<and>
     (Q = 0 \<longrightarrow> read_session lib K 1 (mac_digest K Q S H D) w') \<and>
     (\<forall>sr rest n. recv_good (sock_in sr) \<and> recv_bytes (sock_in sr) = H @ D @ seal_digest lib K (mac_digest K Q S H D) @ rest \<and>
         recv_fuel (sock_in sr) < n \<longrightarrow>
       (\<exists>r1 r' sr'. Unameit_Conn_Poll (des_ops lib cb) r = Done r1 \<and> drive (des_ops lib cb) rheap n r1 sr = Done (True, r', sr') \<and>
          msg_data r' = Some (D @ [0]) \<and> read_mic_ok r' \<and>
          read_session lib K (Q + 1) (next_session Q S (mac_digest K Q S H D)) r' \<and>
          (Q = 0 \<longrightarrow> write_session lib K 1 (mac_digest K Q S H D) r')))"
proof -
  let ?T = "seal_digest lib K (mac_digest K Q S H D)"
  have uw: "write_mic w \<longrightarrow> w_usable lib K Q S (crypto w)" and mw: "write_mic w" using assms(1,3) by (auto simp: write_session_def w_usable_def)
  obtain w1 w' sw' where W: "Unameit_Conn_Write (des_ops lib cb) w data len atype res fp = Done w1"
      "drive (des_ops lib cb) wheap k w1 sw = Done (True, w', sw')"
      "des_write.sender lib K Q S (sock_out sw) (H, D, True) w' sw'" "sock_out sw' = sock_out sw @ H @ D @ trailer_mic w'" "nvec w' = 0"
    using des_write.Write_delivers [OF assms(2,6,7) uw assms(9,11), where cb = cb and atype = atype and res = res and fp = fp and heap = wheap]
      assms(10) mw unfolding H_def D_def by auto
  have sealed: "w_sealed lib K Q S w'" "header_data w' = H" "c_data w' = D" "write_mic w'"
  proof -
    obtain ww where wf: "transfer_wf w' ww" and st: "conn_state w' = CONN_WRITING" and rdy: "write_mic w' \<longrightarrow> w_ready lib K Q S w'"
      and m: "msg_of w' = (H, D, True)" using W(3) by (auto simp: des_write.sender_def)
    show h: "header_data w' = H" "c_data w' = D" and wm: "write_mic w'" using m st by (auto simp: msg_of_def mic_expected_def)
    have "msg_pos w' = msg_total w'" using window_cases [OF wf] st W(5) by auto
    then show "w_sealed lib K Q S w'" using rdy wm st by (auto simp: w_ready_def msg_total_def mic_expected_def)
  qed
  have lT: "length ?T = MIC_LEN" using length_seal [OF assms(1)] by (simp add: mac_digest_def)
  have lD: "length D = unat len" "of_nat (length D) = len" using assms(6) by (simp_all add: D_def min.absorb2)
  have mr: "read_mic r" using assms(5) by (simp add: read_session_def)
  have ok: "msg_ok H D ?T (maxlen r) (read_mic r)" using assms lD lT mr by (simp add: msg_ok_def msg_header_fields)
  have ur: "read_mic r \<longrightarrow> r_usable lib K Q S (crypto r)" using assms(1,5) by (auto simp: read_session_def r_usable_def)
  have R: "\<exists>r1 r' sr'. Unameit_Conn_Poll (des_ops lib cb) r = Done r1 \<and> drive (des_ops lib cb) rheap n r1 sr = Done (True, r', sr') \<and>
          msg_data r' = Some (D @ [0]) \<and> read_mic_ok r' \<and>
          read_session lib K (Q + 1) (next_session Q S (mac_digest K Q S H D)) r' \<and>
          (Q = 0 \<longrightarrow> write_session lib K 1 (mac_digest K Q S H D) r')"
    if A: "recv_good (sock_in sr)" "recv_bytes (sock_in sr) = H @ D @ ?T @ rest" "recv_fuel (sock_in sr) < n" for sr rest n
  proof -
    obtain r1 r' sr' where P: "Unameit_Conn_Poll (des_ops lib cb) r = Done r1" "drive (des_ops lib cb) rheap n r1 sr = Done (True, r', sr')"
        and f: "des_read.finished lib cb K Q S H D ?T rest r' sr'"
      using des_read.Poll_reassembles [OF assms(4) ok ur A, of cb rheap] by blast
    show ?thesis using P des_read.finished_done(2) [OF f] des_finished [OF assms(1) f lT] by blast
  qed
  have "write_session lib K (Q + 1) (next_session Q S (mac_digest K Q S H D)) w'"
    "Q = 0 \<longrightarrow> read_session lib K 1 (mac_digest K Q S H D) w'" "trailer_mic w' = ?T"
    using sealed(1,4) unfolding w_sealed_def sealed(2,3) write_session_def read_session_def by auto
  then show ?thesis using W R by auto
qed


subsection \<open>Concrete instances\<close>

definition sample_md5 :: MD5_CTX where
  "sample_md5 = \<lparr>ctx_i0 = 0, ctx_i1 = 0, ctx_buf = [], ctx_in = replicate 64 0, ctx_digest = []\<rparr>"

text \<open>An involution on blocks stands in for DES.\<close>

definition xor_lib :: "u8 list des_lib" where
  "xor_lib = \<lparr>mit_des_key_sched = \<lambda>k. take 8 (k @ replicate 8 0),
     mit_des_ecb_encrypt = \<lambda>b s e. map2 (XOR) b s,
     fresh = \<lparr>seqno = 0, ctx_offset = 0, des_key = [], sched = [], md5_ctx = sample_md5, sessid = [], final = False\<rparr>\<rparr>"

lemma xor_lib_ok: "des_ok xor_lib"
  by (auto simp: des_ok_def xor_lib_def sample_md5_def xor.assoc intro!: nth_equalityI)

abbreviation sample_key :: "u8 list" where "sample_key \<equiv> replicate 8 7"
abbreviation sample_token :: "u8 list" where "sample_token \<equiv> replicate 16 9"

definition sample_ctx :: "u8 list des_context" where
  "sample_ctx = \<lparr>seqno = 1, ctx_offset = 0, des_key = sample_key, sched = mit_des_key_sched xor_lib sample_key, md5_ctx = sample_md5,
     sessid = sample_token, final = False\<rparr>"

definition sample_des_conn :: "u8 list des_conn" where
  "sample_des_conn = (conn_zero \<lparr>read_context = Some sample_ctx, write_context = Some sample_ctx\<rparr>)
     \<lparr>conn_state := CONN_IODONE, conn_callback_set := True, read_mic := True, write_mic := True\<rparr>"

lemma sample_des_conn_ok:
  "conn_idle sample_des_conn" "read_session xor_lib sample_key 1 sample_token sample_des_conn"
  "write_session xor_lib sample_key 1 sample_token sample_des_conn" "maxlen sample_des_conn = 0"
  by (simp_all add: sample_des_conn_def conn_zero_def conn_idle_def conn_wf_def read_session_def write_session_def ctx_session_def
      sample_ctx_def sample_md5_def)

theorem mic_accepts_exactly_sealed_witness:
  "\<exists>T c1 c' s'. Unameit_Conn_Poll (des_ops xor_lib (\<lambda>c st. (c, False))) sample_des_conn = Done c1 \<and>
     drive (des_ops xor_lib (\<lambda>c st. (c, False))) [] 40 c1
       \<lparr>sock_in = [Arrives (msg_header 4 0 2), Recv_Blocks, Arrives ([1, 2] @ T)], sock_room = [], sock_out = []\<rparr> = Done (True, c', s') \<and>
     msg_data c' = Some [1, 2, 0] \<and> read_mic_ok c'"
proof -
  define T where "T = seal_digest xor_lib sample_key (md5_reference (mac_prefix sample_key 1 sample_token (msg_header 4 0 2) @ [1, 2]))"
  have lT: "length T = MIC_LEN" unfolding T_def by (rule length_seal [OF xor_lib_ok]) simp
  then have "T \<noteq> []" by auto
  have ok: "msg_ok (msg_header 4 0 2) [1, 2] T (maxlen sample_des_conn) True"
    using lT sample_des_conn_ok(4) by (simp add: msg_ok_def msg_header_fields)
  from mic_accepts_exactly_sealed [OF xor_lib_ok sample_des_conn_ok(1,2) ok, where rest = "[]" and k = 40 and heap = "[]" and cb = "\<lambda>c st. (c, False)" and
      s = "\<lparr>sock_in = [Arrives (msg_header 4 0 2), Recv_Blocks, Arrives ([1, 2] @ T)], sock_room = [], sock_out = []\<rparr>"]
  show ?thesis using lT \<open>T \<noteq> []\<close> unfolding T_def [symmetric]
    by (auto simp: recv_good_def recv_fuel_def msg_header_def net_bytes_def)
qed

theorem mic_session_in_step_witness:
  "\<exists>w1 w' sw'. Unameit_Conn_Write (des_ops xor_lib (\<lambda>c st. (c, False))) sample_des_conn [1, 2] 2 4 0 TCL_STATIC = Done w1 \<and>
     drive (des_ops xor_lib (\<lambda>c st. (c, False))) [] 40 w1 \<lparr>sock_in = [], sock_room = replicate 34 (Takes 1), sock_out = []\<rparr> = Done (True, w', sw') \<and>
     sock_out sw' = msg_header 4 0 2 @ [1, 2] @ seal_digest xor_lib sample_key (mac_digest sample_key 1 sample_token (msg_header 4 0 2) [1, 2]) \<and>
     write_session xor_lib sample_key 2 sample_token w'"
proof -
  have "(1 :: u32) + 1 = 2" by simp
  then show ?thesis
    using mic_session_in_step [OF xor_lib_ok sample_des_conn_ok(1,3,1,2), where data = "[1, 2]" and len = 2 and k = 40 and wheap = "[]" and rheap = "[]" and cb = "\<lambda>c st. (c, False)" and fp = TCL_STATIC
      and sw = "\<lparr>sock_in = [], sock_room = replicate 34 (Takes 1), sock_out = []\<rparr>" and H = "msg_header 4 0 2" and D = "[1, 2]" and atype = 4 and res = 0]
      sample_des_conn_ok(4) by (simp add: takes_some_def next_session_def; blast)
qed

end
