(* ===== verification/Auth.thy ===== *)
theory Auth
  imports ConnMessages
begin

text \<open>
  Authentication of a client: the module registry of \<^verbatim>\<open>libconn/auth.c\<close> and the two modules
  without external libraries, \<^verbatim>\<open>libconn/trivial.c\<close> and \<^verbatim>\<open>libconn/passwd.c\<close>.

  A module's commands work on its static context; the login procedure a module calls through
  \<open>Tcl_Eval\<close> is an argument that maps the words of the command to its result.  Pointers into the
  received buffer are indices; \<open>c_strlen\<close> answers \<open>None\<close> where \<open>strlen\<close> would run past the buffer.
\<close>

section \<open>Model\<close>

definition c_strlen :: "u8 list \<Rightarrow> nat \<Rightarrow> nat option" where
  "c_strlen buf p =
     (let n = length (takeWhile (\<lambda>c. c \<noteq> 0) (drop p buf)) in if p + n < length buf then Some n else None)"

definition c_string :: "u8 list \<Rightarrow> nat \<Rightarrow> cstr" where
  "c_string buf p = takeWhile (\<lambda>c. c \<noteq> 0) (drop p buf)"

definition auth_error :: "string \<Rightarrow> string \<Rightarrow> cstr list \<Rightarrow> 'r tcl_result" where
  "auth_error module code args = Tcl_Error (cstr ''UNAMEIT'' # cstr ''AUTH'' # cstr module # cstr code # args) []"

record trivial_context =
  client_principal :: "cstr option"
  client_instance :: "cstr option"
  client_realm :: "cstr option"

record upasswd_context =
  user_name :: "cstr option"
  password :: "cstr option"

text \<open>The static contexts of the two modules.\<close>

record auth_world =
  trivial :: trivial_context
  upw :: upasswd_context

type_synonym 'x write_auth = "auth_world \<Rightarrow> 'x conn_ops \<Rightarrow> 'x conn_t \<Rightarrow> (cstr tcl_result \<times> 'x conn_t) c_run"
type_synonym read_auth = "auth_world \<Rightarrow> (cstr list \<Rightarrow> cstr tcl_result) \<Rightarrow> u8 list option \<Rightarrow> nat \<Rightarrow> cstr tcl_result c_run"
type_synonym command_proc = "auth_world \<Rightarrow> cstr list \<Rightarrow> cstr tcl_result \<times> auth_world"

abbreviation CONN_AUTH_ID_UPASSWD :: u32 where "CONN_AUTH_ID_UPASSWD \<equiv> 3"
abbreviation CONN_AUTH_ID_TRIVIAL :: u32 where "CONN_AUTH_ID_TRIVIAL \<equiv> 4"

subsection \<open>The trivial module\<close>

definition Trivial_write_auth :: "'x write_auth" where
  "Trivial_write_auth aw ops c =
     (case (client_principal (trivial aw), client_instance (trivial aw), client_realm (trivial aw)) of
        (Some p, Some i, Some r) \<Rightarrow>
          let buf = p @ [0] @ i @ [0] @ r @ [0]
          in c_bind (Unameit_Conn_Write ops c buf (of_nat (length p + length i + length r + 3)) CONN_AUTH_ID_TRIVIAL 0 TCL_DYNAMIC)
               (\<lambda>c. Done (Tcl_Ok [], c))
      | _ \<Rightarrow> Done (auth_error ''trivial'' ''NOKINIT'' [], c))"

definition Trivial_read_auth :: "read_auth" where
  "Trivial_read_auth aw tcl_eval data len =
     (case data of None \<Rightarrow> Panic | Some buf \<Rightarrow>
      case (client_principal (trivial aw), client_instance (trivial aw), client_realm (trivial aw)) of
        (Some sp, Some si, Some sr) \<Rightarrow>
          (case c_strlen buf 0 of
             None \<Rightarrow> Overrun
           | Some n \<Rightarrow>
               let pinst = n + 1
               in if pinst + 2 > len then Done (auth_error ''trivial'' ''EBADARGS'' [])
                  else case c_strlen buf pinst of
                    None \<Rightarrow> Overrun
                  | Some m \<Rightarrow>
                      let realm = pinst + m + 1
                      in if realm + 1 > len then Done (auth_error ''trivial'' ''EBADARGS'' [])
                         else case c_strlen buf realm of
                           None \<Rightarrow> Overrun
                         | Some k \<Rightarrow>
                             if realm + k + 1 \<noteq> len then Done (auth_error ''trivial'' ''EBADARGS'' [])
                             else
                               let p = c_string buf 0; i = c_string buf pinst; r = c_string buf realm
                               in Done (tcl_eval
                                    ([cstr ''unameit_login_trivial'',
                                      if p = sp \<and> i = si \<and> r = sr then cstr ''privileged'' else cstr ''normal'', r, p]
                                     @ (if i \<noteq> [] then [i] else []))))
      | _ \<Rightarrow> Done (auth_error ''trivial'' ''NOSETSERVICE'' []))"

definition Trivial_set_service :: command_proc where
  "Trivial_set_service aw argv =
     (if length argv \<noteq> 6 then (auth_error ''trivial'' ''EBADARGS'' [], aw)
      else (Tcl_Ok [], aw\<lparr>trivial := \<lparr>client_principal = Some (argv ! 3), client_instance = Some (argv ! 4), client_realm = Some (argv ! 5)\<rparr>\<rparr>))"

definition Trivial_kinit :: command_proc where
  "Trivial_kinit aw argv =
     (if length argv \<noteq> 6 then (auth_error ''trivial'' ''EBADARGS'' [], aw)
      else (Tcl_Ok [], aw\<lparr>trivial := \<lparr>client_principal = Some (argv ! 3), client_instance = Some (argv ! 4), client_realm = Some (argv ! 5)\<rparr>\<rparr>))"

definition Trivial_Noop :: "nat \<Rightarrow> command_proc" where
  "Trivial_Noop d aw argv = (if length argv \<noteq> 3 + d then (auth_error ''trivial'' ''EBADARGS'' [], aw) else (Tcl_Ok [], aw))"

subsection \<open>The password module\<close>

text \<open>\<open>strlen\<close> of a null pointer is \<open>Overrun\<close>.\<close>

definition Upasswd_write_auth :: "'x write_auth" where
  "Upasswd_write_auth aw ops c =
     (case (user_name (upw aw), password (upw aw)) of
        (Some u, Some p) \<Rightarrow>
          if length u < 1 then Done (auth_error ''upasswd'' ''NONAME'' [], c)
          else if length p < 1 then Done (auth_error ''upasswd'' ''NOPASSWORD'' [], c)
          else
            let buf = u @ [0] @ p @ [0]
            in c_bind (Unameit_Conn_Write ops c buf (of_nat (length u + length p + 2)) CONN_AUTH_ID_UPASSWD 0 TCL_DYNAMIC)
                 (\<lambda>c. Done (Tcl_Ok [], c))
      | _ \<Rightarrow> Overrun)"

definition Upasswd_read_auth :: read_auth where
  "Upasswd_read_auth aw tcl_eval data len =
     (case data of None \<Rightarrow> Overrun | Some buf \<Rightarrow>
      case c_strlen buf 0 of
        None \<Rightarrow> Overrun
      | Some n \<Rightarrow>
          let pw = n + 1
          in case c_strlen buf pw of
               None \<Rightarrow> Overrun
             | Some m \<Rightarrow>
                 if pw + m + 1 \<noteq> len then Done (auth_error ''upasswd'' ''EBADARGS'' [])
                 else if pw = 1 then Done (auth_error ''upasswd'' ''NONAME'' [])
                 else Done (tcl_eval [cstr ''unameit_login_upasswd'', c_string buf 0, c_string buf pw]))"

definition Upasswd_kinit :: command_proc where
  "Upasswd_kinit aw argv =
     (if length argv \<noteq> 5 then (auth_error ''upasswd'' ''EBADARGS'' [], aw)
      else (Tcl_Ok [], aw\<lparr>upw := \<lparr>user_name = Some (argv ! 3), password = Some (argv ! 4)\<rparr>\<rparr>))"

definition Upasswd_kdestroy :: command_proc where
  "Upasswd_kdestroy aw argv =
     (if length argv \<noteq> 3 then (auth_error ''upasswd'' ''EBADARGS'' [], aw)
      else (Tcl_Ok [], aw\<lparr>upw := \<lparr>user_name = None, password = None\<rparr>\<rparr>))"

subsection \<open>The registry\<close>

record cmd_entry =
  command :: cstr
  proc :: command_proc
  params :: cstr

record 'x auth_functions =
  af_name :: cstr
  af_type :: u32
  read_auth_function :: read_auth
  write_auth_function :: "'x write_auth"
  command_functions :: "cmd_entry list"

record 'x auth_context =
  auth_modules_by_name :: "cstr \<rightharpoonup> 'x auth_functions"
  auth_modules_by_type :: "u32 \<rightharpoonup> 'x auth_functions"

text \<open>\<open>procs\<close> are the results of evaluating the Tcl procedures of the module.\<close>

fun eval_procedures :: "cstr tcl_result list \<Rightarrow> cstr tcl_result" where
  "eval_procedures [] = Tcl_Ok []"
| "eval_procedures (Tcl_Error code msg # rs) = Tcl_Error code msg"
| "eval_procedures (Tcl_Ok r # rs) = eval_procedures rs"

definition Auth_Register :: "'x auth_functions \<Rightarrow> cstr tcl_result list \<Rightarrow> 'x auth_context \<Rightarrow> cstr tcl_result \<times> 'x auth_context" where
  "Auth_Register calls procs auth =
     (eval_procedures procs,
      auth\<lparr>auth_modules_by_name := (auth_modules_by_name auth)(af_name calls \<mapsto> calls),
           auth_modules_by_type := (auth_modules_by_type auth)(af_type calls \<mapsto> calls)\<rparr>)"

definition Auth_Read :: "'x auth_context \<Rightarrow> auth_world \<Rightarrow> (cstr list \<Rightarrow> cstr tcl_result) \<Rightarrow> 'x conn_t \<Rightarrow> (cstr tcl_result \<times> 'x conn_t) c_run" where
  "Auth_Read auth aw tcl_eval c =
     (if conn_errno c \<noteq> ERR_CONN_OK then Done (auth_error ''auth'' ''EIO'' [], c)
      else
        let atype = auth_type c; (r, c) = Unameit_Conn_Read True c
        in case r of
             None \<Rightarrow> Overrun
           | Some (data, len, ret_code) \<Rightarrow>
               if \<not> read_mic_ok c then Done (auth_error ''auth'' ''EBADMIC'' [], c)
               else case auth_modules_by_type auth atype of
                 None \<Rightarrow> Done (auth_error ''auth'' ''EWEAKMOD'' [], c)
               | Some m \<Rightarrow> c_bind (read_auth_function m aw tcl_eval data (unat len)) (\<lambda>r. Done (r, c)))"

definition Auth_Write :: "'x auth_context \<Rightarrow> auth_world \<Rightarrow> 'x conn_ops \<Rightarrow> cstr list \<Rightarrow> 'x conn_t \<Rightarrow> (cstr tcl_result \<times> 'x conn_t) c_run" where
  "Auth_Write auth aw ops argv c =
     (if conn_errno c \<noteq> ERR_CONN_OK then Done (auth_error ''auth'' ''EIO'' [], c)
      else if length argv < 2 then Done (auth_error ''auth'' ''EBADARGS'' [], c)
      else case auth_modules_by_name auth (argv ! 1) of
        None \<Rightarrow> Done (auth_error ''auth'' ''ENOMOD'' [argv ! 1], c)
      | Some m \<Rightarrow> write_auth_function m aw ops c)"

definition Auth_Cmd :: "bool \<Rightarrow> 'x auth_context \<Rightarrow> auth_world \<Rightarrow> cstr list \<Rightarrow> cstr tcl_result \<times> auth_world" where
  "Auth_Cmd params_only auth aw argv =
     (if length argv < 3 then (auth_error ''auth'' ''EBADARGS'' [], aw)
      else case auth_modules_by_name auth (argv ! 1) of
        None \<Rightarrow> (auth_error ''auth'' ''ENOMOD'' [argv ! 1], aw)
      | Some m \<Rightarrow>
          (case find (\<lambda>ce. command ce = argv ! 2) (command_functions m) of
             None \<Rightarrow> (auth_error ''auth'' ''ENOTSUPPCMD'' [argv ! 1, argv ! 2], aw)
           | Some ce \<Rightarrow> if params_only then (Tcl_Ok (params ce), aw) else proc ce aw argv))"

text \<open>What the two \<open>_Init\<close> functions register.\<close>

definition trivial_calls :: "'x auth_functions" where
  "trivial_calls =
     \<lparr>af_name = cstr ''trivial'', af_type = CONN_AUTH_ID_TRIVIAL, read_auth_function = Trivial_read_auth,
      write_auth_function = Trivial_write_auth,
      command_functions =
        [\<lparr>command = cstr ''set_server'', proc = Trivial_Noop 3, params = cstr ''service server_instance server_realm''\<rparr>,
         \<lparr>command = cstr ''set_keytab'', proc = Trivial_Noop 0, params = []\<rparr>,
         \<lparr>command = cstr ''set_ccache'', proc = Trivial_Noop 0, params = []\<rparr>,
         \<lparr>command = cstr ''kdestroy'', proc = Trivial_Noop 0, params = []\<rparr>,
         \<lparr>command = cstr ''set_service'', proc = Trivial_set_service, params = cstr ''service client_instance client_realm''\<rparr>,
         \<lparr>command = cstr ''ksinit'', proc = Trivial_kinit, params = cstr ''client_principal client_instance client_realm''\<rparr>,
         \<lparr>command = cstr ''kinit'', proc = Trivial_kinit, params = cstr ''client_principal client_instance client_realm''\<rparr>]\<rparr>"

definition upasswd_calls :: "'x auth_functions" where
  "upasswd_calls =
     \<lparr>af_name = cstr ''upasswd'', af_type = CONN_AUTH_ID_UPASSWD, read_auth_function = Upasswd_read_auth,
      write_auth_function = Upasswd_write_auth,
      command_functions =
        [\<lparr>command = cstr ''kinit'', proc = Upasswd_kinit, params = cstr ''login password''\<rparr>,
         \<lparr>command = cstr ''kdestroy'', proc = Upasswd_kdestroy, params = []\<rparr>]\<rparr>"

definition auth_start :: "'x auth_context" where
  "auth_start = \<lparr>auth_modules_by_name = Map.empty, auth_modules_by_type = Map.empty\<rparr>"


section \<open>Reading the messages\<close>

lemma takeWhile_nul: "no_nul s \<Longrightarrow> takeWhile (\<lambda>c. c \<noteq> 0) (s @ 0 # b) = s"
  by (induction s) auto

lemma c_strlen_here: "no_nul s \<Longrightarrow> c_strlen (a @ s @ 0 # b) (length a) = Some (length s)"
  by (simp add: c_strlen_def takeWhile_nul)

lemma c_string_here: "no_nul s \<Longrightarrow> c_string (a @ s @ 0 # b) (length a) = s"
  by (simp add: c_string_def takeWhile_nul)

lemma c_strlen_SomeD:
  assumes "c_strlen buf p = Some n"
  shows "no_nul (c_string buf p)" "length (c_string buf p) = n" "drop p buf = c_string buf p @ 0 # drop (p + n + 1) buf"
    "p + n < length buf"
proof -
  let ?w = "takeWhile (\<lambda>c. c \<noteq> 0) (drop p buf)"
  have n: "n = length ?w" "p + n < length buf" using assms by (auto simp: c_strlen_def Let_def split: if_split_asm)
  then show "p + n < length buf" "length (c_string buf p) = n" by (simp_all add: c_string_def)
  show "no_nul (c_string buf p)" by (auto simp: c_string_def no_nul_def dest: set_takeWhileD)
  have l: "length ?w < length (drop p buf)" using n by simp
  have "drop p buf = ?w @ dropWhile (\<lambda>c. c \<noteq> 0) (drop p buf)" by simp
  moreover have "dropWhile (\<lambda>c. c \<noteq> 0) (drop p buf) = drop n (drop p buf)" by (simp add: dropWhile_eq_drop n(1))
  moreover have "drop n (drop p buf) = drop p buf ! n # drop (Suc n) (drop p buf)"
    by (rule Cons_nth_drop_Suc [symmetric]) (use l n(1) in simp)
  moreover have "drop p buf ! n = 0" using nth_length_takeWhile [OF l] n(1) by simp
  ultimately show "drop p buf = c_string buf p @ 0 # drop (p + n + 1) buf" by (simp add: c_string_def add.commute)
qed

text \<open>The encoding of the three strings of a principal.\<close>

definition principal_bytes :: "cstr \<Rightarrow> cstr \<Rightarrow> cstr \<Rightarrow> u8 list" where
  "principal_bytes p i r = p @ [0] @ i @ [0] @ r @ [0]"

definition login_trivial :: "cstr \<times> cstr \<times> cstr \<Rightarrow> cstr \<Rightarrow> cstr \<Rightarrow> cstr \<Rightarrow> cstr list" where
  "login_trivial server p i r =
     [cstr ''unameit_login_trivial'', if (p, i, r) = server then cstr ''privileged'' else cstr ''normal'', r, p] @ (if i \<noteq> [] then [i] else [])"

definition trivial_service :: "auth_world \<Rightarrow> (cstr \<times> cstr \<times> cstr) option" where
  "trivial_service aw = (case (client_principal (trivial aw), client_instance (trivial aw), client_realm (trivial aw)) of
     (Some p, Some i, Some r) \<Rightarrow> Some (p, i, r) | _ \<Rightarrow> None)"

lemma Trivial_read_principal:
  assumes "trivial_service aw = Some server" "no_nul p" "no_nul i" "no_nul r"
  shows "Trivial_read_auth aw ev (Some (principal_bytes p i r @ [0])) (length (principal_bytes p i r)) = Done (ev (login_trivial server p i r))"
proof -
  let ?b = "principal_bytes p i r @ [0]"
  have b: "?b = [] @ p @ 0 # (i @ [0] @ r @ [0, 0])" "?b = (p @ [0]) @ i @ 0 # (r @ [0, 0])" "?b = (p @ [0] @ i @ [0]) @ r @ 0 # [0]"
    by (simp_all add: principal_bytes_def)
  have l: "length (principal_bytes p i r) = length p + length i + length r + 3" by (simp add: principal_bytes_def)
  have "c_strlen ?b 0 = Some (length p)" "c_string ?b 0 = p"
    unfolding b(1) using c_strlen_here [OF assms(2), of "[]"] c_string_here [OF assms(2), of "[]"] by simp_all
  moreover have "c_strlen ?b (Suc (length p)) = Some (length i)" "c_string ?b (Suc (length p)) = i"
    unfolding b(2) using c_strlen_here [OF assms(3), of "p @ [0]"] c_string_here [OF assms(3), of "p @ [0]"] by simp_all
  moreover have "c_strlen ?b (Suc (Suc (length p + length i))) = Some (length r)" "c_string ?b (Suc (Suc (length p + length i))) = r"
    unfolding b(3) using c_strlen_here [OF assms(4), of "p @ [0] @ i @ [0]"] c_string_here [OF assms(4), of "p @ [0] @ i @ [0]"] by simp_all
  ultimately show ?thesis using assms(1) l
    by (auto simp: Trivial_read_auth_def login_trivial_def trivial_service_def Let_def split: option.split_asm)
qed

lemma takeWhile_before_nul: "length (takeWhile (\<lambda>c. c \<noteq> (0::u8)) (xs @ [0])) \<le> length xs"
  by (induction xs) auto

lemma c_strlen_terminated:
  assumes "p \<le> length d"
  shows "\<exists>n. c_strlen (d @ [0]) p = Some n"
proof -
  have "drop p (d @ [0]) = drop p d @ [0]" using assms by simp
  moreover have "length (takeWhile (\<lambda>c. c \<noteq> 0) (drop p d @ [0])) \<le> length (drop p d)"
    by (rule takeWhile_before_nul)
  ultimately show ?thesis using assms by (simp add: c_strlen_def Let_def)
qed

lemma Trivial_read_cases:
  assumes sv: "trivial_service aw = Some server"
  shows "(\<exists>p i r. no_nul p \<and> no_nul i \<and> no_nul r \<and> d = principal_bytes p i r) \<or>
    Trivial_read_auth aw ev (Some (d @ [0])) (length d) = Done (auth_error ''trivial'' ''EBADARGS'' [])"
proof -
  let ?b = "d @ [0]"
  obtain n where n: "c_strlen ?b 0 = Some n" using c_strlen_terminated [of 0 d] by auto
  note N = c_strlen_SomeD [OF n]
  show ?thesis
  proof (cases "n + 1 + 2 > length d")
    case True
    then show ?thesis using sv n by (auto simp: Trivial_read_auth_def trivial_service_def Let_def split: option.split_asm)
  next
    case c1: False
    obtain m where m: "c_strlen ?b (n + 1) = Some m" using c_strlen_terminated [of "n + 1" d] c1 by auto
    note M = c_strlen_SomeD [OF m]
    show ?thesis
    proof (cases "n + 1 + m + 1 + 1 > length d")
      case True
      then show ?thesis using sv n m c1 by (auto simp: Trivial_read_auth_def trivial_service_def Let_def split: option.split_asm)
    next
      case c2: False
      obtain k where k: "c_strlen ?b (n + 1 + m + 1) = Some k" using c_strlen_terminated [of "n + 1 + m + 1" d] c2 by auto
      note L = c_strlen_SomeD [OF k]
      show ?thesis
      proof (cases "n + 1 + m + 1 + k + 1 = length d")
        case True
        have "?b = c_string ?b 0 @ 0 # c_string ?b (n + 1) @ 0 # c_string ?b (n + 1 + m + 1) @ 0 # drop (length d) ?b"
          using N(3) M(3) L(3) True by (simp add: add.assoc)
        then have "d = principal_bytes (c_string ?b 0) (c_string ?b (n + 1)) (c_string ?b (n + 1 + m + 1))"
          by (simp add: principal_bytes_def)
        then show ?thesis using N(1) M(1) L(1) by blast
      next
        case False
        then show ?thesis using sv n m k c1 c2 by (auto simp: Trivial_read_auth_def trivial_service_def Let_def split: option.split_asm)
      qed
    qed
  qed
qed

lemma Upasswd_read_no_nul:
  assumes "no_nul d"
  shows "Upasswd_read_auth aw ev (Some (d @ [0])) (length d) = Overrun"
proof -
  have "c_strlen (d @ [0]) 0 = Some (length d)" using c_strlen_here [OF assms, of "[]" "[]"] by simp
  moreover have "c_strlen (d @ [0]) (Suc (length d)) = None" by (simp add: c_strlen_def)
  ultimately show ?thesis by (simp add: Upasswd_read_auth_def)
qed

lemma Upasswd_read_pair:
  assumes "no_nul u" "no_nul p" "u \<noteq> []"
  shows "Upasswd_read_auth aw ev (Some (u @ [0] @ p @ [0, 0])) (length u + length p + 2) = Done (ev [cstr ''unameit_login_upasswd'', u, p])"
proof -
  let ?b = "u @ [0] @ p @ [0, 0]"
  have "c_strlen ?b 0 = Some (length u)" "c_string ?b 0 = u"
    using c_strlen_here [OF assms(1), of "[]"] c_string_here [OF assms(1), of "[]"] by simp_all
  moreover have "c_strlen ?b (Suc (length u)) = Some (length p)" "c_string ?b (Suc (length u)) = p"
    using c_strlen_here [OF assms(2), of "u @ [0]" "[0]"] c_string_here [OF assms(2), of "u @ [0]" "[0]"] by simp_all
  ultimately show ?thesis using assms(3) by (simp add: Upasswd_read_auth_def)
qed


section \<open>Properties\<close>

text \<open>C19: The server of the trivial module, once it has its own principal, calls the login procedure
  exactly for the messages that are three NUL terminated strings and nothing else, with the
  strings the client sent, as privileged exactly when they are the server's own principal;
  every other message is \<open>EBADARGS\<close>, and no message makes it read past the received data.\<close>

theorem trivial_read_accepts_iff:
  assumes "trivial_service aw = Some server"
  shows "(\<forall>p i r. no_nul p \<and> no_nul i \<and> no_nul r \<longrightarrow>
       Trivial_read_auth aw ev (Some (principal_bytes p i r @ [0])) (length (principal_bytes p i r)) = Done (ev (login_trivial server p i r))) \<and>
     (\<forall>d. (\<nexists>p i r. no_nul p \<and> no_nul i \<and> no_nul r \<and> d = principal_bytes p i r) \<longrightarrow>
       Trivial_read_auth aw ev (Some (d @ [0])) (length d) = Done (auth_error ''trivial'' ''EBADARGS'' []))"
  using Trivial_read_principal [OF assms] Trivial_read_cases [OF assms] by blast

definition sample_world :: auth_world where
  "sample_world = \<lparr>trivial = \<lparr>client_principal = Some [7], client_instance = Some [], client_realm = Some [8, 9]\<rparr>,
     upw = \<lparr>user_name = None, password = None\<rparr>\<rparr>"

theorem trivial_read_accepts_iff_witness:
  "Trivial_read_auth sample_world (\<lambda>ws. Tcl_Ok (concat ws)) (Some [7, 0, 0, 8, 9, 0, 0]) (length [7, 0, 0, 8, 9, 0 :: u8]) =
     Done (Tcl_Ok (cstr ''unameit_login_trivial'' @ cstr ''privileged'' @ [8, 9, 7])) \<and>
   Trivial_read_auth sample_world (\<lambda>ws. Tcl_Ok (concat ws)) (Some [7, 8, 0]) (length [7, 8 :: u8]) = Done (auth_error ''trivial'' ''EBADARGS'' [])"
proof -
  have sv: "trivial_service sample_world = Some ([7], [], [8, 9])" by (simp add: trivial_service_def sample_world_def)
  note T = trivial_read_accepts_iff [OF sv, of "\<lambda>ws. Tcl_Ok (concat ws)"]
  have "\<nexists>p i r. no_nul p \<and> no_nul i \<and> no_nul r \<and> [7, 8] = principal_bytes p i r"
  proof (intro notI, elim exE conjE)
    fix p i r assume "[7, 8] = principal_bytes p i r"
    then have "length ([7, 8] :: u8 list) = length (principal_bytes p i r)" by simp
    then show False by (simp add: principal_bytes_def)
  qed
  then show ?thesis using T [THEN conjunct1, rule_format, of "[7]" "[]" "[8, 9]"] T [THEN conjunct2, rule_format, of "[7, 8]"]
    by (simp add: principal_bytes_def login_trivial_def)
qed

text \<open>C15: Login over the network, through all layers: with the modules registered, \<open>kinit\<close> stores the
  principal, \<open>Auth_Write\<close> sends it as one message, and a server that receives the bytes in any
  packets runs, by \<open>Auth_Read\<close>, the login procedure with this principal and no other.\<close>

theorem trivial_login_over_network:
  assumes "conn_idle w" "\<not> write_mic w" "conn_idle r" "\<not> read_mic r"
    and "no_nul p" "no_nul i" "no_nul rl" "length (principal_bytes p i rl) < 2 ^ 31"
    and "maxlen r = 0 \<or> of_nat (length (principal_bytes p i rl)) \<le> maxlen r"
    and "trivial_service srv = Some server"
    and "auth = snd (Auth_Register upasswd_calls us (snd (Auth_Register trivial_calls ts autha)))"
    and "Send_Error \<notin> set (sock_room sw)" "HDR_LEN + length (principal_bytes p i rl) \<le> takes_some (sock_room sw)"
      "length (sock_room sw) < k"
  shows "\<exists>aw' w1 w' sw'. Auth_Cmd False auth aw [kcmd, cstr ''trivial'', cstr ''kinit'', p, i, rl] = (Tcl_Ok [], aw') \<and>
     Auth_Write auth aw' wops [wcmd, cstr ''trivial''] w = Done (Tcl_Ok [], w1) \<and>
     drive wops wheap k w1 sw = Done (True, w', sw') \<and>
     sock_out sw' = sock_out sw @ msg_header CONN_AUTH_ID_TRIVIAL 0 (of_nat (length (principal_bytes p i rl))) @ principal_bytes p i rl \<and>
     (\<forall>sr rest n. recv_good (sock_in sr) \<and> recv_fuel (sock_in sr) < n \<and> recv_bytes (sock_in sr) =
          msg_header CONN_AUTH_ID_TRIVIAL 0 (of_nat (length (principal_bytes p i rl))) @ principal_bytes p i rl @ rest \<longrightarrow>
       (\<exists>r1 r' r'' sr'. Unameit_Conn_Poll rops r = Done r1 \<and> drive rops rheap n r1 sr = Done (True, r', sr') \<and>
          Auth_Read auth srv ev (r'\<lparr>read_mic_ok := True, conn_state := CONN_IODONE\<rparr>) = Done (ev (login_trivial server p i rl), r'')))"
proof -
  let ?D = "principal_bytes p i rl"
  let ?len = "of_nat (length ?D) :: u32"
  let ?H = "msg_header CONN_AUTH_ID_TRIVIAL 0 ?len"
  define aw' where "aw' = aw\<lparr>trivial := \<lparr>client_principal = Some p, client_instance = Some i, client_realm = Some rl\<rparr>\<rparr>"
  have ul: "unat ?len = length ?D" using assms(8) by (simp add: unat_of_nat take_bit_nat_eq_self)
  have K: "Auth_Cmd False auth aw [kcmd, cstr ''trivial'', cstr ''kinit'', p, i, rl] = (Tcl_Ok [], aw')"
    by (simp add: assms(11) aw'_def Auth_Cmd_def Auth_Register_def trivial_calls_def upasswd_calls_def cstr_def Trivial_kinit_def)
  obtain w1 w' sw' where W: "Unameit_Conn_Write wops w ?D ?len CONN_AUTH_ID_TRIVIAL 0 TCL_DYNAMIC = Done w1"
      "drive wops wheap k w1 sw = Done (True, w', sw')" "sock_out sw' = sock_out sw @ ?H @ ?D"
    using plain_write.Write_delivers [where ops = wops and atype = CONN_AUTH_ID_TRIVIAL and res = 0 and fp = TCL_DYNAMIC and heap = wheap
        and data = ?D and len = ?len, OF assms(1) _ _ _ assms(12,14)] assms(2,8,13) ul by auto
  have A: "Auth_Write auth aw' wops [wcmd, cstr ''trivial''] w = Done (Tcl_Ok [], w1)"
    using assms(1) W(1)
    by (simp add: Auth_Write_def assms(11) Auth_Register_def trivial_calls_def upasswd_calls_def cstr_def Trivial_write_auth_def
        aw'_def conn_idle_def principal_bytes_def ac_simps)
  have ok: "msg_ok ?H ?D [] (maxlen r) (read_mic r)"
    using assms ul by (simp add: msg_ok_def msg_header_fields)
  have "\<exists>r1 r' r'' sr'. Unameit_Conn_Poll rops r = Done r1 \<and> drive rops rheap n r1 sr = Done (True, r', sr') \<and>
          Auth_Read auth srv ev (r'\<lparr>read_mic_ok := True, conn_state := CONN_IODONE\<rparr>) = Done (ev (login_trivial server p i rl), r'')"
    if "recv_good (sock_in sr)" "recv_fuel (sock_in sr) < n" "recv_bytes (sock_in sr) = ?H @ ?D @ rest" for sr rest n
  proof -
    note arrive = that
    obtain r1 r' sr' where P: "Unameit_Conn_Poll rops r = Done r1" "drive rops rheap n r1 sr = Done (True, r', sr')"
        "plain_read.finished rops ?H ?D [] rest r' sr'"
      using plain_read.Poll_reassembles [where ops = rops and rest = rest and heap = rheap, OF assms(3) ok _ arrive(1) _ arrive(2)] assms(4) arrive(3) by auto
    note F = plain_read.finished_done [OF P(3)]
    have "Auth_Read auth srv ev (r'\<lparr>read_mic_ok := True, conn_state := CONN_IODONE\<rparr>) =
        Done (ev (login_trivial server p i rl), snd (Unameit_Conn_Read True (r'\<lparr>read_mic_ok := True, conn_state := CONN_IODONE\<rparr>)))"
      using F Trivial_read_principal [OF assms(10,5-7), of ev] ul
      by (simp add: Auth_Read_def Unameit_Conn_Read_def newstate_def Let_def assms(11) Auth_Register_def trivial_calls_def upasswd_calls_def msg_header_fields)
    then show ?thesis using P(1,2) by blast
  qed
  then show ?thesis using K W(2,3) A by blast
qed

text \<open>C29: The password module touches memory it does not own: on the server for every message without
  a NUL byte of its own, and on the client when it logs in before \<open>kinit\<close> or after \<open>kdestroy\<close>.
  For a name and a password separated as \<open>Upasswd_write_auth\<close> writes them it calls the login
  procedure with both.\<close>

theorem upasswd_unchecked_memory:
  assumes "no_nul d" "no_nul u" "u \<noteq> []"
  shows "Upasswd_read_auth aw ev (Some (d @ [0])) (length d) = Overrun \<and>
     Upasswd_write_auth (snd (Upasswd_kdestroy aw [a, b, c])) ops conn = Overrun \<and>
     Upasswd_read_auth aw ev (Some (u @ [0] @ d @ [0, 0])) (length u + length d + 2) = Done (ev [cstr ''unameit_login_upasswd'', u, d])"
  using Upasswd_read_no_nul [OF assms(1)] Upasswd_read_pair [OF assms(2,1,3)]
  by (simp add: Upasswd_write_auth_def Upasswd_kdestroy_def)

theorem upasswd_unchecked_memory_witness:
  "Upasswd_read_auth sample_world (\<lambda>ws. Tcl_Ok (concat ws)) (Some [1, 2, 0]) (length [1, 2 :: u8]) = Overrun"
  using upasswd_unchecked_memory [of "[1, 2]" "[1]" sample_world "\<lambda>ws. Tcl_Ok (concat ws)" "[]" "[]" "[]" sample_ops sample_conn] by simp

definition sample_auth :: "unit auth_context" where
  "sample_auth = snd (Auth_Register upasswd_calls [] (snd (Auth_Register trivial_calls [] auth_start)))"

theorem trivial_login_over_network_witness:
  "\<exists>aw' w1 w' sw'. Auth_Cmd False sample_auth sample_world
       [[], cstr ''trivial'', cstr ''kinit'', [5], [], [6]] = (Tcl_Ok [], aw') \<and>
     Auth_Write sample_auth aw' sample_ops [[], cstr ''trivial''] sample_conn = Done (Tcl_Ok [], w1) \<and>
     drive sample_ops [] 30 w1 \<lparr>sock_in = [], sock_room = replicate 21 (Takes 1), sock_out = []\<rparr> = Done (True, w', sw') \<and>
     sock_out sw' = msg_header 4 0 5 @ [5, 0, 0, 6, 0]"
proof -
  let ?sw = "\<lparr>sock_in = [], sock_room = replicate 21 (Takes 1), sock_out = []\<rparr> :: sock"
  have b: "principal_bytes [5] [] [6] = [5, 0, 0, 6, 0]" by (simp add: principal_bytes_def)
  have room: "Send_Error \<notin> set (sock_room ?sw)" "HDR_LEN + length (principal_bytes [5] [] [6]) \<le> takes_some (sock_room ?sw)"
      "length (sock_room ?sw) < 30" by (simp_all add: takes_some_def b)
  have sv: "trivial_service sample_world = Some ([7], [], [8, 9])" by (simp add: trivial_service_def sample_world_def)
  have p: "no_nul [5]" "no_nul []" "no_nul [6]" "length (principal_bytes [5] [] [6]) < 2 ^ 31"
      "maxlen sample_conn = 0 \<or> of_nat (length (principal_bytes [5] [] [6])) \<le> maxlen sample_conn"
    by (simp_all add: b sample_idle(4))
  have l: "word_of_nat (length (principal_bytes [5] [] [6])) = (5 :: u32)" by (simp add: b)
  obtain aw' w1 w' sw' where
      "Auth_Cmd False sample_auth sample_world
         [[], cstr ''trivial'', cstr ''kinit'', [5], [], [6]] = (Tcl_Ok [], aw')"
      "Auth_Write sample_auth aw' sample_ops
         [[], cstr ''trivial''] sample_conn = Done (Tcl_Ok [], w1)"
      "drive sample_ops [] 30 w1 ?sw = Done (True, w', sw')"
      "sock_out sw' = sock_out ?sw @ msg_header CONN_AUTH_ID_TRIVIAL 0 (of_nat (length (principal_bytes [5] [] [6]))) @ principal_bytes [5] [] [6]"
    using trivial_login_over_network [where wops = sample_ops and rops = sample_ops and wheap = "[]" and rheap = "[]" and aw = sample_world
        and ev = "\<lambda>ws. Tcl_Ok (concat ws)" and kcmd = "[]" and wcmd = "[]",
        OF sample_idle(1,2,1,3) p sv sample_auth_def room] by (elim exE conjE) (rule that)
  then show ?thesis by (intro exI conjI) (assumption+, simp only: l, simp add: b)
qed

end
