(* ===== verification/Dbi.thy ===== *)
theory Dbi
  imports Prelude
begin

text \<open>
  The object database under \<^verbatim>\<open>libudb\<close> and the access functions of \<^verbatim>\<open>libudb/misc.c\<close>.

  The database product is not part of the repository: its C interface is the record \<open>dbi\<close>, an
  argument of every operation that calls it, over a type \<open>'s\<close> of database states and a type \<open>'o\<close>
  of object handles (\<open>DB_OBJECT *\<close>).  What the code relies on is the predicate \<open>dbi_ok\<close>: the state can
  be viewed as a store of objects with attributes, and each call acts on this view as the
  manual of the interface says.  The record \<open>udb\<close> holds the database state and the static variables of
  \<^verbatim>\<open>lookup.c\<close>, \<^verbatim>\<open>transaction.c\<close> and \<^verbatim>\<open>relation.c\<close>.  A hash table whose order of traversal matters is the list of
  its entries in this order.
\<close>

section \<open>The interface of the database\<close>

text \<open>A collection is that of an attribute of an object, or one made by \<open>db_col_create\<close>.\<close>

datatype 'o db_value =
    DB_NULL
  | DB_INTEGER int
  | DB_STRING cstr
  | DB_OBJECT 'o
  | DB_SET "'o db_collection"
  | DB_SEQUENCE "'o db_collection"
and 'o db_collection =
    Col_Attribute 'o cstr
  | Col_New "'o db_value list"

datatype db_type = DB_TYPE_INTEGER | DB_TYPE_STRING | DB_TYPE_OBJECT | DB_TYPE_SET | DB_TYPE_SEQUENCE | DB_TYPE_OTHER

fun has_type :: "db_type \<Rightarrow> 'o db_value \<Rightarrow> bool" where
  "has_type DB_TYPE_INTEGER (DB_INTEGER i) = True"
| "has_type DB_TYPE_STRING (DB_STRING s) = True"
| "has_type DB_TYPE_OBJECT (DB_OBJECT x) = True"
| "has_type DB_TYPE_SET (DB_SET c) = True"
| "has_type DB_TYPE_SEQUENCE (DB_SEQUENCE c) = True"
| "has_type _ _ = False"

fun DB_GET_OBJECT :: "'o db_value \<Rightarrow> 'o option" where
  "DB_GET_OBJECT (DB_OBJECT x) = Some x"
| "DB_GET_OBJECT _ = None"

fun DB_GET_COLLECTION :: "'o db_value \<Rightarrow> 'o db_collection option" where
  "DB_GET_COLLECTION (DB_SET c) = Some c"
| "DB_GET_COLLECTION (DB_SEQUENCE c) = Some c"
| "DB_GET_COLLECTION _ = None"

fun DB_GET_INTEGER :: "'o db_value \<Rightarrow> int" where
  "DB_GET_INTEGER (DB_INTEGER i) = i"
| "DB_GET_INTEGER _ = 0"

fun DB_GET_STRING :: "'o db_value \<Rightarrow> cstr" where
  "DB_GET_STRING (DB_STRING s) = s"
| "DB_GET_STRING _ = []"

definition DB_MAKE_OBJECT :: "'o option \<Rightarrow> 'o db_value" where
  "DB_MAKE_OBJECT x = (case x of None \<Rightarrow> DB_NULL | Some x \<Rightarrow> DB_OBJECT x)"

text \<open>The domain of an attribute; an object domain may name a class.\<close>

datatype 'o db_domain = Dom_Scalar db_type "'o option" | Dom_Set "'o db_domain" | Dom_Sequence "'o db_domain"

fun db_domain_type :: "'o db_domain \<Rightarrow> db_type" where
  "db_domain_type (Dom_Scalar t c) = t"
| "db_domain_type (Dom_Set d) = DB_TYPE_SET"
| "db_domain_type (Dom_Sequence d) = DB_TYPE_SEQUENCE"

fun db_domain_set :: "'o db_domain \<Rightarrow> 'o db_domain" where
  "db_domain_set (Dom_Scalar t c) = Dom_Scalar t c"
| "db_domain_set (Dom_Set d) = d"
| "db_domain_set (Dom_Sequence d) = d"

fun db_domain_class :: "'o db_domain \<Rightarrow> 'o option" where
  "db_domain_class (Dom_Scalar t c) = c"
| "db_domain_class d = None"

datatype 'a db_reply = NOERROR 'a | ER_OBJ_INVALID_ATTRIBUTE | ER_OTHER

text \<open>A template: the object being edited, or the class of the object being made, with the
  values put so far.  A value that the database would refuse in \<open>dbt_put\<close>, on which the code
  panics, is refused here when the template is finished.\<close>

datatype 'o otmpl = OTMPL (ot_base: "'o + 'o") (ot_puts: "(cstr \<times> 'o db_value) list")

abbreviation dbt_create_object :: "'o \<Rightarrow> 'o otmpl" where "dbt_create_object c \<equiv> OTMPL (Inl c) []"
abbreviation dbt_edit_object :: "'o \<Rightarrow> 'o otmpl" where "dbt_edit_object x \<equiv> OTMPL (Inr x) []"

fun dbt_put :: "'o otmpl \<Rightarrow> cstr \<Rightarrow> 'o db_value \<Rightarrow> 'o otmpl" where
  "dbt_put (OTMPL b ps) a v = OTMPL b (ps @ [(a, v)])"

record ('s, 'o) dbi =
  db_find_class :: "cstr \<Rightarrow> 's \<Rightarrow> 'o option"
  db_get_class :: "'o \<Rightarrow> 's \<Rightarrow> 'o"
  db_get_class_name :: "'o \<Rightarrow> 's \<Rightarrow> cstr option"
  db_identifier :: "'o \<Rightarrow> 's \<Rightarrow> (int \<times> int \<times> int) option"
  db_object :: "int \<times> int \<times> int \<Rightarrow> 's \<Rightarrow> 'o option"
  db_is_subclass :: "'o \<Rightarrow> 'o \<Rightarrow> 's \<Rightarrow> bool"
  db_get_attributes :: "'o \<Rightarrow> 's \<Rightarrow> (cstr \<times> 'o db_domain) list"
  db_get :: "'o \<Rightarrow> cstr \<Rightarrow> 's \<Rightarrow> 'o db_value db_reply"
  db_put :: "'o \<Rightarrow> cstr \<Rightarrow> 'o db_value \<Rightarrow> 's \<Rightarrow> 's option"
  db_find_unique :: "'o \<Rightarrow> cstr \<Rightarrow> 'o db_value \<Rightarrow> 's \<Rightarrow> 'o option"
  dbt_finish_object :: "'o otmpl \<Rightarrow> 's \<Rightarrow> ('o \<times> 's) option"
  db_col_size :: "'o db_collection \<Rightarrow> 's \<Rightarrow> nat"
  db_col_get :: "'o db_collection \<Rightarrow> nat \<Rightarrow> 's \<Rightarrow> 'o db_value option"
  db_col_insert :: "'o db_collection \<Rightarrow> nat \<Rightarrow> 'o db_value \<Rightarrow> 's \<Rightarrow> ('o db_collection \<times> 's) option"
  db_col_drop_element :: "'o db_collection \<Rightarrow> nat \<Rightarrow> 's \<Rightarrow> ('o db_collection \<times> 's) option"
  db_set_add :: "'o db_collection \<Rightarrow> 'o db_value \<Rightarrow> 's \<Rightarrow> ('o db_collection \<times> 's) option"
  db_set_drop :: "'o db_collection \<Rightarrow> 'o db_value \<Rightarrow> 's \<Rightarrow> ('o db_collection \<times> 's) option"
  db_value_compare :: "'o db_value \<Rightarrow> 'o db_value \<Rightarrow> 's \<Rightarrow> bool"
  db_execute :: "cstr \<Rightarrow> 'o db_value list \<Rightarrow> 's \<Rightarrow> 'o db_value list list option"
  db_commit_transaction :: "'s \<Rightarrow> 's option"
  db_abort_transaction :: "'s \<Rightarrow> 's option"

text \<open>A computation that need not end (\<open>None\<close>), followed by another.\<close>

definition o_bind :: "'a c_run option \<Rightarrow> ('a \<Rightarrow> 'b c_run option) \<Rightarrow> 'b c_run option" where
  "o_bind r f = Option.bind r (\<lambda>m. case m of Done x \<Rightarrow> f x | Panic \<Rightarrow> Some Panic | Overrun \<Rightarrow> Some Overrun)"

lemma o_bind_simps [simp]:
  "o_bind None f = None" "o_bind (Some (Done x)) f = f x" "o_bind (Some Panic) f = Some Panic" "o_bind (Some Overrun) f = Some Overrun"
  by (simp_all add: o_bind_def)

lemma o_bind_cong [fundef_cong]: "r = r' \<Longrightarrow> (\<And>x. r' = Some (Done x) \<Longrightarrow> f x = g x) \<Longrightarrow> o_bind r f = o_bind r' g"
  by (cases r') (auto simp: o_bind_def split: c_run.split)

lemma o_bind_mono [partial_function_mono]:
  assumes "mono_option B" "\<And>y. mono_option (\<lambda>f. C y f)"
  shows "mono_option (\<lambda>f. o_bind (B f) (\<lambda>y. C y f))"
  unfolding o_bind_def
proof (rule bind_mono [OF assms(1)])
  fix m
  show "mono_option (\<lambda>f. case m of Done y \<Rightarrow> C y f | Panic \<Rightarrow> Some Panic | Overrun \<Rightarrow> Some Overrun)"
    by (cases m) (auto intro: partial_function_mono assms(2))
qed

section \<open>State of the library\<close>

datatype RestoreMode = NORESTORE | RESTOREDATA | RESTORESCHEMA

record ('s, 'o) udb =
  database :: 's
  now :: int
  classCache :: "cstr \<rightharpoonup> 'o"
  classNameCache :: "'o \<rightharpoonup> cstr"
  subClassCache :: "'o \<Rightarrow> 'o \<rightharpoonup> bool"
  domainCache :: "'o \<Rightarrow> cstr \<rightharpoonup> 'o db_domain"
  relAttributeCache :: "'o \<rightharpoonup> cstr list"
  nameAttributeCache :: "'o \<rightharpoonup> cstr list option"
  refintCache :: "'o \<Rightarrow> cstr \<rightharpoonup> cstr"
  itemCache :: "cstr \<rightharpoonup> 'o \<times> bool"
  newobjCache :: "'o set"
  rootCache :: "'o \<rightharpoonup> 'o option"
  rootCacheDirty :: bool
  item_class :: "'o option"
  prot_item_class :: "'o option"
  data_class :: "'o option"
  cell_class :: "'o option"
  host_class :: "'o option"
  person_class :: "'o option"
  current_principal :: "'o option"
  restore_mode :: RestoreMode
  syscall_db_updated :: bool
  tx_db_updated :: bool
  force_rollback :: bool
  saved_error :: "cstr list \<times> cstr"
  schema_modified :: bool
  tx_class :: "'o option"
  tx_dmajor :: int
  tx_dminor :: int
  tx_dmicro :: int
  tx_smajor :: int
  tx_sminor :: int
  tx_smicro :: int
  new_tx_dmicro :: bool
  new_tx_smicro :: bool
  clientName :: cstr
  logFd :: "cstr option"
  logFile :: "cstr \<Rightarrow> cstr"
  refTable :: "'o list option"
  loopTable :: "(cstr \<times> db_type option \<times> 'o list) list option"
  uniqTable :: "'o list option"

text \<open>The statics when the program starts, over a database state.\<close>

definition udb_start :: "'s \<Rightarrow> ('s, 'o) udb" where
  "udb_start s =
     \<lparr>database = s, now = 0, classCache = Map.empty, classNameCache = Map.empty, subClassCache = (\<lambda>c. Map.empty),
      domainCache = (\<lambda>c. Map.empty), relAttributeCache = Map.empty, nameAttributeCache = Map.empty, refintCache = (\<lambda>c. Map.empty), itemCache = Map.empty, newobjCache = {}, rootCache = Map.empty, rootCacheDirty = False,
      item_class = None, prot_item_class = None, data_class = None, cell_class = None, host_class = None, person_class = None,
      current_principal = None, restore_mode = NORESTORE, syscall_db_updated = False, tx_db_updated = False, force_rollback = False,
      saved_error = ([], []), schema_modified = False, tx_class = None, tx_dmajor = 0, tx_dminor = 0, tx_dmicro = 0,
      tx_smajor = 0, tx_sminor = 0, tx_smicro = 0, new_tx_dmicro = False, new_tx_smicro = False, clientName = [],
      logFd = None, logFile = (\<lambda>p. []), refTable = None, loopTable = None, uniqTable = None\<rparr>"

text \<open>\<open>check\<close> panics when its condition fails; a pointer it checks is used afterwards.\<close>

definition check_some :: "'a option \<Rightarrow> 'a c_run" where
  "check_some r = (case r of None \<Rightarrow> Panic | Some x \<Rightarrow> Done x)"

definition check_that :: "bool \<Rightarrow> unit c_run" where
  "check_that b = (if b then Done () else Panic)"

text \<open>\<open>check(db_put(...) == NOERROR)\<close>\<close>

definition put_checked :: "('s, 'o) dbi \<Rightarrow> 'o \<Rightarrow> cstr \<Rightarrow> 'o db_value \<Rightarrow> ('s, 'o, 'm) udb_scheme \<Rightarrow> ('s, 'o, 'm) udb_scheme c_run" where
  "put_checked db x a v w = c_bind (check_some (db_put db x a v (database w))) (\<lambda>s. Done (w\<lparr>database := s\<rparr>))"

section \<open>Access functions\<close>

definition Udb_Get_Value_opt :: "('s, 'o) dbi \<Rightarrow> 'o \<Rightarrow> cstr \<Rightarrow> db_type \<Rightarrow> 's \<Rightarrow> 'o db_value option c_run" where
  "Udb_Get_Value_opt db x a t s =
     (case db_get db x a s of
        NOERROR v \<Rightarrow> if \<not> has_type t v \<and> v \<noteq> DB_NULL then Panic else Done (Some v)
      | ER_OBJ_INVALID_ATTRIBUTE \<Rightarrow> Done None
      | ER_OTHER \<Rightarrow> Panic)"

definition Udb_Get_Value :: "('s, 'o) dbi \<Rightarrow> 'o \<Rightarrow> cstr \<Rightarrow> db_type \<Rightarrow> 's \<Rightarrow> 'o db_value c_run" where
  "Udb_Get_Value db x a t s = c_bind (Udb_Get_Value_opt db x a t s) check_some"

definition Udb_Get_Collection_Value :: "('s, 'o) dbi \<Rightarrow> 'o db_collection \<Rightarrow> nat \<Rightarrow> db_type \<Rightarrow> 's \<Rightarrow> 'o db_value c_run" where
  "Udb_Get_Collection_Value db col i t s =
     (case db_col_get db col i s of None \<Rightarrow> Panic | Some v \<Rightarrow> if has_type t v then Done v else Panic)"

definition Udb_Add_To_Set :: "('s, 'o) dbi \<Rightarrow> 'o db_collection \<Rightarrow> 'o \<Rightarrow> 's \<Rightarrow> ('o db_collection \<times> 's) c_run" where
  "Udb_Add_To_Set db col elem s = check_some (db_set_add db col (DB_OBJECT elem) s)"

definition Udb_Drop_From_Set :: "('s, 'o) dbi \<Rightarrow> 'o db_collection \<Rightarrow> 'o \<Rightarrow> 's \<Rightarrow> (nat \<times> 's) c_run" where
  "Udb_Drop_From_Set db col elem s =
     c_bind (check_some (db_set_drop db col (DB_OBJECT elem) s)) (\<lambda>(col, s). Done (db_col_size db col s, s))"

definition Udb_Col_Equal :: "('s, 'o) dbi \<Rightarrow> 'o db_collection option \<Rightarrow> 'o db_collection option \<Rightarrow> 's \<Rightarrow> bool" where
  "Udb_Col_Equal db col1 col2 s =
     (case (col1, col2) of
        (Some c1, Some c2) \<Rightarrow> db_value_compare db (DB_SET c1) (DB_SET c2) s
      | (None, None) \<Rightarrow> True
      | _ \<Rightarrow> False)"

text \<open>A query that does not compile panics, or gives no cursor when this is not fatal.\<close>

definition Udb_Run_Query :: "('s, 'o) dbi \<Rightarrow> cstr \<Rightarrow> 'o db_value list \<Rightarrow> bool \<Rightarrow> 's \<Rightarrow> 'o db_value list list option c_run" where
  "Udb_Run_Query db query vlist fatal s =
     (case db_execute db query vlist s of None \<Rightarrow> if fatal then Panic else Done None | Some rows \<Rightarrow> Done (Some rows))"

section \<open>What is relied on\<close>

text \<open>The store: classes by name, the class of each object, and its attributes with the
  contents of collections in place.\<close>

record 'o store =
  cnam :: "cstr \<rightharpoonup> 'o"
  cls :: "'o \<rightharpoonup> 'o"
  att :: "'o \<Rightarrow> cstr \<rightharpoonup> 'o db_value"

definition set_att :: "'o \<Rightarrow> cstr \<Rightarrow> 'o db_value \<Rightarrow> 'o store \<Rightarrow> 'o store" where
  "set_att x a v st = st\<lparr>att := (att st)(x := (att st x)(a \<mapsto> v))\<rparr>"

definition new_obj :: "'o \<Rightarrow> 'o \<Rightarrow> (cstr \<rightharpoonup> 'o db_value) \<Rightarrow> 'o store \<Rightarrow> 'o store" where
  "new_obj x c D st = st\<lparr>cls := (cls st)(x \<mapsto> c), att := (att st)(x := D)\<rparr>"

definition put_all :: "'o \<Rightarrow> (cstr \<times> 'o db_value) list \<Rightarrow> 'o store \<Rightarrow> 'o store" where
  "put_all x ps st = fold (\<lambda>(a, v). set_att x a v) ps st"

text \<open>Reading an attribute gives a handle on its collection, not a copy.\<close>

fun handle :: "'o \<Rightarrow> cstr \<Rightarrow> 'o db_value \<Rightarrow> 'o db_value" where
  "handle x a (DB_SET c) = DB_SET (Col_Attribute x a)"
| "handle x a (DB_SEQUENCE c) = DB_SEQUENCE (Col_Attribute x a)"
| "handle x a v = v"

fun elems :: "'o store \<Rightarrow> 'o db_collection \<Rightarrow> 'o db_value list option" where
  "elems st (Col_New vs) = Some vs"
| "elems st (Col_Attribute x a) =
     (case att st x a of Some (DB_SET (Col_New vs)) \<Rightarrow> Some vs | Some (DB_SEQUENCE (Col_New vs)) \<Rightarrow> Some vs | _ \<Rightarrow> None)"

text \<open>Changing the elements of a collection.\<close>

fun set_elems :: "'o db_value list \<Rightarrow> 'o db_collection \<Rightarrow> 'o store \<Rightarrow> 'o store" where
  "set_elems vs (Col_New us) st = st"
| "set_elems vs (Col_Attribute x a) st =
     (case att st x a of
        Some (DB_SET c) \<Rightarrow> set_att x a (DB_SET (Col_New vs)) st
      | _ \<Rightarrow> set_att x a (DB_SEQUENCE (Col_New vs)) st)"

fun set_handle :: "'o db_value list \<Rightarrow> 'o db_collection \<Rightarrow> 'o db_collection" where
  "set_handle vs (Col_New us) = Col_New vs"
| "set_handle vs (Col_Attribute x a) = Col_Attribute x a"

text \<open>No other object of the class has one of the values in a unique attribute.\<close>

definition no_clash :: "('o \<Rightarrow> cstr \<Rightarrow> bool) \<Rightarrow> 'o store \<Rightarrow> 'o \<Rightarrow> 'o option \<Rightarrow> (cstr \<times> 'o db_value) list \<Rightarrow> bool" where
  "no_clash unique st c x ps \<longleftrightarrow>
     (\<forall>(a, v)\<in>set ps. unique c a \<and> v \<noteq> DB_NULL \<longrightarrow> (\<forall>y. cls st y = Some c \<and> Some y \<noteq> x \<longrightarrow> att st y a \<noteq> Some v))"

text \<open>A class is an object too, of a metaclass that is no object; what \<open>db_get_class\<close> gives for it is not used.\<close>

definition laws_read :: "('s, 'o) dbi \<Rightarrow> ('s \<Rightarrow> 'o store) \<Rightarrow> ('o \<Rightarrow> cstr set) \<Rightarrow> ('o \<Rightarrow> cstr \<Rightarrow> bool) \<Rightarrow> bool" where
  "laws_read db view schema unique \<longleftrightarrow>
     (\<forall>s x c. cls (view s) x = Some c \<longrightarrow> dom (att (view s) x) = schema c) \<and>
     (\<forall>s n. db_find_class db n s = cnam (view s) n) \<and>
     (\<forall>s x c. cls (view s) x = Some c \<and> cls (view s) c \<noteq> None \<longrightarrow> db_get_class db x s = c) \<and>
     (\<forall>s x a. x \<in> dom (cls (view s)) \<longrightarrow>
        db_get db x a s = (case att (view s) x a of None \<Rightarrow> ER_OBJ_INVALID_ATTRIBUTE | Some v \<Rightarrow> NOERROR (handle x a v))) \<and>
     (\<forall>s c a v x. unique c a \<and> v \<noteq> DB_NULL \<and> db_find_unique db c a v s = Some x \<longrightarrow>
        cls (view s) x = Some c \<and> att (view s) x a = Some v) \<and>
     (\<forall>s c a v x. unique c a \<and> v \<noteq> DB_NULL \<and> db_find_unique db c a v s = None \<longrightarrow>
        \<not> (cls (view s) x = Some c \<and> att (view s) x a = Some v)) \<and>
     (\<forall>s col vs. elems (view s) col = Some vs \<longrightarrow> db_col_size db col s = length vs) \<and>
     (\<forall>s col vs i. elems (view s) col = Some vs \<and> i < length vs \<longrightarrow> db_col_get db col i s = Some (vs ! i))"

definition laws_write :: "('s, 'o) dbi \<Rightarrow> ('s \<Rightarrow> 'o store) \<Rightarrow> ('o \<Rightarrow> cstr set) \<Rightarrow> ('o \<Rightarrow> cstr \<Rightarrow> bool) \<Rightarrow> bool" where
  "laws_write db view schema unique \<longleftrightarrow>
     (\<forall>s x c a v. cls (view s) x = Some c \<and> att (view s) x a \<noteq> None \<and> \<not> unique c a \<longrightarrow>
        (\<exists>s'. db_put db x a v s = Some s' \<and> view s' = set_att x a v (view s))) \<and>
     (\<forall>s x c ps. cls (view s) x = Some c \<and> fst ` set ps \<subseteq> dom (att (view s) x) \<and> no_clash unique (view s) c (Some x) ps \<longrightarrow>
        (\<exists>s'. dbt_finish_object db (OTMPL (Inr x) ps) s = Some (x, s') \<and> view s' = put_all x ps (view s))) \<and>
     (\<forall>s c ps. c \<in> dom (cls (view s)) \<and> fst ` set ps \<subseteq> schema c \<and> no_clash unique (view s) c None ps \<longrightarrow>
        (\<exists>x s'. dbt_finish_object db (OTMPL (Inl c) ps) s = Some (x, s') \<and> x \<notin> dom (cls (view s)) \<and>
           (\<exists>D. dom D = schema c \<and> view s' = put_all x ps (new_obj x c D (view s)))))"

definition laws_collection :: "('s, 'o) dbi \<Rightarrow> ('s \<Rightarrow> 'o store) \<Rightarrow> bool" where
  "laws_collection db view \<longleftrightarrow>
     (\<forall>s col vs i v. elems (view s) col = Some vs \<and> i \<le> length vs \<longrightarrow>
        (\<exists>s'. db_col_insert db col i v s = Some (set_handle (take i vs @ v # drop i vs) col, s') \<and>
           view s' = set_elems (take i vs @ v # drop i vs) col (view s))) \<and>
     (\<forall>s col vs i. elems (view s) col = Some vs \<and> i < length vs \<longrightarrow>
        (\<exists>s'. db_col_drop_element db col i s = Some (set_handle (take i vs @ drop (Suc i) vs) col, s') \<and>
           view s' = set_elems (take i vs @ drop (Suc i) vs) col (view s))) \<and>
     (\<forall>s col vs v. elems (view s) col = Some vs \<longrightarrow>
        (\<exists>us s'. db_set_add db col v s = Some (set_handle us col, s') \<and> set us = insert v (set vs) \<and>
           (distinct vs \<longrightarrow> distinct us) \<and> view s' = set_elems us col (view s))) \<and>
     (\<forall>s col vs v. elems (view s) col = Some vs \<and> v \<in> set vs \<longrightarrow>
        (\<exists>us s'. db_set_drop db col v s = Some (set_handle us col, s') \<and> set us = set vs - {v} \<and>
           (distinct vs \<longrightarrow> distinct us) \<and> view s' = set_elems us col (view s)))"

definition dbi_ok :: "('s, 'o) dbi \<Rightarrow> ('s \<Rightarrow> 'o store) \<Rightarrow> ('o \<Rightarrow> cstr set) \<Rightarrow> ('o \<Rightarrow> cstr \<Rightarrow> bool) \<Rightarrow> bool" where
  "dbi_ok db view schema unique \<longleftrightarrow> laws_read db view schema unique \<and> laws_write db view schema unique \<and> laws_collection db view"


section \<open>Reasoning about runs\<close>

text \<open>A run that ends normally in a state with \<open>Q\<close>.\<close>

definition runs :: "'a c_run \<Rightarrow> ('a \<Rightarrow> bool) \<Rightarrow> bool" where
  "runs m Q \<longleftrightarrow> (\<exists>x. m = Done x \<and> Q x)"

lemma runs_Done [simp]: "runs (Done x) Q \<longleftrightarrow> Q x"
  by (simp add: runs_def)

lemma runs_Panic [simp]: "\<not> runs Panic Q" "\<not> runs Overrun Q"
  by (simp_all add: runs_def)

lemma runs_bind [simp]: "runs (c_bind m f) Q \<longleftrightarrow> runs m (\<lambda>x. runs (f x) Q)"
  by (cases m) (auto simp: runs_def)

lemma runs_case_prod [simp]: "runs (case p of (a, b) \<Rightarrow> f a b) Q \<longleftrightarrow> (case p of (a, b) \<Rightarrow> runs (f a b) Q)"
  by (simp add: case_prod_beta)

lemma runs_check_some [simp]: "runs (check_some r) Q \<longleftrightarrow> (\<exists>x. r = Some x \<and> Q x)"
  by (auto simp: check_some_def split: option.split)

lemma runs_mono: "runs m P \<Longrightarrow> (\<And>x. P x \<Longrightarrow> Q x) \<Longrightarrow> runs m Q"
  by (auto simp: runs_def)

lemma runsE: "runs m Q \<Longrightarrow> (\<And>x. m = Done x \<Longrightarrow> Q x \<Longrightarrow> P) \<Longrightarrow> P"
  by (auto simp: runs_def)

lemma set_att_simps [simp]:
  "cnam (set_att x a v st) = cnam st" "cls (set_att x a v st) = cls st"
  "att (set_att x a v st) y = (if y = x then (att st x)(a \<mapsto> v) else att st y)"
  by (simp_all add: set_att_def)

lemma new_obj_simps [simp]:
  "cnam (new_obj x c D st) = cnam st" "cls (new_obj x c D st) = (cls st)(x \<mapsto> c)"
  "att (new_obj x c D st) y = (if y = x then D else att st y)"
  by (simp_all add: new_obj_def)

lemma put_all_simps [simp]:
  "cnam (put_all x ps st) = cnam st" "cls (put_all x ps st) = cls st"
  "att (put_all x ps st) y = (if y = x then att st x ++ map_of (rev ps) else att st y)"
  by (induction ps arbitrary: st) (auto simp: put_all_def map_add_def split: option.split)

lemma handle_simps [simp]:
  "has_type t (handle x a v) = has_type t v" "handle x a v = DB_NULL \<longleftrightarrow> v = DB_NULL"
  "DB_GET_OBJECT (handle x a v) = DB_GET_OBJECT v" "DB_GET_INTEGER (handle x a v) = DB_GET_INTEGER v"
  "DB_GET_STRING (handle x a v) = DB_GET_STRING v"
  by (cases v; cases t; simp)+

lemma DB_MAKE_OBJECT_simps [simp]:
  "DB_GET_OBJECT (DB_MAKE_OBJECT p) = p" "handle x a (DB_MAKE_OBJECT p) = DB_MAKE_OBJECT p"
  "has_type DB_TYPE_OBJECT (DB_MAKE_OBJECT p) \<longleftrightarrow> p \<noteq> None" "DB_MAKE_OBJECT p = DB_NULL \<longleftrightarrow> p = None"
  "DB_MAKE_OBJECT p = DB_MAKE_OBJECT q \<longleftrightarrow> p = q" "DB_MAKE_OBJECT (Some y) = DB_OBJECT y" "DB_MAKE_OBJECT None = DB_NULL"
  by (auto simp: DB_MAKE_OBJECT_def split: option.split option.split_asm)

lemma dbi_reads:
  assumes "dbi_ok db view schema unique"
  shows "db_find_class db n s = cnam (view s) n"
    and "cls (view s) x = Some c \<Longrightarrow> cls (view s) c \<noteq> None \<Longrightarrow> db_get_class db x s = c"
    and "cls (view s) x = Some c \<Longrightarrow> dom (att (view s) x) = schema c"
    and "elems (view s) col = Some vs \<Longrightarrow> db_col_size db col s = length vs"
    and "elems (view s) col = Some vs \<Longrightarrow> i < length vs \<Longrightarrow> db_col_get db col i s = Some (vs ! i)"
  using assms by (simp_all add: dbi_ok_def laws_read_def)

lemma Udb_Get_Value_runs:
  assumes "dbi_ok db view schema unique" "cls (view s) x = Some c" "att (view s) x a = Some v" "has_type t v \<or> v = DB_NULL"
  shows "Udb_Get_Value db x a t s = Done (handle x a v)"
proof -
  have "x \<in> dom (cls (view s))" using assms(2) by blast
  then have "db_get db x a s = NOERROR (handle x a v)" using assms(1,3) by (simp add: dbi_ok_def laws_read_def)
  then show ?thesis using assms(4) by (auto simp: Udb_Get_Value_def Udb_Get_Value_opt_def check_some_def)
qed

lemma find_unique_Some:
  assumes "dbi_ok db view schema unique" "unique c a" "v \<noteq> DB_NULL" "db_find_unique db c a v s = Some x"
  shows "cls (view s) x = Some c" "att (view s) x a = Some v"
  using assms by (simp_all add: dbi_ok_def laws_read_def)

lemma find_unique_None:
  assumes "dbi_ok db view schema unique" "unique c a" "v \<noteq> DB_NULL" "db_find_unique db c a v s = None" "cls (view s) x = Some c"
  shows "att (view s) x a \<noteq> Some v"
  using assms by (simp add: dbi_ok_def laws_read_def)

lemma put_checked_runs:
  assumes "dbi_ok db view schema unique" "cls (view (database w)) x = Some c" "att (view (database w)) x a \<noteq> None" "\<not> unique c a"
    and "\<And>s'. view s' = set_att x a v (view (database w)) \<Longrightarrow> Q (w\<lparr>database := s'\<rparr>)"
  shows "runs (put_checked db x a v w) Q"
proof -
  obtain s' where "db_put db x a v (database w) = Some s'" "view s' = set_att x a v (view (database w))"
    using assms(1-4) unfolding dbi_ok_def laws_write_def by blast
  then show ?thesis using assms(5) by (simp add: put_checked_def)
qed

lemma finish_edit:
  assumes "dbi_ok db view schema unique" "cls (view s) x = Some c" "fst ` set ps \<subseteq> dom (att (view s) x)" "no_clash unique (view s) c (Some x) ps"
  shows "\<exists>s'. dbt_finish_object db (OTMPL (Inr x) ps) s = Some (x, s') \<and> view s' = put_all x ps (view s)"
  using assms unfolding dbi_ok_def laws_write_def by blast

lemma finish_create:
  assumes "dbi_ok db view schema unique" "c \<in> dom (cls (view s))" "fst ` set ps \<subseteq> schema c" "no_clash unique (view s) c None ps"
  shows "\<exists>x s'. dbt_finish_object db (OTMPL (Inl c) ps) s = Some (x, s') \<and> x \<notin> dom (cls (view s)) \<and>
    (\<exists>D. dom D = schema c \<and> view s' = put_all x ps (new_obj x c D (view s)))"
  using assms unfolding dbi_ok_def laws_write_def by blast

lemma col_insert:
  assumes "dbi_ok db view schema unique" "elems (view s) col = Some vs" "i \<le> length vs"
  shows "\<exists>s'. db_col_insert db col i v s = Some (set_handle (take i vs @ v # drop i vs) col, s') \<and>
    view s' = set_elems (take i vs @ v # drop i vs) col (view s)"
  using assms(1) [unfolded dbi_ok_def laws_collection_def, THEN conjunct2, THEN conjunct2, THEN conjunct1, rule_format, OF conjI [OF assms(2,3)]] .

lemma col_drop:
  assumes "dbi_ok db view schema unique" "elems (view s) col = Some vs" "i < length vs"
  shows "\<exists>s'. db_col_drop_element db col i s = Some (set_handle (take i vs @ drop (Suc i) vs) col, s') \<and>
    view s' = set_elems (take i vs @ drop (Suc i) vs) col (view s)"
  using assms(1) [unfolded dbi_ok_def laws_collection_def, THEN conjunct2, THEN conjunct2, THEN conjunct2, THEN conjunct1, rule_format, OF conjI [OF assms(2,3)]] .

lemma set_add:
  assumes "dbi_ok db view schema unique" "elems (view s) col = Some vs"
  shows "\<exists>us s'. db_set_add db col v s = Some (set_handle us col, s') \<and> set us = insert v (set vs) \<and>
    (distinct vs \<longrightarrow> distinct us) \<and> view s' = set_elems us col (view s)"
  using assms(1) [unfolded dbi_ok_def laws_collection_def, THEN conjunct2, THEN conjunct2, THEN conjunct2, THEN conjunct2, THEN conjunct1, rule_format, OF assms(2)] .

lemma set_drop:
  assumes "dbi_ok db view schema unique" "elems (view s) col = Some vs" "v \<in> set vs"
  shows "\<exists>us s'. db_set_drop db col v s = Some (set_handle us col, s') \<and> set us = set vs - {v} \<and>
    (distinct vs \<longrightarrow> distinct us) \<and> view s' = set_elems us col (view s)"
  using assms(1) [unfolded dbi_ok_def laws_collection_def, THEN conjunct2, THEN conjunct2, THEN conjunct2, THEN conjunct2, THEN conjunct2, rule_format, OF conjI [OF assms(2,3)]] .

end
