(* ===== verification/MemDbi.thy ===== *)
theory MemDbi
  imports Dbi
begin

text \<open>
  An implementation of the database interface in memory: objects are numbers, the classes and
  the objects are association lists.  It has the laws \<open>dbi_ok\<close>, so what is proved from them holds for it.
\<close>

record mem =
  mclasses :: "(cstr \<times> nat) list"
  mobjects :: "(nat \<times> nat) list"
  mvalues :: "nat \<Rightarrow> cstr \<Rightarrow> nat db_value"

definition mem_view :: "(nat \<Rightarrow> cstr list) \<Rightarrow> mem \<Rightarrow> nat store" where
  "mem_view S s =
     \<lparr>cnam = map_of (mclasses s), cls = map_of (mobjects s),
      att = (\<lambda>x a. case map_of (mobjects s) x of None \<Rightarrow> None | Some c \<Rightarrow> if a \<in> set (S c) then Some (mvalues s x a) else None)\<rparr>"

definition mem_set :: "nat \<Rightarrow> cstr \<Rightarrow> nat db_value \<Rightarrow> mem \<Rightarrow> mem" where
  "mem_set x a v s = s\<lparr>mvalues := (mvalues s)(x := (mvalues s x)(a := v))\<rparr>"

definition mem_fresh :: "mem \<Rightarrow> nat" where
  "mem_fresh s = Suc (foldr max (map fst (mobjects s)) 0)"

definition mem_clash :: "(nat \<Rightarrow> cstr list) \<Rightarrow> (nat \<Rightarrow> cstr \<Rightarrow> bool) \<Rightarrow> mem \<Rightarrow> nat \<Rightarrow> nat option \<Rightarrow> (cstr \<times> nat db_value) list \<Rightarrow> bool" where
  "mem_clash S u s c x ps \<longleftrightarrow>
     list_ex (\<lambda>(a, v). u c a \<and> v \<noteq> DB_NULL \<and>
       list_ex (\<lambda>y. map_of (mobjects s) y = Some c \<and> Some y \<noteq> x \<and> att (mem_view S s) y a = Some v) (map fst (mobjects s))) ps"

fun mem_finish :: "(nat \<Rightarrow> cstr list) \<Rightarrow> (nat \<Rightarrow> cstr \<Rightarrow> bool) \<Rightarrow> nat otmpl \<Rightarrow> mem \<Rightarrow> (nat \<times> mem) option" where
  "mem_finish S u (OTMPL (Inr x) ps) s =
     (case map_of (mobjects s) x of
        None \<Rightarrow> None
      | Some c \<Rightarrow>
          if list_all (\<lambda>p. fst p \<in> set (S c)) ps \<and> \<not> mem_clash S u s c (Some x) ps
          then Some (x, fold (\<lambda>(a, v). mem_set x a v) ps s) else None)"
| "mem_finish S u (OTMPL (Inl c) ps) s =
     (if map_of (mobjects s) c \<noteq> None \<and> list_all (\<lambda>p. fst p \<in> set (S c)) ps \<and> \<not> mem_clash S u s c None ps
      then let x = mem_fresh s
           in Some (x, fold (\<lambda>(a, v). mem_set x a v) ps
                (s\<lparr>mobjects := (x, c) # mobjects s, mvalues := (mvalues s)(x := (\<lambda>a. DB_NULL))\<rparr>))
      else None)"

text \<open>Setting the elements of a collection.\<close>

fun mem_col_set :: "(nat \<Rightarrow> cstr list) \<Rightarrow> nat db_collection \<Rightarrow> nat db_value list \<Rightarrow> mem \<Rightarrow> mem" where
  "mem_col_set S (Col_New us) vs s = s"
| "mem_col_set S (Col_Attribute x a) vs s =
     mem_set x a (case mvalues s x a of DB_SET c \<Rightarrow> DB_SET (Col_New vs) | _ \<Rightarrow> DB_SEQUENCE (Col_New vs)) s"

definition mem_col_change :: "(nat \<Rightarrow> cstr list) \<Rightarrow> nat db_collection \<Rightarrow> (nat db_value list \<Rightarrow> nat db_value list option) \<Rightarrow> mem \<Rightarrow> (nat db_collection \<times> mem) option" where
  "mem_col_change S col f s =
     (case elems (mem_view S s) col of
        None \<Rightarrow> None
      | Some vs \<Rightarrow> (case f vs of None \<Rightarrow> None | Some us \<Rightarrow> Some (set_handle us col, mem_col_set S col us s)))"

definition mem_dbi :: "(nat \<Rightarrow> cstr list) \<Rightarrow> (nat \<Rightarrow> cstr \<Rightarrow> bool) \<Rightarrow> (mem, nat) dbi" where
  "mem_dbi S u =
     \<lparr>db_find_class = (\<lambda>n s. map_of (mclasses s) n),
      db_get_class = (\<lambda>x s. case map_of (mobjects s) x of None \<Rightarrow> 0 | Some c \<Rightarrow> c),
      db_get_class_name = (\<lambda>c s. map_option fst (find (\<lambda>p. snd p = c) (mclasses s))),
      db_identifier = (\<lambda>x s. Some (0, int x, 0)),
      db_object = (\<lambda>(v, p, n) s. Some (nat p)),
      db_is_subclass = (\<lambda>c d s. c = d),
      db_get_attributes = (\<lambda>c s. map (\<lambda>a. (a, Dom_Scalar DB_TYPE_OTHER None)) (S c)),
      db_get = (\<lambda>x a s. case att (mem_view S s) x a of None \<Rightarrow> ER_OBJ_INVALID_ATTRIBUTE | Some v \<Rightarrow> NOERROR (handle x a v)),
      db_put = (\<lambda>x a v s. if att (mem_view S s) x a = None then None else Some (mem_set x a v s)),
      db_find_unique = (\<lambda>c a v s. find (\<lambda>x. map_of (mobjects s) x = Some c \<and> att (mem_view S s) x a = Some v) (map fst (mobjects s))),
      dbt_finish_object = mem_finish S u,
      db_col_size = (\<lambda>col s. case elems (mem_view S s) col of None \<Rightarrow> 0 | Some vs \<Rightarrow> length vs),
      db_col_get = (\<lambda>col i s. case elems (mem_view S s) col of None \<Rightarrow> None | Some vs \<Rightarrow> if i < length vs then Some (vs ! i) else None),
      db_col_insert = (\<lambda>col i v. mem_col_change S col (\<lambda>vs. if i \<le> length vs then Some (take i vs @ v # drop i vs) else None)),
      db_col_drop_element = (\<lambda>col i. mem_col_change S col (\<lambda>vs. if i < length vs then Some (take i vs @ drop (Suc i) vs) else None)),
      db_set_add = (\<lambda>col v. mem_col_change S col (\<lambda>vs. Some (List.insert v vs))),
      db_set_drop = (\<lambda>col v. mem_col_change S col (\<lambda>vs. if v \<in> set vs then Some (removeAll v vs) else None)),
      db_value_compare = (\<lambda>v w s. v = w),
      db_execute = (\<lambda>q vs s. None),
      db_commit_transaction = Some, db_abort_transaction = Some\<rparr>"

section \<open>It has the laws\<close>

lemma mem_view_simps [simp]:
  "cnam (mem_view S s) = map_of (mclasses s)" "cls (mem_view S s) = map_of (mobjects s)"
  "att (mem_view S s) x a = (case map_of (mobjects s) x of None \<Rightarrow> None | Some c \<Rightarrow> if a \<in> set (S c) then Some (mvalues s x a) else None)"
  by (simp_all add: mem_view_def)

lemma mem_set_simps [simp]: "mclasses (mem_set x a v s) = mclasses s" "mobjects (mem_set x a v s) = mobjects s"
  by (simp_all add: mem_set_def)

lemma mem_set_view:
  assumes "map_of (mobjects s) x = Some c" "a \<in> set (S c)"
  shows "mem_view S (mem_set x a v s) = set_att x a v (mem_view S s)"
  using assms by (auto simp: mem_view_def mem_set_def set_att_def fun_eq_iff split: option.split)

lemma fold_mem_set:
  assumes "map_of (mobjects s) x = Some c" "fst ` set ps \<subseteq> set (S c)"
  shows "mem_view S (fold (\<lambda>(a, v). mem_set x a v) ps s) = put_all x ps (mem_view S s)"
  using assms
proof (induction ps arbitrary: s)
  case (Cons p ps)
  obtain a v where p: "p = (a, v)" by (cases p)
  have "mem_view S (mem_set x a v s) = set_att x a v (mem_view S s)" using Cons.prems p by (intro mem_set_view) auto
  then show ?case using Cons.IH [of "mem_set x a v s"] Cons.prems p by (simp add: put_all_def)
qed (simp add: put_all_def)

lemma mem_key: "map_of (mobjects s) x = Some c \<Longrightarrow> x \<in> set (map fst (mobjects s))"
  by (force dest: map_of_SomeD)

lemma mem_clash_iff: "mem_clash S u s c x ps \<longleftrightarrow> \<not> no_clash u (mem_view S s) c x ps"
proof -
  have m: "(\<exists>y\<in>set (map fst (mobjects s)). map_of (mobjects s) y = Some c \<and> P y) \<longleftrightarrow> (\<exists>y. map_of (mobjects s) y = Some c \<and> P y)" for P
    using mem_key by metis
  show ?thesis unfolding mem_clash_def no_clash_def list_ex_iff m [of "\<lambda>y. Some y \<noteq> x \<and> att (mem_view S s) y _ = Some _"]
    by (auto simp del: mem_view_simps(3) set_map)
qed

lemma mem_fresh: "map_of (mobjects s) (mem_fresh s) = None"
proof -
  have "x \<le> foldr max xs 0" if "x \<in> set xs" for x and xs :: "nat list" using that by (induction xs) auto
  then show ?thesis by (force simp: mem_fresh_def map_of_eq_None_iff dest: Suc_le_lessD)
qed

lemma mem_finish_edit:
  assumes "map_of (mobjects s) x = Some c" "fst ` set ps \<subseteq> set (S c)" "no_clash u (mem_view S s) c (Some x) ps"
  shows "\<exists>s'. mem_finish S u (OTMPL (Inr x) ps) s = Some (x, s') \<and> mem_view S s' = put_all x ps (mem_view S s)"
proof -
  have "mem_finish S u (OTMPL (Inr x) ps) s = Some (x, fold (\<lambda>(a, v). mem_set x a v) ps s)"
    using assms by (auto simp: mem_clash_iff list_all_iff simp del: mem_view_simps(3))
  then show ?thesis using fold_mem_set [of s x c ps S] assms by simp
qed

lemma mem_finish_create:
  assumes "c \<in> dom (map_of (mobjects s))" "fst ` set ps \<subseteq> set (S c)" "no_clash u (mem_view S s) c None ps"
  shows "\<exists>x s'. mem_finish S u (OTMPL (Inl c) ps) s = Some (x, s') \<and> x \<notin> dom (map_of (mobjects s)) \<and>
    (\<exists>D. dom D = set (S c) \<and> mem_view S s' = put_all x ps (new_obj x c D (mem_view S s)))"
proof -
  define x where "x = mem_fresh s"
  define s1 where "s1 = s\<lparr>mobjects := (x, c) # mobjects s, mvalues := (mvalues s)(x := (\<lambda>a. DB_NULL))\<rparr>"
  have "mem_finish S u (OTMPL (Inl c) ps) s = Some (x, fold (\<lambda>(a, v). mem_set x a v) ps s1)"
    using assms by (auto simp: mem_clash_iff list_all_iff Let_def x_def s1_def simp del: mem_view_simps(3))
  moreover have "mem_view S s1 = new_obj x c (\<lambda>a. if a \<in> set (S c) then Some DB_NULL else None) (mem_view S s)"
    by (auto simp: mem_view_def s1_def new_obj_def fun_eq_iff split: option.split)
  moreover have "mem_view S (fold (\<lambda>(a, v). mem_set x a v) ps s1) = put_all x ps (mem_view S s1)"
    by (rule fold_mem_set) (use assms(2) in \<open>simp_all add: s1_def\<close>)
  moreover have "dom (\<lambda>a. if a \<in> set (S c) then Some DB_NULL else None) = set (S c)" by (auto simp: dom_def)
  ultimately show ?thesis using mem_fresh [of s] unfolding x_def [symmetric] by (metis domIff)
qed

lemma mem_col_change:
  assumes "elems (mem_view S s) col = Some vs" "f vs = Some us"
  shows "\<exists>s'. mem_col_change S col f s = Some (set_handle us col, s') \<and> mem_view S s' = set_elems us col (mem_view S s)"
proof (cases col)
  case (Col_Attribute x a)
  then obtain c where c: "map_of (mobjects s) x = Some c" "a \<in> set (S c)" using assms(1) by (auto split: option.split_asm if_split_asm)
  have "mem_view S (mem_col_set S col us s) = set_elems us col (mem_view S s)"
    unfolding Col_Attribute mem_col_set.simps mem_set_view [where S = S, OF c] using c by (auto split: db_value.split)
  then show ?thesis using assms by (simp add: mem_col_change_def)
qed (use assms in \<open>simp add: mem_col_change_def\<close>)

lemma mem_find:
  "find (\<lambda>x. map_of (mobjects s) x = Some c \<and> P x) (map fst (mobjects s)) = Some x \<Longrightarrow> map_of (mobjects s) x = Some c \<and> P x"
  "find (\<lambda>x. map_of (mobjects s) x = Some c \<and> P x) (map fst (mobjects s)) = None \<Longrightarrow> \<not> (map_of (mobjects s) x = Some c \<and> P x)"
  using mem_key [of s x c] unfolding find_None_iff by (metis (mono_tags, lifting) find_Some_iff, metis)

lemma mem_laws_read: "laws_read (mem_dbi S u) (mem_view S) (\<lambda>c. set (S c)) u"
proof -
  have a: "dom (att (mem_view S s) x) = set (S c)" "db_get_class (mem_dbi S u) x s = c" if "cls (mem_view S s) x = Some c" for s x c
    using that by (auto simp: dom_def mem_dbi_def)
  have b: "db_find_class (mem_dbi S u) n s = cnam (mem_view S s) n"
    "db_get (mem_dbi S u) x a s = (case att (mem_view S s) x a of None \<Rightarrow> ER_OBJ_INVALID_ATTRIBUTE | Some v \<Rightarrow> NOERROR (handle x a v))" for n s x a
    by (simp_all add: mem_dbi_def)
  have c: "cls (mem_view S s) x = Some c \<and> att (mem_view S s) x a = Some v" if "db_find_unique (mem_dbi S u) c a v s = Some x" for s c a v x
    using that mem_find(1) [of s c "\<lambda>x. att (mem_view S s) x a = Some v" x] by (simp add: mem_dbi_def del: mem_view_simps(3))
  have d: "\<not> (cls (mem_view S s) x = Some c \<and> att (mem_view S s) x a = Some v)" if "db_find_unique (mem_dbi S u) c a v s = None" for s c a v x
    using that mem_find(2) [of s c "\<lambda>x. att (mem_view S s) x a = Some v" x] by (simp add: mem_dbi_def del: mem_view_simps(3))
  have e: "db_col_size (mem_dbi S u) col s = length vs" "i < length vs \<Longrightarrow> db_col_get (mem_dbi S u) col i s = Some (vs ! i)"
    if "elems (mem_view S s) col = Some vs" for s col vs i
    using that by (simp_all add: mem_dbi_def)
  show ?thesis unfolding laws_read_def
    by (intro conjI allI impI; (rule a b d e; blast | rule b | blast intro: d e dest: c))
qed

lemma mem_laws_write: "laws_write (mem_dbi S u) (mem_view S) (\<lambda>c. set (S c)) u"
  unfolding laws_write_def
proof (intro conjI allI impI)
  fix s x c a v assume "cls (mem_view S s) x = Some c \<and> att (mem_view S s) x a \<noteq> None \<and> \<not> u c a"
  then have "map_of (mobjects s) x = Some c" "a \<in> set (S c)" "att (mem_view S s) x a \<noteq> None" by (auto split: if_split_asm)
  then show "\<exists>s'. db_put (mem_dbi S u) x a v s = Some s' \<and> mem_view S s' = set_att x a v (mem_view S s)"
    using mem_set_view [of s x c a S v] by (simp add: mem_dbi_def)
next
  fix s x c ps assume a: "cls (mem_view S s) x = Some c \<and> fst ` set ps \<subseteq> dom (att (mem_view S s) x) \<and> no_clash u (mem_view S s) c (Some x) ps"
  then have "fst ` set ps \<subseteq> set (S c)" by (auto simp: dom_def split: if_split_asm)
  then show "\<exists>s'. dbt_finish_object (mem_dbi S u) (OTMPL (Inr x) ps) s = Some (x, s') \<and> mem_view S s' = put_all x ps (mem_view S s)"
    using mem_finish_edit [of s x c ps S u] a by (simp add: mem_dbi_def)
next
  fix s c ps assume "c \<in> dom (cls (mem_view S s)) \<and> fst ` set ps \<subseteq> set (S c) \<and> no_clash u (mem_view S s) c None ps"
  then show "\<exists>x s'. dbt_finish_object (mem_dbi S u) (OTMPL (Inl c) ps) s = Some (x, s') \<and> x \<notin> dom (cls (mem_view S s)) \<and>
    (\<exists>D. dom D = set (S c) \<and> mem_view S s' = put_all x ps (new_obj x c D (mem_view S s)))"
    using mem_finish_create [of c s ps S u] by (simp add: mem_dbi_def)
qed

lemma mem_laws_collection: "laws_collection (mem_dbi S u) (mem_view S)"
  unfolding laws_collection_def
proof (intro conjI allI impI)
  fix s col vs i v assume "elems (mem_view S s) col = Some vs \<and> i \<le> length vs"
  then show "\<exists>s'. db_col_insert (mem_dbi S u) col i v s = Some (set_handle (take i vs @ v # drop i vs) col, s') \<and>
    mem_view S s' = set_elems (take i vs @ v # drop i vs) col (mem_view S s)"
    by (simp add: mem_dbi_def mem_col_change)
next
  fix s col vs i assume "elems (mem_view S s) col = Some vs \<and> i < length vs"
  then show "\<exists>s'. db_col_drop_element (mem_dbi S u) col i s = Some (set_handle (take i vs @ drop (Suc i) vs) col, s') \<and>
    mem_view S s' = set_elems (take i vs @ drop (Suc i) vs) col (mem_view S s)"
    by (simp add: mem_dbi_def mem_col_change)
next
  fix s col vs v assume "elems (mem_view S s) col = Some vs"
  then show "\<exists>us s'. db_set_add (mem_dbi S u) col v s = Some (set_handle us col, s') \<and> set us = insert v (set vs) \<and>
    (distinct vs \<longrightarrow> distinct us) \<and> mem_view S s' = set_elems us col (mem_view S s)"
    using mem_col_change [of S s col vs "\<lambda>vs. Some (List.insert v vs)" "List.insert v vs"]
    by (auto simp: mem_dbi_def intro!: exI [of _ "List.insert v vs"])
next
  fix s col vs v assume "elems (mem_view S s) col = Some vs \<and> v \<in> set vs"
  then show "\<exists>us s'. db_set_drop (mem_dbi S u) col v s = Some (set_handle us col, s') \<and> set us = set vs - {v} \<and>
    (distinct vs \<longrightarrow> distinct us) \<and> mem_view S s' = set_elems us col (mem_view S s)"
    using mem_col_change [of S s col vs "\<lambda>vs. if v \<in> set vs then Some (removeAll v vs) else None" "removeAll v vs"]
    by (auto simp: mem_dbi_def distinct_removeAll intro!: exI [of _ "removeAll v vs"])
qed

lemma mem_dbi_ok: "dbi_ok (mem_dbi S u) (mem_view S) (\<lambda>c. set (S c)) u"
  by (simp add: dbi_ok_def mem_laws_read mem_laws_write mem_laws_collection)

end
