(* ===== verification/Lookup.thy ===== *)
theory Lookup
  imports Dbi Uuid
begin

text \<open>
  Classes, items, free objects and roots: \<^verbatim>\<open>libudb/lookup.c\<close>, with \<open>Udb_Finish_Object\<close> of
  \<^verbatim>\<open>libudb/transaction.c\<close>, through which every object is written.

  The caches are maps of the state \<open>udb\<close>; a class pointer that is looked up once (\<open>ITEM_CLASS\<close> and
  its like) is an optional field.  \<open>getvar\<close> is \<open>Tcl_GetVar2\<close> on the global arrays of the
  interpreter.
\<close>

section \<open>Model\<close>

fun dec_nat :: "nat \<Rightarrow> cstr" where
  "dec_nat n = (if n < 10 then [48 + of_nat n] else dec_nat (n div 10) @ [48 + of_nat (n mod 10)])"

declare dec_nat.simps [simp del]

definition fmt_ld :: "int \<Rightarrow> cstr" where
  "fmt_ld i = (if i < 0 then [45] else []) @ dec_nat (nat \<bar>i\<bar>)"

type_synonym tclvar = "string \<Rightarrow> cstr \<Rightarrow> cstr option"

subsection \<open>Classes\<close>

definition Udb_Get_Class_opt :: "('s, 'o) dbi \<Rightarrow> cstr \<Rightarrow> ('s, 'o, 'm) udb_scheme \<Rightarrow> 'o option \<times> ('s, 'o, 'm) udb_scheme" where
  "Udb_Get_Class_opt db name w =
     (case classCache w name of
        Some c \<Rightarrow> (Some c, w)
      | None \<Rightarrow>
          (case db_find_class db name (database w) of
             Some c \<Rightarrow> (Some c, w\<lparr>classCache := (classCache w)(name \<mapsto> c)\<rparr>)
           | None \<Rightarrow> (None, w)))"

definition Udb_Get_Class :: "('s, 'o) dbi \<Rightarrow> cstr \<Rightarrow> ('s, 'o, 'm) udb_scheme \<Rightarrow> ('o \<times> ('s, 'o, 'm) udb_scheme) c_run" where
  "Udb_Get_Class db name w = (case Udb_Get_Class_opt db name w of (None, w) \<Rightarrow> Panic | (Some c, w) \<Rightarrow> Done (c, w))"

definition Udb_ISA :: "('s, 'o) dbi \<Rightarrow> 'o \<Rightarrow> 'o \<Rightarrow> ('s, 'o, 'm) udb_scheme \<Rightarrow> bool \<times> ('s, 'o, 'm) udb_scheme" where
  "Udb_ISA db class super w =
     (if class = super then (True, w)
      else case subClassCache w super class of
        Some isa \<Rightarrow> (isa, w)
      | None \<Rightarrow>
          let isa = db_is_subclass db class super (database w)
          in (isa, w\<lparr>subClassCache := (subClassCache w)(super := (subClassCache w super)(class \<mapsto> isa))\<rparr>))"

definition ITEM_CLASS :: "('s, 'o) dbi \<Rightarrow> ('s, 'o, 'm) udb_scheme \<Rightarrow> ('o \<times> ('s, 'o, 'm) udb_scheme) c_run" where
  "ITEM_CLASS db w =
     (case item_class w of
        Some c \<Rightarrow> Done (c, w)
      | None \<Rightarrow> c_bind (Udb_Get_Class db (cstr ''unameit_item'') w) (\<lambda>(c, w). Done (c, w\<lparr>item_class := Some c\<rparr>)))"

definition PROT_ITEM_CLASS :: "('s, 'o) dbi \<Rightarrow> ('s, 'o, 'm) udb_scheme \<Rightarrow> ('o \<times> ('s, 'o, 'm) udb_scheme) c_run" where
  "PROT_ITEM_CLASS db w =
     (case prot_item_class w of
        Some c \<Rightarrow> Done (c, w)
      | None \<Rightarrow> c_bind (Udb_Get_Class db (cstr ''unameit_protected_item'') w) (\<lambda>(c, w). Done (c, w\<lparr>prot_item_class := Some c\<rparr>)))"

definition DATA_CLASS :: "('s, 'o) dbi \<Rightarrow> ('s, 'o, 'm) udb_scheme \<Rightarrow> ('o \<times> ('s, 'o, 'm) udb_scheme) c_run" where
  "DATA_CLASS db w =
     (case data_class w of
        Some c \<Rightarrow> Done (c, w)
      | None \<Rightarrow> c_bind (Udb_Get_Class db (cstr ''unameit_data_item'') w) (\<lambda>(c, w). Done (c, w\<lparr>data_class := Some c\<rparr>)))"

definition CELL_CLASS :: "('s, 'o) dbi \<Rightarrow> ('s, 'o, 'm) udb_scheme \<Rightarrow> ('o \<times> ('s, 'o, 'm) udb_scheme) c_run" where
  "CELL_CLASS db w =
     (case cell_class w of
        Some c \<Rightarrow> Done (c, w)
      | None \<Rightarrow> c_bind (Udb_Get_Class db (cstr ''cell'') w) (\<lambda>(c, w). Done (c, w\<lparr>cell_class := Some c\<rparr>)))"

definition HOST_CLASS :: "('s, 'o) dbi \<Rightarrow> ('s, 'o, 'm) udb_scheme \<Rightarrow> 'o option \<times> ('s, 'o, 'm) udb_scheme" where
  "HOST_CLASS db w =
     (case host_class w of
        Some c \<Rightarrow> (Some c, w)
      | None \<Rightarrow> let (c, w) = Udb_Get_Class_opt db (cstr ''host'') w in (c, w\<lparr>host_class := c\<rparr>))"

definition PERSON_CLASS :: "('s, 'o) dbi \<Rightarrow> ('s, 'o, 'm) udb_scheme \<Rightarrow> 'o option \<times> ('s, 'o, 'm) udb_scheme" where
  "PERSON_CLASS db w =
     (case person_class w of
        Some c \<Rightarrow> (Some c, w)
      | None \<Rightarrow> let (c, w) = Udb_Get_Class_opt db (cstr ''person'') w in (c, w\<lparr>person_class := c\<rparr>))"

definition Udb_Is_Item_Class :: "('s, 'o) dbi \<Rightarrow> 'o \<Rightarrow> ('s, 'o, 'm) udb_scheme \<Rightarrow> (bool \<times> ('s, 'o, 'm) udb_scheme) c_run" where
  "Udb_Is_Item_Class db class w = c_bind (ITEM_CLASS db w) (\<lambda>(c, w). Done (Udb_ISA db class c w))"

definition Udb_Is_Data_Class :: "('s, 'o) dbi \<Rightarrow> 'o \<Rightarrow> ('s, 'o, 'm) udb_scheme \<Rightarrow> (bool \<times> ('s, 'o, 'm) udb_scheme) c_run" where
  "Udb_Is_Data_Class db class w = c_bind (DATA_CLASS db w) (\<lambda>(c, w). Done (Udb_ISA db class c w))"

definition Udb_Is_Host_Class :: "('s, 'o) dbi \<Rightarrow> 'o \<Rightarrow> ('s, 'o, 'm) udb_scheme \<Rightarrow> bool \<times> ('s, 'o, 'm) udb_scheme" where
  "Udb_Is_Host_Class db class w = (case HOST_CLASS db w of (None, w) \<Rightarrow> (False, w) | (Some h, w) \<Rightarrow> Udb_ISA db class h w)"

definition Udb_Is_Person_Class :: "('s, 'o) dbi \<Rightarrow> 'o \<Rightarrow> ('s, 'o, 'm) udb_scheme \<Rightarrow> bool \<times> ('s, 'o, 'm) udb_scheme" where
  "Udb_Is_Person_Class db class w = (case PERSON_CLASS db w of (None, w) \<Rightarrow> (False, w) | (Some u, w) \<Rightarrow> Udb_ISA db class u w)"

definition Udb_Get_Class_Name :: "('s, 'o) dbi \<Rightarrow> 'o \<Rightarrow> ('s, 'o, 'm) udb_scheme \<Rightarrow> (cstr \<times> ('s, 'o, 'm) udb_scheme) c_run" where
  "Udb_Get_Class_Name db class w =
     (case classNameCache w class of
        Some name \<Rightarrow> Done (name, w)
      | None \<Rightarrow> c_bind (check_some (db_get_class_name db class (database w)))
          (\<lambda>name. Done (name, w\<lparr>classNameCache := (classNameCache w)(class \<mapsto> name)\<rparr>)))"

definition Udb_Attr_Is_Protected :: "tclvar \<Rightarrow> cstr \<Rightarrow> bool" where
  "Udb_Attr_Is_Protected getvar aname = (getvar ''UNAMEIT_PROTECTED_ATTRIBUTE'' aname \<noteq> None)"

definition Udb_Attr_Is_Nullable :: "tclvar \<Rightarrow> cstr \<Rightarrow> cstr \<Rightarrow> bool" where
  "Udb_Attr_Is_Nullable getvar cname aname = (getvar ''UNAMEIT_NULLABLE'' (cname @ cstr ''.'' @ aname) \<noteq> None)"

definition Udb_Class_Is_Readonly :: "('s, 'o) dbi \<Rightarrow> tclvar \<Rightarrow> 'o \<Rightarrow> ('s, 'o, 'm) udb_scheme \<Rightarrow> (bool \<times> ('s, 'o, 'm) udb_scheme) c_run" where
  "Udb_Class_Is_Readonly db getvar class w =
     c_bind (Udb_Get_Class_Name db class w) (\<lambda>(name, w). Done (getvar ''UNAMEIT_CLASS_RO'' name \<noteq> None, w))"

definition Udb_Relation_Class :: "('s, 'o) dbi \<Rightarrow> cstr \<Rightarrow> ('s, 'o, 'm) udb_scheme \<Rightarrow> ('o \<times> ('s, 'o, 'm) udb_scheme) c_run" where
  "Udb_Relation_Class db aname w = Udb_Get_Class db (cstr ''relation/'' @ aname) w"

definition Udb_Relation_Attribute :: "('s, 'o) dbi \<Rightarrow> 'o \<Rightarrow> ('s, 'o, 'm) udb_scheme \<Rightarrow> (cstr \<times> ('s, 'o, 'm) udb_scheme) c_run" where
  "Udb_Relation_Attribute db relclass w =
     c_bind (Udb_Get_Class_Name db relclass w) (\<lambda>(name, w).
       case dropWhile (\<lambda>c. c \<noteq> ch (CHR ''/'')) name of [] \<Rightarrow> Panic | c # aname \<Rightarrow> Done (aname, w))"

definition legal_action :: "cstr list" where
  "legal_action = [cstr ''Block'', cstr ''Cascade'', cstr ''Nullify'', cstr ''Network'']"

definition Udb_Get_Relaction :: "('s, 'o) dbi \<Rightarrow> tclvar \<Rightarrow> 'o \<Rightarrow> cstr \<Rightarrow> ('s, 'o, 'm) udb_scheme \<Rightarrow> (cstr \<times> ('s, 'o, 'm) udb_scheme) c_run" where
  "Udb_Get_Relaction db getvar class attributeName w =
     (case refintCache w class attributeName of
        Some action \<Rightarrow> Done (action, w)
      | None \<Rightarrow>
          c_bind (Udb_Get_Class_Name db class w) (\<lambda>(class_name, w).
          c_bind (check_some (getvar ''UNAMEIT_REF_INTEGRITY'' (class_name @ cstr ''.'' @ attributeName))) (\<lambda>action.
            if action \<in> set legal_action
            then Done (action, w\<lparr>refintCache := (refintCache w)(class := (refintCache w class)(attributeName \<mapsto> action))\<rparr>)
            else Panic)))"

definition Udb_Attribute_Domain :: "('s, 'o) dbi \<Rightarrow> 'o \<Rightarrow> cstr \<Rightarrow> ('s, 'o, 'm) udb_scheme \<Rightarrow> 'o db_domain option \<times> ('s, 'o, 'm) udb_scheme" where
  "Udb_Attribute_Domain db class aname w =
     (case domainCache w class aname of
        Some domain \<Rightarrow> (Some domain, w)
      | None \<Rightarrow>
          (case map_of (db_get_attributes db class (database w)) aname of
             None \<Rightarrow> (None, w)
           | Some domain \<Rightarrow> (Some domain, w\<lparr>domainCache := (domainCache w)(class := (domainCache w class)(aname \<mapsto> domain))\<rparr>)))"

definition Udb_Get_Attributes :: "('s, 'o) dbi \<Rightarrow> 'o \<Rightarrow> ('s, 'o, 'm) udb_scheme \<Rightarrow> cstr list" where
  "Udb_Get_Attributes db class w = map fst (db_get_attributes db class (database w))"

fun relattribute_loop ::
  "('s, 'o) dbi \<Rightarrow> tclvar \<Rightarrow> 'o \<Rightarrow> cstr list \<Rightarrow> cstr list \<Rightarrow> ('s, 'o, 'm) udb_scheme \<Rightarrow> (cstr list \<times> ('s, 'o, 'm) udb_scheme) c_run" where
  "relattribute_loop db getvar class [] alist w = Done (alist, w)"
| "relattribute_loop db getvar class (aname # attrs) alist w =
     (case Udb_Attribute_Domain db class aname w of
        (None, w) \<Rightarrow> Panic
      | (Some domain, w) \<Rightarrow>
          let domain = (if db_domain_type domain = DB_TYPE_SET \<or> db_domain_type domain = DB_TYPE_SEQUENCE then db_domain_set domain else domain)
          in if db_domain_type domain \<noteq> DB_TYPE_OBJECT \<or> db_domain_class domain = None
             then relattribute_loop db getvar class attrs alist w
             else c_bind (Udb_Get_Relaction db getvar class aname w) (\<lambda>(action, w).
               if action = cstr ''Network'' then relattribute_loop db getvar class attrs alist w
               else relattribute_loop db getvar class attrs (alist @ [aname]) w))"

definition Udb_Get_Relattributes ::
  "('s, 'o) dbi \<Rightarrow> tclvar \<Rightarrow> 'o \<Rightarrow> ('s, 'o, 'm) udb_scheme \<Rightarrow> (cstr list \<times> ('s, 'o, 'm) udb_scheme) c_run" where
  "Udb_Get_Relattributes db getvar class w =
     (case relAttributeCache w class of
        Some argv \<Rightarrow> Done (argv, w)
      | None \<Rightarrow> c_bind (relattribute_loop db getvar class (Udb_Get_Attributes db class w) [] w) (\<lambda>(argv, w).
          Done (argv, w\<lparr>relAttributeCache := (relAttributeCache w)(class \<mapsto> argv)\<rparr>)))"

text \<open>A class without name attributes keeps the empty slot it made.\<close>

definition Udb_Get_Name_Attributes ::
  "('s, 'o) dbi \<Rightarrow> tclvar \<Rightarrow> (cstr \<Rightarrow> cstr list option) \<Rightarrow> 'o \<Rightarrow> ('s, 'o, 'm) udb_scheme \<Rightarrow> (cstr list option \<times> ('s, 'o, 'm) udb_scheme) c_run" where
  "Udb_Get_Name_Attributes db getvar split class w =
     (case nameAttributeCache w class of
        Some r \<Rightarrow> Done (r, w)
      | None \<Rightarrow> c_bind (Udb_Get_Class_Name db class w) (\<lambda>(class_name, w).
          case getvar ''UNAMEIT_NAME_ATTRIBUTES'' class_name of
            None \<Rightarrow> Done (None, w\<lparr>nameAttributeCache := (nameAttributeCache w)(class \<mapsto> None)\<rparr>)
          | Some alist \<Rightarrow> c_bind (check_some (split alist)) (\<lambda>argv.
              Done (Some argv, w\<lparr>nameAttributeCache := (nameAttributeCache w)(class \<mapsto> Some argv)\<rparr>))))"

definition Udb_Attribute_Is_Printable :: "('s, 'o) dbi \<Rightarrow> 'o db_domain \<Rightarrow> ('s, 'o, 'm) udb_scheme \<Rightarrow> (bool \<times> ('s, 'o, 'm) udb_scheme) c_run" where
  "Udb_Attribute_Is_Printable db domain w =
     (let domain = (if db_domain_type domain = DB_TYPE_SET \<or> db_domain_type domain = DB_TYPE_SEQUENCE then db_domain_set domain else domain);
          type = db_domain_type domain
      in if type = DB_TYPE_STRING \<or> type = DB_TYPE_INTEGER then Done (True, w)
         else if type = DB_TYPE_OBJECT
         then (case db_domain_class domain of
                 None \<Rightarrow> Done (False, w)
               | Some class \<Rightarrow> Udb_Is_Item_Class db class w)
         else Done (False, w))"

subsection \<open>Dropping caches\<close>

definition Udb_Uncache_Items :: "bool \<Rightarrow> bool \<Rightarrow> ('s, 'o, 'm) udb_scheme \<Rightarrow> ('s, 'o, 'm) udb_scheme" where
  "Udb_Uncache_Items rollback shutdown w =
     w\<lparr>itemCache := Map.empty, newobjCache := {},
       rootCache := (if rollback \<and> rootCacheDirty w \<or> shutdown then Map.empty else rootCache w), rootCacheDirty := False\<rparr>"

definition Udb_Uncache_Schema :: "('s, 'o, 'm) udb_scheme \<Rightarrow> ('s, 'o, 'm) udb_scheme" where
  "Udb_Uncache_Schema w =
     w\<lparr>classCache := Map.empty, domainCache := (\<lambda>_. Map.empty), classNameCache := Map.empty, relAttributeCache := Map.empty, nameAttributeCache := Map.empty, subClassCache := (\<lambda>_. Map.empty), refintCache := (\<lambda>_. Map.empty),
       rootCache := Map.empty, rootCacheDirty := False,
       item_class := None, prot_item_class := None, data_class := None, cell_class := None, host_class := None, person_class := None\<rparr>"

definition Udb_Uncache :: "('s, 'o, 'm) udb_scheme \<Rightarrow> ('s, 'o, 'm) udb_scheme" where
  "Udb_Uncache w = (Udb_Uncache_Schema (Udb_Uncache_Items True True w))\<lparr>current_principal := None\<rparr>"

subsection \<open>Writing objects\<close>

definition Schema_Updated :: "('s, 'o) dbi \<Rightarrow> 'o \<Rightarrow> ('s, 'o, 'm) udb_scheme \<Rightarrow> (bool \<times> ('s, 'o, 'm) udb_scheme) c_run" where
  "Schema_Updated db class w =
     c_bind (Udb_Is_Data_Class db class w) (\<lambda>(data, w). if data then Done (False, w) else Done (True, w\<lparr>schema_modified := True\<rparr>))"

definition Load_Tran_Versions :: "('s, 'o) dbi \<Rightarrow> ('s, 'o, 'm) udb_scheme \<Rightarrow> ('s, 'o, 'm) udb_scheme c_run" where
  "Load_Tran_Versions db w =
     c_bind (Udb_Get_Class db (cstr ''unameit_transaction'') w) (\<lambda>(c, w).
     c_bind (Udb_Get_Value db c (cstr ''data_major'') DB_TYPE_INTEGER (database w)) (\<lambda>dmajor.
     c_bind (Udb_Get_Value db c (cstr ''data_minor'') DB_TYPE_INTEGER (database w)) (\<lambda>dminor.
     c_bind (Udb_Get_Value db c (cstr ''data_micro'') DB_TYPE_INTEGER (database w)) (\<lambda>dmicro.
     c_bind (Udb_Get_Value db c (cstr ''schema_major'') DB_TYPE_INTEGER (database w)) (\<lambda>smajor.
     c_bind (Udb_Get_Value db c (cstr ''schema_minor'') DB_TYPE_INTEGER (database w)) (\<lambda>sminor.
     c_bind (Udb_Get_Value db c (cstr ''schema_micro'') DB_TYPE_INTEGER (database w)) (\<lambda>smicro.
       Done (w\<lparr>tx_class := Some c,
               tx_dmajor := DB_GET_INTEGER dmajor, tx_dminor := DB_GET_INTEGER dminor, tx_dmicro := DB_GET_INTEGER dmicro,
               tx_smajor := DB_GET_INTEGER smajor, tx_sminor := DB_GET_INTEGER sminor, tx_smicro := DB_GET_INTEGER smicro\<rparr>))))))))"

definition version_string :: "int \<Rightarrow> int \<Rightarrow> int \<Rightarrow> cstr" where
  "version_string major minor micro = fmt_ld major @ cstr ''.'' @ fmt_ld minor @ cstr ''.'' @ fmt_ld micro"

text \<open>\<open>dbt_abort_object\<close> drops the template.\<close>

definition Udb_Finish_Object ::
  "('s, 'o) dbi \<Rightarrow> 'o option \<Rightarrow> 'o otmpl option \<Rightarrow> bool \<Rightarrow> ('s, 'o, 'm) udb_scheme \<Rightarrow> ('o option \<times> ('s, 'o, 'm) udb_scheme) c_run" where
  "Udb_Finish_Object db icls templ item_deleted w =
     (case icls of
        None \<Rightarrow>
          let w = w\<lparr>tx_db_updated := True, syscall_db_updated := True\<rparr>
          in (case templ of
                None \<Rightarrow> Done (None, w)
              | Some t \<Rightarrow> c_bind (check_some (dbt_finish_object db t (database w))) (\<lambda>(x, s). Done (Some x, w\<lparr>database := s\<rparr>)))
      | Some class \<Rightarrow>
          c_bind (check_some templ) (\<lambda>t.
            if restore_mode w \<noteq> NORESTORE
            then let w = w\<lparr>tx_db_updated := True, syscall_db_updated := True\<rparr>
                 in (case dbt_finish_object db t (database w) of
                       Some (x, s) \<Rightarrow> c_bind (Schema_Updated db class (w\<lparr>database := s\<rparr>)) (\<lambda>(u, w). Done (Some x, w))
                     | None \<Rightarrow> Done (None, w))
            else
              c_bind (if tx_class w = None then Load_Tran_Versions db w else Done w) (\<lambda>w.
              let t = dbt_put (dbt_put t (cstr ''mtime'') (DB_INTEGER (int32 (now w)))) (cstr ''modby'') (DB_STRING (clientName w))
              in c_bind (Schema_Updated db class w) (\<lambda>(schema, w).
              let (t, w) =
                    (if \<not> schema
                     then (dbt_put t (cstr ''mtran'') (DB_STRING (version_string (tx_dmajor w) (tx_dminor w) (tx_dmicro w))), w\<lparr>new_tx_dmicro := True\<rparr>)
                     else (dbt_put t (cstr ''mtran'') (DB_STRING (version_string (tx_smajor w) (tx_sminor w) (tx_smicro w))), w\<lparr>new_tx_smicro := True\<rparr>));
                  t = (if item_deleted then dbt_put t (cstr ''deleted'') (DB_STRING (cstr ''Yes'')) else t)
              in (case dbt_finish_object db t (database w) of
                    Some (x, s) \<Rightarrow> Done (Some x, w\<lparr>database := s, tx_db_updated := True, syscall_db_updated := True\<rparr>)
                  | None \<Rightarrow> Done (None, w))))))"

definition Udb_Edit_Free_Object :: "('s, 'o) dbi \<Rightarrow> 'o \<Rightarrow> ('s, 'o, 'm) udb_scheme \<Rightarrow> ('o otmpl \<times> ('s, 'o, 'm) udb_scheme) c_run" where
  "Udb_Edit_Free_Object db class w =
     (if restore_mode w = NORESTORE
      then c_bind (Udb_Get_Value db class (cstr ''nextfree'') DB_TYPE_OBJECT (database w)) (\<lambda>v.
             case DB_GET_OBJECT v of
               Some x \<Rightarrow>
                 c_bind (Udb_Get_Value db x (cstr ''nextfree'') DB_TYPE_OBJECT (database w)) (\<lambda>v.
                 c_bind (put_checked db class (cstr ''nextfree'') v w) (\<lambda>w. Done (dbt_edit_object x, w)))
             | None \<Rightarrow> Done (dbt_create_object class, w))
      else Done (dbt_create_object class, w))"

definition Udb_Append_Free_List ::
  "('s, 'o) dbi \<Rightarrow> 'o \<Rightarrow> 'o otmpl \<Rightarrow> cstr option \<Rightarrow> ('s, 'o, 'm) udb_scheme \<Rightarrow> ('s, 'o, 'm) udb_scheme c_run" where
  "Udb_Append_Free_List db class templ key w =
     (let t = (case key of None \<Rightarrow> templ | Some k \<Rightarrow> dbt_put templ k DB_NULL)
      in c_bind (Udb_Get_Value db class (cstr ''nextfree'') DB_TYPE_OBJECT (database w)) (\<lambda>v.
         c_bind (Udb_Finish_Object db None (Some (dbt_put t (cstr ''nextfree'') v)) False w) (\<lambda>(x, w).
         c_bind (check_some x) (\<lambda>x. put_checked db class (cstr ''nextfree'') (DB_OBJECT x) w))))"

subsection \<open>Items\<close>

definition fetch_item :: "('s, 'o) dbi \<Rightarrow> cstr \<Rightarrow> ('s, 'o, 'm) udb_scheme \<Rightarrow> (('o \<times> bool) option \<times> ('s, 'o, 'm) udb_scheme) c_run" where
  "fetch_item db uuid w =
     (if \<not> Uuid_Valid uuid then Panic
      else case itemCache w uuid of
        Some cobj \<Rightarrow> Done (Some cobj, w)
      | None \<Rightarrow>
          c_bind (ITEM_CLASS db w) (\<lambda>(item, w).
            case db_find_unique db item (cstr ''uuid'') (DB_STRING uuid) (database w) of
              None \<Rightarrow> Done (None, w)
            | Some x \<Rightarrow>
                (case db_get db x (cstr ''deleted'') (database w) of
                   NOERROR v \<Rightarrow>
                     let cobj = (x, v \<noteq> DB_NULL) in Done (Some cobj, w\<lparr>itemCache := (itemCache w)(uuid \<mapsto> cobj)\<rparr>)
                 | _ \<Rightarrow> Panic)))"

definition Udb_Find_Any_Object :: "('s, 'o) dbi \<Rightarrow> cstr \<Rightarrow> ('s, 'o, 'm) udb_scheme \<Rightarrow> ('o option \<times> ('s, 'o, 'm) udb_scheme) c_run" where
  "Udb_Find_Any_Object db uuid w = c_bind (fetch_item db uuid w) (\<lambda>(r, w). Done (map_option fst r, w))"

definition Udb_Find_Object :: "('s, 'o) dbi \<Rightarrow> cstr \<Rightarrow> ('s, 'o, 'm) udb_scheme \<Rightarrow> ('o option \<times> ('s, 'o, 'm) udb_scheme) c_run" where
  "Udb_Find_Object db uuid w =
     c_bind (fetch_item db uuid w) (\<lambda>(r, w).
       Done (case r of None \<Rightarrow> None | Some (x, deleted) \<Rightarrow> if deleted then None else Some x, w))"

definition Udb_Cache_Object :: "cstr \<Rightarrow> 'o \<Rightarrow> bool \<Rightarrow> ('s, 'o, 'm) udb_scheme \<Rightarrow> ('s, 'o, 'm) udb_scheme c_run" where
  "Udb_Cache_Object uuid x deleted w =
     (if \<not> Uuid_Valid uuid then Panic else Done (w\<lparr>itemCache := (itemCache w)(uuid \<mapsto> (x, deleted))\<rparr>))"

definition Udb_New_Object :: "cstr \<Rightarrow> 'o \<Rightarrow> ('s, 'o, 'm) udb_scheme \<Rightarrow> ('s, 'o, 'm) udb_scheme c_run" where
  "Udb_New_Object uuid x w = Udb_Cache_Object uuid x False (w\<lparr>newobjCache := insert x (newobjCache w)\<rparr>)"

definition Udb_Is_New :: "('s, 'o) dbi \<Rightarrow> cstr list \<Rightarrow> ('s, 'o, 'm) udb_scheme \<Rightarrow> (cstr tcl_result \<times> ('s, 'o, 'm) udb_scheme) c_run" where
  "Udb_Is_New db argv w =
     (if length argv \<noteq> 2 then Done (Udb_Error ''EUSAGE'' [hd argv, cstr ''item''], w)
      else if \<not> Uuid_Valid (argv ! 1) then Done (Udb_Error ''ENOTUUID'' [argv ! 1], w)
      else c_bind (Udb_Find_Any_Object db (argv ! 1) w) (\<lambda>(x, w).
        Done (case x of
                None \<Rightarrow> Udb_Error ''ENXITEM'' [argv ! 1]
              | Some x \<Rightarrow> Tcl_Ok (if x \<in> newobjCache w then cstr ''1'' else cstr ''0''), w)))"

definition Udb_Get_Uuid :: "('s, 'o) dbi \<Rightarrow> 'o option \<Rightarrow> 's \<Rightarrow> cstr c_run" where
  "Udb_Get_Uuid db x s =
     c_bind (check_some x) (\<lambda>x. c_bind (Udb_Get_Value db x (cstr ''uuid'') DB_TYPE_STRING s) (\<lambda>v.
       if v = DB_NULL then Overrun else Done (take 23 (DB_GET_STRING v))))"

definition Protect_Object :: "('s, 'o) dbi \<Rightarrow> 'o \<Rightarrow> ('s, 'o, 'm) udb_scheme \<Rightarrow> ('s, 'o, 'm) udb_scheme c_run" where
  "Protect_Object db x w =
     c_bind (PROT_ITEM_CLASS db w) (\<lambda>(c, w).
       if db_find_unique db c (cstr ''item'') (DB_OBJECT x) (database w) \<noteq> None then Done w
       else c_bind (Udb_Finish_Object db None (Some (dbt_put (dbt_create_object c) (cstr ''item'') (DB_OBJECT x))) False w)
              (\<lambda>(y, w). c_bind (check_some y) (\<lambda>_. Done w)))"

fun protect_loop :: "('s, 'o) dbi \<Rightarrow> cstr list \<Rightarrow> ('s, 'o, 'm) udb_scheme \<Rightarrow> (cstr tcl_result \<times> ('s, 'o, 'm) udb_scheme) c_run" where
  "protect_loop db [] w = Done (Tcl_Ok [], w)"
| "protect_loop db (uuid # uuids) w =
     (if \<not> Uuid_Valid uuid then Done (Udb_Error ''ENOTUUID'' [uuid], w)
      else c_bind (Udb_Find_Object db uuid w) (\<lambda>(x, w).
        case x of
          None \<Rightarrow> Done (Udb_Error ''ENXITEM'' [uuid], w)
        | Some x \<Rightarrow> c_bind (Protect_Object db x w) (protect_loop db uuids)))"

definition Udb_Protect_Items :: "('s, 'o) dbi \<Rightarrow> cstr list \<Rightarrow> ('s, 'o, 'm) udb_scheme \<Rightarrow> (cstr tcl_result \<times> ('s, 'o, 'm) udb_scheme) c_run" where
  "Udb_Protect_Items db argv w =
     (if length argv < 2 then Done (Udb_Error ''EUSAGE'' [hd argv, cstr ''uuid ...''], w) else protect_loop db (tl argv) w)"

definition Udb_Item_Protected :: "('s, 'o) dbi \<Rightarrow> cstr list \<Rightarrow> ('s, 'o, 'm) udb_scheme \<Rightarrow> (cstr tcl_result \<times> ('s, 'o, 'm) udb_scheme) c_run" where
  "Udb_Item_Protected db argv w =
     (if length argv \<noteq> 2 then Done (Udb_Error ''EUSAGE'' [hd argv, cstr ''uuid''], w)
      else if \<not> Uuid_Valid (argv ! 1) then Done (Udb_Error ''ENOTUUID'' [argv ! 1], w)
      else c_bind (Udb_Find_Any_Object db (argv ! 1) w) (\<lambda>(x, w).
        case x of
          None \<Rightarrow> Done (Udb_Error ''ENXITEM'' [argv ! 1], w)
        | Some x \<Rightarrow> c_bind (PROT_ITEM_CLASS db w) (\<lambda>(c, w).
            Done (Tcl_Ok (if db_find_unique db c (cstr ''item'') (DB_OBJECT x) (database w) = None then cstr ''0'' else cstr ''1''), w))))"

subsection \<open>Cells and roots\<close>

text \<open>The walk up the owners; \<open>None\<close> is a walk that does not end.\<close>

partial_function (option) Udb_Get_Cell ::
  "('s, 'o) dbi \<Rightarrow> tclvar \<Rightarrow> 'o option \<Rightarrow> bool \<Rightarrow> 'o option \<Rightarrow> ('s, 'o, 'm) udb_scheme \<Rightarrow> ('o option \<times> ('s, 'o, 'm) udb_scheme) c_run option" where
  "Udb_Get_Cell db getvar loopobj get_org ob w =
     (case ob of
        None \<Rightarrow> Some (Done (None, w))
      | Some x \<Rightarrow>
          let class = db_get_class db x (database w)
          in (case CELL_CLASS db w of
                Panic \<Rightarrow> Some Panic
              | Overrun \<Rightarrow> Some Overrun
              | Done (cell, w1) \<Rightarrow>
                  let (is_cell, w2) = Udb_ISA db class cell w1
                  in if is_cell
                     then (if \<not> get_org then Some (Done (Some x, w2))
                           else Some (c_bind (Udb_Get_Value db x (cstr ''cellorg'') DB_TYPE_OBJECT (database w2)) (\<lambda>v.
                                  Done (case DB_GET_OBJECT v of Some org \<Rightarrow> Some org | None \<Rightarrow> Some x, w2))))
                     else if loopobj = Some x then Some (Done (None, w2))
                     else case Udb_Get_Relaction db getvar class (cstr ''owner'') w2 of
                       Panic \<Rightarrow> Some Panic
                     | Overrun \<Rightarrow> Some Overrun
                     | Done (action, w3) \<Rightarrow>
                         if action = cstr ''Network'' then Some (Done (None, w3))
                         else case Udb_Get_Value db x (cstr ''owner'') DB_TYPE_OBJECT (database w3) of
                           Panic \<Rightarrow> Some Panic
                         | Overrun \<Rightarrow> Some Overrun
                         | Done v \<Rightarrow> Udb_Get_Cell db getvar loopobj get_org (DB_GET_OBJECT v) w3))"

definition Udb_Cell_Of_Cmd ::
  "('s, 'o) dbi \<Rightarrow> tclvar \<Rightarrow> bool \<Rightarrow> cstr list \<Rightarrow> ('s, 'o, 'm) udb_scheme \<Rightarrow> (cstr tcl_result \<times> ('s, 'o, 'm) udb_scheme) c_run option" where
  "Udb_Cell_Of_Cmd db getvar get_org argv w =
     (if length argv \<noteq> 2 then Some (Done (Udb_Error ''EUSAGE'' [hd argv, cstr ''item''], w))
      else if \<not> Uuid_Valid (argv ! 1) then Some (Done (Udb_Error ''ENOTUUID'' [argv ! 1], w))
      else case Udb_Find_Any_Object db (argv ! 1) w of
        Panic \<Rightarrow> Some Panic
      | Overrun \<Rightarrow> Some Overrun
      | Done (None, w) \<Rightarrow> Some (Done (Udb_Error ''ENXITEM'' [argv ! 1], w))
      | Done (Some x, w) \<Rightarrow>
          (case Udb_Is_Data_Class db (db_get_class db x (database w)) w of
             Panic \<Rightarrow> Some Panic
           | Overrun \<Rightarrow> Some Overrun
           | Done (False, w) \<Rightarrow> Some (Done (Udb_Error ''ENOATTR'' [argv ! 1, cstr ''owner''], w))
           | Done (True, w) \<Rightarrow>
               (case Udb_Get_Cell db getvar None get_org (Some x) w of
                  None \<Rightarrow> None
                | Some r \<Rightarrow> Some (c_bind r (\<lambda>(cell, w).
                    if cell = Some x then Done (Tcl_Ok (argv ! 1), w)
                    else c_bind (Udb_Get_Uuid db cell (database w)) (\<lambda>u. Done (Tcl_Ok u, w)))))))"

definition Udb_Get_Root :: "('s, 'o) dbi \<Rightarrow> 'o \<Rightarrow> ('s, 'o, 'm) udb_scheme \<Rightarrow> ('o option \<times> ('s, 'o, 'm) udb_scheme) c_run" where
  "Udb_Get_Root db class w =
     (case rootCache w class of
        Some r \<Rightarrow> Done (r, w)
      | None \<Rightarrow> c_bind (Udb_Get_Value db class (cstr ''root_object'') DB_TYPE_OBJECT (database w)) (\<lambda>v.
          Done (DB_GET_OBJECT v, w\<lparr>rootCache := (rootCache w)(class \<mapsto> DB_GET_OBJECT v)\<rparr>)))"

definition Udb_Get_RootCmd :: "('s, 'o) dbi \<Rightarrow> cstr list \<Rightarrow> ('s, 'o, 'm) udb_scheme \<Rightarrow> (cstr tcl_result \<times> ('s, 'o, 'm) udb_scheme) c_run" where
  "Udb_Get_RootCmd db argv w =
     (if length argv \<noteq> 2 then Done (Udb_Error ''EUSAGE'' [hd argv, cstr ''class''], w)
      else case Udb_Get_Class_opt db (argv ! 1) w of
        (None, w) \<Rightarrow> Done (Udb_Error ''ENXCLASS'' [argv ! 1], w)
      | (Some class, w) \<Rightarrow> c_bind (Udb_Get_Root db class w) (\<lambda>(root, w).
          case root of
            None \<Rightarrow> Done (Tcl_Ok [], w)
          | Some x \<Rightarrow> c_bind (Udb_Get_Uuid db (Some x) (database w)) (\<lambda>u. Done (Tcl_Ok u, w))))"

definition Udb_Set_Root :: "('s, 'o) dbi \<Rightarrow> 'o \<Rightarrow> 'o \<Rightarrow> ('s, 'o, 'm) udb_scheme \<Rightarrow> ('s, 'o, 'm) udb_scheme c_run" where
  "Udb_Set_Root db class root_object w =
     c_bind (Udb_Is_Item_Class db (db_get_class db root_object (database w)) w) (\<lambda>(item, w).
     c_bind (if item then Protect_Object db root_object w else Done w) (\<lambda>w.
     c_bind (put_checked db class (cstr ''root_object'') (DB_OBJECT root_object) w) (\<lambda>w.
     c_bind (Udb_Finish_Object db None None False w) (\<lambda>(r, w).
       Done (w\<lparr>rootCache := (rootCache w)(class \<mapsto> Some root_object), rootCacheDirty := True\<rparr>)))))"

definition Udb_Set_RootCmd :: "('s, 'o) dbi \<Rightarrow> cstr list \<Rightarrow> ('s, 'o, 'm) udb_scheme \<Rightarrow> (cstr tcl_result \<times> ('s, 'o, 'm) udb_scheme) c_run" where
  "Udb_Set_RootCmd db argv w =
     (if length argv \<noteq> 3 then Done (Udb_Error ''EUSAGE'' [hd argv, cstr ''class uuid''], w)
      else case Udb_Get_Class_opt db (argv ! 1) w of
        (None, w) \<Rightarrow> Done (Udb_Error ''ENXCLASS'' [argv ! 1], w)
      | (Some class, w) \<Rightarrow> c_bind (Udb_Get_Root db class w) (\<lambda>(root, w).
          if root \<noteq> None then Done (Udb_Error ''EROOTSET'' [argv ! 1], w)
          else if \<not> Uuid_Valid (argv ! 2) then Done (Udb_Error ''ENOTUUID'' [argv ! 2], w)
          else c_bind (Udb_Find_Object db (argv ! 2) w) (\<lambda>(x, w).
            case x of
              None \<Rightarrow> Done (Udb_Error ''ENXITEM'' [argv ! 2], w)
            | Some x \<Rightarrow> c_bind (Udb_Set_Root db class x w) (\<lambda>w. Done (Tcl_Ok [], w)))))"

definition Udb_Get_Promoted_Owner ::
  "('s, 'o) dbi \<Rightarrow> tclvar \<Rightarrow> 'o \<Rightarrow> cstr \<Rightarrow> ('s, 'o, 'm) udb_scheme \<Rightarrow> ('o option \<times> ('s, 'o, 'm) udb_scheme) c_run option" where
  "Udb_Get_Promoted_Owner db getvar owner promotion_type w =
     (if promotion_type = cstr ''Global'' then Some (c_bind (CELL_CLASS db w) (\<lambda>(c, w). Udb_Get_Root db c w))
      else if promotion_type = cstr ''Org'' then Udb_Get_Cell db getvar None True (Some owner) w
      else if promotion_type = cstr ''Cell'' then Udb_Get_Cell db getvar None False (Some owner) w
      else if promotion_type = cstr ''Local'' then Some (Done (Some owner, w))
      else if promotion_type = cstr ''None'' then Some (Done (None, w))
      else Some Panic)"

subsection \<open>The principal\<close>

definition Udb_Current_Principal :: "('s, 'o, 'm) udb_scheme \<Rightarrow> 'o option" where
  "Udb_Current_Principal w = current_principal w"

definition Udb_Server_Principal :: "('s, 'o, 'm) udb_scheme \<Rightarrow> ('s, 'o, 'm) udb_scheme" where
  "Udb_Server_Principal w = w\<lparr>current_principal := None\<rparr>"

definition Udb_PrincipalCmd :: "('s, 'o) dbi \<Rightarrow> cstr list \<Rightarrow> ('s, 'o, 'm) udb_scheme \<Rightarrow> (cstr tcl_result \<times> ('s, 'o, 'm) udb_scheme) c_run" where
  "Udb_PrincipalCmd db argv w =
     (if length argv < 1 \<or> length argv > 2 then Done (Udb_Error ''EUSAGE'' [hd argv, cstr ''?principal?''], w)
      else if length argv = 1
      then (case current_principal w of
              None \<Rightarrow> Done (Tcl_Ok [], w)
            | Some x \<Rightarrow> c_bind (Udb_Get_Uuid db (Some x) (database w)) (\<lambda>u. Done (Tcl_Ok u, w)))
      else if argv ! 1 = [] then Done (Tcl_Ok [], Udb_Server_Principal w)
      else if \<not> Uuid_Valid (argv ! 1) then Done (Udb_Error ''ENOTUUID'' [argv ! 1], w)
      else c_bind (Udb_Find_Object db (argv ! 1) w) (\<lambda>(x, w).
        case x of
          None \<Rightarrow> Done (Udb_Error ''ENXITEM'' [argv ! 1], w)
        | Some x \<Rightarrow> Done (Tcl_Ok [], w\<lparr>current_principal := Some x\<rparr>)))"

end
