(* ===== verification/LookupProps.thy ===== *)
theory LookupProps
  imports Lookup
begin

text \<open>
  What the class cache and the free lists guarantee, under the laws of the database: the class
  found is the one of the database, an object taken from a free list is no longer on it, and an object
  given back is.
\<close>

section \<open>The class cache\<close>

definition class_cache_ok :: "('s \<Rightarrow> 'o store) \<Rightarrow> ('s, 'o, 'm) udb_scheme \<Rightarrow> bool" where
  "class_cache_ok view w \<longleftrightarrow> (\<forall>n c. classCache w n = Some c \<longrightarrow> cnam (view (database w)) n = Some c)"

text \<open>The state in which objects are written outside a restore.\<close>

definition env_ok :: "('s \<Rightarrow> 'o store) \<Rightarrow> ('s, 'o, 'm) udb_scheme \<Rightarrow> bool" where
  "env_ok view w \<longleftrightarrow> class_cache_ok view w \<and> restore_mode w = NORESTORE"

lemma env_ok_database [simp]:
  "cnam (view s) = cnam (view (database w)) \<Longrightarrow> env_ok view (w\<lparr>database := s\<rparr>) \<longleftrightarrow> env_ok view w"
  "env_ok view (w\<lparr>tx_db_updated := b\<rparr>) \<longleftrightarrow> env_ok view w" "env_ok view (w\<lparr>syscall_db_updated := b\<rparr>) \<longleftrightarrow> env_ok view w"
  by (simp_all add: env_ok_def class_cache_ok_def)

lemma Udb_Get_Class_runs:
  assumes "dbi_ok db view schema unique" "env_ok view w" "cnam (view (database w)) n = Some c"
    and "\<And>w'. env_ok view w' \<Longrightarrow> database w' = database w \<Longrightarrow> Q (c, w')"
  shows "runs (Udb_Get_Class db n w) Q"
proof (cases "classCache w n")
  case None
  have "env_ok view (w\<lparr>classCache := (classCache w)(n \<mapsto> c)\<rparr>)" using assms(2,3) by (simp add: env_ok_def class_cache_ok_def)
  then show ?thesis
    using None assms(3,4) by (simp add: Udb_Get_Class_def Udb_Get_Class_opt_def dbi_reads(1) [OF assms(1)])
next
  case (Some d)
  then have "d = c" using assms(2,3) by (simp add: env_ok_def class_cache_ok_def)
  then show ?thesis using Some assms(2,4) by (simp add: Udb_Get_Class_def Udb_Get_Class_opt_def)
qed

section \<open>Free lists\<close>

abbreviation nextfree :: cstr where "nextfree \<equiv> cstr ''nextfree''"

fun free_path :: "'o store \<Rightarrow> 'o \<Rightarrow> 'o option \<Rightarrow> 'o list \<Rightarrow> bool" where
  "free_path st c p [] \<longleftrightarrow> p = None"
| "free_path st c p (x # xs) \<longleftrightarrow>
     p = Some x \<and> cls st x = Some c \<and> x \<notin> set xs \<and> (\<exists>q. att st x nextfree = Some (DB_MAKE_OBJECT q) \<and> free_path st c q xs)"

definition free_list :: "'o store \<Rightarrow> 'o \<Rightarrow> 'o list \<Rightarrow> bool" where
  "free_list st c xs \<longleftrightarrow> (\<exists>p. att st c nextfree = Some (DB_MAKE_OBJECT p) \<and> free_path st c p xs)"

lemma free_path_class: "free_path st c p xs \<Longrightarrow> x \<in> set xs \<Longrightarrow> cls st x = Some c"
  by (induction xs arbitrary: p) auto

lemma free_path_cong:
  assumes "free_path st c p xs" "\<And>x. x \<in> set xs \<Longrightarrow> cls st' x = cls st x" "\<And>x. x \<in> set xs \<Longrightarrow> att st' x nextfree = att st x nextfree"
  shows "free_path st' c p xs"
  using assms by (induction xs arbitrary: p) auto

lemma free_list_class: "free_list st c xs \<Longrightarrow> x \<in> set xs \<Longrightarrow> cls st x = Some c"
  by (auto simp: free_list_def free_path_class)

lemma free_list_cong:
  assumes "free_list st c xs" "att st' c nextfree = att st c nextfree"
    and "\<And>x. x \<in> set xs \<Longrightarrow> cls st' x = cls st x" "\<And>x. x \<in> set xs \<Longrightarrow> att st' x nextfree = att st x nextfree"
  shows "free_list st' c xs"
  using assms free_path_cong [of st c _ xs st'] by (auto simp: free_list_def)

text \<open>Class objects have a class of their own with a \<open>nextfree\<close> attribute that is not unique.\<close>

definition class_object :: "('o \<Rightarrow> cstr \<Rightarrow> bool) \<Rightarrow> 'o store \<Rightarrow> 'o \<Rightarrow> bool" where
  "class_object unique st c \<longleftrightarrow> (\<exists>m. cls st c = Some m \<and> m \<noteq> c \<and> \<not> unique m nextfree)"

lemma no_clash_None: "no_clash unique st c None ps \<Longrightarrow> no_clash unique st c x ps"
  by (fastforce simp: no_clash_def)

lemma no_clash_cong:
  assumes "no_clash unique st c x ps" "cls st' = cls st" "\<And>y a. a \<in> fst ` set ps \<Longrightarrow> att st' y a = att st y a"
  shows "no_clash unique st' c x ps"
  unfolding no_clash_def
proof (rule ballI, clarify)
  fix a v y assume "(a, v) \<in> set ps" "unique c a" "v \<noteq> DB_NULL" "cls st' y = Some c" "Some y \<noteq> x" "att st' y a = Some v"
  moreover from this have "att st' y a = att st y a" by (intro assms(3)) force
  ultimately show False using assms(1,2) by (auto simp: no_clash_def)
qed

lemma foldl_dbt_put: "foldl (\<lambda>t (a, v). dbt_put t a v) (OTMPL b qs) ps = OTMPL b (qs @ ps)"
  by (induction ps arbitrary: qs) auto

text \<open>Taking the first object of the free list, or making a new one.\<close>

definition taken :: "'o store \<Rightarrow> 'o \<Rightarrow> 'o list \<Rightarrow> 'o otmpl \<Rightarrow> 'o store \<Rightarrow> bool" where
  "taken st c xs t st' \<longleftrightarrow>
     (case xs of
        [] \<Rightarrow> t = dbt_create_object c \<and> st' = st \<and> free_list st c []
      | x # ys \<Rightarrow> t = dbt_edit_object x \<and> cls st x = Some c \<and> x \<noteq> c \<and> x \<notin> set ys \<and> (\<exists>v. st' = set_att c nextfree v st) \<and> free_list st' c ys)"

lemma Udb_Edit_Free_Object_runs:
  assumes ok: "dbi_ok db view schema unique" and e: "env_ok view w" and fl: "free_list (view (database w)) c xs"
    and co: "class_object unique (view (database w)) c"
    and Q: "\<And>t w'. env_ok view w' \<Longrightarrow> taken (view (database w)) c xs t (view (database w')) \<Longrightarrow> Q (t, w')"
  shows "runs (Udb_Edit_Free_Object db c w) Q"
proof -
  define st where "st = view (database w)"
  obtain m where m: "cls st c = Some m" "m \<noteq> c" "\<not> unique m nextfree" using co by (auto simp: class_object_def st_def)
  obtain p where p: "att st c nextfree = Some (DB_MAKE_OBJECT p)" "free_path st c p xs" using fl by (auto simp: free_list_def st_def)
  have v: "Udb_Get_Value db c nextfree DB_TYPE_OBJECT (database w) = Done (DB_MAKE_OBJECT p)"
    using Udb_Get_Value_runs [OF ok, of "database w" c m nextfree "DB_MAKE_OBJECT p" DB_TYPE_OBJECT] m(1) p(1)
    by (cases p) (simp_all add: st_def)
  have rm: "restore_mode w = NORESTORE" using e by (simp add: env_ok_def)
  show ?thesis
  proof (cases xs)
    case Nil
    then have "p = None" using p(2) by simp
    then show ?thesis using Nil v rm Q [OF e, of "dbt_create_object c"] fl by (simp add: Udb_Edit_Free_Object_def taken_def)
  next
    case (Cons x ys)
    then obtain q where x: "p = Some x" "cls st x = Some c" "x \<notin> set ys" "att st x nextfree = Some (DB_MAKE_OBJECT q)" "free_path st c q ys"
      using p(2) by auto
    have xc: "x \<noteq> c" "c \<notin> set ys" using x(2) m free_path_class [OF x(5), of c] by auto
    have v2: "Udb_Get_Value db x nextfree DB_TYPE_OBJECT (database w) = Done (DB_MAKE_OBJECT q)"
      using Udb_Get_Value_runs [OF ok, of "database w" x c nextfree "DB_MAKE_OBJECT q" DB_TYPE_OBJECT] x(2,4)
      by (cases q) (simp_all add: st_def)
    have "runs (put_checked db c nextfree (DB_MAKE_OBJECT q) w) (\<lambda>w. Q (dbt_edit_object x, w))"
    proof (rule put_checked_runs [OF ok, of w c m nextfree])
      fix s1 assume s1: "view s1 = set_att c nextfree (DB_MAKE_OBJECT q) (view (database w))"
      have "free_path (view s1) c q ys" by (rule free_path_cong [OF x(5)]) (use xc in \<open>auto simp: s1 st_def\<close>)
      then have "taken st c xs (dbt_edit_object x) (view s1)" using Cons x xc s1 by (auto simp: taken_def free_list_def st_def)
      then show "Q (dbt_edit_object x, w\<lparr>database := s1\<rparr>)" using Q e s1 by (simp add: st_def)
    qed (use m p(1) in \<open>simp_all add: st_def\<close>)
    then show ?thesis using v v2 rm x(1) by (simp add: Udb_Edit_Free_Object_def)
  qed
qed

text \<open>Writing it with values.\<close>

definition written :: "'o store \<Rightarrow> 'o \<Rightarrow> 'o otmpl \<Rightarrow> (cstr \<times> 'o db_value) list \<Rightarrow> 'o \<Rightarrow> 'o store \<Rightarrow> bool" where
  "written st c t ps x st' \<longleftrightarrow>
     (t = dbt_edit_object x \<and> cls st x = Some c \<or> t = dbt_create_object c \<and> x \<notin> dom (cls st)) \<and>
     cnam st' = cnam st \<and> cls st' = (cls st)(x \<mapsto> c) \<and> (\<forall>y. y \<noteq> x \<longrightarrow> att st' y = att st y) \<and>
     (\<forall>a v. map_of (rev ps) a = Some v \<longrightarrow> att st' x a = Some v)"

lemma Udb_Finish_Object_runs:
  assumes ok: "dbi_ok db view schema unique" and e: "env_ok view w" and ps: "fst ` set ps \<subseteq> schema c"
    and nc: "no_clash unique (view (database w)) c None ps"
    and t: "t = dbt_create_object c \<and> c \<in> dom (cls (view (database w))) \<or> (\<exists>x. t = dbt_edit_object x \<and> cls (view (database w)) x = Some c)"
    and Q: "\<And>x w'. env_ok view w' \<Longrightarrow> tx_db_updated w' \<Longrightarrow> written (view (database w)) c t ps x (view (database w')) \<Longrightarrow> Q (Some x, w')"
  shows "runs (Udb_Finish_Object db None (Some (foldl (\<lambda>t (a, v). dbt_put t a v) t ps)) False w) Q"
  using t
proof (elim disjE conjE exE)
  assume t: "t = dbt_create_object c" "c \<in> dom (cls (view (database w)))"
  obtain x s' D where s': "dbt_finish_object db (OTMPL (Inl c) ps) (database w) = Some (x, s')" "x \<notin> dom (cls (view (database w)))"
      "view s' = put_all x ps (new_obj x c D (view (database w)))"
    using finish_create [OF ok t(2) ps nc] by auto
  then have "written (view (database w)) c t ps x (view s')" using t(1) by (auto simp: written_def map_add_Some_iff)
  then show ?thesis using t(1) s'(1,3) Q [of "w\<lparr>tx_db_updated := True, syscall_db_updated := True, database := s'\<rparr>" x] e
    by (simp add: Udb_Finish_Object_def foldl_dbt_put)
next
  fix x assume t: "t = dbt_edit_object x" and x: "cls (view (database w)) x = Some c"
  obtain s' where s': "dbt_finish_object db (OTMPL (Inr x) ps) (database w) = Some (x, s')" "view s' = put_all x ps (view (database w))"
    using finish_edit [OF ok x _ no_clash_None [OF nc]] dbi_reads(3) [OF ok x] ps by auto
  then have "written (view (database w)) c t ps x (view s')" using t x by (auto simp: written_def map_add_Some_iff fun_upd_idem)
  then show ?thesis using t s' Q [of "w\<lparr>tx_db_updated := True, syscall_db_updated := True, database := s'\<rparr>" x] e
    by (simp add: Udb_Finish_Object_def foldl_dbt_put)
qed

lemma free_list_written:
  assumes "free_list st c xs" "written st d t ps x st'" "x \<notin> set xs" "x \<noteq> c"
  shows "free_list st' c xs"
  by (rule free_list_cong [OF assms(1)]) (use assms(2-4) in \<open>auto simp: written_def\<close>)

text \<open>Both steps together.\<close>

definition allocated :: "'o store \<Rightarrow> 'o \<Rightarrow> 'o list \<Rightarrow> (cstr \<times> 'o db_value) list \<Rightarrow> 'o \<Rightarrow> 'o store \<Rightarrow> bool" where
  "allocated st c xs ps x st' \<longleftrightarrow>
     (x \<in> set xs \<or> x \<notin> dom (cls st)) \<and> x \<noteq> c \<and> cnam st' = cnam st \<and> cls st' = (cls st)(x \<mapsto> c) \<and>
     (\<forall>y. y \<noteq> x \<and> y \<noteq> c \<longrightarrow> att st' y = att st y) \<and> (\<forall>a. a \<noteq> nextfree \<longrightarrow> att st' c a = att st c a) \<and>
     (\<forall>a v. map_of (rev ps) a = Some v \<longrightarrow> att st' x a = Some v) \<and>
     (\<exists>ys. free_list st' c ys \<and> set ys \<subseteq> set xs - {x})"

lemma taken_written:
  assumes "taken st c xs t st1" "written st1 c t ps x st'" "c \<in> dom (cls st)"
  shows "allocated st c xs ps x st'"
proof (cases xs)
  case Nil
  then have x: "x \<notin> dom (cls st)" "st1 = st" "free_list st c []" using assms(1,2) by (auto simp: taken_def written_def)
  then have "x \<noteq> c" using assms(3) by auto
  then show ?thesis using Nil x assms free_list_written [of st c "[]" c t ps x st'] unfolding allocated_def by (auto simp: written_def)
next
  case (Cons y ys)
  then have x: "x = y" "x \<notin> set ys" "x \<noteq> c" "free_list st1 c ys" using assms(1,2) by (auto simp: taken_def written_def)
  have "free_list st' c ys" by (rule free_list_written [OF x(4) assms(2) x(2,3)])
  then show ?thesis using Cons x(1-3) assms(1,2) unfolding allocated_def by (auto simp: taken_def written_def)
qed

lemma taken_frame:
  assumes "taken st c xs t st'"
  shows "cnam st' = cnam st" "cls st' = cls st" "y \<noteq> c \<Longrightarrow> att st' y = att st y" "a \<noteq> nextfree \<Longrightarrow> att st' c a = att st c a"
  using assms by (auto simp: taken_def split: list.split_asm)

lemma allocate_runs:
  fixes w :: "('s, 'o, 'm) udb_scheme"
  assumes ok: "dbi_ok db view schema unique" and e: "env_ok view w" and fl: "free_list (view (database w)) c xs"
    and co: "class_object unique (view (database w)) c" and ps: "fst ` set ps \<subseteq> schema c" "nextfree \<notin> fst ` set ps"
    and nc: "no_clash unique (view (database w)) c None ps"
    and Q: "\<And>x w'. env_ok view w' \<Longrightarrow> tx_db_updated w' \<Longrightarrow> allocated (view (database w)) c xs ps x (view (database w')) \<Longrightarrow> Q (Some x, w')"
  shows "runs (Udb_Edit_Free_Object db c w)
    (\<lambda>(t, w). runs (Udb_Finish_Object db None (Some (foldl (\<lambda>t (a, v). dbt_put t a v) t ps)) False w) Q)"
proof (rule Udb_Edit_Free_Object_runs [OF ok e fl co], unfold prod.case)
  fix t and w1 :: "('s, 'o, 'm) udb_scheme"
  assume e1: "env_ok view w1" and T: "taken (view (database w)) c xs t (view (database w1))"
  have c: "c \<in> dom (cls (view (database w)))" using co by (auto simp: class_object_def)
  show "runs (Udb_Finish_Object db None (Some (foldl (\<lambda>t (a, v). dbt_put t a v) t ps)) False w1) Q"
  proof (rule Udb_Finish_Object_runs [OF ok e1 ps(1)])
    show "no_clash unique (view (database w1)) c None ps"
      by (rule no_clash_cong [OF nc]) (use ps(2) T in \<open>auto simp: taken_def rev_image_eqI split: list.split_asm\<close>)
    show "t = dbt_create_object c \<and> c \<in> dom (cls (view (database w1))) \<or> (\<exists>x. t = dbt_edit_object x \<and> cls (view (database w1)) x = Some c)"
      using T c by (auto simp: taken_def split: list.split_asm)
  qed (use Q taken_written [OF T _ c] in blast)
qed

text \<open>Giving an object back.\<close>

definition freed :: "'o store \<Rightarrow> 'o \<Rightarrow> 'o list \<Rightarrow> cstr option \<Rightarrow> 'o \<Rightarrow> 'o store \<Rightarrow> bool" where
  "freed st c xs key x st' \<longleftrightarrow>
     cnam st' = cnam st \<and> cls st' = cls st \<and> (\<forall>y. y \<noteq> x \<and> y \<noteq> c \<longrightarrow> att st' y = att st y) \<and>
     (\<forall>a. a \<noteq> nextfree \<longrightarrow> att st' c a = att st c a) \<and>
     (\<forall>a. a \<noteq> nextfree \<and> Some a \<noteq> key \<longrightarrow> att st' x a = att st x a) \<and>
     (\<forall>k. key = Some k \<longrightarrow> att st' x k = Some DB_NULL) \<and> free_list st' c (x # xs)"

lemma free_runs:
  assumes ok: "dbi_ok db view schema unique" and e: "env_ok view w" and fl: "free_list (view (database w)) c xs"
    and co: "class_object unique (view (database w)) c" and x: "cls (view (database w)) x = Some c" "x \<notin> set xs"
    and at: "nextfree \<in> schema c" "\<not> unique c nextfree" "set_option key \<subseteq> schema c" "key \<noteq> Some nextfree"
    and Q: "\<And>w'. env_ok view w' \<Longrightarrow> tx_db_updated w' \<Longrightarrow> freed (view (database w)) c xs key x (view (database w')) \<Longrightarrow> Q w'"
  shows "runs (Udb_Append_Free_List db c (dbt_edit_object x) key w) Q"
proof -
  define st where "st = view (database w)"
  obtain m where m: "cls st c = Some m" "m \<noteq> c" "\<not> unique m nextfree" using co by (auto simp: class_object_def st_def)
  obtain p where p: "att st c nextfree = Some (DB_MAKE_OBJECT p)" "free_path st c p xs" using fl by (auto simp: free_list_def st_def)
  have v: "Udb_Get_Value db c nextfree DB_TYPE_OBJECT (database w) = Done (DB_MAKE_OBJECT p)"
    using Udb_Get_Value_runs [OF ok, of "database w" c m nextfree "DB_MAKE_OBJECT p" DB_TYPE_OBJECT] m(1) p(1)
    by (cases p) (simp_all add: st_def)
  have xc: "x \<noteq> c" "c \<notin> set xs" using x m free_path_class [OF p(2), of c] by (auto simp: st_def)
  define ps where "ps = (case key of None \<Rightarrow> [] | Some k \<Rightarrow> [(k, DB_NULL)]) @ [(nextfree, DB_MAKE_OBJECT p)]"
  have sub: "fst ` set ps \<subseteq> dom (att st x)"
    using dbi_reads(3) [OF ok x(1)] at(1,3) by (auto simp: ps_def st_def split: option.split_asm)
  have nc: "no_clash unique st c (Some x) ps" using at(2) by (auto simp: no_clash_def ps_def split: option.split_asm)
  obtain s1 where s1: "dbt_finish_object db (OTMPL (Inr x) ps) (database w) = Some (x, s1)" "view s1 = put_all x ps st"
    using finish_edit [OF ok x(1), of ps] sub nc by (auto simp: st_def)
  have step: "runs (put_checked db c nextfree (DB_OBJECT x) (w\<lparr>tx_db_updated := True, syscall_db_updated := True, database := s1\<rparr>)) Q"
  proof (rule put_checked_runs [OF ok, of _ c m nextfree])
    fix s2 assume "view s2 = set_att c nextfree (DB_OBJECT x) (view (database (w\<lparr>tx_db_updated := True, syscall_db_updated := True, database := s1\<rparr>)))"
    then have s2: "view s2 = set_att c nextfree (DB_OBJECT x) (put_all x ps st)" using s1(2) by simp
    have "free_path (view s2) c p xs"
      by (rule free_path_cong [OF p(2)]) (use x(2) xc in \<open>auto simp: s2\<close>)
    moreover have "att (view s2) x nextfree = Some (DB_MAKE_OBJECT p)" using xc by (simp add: s2 ps_def)
    ultimately have "free_list (view s2) c (x # xs)"
      using x xc by (auto simp: free_list_def s2 st_def intro!: exI [of _ "Some x"])
    then have "freed st c xs key x (view s2)"
      using xc at(4) unfolding freed_def by (auto simp: s2 ps_def map_add_def split: option.split)
    then show "Q (w\<lparr>tx_db_updated := True, syscall_db_updated := True, database := s1, database := s2\<rparr>)"
      using Q e s1(2) s2 by (simp add: st_def)
  qed (use m p(1) xc in \<open>simp_all add: s1(2) st_def\<close>)
  have "dbt_put (case key of None \<Rightarrow> dbt_edit_object x | Some k \<Rightarrow> dbt_put (dbt_edit_object x) k DB_NULL) nextfree (DB_MAKE_OBJECT p) = OTMPL (Inr x) ps"
    by (simp add: ps_def split: option.split)
  then show ?thesis using v s1(1) step by (simp add: Udb_Append_Free_List_def Udb_Finish_Object_def)
qed

end
