(* ===== verification/Range.thy ===== *)
theory Range
  imports LookupProps License
begin

text \<open>
  Number ranges: \<^verbatim>\<open>libudb/range.c\<close>.  For each owner and attribute a range object holds the sequence of
  blocks of used numbers, and a slot per used number holds the set of items that use it.

  In the half-interval searches \<open>last\<close> is \<open>first + d\<close>: both searches start after
  \<open>assert(last >= first)\<close>.  \<open>elem\<close> is \<open>Tcl_DStringAppendElement\<close>.
\<close>

section \<open>Model\<close>

abbreviation range_start :: cstr where "range_start \<equiv> cstr ''range_start''"
abbreviation range_end :: cstr where "range_end \<equiv> cstr ''range_end''"
abbreviation range_owner :: cstr where "range_owner \<equiv> cstr ''range_owner''"
abbreviation range_blocks :: cstr where "range_blocks \<equiv> cstr ''range_blocks''"
abbreviation range_key :: cstr where "range_key \<equiv> cstr ''range_key''"
abbreviation range_items :: cstr where "range_items \<equiv> cstr ''range_items''"
abbreviation range_block_class :: cstr where "range_block_class \<equiv> cstr ''unameit_range_block''"

definition used_class :: "cstr \<Rightarrow> cstr" where
  "used_class aname = cstr ''range/'' @ aname @ cstr ''/used''"

definition slot_class :: "cstr \<Rightarrow> cstr" where
  "slot_class aname = cstr ''range/'' @ aname @ cstr ''/slot''"

definition New_Block ::
  "('s, 'o) dbi \<Rightarrow> 'o db_collection \<Rightarrow> nat \<Rightarrow> int \<Rightarrow> int \<Rightarrow> ('s, 'o, 'm) udb_scheme \<Rightarrow> ('o db_collection \<times> ('s, 'o, 'm) udb_scheme) c_run" where
  "New_Block db col index start stop w =
     (if \<not> index \<le> db_col_size db col (database w) then Panic
      else
        c_bind (Udb_Get_Class db range_block_class w) (\<lambda>(block_class, w).
        c_bind (Udb_Edit_Free_Object db block_class w) (\<lambda>(t, w).
        c_bind (Udb_Finish_Object db None (Some (dbt_put (dbt_put t range_start (DB_INTEGER start)) range_end (DB_INTEGER stop))) False w) (\<lambda>(block, w).
        c_bind (check_some block) (\<lambda>block.
        c_bind (check_some (db_col_insert db col index (DB_OBJECT block) (database w))) (\<lambda>(col, s). Done (col, w\<lparr>database := s\<rparr>)))))))"

definition get_int :: "('s, 'o) dbi \<Rightarrow> 'o \<Rightarrow> cstr \<Rightarrow> 's \<Rightarrow> int c_run" where
  "get_int db x a s =
     c_bind (Udb_Get_Value db x a DB_TYPE_INTEGER s) (\<lambda>v. if v = DB_NULL then Panic else Done (DB_GET_INTEGER v))"

definition Get_Bounds :: "('s, 'o) dbi \<Rightarrow> 'o db_collection \<Rightarrow> nat \<Rightarrow> 's \<Rightarrow> ('o \<times> int \<times> int) c_run" where
  "Get_Bounds db col index s =
     c_bind (Udb_Get_Collection_Value db col index DB_TYPE_OBJECT s) (\<lambda>v.
     c_bind (check_some (DB_GET_OBJECT v)) (\<lambda>block.
     c_bind (get_int db block range_start s) (\<lambda>start.
     c_bind (get_int db block range_end s) (\<lambda>stop. Done (block, start, stop)))))"

text \<open>Dropping a block from the sequence and giving it back.\<close>

definition drop_block ::
  "('s, 'o) dbi \<Rightarrow> 'o \<Rightarrow> 'o db_collection \<Rightarrow> nat \<Rightarrow> 'o \<Rightarrow> ('s, 'o, 'm) udb_scheme \<Rightarrow> ('o db_collection \<times> ('s, 'o, 'm) udb_scheme) c_run" where
  "drop_block db block_class col index block w =
     c_bind (check_some (db_col_drop_element db col index (database w))) (\<lambda>(col, s).
     c_bind (Udb_Append_Free_List db block_class (dbt_edit_object block) None (w\<lparr>database := s\<rparr>)) (\<lambda>w. Done (col, w)))"

function add_loop ::
  "('s, 'o) dbi \<Rightarrow> 'o \<Rightarrow> 'o db_collection \<Rightarrow> int \<Rightarrow> nat \<Rightarrow> 'o \<Rightarrow> int \<Rightarrow> int \<Rightarrow> nat \<Rightarrow> 'o \<Rightarrow> int \<Rightarrow> int \<Rightarrow>
     ('s, 'o, 'm) udb_scheme \<Rightarrow> ('s, 'o, 'm) udb_scheme c_run" where
  "add_loop db block_class col ival first first_block start left d last_block right stop w =
     (if \<not> (ival < right \<and> ival > left) then Panic
      else if ival = int32 (right - 1)
      then c_bind (if d \<noteq> 1 then Get_Bounds db col (first + d - 1) (database w) else Done (first_block, start, left))
             (\<lambda>(first_block, start, left).
                if ival > int32 (left + 1) then put_checked db last_block range_start (DB_INTEGER ival) w
                else c_bind (drop_block db block_class col (first + d - 1) first_block w) (\<lambda>(col, w).
                  put_checked db last_block range_start (DB_INTEGER start) w))
      else if ival = int32 (left + 1)
      then c_bind (if d \<noteq> 1 then Get_Bounds db col (first + 1) (database w) else Done (last_block, right, stop))
             (\<lambda>(last_block, right, stop).
                if ival < int32 (right - 1) then put_checked db first_block range_end (DB_INTEGER ival) w
                else c_bind (drop_block db block_class col (first + 1) last_block w) (\<lambda>(col, w).
                  put_checked db first_block range_end (DB_INTEGER stop) w))
      else if d div 2 = 0
      then c_bind (New_Block db col (first + d) ival ival w) (\<lambda>(col, w). Done w)
      else c_bind (Get_Bounds db col (first + d div 2) (database w)) (\<lambda>(mid_block, mid_start, mid_end).
             if ival < mid_start
             then add_loop db block_class col ival first first_block start left (d div 2) mid_block mid_start stop w
             else if ival > mid_end
             then add_loop db block_class col ival (first + d div 2) mid_block start mid_end (d - d div 2) last_block right stop w
             else Panic))"
  by pat_completeness auto
termination
  by (relation "measure (\<lambda>(db, block_class, col, ival, first, first_block, start, left, d, last_block, right, stop, w). d)") auto

declare add_loop.simps [simp del]

definition Add_Used :: "('s, 'o) dbi \<Rightarrow> 'o \<Rightarrow> cstr \<Rightarrow> int \<Rightarrow> ('s, 'o, 'm) udb_scheme \<Rightarrow> ('s, 'o, 'm) udb_scheme c_run" where
  "Add_Used db owner aname ival w =
     c_bind (Udb_Get_Class db range_block_class w) (\<lambda>(block_class, w).
     c_bind (Udb_Get_Class db (used_class aname) w) (\<lambda>(range_class, w).
       case db_find_unique db range_class range_owner (DB_OBJECT owner) (database w) of
         None \<Rightarrow>
           c_bind (Udb_Edit_Free_Object db range_class w) (\<lambda>(t, w).
           c_bind (New_Block db (Col_New []) 0 ival ival w) (\<lambda>(col, w).
           c_bind (Udb_Finish_Object db None
                     (Some (dbt_put (dbt_put t range_owner (DB_OBJECT owner)) range_blocks (DB_SEQUENCE col))) False w) (\<lambda>(rng, w).
           c_bind (check_some rng) (\<lambda>_. Done w))))
       | Some rng \<Rightarrow>
           c_bind (Udb_Get_Value db rng range_blocks DB_TYPE_SEQUENCE (database w)) (\<lambda>v.
           c_bind (check_some (DB_GET_COLLECTION v)) (\<lambda>col.
           let n = db_col_size db col (database w); last = n - 1
           in if n = 0 then Panic
              else c_bind (Get_Bounds db col last (database w)) (\<lambda>(last_block, right, stop).
                if ival = int32 (stop + 1) then put_checked db last_block range_end (DB_INTEGER ival) w
                else if ival > stop then c_bind (New_Block db col (last + 1) ival ival w) (\<lambda>(col, w). Done w)
                else c_bind (Get_Bounds db col 0 (database w)) (\<lambda>(first_block, start, left).
                  if ival = int32 (start - 1) then put_checked db first_block range_start (DB_INTEGER ival) w
                  else if ival < start then c_bind (New_Block db col 0 ival ival w) (\<lambda>(col, w). Done w)
                  else add_loop db block_class col ival 0 first_block start left last last_block right stop w))))))"

definition slot_key :: "('s, 'o) dbi \<Rightarrow> (cstr \<Rightarrow> cstr \<Rightarrow> cstr) \<Rightarrow> int \<Rightarrow> 'o \<Rightarrow> 's \<Rightarrow> 'o db_value c_run" where
  "slot_key db elem ival owner s =
     c_bind (Udb_Get_Uuid db (Some owner) s) (\<lambda>uuid. Done (DB_STRING (elem (elem [] (fmt_ld ival)) uuid)))"

definition Udb_Add_Range_Entry ::
  "('s, 'o) dbi \<Rightarrow> (cstr \<Rightarrow> cstr \<Rightarrow> cstr) \<Rightarrow> 'o \<Rightarrow> cstr \<Rightarrow> int \<Rightarrow> 'o \<Rightarrow> ('s, 'o, 'm) udb_scheme \<Rightarrow> ('s, 'o, 'm) udb_scheme c_run" where
  "Udb_Add_Range_Entry db elem owner aname ival item w =
     c_bind (Udb_Get_Class db (slot_class aname) w) (\<lambda>(class, w).
     c_bind (slot_key db elem ival owner (database w)) (\<lambda>key.
       case db_find_unique db class range_key key (database w) of
         Some slot \<Rightarrow>
           c_bind (Udb_Get_Value db slot range_items DB_TYPE_SET (database w)) (\<lambda>v.
           c_bind (check_some (DB_GET_COLLECTION v)) (\<lambda>col.
           c_bind (Udb_Add_To_Set db col item (database w)) (\<lambda>(col, s). Done (w\<lparr>database := s\<rparr>))))
       | None \<Rightarrow>
           c_bind (Udb_Edit_Free_Object db class w) (\<lambda>(t, w).
           c_bind (Udb_Add_To_Set db (Col_New []) item (database w)) (\<lambda>(col, s).
           c_bind (Udb_Finish_Object db None (Some (dbt_put (dbt_put t range_key key) range_items (DB_SET col))) False (w\<lparr>database := s\<rparr>)) (\<lambda>(slot, w).
           c_bind (check_some slot) (\<lambda>_. Add_Used db owner aname ival w))))))"

definition Del_From_Range ::
  "('s, 'o) dbi \<Rightarrow> 'o \<Rightarrow> 'o \<Rightarrow> 'o db_collection \<Rightarrow> nat \<Rightarrow> 'o \<Rightarrow> int \<Rightarrow> int \<Rightarrow> int \<Rightarrow> ('s, 'o, 'm) udb_scheme \<Rightarrow> ('s, 'o, 'm) udb_scheme c_run" where
  "Del_From_Range db range_class rng col index block start stop ival w =
     (if \<not> (ival \<ge> start \<and> ival \<le> stop) then Panic
      else if ival = start
      then (if ival = stop
            then c_bind (drop_block db (db_get_class db block (database w)) col index block w) (\<lambda>(col, w).
                   if db_col_size db col (database w) = 0
                   then Udb_Append_Free_List db range_class (dbt_edit_object rng) (Some range_owner) w
                   else Done w)
            else put_checked db block range_start (DB_INTEGER (int32 (start + 1))) w)
      else c_bind (put_checked db block range_end (DB_INTEGER (int32 (ival - 1))) w) (\<lambda>w.
             if ival < stop then c_bind (New_Block db col (index + 1) (int32 (ival + 1)) stop w) (\<lambda>(col, w). Done w)
             else Done w))"

function del_loop ::
  "('s, 'o) dbi \<Rightarrow> 'o \<Rightarrow> 'o \<Rightarrow> 'o db_collection \<Rightarrow> int \<Rightarrow> nat \<Rightarrow> nat \<Rightarrow> ('s, 'o, 'm) udb_scheme \<Rightarrow> ('s, 'o, 'm) udb_scheme c_run" where
  "del_loop db range_class rng col ival first d w =
     (if d div 2 = 0 then Panic
      else c_bind (Get_Bounds db col (first + d div 2) (database w)) (\<lambda>(block, start, stop).
        if ival < start then del_loop db range_class rng col ival first (d div 2) w
        else if ival > stop then del_loop db range_class rng col ival (first + d div 2) (d - d div 2) w
        else Del_From_Range db range_class rng col (first + d div 2) block start stop ival w))"
  by pat_completeness auto
termination
  by (relation "measure (\<lambda>(db, range_class, rng, col, ival, first, d, w). d)") auto

declare del_loop.simps [simp del]

definition Del_Used :: "('s, 'o) dbi \<Rightarrow> 'o \<Rightarrow> cstr \<Rightarrow> int \<Rightarrow> ('s, 'o, 'm) udb_scheme \<Rightarrow> ('s, 'o, 'm) udb_scheme c_run" where
  "Del_Used db owner aname ival w =
     c_bind (Udb_Get_Class db (used_class aname) w) (\<lambda>(range_class, w).
     c_bind (check_some (db_find_unique db range_class range_owner (DB_OBJECT owner) (database w))) (\<lambda>rng.
     c_bind (Udb_Get_Value db rng range_blocks DB_TYPE_SEQUENCE (database w)) (\<lambda>v.
     c_bind (check_some (DB_GET_COLLECTION v)) (\<lambda>col.
     let n = db_col_size db col (database w); last = n - 1
     in if n = 0 then Panic
        else c_bind (Get_Bounds db col last (database w)) (\<lambda>(block, start, stop).
          if ival \<ge> start then Del_From_Range db range_class rng col last block start stop ival w
          else c_bind (Get_Bounds db col 0 (database w)) (\<lambda>(block, start, stop).
            if ival \<le> stop then Del_From_Range db range_class rng col 0 block start stop ival w
            else del_loop db range_class rng col ival 0 last w))))))"

definition Udb_Delete_Range_Entry ::
  "('s, 'o) dbi \<Rightarrow> (cstr \<Rightarrow> cstr \<Rightarrow> cstr) \<Rightarrow> 'o \<Rightarrow> cstr \<Rightarrow> int \<Rightarrow> 'o \<Rightarrow> ('s, 'o, 'm) udb_scheme \<Rightarrow> ('s, 'o, 'm) udb_scheme c_run" where
  "Udb_Delete_Range_Entry db elem owner aname ival item w =
     c_bind (Udb_Get_Class db (slot_class aname) w) (\<lambda>(class, w).
     c_bind (slot_key db elem ival owner (database w)) (\<lambda>key.
     c_bind (check_some (db_find_unique db class range_key key (database w))) (\<lambda>slot.
     c_bind (Udb_Get_Value db slot range_items DB_TYPE_SET (database w)) (\<lambda>v.
     c_bind (check_some (DB_GET_COLLECTION v)) (\<lambda>col.
     c_bind (Udb_Drop_From_Set db col item (database w)) (\<lambda>(n, s).
       if n = 0
       then c_bind (Del_Used db owner aname ival (w\<lparr>database := s\<rparr>)) (Udb_Append_Free_List db class (dbt_edit_object slot) (Some range_key))
       else Done (w\<lparr>database := s\<rparr>)))))))"

fun auto_loop :: "('s, 'o) dbi \<Rightarrow> 'o db_collection \<Rightarrow> nat \<Rightarrow> nat \<Rightarrow> int \<Rightarrow> 's \<Rightarrow> int c_run" where
  "auto_loop db blocks i 0 min_free s = Done min_free"
| "auto_loop db blocks i (Suc n) min_free s =
     c_bind (Get_Bounds db blocks i s) (\<lambda>(block, start, stop).
       if min_free > int32 (stop + 1) then auto_loop db blocks (i + 1) n min_free s
       else if min_free < start then Done min_free
       else auto_loop db blocks (i + 1) n (int32 (stop + 1)) s)"

definition auto_search :: "('s, 'o) dbi \<Rightarrow> cstr \<Rightarrow> int \<Rightarrow> 'o \<Rightarrow> ('s, 'o, 'm) udb_scheme \<Rightarrow> (int \<times> ('s, 'o, 'm) udb_scheme) c_run" where
  "auto_search db aname min_free promoted_owner w =
     c_bind (Udb_Get_Class db (used_class aname) w) (\<lambda>(range_class, w).
       case db_find_unique db range_class range_owner (DB_OBJECT promoted_owner) (database w) of
         None \<Rightarrow> Done (min_free, w)
       | Some rng \<Rightarrow>
           c_bind (Udb_Get_Value db rng range_blocks DB_TYPE_SEQUENCE (database w)) (\<lambda>v.
           c_bind (check_some (DB_GET_COLLECTION v)) (\<lambda>blocks.
           c_bind (auto_loop db blocks 0 (db_col_size db blocks (database w)) min_free (database w)) (\<lambda>r. Done (r, w)))))"

definition Udb_Auto_Integer ::
  "('s, 'o) dbi \<Rightarrow> tclvar \<Rightarrow> (cstr \<Rightarrow> int option) \<Rightarrow> cstr list \<Rightarrow> ('s, 'o, 'm) udb_scheme \<Rightarrow> (cstr tcl_result \<times> ('s, 'o, 'm) udb_scheme) c_run option" where
  "Udb_Auto_Integer db getvar db_value_put argv w =
     (if length argv \<noteq> 5 then Some (Done (Udb_Error ''EUSAGE'' [hd argv, cstr ''uuid owner attribute min''], w))
      else
        let uuid = argv ! 1; owner_uuid = argv ! 2; aname = argv ! 3
        in case Udb_String_To_Int32 db_value_put (argv ! 4) of
             None \<Rightarrow> Some (Done (Tcl_Error [] (cstr ''expected integer but got '' @ [34] @ argv ! 4 @ [34]), w))
           | Some min_free \<Rightarrow>
               if \<not> Uuid_Valid uuid then Some (Done (Udb_Error ''ENOTUUID'' [uuid], w))
               else if \<not> Uuid_Valid owner_uuid then Some (Done (Udb_Error ''ENOTUUID'' [owner_uuid], w))
               else (case Udb_Find_Object db owner_uuid w of
                       Panic \<Rightarrow> Some Panic
                     | Overrun \<Rightarrow> Some Overrun
                     | Done (None, w) \<Rightarrow> Some (Done (Udb_Error ''ENXITEM'' [owner_uuid], w))
                     | Done (Some owner, w) \<Rightarrow>
                         (case getvar ''UNAMEIT_AUTO_LEVEL'' aname of
                            None \<Rightarrow> Some (Done (Udb_Error ''ENOTAUTOINT'' [uuid, aname], w))
                          | Some level \<Rightarrow>
                              (case Udb_Get_Promoted_Owner db getvar owner level w of
                                 None \<Rightarrow> None
                               | Some r \<Rightarrow> Some (c_bind r (\<lambda>(promoted, w).
                                   c_bind (check_some promoted) (\<lambda>promoted_owner.
                                   c_bind (auto_search db aname min_free promoted_owner w) (\<lambda>(min_free, w).
                                     Done (Tcl_Ok (fmt_ld min_free), w)))))))))"

end
