(* ===== verification/RangeBlocks.thy ===== *)
theory RangeBlocks
  imports Range
begin

text \<open>
  One range of \<^verbatim>\<open>libudb/range.c\<close>: its blocks are intervals in ascending order with a gap between
  neighbours (\<open>gapped\<close>), and adding or deleting a number changes the union of the intervals (\<open>covered\<close>) by just
  this number.  \<open>rstate\<close> ties the intervals to the objects of the database; \<open>kept\<close> says what a step leaves alone.
\<close>

section \<open>Lists of blocks\<close>

definition gapped :: "(int \<times> int) list \<Rightarrow> bool" where
  "gapped bl \<longleftrightarrow> sorted_wrt (\<lambda>p q. snd p + 1 < fst q) bl \<and> (\<forall>p\<in>set bl. fst p \<le> snd p)"

definition covered :: "(int \<times> int) list \<Rightarrow> int set" where
  "covered bl = (\<Union>p\<in>set bl. {fst p..snd p})"

lemma gapped_append: "gapped (xs @ ys) \<longleftrightarrow> gapped xs \<and> gapped ys \<and> (\<forall>p\<in>set xs. \<forall>q\<in>set ys. snd p + 1 < fst q)"
  by (auto simp: gapped_def sorted_wrt_append)

lemma gapped_Cons: "gapped (p # ys) \<longleftrightarrow> fst p \<le> snd p \<and> (\<forall>q\<in>set ys. snd p + 1 < fst q) \<and> gapped ys"
  by (auto simp: gapped_def)

lemma gapped_Nil [simp]: "gapped []"
  by (simp add: gapped_def)

lemma covered_simps [simp]: "covered [] = {}" "covered (p # bl) = {fst p..snd p} \<union> covered bl" "covered (xs @ ys) = covered xs \<union> covered ys"
  by (auto simp: covered_def)

lemma gapped_nth: "gapped bl \<Longrightarrow> i < j \<Longrightarrow> j < length bl \<Longrightarrow> snd (bl ! i) + 1 < fst (bl ! j)"
  by (simp add: gapped_def sorted_wrt_iff_nth_less)

lemma gapped_le: "gapped bl \<Longrightarrow> i < length bl \<Longrightarrow> fst (bl ! i) \<le> snd (bl ! i)"
  by (simp add: gapped_def)

lemma covered_nth: "i < length bl \<Longrightarrow> fst (bl ! i) \<le> v \<Longrightarrow> v \<le> snd (bl ! i) \<Longrightarrow> v \<in> covered bl"
  unfolding covered_def by (rule UN_I [of "bl ! i"]) auto

text \<open>The four ways in which a block sequence takes a number: at the end or at the start of a
  block, between two blocks that become one, or as a block of its own.\<close>

lemma split_at: "i < length bl \<Longrightarrow> bl = take i bl @ bl ! i # drop (Suc i) bl"
  by (rule id_take_nth_drop)

lemma before_nth: "gapped bl \<Longrightarrow> i < length bl \<Longrightarrow> p \<in> set (take i bl) \<Longrightarrow> snd p + 1 < fst (bl ! i) \<and> (0 < i \<longrightarrow> snd p \<le> snd (bl ! (i - 1)))"
proof -
  assume g: "gapped bl" and i: "i < length bl" and "p \<in> set (take i bl)"
  then obtain k where k: "k < i" "p = bl ! k" by (auto simp: in_set_conv_nth)
  have "snd (bl ! k) \<le> snd (bl ! (i - 1))"
  proof (cases "k = i - 1")
    case False
    then have "k < i - 1" "i - 1 < length bl" using k i by simp_all
    then show ?thesis using gapped_nth [OF g, of k "i - 1"] gapped_le [OF g, of "i - 1"] by linarith
  qed simp
  then show ?thesis using gapped_nth [OF g, of k i] k i by simp
qed

lemma after_nth: "gapped bl \<Longrightarrow> i < length bl \<Longrightarrow> p \<in> set (drop (Suc i) bl) \<Longrightarrow> snd (bl ! i) + 1 < fst p \<and> (fst (bl ! Suc i) \<le> fst p)"
proof -
  assume g: "gapped bl" and i: "i < length bl" and "p \<in> set (drop (Suc i) bl)"
  then obtain k where "k < length bl - Suc i" "p = bl ! (Suc i + k)" by (auto simp: in_set_conv_nth)
  then have k: "Suc i + k < length bl" "p = bl ! (Suc i + k)" by auto
  then show ?thesis using gapped_nth [OF g, of i "Suc i + k"] gapped_nth [OF g, of "Suc i" "Suc i + k"] gapped_le [OF g, of "Suc i"]
    by (cases "k = 0") auto
qed

lemma gapped_parts:
  assumes "gapped bl" "i < length bl"
  shows "gapped (take i bl)" "gapped (drop (Suc i) bl)" "gapped (drop i bl)" "gapped (take (Suc i) bl)"
  using assms(1) gapped_append [of "take i bl" "drop i bl"] gapped_append [of "take (Suc i) bl" "drop (Suc i) bl"] by simp_all

lemma extend_end:
  assumes "gapped bl" "i < length bl" "v = snd (bl ! i) + 1" "Suc i < length bl \<longrightarrow> v + 1 < fst (bl ! Suc i)"
  shows "gapped (bl[i := (fst (bl ! i), v)])" "covered (bl[i := (fst (bl ! i), v)]) = insert v (covered bl)"
proof -
  note P = gapped_parts [OF assms(1,2)]
  have "snd p + 1 < fst (bl ! i)" if "p \<in> set (take i bl)" for p using before_nth [OF assms(1,2) that] by simp
  moreover have "v + 1 < fst p" if "p \<in> set (drop (Suc i) bl)" for p
    using after_nth [OF assms(1,2) that] assms(4) that by (cases "Suc i < length bl") auto
  moreover have "snd p + 1 < fst q" if "p \<in> set (take i bl)" "q \<in> set (drop (Suc i) bl)" for p q
    using assms(1) that split_at [OF assms(2)] gapped_append [of "take i bl" "drop i bl"] Cons_nth_drop_Suc [OF assms(2)] by (metis append_take_drop_id list.set_intros(2))
  ultimately show "gapped (bl[i := (fst (bl ! i), v)])"
    using P gapped_le [OF assms(1,2)] assms(2,3) by (auto simp: upd_conv_take_nth_drop gapped_append gapped_Cons)
  have c: "covered bl = covered (take i bl) \<union> {fst (bl ! i)..snd (bl ! i)} \<union> covered (drop (Suc i) bl)"
    using arg_cong [OF split_at [OF assms(2)], of covered] by auto
  show "covered (bl[i := (fst (bl ! i), v)]) = insert v (covered bl)"
    unfolding c using assms(2,3) gapped_le [OF assms(1,2)] by (auto simp: upd_conv_take_nth_drop)
qed

lemma extend_start:
  assumes "gapped bl" "i < length bl" "v = fst (bl ! i) - 1" "0 < i \<longrightarrow> snd (bl ! (i - 1)) + 1 < v"
  shows "gapped (bl[i := (v, snd (bl ! i))])" "covered (bl[i := (v, snd (bl ! i))]) = insert v (covered bl)"
proof -
  note P = gapped_parts [OF assms(1,2)]
  have "snd p + 1 < v" if "p \<in> set (take i bl)" for p using before_nth [OF assms(1,2) that] assms(4) that by (cases "0 < i") auto
  moreover have "snd (bl ! i) + 1 < fst p" if "p \<in> set (drop (Suc i) bl)" for p using after_nth [OF assms(1,2) that] by simp
  moreover have "snd p + 1 < fst q" if "p \<in> set (take i bl)" "q \<in> set (drop (Suc i) bl)" for p q
    using assms(1) that split_at [OF assms(2)] gapped_append [of "take i bl" "drop i bl"] Cons_nth_drop_Suc [OF assms(2)] by (metis append_take_drop_id list.set_intros(2))
  ultimately show "gapped (bl[i := (v, snd (bl ! i))])"
    using P gapped_le [OF assms(1,2)] assms(2,3) by (auto simp: upd_conv_take_nth_drop gapped_append gapped_Cons)
  have c: "covered bl = covered (take i bl) \<union> {fst (bl ! i)..snd (bl ! i)} \<union> covered (drop (Suc i) bl)"
    using arg_cong [OF split_at [OF assms(2)], of covered] by auto
  show "covered (bl[i := (v, snd (bl ! i))]) = insert v (covered bl)"
    unfolding c using assms(2,3) gapped_le [OF assms(1,2)] by (auto simp: upd_conv_take_nth_drop)
qed

lemma split_two: "Suc i < length bl \<Longrightarrow> bl = take i bl @ bl ! i # bl ! Suc i # drop (Suc (Suc i)) bl"
  by (simp add: Cons_nth_drop_Suc)

lemma merge_blocks:
  assumes "gapped bl" "Suc i < length bl" "v = snd (bl ! i) + 1" "v = fst (bl ! Suc i) - 1"
  shows "gapped (take i bl @ (fst (bl ! i), snd (bl ! Suc i)) # drop (Suc (Suc i)) bl)"
    "covered (take i bl @ (fst (bl ! i), snd (bl ! Suc i)) # drop (Suc (Suc i)) bl) = insert v (covered bl)"
proof -
  have l: "fst (bl ! i) \<le> snd (bl ! i)" "fst (bl ! Suc i) \<le> snd (bl ! Suc i)" using gapped_le [OF assms(1)] assms(2) by simp_all
  have g0: "gapped (take i bl @ bl ! i # bl ! Suc i # drop (Suc (Suc i)) bl)" using assms(1) split_two [OF assms(2)] by simp
  then show "gapped (take i bl @ (fst (bl ! i), snd (bl ! Suc i)) # drop (Suc (Suc i)) bl)"
    using l assms(3,4) by (auto simp: gapped_append gapped_Cons)
  have c: "covered bl = covered (take i bl) \<union> {fst (bl ! i)..snd (bl ! i)} \<union> {fst (bl ! Suc i)..snd (bl ! Suc i)} \<union> covered (drop (Suc (Suc i)) bl)"
    using arg_cong [OF split_two [OF assms(2)], of covered] by auto
  show "covered (take i bl @ (fst (bl ! i), snd (bl ! Suc i)) # drop (Suc (Suc i)) bl) = insert v (covered bl)"
    unfolding c using l assms(3,4) by auto
qed

lemma insert_block:
  assumes "gapped bl" "i \<le> length bl" "0 < i \<longrightarrow> snd (bl ! (i - 1)) + 1 < v" "i < length bl \<longrightarrow> v + 1 < fst (bl ! i)"
  shows "gapped (take i bl @ (v, v) # drop i bl)" "covered (take i bl @ (v, v) # drop i bl) = insert v (covered bl)"
proof -
  have b: "snd p + 1 < v" if p: "p \<in> set (take i bl)" for p
  proof -
    obtain k where k: "k < i" "p = bl ! k" using p assms(2) by (auto simp: in_set_conv_nth)
    show ?thesis
    proof (cases "k = i - 1")
      case False
      then have "k < i - 1" "i - 1 < length bl" "0 < i" using k assms(2) by simp_all
      then show ?thesis using gapped_nth [OF assms(1), of k "i - 1"] gapped_le [OF assms(1), of "i - 1"] assms(3) k(2) by fastforce
    qed (use k assms(3) in auto)
  qed
  have a: "v + 1 < fst p" if p: "p \<in> set (drop i bl)" for p
  proof -
    obtain k where "k < length bl - i" "p = bl ! (i + k)" using p by (auto simp: in_set_conv_nth)
    then have k: "i + k < length bl" "p = bl ! (i + k)" by simp_all
    then show ?thesis using gapped_nth [OF assms(1), of i "i + k"] gapped_le [OF assms(1), of i] assms(4)
      by (cases "k = 0") auto
  qed
  show "gapped (take i bl @ (v, v) # drop i bl)"
    using a b assms(1) gapped_append [of "take i bl" "drop i bl"] by (auto simp: gapped_append gapped_Cons)
  show "covered (take i bl @ (v, v) # drop i bl) = insert v (covered bl)"
    using covered_simps(3) [of "take i bl" "drop i bl"] by auto
qed

text \<open>Replacing a block by blocks inside it.\<close>

lemma replace_within:
  assumes "gapped bl" "i < length bl" "gapped ys" "\<And>q. q \<in> set ys \<Longrightarrow> fst (bl ! i) \<le> fst q \<and> snd q \<le> snd (bl ! i)"
  shows "gapped (take i bl @ ys @ drop (Suc i) bl)"
    "covered (take i bl @ ys @ drop (Suc i) bl) = covered bl - {fst (bl ! i)..snd (bl ! i)} \<union> covered ys"
proof -
  note P = gapped_parts [OF assms(1,2)]
  have b: "snd p + 1 < fst (bl ! i)" if "p \<in> set (take i bl)" for p using before_nth [OF assms(1,2) that] by simp
  have a: "snd (bl ! i) + 1 < fst p" if "p \<in> set (drop (Suc i) bl)" for p using after_nth [OF assms(1,2) that] by simp
  have ba: "snd p + 1 < fst q" if "p \<in> set (take i bl)" "q \<in> set (drop (Suc i) bl)" for p q
    using b [OF that(1)] a [OF that(2)] gapped_le [OF assms(1,2)] by simp
  show "gapped (take i bl @ ys @ drop (Suc i) bl)"
    using P assms(3,4) b a ba by (fastforce simp: gapped_append)
  have c: "covered bl = covered (take i bl) \<union> {fst (bl ! i)..snd (bl ! i)} \<union> covered (drop (Suc i) bl)"
    using arg_cong [OF split_at [OF assms(2)], of covered] by auto
  have "covered (take i bl) \<inter> {fst (bl ! i)..snd (bl ! i)} = {}" "covered (drop (Suc i) bl) \<inter> {fst (bl ! i)..snd (bl ! i)} = {}"
    using a b by (fastforce simp: covered_def)+
  then show "covered (take i bl @ ys @ drop (Suc i) bl) = covered bl - {fst (bl ! i)..snd (bl ! i)} \<union> covered ys"
    unfolding c by auto
qed

lemma remove_number:
  assumes "gapped bl" "i < length bl" "fst (bl ! i) \<le> v" "v \<le> snd (bl ! i)"
    and "ys = (if fst (bl ! i) < v then [(fst (bl ! i), v - 1)] else []) @ (if v < snd (bl ! i) then [(v + 1, snd (bl ! i))] else [])"
  shows "gapped (take i bl @ ys @ drop (Suc i) bl)" "covered (take i bl @ ys @ drop (Suc i) bl) = covered bl - {v}"
proof -
  have g: "gapped ys" using assms(5) by (auto simp: gapped_def)
  have w: "fst (bl ! i) \<le> fst q \<and> snd q \<le> snd (bl ! i)" if "q \<in> set ys" for q using that assms(3-5) by (auto split: if_split_asm)
  show "gapped (take i bl @ ys @ drop (Suc i) bl)" by (rule replace_within(1) [OF assms(1,2) g w])
  have "{fst (bl ! i)..snd (bl ! i)} \<subseteq> covered bl" using covered_nth [OF assms(2)] by auto
  moreover have "covered ys = {fst (bl ! i)..snd (bl ! i)} - {v}" using assms(3-5) by auto
  ultimately show "covered (take i bl @ ys @ drop (Suc i) bl) = covered bl - {v}"
    using replace_within(2) [OF assms(1,2) g w] assms(3,4) by auto
qed

section \<open>Blocks in the store\<close>

definition lo :: "'o store \<Rightarrow> 'o \<Rightarrow> int" where "lo st b = DB_GET_INTEGER (the (att st b range_start))"
definition hi :: "'o store \<Rightarrow> 'o \<Rightarrow> int" where "hi st b = DB_GET_INTEGER (the (att st b range_end))"

definition block :: "'o store \<Rightarrow> 'o \<Rightarrow> 'o \<Rightarrow> int \<times> int \<Rightarrow> bool" where
  "block st bc b p \<longleftrightarrow> cls st b = Some bc \<and> att st b range_start = Some (DB_INTEGER (fst p)) \<and> att st b range_end = Some (DB_INTEGER (snd p))"

text \<open>The classes of the range structures.\<close>

definition range_schema :: "('o \<Rightarrow> cstr set) \<Rightarrow> ('o \<Rightarrow> cstr \<Rightarrow> bool) \<Rightarrow> 'o \<Rightarrow> 'o \<Rightarrow> bool" where
  "range_schema schema unique bc rc \<longleftrightarrow>
     {range_start, range_end, nextfree} \<subseteq> schema bc \<and> (\<forall>a. \<not> unique bc a) \<and>
     {range_owner, range_blocks, nextfree} \<subseteq> schema rc \<and> unique rc range_owner \<and> \<not> unique rc range_blocks \<and> \<not> unique rc nextfree \<and>
     rc \<noteq> bc"

definition block_class_ok :: "('o \<Rightarrow> cstr \<Rightarrow> bool) \<Rightarrow> 'o store \<Rightarrow> 'o \<Rightarrow> bool" where
  "block_class_ok unique st bc \<longleftrightarrow> cnam st range_block_class = Some bc \<and> class_object unique st bc"

text \<open>The range object \<open>r\<close> with the blocks \<open>bs\<close> of bounds \<open>bl\<close>, and the free blocks \<open>fs\<close>.\<close>

definition rstate :: "('o \<Rightarrow> cstr \<Rightarrow> bool) \<Rightarrow> 'o store \<Rightarrow> 'o \<Rightarrow> 'o \<Rightarrow> 'o \<Rightarrow> 'o list \<Rightarrow> (int \<times> int) list \<Rightarrow> 'o list \<Rightarrow> bool" where
  "rstate unique st bc rc r bs bl fs \<longleftrightarrow>
     block_class_ok unique st bc \<and> cls st r = Some rc \<and> r \<noteq> bc \<and>
     att st r range_blocks = Some (DB_SEQUENCE (Col_New (map DB_OBJECT bs))) \<and> distinct bs \<and> list_all2 (block st bc) bs bl \<and>
     free_list st bc fs \<and> set bs \<inter> set fs = {}"

text \<open>What a step leaves alone: every object outside \<open>u\<close>.  New objects are blocks.\<close>

definition kept :: "'o \<Rightarrow> 'o store \<Rightarrow> 'o store \<Rightarrow> 'o set \<Rightarrow> bool" where
  "kept bc st st' u \<longleftrightarrow>
     cnam st' = cnam st \<and> (\<forall>y\<in>dom (cls st). cls st' y = cls st y \<and> (y \<notin> u \<longrightarrow> att st' y = att st y)) \<and>
     (\<forall>y. y \<notin> dom (cls st) \<longrightarrow> cls st' y \<in> {None, Some bc})"

lemma kept_trans:
  assumes "kept bc st st1 u" "kept bc st1 st2 v" "v \<inter> dom (cls st) \<subseteq> u"
  shows "kept bc st st2 u"
  unfolding kept_def
proof (intro conjI ballI impI allI)
  show "cnam st2 = cnam st" using assms(1,2) by (simp add: kept_def)
next
  fix y assume y: "y \<in> dom (cls st)"
  then have 1: "cls st1 y = cls st y" "y \<in> dom (cls st1)" using assms(1) by (auto simp: kept_def domIff)
  then show "cls st2 y = cls st y" using assms(2) by (simp add: kept_def)
  assume u: "y \<notin> u"
  then have "y \<notin> v" using assms(3) y by blast
  then show "att st2 y = att st y" using assms(1,2) y 1 u by (simp add: kept_def)
next
  fix y assume "y \<notin> dom (cls st)"
  then have "cls st1 y \<in> {None, Some bc}" using assms(1) by (simp add: kept_def)
  then show "cls st2 y \<in> {None, Some bc}" using assms(2) by (cases "y \<in> dom (cls st1)") (auto simp: kept_def)
qed

lemma kept_mono: "kept bc st st' u \<Longrightarrow> u \<subseteq> v \<Longrightarrow> kept bc st st' v"
  unfolding kept_def by blast

lemma attr_names [simp]:
  "range_start \<noteq> range_end" "range_end \<noteq> range_start" "nextfree \<noteq> range_start" "nextfree \<noteq> range_end" "range_start \<noteq> nextfree" "range_end \<noteq> nextfree"
  "range_blocks \<noteq> nextfree" "nextfree \<noteq> range_blocks" "range_blocks \<noteq> range_start" "range_blocks \<noteq> range_end" "range_start \<noteq> range_blocks" "range_end \<noteq> range_blocks"
  "range_owner \<noteq> nextfree" "nextfree \<noteq> range_owner" "range_owner \<noteq> range_blocks" "range_blocks \<noteq> range_owner" "range_owner \<noteq> range_start" "range_owner \<noteq> range_end"
  by (simp_all add: cstr_def)

lemma rstate_length: "rstate unique st bc rc r bs bl fs \<Longrightarrow> length bl = length bs"
  by (auto simp: rstate_def list_all2_lengthD)

lemma rstate_nth: "rstate unique st bc rc r bs bl fs \<Longrightarrow> i < length bs \<Longrightarrow> block st bc (bs ! i) (bl ! i)"
  by (auto simp: rstate_def list_all2_nthD)

lemma rstate_class: "rstate unique st bc rc r bs bl fs \<Longrightarrow> b \<in> set bs \<Longrightarrow> cls st b = Some bc"
  by (auto simp: rstate_def list_all2_conv_all_nth block_def in_set_conv_nth)

lemma rstate_apart:
  assumes "rstate unique st bc rc r bs bl fs" "rc \<noteq> bc"
  shows "r \<notin> set bs" "r \<notin> set fs" "bc \<notin> set bs" "bc \<notin> set fs"
proof -
  note b = rstate_class [OF assms(1)]
  have f: "cls st b = Some bc" if "b \<in> set fs" for b using free_list_class that assms(1) by (auto simp: rstate_def)
  show "r \<notin> set bs" "r \<notin> set fs" "bc \<notin> set bs" "bc \<notin> set fs"
    using b f assms by (auto simp: rstate_def block_class_ok_def class_object_def)
qed

lemma elems_blocks: "rstate unique st bc rc r bs bl fs \<Longrightarrow> elems st (Col_Attribute r range_blocks) = Some (map DB_OBJECT bs)"
  by (simp add: rstate_def)

lemma Get_Bounds_runs:
  assumes ok: "dbi_ok db view schema unique" and R: "rstate unique (view s) bc rc r bs bl fs" and i: "i < length bs"
  shows "Get_Bounds db (Col_Attribute r range_blocks) i s = Done (bs ! i, bl ! i)"
proof -
  have c: "db_col_get db (Col_Attribute r range_blocks) i s = Some (DB_OBJECT (bs ! i))"
    using dbi_reads(5) [OF ok elems_blocks [OF R]] i by simp
  have b: "block (view s) bc (bs ! i) (bl ! i)" by (rule rstate_nth [OF R i])
  have "Udb_Get_Value db (bs ! i) range_start DB_TYPE_INTEGER s = Done (DB_INTEGER (fst (bl ! i)))"
    "Udb_Get_Value db (bs ! i) range_end DB_TYPE_INTEGER s = Done (DB_INTEGER (snd (bl ! i)))"
    using Udb_Get_Value_runs [OF ok, of s "bs ! i" bc] b by (auto simp: block_def)
  then show ?thesis using c by (simp add: Get_Bounds_def Udb_Get_Collection_Value_def get_int_def check_some_def)
qed

lemma put_bound_runs:
  assumes ok: "dbi_ok db view schema unique" and sc: "range_schema schema unique bc rc" and e: "env_ok view w"
    and R: "rstate unique (view (database w)) bc rc r bs bl fs" and i: "i < length bs"
    and Q: "\<And>w'. env_ok view w' \<Longrightarrow>
      rstate unique (view (database w')) bc rc r bs (bl[i := if a = range_start then (v, snd (bl ! i)) else (fst (bl ! i), v)]) fs \<Longrightarrow>
      kept bc (view (database w)) (view (database w')) {bs ! i} \<Longrightarrow> Q w'"
    and a: "a = range_start \<or> a = range_end"
  shows "runs (put_checked db (bs ! i) a (DB_INTEGER v) w) Q"
proof (rule put_checked_runs [OF ok, of w "bs ! i" bc])
  have b: "block (view (database w)) bc (bs ! i) (bl ! i)" by (rule rstate_nth [OF R i])
  then show "cls (view (database w)) (bs ! i) = Some bc" by (simp add: block_def)
  show "att (view (database w)) (bs ! i) a \<noteq> None" using a b by (auto simp: block_def)
  show "\<not> unique bc a" using sc by (simp add: range_schema_def)
  fix s' assume s': "view s' = set_att (bs ! i) a (DB_INTEGER v) (view (database w))"
  have ne: "bs ! i \<noteq> r" "bs ! i \<noteq> bc" "bs ! i \<notin> set fs"
    using rstate_apart [OF R] sc R nth_mem [OF i] by (auto simp: range_schema_def rstate_def disjoint_iff)
  have "list_all2 (block (view s') bc) bs (bl[i := if a = range_start then (v, snd (bl ! i)) else (fst (bl ! i), v)])"
    unfolding list_all2_conv_all_nth
  proof (intro conjI allI impI)
    show "length bs = length (bl[i := if a = range_start then (v, snd (bl ! i)) else (fst (bl ! i), v)])"
      using rstate_length [OF R] by simp
    fix j assume j: "j < length bs"
    have "bs ! j = bs ! i \<longleftrightarrow> j = i" using R i j by (auto simp: rstate_def nth_eq_iff_index_eq)
    then show "block (view s') bc (bs ! j) (bl[i := if a = range_start then (v, snd (bl ! i)) else (fst (bl ! i), v)] ! j)"
      using rstate_nth [OF R j] rstate_length [OF R] j i a by (auto simp: block_def s' nth_list_update)
  qed
  moreover have "free_list (view s') bc fs"
    by (rule free_list_cong [of "view (database w)"]) (use R ne a in \<open>auto simp: rstate_def s'\<close>)
  ultimately have "rstate unique (view s') bc rc r bs (bl[i := if a = range_start then (v, snd (bl ! i)) else (fst (bl ! i), v)]) fs"
    using R ne a by (simp add: rstate_def s' block_class_ok_def class_object_def)
  moreover have "kept bc (view (database w)) (view s') {bs ! i}" by (auto simp: kept_def s')
  ultimately show "Q (w\<lparr>database := s'\<rparr>)" using Q e s' by simp
qed

lemma list_all2_block_cong:
  assumes "list_all2 (block st bc) bs bl" "\<And>b. b \<in> set bs \<Longrightarrow> cls st' b = cls st b"
    "\<And>b a. b \<in> set bs \<Longrightarrow> a = range_start \<or> a = range_end \<Longrightarrow> att st' b a = att st b a"
  shows "list_all2 (block st' bc) bs bl"
  using assms(1) by (rule list.rel_mono_strong) (auto simp: block_def assms(2,3))

lemma list_all2_insert:
  assumes "list_all2 P xs ys" "P x y" "i \<le> length xs"
  shows "list_all2 P (take i xs @ x # drop i xs) (take i ys @ y # drop i ys)"
  using assms by (auto intro!: list_all2_appendI list_all2_takeI list_all2_dropI)

lemma New_Block_runs:
  fixes w :: "('s, 'o, 'm) udb_scheme"
  assumes ok: "dbi_ok db view schema unique" and sc: "range_schema schema unique bc rc" and e: "env_ok view w"
    and R: "rstate unique (view (database w)) bc rc r bs bl fs" and i: "i \<le> length bs"
    and Q: "\<And>col w' x gs. env_ok view w' \<Longrightarrow> x \<notin> set bs \<Longrightarrow> x \<in> set fs \<or> x \<notin> dom (cls (view (database w))) \<Longrightarrow>
      rstate unique (view (database w')) bc rc r (take i bs @ x # drop i bs) (take i bl @ (start, stop) # drop i bl) gs \<Longrightarrow> set gs \<subseteq> set fs \<Longrightarrow>
      kept bc (view (database w)) (view (database w')) ({r, bc} \<union> set fs) \<Longrightarrow>
      att (view (database w')) r range_owner = att (view (database w)) r range_owner \<Longrightarrow> Q (col, w')"
  shows "runs (New_Block db (Col_Attribute r range_blocks) i start stop w) Q"
proof -
  let ?st = "view (database w)" and ?ps = "[(range_start, DB_INTEGER start), (range_end, DB_INTEGER stop)]"
  let ?P = "\<lambda>(b, w). \<exists>b'. b = Some b' \<and> (\<exists>col s. db_col_insert db (Col_Attribute r range_blocks) i (DB_OBJECT b') (database w) = Some (col, s) \<and> Q (col, w\<lparr>database := s\<rparr>))"
  have sz: "db_col_size db (Col_Attribute r range_blocks) (database w) = length bs" using dbi_reads(4) [OF ok elems_blocks [OF R]] by simp
  have step: "runs (Udb_Edit_Free_Object db bc w1)
      (\<lambda>(t, w). runs (Udb_Finish_Object db None (Some (foldl (\<lambda>t (a, v). dbt_put t a v) t ?ps)) False w)
        ?P)"
    if w1: "env_ok view w1" "database w1 = database w" for w1
  proof (rule allocate_runs [OF ok w1(1), of bc fs])
    show "free_list (view (database w1)) bc fs" "class_object unique (view (database w1)) bc" using R w1 by (simp_all add: rstate_def block_class_ok_def)
    show "fst ` set ?ps \<subseteq> schema bc" "nextfree \<notin> fst ` set ?ps" using sc by (auto simp: range_schema_def)
    show "no_clash unique (view (database w1)) bc None ?ps" using sc by (auto simp: no_clash_def range_schema_def)
    fix x and w' :: "('s, 'o, 'm) udb_scheme"
    assume e': "env_ok view w'" and A: "allocated (view (database w1)) bc fs ?ps x (view (database w'))"
    let ?st' = "view (database w')"
    have A: "allocated ?st bc fs ?ps x ?st'" using A w1 by simp
    have xf: "x \<in> set fs \<or> x \<notin> dom (cls ?st)" "x \<noteq> bc" using A by (auto simp: allocated_def)
    have xb: "x \<notin> set bs" using xf rstate_class [OF R, of x] R by (auto simp: rstate_def)
    have xr: "x \<noteq> r" using xf rstate_apart [OF R] sc R by (auto simp: range_schema_def rstate_def)
    have ap: "r \<noteq> bc" "bc \<notin> set bs" "r \<notin> set bs" using rstate_apart [OF R] sc R by (auto simp: range_schema_def rstate_def)
    have attr: "att ?st' y = att ?st y" if "y \<noteq> x" "y \<noteq> bc" for y using A that by (simp add: allocated_def)
    have cl: "cls ?st' = (cls ?st)(x \<mapsto> bc)" using A by (simp add: allocated_def)
    have el: "elems ?st' (Col_Attribute r range_blocks) = Some (map DB_OBJECT bs)" using elems_blocks [OF R] attr [of r] xr ap by simp
    obtain s where s: "db_col_insert db (Col_Attribute r range_blocks) i (DB_OBJECT x) (database w') =
        Some (Col_Attribute r range_blocks, s)" "view s = set_att r range_blocks (DB_SEQUENCE (Col_New (map DB_OBJECT (take i bs @ x # drop i bs)))) ?st'"
      using col_insert [OF ok el, of i "DB_OBJECT x"] i R attr [of r] xr ap
      by (auto simp: rstate_def take_map drop_map)
    obtain gs where gs: "free_list ?st' bc gs" "set gs \<subseteq> set fs - {x}" using A by (auto simp: allocated_def)
    have ars: "att ?st' x range_start = Some (DB_INTEGER start)" "att ?st' x range_end = Some (DB_INTEGER stop)" using A by (simp_all add: allocated_def)
    have attb: "att ?st' b = att ?st b" if "b \<in> set bs" for b by (rule attr) (use that xb ap in auto)
    have "list_all2 (block (view s) bc) bs bl"
      by (rule list_all2_block_cong [of ?st]) (use R xb ap in \<open>auto simp: rstate_def s(2) cl attb\<close>)
    moreover have "block (view s) bc x (start, stop)" using ars xr cl by (simp add: block_def s(2))
    ultimately have "list_all2 (block (view s) bc) (take i bs @ x # drop i bs) (take i bl @ (start, stop) # drop i bl)"
      using i by (intro list_all2_insert) auto
    moreover have "free_list (view s) bc gs"
      by (rule free_list_cong [OF gs(1)]) (use rstate_apart [OF R] sc gs(2) ap in \<open>auto simp: s(2) range_schema_def\<close>)
    moreover have "distinct (take i bs @ x # drop i bs)" using R xb distinct_append [of "take i bs" "drop i bs"] by (auto simp: rstate_def dest: in_set_takeD in_set_dropD)
    moreover have "set (take i bs @ x # drop i bs) \<inter> set gs = {}" using R gs(2) by (auto simp: rstate_def dest: in_set_takeD in_set_dropD)
    ultimately have R': "rstate unique (view s) bc rc r (take i bs @ x # drop i bs) (take i bl @ (start, stop) # drop i bl) gs"
      using R A xr ap unfolding rstate_def block_class_ok_def class_object_def by (auto simp: s(2) cl allocated_def)
    have "cls ?st x = Some bc" if "x \<in> set fs" using free_list_class [OF _ that] R by (auto simp: rstate_def)
    then have K: "kept bc ?st (view s) ({r, bc} \<union> set fs)" using A xf attr unfolding kept_def by (auto simp: s(2) cl allocated_def dest: domI)
    have own: "att (view s) r range_owner = att ?st r range_owner" using attr [of r] xr ap by (simp add: s(2))
    have "Q (Col_Attribute r range_blocks, w'\<lparr>database := s\<rparr>)"
      by (rule Q) (use e' xb xf R' gs K own A s(2) in \<open>auto simp: allocated_def\<close>)
    then show "?P (Some x, w')"
      using s(1) by simp
  qed
  have cn: "cnam ?st range_block_class = Some bc" using R by (simp add: rstate_def block_class_ok_def)
  have "runs (Udb_Get_Class db range_block_class w) (\<lambda>(c, w). runs (Udb_Edit_Free_Object db c w)
      (\<lambda>(t, w). runs (Udb_Finish_Object db None (Some (foldl (\<lambda>t (a, v). dbt_put t a v) t ?ps)) False w) ?P))"
    by (rule Udb_Get_Class_runs [OF ok e cn]) (use step in simp)
  then show ?thesis using sz i by (simp add: New_Block_def)
qed

lemma list_all2_remove:
  assumes "list_all2 P xs ys"
  shows "list_all2 P (take i xs @ drop (Suc i) xs) (take i ys @ drop (Suc i) ys)"
  using assms by (auto intro!: list_all2_appendI list_all2_takeI list_all2_dropI)

lemma drop_block_runs:
  fixes w :: "('s, 'o, 'm) udb_scheme"
  assumes ok: "dbi_ok db view schema unique" and sc: "range_schema schema unique bc rc" and e: "env_ok view w"
    and R: "rstate unique (view (database w)) bc rc r bs bl fs" and i: "i < length bs"
    and Q: "\<And>w'. env_ok view w' \<Longrightarrow>
      rstate unique (view (database w')) bc rc r (take i bs @ drop (Suc i) bs) (take i bl @ drop (Suc i) bl) (bs ! i # fs) \<Longrightarrow>
      kept bc (view (database w)) (view (database w')) {r, bc, bs ! i} \<Longrightarrow>
      att (view (database w')) r range_owner = att (view (database w)) r range_owner \<Longrightarrow> Q (Col_Attribute r range_blocks, w')"
  shows "runs (drop_block db bc (Col_Attribute r range_blocks) i (bs ! i) w) Q"
proof -
  let ?st = "view (database w)" and ?bs = "take i bs @ drop (Suc i) bs"
  have ne: "bs ! i \<noteq> r" "bs ! i \<noteq> bc" "bs ! i \<notin> set fs" "r \<noteq> bc" "r \<notin> set bs" "bc \<notin> set bs" "r \<notin> set fs" "bc \<notin> set fs"
    using rstate_apart [OF R] sc R nth_mem [OF i] by (auto simp: range_schema_def rstate_def disjoint_iff)
  have "distinct (take i bs @ bs ! i # drop (Suc i) bs)" using R id_take_nth_drop [OF i] by (simp add: rstate_def)
  then have bi: "bs ! i \<notin> set ?bs" "set ?bs \<subseteq> set bs" "distinct ?bs" by (auto dest: in_set_takeD in_set_dropD)
  obtain s where s: "db_col_drop_element db (Col_Attribute r range_blocks) i (database w) = Some (Col_Attribute r range_blocks, s)"
      "view s = set_att r range_blocks (DB_SEQUENCE (Col_New (map DB_OBJECT ?bs))) ?st"
    using col_drop [OF ok elems_blocks [OF R], of i] i R by (auto simp: rstate_def take_map drop_map)
  have fl: "free_list (view s) bc fs"
    by (rule free_list_cong [of ?st]) (use R ne in \<open>auto simp: rstate_def s(2)\<close>)
  have "runs (Udb_Append_Free_List db bc (dbt_edit_object (bs ! i)) None (w\<lparr>database := s\<rparr>)) (\<lambda>w. Q (Col_Attribute r range_blocks, w))"
  proof (rule free_runs [OF ok, of _ bc fs])
    show "env_ok view (w\<lparr>database := s\<rparr>)" using e s(2) by simp
    show "free_list (view (database (w\<lparr>database := s\<rparr>))) bc fs" using fl by simp
    show "class_object unique (view (database (w\<lparr>database := s\<rparr>))) bc" using R by (simp add: s(2) rstate_def block_class_ok_def class_object_def)
    show "cls (view (database (w\<lparr>database := s\<rparr>))) (bs ! i) = Some bc" using rstate_class [OF R nth_mem [OF i]] by (simp add: s(2))
    fix w' :: "('s, 'o, 'm) udb_scheme"
    assume e': "env_ok view w'" and "freed (view (database (w\<lparr>database := s\<rparr>))) bc fs None (bs ! i) (view (database w'))"
    then have F: "freed (view s) bc fs None (bs ! i) (view (database w'))" by simp
    let ?st' = "view (database w')"
    have at: "att ?st' y = att (view s) y" if "y \<noteq> bs ! i" "y \<noteq> bc" for y using F that by (simp add: freed_def)
    have cl: "cls ?st' = cls ?st" "cnam ?st' = cnam ?st" using F by (simp_all add: freed_def s(2))
    have "list_all2 (block ?st' bc) bs bl"
    proof (rule list_all2_block_cong [of ?st])
      fix b a assume "b \<in> set bs" "a = range_start \<or> a = range_end"
      then show "att ?st' b a = att ?st b a" using F ne by (cases "b = bs ! i") (auto simp: freed_def s(2))
    qed (use R cl in \<open>auto simp: rstate_def\<close>)
    then have "list_all2 (block ?st' bc) ?bs (take i bl @ drop (Suc i) bl)" by (rule list_all2_remove)
    moreover have "att ?st' r range_blocks = Some (DB_SEQUENCE (Col_New (map DB_OBJECT ?bs)))" using at [of r] ne by (simp add: s(2))
    moreover have "set ?bs \<inter> set (bs ! i # fs) = {}" using bi R by (auto simp: rstate_def)
    ultimately have "rstate unique ?st' bc rc r ?bs (take i bl @ drop (Suc i) bl) (bs ! i # fs)"
      using R F cl bi(3) unfolding rstate_def block_class_ok_def class_object_def by (auto simp: freed_def)
    moreover have "kept bc ?st ?st' {r, bc, bs ! i}" using at cl by (auto simp: kept_def s(2))
    moreover have "att ?st' r range_owner = att ?st r range_owner" using at [of r] ne by (simp add: s(2))
    ultimately show "Q (Col_Attribute r range_blocks, w')" using Q e' by blast
  qed (use ne sc in \<open>auto simp: range_schema_def\<close>)
  then show ?thesis using s(1) by (simp add: drop_block_def)
qed

text \<open>The effect of a change on one range: its numbers become \<open>v\<close>, and nothing is touched but
  its own objects, free blocks and new objects.\<close>

definition changed :: "('s \<Rightarrow> 'o store) \<Rightarrow> ('o \<Rightarrow> cstr \<Rightarrow> bool) \<Rightarrow> 'o store \<Rightarrow> 'o \<Rightarrow> 'o \<Rightarrow> 'o \<Rightarrow> 'o list \<Rightarrow> 'o list \<Rightarrow> int set \<Rightarrow>
    ('s, 'o, 'm) udb_scheme \<Rightarrow> bool" where
  "changed view unique st bc rc r bs fs v w \<longleftrightarrow>
     env_ok view w \<and>
     (\<exists>cs cl gs. rstate unique (view (database w)) bc rc r cs cl gs \<and> gapped cl \<and> covered cl = v \<and> cs \<noteq> [] \<and>
        set cs \<union> set gs \<subseteq> set bs \<union> set fs \<union> - dom (cls st)) \<and>
     kept bc st (view (database w)) ({r, bc} \<union> set bs \<union> set fs) \<and>
     att (view (database w)) r range_owner = att st r range_owner"

lemma changedI:
  assumes "env_ok view w" "rstate unique (view (database w)) bc rc r cs cl gs" "gapped cl" "covered cl = v" "cs \<noteq> []"
    "set cs \<union> set gs \<subseteq> set bs \<union> set fs \<union> - dom (cls st)" "kept bc st (view (database w)) u" "u \<subseteq> {r, bc} \<union> set bs \<union> set fs"
    "att (view (database w)) r range_owner = att st r range_owner"
  shows "changed view unique st bc rc r bs fs v w"
  using assms kept_mono [OF assms(7,8)] unfolding changed_def by blast

lemma changed_after:
  assumes "changed view unique st1 bc rc r ds hs v w" "set ds \<union> set hs \<subseteq> set bs \<union> set fs"
    "kept bc st st1 ({r, bc} \<union> set bs \<union> set fs)" "att st1 r range_owner = att st r range_owner"
  shows "changed view unique st bc rc r bs fs v w"
proof -
  obtain cs cl gs where C: "rstate unique (view (database w)) bc rc r cs cl gs" "gapped cl" "covered cl = v" "cs \<noteq> []"
      "set cs \<union> set gs \<subseteq> set ds \<union> set hs \<union> - dom (cls st1)"
    using assms(1) by (auto simp: changed_def)
  have "- dom (cls st1) \<subseteq> - dom (cls st)" using assms(3) by (auto simp: kept_def domIff)
  then have s: "set cs \<union> set gs \<subseteq> set bs \<union> set fs \<union> - dom (cls st)" using C(5) assms(2) by blast
  have "kept bc st (view (database w)) ({r, bc} \<union> set bs \<union> set fs)"
    by (rule kept_trans [OF assms(3), of _ "{r, bc} \<union> set ds \<union> set hs"]) (use assms(1,2) in \<open>auto simp: changed_def\<close>)
  then show ?thesis using C(1-4) s assms(1,4) by (intro changedI [of view w unique bc rc r cs cl gs]) (auto simp: changed_def)
qed

lemma kept_owner: "kept bc st st' u \<Longrightarrow> r \<notin> u \<Longrightarrow> cls st r = Some rc \<Longrightarrow> att st' r = att st r"
  by (auto simp: kept_def)

lemma put_bound_changed:
  assumes ok: "dbi_ok db view schema unique" and sc: "range_schema schema unique bc rc" and e: "env_ok view w"
    and R: "rstate unique (view (database w)) bc rc r bs bl fs" and i: "i < length bs"
    and a: "a = range_start \<and> p = (v, snd (bl ! i)) \<or> a = range_end \<and> p = (fst (bl ! i), v)"
    and g: "gapped (bl[i := p])" "covered (bl[i := p]) = u"
  shows "runs (put_checked db (bs ! i) a (DB_INTEGER v) w) (changed view unique (view (database w)) bc rc r bs fs u)"
proof (rule put_bound_runs [OF ok sc e R i])
  fix w' assume "env_ok view w'"
    and R': "rstate unique (view (database w')) bc rc r bs (bl[i := if a = range_start then (v, snd (bl ! i)) else (fst (bl ! i), v)]) fs"
    and K: "kept bc (view (database w)) (view (database w')) {bs ! i}"
  have "bs ! i \<noteq> r" using rstate_apart(1) [OF R] sc nth_mem [OF i] by (auto simp: range_schema_def)
  then have "att (view (database w')) r = att (view (database w)) r" using kept_owner [OF K] R by (auto simp: rstate_def)
  moreover have "(if a = range_start then (v, snd (bl ! i)) else (fst (bl ! i), v)) = p" using a by auto
  ultimately show "changed view unique (view (database w)) bc rc r bs fs u w'"
    using changedI [OF \<open>env_ok view w'\<close> R' _ _ _ _ K] g i by fastforce
qed (use a in auto)

lemma New_Block_changed:
  assumes ok: "dbi_ok db view schema unique" and sc: "range_schema schema unique bc rc" and e: "env_ok view w"
    and R: "rstate unique (view (database w)) bc rc r bs bl fs" and i: "i \<le> length bs"
    and g: "gapped (take i bl @ (start, stop) # drop i bl)" "covered (take i bl @ (start, stop) # drop i bl) = u"
  shows "runs (New_Block db (Col_Attribute r range_blocks) i start stop w) (\<lambda>(col, w'). changed view unique (view (database w)) bc rc r bs fs u w')"
proof (rule New_Block_runs [OF ok sc e R i])
  fix col w' x gs
  assume *: "env_ok view w'" "x \<in> set fs \<or> x \<notin> dom (cls (view (database w)))"
    "rstate unique (view (database w')) bc rc r (take i bs @ x # drop i bs) (take i bl @ (start, stop) # drop i bl) gs" "set gs \<subseteq> set fs"
    "kept bc (view (database w)) (view (database w')) ({r, bc} \<union> set fs)"
    "att (view (database w')) r range_owner = att (view (database w)) r range_owner"
  have "set (take i bs @ x # drop i bs) \<union> set gs \<subseteq> set bs \<union> set fs \<union> - dom (cls (view (database w)))"
    using *(2,4) by (auto dest: in_set_takeD in_set_dropD)
  then have "changed view unique (view (database w)) bc rc r bs fs u w'"
    by (intro changedI [OF *(1,3) g _ _ *(5) _ *(6)]) auto
  then show "(\<lambda>(col, w'). changed view unique (view (database w)) bc rc r bs fs u w') (col, w')" by simp
qed

lemma nth_remove: "i < length xs \<Longrightarrow> (take i xs @ drop (Suc i) xs) ! k = (if k < i then xs ! k else xs ! Suc k)" if "k < length xs - 1" for k
  using that by (auto simp: nth_append min_def)

text \<open>A block is dropped and a bound of a remaining one set.\<close>

lemma drop_put_changed:
  fixes w :: "('s, 'o, 'm) udb_scheme"
  assumes ok: "dbi_ok db view schema unique" and sc: "range_schema schema unique bc rc" and e: "env_ok view w"
    and R: "rstate unique (view (database w)) bc rc r bs bl fs" and i: "i < length bs" and k: "k < length bs - 1"
    and b: "b = (take i bs @ drop (Suc i) bs) ! k" and q: "q = (take i bl @ drop (Suc i) bl) ! k"
    and a: "a = range_start \<and> p = (v, snd q) \<or> a = range_end \<and> p = (fst q, v)"
    and g: "gapped ((take i bl @ drop (Suc i) bl)[k := p])" "covered ((take i bl @ drop (Suc i) bl)[k := p]) = u"
  shows "runs (drop_block db bc (Col_Attribute r range_blocks) i (bs ! i) w)
    (\<lambda>(col, w'). runs (put_checked db b a (DB_INTEGER v) w') (changed view unique (view (database w)) bc rc r bs fs u))"
proof (rule drop_block_runs [OF ok sc e R i])
  let ?st = "view (database w)" and ?bs = "take i bs @ drop (Suc i) bs" and ?bl = "take i bl @ drop (Suc i) bl"
  fix w' :: "('s, 'o, 'm) udb_scheme"
  let ?st' = "view (database w')"
  assume e': "env_ok view w'" and R': "rstate unique ?st' bc rc r ?bs ?bl (bs ! i # fs)" and K: "kept bc ?st ?st' {r, bc, bs ! i}"
    and own: "att ?st' r range_owner = att ?st r range_owner"
  have k': "k < length ?bs" using k i by simp
  have "runs (put_checked db (?bs ! k) a (DB_INTEGER v) w') (changed view unique ?st' bc rc r ?bs (bs ! i # fs) u)"
    by (rule put_bound_changed [OF ok sc e' R' k' _ g]) (use a q in simp)
  then have "runs (put_checked db b a (DB_INTEGER v) w') (changed view unique ?st bc rc r bs fs u)"
    unfolding b [symmetric]
  proof (rule runs_mono)
    fix w2 :: "('s, 'o, 'm) udb_scheme" assume C: "changed view unique ?st' bc rc r ?bs (bs ! i # fs) u w2"
    have "set ?bs \<union> set (bs ! i # fs) \<subseteq> set bs \<union> set fs" using nth_mem [OF i] by (auto dest: in_set_takeD in_set_dropD)
    then show "changed view unique ?st bc rc r bs fs u w2"
      using nth_mem [OF i] by (intro changed_after [OF C _ kept_mono [OF K] own]) auto
  qed
  then show "(\<lambda>(col, w'). runs (put_checked db b a (DB_INTEGER v) w') (changed view unique ?st bc rc r bs fs u)) (Col_Attribute r range_blocks, w')"
    by simp
qed

lemma merge_down:
  assumes "Suc i < length xs"
  shows "(take i xs @ drop (Suc i) xs) ! i = xs ! Suc i" "(take i xs @ drop (Suc i) xs)[i := y] = take i xs @ y # drop (Suc (Suc i)) xs"
  using assms by (auto simp: nth_append upd_conv_take_nth_drop min_def)

lemma merge_up:
  assumes "Suc i < length xs"
  shows "(take (Suc i) xs @ drop (Suc (Suc i)) xs) ! i = xs ! i" "(take (Suc i) xs @ drop (Suc (Suc i)) xs)[i := y] = take i xs @ y # drop (Suc (Suc i)) xs"
  using assms by (auto simp: nth_append upd_conv_take_nth_drop min_def list_update_append)

lemma covered_ends: "gapped bl \<Longrightarrow> i < length bl \<Longrightarrow> fst (bl ! i) \<in> covered bl \<and> snd (bl ! i) \<in> covered bl"
  using gapped_le covered_nth by blast

lemma int32_between: "is_int32 a \<Longrightarrow> is_int32 c \<Longrightarrow> a \<le> b \<Longrightarrow> b \<le> c \<Longrightarrow> int32 b = b"
  by (rule int32_id) (simp add: is_int32_def)


lemma extend_or_merge_below:
  fixes w :: "('s, 'o, 'm) udb_scheme"
  assumes ok: "dbi_ok db view schema unique" and sc: "range_schema schema unique bc rc" and e: "env_ok view w"
    and R: "rstate unique (view (database w)) bc rc r bs bl fs" and g: "gapped bl" and i: "Suc i < length bs"
    and v: "v = fst (bl ! Suc i) - 1" "snd (bl ! i) < v" and st: "v = snd (bl ! i) + 1 \<Longrightarrow> start = fst (bl ! i)"
  shows "runs (if v > snd (bl ! i) + 1 then put_checked db (bs ! Suc i) range_start (DB_INTEGER v) w
      else c_bind (drop_block db bc (Col_Attribute r range_blocks) i (bs ! i) w) (\<lambda>(col, w). put_checked db (bs ! Suc i) range_start (DB_INTEGER start) w))
    (changed view unique (view (database w)) bc rc r bs fs (insert v (covered bl)))"
proof (cases "v > snd (bl ! i) + 1")
  case True
  have l: "Suc i < length bl" using i rstate_length [OF R] by simp
  note E = extend_start [OF g l v(1)]
  have "runs (put_checked db (bs ! Suc i) range_start (DB_INTEGER v) w) (changed view unique (view (database w)) bc rc r bs fs (insert v (covered bl)))"
    by (rule put_bound_changed [OF ok sc e R i, where p = "(v, snd (bl ! Suc i))"]) (use E True in simp_all)
  then show ?thesis using True by simp
next
  case False
  then have v2: "v = snd (bl ! i) + 1" using v(2) by simp
  have l: "Suc i < length bl" using i rstate_length [OF R] by simp
  note M = merge_blocks [OF g l v2 v(1)]
  have "runs (drop_block db bc (Col_Attribute r range_blocks) i (bs ! i) w)
    (\<lambda>(col, w'). runs (put_checked db (bs ! Suc i) range_start (DB_INTEGER (fst (bl ! i))) w') (changed view unique (view (database w)) bc rc r bs fs (insert v (covered bl))))"
    by (rule drop_put_changed [OF ok sc e R, where k = i and q = "bl ! Suc i" and p = "(fst (bl ! i), snd (bl ! Suc i))"])
      (use i l merge_down [of i bs] merge_down [OF l] M in simp_all)
  then show ?thesis using False st [OF v2] by simp
qed

lemma extend_or_merge_above:
  fixes w :: "('s, 'o, 'm) udb_scheme"
  assumes ok: "dbi_ok db view schema unique" and sc: "range_schema schema unique bc rc" and e: "env_ok view w"
    and R: "rstate unique (view (database w)) bc rc r bs bl fs" and g: "gapped bl" and i: "Suc i < length bs"
    and v: "v = snd (bl ! i) + 1" "v < fst (bl ! Suc i)" and st: "v = fst (bl ! Suc i) - 1 \<Longrightarrow> stop = snd (bl ! Suc i)"
  shows "runs (if v < fst (bl ! Suc i) - 1 then put_checked db (bs ! i) range_end (DB_INTEGER v) w
      else c_bind (drop_block db bc (Col_Attribute r range_blocks) (Suc i) (bs ! Suc i) w) (\<lambda>(col, w). put_checked db (bs ! i) range_end (DB_INTEGER stop) w))
    (changed view unique (view (database w)) bc rc r bs fs (insert v (covered bl)))"
proof (cases "v < fst (bl ! Suc i) - 1")
  case True
  have l: "i < length bl" "i < length bs" using i rstate_length [OF R] by simp_all
  note E = extend_end [OF g l(1) v(1)]
  have "runs (put_checked db (bs ! i) range_end (DB_INTEGER v) w) (changed view unique (view (database w)) bc rc r bs fs (insert v (covered bl)))"
    by (rule put_bound_changed [OF ok sc e R l(2), where p = "(fst (bl ! i), v)"]) (use E True in simp_all)
  then show ?thesis using True by simp
next
  case False
  then have v2: "v = fst (bl ! Suc i) - 1" using v(2) by simp
  have l: "Suc i < length bl" using i rstate_length [OF R] by simp
  note M = merge_blocks [OF g l v(1) v2]
  have "runs (drop_block db bc (Col_Attribute r range_blocks) (Suc i) (bs ! Suc i) w)
    (\<lambda>(col, w'). runs (put_checked db (bs ! i) range_end (DB_INTEGER (snd (bl ! Suc i))) w') (changed view unique (view (database w)) bc rc r bs fs (insert v (covered bl))))"
    by (rule drop_put_changed [OF ok sc e R, where k = i and q = "bl ! i" and p = "(fst (bl ! i), snd (bl ! Suc i))"])
      (use i l merge_up [of i bs] merge_up [OF l] M in simp_all)
  then show ?thesis using False st [OF v2] by simp
qed

lemma add_loop_changed:
  fixes w :: "('s, 'o, 'm) udb_scheme"
  assumes ok: "dbi_ok db view schema unique" and sc: "range_schema schema unique bc rc" and e: "env_ok view w"
    and R: "rstate unique (view (database w)) bc rc r bs bl fs" and g: "gapped bl" and int: "covered bl \<subseteq> Collect is_int32" "is_int32 v"
    and nu: "v \<notin> covered bl" and "0 < d" "first + d < length bs" "left < v" "v < right"
    and "fb = bs ! first" "left = snd (bl ! first)" "lb = bs ! (first + d)" "right = fst (bl ! (first + d))"
    and "d = 1 \<and> v = left + 1 \<and> v = right - 1 \<longrightarrow> start = fst (bl ! first) \<and> stop = snd (bl ! (first + d))"
  shows "runs (add_loop db bc (Col_Attribute r range_blocks) v first fb start left d lb right stop w)
    (changed view unique (view (database w)) bc rc r bs fs (insert v (covered bl)))"
  using assms(9-17)
proof (induction d arbitrary: first fb start left lb right stop rule: less_induct)
  case (less d)
  let ?col = "Col_Attribute r range_blocks" and ?C = "changed view unique (view (database w)) bc rc r bs fs (insert v (covered bl))"
  have ll: "length bl = length bs" by (rule rstate_length [OF R])
  have b: "is_int32 left" "is_int32 right" using covered_ends [OF g, of first] covered_ends [OF g, of "first + d"] int less.prems ll by auto
  have i32: "int32 (right - 1) = right - 1" "int32 (left + 1) = left + 1"
    using int32_between [OF int(2) b(2)] int32_between [OF b(1) int(2)] less.prems by simp_all
  have GB: "Get_Bounds db ?col k (database w) = Done (bs ! k, fst (bl ! k), snd (bl ! k))" if "k < length bs" for k
    using Get_Bounds_runs [OF ok R that] by simp
  consider (below) "v = right - 1" | (above) "v \<noteq> right - 1" "v = left + 1" | (new) "v \<noteq> right - 1" "v \<noteq> left + 1" "d div 2 = 0"
    | (mid) "v \<noteq> right - 1" "v \<noteq> left + 1" "d div 2 \<noteq> 0" by blast
  then show ?case
  proof cases
    case below
    define i where "i = first + d - 1"
    have i: "Suc i < length bs" "Suc i = first + d" using less.prems by (simp_all add: i_def)
    have vi: "v = fst (bl ! Suc i) - 1" using below less.prems i by simp
    have li: "snd (bl ! i) < v" using gapped_nth [OF g, of i "Suc i"] i ll vi by simp
    have i32': "int32 (snd (bl ! i) + 1) = snd (bl ! i) + 1"
      using covered_ends [OF g, of i] int ll i li by (intro int32_between [of "snd (bl ! i)" v]) auto
    define a where "a = (if d \<noteq> 1 then fst (bl ! i) else start)"
    have lb: "lb = bs ! Suc i" using less.prems(7) i(2) by simp
    have f: "(if d \<noteq> 1 then Get_Bounds db ?col i (database w) else Done (fb, start, left)) = Done (bs ! i, a, snd (bl ! i))"
      using GB [of i] i less.prems by (auto simp: i_def a_def)
    have eq: "add_loop db bc ?col v first fb start left d lb right stop w =
        c_bind (if d \<noteq> 1 then Get_Bounds db ?col i (database w) else Done (fb, start, left)) (\<lambda>(fb, start, left).
          if v > int32 (left + 1) then put_checked db lb range_start (DB_INTEGER v) w
          else c_bind (drop_block db bc ?col i fb w) (\<lambda>(col, w). put_checked db lb range_start (DB_INTEGER start) w))"
      using below i32(1) less.prems(3,4) unfolding i_def by (subst add_loop.simps) simp
    show ?thesis unfolding eq f c_bind.simps prod.case i32' unfolding lb
      by (rule extend_or_merge_below [OF ok sc e R g i(1) vi li]) (use less.prems i_def below a_def in auto)
  next
    case above
    have i: "Suc first < length bs" using less.prems by simp
    have vi: "v = snd (bl ! first) + 1" using above less.prems by simp
    have li: "v < fst (bl ! Suc first)" using gapped_nth [OF g, of first "Suc first"] i ll vi by simp
    have i32': "int32 (fst (bl ! Suc first) - 1) = fst (bl ! Suc first) - 1"
      using covered_ends [OF g, of "Suc first"] int ll i li by (intro int32_between [of v "fst (bl ! Suc first)"]) auto
    define z where "z = (if d \<noteq> 1 then snd (bl ! Suc first) else stop)"
    have f: "(if d \<noteq> 1 then Get_Bounds db ?col (Suc first) (database w) else Done (lb, right, stop)) = Done (bs ! Suc first, fst (bl ! Suc first), z)"
      using GB [of "Suc first"] i less.prems by (auto simp: z_def)
    have eq: "add_loop db bc ?col v first fb start left d lb right stop w =
        c_bind (if d \<noteq> 1 then Get_Bounds db ?col (Suc first) (database w) else Done (lb, right, stop)) (\<lambda>(lb, right, stop).
          if v < int32 (right - 1) then put_checked db fb range_end (DB_INTEGER v) w
          else c_bind (drop_block db bc ?col (Suc first) lb w) (\<lambda>(col, w). put_checked db fb range_end (DB_INTEGER stop) w))"
      using above i32 less.prems(3,4) unfolding Suc_eq_plus1 by (subst add_loop.simps) simp
    show ?thesis unfolding eq f c_bind.simps prod.case i32' unfolding less.prems(5)
      by (rule extend_or_merge_above [OF ok sc e R g i vi li]) (use less.prems above z_def in auto)
  next
    case new
    then have d: "d = 1" using less.prems(1) by (simp add: div_eq_0_iff)
    have i: "Suc first < length bs" using less.prems(2) d by simp
    have I: "gapped (take (Suc first) bl @ (v, v) # drop (Suc first) bl)" "covered (take (Suc first) bl @ (v, v) # drop (Suc first) bl) = insert v (covered bl)"
      by (rule insert_block [OF g]; use less.prems new i ll d in simp)+
    have "runs (New_Block db ?col (Suc first) v v w) (\<lambda>(col, w'). ?C w')" by (rule New_Block_changed [OF ok sc e R _ I]) (use i in simp)
    moreover have "add_loop db bc ?col v first fb start left d lb right stop w = c_bind (New_Block db ?col (first + d) v v w) (\<lambda>(col, w). Done w)"
      using new i32 less.prems(3,4) by (subst add_loop.simps) simp
    ultimately show ?thesis using d by simp
  next
    case mid
    define h where "h = d div 2"
    have h: "0 < h" "h < d" "first + h < length bs" using mid(3) less.prems(1,2) by (auto simp: h_def)
    have nb: "\<not> (fst (bl ! (first + h)) \<le> v \<and> v \<le> snd (bl ! (first + h)))" using covered_nth nu h(3) ll by metis
    have L: "runs (add_loop db bc ?col v first fb start left h (bs ! (first + h)) (fst (bl ! (first + h))) stop w) ?C" if "v < fst (bl ! (first + h))"
      by (rule less.IH [OF h(2)]) (use that h less.prems mid in auto)
    have U: "runs (add_loop db bc ?col v (first + h) (bs ! (first + h)) start (snd (bl ! (first + h))) (d - h) lb right stop w) ?C" if "v > snd (bl ! (first + h))"
      by (rule less.IH) (use that h less.prems mid in auto)
    have eq: "add_loop db bc ?col v first fb start left d lb right stop w =
        c_bind (Get_Bounds db ?col (first + h) (database w)) (\<lambda>(mb, ms, me).
          if v < ms then add_loop db bc ?col v first fb start left h mb ms stop w
          else if v > me then add_loop db bc ?col v (first + h) mb start me (d - h) lb right stop w else Panic)"
      using mid i32 less.prems(3,4) unfolding h_def by (subst add_loop.simps) simp
    show ?thesis unfolding eq GB [OF h(3)] c_bind.simps prod.case using L U nb by auto
  qed
qed

lemma add_existing_changed:
  fixes w :: "('s, 'o, 'm) udb_scheme"
  assumes ok: "dbi_ok db view schema unique" and sc: "range_schema schema unique bc rc" and e: "env_ok view w"
    and R: "rstate unique (view (database w)) bc rc r bs bl fs" and g: "gapped bl" and int: "covered bl \<subseteq> Collect is_int32" "is_int32 v"
    and nu: "v \<notin> covered bl" and ne: "bs \<noteq> []" and edge: "v = INT32_MIN \<Longrightarrow> INT32_MAX \<notin> covered bl"
  shows "runs (c_bind (Get_Bounds db (Col_Attribute r range_blocks) (length bs - 1) (database w)) (\<lambda>(lb, right, stop).
      if v = int32 (stop + 1) then put_checked db lb range_end (DB_INTEGER v) w
      else if v > stop then c_bind (New_Block db (Col_Attribute r range_blocks) (length bs - 1 + 1) v v w) (\<lambda>(col, w). Done w)
      else c_bind (Get_Bounds db (Col_Attribute r range_blocks) 0 (database w)) (\<lambda>(fb, start, left).
        if v = int32 (start - 1) then put_checked db fb range_start (DB_INTEGER v) w
        else if v < start then c_bind (New_Block db (Col_Attribute r range_blocks) 0 v v w) (\<lambda>(col, w). Done w)
        else add_loop db bc (Col_Attribute r range_blocks) v 0 fb start left (length bs - 1) lb right stop w)))
    (changed view unique (view (database w)) bc rc r bs fs (insert v (covered bl)))"
proof -
  let ?col = "Col_Attribute r range_blocks" and ?C = "changed view unique (view (database w)) bc rc r bs fs (insert v (covered bl))"
  define n where "n = length bs - 1"
  have ll: "length bl = length bs" by (rule rstate_length [OF R])
  have n: "n < length bs" "0 < length bs" "Suc n = length bs" using ne by (auto simp: n_def)
  have GB: "Get_Bounds db ?col k (database w) = Done (bs ! k, fst (bl ! k), snd (bl ! k))" if "k < length bs" for k
    using Get_Bounds_runs [OF ok R that] by simp
  have b: "is_int32 (snd (bl ! n))" "is_int32 (fst (bl ! 0))" "snd (bl ! n) \<in> covered bl" "fst (bl ! 0) \<in> covered bl"
    using covered_ends [OF g, of n] covered_ends [OF g, of 0] int n ll by auto
  have last: "v = int32 (snd (bl ! n) + 1) \<longleftrightarrow> v = snd (bl ! n) + 1"
  proof (cases "snd (bl ! n) = INT32_MAX")
    case True
    then have "v \<noteq> INT32_MIN" using edge b(3) by auto
    moreover have "v \<noteq> INT32_MAX + 1" using int(2) by (simp add: is_int32_def)
    ultimately show ?thesis using True by (simp add: int32_def)
  next
    case False
    then have "is_int32 (snd (bl ! n) + 1)" using b(1) by (auto simp: is_int32_def)
    then show ?thesis by simp
  qed
  consider (ext) "v = snd (bl ! n) + 1" | (top) "v > snd (bl ! n) + 1" | (low) "v < snd (bl ! n)"
    using nu b(3) by (metis int_one_le_iff_zero_less linorder_less_linear zless_imp_add1_zle order_le_less)
  then show ?thesis
  proof cases
    case ext
    have "runs (put_checked db (bs ! n) range_end (DB_INTEGER v) w) ?C"
      by (rule put_bound_changed [OF ok sc e R n(1), where p = "(fst (bl ! n), v)"])
        (use extend_end [OF g, of n v] ext n ll in auto)
    then show ?thesis unfolding n_def [symmetric] GB [OF n(1)] c_bind.simps prod.case using ext last by simp
  next
    case top
    have I: "gapped (take (Suc n) bl @ (v, v) # drop (Suc n) bl)" "covered (take (Suc n) bl @ (v, v) # drop (Suc n) bl) = insert v (covered bl)"
      using insert_block [OF g, of "Suc n" v] top ll n(3) by (metis diff_Suc_1 le_refl less_irrefl zero_less_Suc)+
    have "runs (New_Block db ?col (Suc n) v v w) (\<lambda>(col, w'). ?C w')" by (rule New_Block_changed [OF ok sc e R _ I]) (use n in simp)
    then show ?thesis unfolding n_def [symmetric] GB [OF n(1)] c_bind.simps prod.case using top last by simp
  next
    case low
    have first: "v = int32 (fst (bl ! 0) - 1) \<longleftrightarrow> v = fst (bl ! 0) - 1"
    proof (cases "fst (bl ! 0) = INT32_MIN")
      case True
      have "v \<noteq> INT32_MAX" using low b(1) by (auto simp: is_int32_def)
      moreover have "v \<noteq> INT32_MIN - 1" using int(2) by (simp add: is_int32_def)
      ultimately show ?thesis using True by (simp add: int32_def)
    next
      case False
      then have "is_int32 (fst (bl ! 0) - 1)" using b(2) by (auto simp: is_int32_def)
      then show ?thesis by simp
    qed
    have eq: "(if v = int32 (snd (bl ! n) + 1) then put_checked db (bs ! n) range_end (DB_INTEGER v) w
      else if v > snd (bl ! n) then c_bind (New_Block db ?col (n + 1) v v w) (\<lambda>(col, w). Done w) else m) = m" for m
      using low last by simp
    consider (ext) "v = fst (bl ! 0) - 1" | (bot) "v < fst (bl ! 0) - 1" | (mid) "v > fst (bl ! 0)"
      using nu b(4) by (metis int_one_le_iff_zero_less linorder_less_linear zle_diff1_eq order_le_less)
    then have "runs (if v = int32 (fst (bl ! 0) - 1) then put_checked db (bs ! 0) range_start (DB_INTEGER v) w
        else if v < fst (bl ! 0) then c_bind (New_Block db ?col 0 v v w) (\<lambda>(col, w). Done w)
        else add_loop db bc ?col v 0 (bs ! 0) (fst (bl ! 0)) (snd (bl ! 0)) n (bs ! n) (fst (bl ! n)) (snd (bl ! n)) w) ?C"
    proof cases
      case ext
      have "runs (put_checked db (bs ! 0) range_start (DB_INTEGER v) w) ?C"
        by (rule put_bound_changed [OF ok sc e R n(2), where p = "(v, snd (bl ! 0))"])
          (use extend_start [OF g, of 0 v] ext n ll in auto)
      then show ?thesis using ext first by simp
    next
      case bot
      have I: "gapped (take 0 bl @ (v, v) # drop 0 bl)" "covered (take 0 bl @ (v, v) # drop 0 bl) = insert v (covered bl)"
        by (rule insert_block [OF g]; use bot n ll in simp)+
      have "runs (New_Block db ?col 0 v v w) (\<lambda>(col, w'). ?C w')" by (rule New_Block_changed [OF ok sc e R _ I]) simp
      then show ?thesis using bot first by simp
    next
      case mid
      have "0 < n" "v > snd (bl ! 0)" "v < fst (bl ! n)"
        using covered_nth [of 0 bl v] covered_nth [of n bl v] nu mid low n ll by (cases "n = 0"; force)+
      then have "runs (add_loop db bc ?col v 0 (bs ! 0) (fst (bl ! 0)) (snd (bl ! 0)) n (bs ! n) (fst (bl ! n)) (snd (bl ! n)) w) ?C"
        by (intro add_loop_changed [OF ok sc e R g int nu]) (use n in simp_all)
      then show ?thesis using mid first by simp
    qed
    then show ?thesis unfolding n_def [symmetric] GB [OF n(1)] GB [OF n(2)] c_bind.simps prod.case eq by simp
  qed
qed

text \<open>The last number is gone: the range object is given back to its class.\<close>

definition emptied :: "('s \<Rightarrow> 'o store) \<Rightarrow> ('o \<Rightarrow> cstr \<Rightarrow> bool) \<Rightarrow> 'o store \<Rightarrow> 'o \<Rightarrow> 'o \<Rightarrow> 'o \<Rightarrow> 'o list \<Rightarrow> 'o list \<Rightarrow> 'o list \<Rightarrow>
    ('s, 'o, 'm) udb_scheme \<Rightarrow> bool" where
  "emptied view unique st bc rc r bs fs xs w \<longleftrightarrow>
     env_ok view w \<and> kept bc st (view (database w)) ({r, bc, rc} \<union> set bs \<union> set fs) \<and>
     att (view (database w)) r range_owner = Some DB_NULL \<and> free_list (view (database w)) rc (r # xs) \<and>
     free_list (view (database w)) bc (bs @ fs)"

lemma covered_single: "gapped bl \<Longrightarrow> covered bl = {v} \<Longrightarrow> bl = [(v, v)]"
proof (cases bl)
  case (Cons p ps)
  assume g: "gapped bl" and c: "covered bl = {v}"
  have "fst p \<le> snd p" using g Cons by (simp add: gapped_Cons)
  then have p: "fst p = v" "snd p = v" using c Cons by (auto simp: set_eq_iff)
  moreover have "ps = []"
  proof (rule ccontr)
    assume "ps \<noteq> []"
    then obtain q where q: "q \<in> set ps" by (meson list.set_sel(1))
    then have "snd p + 1 < fst q" "fst q \<le> snd q" using g Cons by (auto simp: gapped_def)
    moreover have "fst q \<in> covered ps" using q calculation(2) by (auto simp: covered_def)
    ultimately show False using c p Cons by auto
  qed
  ultimately show ?thesis using Cons by (cases p) simp
qed simp

lemma remove_split:
  assumes "i < length bl"
  shows "bl[i := p] = take i bl @ [p] @ drop (Suc i) bl"
    "take (Suc i) (bl[i := p]) @ q # drop (Suc i) (bl[i := p]) = take i bl @ [p, q] @ drop (Suc i) bl"
  using assms by (simp_all add: upd_conv_take_nth_drop)

lemma Del_From_Range_changed:
  fixes w :: "('s, 'o, 'm) udb_scheme"
  assumes ok: "dbi_ok db view schema unique" and sc: "range_schema schema unique bc rc" and e: "env_ok view w"
    and R: "rstate unique (view (database w)) bc rc r bs bl fs" and g: "gapped bl" and int: "covered bl \<subseteq> Collect is_int32"
    and i: "i < length bs" and v: "fst (bl ! i) \<le> v" "v \<le> snd (bl ! i)"
    and fl: "free_list (view (database w)) rc xs" "r \<notin> set xs" and co: "class_object unique (view (database w)) rc"
    and rc: "cls (view (database w)) rc \<noteq> Some bc" "cls (view (database w)) rc \<noteq> Some rc" "cls (view (database w)) bc \<noteq> Some rc"
  shows "runs (Del_From_Range db rc r (Col_Attribute r range_blocks) i (bs ! i) (fst (bl ! i)) (snd (bl ! i)) v w)
    (\<lambda>w'. if covered bl = {v} then emptied view unique (view (database w)) bc rc r bs fs xs w'
      else changed view unique (view (database w)) bc rc r bs fs (covered bl - {v}) w')"
    (is "runs _ ?Q")
proof -
  let ?col = "Col_Attribute r range_blocks" and ?st = "view (database w)"
  have ll: "length bl = length bs" by (rule rstate_length [OF R])
  have il: "i < length bl" using i ll by simp
  note N = remove_number [OF g il v refl]
  have b: "is_int32 (fst (bl ! i))" "is_int32 (snd (bl ! i))" using covered_ends [OF g il] int by auto
  have multi: "covered bl \<noteq> {v}" if "fst (bl ! i) < snd (bl ! i)"
    using that covered_nth [OF il, of "fst (bl ! i)"] covered_nth [OF il, of "snd (bl ! i)"] by auto
  consider (single) "fst (bl ! i) = v" "snd (bl ! i) = v" | (left) "fst (bl ! i) = v" "v < snd (bl ! i)"
    | (right) "fst (bl ! i) < v" "snd (bl ! i) = v" | (mid) "fst (bl ! i) < v" "v < snd (bl ! i)" using v by linarith
  then show ?thesis
  proof cases
    case left
    have "int32 (v + 1) = v + 1" using left b by (intro int32_between [of v "snd (bl ! i)"]) auto
    moreover have "runs (put_checked db (bs ! i) range_start (DB_INTEGER (v + 1)) w) (changed view unique ?st bc rc r bs fs (covered bl - {v}))"
      by (rule put_bound_changed [OF ok sc e R i, where p = "(v + 1, snd (bl ! i))"]) (use N left remove_split(1) [OF il] in simp_all)
    ultimately show ?thesis using left multi by (simp add: Del_From_Range_def)
  next
    case right
    have "int32 (v - 1) = v - 1" using right b by (intro int32_between [of "fst (bl ! i)" v]) auto
    moreover have "runs (put_checked db (bs ! i) range_end (DB_INTEGER (v - 1)) w) (changed view unique ?st bc rc r bs fs (covered bl - {v}))"
      by (rule put_bound_changed [OF ok sc e R i, where p = "(fst (bl ! i), v - 1)"]) (use N right remove_split(1) [OF il] in simp_all)
    ultimately show ?thesis using right multi by (simp add: Del_From_Range_def)
  next
    case mid
    have i32: "int32 (v - 1) = v - 1" "int32 (v + 1) = v + 1"
      using mid b by (auto intro!: int32_between [of "fst (bl ! i)" "snd (bl ! i)"])
    have "runs (put_checked db (bs ! i) range_end (DB_INTEGER (v - 1)) w)
      (\<lambda>w. runs (New_Block db ?col (i + 1) (v + 1) (snd (bl ! i)) w) (\<lambda>(col, w'). changed view unique ?st bc rc r bs fs (covered bl - {v}) w'))"
    proof (rule put_bound_runs [OF ok sc e R i])
      fix w1 :: "('s, 'o, 'm) udb_scheme"
      assume e1: "env_ok view w1" and K: "kept bc ?st (view (database w1)) {bs ! i}"
        and "rstate unique (view (database w1)) bc rc r bs (bl[i := if range_end = range_start then (v - 1, snd (bl ! i)) else (fst (bl ! i), v - 1)]) fs"
      then have R1: "rstate unique (view (database w1)) bc rc r bs (bl[i := (fst (bl ! i), v - 1)]) fs" by simp
      have "bs ! i \<noteq> r" using rstate_apart(1) [OF R] sc nth_mem [OF i] by (auto simp: range_schema_def)
      then have own: "att (view (database w1)) r range_owner = att ?st r range_owner" using kept_owner [OF K] R by (auto simp: rstate_def)
      have "runs (New_Block db ?col (i + 1) (v + 1) (snd (bl ! i)) w1)
        (\<lambda>(col, w'). changed view unique (view (database w1)) bc rc r bs fs (covered bl - {v}) w')"
        by (rule New_Block_changed [OF ok sc e1 R1]) (use i N mid remove_split(2) [OF il] in simp_all)
      then show "runs (New_Block db ?col (i + 1) (v + 1) (snd (bl ! i)) w1) (\<lambda>(col, w'). changed view unique ?st bc rc r bs fs (covered bl - {v}) w')"
      proof (rule runs_mono, clarify)
        fix w' :: "('s, 'o, 'm) udb_scheme" assume C: "changed view unique (view (database w1)) bc rc r bs fs (covered bl - {v}) w'"
        show "changed view unique ?st bc rc r bs fs (covered bl - {v}) w'"
          by (rule changed_after [OF C _ kept_mono [OF K] own]) (use nth_mem [OF i] in auto)
      qed
    qed simp
    then show ?thesis using mid multi i32 by (simp add: Del_From_Range_def)
  next
    case single
    have bcl: "db_get_class db (bs ! i) (database w) = bc" 
      using dbi_reads(2) [OF ok rstate_class [OF R nth_mem [OF i]]] R by (auto simp: rstate_def block_class_ok_def class_object_def)
    have "runs (drop_block db bc ?col i (bs ! i) w) (\<lambda>(col, w).
        runs (if db_col_size db col (database w) = 0 then Udb_Append_Free_List db rc (dbt_edit_object r) (Some range_owner) w else Done w) ?Q)"
    proof (rule drop_block_runs [OF ok sc e R i], unfold prod.case)
      fix w1 :: "('s, 'o, 'm) udb_scheme"
      let ?st1 = "view (database w1)" and ?bs = "take i bs @ drop (Suc i) bs" and ?bl = "take i bl @ drop (Suc i) bl"
      assume e1: "env_ok view w1" and R1: "rstate unique ?st1 bc rc r ?bs ?bl (bs ! i # fs)" and K: "kept bc ?st ?st1 {r, bc, bs ! i}"
        and own: "att ?st1 r range_owner = att ?st r range_owner"
      have sz: "db_col_size db ?col (database w1) = length ?bs" using dbi_reads(4) [OF ok elems_blocks [OF R1]] by simp
      have gl: "gapped ?bl" "covered ?bl = covered bl - {v}" using N single by simp_all
      show "runs (if db_col_size db ?col (database w1) = 0 then Udb_Append_Free_List db rc (dbt_edit_object r) (Some range_owner) w1 else Done w1) ?Q"
      proof (cases "?bs = []")
        case False
        have "covered bl \<noteq> {v}" using covered_single [OF g] False ll i by (auto simp: Cons_eq_append_conv)
        moreover have "changed view unique ?st bc rc r bs fs (covered bl - {v}) w1"
          by (rule changedI [OF e1 R1 gl False _ K _ own]) (use nth_mem [OF i] in \<open>auto dest: in_set_takeD in_set_dropD\<close>)
        moreover have z: "\<not> db_col_size db ?col (database w1) = 0" using False by (simp only: sz length_0_conv not_False_eq_True)
        ultimately show ?thesis by (simp add: z)
      next
        case True
        then have one: "bs = [bs ! i]" "i = 0" using i by (cases bs; auto)+
        have "?bl = []" using True ll by auto
        then have "covered bl - {v} = {}" using gl(2) by (metis covered_simps(1))
        then have cov: "covered bl = {v}" using covered_nth [OF il v] by blast
        have ne: "r \<noteq> rc" "bs ! i \<noteq> rc" "bc \<noteq> rc" "bs ! i \<noteq> r" "r \<noteq> bc"
          using rc R rstate_class [OF R nth_mem [OF i]] sc rstate_apart(1) [OF R] nth_mem [OF i] by (auto simp: rstate_def range_schema_def)
        have kc: "y \<in> dom (cls ?st) \<Longrightarrow> cls ?st1 y = cls ?st y" for y using K by (simp add: kept_def)
        have ka: "y \<in> dom (cls ?st) \<Longrightarrow> y \<notin> {r, bc, bs ! i} \<Longrightarrow> att ?st1 y = att ?st y" for y using K by (simp add: kept_def)
        have dr: "rc \<in> dom (cls ?st)" using co by (auto simp: class_object_def)
        have clx: "cls ?st x = Some rc" if "x \<in> set xs" for x using free_list_class [OF fl(1) that] .
        have nx: "x \<noteq> r \<and> x \<noteq> bc \<and> x \<noteq> bs ! i" if "x \<in> set xs" for x
          using clx [OF that] fl(2) that rstate_class [OF R nth_mem [OF i]] sc rc(3) by (auto simp: range_schema_def)
        have kx: "cls ?st1 x = cls ?st x" "att ?st1 x = att ?st x" if "x \<in> set xs" for x
          using kc [of x] ka [of x] nx [OF that] clx [OF that] by (auto dest: domI)
        have "att ?st1 rc = att ?st rc" using ka [OF dr] ne by auto
        then have fl1: "free_list ?st1 rc xs" by (intro free_list_cong [OF fl(1)]) (simp_all add: kx)
        have "runs (Udb_Append_Free_List db rc (dbt_edit_object r) (Some range_owner) w1) ?Q"
        proof (rule free_runs [OF ok e1 fl1])
          show "class_object unique ?st1 rc" using co kc [OF dr] by (simp add: class_object_def)
          show "cls ?st1 r = Some rc" using R1 by (simp add: rstate_def)
          fix w2 :: "('s, 'o, 'm) udb_scheme" assume e2: "env_ok view w2" and F: "freed ?st1 rc xs (Some range_owner) r (view (database w2))"
          have fl2: "free_list (view (database w2)) bc (bs ! i # fs)"
          proof (rule free_list_cong [of ?st1])
            show "free_list ?st1 bc (bs ! i # fs)" using R1 by (simp add: rstate_def)
            fix x assume "x \<in> set (bs ! i # fs)"
            then have "cls ?st1 x = Some bc" using free_list_class [of ?st1 bc "bs ! i # fs"] R1 by (auto simp: rstate_def)
            then have "x \<noteq> r" "x \<noteq> rc" using R1 sc rc kc [OF dr] by (auto simp: rstate_def range_schema_def)
            then show "att (view (database w2)) x nextfree = att ?st1 x nextfree" using F by (simp add: freed_def)
          qed (use F ne in \<open>auto simp: freed_def\<close>)
          have K2: "kept bc ?st (view (database w2)) ({r, bc, rc} \<union> set bs \<union> set fs)"
            unfolding kept_def
          proof (intro conjI ballI allI impI)
            show "cnam (view (database w2)) = cnam ?st" using F K by (simp add: freed_def kept_def)
            fix y assume y: "y \<in> dom (cls ?st)"
            show "cls (view (database w2)) y = cls ?st y" using F kc [OF y] by (simp add: freed_def)
            assume "y \<notin> {r, bc, rc} \<union> set bs \<union> set fs"
            then show "att (view (database w2)) y = att ?st y" using F ka [OF y] nth_mem [OF i] by (auto simp: freed_def)
          next
            fix y assume "y \<notin> dom (cls ?st)"
            then show "cls (view (database w2)) y \<in> {None, Some bc}" using F K by (simp add: freed_def kept_def)
          qed
          have "bs @ fs = bs ! i # fs" using one(1) by (metis append_Cons append_Nil)
          then have "free_list (view (database w2)) bc (bs @ fs)" using fl2 by (simp only:)
          then show "?Q w2" using e2 F K2 cov by (simp add: emptied_def freed_def)
        qed (use sc fl(2) in \<open>auto simp: range_schema_def\<close>)
        moreover have z: "db_col_size db ?col (database w1) = 0" using True by (simp only: sz length_0_conv)
        ultimately show ?thesis by (simp add: z)
      qed
    qed
    then show ?thesis using single bcl by (simp add: Del_From_Range_def)
  qed
qed

text \<open>The half-interval search of \<open>Del_Used\<close> finds the block of a number in use.\<close>

lemma covered_index: "v \<in> covered bl \<Longrightarrow> \<exists>i<length bl. fst (bl ! i) \<le> v \<and> v \<le> snd (bl ! i)"
  by (force simp: covered_def in_set_conv_nth)

definition deleted :: "('s \<Rightarrow> 'o store) \<Rightarrow> ('o \<Rightarrow> cstr \<Rightarrow> bool) \<Rightarrow> 'o store \<Rightarrow> 'o \<Rightarrow> 'o \<Rightarrow> 'o \<Rightarrow> 'o list \<Rightarrow> (int \<times> int) list \<Rightarrow> 'o list \<Rightarrow> 'o list \<Rightarrow> int \<Rightarrow>
    ('s, 'o, 'm) udb_scheme \<Rightarrow> bool" where
  "deleted view unique st bc rc r bs bl fs xs v w \<longleftrightarrow>
     (if covered bl = {v} then emptied view unique st bc rc r bs fs xs w
      else changed view unique st bc rc r bs fs (covered bl - {v}) w)"

lemma del_loop_deleted:
  fixes w :: "('s, 'o, 'm) udb_scheme"
  assumes ok: "dbi_ok db view schema unique" and sc: "range_schema schema unique bc rc" and e: "env_ok view w"
    and R: "rstate unique (view (database w)) bc rc r bs bl fs" and g: "gapped bl" and int: "covered bl \<subseteq> Collect is_int32"
    and v: "v \<in> covered bl"
    and fl: "free_list (view (database w)) rc xs" "r \<notin> set xs" and co: "class_object unique (view (database w)) rc"
    and rc: "cls (view (database w)) rc \<noteq> Some bc" "cls (view (database w)) rc \<noteq> Some rc" "cls (view (database w)) bc \<noteq> Some rc"
    and d: "first + d < length bs" "snd (bl ! first) < v" "v < fst (bl ! (first + d))"
  shows "runs (del_loop db rc r (Col_Attribute r range_blocks) v first d w) (deleted view unique (view (database w)) bc rc r bs bl fs xs v)"
  using d
proof (induction d arbitrary: first rule: less_induct)
  case (less d)
  let ?m = "first + d div 2" and ?col = "Col_Attribute r range_blocks" and ?Q = "deleted view unique (view (database w)) bc rc r bs bl fs xs v"
  have ll: "length bl = length bs" by (rule rstate_length [OF R])
  obtain i where i: "i < length bl" "fst (bl ! i) \<le> v" "v \<le> snd (bl ! i)" using covered_index [OF v] by blast
  have "first < i"
  proof (rule ccontr)
    assume "\<not> first < i"
    then have "i = first \<or> i < first" by auto
    then show False using i less.prems gapped_nth [OF g, of i first] gapped_le [OF g, of first] ll by auto
  qed
  moreover have "i < first + d"
  proof (rule ccontr)
    assume "\<not> i < first + d"
    then have "i = first + d \<or> first + d < i" by auto
    then show False using i less.prems gapped_nth [OF g, of "first + d" i] gapped_le [OF g, of "first + d"] ll by auto
  qed
  ultimately have h: "0 < d div 2" "d div 2 < d" by auto
  have m: "?m < length bs" using less.prems(1) h by simp
  have GB: "Get_Bounds db ?col ?m (database w) = Done (bs ! ?m, fst (bl ! ?m), snd (bl ! ?m))" using Get_Bounds_runs [OF ok R m] by simp
  consider (below) "v < fst (bl ! ?m)" | (above) "fst (bl ! ?m) \<le> v" "snd (bl ! ?m) < v" | (here) "fst (bl ! ?m) \<le> v" "v \<le> snd (bl ! ?m)" by linarith
  then have "runs (if v < fst (bl ! ?m) then del_loop db rc r ?col v first (d div 2) w
      else if v > snd (bl ! ?m) then del_loop db rc r ?col v ?m (d - d div 2) w
      else Del_From_Range db rc r ?col ?m (bs ! ?m) (fst (bl ! ?m)) (snd (bl ! ?m)) v w) ?Q"
  proof cases
    case below
    have "runs (del_loop db rc r ?col v first (d div 2) w) ?Q" by (rule less.IH) (use h m below less.prems in simp_all)
    then show ?thesis using below by simp
  next
    case above
    have "runs (del_loop db rc r ?col v ?m (d - d div 2) w) ?Q" by (rule less.IH) (use h above less.prems in simp_all)
    then show ?thesis using above by simp
  next
    case here
    have "runs (Del_From_Range db rc r ?col ?m (bs ! ?m) (fst (bl ! ?m)) (snd (bl ! ?m)) v w) ?Q"
      unfolding deleted_def by (rule Del_From_Range_changed [OF ok sc e R g int m here fl co rc])
    then show ?thesis using here by simp
  qed
  then show ?case unfolding del_loop.simps [of db rc r ?col v first d w] GB c_bind.simps prod.case using h by simp
qed

lemma del_existing_deleted:
  fixes w :: "('s, 'o, 'm) udb_scheme"
  assumes ok: "dbi_ok db view schema unique" and sc: "range_schema schema unique bc rc" and e: "env_ok view w"
    and R: "rstate unique (view (database w)) bc rc r bs bl fs" and g: "gapped bl" and int: "covered bl \<subseteq> Collect is_int32"
    and v: "v \<in> covered bl"
    and fl: "free_list (view (database w)) rc xs" "r \<notin> set xs" and co: "class_object unique (view (database w)) rc"
    and rc: "cls (view (database w)) rc \<noteq> Some bc" "cls (view (database w)) rc \<noteq> Some rc" "cls (view (database w)) bc \<noteq> Some rc"
  shows "runs (c_bind (Get_Bounds db (Col_Attribute r range_blocks) (length bs - 1) (database w)) (\<lambda>(block, start, stop).
          if v \<ge> start then Del_From_Range db rc r (Col_Attribute r range_blocks) (length bs - 1) block start stop v w
          else c_bind (Get_Bounds db (Col_Attribute r range_blocks) 0 (database w)) (\<lambda>(block, start, stop).
            if v \<le> stop then Del_From_Range db rc r (Col_Attribute r range_blocks) 0 block start stop v w
            else del_loop db rc r (Col_Attribute r range_blocks) v 0 (length bs - 1) w)))
    (deleted view unique (view (database w)) bc rc r bs bl fs xs v)"
proof -
  let ?col = "Col_Attribute r range_blocks" and ?Q = "deleted view unique (view (database w)) bc rc r bs bl fs xs v"
  define n where "n = length bs - 1"
  have ll: "length bl = length bs" by (rule rstate_length [OF R])
  obtain i where i: "i < length bl" "fst (bl ! i) \<le> v" "v \<le> snd (bl ! i)" using covered_index [OF v] by blast
  then have n: "n < length bs" "0 < length bs" "n < length bl" "0 < length bl" "i \<le> n" using ll by (auto simp: n_def)
  have GB: "Get_Bounds db ?col k (database w) = Done (bs ! k, fst (bl ! k), snd (bl ! k))" if "k < length bs" for k
    using Get_Bounds_runs [OF ok R that] by simp
  note D = Del_From_Range_changed [OF ok sc e R g int _ _ _ fl co rc, folded deleted_def]
  have top: "v \<le> snd (bl ! n)"
    using i n gapped_nth [OF g, of i n] gapped_le [OF g, of n] by (cases "i = n") auto
  have bot: "fst (bl ! 0) \<le> v"
    using i n gapped_nth [OF g, of 0 i] gapped_le [OF g, of 0] by (cases "i = 0") auto
  consider (last) "fst (bl ! n) \<le> v" | (first) "v < fst (bl ! n)" "v \<le> snd (bl ! 0)" | (mid) "v < fst (bl ! n)" "snd (bl ! 0) < v" by linarith
  then show ?thesis unfolding n_def [symmetric] GB [OF n(1)] GB [OF n(2)] c_bind.simps prod.case
  proof cases
    case last
    then show "runs (if v \<ge> fst (bl ! n) then Del_From_Range db rc r ?col n (bs ! n) (fst (bl ! n)) (snd (bl ! n)) v w
      else if v \<le> snd (bl ! 0) then Del_From_Range db rc r ?col 0 (bs ! 0) (fst (bl ! 0)) (snd (bl ! 0)) v w
      else del_loop db rc r ?col v 0 n w) ?Q" using D [OF n(1) last top] by simp
  next
    case first
    then show "runs (if v \<ge> fst (bl ! n) then Del_From_Range db rc r ?col n (bs ! n) (fst (bl ! n)) (snd (bl ! n)) v w
      else if v \<le> snd (bl ! 0) then Del_From_Range db rc r ?col 0 (bs ! 0) (fst (bl ! 0)) (snd (bl ! 0)) v w
      else del_loop db rc r ?col v 0 n w) ?Q" using D [OF n(2) bot first(2)] by simp
  next
    case mid
    have "runs (del_loop db rc r ?col v 0 n w) ?Q"
      by (rule del_loop_deleted [OF ok sc e R g int v fl co rc]) (use n mid in simp_all)
    then show "runs (if v \<ge> fst (bl ! n) then Del_From_Range db rc r ?col n (bs ! n) (fst (bl ! n)) (snd (bl ! n)) v w
      else if v \<le> snd (bl ! 0) then Del_From_Range db rc r ?col 0 (bs ! 0) (fst (bl ! 0)) (snd (bl ! 0)) v w
      else del_loop db rc r ?col v 0 n w) ?Q" using mid by simp
  qed
qed

text \<open>The search for a free number.\<close>

definition least_free :: "int set \<Rightarrow> int \<Rightarrow> int \<Rightarrow> bool" where
  "least_free u m k \<longleftrightarrow> m \<le> k \<and> k \<notin> u \<and> {m..<k} \<subseteq> u"

lemma auto_loop_least:
  assumes ok: "dbi_ok db view schema unique" and R: "rstate unique (view s) bc rc r bs bl fs" and g: "gapped bl"
    and int: "covered bl \<subseteq> Collect is_int32" and mx: "INT32_MAX \<notin> covered bl"
    and i: "i + n = length bs" and below: "\<And>j. j < i \<Longrightarrow> snd (bl ! j) < m"
  shows "\<exists>k. auto_loop db (Col_Attribute r range_blocks) i n m s = Done k \<and> least_free (covered bl) m k"
  using i below
proof (induction n arbitrary: i m)
  case 0
  have "v < m" if v: "v \<in> covered bl" for v
  proof -
    obtain j where "j < length bl" "v \<le> snd (bl ! j)" using covered_index [OF v] by blast
    then show ?thesis using 0 rstate_length [OF R] by fastforce
  qed
  then show ?case by (auto simp: least_free_def)
next
  case (Suc n)
  let ?col = "Col_Attribute r range_blocks"
  have i: "i < length bs" "i < length bl" using Suc.prems(1) rstate_length [OF R] by simp_all
  have GB: "Get_Bounds db (Col_Attribute r range_blocks) i s = Done (bs ! i, fst (bl ! i), snd (bl ! i))" using Get_Bounds_runs [OF ok R i(1)] by simp
  have ends: "snd (bl ! i) \<in> covered bl" "is_int32 (snd (bl ! i))" using covered_ends [OF g i(2)] int by auto
  then have "is_int32 (snd (bl ! i) + 1)" using mx by (cases "snd (bl ! i) = INT32_MAX") (auto simp: is_int32_def)
  then have w: "int32 (snd (bl ! i) + 1) = snd (bl ! i) + 1" by simp
  have before: "snd (bl ! j) < snd (bl ! i)" if "j < i" for j using gapped_nth [OF g that i(2)] gapped_le [OF g i(2)] by simp
  have nxt: "snd (bl ! j) < k" if "j < i + 1" "snd (bl ! i) < k" for j k using that before [of j] by (cases "j = i") auto
  consider (skip) "m > snd (bl ! i) + 1" | (stop) "m < fst (bl ! i)" "m \<le> snd (bl ! i) + 1" | (go) "fst (bl ! i) \<le> m" "m \<le> snd (bl ! i) + 1"
    by linarith
  then show ?case
  proof cases
    case skip
    have "\<exists>k. auto_loop db ?col (i + 1) n m s = Done k \<and> least_free (covered bl) m k"
      by (rule Suc.IH) (use Suc.prems nxt skip in auto)
    then show ?thesis unfolding auto_loop.simps GB c_bind.simps prod.case using skip w by simp
  next
    case stop
    have "m \<notin> covered bl"
    proof
      assume "m \<in> covered bl"
      then obtain j where j: "j < length bl" "fst (bl ! j) \<le> m" "m \<le> snd (bl ! j)" using covered_index by blast
      then show False using stop Suc.prems(2) [of j] gapped_nth [OF g, of i j] gapped_le [OF g i(2)] by (cases i j rule: linorder_cases) auto
    qed
    then show ?thesis unfolding auto_loop.simps GB c_bind.simps prod.case using stop w by (simp add: least_free_def)
  next
    case go
    have "\<exists>k. auto_loop db ?col (i + 1) n (snd (bl ! i) + 1) s = Done k \<and> least_free (covered bl) (snd (bl ! i) + 1) k"
    proof (rule Suc.IH)
      show "i + 1 + n = length bs" using Suc.prems by simp
      show "snd (bl ! j) < snd (bl ! i) + 1" if "j < i + 1" for j by (rule nxt [OF that]) simp
    qed
    then obtain k where k: "auto_loop db ?col (i + 1) n (snd (bl ! i) + 1) s = Done k" "least_free (covered bl) (snd (bl ! i) + 1) k" by blast
    have "x \<in> covered bl" if "m \<le> x" "x < k" for x
      using that k(2) covered_nth [OF i(2), of x] go by (cases "x \<le> snd (bl ! i)") (auto simp: least_free_def)
    then have "least_free (covered bl) m k" using k(2) go by (auto simp: least_free_def)
    then show ?thesis unfolding auto_loop.simps GB c_bind.simps prod.case using k(1) go w by simp
  qed
qed

end
