(* ===== verification/RangeProps.thy ===== *)
theory RangeProps
  imports RangeBlocks MemDbi
begin

text \<open>
  All ranges of \<^verbatim>\<open>libudb/range.c\<close> together: the invariant \<open>ranges_ok\<close> of the database, the numbers \<open>used\<close> that it
  stands for, and the theorems that \<open>Add_Used\<close>, \<open>Del_Used\<close> and the search of \<open>Udb_Auto_Integer\<close> implement insertion,
  deletion and the least free number on it.  The interface of a pool of numbers is the locale
  \<open>number_pool\<close>; its clients' lemmas are used through the interpretation \<open>ranges\<close>.
\<close>

section \<open>All ranges\<close>

text \<open>The blocks of a range, the numbers in them, and the ranges in use: those with an owner.\<close>

definition blocks :: "'o store \<Rightarrow> 'o \<Rightarrow> 'o list" where
  "blocks st r = (case att st r range_blocks of Some (DB_SEQUENCE (Col_New vs)) \<Rightarrow> List.map_filter DB_GET_OBJECT vs | _ \<Rightarrow> [])"

definition numbers :: "'o store \<Rightarrow> 'o \<Rightarrow> int set" where
  "numbers st r = covered (map (\<lambda>b. (lo st b, hi st b)) (blocks st r))"

definition owned :: "'o store \<Rightarrow> 'o \<Rightarrow> 'o \<Rightarrow> 'o \<Rightarrow> bool" where
  "owned st rc r ow \<longleftrightarrow> cls st r = Some rc \<and> att st r range_owner = Some (DB_OBJECT ow)"

definition used :: "'o store \<Rightarrow> 'o \<Rightarrow> 'o \<Rightarrow> int set" where
  "used st rc ow = (\<Union>r\<in>{r. owned st rc r ow}. numbers st r)"

definition range_classes :: "('o \<Rightarrow> cstr set) \<Rightarrow> ('o \<Rightarrow> cstr \<Rightarrow> bool) \<Rightarrow> 'o set \<Rightarrow> 'o \<Rightarrow> 'o store \<Rightarrow> bool" where
  "range_classes schema unique U bc st \<longleftrightarrow>
     block_class_ok unique st bc \<and>
     (\<forall>rc\<in>U. range_schema schema unique bc rc \<and> class_object unique st rc \<and> (\<forall>c\<in>insert bc U. cls st rc \<noteq> Some c \<and> cls st bc \<noteq> Some c))"

definition ranges_ok :: "('o \<Rightarrow> cstr set) \<Rightarrow> ('o \<Rightarrow> cstr \<Rightarrow> bool) \<Rightarrow> 'o set \<Rightarrow> 'o \<Rightarrow> 'o list \<Rightarrow> ('o \<Rightarrow> 'o list) \<Rightarrow> 'o store \<Rightarrow> bool" where
  "ranges_ok schema unique U bc fs X st \<longleftrightarrow>
     range_classes schema unique U bc st \<and> free_list st bc fs \<and>
     (\<forall>rc\<in>U. free_list st rc (X rc) \<and> (\<forall>x\<in>set (X rc). att st x range_owner = Some DB_NULL)) \<and>
     (\<forall>rc\<in>U. \<forall>r ow. owned st rc r ow \<longrightarrow>
        (\<exists>bl. rstate unique st bc rc r (blocks st r) bl fs \<and> gapped bl \<and> blocks st r \<noteq> [] \<and> covered bl \<subseteq> Collect is_int32)) \<and>
     (\<forall>rc\<in>U. \<forall>rd\<in>U. \<forall>r q ow ox. owned st rc r ow \<and> owned st rd q ox \<and> r \<noteq> q \<longrightarrow> set (blocks st r) \<inter> set (blocks st q) = {}) \<and>
     (\<forall>rc\<in>U. \<forall>r q ow. owned st rc r ow \<and> owned st rc q ow \<longrightarrow> r = q)"

lemma map_filter_objects [simp]: "List.map_filter DB_GET_OBJECT (map DB_OBJECT bs) = bs"
  by (induction bs) (simp_all add: List.map_filter_simps)

lemma rstate_blocks: "rstate unique st bc rc r bs bl fs \<Longrightarrow> blocks st r = bs"
  by (simp add: rstate_def blocks_def)

lemma rstate_numbers:
  assumes "rstate unique st bc rc r bs bl fs"
  shows "numbers st r = covered bl"
proof -
  have "list_all2 (block st bc) bs bl" using assms by (simp add: rstate_def)
  then have "map (\<lambda>b. (lo st b, hi st b)) bs = bl"
    by (induction rule: list_all2_induct) (auto simp: block_def lo_def hi_def)
  then show ?thesis using rstate_blocks [OF assms] by (simp add: numbers_def)
qed

lemma used_owned:
  assumes "ranges_ok schema unique U bc fs X st" "rc \<in> U" "owned st rc r ow"
  shows "used st rc ow = numbers st r"
proof -
  have "{r. owned st rc r ow} = {r}" using assms unfolding ranges_ok_def by blast
  then show ?thesis by (simp add: used_def)
qed

lemma used_none: "(\<And>r. \<not> owned st rc r ow) \<Longrightarrow> used st rc ow = {}"
  by (simp add: used_def)

text \<open>A step that rebuilds one range \<open>r\<close> of class \<open>rc\<close>.\<close>

definition frame :: "'o \<Rightarrow> 'o \<Rightarrow> 'o store \<Rightarrow> 'o store \<Rightarrow> 'o set \<Rightarrow> bool" where
  "frame bc r st st' u \<longleftrightarrow>
     cnam st' = cnam st \<and> (\<forall>y\<in>dom (cls st). cls st' y = cls st y \<and> (y \<notin> u \<longrightarrow> att st' y = att st y)) \<and>
     (\<forall>y. y \<notin> dom (cls st) \<and> y \<noteq> r \<longrightarrow> cls st' y \<in> {None, Some bc})"

lemma kept_frame: "kept bc st st' u \<Longrightarrow> frame bc r st st' u"
  by (simp add: kept_def frame_def)

lemma rstate_frame:
  assumes R: "rstate unique st bc rd q cs cl fs" and F: "frame bc r st st' u" and q: "q \<notin> u" "set cs \<inter> u = {}" "rd \<noteq> bc"
    and gs: "free_list st' bc gs" "set cs \<inter> set gs = {}"
  shows "rstate unique st' bc rd q cs cl gs"
proof -
  have d: "q \<in> dom (cls st)" "\<And>b. b \<in> set cs \<Longrightarrow> b \<in> dom (cls st)" "bc \<in> dom (cls st)"
    using R rstate_class [OF R] by (auto simp: rstate_def block_class_ok_def class_object_def)
  have c: "y \<in> dom (cls st) \<Longrightarrow> cls st' y = cls st y" for y using F by (simp add: frame_def)
  have a: "y \<in> dom (cls st) \<Longrightarrow> y \<notin> u \<Longrightarrow> att st' y = att st y" for y using F by (simp add: frame_def)
  have ab: "att st' b = att st b" if "b \<in> set cs" for b using a [OF d(2) [OF that]] q(2) that by blast
  have "list_all2 (block st' bc) cs cl"
    by (rule list_all2_block_cong [of st]) (use R c d(2) ab in \<open>auto simp: rstate_def\<close>)
  then show ?thesis using R gs c [OF d(1)] c [OF d(3)] a [OF d(1) q(1)] F unfolding rstate_def block_class_ok_def class_object_def frame_def by auto
qed

text \<open>The sets of objects of the invariant are apart.\<close>

lemma ranges_apart:
  assumes I: "ranges_ok schema unique U bc fs X st" and rd: "rd \<in> U"
  shows "bc \<notin> U" "rd \<in> dom (cls st)" "bc \<in> dom (cls st)"
    and "cls st q = Some rd \<Longrightarrow> q \<noteq> bc \<and> q \<notin> U \<and> q \<notin> set fs"
    and "cls st q = Some bc \<Longrightarrow> q \<noteq> bc \<and> q \<notin> U"
    and "b \<in> set fs \<Longrightarrow> cls st b = Some bc"
    and "x \<in> set (X rd) \<Longrightarrow> cls st x = Some rd"
proof -
  have C: "range_classes schema unique U bc st" and fl: "free_list st bc fs" "free_list st rd (X rd)" using I rd by (auto simp: ranges_ok_def)
  show nb: "bc \<notin> U" using C by (auto simp: range_classes_def range_schema_def)
  show "rd \<in> dom (cls st)" "bc \<in> dom (cls st)" using C rd by (auto simp: range_classes_def block_class_ok_def class_object_def)
  show f: "cls st b = Some bc" if "b \<in> set fs" for b using free_list_class [OF fl(1) that] .
  show "x \<in> set (X rd) \<Longrightarrow> cls st x = Some rd" using free_list_class [OF fl(2)] .
  show "cls st q = Some rd \<Longrightarrow> q \<noteq> bc \<and> q \<notin> U \<and> q \<notin> set fs" using C rd f [of q] nb by (auto simp: range_classes_def)
  show "cls st q = Some bc \<Longrightarrow> q \<noteq> bc \<and> q \<notin> U" using C rd by (auto simp: range_classes_def)
qed

lemma ranges_step:
  assumes I: "ranges_ok schema unique U bc fs X st" and rc: "rc \<in> U"
    and r: "cls st r = Some rc \<or> r \<notin> dom (cls st)" "cls st' r = Some rc"
    and old: "old = (if \<exists>ow. owned st rc r ow then set (blocks st r) else {})"
    and F: "frame bc r st st' ({r, bc, rc} \<union> old \<union> set fs)"
    and gs: "free_list st' bc gs" "set gs \<subseteq> old \<union> set fs \<union> - (insert r (dom (cls st)))"
    and xs: "free_list st' rc xs" "set xs \<subseteq> insert r (set (X rc))" "r \<in> set xs \<Longrightarrow> att st' r range_owner = Some DB_NULL"
    and live: "\<And>ow. owned st' rc r ow \<Longrightarrow> (\<exists>bl. rstate unique st' bc rc r (blocks st' r) bl gs \<and> gapped bl \<and> covered bl \<subseteq> Collect is_int32) \<and>
        blocks st' r \<noteq> [] \<and> set (blocks st' r) \<subseteq> old \<union> set fs \<union> - dom (cls st) \<and> (\<forall>q. owned st rc q ow \<longrightarrow> q = r)"
  shows "ranges_ok schema unique U bc gs (X(rc := xs)) st'"
    and "\<And>rd q ow. rd \<in> U \<Longrightarrow> q \<noteq> r \<Longrightarrow> owned st' rd q ow \<longleftrightarrow> owned st rd q ow"
    and "\<And>rd ow. rd \<in> U \<Longrightarrow> \<not> owned st rc r ow \<or> rd \<noteq> rc \<Longrightarrow> \<not> owned st' rc r ow \<or> rd \<noteq> rc \<Longrightarrow> used st' rd ow = used st rd ow"
proof -
  let ?u = "{r, bc, rc} \<union> old \<union> set fs"
  note A = ranges_apart [OF I rc]
  have c: "y \<in> dom (cls st) \<Longrightarrow> cls st' y = cls st y" for y using F by (simp add: frame_def)
  have a: "y \<in> dom (cls st) \<Longrightarrow> y \<notin> ?u \<Longrightarrow> att st' y = att st y" for y using F by (simp add: frame_def)
  have n: "y \<notin> dom (cls st) \<Longrightarrow> y \<noteq> r \<Longrightarrow> cls st' y \<in> {None, Some bc}" for y using F by (simp add: frame_def)
  have rng: "\<exists>bl. rstate unique st bc rd q (blocks st q) bl fs \<and> gapped bl \<and> blocks st q \<noteq> [] \<and> covered bl \<subseteq> Collect is_int32"
    if "rd \<in> U" "owned st rd q ow" for rd q ow using I that unfolding ranges_ok_def by blast
  have dj: "set (blocks st q) \<inter> set (blocks st p) = {}" if "rd \<in> U" "rb \<in> U" "owned st rd q ow" "owned st rb p ox" "q \<noteq> p" for rd rb q p ow ox
    using I that unfolding ranges_ok_def by blast
  have ocl: "cls st b = Some bc" if b: "b \<in> old" for b
  proof -
    obtain ow where "owned st rc r ow" "b \<in> set (blocks st r)" using b old by (auto split: if_split_asm)
    moreover from rng [OF rc this(1)] obtain bl where "rstate unique st bc rc r (blocks st r) bl fs" by blast
    ultimately show ?thesis using rstate_class by metis
  qed
  have cU: "q \<notin> ?u" if "cls st q = Some rd" "rd \<in> U" "q \<noteq> r" for q rd
    using that ranges_apart(4) [OF I that(2,1)] ocl [of q] A(1) rc by auto
  have cU': "cls st q = Some rd" if "cls st' q = Some rd" "rd \<in> U" "q \<noteq> r" for q rd
    using that c [of q] n [of q] A(1) by (cases "q \<in> dom (cls st)") auto
  have own: "owned st' rd q ow \<longleftrightarrow> owned st rd q ow" if "rd \<in> U" "q \<noteq> r" for rd q ow
  proof
    assume o: "owned st' rd q ow"
    then have q: "cls st q = Some rd" using cU' that by (simp add: owned_def)
    then have "att st' q = att st q" using a [of q] cU [OF q that] by blast
    then show "owned st rd q ow" using o q by (simp add: owned_def)
  next
    assume o: "owned st rd q ow"
    then have q: "cls st q = Some rd" by (simp add: owned_def)
    then have "att st' q = att st q" "cls st' q = cls st q" using a [of q] c [of q] cU [OF q that] by blast+
    then show "owned st' rd q ow" using o by (simp add: owned_def)
  qed
  have ownr: "rd = rc" if "owned st' rd r ow" for rd ow using that r(2) by (simp add: owned_def)
  have ownr0: "rd = rc" if "owned st rd r ow" for rd ow using that r(1) by (auto simp: owned_def)
  have blk: "blocks st' q = blocks st q" if "rd \<in> U" "owned st rd q ow" "q \<noteq> r" for rd q ow
  proof -
    have q: "cls st q = Some rd" using that(2) by (simp add: owned_def)
    then have "att st' q = att st q" using a [of q] cU [OF q that(1,3)] by blast
    then show ?thesis by (simp add: blocks_def)
  qed
  have apart: "set (blocks st q) \<inter> old = {}" if "rd \<in> U" "owned st rd q ow" "q \<noteq> r" for rd q ow
    using dj [OF that(1) rc that(2) _ that(3)] unfolding old by auto
  have blkd: "b \<in> dom (cls st) \<and> b \<notin> ?u" if "rd \<in> U" "owned st rd q ow" "q \<noteq> r" "b \<in> set (blocks st q)" for rd q ow b
  proof -
    from rng [OF that(1,2)] obtain bl where R: "rstate unique st bc rd q (blocks st q) bl fs" by blast
    have "cls st b = Some bc" using rstate_class [OF R that(4)] .
    moreover have "b \<notin> set fs" using R that(4) by (auto simp: rstate_def)
    moreover have "b \<noteq> r" using r(1) calculation(1) A(1) rc by auto
    ultimately show ?thesis using apart [OF that(1-3)] that(4) A(5) [of b] rc by auto
  qed
  have keep: "\<exists>bl. rstate unique st bc rd q (blocks st q) bl fs \<and> rstate unique st' bc rd q (blocks st q) bl gs \<and> gapped bl \<and> covered bl \<subseteq> Collect is_int32 \<and> blocks st q \<noteq> []"
    if "rd \<in> U" "owned st rd q ow" "q \<noteq> r" for rd q ow
  proof -
    from rng [OF that(1,2)] obtain bl where R: "rstate unique st bc rd q (blocks st q) bl fs" "gapped bl" "covered bl \<subseteq> Collect is_int32" "blocks st q \<noteq> []" by blast
    have "set (blocks st q) \<inter> set gs = {}" using blkd [OF that] gs(2) by auto
    moreover have "set (blocks st q) \<inter> ?u = {}" using blkd [OF that] by auto
    moreover have "q \<notin> ?u" using cU [of q rd] that by (auto simp: owned_def)
    ultimately have "rstate unique st' bc rd q (blocks st q) bl gs"
      using that A(1) by (intro rstate_frame [OF R(1) F _ _ _ gs(1)]) auto
    then show ?thesis using R by blast
  qed
  have C': "range_classes schema unique U bc st'"
  proof -
    have "rd \<in> dom (cls st)" if "rd \<in> U" for rd using ranges_apart(2) [OF I that] .
    then have "cls st' rd = cls st rd" "cls st' bc = cls st bc" if "rd \<in> U" for rd using c that A(3) by blast+
    moreover have "cnam st' = cnam st" using F by (simp add: frame_def)
    ultimately show ?thesis using I c [OF A(3)] by (simp add: ranges_ok_def range_classes_def block_class_ok_def class_object_def)
  qed
  have X': "free_list st' rd ((X(rc := xs)) rd) \<and> (\<forall>x\<in>set ((X(rc := xs)) rd). att st' x range_owner = Some DB_NULL)" if rd: "rd \<in> U" for rd
  proof -
    have x0: "free_list st rd (X rd)" "\<And>x. x \<in> set (X rd) \<Longrightarrow> att st x range_owner = Some DB_NULL" using I rd by (auto simp: ranges_ok_def)
    have cx: "cls st x = Some rd" if "x \<in> set (X rd)" for x using ranges_apart(7) [OF I rd that] .
    have ax: "att st' x = att st x" if "x \<in> set (X rd)" "x \<noteq> r" for x using a [of x] cU [OF cx rd] cx that by blast
    show ?thesis
    proof (cases "rd = rc")
      case True
      have "att st' x range_owner = Some DB_NULL" if "x \<in> set xs" for x
        using xs(2,3) ax [of x] x0(2) [of x] that True by (cases "x = r") auto
      then show ?thesis using True xs(1) by simp
    next
      case False
      have nr: "x \<noteq> r" if "x \<in> set (X rd)" for x using cx [OF that] r(1) False by auto
      have "rd \<noteq> r" using r(1) A(4) [of r] ranges_apart(2) [OF I rd] rd by blast
      moreover have "rd \<notin> old" "rd \<notin> set fs" using ocl [of rd] A(5) [of rd] A(6) [of rd] rd by blast+
      moreover have "rd \<noteq> bc" using A(1) rd by blast
      ultimately have "rd \<notin> ?u" using False by blast
      then have "att st' rd = att st rd" using a ranges_apart(2) [OF I rd] by blast
      moreover have "cls st' x = cls st x" if "x \<in> set (X rd)" for x using c [of x] cx [OF that] by blast
      ultimately have "free_list st' rd (X rd)" by (intro free_list_cong [OF x0(1)]) (simp_all add: ax nr)
      then show ?thesis using False ax nr x0(2) by simp
    qed
  qed
  have live': "\<exists>bl. rstate unique st' bc rd q (blocks st' q) bl gs \<and> gapped bl \<and> blocks st' q \<noteq> [] \<and> covered bl \<subseteq> Collect is_int32"
    if "rd \<in> U" "owned st' rd q ow" for rd q ow
  proof (cases "q = r")
    case True
    then show ?thesis using live [of ow] that ownr by blast
  next
    case False
    then show ?thesis using keep [of rd q ow] blk [of rd q ow] own [of rd q ow] that by auto
  qed
  have disj: "set (blocks st' q) \<inter> set (blocks st' r) = {}" if "rd \<in> U" "owned st' rd q ow" "owned st' rc r ox" "q \<noteq> r" for rd q ow ox
    using live [OF that(3)] blkd [of rd q ow] blk [of rd q ow] own [of rd q ow] that by auto
  have disj': "set (blocks st' q) \<inter> set (blocks st' p) = {}" if "rd \<in> U" "rb \<in> U" "owned st' rd q ow" "owned st' rb p ox" "q \<noteq> p" for rd rb q p ow ox
  proof (cases "q = r \<or> p = r")
    case True
    then show ?thesis using disj [of rb p ox ow] disj [of rd q ow ox] that ownr by auto
  next
    case False
    then have "owned st rd q ow" "owned st rb p ox" using own that by auto
    moreover from this have "blocks st' q = blocks st q" "blocks st' p = blocks st p" using blk that False by auto
    ultimately show ?thesis using dj [of rd rb q ow p ox] that by simp
  qed
  have uni: "q = p" if "rd \<in> U" "owned st' rd q ow" "owned st' rd p ow" for rd q p ow
  proof (cases "q = r \<or> p = r")
    case True
    then show ?thesis using live [of ow] own [of rd _ ow] that ownr by metis
  next
    case False
    then have "owned st rd q ow" "owned st rd p ow" using own that by auto
    then show ?thesis using I that unfolding ranges_ok_def by blast
  qed
  show "ranges_ok schema unique U bc gs (X(rc := xs)) st'"
    unfolding ranges_ok_def using C' gs(1) X' live' disj' uni by blast
  show "\<And>rd q ow. rd \<in> U \<Longrightarrow> q \<noteq> r \<Longrightarrow> owned st' rd q ow \<longleftrightarrow> owned st rd q ow" by (rule own)
  fix rd ow assume rd: "rd \<in> U" "\<not> owned st rc r ow \<or> rd \<noteq> rc" "\<not> owned st' rc r ow \<or> rd \<noteq> rc"
  have nr: "q \<noteq> r" if "owned st' rd q ow \<or> owned st rd q ow" for q using that rd ownr ownr0 by blast
  have set: "{q. owned st' rd q ow} = {q. owned st rd q ow}" using own [OF rd(1)] nr by blast
  have num: "numbers st' q = numbers st q" if q: "owned st rd q ow" for q
  proof -
    obtain bl where "rstate unique st bc rd q (blocks st q) bl fs" "rstate unique st' bc rd q (blocks st q) bl gs" using keep [OF rd(1) q] nr q by blast
    then show ?thesis using rstate_numbers by metis
  qed
  show "used st' rd ow = used st rd ow" unfolding used_def set using num by simp
qed

text \<open>The objects that the ranges own: class objects of the ranges and instances of them.\<close>

definition outside :: "'o set \<Rightarrow> 'o \<Rightarrow> 'o store \<Rightarrow> 'o \<Rightarrow> bool" where
  "outside U bc st y \<longleftrightarrow> y \<notin> insert bc U \<and> (\<forall>c\<in>insert bc U. cls st y \<noteq> Some c)"

definition range_updated :: "('s \<Rightarrow> 'o store) \<Rightarrow> ('o \<Rightarrow> cstr set) \<Rightarrow> ('o \<Rightarrow> cstr \<Rightarrow> bool) \<Rightarrow> 'o set \<Rightarrow> 'o \<Rightarrow> 'o store \<Rightarrow> 'o \<Rightarrow> 'o \<Rightarrow> int set \<Rightarrow>
    ('s, 'o, 'm) udb_scheme \<Rightarrow> bool" where
  "range_updated view schema unique U bc st rc ow u w \<longleftrightarrow>
     env_ok view w \<and> (\<exists>gs Y. ranges_ok schema unique U bc gs Y (view (database w))) \<and>
     used (view (database w)) rc ow = u \<and>
     (\<forall>rd\<in>U. \<forall>ox. (rd, ox) \<noteq> (rc, ow) \<longrightarrow> used (view (database w)) rd ox = used st rd ox) \<and>
     cnam (view (database w)) = cnam st \<and>
     (\<forall>y\<in>dom (cls st). cls (view (database w)) y = cls st y \<and> (outside U bc st y \<longrightarrow> att (view (database w)) y = att st y)) \<and>
     (\<forall>y. y \<notin> dom (cls st) \<longrightarrow> cls (view (database w)) y \<in> insert None (Some ` insert bc U))"

lemma frame_outside:
  assumes "ranges_ok schema unique U bc fs X st" "rc \<in> U" "r \<in> dom (cls st) \<Longrightarrow> cls st r = Some rc" "cls st' r = Some rc"
    "old = (if \<exists>ow. owned st rc r ow then set (blocks st r) else {})" "frame bc r st st' ({r, bc, rc} \<union> old \<union> set fs)"
  shows "cnam st' = cnam st \<and>
     (\<forall>y\<in>dom (cls st). cls st' y = cls st y \<and> (outside U bc st y \<longrightarrow> att st' y = att st y)) \<and>
     (\<forall>y. y \<notin> dom (cls st) \<longrightarrow> cls st' y \<in> insert None (Some ` insert bc U))"
proof (intro conjI ballI allI impI)
  show "cnam st' = cnam st" using assms(6) by (simp add: frame_def)
next
  fix y assume y: "y \<in> dom (cls st)"
  show "cls st' y = cls st y" using assms(6) y by (simp add: frame_def)
  assume o: "outside U bc st y"
  have "cls st b = Some bc" if b: "b \<in> old" for b
  proof -
    obtain ow where w: "owned st rc r ow" "b \<in> set (blocks st r)" using b assms(5) by (auto split: if_split_asm)
    then obtain bl where "rstate unique st bc rc r (blocks st r) bl fs" using assms(1,2) unfolding ranges_ok_def by blast
    then show ?thesis using rstate_class w(2) by metis
  qed
  then have "y \<notin> {r, bc, rc} \<union> old \<union> set fs"
    using o y assms(2,3) ranges_apart(6) [OF assms(1,2), of y] by (auto simp: outside_def)
  then show "att st' y = att st y" using assms(6) y by (simp add: frame_def)
next
  fix y assume "y \<notin> dom (cls st)"
  then show "cls st' y \<in> insert None (Some ` insert bc U)"
    using assms(2,4,6) by (cases "y = r") (auto simp: frame_def)
qed

text \<open>A step on one range, read at the level of the numbers in use.\<close>

lemma range_updatedI:
  assumes I: "ranges_ok schema unique U bc fs X st" and rc: "rc \<in> U"
    and r: "cls st r = Some rc \<or> r \<notin> dom (cls st)" "cls (view (database w)) r = Some rc"
    and old: "old = (if \<exists>ow. owned st rc r ow then set (blocks st r) else {})"
    and F: "frame bc r st (view (database w)) ({r, bc, rc} \<union> old \<union> set fs)"
    and gs: "free_list (view (database w)) bc gs" "set gs \<subseteq> old \<union> set fs \<union> - (insert r (dom (cls st)))"
    and xs: "free_list (view (database w)) rc xs" "set xs \<subseteq> insert r (set (X rc))" "r \<in> set xs \<Longrightarrow> att (view (database w)) r range_owner = Some DB_NULL"
    and live: "\<And>ow. owned (view (database w)) rc r ow \<Longrightarrow> (\<exists>bl. rstate unique (view (database w)) bc rc r (blocks (view (database w)) r) bl gs \<and> gapped bl \<and> covered bl \<subseteq> Collect is_int32) \<and>
        blocks (view (database w)) r \<noteq> [] \<and> set (blocks (view (database w)) r) \<subseteq> old \<union> set fs \<union> - dom (cls st) \<and> (\<forall>q. owned st rc q ow \<longrightarrow> q = r)"
    and e: "env_ok view w" and ow: "\<And>ox. owned st rc r ox \<or> owned (view (database w)) rc r ox \<Longrightarrow> ox = ow"
    and u: "owned (view (database w)) rc r ow \<Longrightarrow> numbers (view (database w)) r = u"
      "\<not> owned (view (database w)) rc r ow \<Longrightarrow> owned st rc r ow \<and> u = {}"
  shows "range_updated view schema unique U bc st rc ow u w"
proof -
  note S = ranges_step [OF I rc r old F gs xs live]
  have I': "ranges_ok schema unique U bc gs (X(rc := xs)) (view (database w))" by (rule S(1)) simp_all
  have O: "owned (view (database w)) rc q ox \<longleftrightarrow> owned st rc q ox" if "q \<noteq> r" for q ox by (rule S(2)) (use rc that in auto)
  have "used (view (database w)) rd ox = used st rd ox" if "rd \<in> U" "(rd, ox) \<noteq> (rc, ow)" for rd ox
    by (rule S(3)) (use that ow in auto)
  moreover have "r \<in> dom (cls st) \<Longrightarrow> cls st r = Some rc" using r(1) by blast
  moreover have "used (view (database w)) rc ow = u"
  proof (cases "owned (view (database w)) rc r ow")
    case True
    then show ?thesis using used_owned [OF I' rc] u(1) by simp
  next
    case False
    then have "owned st rc r ow" "u = {}" using u(2) by auto
    moreover from this have "\<not> owned (view (database w)) rc q ow" for q
      using O [of q ow] I rc False unfolding ranges_ok_def by (cases "q = r") blast+
    ultimately show ?thesis by (simp add: used_none)
  qed
  ultimately show ?thesis unfolding range_updated_def using e I' frame_outside [OF I rc _ r(2) old F] by blast
qed

lemma changed_updated:
  assumes I: "ranges_ok schema unique U bc fs X st" and rc: "rc \<in> U" and o: "owned st rc r ow"
    and C: "changed view unique st bc rc r (blocks st r) fs u w" and i: "u \<subseteq> Collect is_int32"
  shows "range_updated view schema unique U bc st rc ow u w"
proof -
  let ?st = "view (database w)"
  obtain cs cl gs where R: "rstate unique ?st bc rc r cs cl gs" "gapped cl" "covered cl = u" "cs \<noteq> []"
      "set cs \<union> set gs \<subseteq> set (blocks st r) \<union> set fs \<union> - dom (cls st)"
    using C by (auto simp: changed_def)
  have K: "kept bc st ?st ({r, bc} \<union> set (blocks st r) \<union> set fs)" "att ?st r range_owner = att st r range_owner" "env_ok view w" using C by (auto simp: changed_def)
  have b: "blocks ?st r = cs" by (rule rstate_blocks [OF R(1)])
  have clr: "cls st r = Some rc" "cls ?st r = Some rc" using o R(1) by (auto simp: owned_def rstate_def)
  have own: "owned ?st rc r ox \<longleftrightarrow> ox = ow" "owned st rc r ox \<longleftrightarrow> ox = ow" for ox using o clr K(2) by (auto simp: owned_def)
  have xr: "r \<notin> set (X rc)" using I rc o by (auto simp: ranges_ok_def owned_def)
  have uq: "\<forall>q. owned st rc q ow \<longrightarrow> q = r" using I rc o unfolding ranges_ok_def by blast
  have A: "rc \<notin> {r, bc} \<union> set (blocks st r) \<union> set fs" "\<And>x. x \<in> set (X rc) \<Longrightarrow> x \<notin> {r, bc} \<union> set (blocks st r) \<union> set fs"
  proof -
    note B = ranges_apart [OF I rc]
    obtain bl where R0: "rstate unique st bc rc r (blocks st r) bl fs" using I rc o unfolding ranges_ok_def by blast
    show "rc \<notin> {r, bc} \<union> set (blocks st r) \<union> set fs" using B(1) B(4) [of r] B(5) [of rc] B(6) [of rc] rstate_class [OF R0, of rc] rc clr by blast
    fix x assume x: "x \<in> set (X rc)"
    have "cls st x = Some rc" using B(7) [OF x] .
    moreover have "rc \<noteq> bc" using B(1) rc by blast
    ultimately show "x \<notin> {r, bc} \<union> set (blocks st r) \<union> set fs" using B(4) [of x] xr x rstate_class [OF R0, of x] by auto
  qed
  have xs: "free_list ?st rc (X rc)"
  proof (rule free_list_cong)
    show "free_list st rc (X rc)" using I rc by (simp add: ranges_ok_def)
    have "rc \<in> dom (cls st)" using ranges_apart(2) [OF I rc] .
    then show "att ?st rc nextfree = att st rc nextfree" using K(1) A(1) by (simp add: kept_def)
    fix x assume x: "x \<in> set (X rc)"
    have "x \<in> dom (cls st)" using ranges_apart(7) [OF I rc x] by blast
    then show "cls ?st x = cls st x" "att ?st x nextfree = att st x nextfree" using K(1) A(2) [OF x] by (simp_all add: kept_def)
  qed
  show ?thesis
  proof (rule range_updatedI [where r = r, OF I rc])
    show "set (blocks st r) = (if \<exists>ow. owned st rc r ow then set (blocks st r) else {})" using o by auto
    show "frame bc r st ?st ({r, bc, rc} \<union> set (blocks st r) \<union> set fs)" by (rule kept_frame [OF kept_mono [OF K(1)]]) auto
    show "free_list ?st bc gs" using R(1) by (simp add: rstate_def)
    have "r \<notin> set gs" using rstate_apart(2) [OF R(1)] ranges_apart(1) [OF I rc] rc by auto
    then show "set gs \<subseteq> set (blocks st r) \<union> set fs \<union> - insert r (dom (cls st))" using R(5) by blast
    show "(\<exists>bl. rstate unique ?st bc rc r (blocks ?st r) bl gs \<and> gapped bl \<and> covered bl \<subseteq> Collect is_int32) \<and> blocks ?st r \<noteq> [] \<and>
      set (blocks ?st r) \<subseteq> set (blocks st r) \<union> set fs \<union> - dom (cls st) \<and> (\<forall>q. owned st rc q ox \<longrightarrow> q = r)" if "owned ?st rc r ox" for ox
    proof (intro conjI exI [of _ cl])
      show "rstate unique ?st bc rc r (blocks ?st r) cl gs" "gapped cl" "covered cl \<subseteq> Collect is_int32" "blocks ?st r \<noteq> []" using R(1-4) i b by simp_all
      show "set (blocks ?st r) \<subseteq> set (blocks st r) \<union> set fs \<union> - dom (cls st)" using R(5) b by simp
      show "\<forall>q. owned st rc q ox \<longrightarrow> q = r" using uq own(1) that by simp
    qed
    show "numbers ?st r = u" using rstate_numbers [OF R(1)] R(3) by simp
  qed (use clr K(3) xs own xr in auto)
qed

lemma emptied_updated:
  assumes I: "ranges_ok schema unique U bc fs X st" and rc: "rc \<in> U" and o: "owned st rc r ow"
    and E: "emptied view unique st bc rc r (blocks st r) fs (X rc) w"
  shows "range_updated view schema unique U bc st rc ow {} w"
proof -
  let ?st = "view (database w)"
  have K: "kept bc st ?st ({r, bc, rc} \<union> set (blocks st r) \<union> set fs)" "att ?st r range_owner = Some DB_NULL" using E by (simp_all add: emptied_def)
  have clr: "cls st r = Some rc" using o by (simp add: owned_def)
  then have clr: "cls st r = Some rc" "cls ?st r = Some rc" using K(1) domI [of "cls st" r] by (simp_all add: kept_def)
  have no: "\<not> owned ?st rc r ox" for ox using K(2) by (simp add: owned_def)
  have own: "owned st rc r ox \<longleftrightarrow> ox = ow" for ox using o by (auto simp: owned_def)
  show ?thesis
  proof (rule range_updatedI [where r = r and xs = "r # X rc" and gs = "blocks st r @ fs", OF I rc])
    show "set (blocks st r) = (if \<exists>ow. owned st rc r ow then set (blocks st r) else {})" using o by auto
    show "frame bc r st ?st ({r, bc, rc} \<union> set (blocks st r) \<union> set fs)" by (rule kept_frame [OF K(1)])
  qed (use E clr no own o in \<open>auto simp: emptied_def\<close>)
qed

section \<open>The operations\<close>

text \<open>What is known of the range of an owner.\<close>

lemma range_found:
  assumes ok: "dbi_ok db view schema unique" and I: "ranges_ok schema unique U bc fs X (view s)" and rc: "rc \<in> U"
    and f: "db_find_unique db rc range_owner (DB_OBJECT ow) s = Some r"
  obtains bl where "owned (view s) rc r ow" "rstate unique (view s) bc rc r (blocks (view s) r) bl fs" "gapped bl" "blocks (view s) r \<noteq> []"
    "covered bl \<subseteq> Collect is_int32" "used (view s) rc ow = covered bl"
    "Udb_Get_Value db r range_blocks DB_TYPE_SEQUENCE s = Done (DB_SEQUENCE (Col_Attribute r range_blocks))"
    "db_col_size db (Col_Attribute r range_blocks) s = length (blocks (view s) r)"
proof -
  have sc: "range_schema schema unique bc rc" using I rc by (simp add: ranges_ok_def range_classes_def)
  then have o: "owned (view s) rc r ow" using find_unique_Some [OF ok _ _ f] by (simp add: owned_def range_schema_def)
  then obtain bl where R: "rstate unique (view s) bc rc r (blocks (view s) r) bl fs" "gapped bl" "blocks (view s) r \<noteq> []" "covered bl \<subseteq> Collect is_int32"
    using I rc unfolding ranges_ok_def by blast
  have "used (view s) rc ow = covered bl" using used_owned [OF I rc o] rstate_numbers [OF R(1)] by simp
  moreover have "Udb_Get_Value db r range_blocks DB_TYPE_SEQUENCE s = Done (DB_SEQUENCE (Col_Attribute r range_blocks))"
    using Udb_Get_Value_runs [OF ok, of s r rc range_blocks _ DB_TYPE_SEQUENCE] R(1) by (simp add: rstate_def)
  moreover have "db_col_size db (Col_Attribute r range_blocks) s = length (blocks (view s) r)"
    using dbi_reads(4) [OF ok elems_blocks [OF R(1)]] by simp
  ultimately show ?thesis using o R by (intro that)
qed

lemma range_missing:
  assumes ok: "dbi_ok db view schema unique" and I: "ranges_ok schema unique U bc fs X (view s)" and rc: "rc \<in> U"
    and f: "db_find_unique db rc range_owner (DB_OBJECT ow) s = None"
  shows "\<not> owned (view s) rc r ow" "used (view s) rc ow = {}"
proof -
  have "range_schema schema unique bc rc" using I rc by (simp add: ranges_ok_def range_classes_def)
  then show n: "\<not> owned (view s) rc r ow" for r using find_unique_None [OF ok _ _ f] by (auto simp: owned_def range_schema_def)
  then show "used (view s) rc ow = {}" by (rule used_none)
qed

lemma Get_Class_state:
  assumes "dbi_ok db view schema unique" "env_ok view w" "cnam (view (database w)) n = Some c"
  obtains w' where "Udb_Get_Class db n w = Done (c, w')" "database w' = database w" "env_ok view w'"
proof -
  have "runs (Udb_Get_Class db n w) (\<lambda>(c', w'). c' = c \<and> database w' = database w \<and> env_ok view w')"
    by (rule Udb_Get_Class_runs [OF assms]) simp
  then show ?thesis using that by (auto elim!: runsE)
qed

lemma Del_Used_updated:
  fixes w :: "('s, 'o, 'm) udb_scheme"
  assumes ok: "dbi_ok db view schema unique" and I: "ranges_ok schema unique U bc fs X (view (database w))" and e: "env_ok view w"
    and rc: "rc \<in> U" "cnam (view (database w)) (used_class aname) = Some rc" and v: "v \<in> used (view (database w)) rc ow"
  shows "runs (Del_Used db ow aname v w) (range_updated view schema unique U bc (view (database w)) rc ow (used (view (database w)) rc ow - {v}))"
proof -
  let ?st = "view (database w)" and ?Q = "range_updated view schema unique U bc (view (database w)) rc ow (used (view (database w)) rc ow - {v})"
  obtain r where f: "db_find_unique db rc range_owner (DB_OBJECT ow) (database w) = Some r"
    using range_missing(2) [OF ok I rc(1)] v by (cases "db_find_unique db rc range_owner (DB_OBJECT ow) (database w)") auto
  obtain bl where B: "owned ?st rc r ow" "rstate unique ?st bc rc r (blocks ?st r) bl fs" "gapped bl" "blocks ?st r \<noteq> []"
      "covered bl \<subseteq> Collect is_int32" "used ?st rc ow = covered bl"
      "Udb_Get_Value db r range_blocks DB_TYPE_SEQUENCE (database w) = Done (DB_SEQUENCE (Col_Attribute r range_blocks))"
      "db_col_size db (Col_Attribute r range_blocks) (database w) = length (blocks ?st r)"
    by (rule range_found [OF ok I rc(1) f])
  have C: "range_schema schema unique bc rc" "class_object unique ?st rc" "cls ?st rc \<noteq> Some bc" "cls ?st rc \<noteq> Some rc" "cls ?st bc \<noteq> Some rc"
    "free_list ?st rc (X rc)" "r \<notin> set (X rc)"
    using I rc(1) B(1) by (auto simp: ranges_ok_def range_classes_def owned_def)
  obtain w1 :: "('s, 'o, 'm) udb_scheme" where w1: "Udb_Get_Class db (used_class aname) w = Done (rc, w1)" "database w1 = database w" "env_ok view w1"
    by (rule Get_Class_state [OF ok e rc(2)])
  note D = del_existing_deleted [OF ok C(1) w1(3), unfolded w1(2), OF B(2,3,5) _ C(6,7,2-5), unfolded B(6) [symmetric], OF v]
  have "runs (Del_Used db ow aname v w) (deleted view unique ?st bc rc r (blocks ?st r) bl fs (X rc) v)"
    unfolding Del_Used_def w1(1) c_bind.simps prod.case w1(2) f check_some_def option.case B(7) DB_GET_COLLECTION.simps B(8) Let_def
    using D B(4) by (simp del: runs_bind)
  then show ?thesis
  proof (rule runs_mono)
    fix w' :: "('s, 'o, 'm) udb_scheme" assume d: "deleted view unique ?st bc rc r (blocks ?st r) bl fs (X rc) v w'"
    show "?Q w'"
    proof (cases "covered bl = {v}")
      case True
      then show ?thesis using emptied_updated [OF I rc(1) B(1), of view w'] d B(6) by (simp add: deleted_def)
    next
      case False
      then show ?thesis using changed_updated [OF I rc(1) B(1), of view "covered bl - {v}" w'] d B(5,6) by (auto simp: deleted_def)
    qed
  qed
qed

lemma auto_search_least:
  assumes ok: "dbi_ok db view schema unique" and I: "ranges_ok schema unique U bc fs X (view (database w))" and e: "env_ok view w"
    and rc: "rc \<in> U" "cnam (view (database w)) (used_class aname) = Some rc" and mx: "INT32_MAX \<notin> used (view (database w)) rc ow"
  shows "runs (auto_search db aname m ow w) (\<lambda>(k, w'). least_free (used (view (database w)) rc ow) m k \<and> database w' = database w \<and> env_ok view w')"
proof -
  obtain w1 where w1: "Udb_Get_Class db (used_class aname) w = Done (rc, w1)" "database w1 = database w" "env_ok view w1"
    by (rule Get_Class_state [OF ok e rc(2)])
  show ?thesis
  proof (cases "db_find_unique db rc range_owner (DB_OBJECT ow) (database w)")
    case None
    then show ?thesis using w1 range_missing(2) [OF ok I rc(1) None] by (simp add: auto_search_def least_free_def)
  next
    case (Some r)
    obtain bl where B: "owned (view (database w)) rc r ow" "rstate unique (view (database w)) bc rc r (blocks (view (database w)) r) bl fs" "gapped bl" "blocks (view (database w)) r \<noteq> []"
      "covered bl \<subseteq> Collect is_int32" "used (view (database w)) rc ow = covered bl"
      "Udb_Get_Value db r range_blocks DB_TYPE_SEQUENCE (database w) = Done (DB_SEQUENCE (Col_Attribute r range_blocks))"
      "db_col_size db (Col_Attribute r range_blocks) (database w) = length (blocks (view (database w)) r)"
      by (rule range_found [OF ok I rc(1) Some])
    obtain k where "auto_loop db (Col_Attribute r range_blocks) 0 (length (blocks (view (database w)) r)) m (database w) = Done k" "least_free (covered bl) m k"
      using auto_loop_least [OF ok B(2,3,5), of 0 "length (blocks (view (database w)) r)" m] mx B(6) by auto
    then show ?thesis using w1 Some B(6-8) by (simp add: auto_search_def)
  qed
qed

lemma New_Block_new:
  fixes w :: "('s, 'o, 'm) udb_scheme"
  assumes ok: "dbi_ok db view schema unique" and I: "ranges_ok schema unique U bc fs X (view (database w'))" and rc: "rc \<in> U" and e: "env_ok view w"
    and T: "taken (view (database w')) rc (X rc) t (view (database w))"
    and Q: "\<And>x w2. env_ok view w2 \<Longrightarrow>
      allocated (view (database w)) bc fs [(range_start, DB_INTEGER start), (range_end, DB_INTEGER stop)] x (view (database w2)) \<Longrightarrow> Q (Col_New [DB_OBJECT x], w2)"
  shows "runs (New_Block db (Col_New []) 0 start stop w) Q"
proof -
  let ?st = "view (database w)" and ?sta = "view (database w')" and ?ps = "[(range_start, DB_INTEGER start), (range_end, DB_INTEGER stop)]"
  let ?P = "\<lambda>(b, w). \<exists>b'. b = Some b' \<and> (\<exists>col s. db_col_insert db (Col_New []) 0 (DB_OBJECT b') (database w) = Some (col, s) \<and> Q (col, w\<lparr>database := s\<rparr>))"
  note TF = taken_frame [OF T]
  have C: "range_schema schema unique bc rc" "block_class_ok unique ?sta bc" using I rc by (simp_all add: ranges_ok_def range_classes_def)
  have sc: "{range_start, range_end, nextfree} \<subseteq> schema bc" "\<And>a. \<not> unique bc a" using C(1) by (auto simp: range_schema_def)
  have cn: "cnam ?st range_block_class = Some bc" "class_object unique ?st bc" using C(2) TF(1,2) by (simp_all add: block_class_ok_def class_object_def)
  have A: "rc \<noteq> bc" "rc \<notin> set fs" using ranges_apart(1) [OF I rc] ranges_apart(5) [OF I rc, of rc] ranges_apart(6) [OF I rc, of rc] rc by auto
  have sm: "att ?st y = att ?sta y" if "y = bc \<or> y \<in> set fs" for y by (rule TF(3)) (use A that in auto)
  have "free_list ?sta bc fs" using I by (simp add: ranges_ok_def)
  then have fl: "free_list ?st bc fs" by (rule free_list_cong) (simp_all add: TF(2) sm)
  have step: "runs (Udb_Edit_Free_Object db bc w1) (\<lambda>(t, w). runs (Udb_Finish_Object db None (Some (foldl (\<lambda>t (a, v). dbt_put t a v) t ?ps)) False w) ?P)"
    if w1: "env_ok view w1" "database w1 = database w" for w1
  proof (rule allocate_runs [OF ok w1(1), of bc fs])
    show "free_list (view (database w1)) bc fs" "class_object unique (view (database w1)) bc" using fl cn w1 by simp_all
    show "fst ` set ?ps \<subseteq> schema bc" "nextfree \<notin> fst ` set ?ps" using sc by auto
    show "no_clash unique (view (database w1)) bc None ?ps" using sc(2) by (auto simp: no_clash_def)
    fix x and w2 :: "('s, 'o, 'm) udb_scheme"
    assume e2: "env_ok view w2" and A: "allocated (view (database w1)) bc fs ?ps x (view (database w2))"
    obtain s where s: "db_col_insert db (Col_New []) 0 (DB_OBJECT x) (database w2) = Some (Col_New [DB_OBJECT x], s)" "view s = view (database w2)"
      using col_insert [OF ok, of "database w2" "Col_New []" "[]" 0 "DB_OBJECT x"] by auto
    have "Q (Col_New [DB_OBJECT x], w2\<lparr>database := s\<rparr>)" by (rule Q) (use e2 A s(2) w1(2) in simp_all)
    then show "?P (Some x, w2)" using s(1) by simp
  qed
  have "runs (Udb_Get_Class db range_block_class w) (\<lambda>(c, w). runs (Udb_Edit_Free_Object db c w)
      (\<lambda>(t, w). runs (Udb_Finish_Object db None (Some (foldl (\<lambda>t (a, v). dbt_put t a v) t ?ps)) False w) ?P))"
    by (rule Udb_Get_Class_runs [OF ok e cn(1)]) (use step in simp)
  then show ?thesis by (simp add: New_Block_def)
qed

text \<open>A range object is taken, then a block, then the range is written.\<close>

lemma created_updated:
  assumes I: "ranges_ok schema unique U bc fs X st" and rc: "rc \<in> U" and o: "\<And>q. \<not> owned st rc q ow"
    and T: "taken st rc (X rc) t st1"
    and A: "allocated st1 bc fs [(range_start, DB_INTEGER v), (range_end, DB_INTEGER v)] b st2"
    and W: "written st2 rc t [(range_owner, DB_OBJECT ow), (range_blocks, DB_SEQUENCE (Col_New [DB_OBJECT b]))] r (view (database w))"
    and e: "env_ok view w" and v: "is_int32 v"
  shows "range_updated view schema unique U bc st rc ow {v} w"
proof -
  let ?st = "view (database w)"
  note TF = taken_frame [OF T]
  note B = ranges_apart [OF I rc]
  have neq: "rc \<noteq> bc" "rc \<notin> set fs" "bc \<notin> set fs" using B(1) B(5) [of rc] B(6) [of rc] B(5) [of bc] B(6) [of bc] rc by auto
  have cl2: "cls st2 = (cls st)(b \<mapsto> bc)" "cls ?st = (cls st)(b \<mapsto> bc, r \<mapsto> rc)" "cnam ?st = cnam st"
    using A W TF(1,2) by (simp_all add: allocated_def written_def)
  have b: "b \<in> set fs \<or> b \<notin> dom (cls st)" "b \<noteq> bc" "b \<noteq> rc"
    using A TF(2) B(2) neq by (auto simp: allocated_def)
  have bcl: "cls st b = Some bc \<or> b \<notin> dom (cls st)" using b(1) B(6) by blast
  have rX: "(case X rc of [] \<Rightarrow> r \<notin> dom (cls st) | x # ys \<Rightarrow> r = x \<and> cls st r = Some rc) \<and> r \<noteq> b \<and> r \<noteq> bc \<and> r \<noteq> rc"
  proof (cases "X rc")
    case Nil
    then have "r \<notin> dom (cls st2)" using T W by (auto simp: taken_def written_def)
    then show ?thesis using Nil cl2(1) B(2,3) by (auto split: if_split_asm)
  next
    case (Cons x ys)
    then have "r = x" "cls st r = Some rc" using T W by (auto simp: taken_def written_def)
    moreover from this have "r \<noteq> b" using bcl neq by auto
    ultimately show ?thesis using Cons B(4) [of r] rc by auto
  qed
  then have r: "cls st r = Some rc \<or> r \<notin> dom (cls st)" "r \<noteq> b" "r \<noteq> bc" "r \<noteq> rc" "r \<in> set (X rc) \<or> r \<notin> dom (cls st)" by (auto split: list.split_asm)
  have rfs: "r \<notin> set fs" using r(1) B(4) [of r] B(6) [of r] by auto
  have noown: "\<not> owned st rc r ox" for ox
    using r(5) I rc by (auto simp: owned_def ranges_ok_def dest: domI)
  have att: "att ?st y = att st y" if "y \<notin> {r, bc, rc, b}" for y
    using A W TF(3) [of y] that by (auto simp: allocated_def written_def)
  have atr: "att ?st r range_owner = Some (DB_OBJECT ow)" "att ?st r range_blocks = Some (DB_SEQUENCE (Col_New [DB_OBJECT b]))" using W by (simp_all add: written_def)
  have atb: "att ?st b range_start = Some (DB_INTEGER v)" "att ?st b range_end = Some (DB_INTEGER v)"
    using A W r(2) by (auto simp: allocated_def written_def)
  obtain gs where gs: "free_list st2 bc gs" "set gs \<subseteq> set fs - {b}" using A by (auto simp: allocated_def)
  have gs': "free_list ?st bc gs" by (rule free_list_written [OF gs(1) W]) (use gs(2) rfs r(3) in auto)
  have xs: "free_list ?st rc (tl (X rc))" "r \<notin> set (tl (X rc))" "set (tl (X rc)) \<subseteq> set (X rc)"
  proof -
    have f1: "free_list st1 rc (tl (X rc))" using T by (auto simp: taken_def split: list.split_asm)
    have nb: "y \<noteq> b \<and> y \<noteq> bc" if "y \<in> set (tl (X rc))" for y
      using B(7) [of y] that bcl neq B(4) [of y] by (cases "X rc") auto
    have "free_list st2 rc (tl (X rc))"
      by (rule free_list_cong [OF f1]) (use A nb b(3) neq in \<open>auto simp: allocated_def\<close>)
    moreover show n: "r \<notin> set (tl (X rc))"
      using rX T B(7) [of r] by (auto simp: taken_def split: list.split_asm)
    ultimately show "free_list ?st rc (tl (X rc))" using W r(4) by (intro free_list_written [OF _ W]) auto
    show "set (tl (X rc)) \<subseteq> set (X rc)" by (cases "X rc") auto
  qed
  have R: "rstate unique ?st bc rc r [b] [(v, v)] gs"
  proof -
    have "block_class_ok unique st bc" using I by (simp add: ranges_ok_def range_classes_def)
    then show ?thesis using atr atb gs' gs(2) r b cl2 by (auto simp: rstate_def block_def block_class_ok_def class_object_def)
  qed
  have own: "owned ?st rc r ox \<longleftrightarrow> ox = ow" for ox using atr cl2(2) by (auto simp: owned_def)
  show ?thesis
  proof (rule range_updatedI [where r = r and old = "{}", OF I rc r(1)])
    show "cls ?st r = Some rc" using cl2 by simp
    show "{} = (if \<exists>ow. owned st rc r ow then set (blocks st r) else {})" using noown by simp
    show "frame bc r st ?st ({r, bc, rc} \<union> {} \<union> set fs)"
      unfolding frame_def using cl2 att b(1) bcl r(1) by (auto simp: domIff)
    show "free_list ?st bc gs" by (rule gs')
    show "set gs \<subseteq> {} \<union> set fs \<union> - insert r (dom (cls st))" using gs(2) by blast
    show "(\<exists>bl. rstate unique ?st bc rc r (blocks ?st r) bl gs \<and> gapped bl \<and> covered bl \<subseteq> Collect is_int32) \<and> blocks ?st r \<noteq> [] \<and>
      set (blocks ?st r) \<subseteq> {} \<union> set fs \<union> - dom (cls st) \<and> (\<forall>q. owned st rc q ox \<longrightarrow> q = r)" if "owned ?st rc r ox" for ox
      using R rstate_blocks [OF R] b(1) v o own that by (auto simp: gapped_def intro!: exI [of _ "[(v, v)]"])
    show "numbers ?st r = {v}" using rstate_numbers [OF R] by simp
  qed (use xs e own noown in auto)
qed

text \<open>The first number of an owner.\<close>

lemma owner_free:
  assumes I: "ranges_ok schema unique U bc fs X st" and rc: "rc \<in> U" and o: "\<And>q. \<not> owned st rc q ow"
    and T: "taken st rc (X rc) t st1" and A: "allocated st1 bc fs ps b st2"
  shows "\<not> owned st2 rc y ow"
    and "t = dbt_create_object rc \<and> rc \<in> dom (cls st2) \<or> (\<exists>x. t = dbt_edit_object x \<and> cls st2 x = Some rc)"
proof -
  note TF = taken_frame [OF T]
  have n: "rc \<noteq> bc" using ranges_apart(1) [OF I rc] rc by auto
  show "\<not> owned st2 rc y ow"
  proof
    assume y: "owned st2 rc y ow"
    then have "y \<noteq> b" "cls st y = Some rc" using A TF(2) n by (auto simp: owned_def allocated_def split: if_split_asm)
    moreover from this have "y \<noteq> bc" "y \<noteq> rc" using ranges_apart(4) [OF I rc, of y] rc by auto
    ultimately show False using A TF(3) [of y] y o [of y] by (simp add: owned_def allocated_def)
  qed
  have "cls st2 = (cls st)(b \<mapsto> bc)" "b \<in> set fs \<or> b \<notin> dom (cls st)" using A TF(2) by (simp_all add: allocated_def)
  then show "t = dbt_create_object rc \<and> rc \<in> dom (cls st2) \<or> (\<exists>x. t = dbt_edit_object x \<and> cls st2 x = Some rc)"
    using T ranges_apart(2) [OF I rc] ranges_apart(4) [OF I rc, of b] by (auto simp: taken_def split: list.split_asm)
qed

lemma create_range_updated:
  fixes w :: "('s, 'o, 'm) udb_scheme"
  assumes ok: "dbi_ok db view schema unique" and I: "ranges_ok schema unique U bc fs X (view (database w))" and e: "env_ok view w"
    and rc: "rc \<in> U" and o: "\<And>q. \<not> owned (view (database w)) rc q ow" and v: "is_int32 v"
  shows "runs (c_bind (Udb_Edit_Free_Object db rc w) (\<lambda>(t, w).
      c_bind (New_Block db (Col_New []) 0 v v w) (\<lambda>(col, w).
      c_bind (Udb_Finish_Object db None (Some (dbt_put (dbt_put t range_owner (DB_OBJECT ow)) range_blocks (DB_SEQUENCE col))) False w) (\<lambda>(rng, w).
      c_bind (check_some rng) (\<lambda>_. Done w)))))
    (range_updated view schema unique U bc (view (database w)) rc ow {v})"
proof -
  let ?st = "view (database w)" and ?Q = "range_updated view schema unique U bc (view (database w)) rc ow {v}"
  let ?ps = "\<lambda>col. [(range_owner, DB_OBJECT ow), (range_blocks, DB_SEQUENCE col)]"
  let ?fin = "\<lambda>t (col, w3). runs (Udb_Finish_Object db None (Some (foldl (\<lambda>t (a, v). dbt_put t a v) t (?ps col))) False w3) (\<lambda>(rng, w4). \<exists>x. rng = Some x \<and> ?Q w4)"
  have C: "range_schema schema unique bc rc" "class_object unique ?st rc" "free_list ?st rc (X rc)"
    using I rc by (auto simp: ranges_ok_def range_classes_def)
  have "runs (Udb_Edit_Free_Object db rc w) (\<lambda>(t, w2). runs (New_Block db (Col_New []) 0 v v w2) (?fin t))"
  proof (rule Udb_Edit_Free_Object_runs [OF ok e C(3,2)], unfold prod.case)
    fix t and w2 :: "('s, 'o, 'm) udb_scheme"
    assume e2: "env_ok view w2" and T: "taken ?st rc (X rc) t (view (database w2))"
    show "runs (New_Block db (Col_New []) 0 v v w2) (?fin t)"
    proof (rule New_Block_new [OF ok I rc e2 T], unfold prod.case)
      fix b and w3 :: "('s, 'o, 'm) udb_scheme"
      assume e3: "env_ok view w3" and A: "allocated (view (database w2)) bc fs [(range_start, DB_INTEGER v), (range_end, DB_INTEGER v)] b (view (database w3))"
      note F = owner_free [OF I rc o T A]
      show "runs (Udb_Finish_Object db None (Some (foldl (\<lambda>t (a, v). dbt_put t a v) t (?ps (Col_New [DB_OBJECT b])))) False w3) (\<lambda>(rng, w4). \<exists>x. rng = Some x \<and> ?Q w4)"
      proof (rule Udb_Finish_Object_runs [OF ok e3 _ _ F(2)])
        show "fst ` set (?ps (Col_New [DB_OBJECT b])) \<subseteq> schema rc" using C(1) by (auto simp: range_schema_def)
        show "no_clash unique (view (database w3)) rc None (?ps (Col_New [DB_OBJECT b]))" using C(1) F(1) by (auto simp: no_clash_def range_schema_def owned_def)
        fix x and w4 :: "('s, 'o, 'm) udb_scheme"
        assume e4: "env_ok view w4" and W: "written (view (database w3)) rc t (?ps (Col_New [DB_OBJECT b])) x (view (database w4))"
        show "case (Some x, w4) of (rng, w4) \<Rightarrow> \<exists>x. rng = Some x \<and> ?Q w4"
          using created_updated [OF I rc o T A W e4 v] by simp
      qed
    qed
  qed
  then show ?thesis by simp
qed

lemma Add_Used_updated:
  fixes w :: "('s, 'o, 'm) udb_scheme"
  assumes ok: "dbi_ok db view schema unique" and I: "ranges_ok schema unique U bc fs X (view (database w))" and e: "env_ok view w"
    and rc: "rc \<in> U" "cnam (view (database w)) (used_class aname) = Some rc" and v: "v \<notin> used (view (database w)) rc ow" "is_int32 v"
    and edge: "v = INT32_MIN \<Longrightarrow> INT32_MAX \<notin> used (view (database w)) rc ow"
  shows "runs (Add_Used db ow aname v w) (range_updated view schema unique U bc (view (database w)) rc ow (insert v (used (view (database w)) rc ow)))"
proof -
  let ?st = "view (database w)"
  have C: "range_schema schema unique bc rc" "cnam ?st range_block_class = Some bc"
    using I rc(1) by (auto simp: ranges_ok_def range_classes_def block_class_ok_def)
  obtain w0 :: "('s, 'o, 'm) udb_scheme" where w0: "Udb_Get_Class db range_block_class w = Done (bc, w0)" "database w0 = database w" "env_ok view w0"
    by (rule Get_Class_state [OF ok e C(2)])
  obtain w1 :: "('s, 'o, 'm) udb_scheme" where w1: "Udb_Get_Class db (used_class aname) w0 = Done (rc, w1)" "database w1 = database w" "env_ok view w1"
    using Get_Class_state [OF ok w0(3)] rc(2) w0(2) by metis
  show ?thesis
  proof (cases "db_find_unique db rc range_owner (DB_OBJECT ow) (database w)")
    case (Some r)
    obtain bl where B: "owned ?st rc r ow" "rstate unique ?st bc rc r (blocks ?st r) bl fs" "gapped bl" "blocks ?st r \<noteq> []"
        "covered bl \<subseteq> Collect is_int32" "used ?st rc ow = covered bl"
        "Udb_Get_Value db r range_blocks DB_TYPE_SEQUENCE (database w) = Done (DB_SEQUENCE (Col_Attribute r range_blocks))"
        "db_col_size db (Col_Attribute r range_blocks) (database w) = length (blocks ?st r)"
      by (rule range_found [OF ok I rc(1) Some])
    note D = add_existing_changed [OF ok C(1) w1(3), unfolded w1(2), OF B(2,3,5) v(2) v(1) [unfolded B(6)] B(4) edge [unfolded B(6)]]
    have "runs (Add_Used db ow aname v w) (changed view unique ?st bc rc r (blocks ?st r) fs (insert v (covered bl)))"
      unfolding Add_Used_def w0(1) w1(1) c_bind.simps prod.case w1(2) Some check_some_def option.case B(7) DB_GET_COLLECTION.simps B(8) Let_def
      using D B(4) by (simp del: runs_bind)
    then show ?thesis
      by (rule runs_mono) (use changed_updated [OF I rc(1) B(1), of view "insert v (covered bl)"] B(5,6) v(2) in auto)
  next
    case None
    note M = range_missing [OF ok I rc(1) None]
    show ?thesis unfolding Add_Used_def w0(1) w1(1) c_bind.simps prod.case w1(2) None option.case M(2)
      using create_range_updated [OF ok _ w1(3) rc(1), of bc fs X ow v] I M(1) v(2) w1(2) by simp
  qed
qed

text \<open>The largest 32-bit number in use: \<open>range_end + 1\<close> wraps around, so that the block counts as lying below the
  minimum, and a minimum inside the block is given as a free number.\<close>

lemma auto_loop_overflow:
  assumes ok: "dbi_ok db view schema unique" and R: "rstate unique (view s) bc rc r [b] [(a, INT32_MAX)] fs"
    and m: "a \<le> m" "INT32_MIN < m" "m \<le> INT32_MAX"
  shows "auto_loop db (Col_Attribute r range_blocks) 0 1 m s = Done m" "m \<in> numbers (view s) r"
proof -
  have "Get_Bounds db (Col_Attribute r range_blocks) 0 s = Done (b, a, INT32_MAX)" using Get_Bounds_runs [OF ok R, of 0] by simp
  moreover have "int32 (INT32_MAX + 1) = INT32_MIN" by (simp add: int32_def)
  ultimately show "auto_loop db (Col_Attribute r range_blocks) 0 1 m s = Done m" using m by (simp add: One_nat_def)
  show "m \<in> numbers (view s) r" using rstate_numbers [OF R] m by simp
qed

section \<open>A pool of numbers\<close>

text \<open>Searching for a free number and taking it, a number of times.\<close>

fun take_numbers :: "(int \<Rightarrow> 'w \<Rightarrow> (int \<times> 'w) c_run) \<Rightarrow> (int \<Rightarrow> 'w \<Rightarrow> 'w c_run) \<Rightarrow> int \<Rightarrow> nat \<Rightarrow> 'w \<Rightarrow> (int list \<times> 'w) c_run" where
  "take_numbers search add m 0 w = Done ([], w)"
| "take_numbers search add m (Suc n) w =
     c_bind (search m w) (\<lambda>(k, w).
     c_bind (add k w) (\<lambda>w.
     c_bind (take_numbers search add m n w) (\<lambda>(ks, w). Done (k # ks, w))))"

locale number_pool =
  fixes inv :: "'w \<Rightarrow> bool" and pool :: "'w \<Rightarrow> int set"
    and add :: "int \<Rightarrow> 'w \<Rightarrow> 'w c_run" and del :: "int \<Rightarrow> 'w \<Rightarrow> 'w c_run" and search :: "int \<Rightarrow> 'w \<Rightarrow> (int \<times> 'w) c_run"
  assumes add_law: "inv w \<Longrightarrow> v \<notin> pool w \<Longrightarrow> is_int32 v \<Longrightarrow> INT32_MAX \<notin> pool w \<Longrightarrow>
      runs (add v w) (\<lambda>w'. inv w' \<and> pool w' = insert v (pool w))"
    and del_law: "inv w \<Longrightarrow> v \<in> pool w \<Longrightarrow> runs (del v w) (\<lambda>w'. inv w' \<and> pool w' = pool w - {v})"
    and search_law: "inv w \<Longrightarrow> INT32_MAX \<notin> pool w \<Longrightarrow>
      runs (search m w) (\<lambda>(k, w'). inv w' \<and> pool w' = pool w \<and> least_free (pool w) m k)"
begin

lemma add_del:
  assumes "inv w" "v \<notin> pool w" "is_int32 v" "INT32_MAX \<notin> pool w"
  shows "runs (c_bind (add v w) (del v)) (\<lambda>w'. inv w' \<and> pool w' = pool w)"
  unfolding runs_bind
proof (rule runs_mono [OF add_law [OF assms]])
  fix w1 assume w1: "inv w1 \<and> pool w1 = insert v (pool w)"
  then have "runs (del v w1) (\<lambda>w'. inv w' \<and> pool w' = pool w1 - {v})" by (intro del_law) simp_all
  then show "runs (del v w1) (\<lambda>w'. inv w' \<and> pool w' = pool w)" by (rule runs_mono) (use w1 assms(2) in auto)
qed

lemma take_law:
  assumes "inv w" "pool w \<subseteq> {..<b}" "m \<le> b" "b < INT32_MAX" "INT32_MIN \<le> m"
  shows "runs (search m w) (\<lambda>(k, w1). runs (add k w1) (\<lambda>w'. inv w' \<and> k \<notin> pool w \<and> m \<le> k \<and> pool w' = insert k (pool w) \<and> pool w' \<subseteq> {..<b + 1}))"
proof -
  have mx: "INT32_MAX \<notin> pool w" using assms(2,4) by auto
  have "runs (search m w) (\<lambda>(k, w1). inv w1 \<and> pool w1 = pool w \<and> least_free (pool w) m k)" by (rule search_law [OF assms(1) mx])
  then show ?thesis
  proof (rule runs_mono, clarify)
    fix k w1 assume w1: "inv w1" "pool w1 = pool w" "least_free (pool w) m k"
    have k: "k \<le> b"
    proof (rule ccontr)
      assume "\<not> k \<le> b"
      then have "b \<in> pool w" using w1(3) assms(3) by (auto simp: least_free_def)
      then show False using assms(2) by auto
    qed
    then have i: "is_int32 k" using w1(3) assms(4,5) by (auto simp: least_free_def is_int32_def)
    have "k \<notin> pool w1" using w1 by (simp add: least_free_def)
    then have "runs (add k w1) (\<lambda>w'. inv w' \<and> pool w' = insert k (pool w1))" by (rule add_law [OF w1(1) _ i]) (use mx w1(2) in simp)
    then show "runs (add k w1) (\<lambda>w'. inv w' \<and> k \<notin> pool w \<and> m \<le> k \<and> pool w' = insert k (pool w) \<and> pool w' \<subseteq> {..<b + 1})"
      by (rule runs_mono) (use w1 assms(2) k in \<open>auto simp: least_free_def\<close>)
  qed
qed

lemma take_numbers_distinct:
  assumes "inv w" "pool w \<subseteq> {..<b}" "m \<le> b" "b + int n \<le> INT32_MAX" "INT32_MIN \<le> m"
  shows "runs (take_numbers search add m n w)
    (\<lambda>(ks, w'). inv w' \<and> length ks = n \<and> distinct ks \<and> set ks \<inter> pool w = {} \<and> (\<forall>k\<in>set ks. m \<le> k) \<and> pool w' = pool w \<union> set ks)"
  using assms
proof (induction n arbitrary: w b)
  case (Suc n)
  have "runs (search m w) (\<lambda>(k, w1). runs (add k w1) (\<lambda>w'. inv w' \<and> k \<notin> pool w \<and> m \<le> k \<and> pool w' = insert k (pool w) \<and> pool w' \<subseteq> {..<b + 1}))"
    by (rule take_law) (use Suc.prems in simp_all)
  then have "runs (search m w) (\<lambda>(k, w1). runs (add k w1) (\<lambda>w2. runs (take_numbers search add m n w2) (\<lambda>(ks, w'). inv w' \<and> length (k # ks) = Suc n \<and>
      distinct (k # ks) \<and> set (k # ks) \<inter> pool w = {} \<and> (\<forall>x\<in>set (k # ks). m \<le> x) \<and> pool w' = pool w \<union> set (k # ks))))"
  proof (rule runs_mono, clarify, elim runs_mono)
    fix k w2 assume w2: "inv w2 \<and> k \<notin> pool w \<and> m \<le> k \<and> pool w2 = insert k (pool w) \<and> pool w2 \<subseteq> {..<b + 1}"
    have "runs (take_numbers search add m n w2)
      (\<lambda>(ks, w'). inv w' \<and> length ks = n \<and> distinct ks \<and> set ks \<inter> pool w2 = {} \<and> (\<forall>k\<in>set ks. m \<le> k) \<and> pool w' = pool w2 \<union> set ks)"
      by (rule Suc.IH [of w2 "b + 1"]) (use w2 Suc.prems in auto)
    then show "runs (take_numbers search add m n w2) (\<lambda>(ks, w'). inv w' \<and> length (k # ks) = Suc n \<and>
      distinct (k # ks) \<and> set (k # ks) \<inter> pool w = {} \<and> (\<forall>x\<in>set (k # ks). m \<le> x) \<and> pool w' = pool w \<union> set (k # ks))"
      by (rule runs_mono) (use w2 in auto)
  qed
  then show ?case by simp
qed simp

end

definition range_env :: "('s, 'o) dbi \<Rightarrow> ('s \<Rightarrow> 'o store) \<Rightarrow> ('o \<Rightarrow> cstr set) \<Rightarrow> ('o \<Rightarrow> cstr \<Rightarrow> bool) \<Rightarrow> 'o set \<Rightarrow> 'o \<Rightarrow> cstr \<Rightarrow> 'o \<Rightarrow> ('s, 'o, 'm) udb_scheme \<Rightarrow> bool" where
  "range_env db view schema unique U bc aname rc w \<longleftrightarrow>
     dbi_ok db view schema unique \<and> env_ok view w \<and> (\<exists>fs X. ranges_ok schema unique U bc fs X (view (database w))) \<and>
     rc \<in> U \<and> cnam (view (database w)) (used_class aname) = Some rc"

lemma range_updated_env:
  assumes "range_env db view schema unique U bc aname rc w" "range_updated view schema unique U bc (view (database w)) rc ow u w'"
  shows "range_env db view schema unique U bc aname rc w'" "used (view (database w')) rc ow = u"
  using assms by (auto simp: range_env_def range_updated_def)

lemma range_envE:
  assumes "range_env db view schema unique U bc aname rc w"
  obtains fs X where "dbi_ok db view schema unique" "ranges_ok schema unique U bc fs X (view (database w))" "env_ok view w" "rc \<in> U"
    "cnam (view (database w)) (used_class aname) = Some rc"
  using assms by (auto simp: range_env_def)

interpretation ranges: number_pool "range_env db view schema unique U bc aname rc" "\<lambda>w. used (view (database w)) rc ow"
  "Add_Used db ow aname" "Del_Used db ow aname" "\<lambda>m. auto_search db aname m ow"
proof
  fix w :: "('a, 'b, 'c) udb_scheme" and v :: int
  assume E: "range_env db view schema unique U bc aname rc w"
  obtain fs X where R: "dbi_ok db view schema unique" "ranges_ok schema unique U bc fs X (view (database w))" "env_ok view w" "rc \<in> U"
      "cnam (view (database w)) (used_class aname) = Some rc"
    by (rule range_envE [OF E])
  note upd = range_updated_env [OF E]
  show "runs (Del_Used db ow aname v w)
      (\<lambda>w'. range_env db view schema unique U bc aname rc w' \<and> used (view (database w')) rc ow = used (view (database w)) rc ow - {v})"
    if "v \<in> used (view (database w)) rc ow"
    by (rule runs_mono [OF Del_Used_updated [OF R that]]) (use upd in blast)
  show "runs (Add_Used db ow aname v w)
      (\<lambda>w'. range_env db view schema unique U bc aname rc w' \<and> used (view (database w')) rc ow = insert v (used (view (database w)) rc ow))"
    if "v \<notin> used (view (database w)) rc ow" "is_int32 v" "INT32_MAX \<notin> used (view (database w)) rc ow"
    by (rule runs_mono [OF Add_Used_updated [OF R that(1,2)]]) (use upd that(3) in blast)+
  show "runs (auto_search db aname v ow w)
      (\<lambda>(k, w'). range_env db view schema unique U bc aname rc w' \<and> used (view (database w')) rc ow = used (view (database w)) rc ow \<and>
        least_free (used (view (database w)) rc ow) v k)"
    if "INT32_MAX \<notin> used (view (database w)) rc ow"
    by (rule runs_mono [OF auto_search_least [OF R that]]) (use R in \<open>fastforce simp: range_env_def\<close>)
qed

section \<open>A database with a range\<close>

text \<open>Class objects 2 (blocks) and 3 (ranges of \<open>uid\<close>); range 4 of the owner 8 has the blocks 5 and 6 with the numbers
  3 to 5 and 9; block 7 is free.\<close>

definition demo_schema :: "nat \<Rightarrow> cstr list" where
  "demo_schema c = (if c = 1 then [nextfree] else if c = 2 then [range_start, range_end, nextfree]
     else if c = 3 then [range_owner, range_blocks, nextfree] else [])"

definition demo_unique :: "nat \<Rightarrow> cstr \<Rightarrow> bool" where
  "demo_unique c a \<longleftrightarrow> c = 3 \<and> a = range_owner"

definition demo_values :: "((nat \<times> cstr) \<times> nat db_value) list" where
  "demo_values =
     [((2, nextfree), DB_OBJECT 7),
      ((4, range_owner), DB_OBJECT 8), ((4, range_blocks), DB_SEQUENCE (Col_New [DB_OBJECT 5, DB_OBJECT 6])),
      ((5, range_start), DB_INTEGER 3), ((5, range_end), DB_INTEGER 5), ((6, range_start), DB_INTEGER 9), ((6, range_end), DB_INTEGER 9)]"

definition demo_db :: mem where
  "demo_db =
     \<lparr>mclasses = [(range_block_class, 2), (used_class (cstr ''uid''), 3)],
      mobjects = [(2, 1), (3, 1), (4, 3), (5, 2), (6, 2), (7, 2)],
      mvalues = (\<lambda>x a. case map_of demo_values (x, a) of None \<Rightarrow> DB_NULL | Some v \<Rightarrow> v)\<rparr>"

definition demo :: "(mem, nat) udb" where
  "demo = udb_start demo_db"

lemma demo_view:
  "cnam (mem_view demo_schema demo_db) = [range_block_class \<mapsto> 2, used_class (cstr ''uid'') \<mapsto> 3]"
  "cls (mem_view demo_schema demo_db) = [2 \<mapsto> 1, 3 \<mapsto> 1, 4 \<mapsto> 3, 5 \<mapsto> 2, 6 \<mapsto> 2, 7 \<mapsto> 2]"
  "att (mem_view demo_schema demo_db) 2 nextfree = Some (DB_OBJECT 7)" "att (mem_view demo_schema demo_db) 3 nextfree = Some DB_NULL"
  "att (mem_view demo_schema demo_db) 7 nextfree = Some DB_NULL" "att (mem_view demo_schema demo_db) 4 range_owner = Some (DB_OBJECT 8)"
  "att (mem_view demo_schema demo_db) 4 range_blocks = Some (DB_SEQUENCE (Col_New [DB_OBJECT 5, DB_OBJECT 6]))"
  "att (mem_view demo_schema demo_db) 5 range_start = Some (DB_INTEGER 3)" "att (mem_view demo_schema demo_db) 5 range_end = Some (DB_INTEGER 5)"
  "att (mem_view demo_schema demo_db) 6 range_start = Some (DB_INTEGER 9)" "att (mem_view demo_schema demo_db) 6 range_end = Some (DB_INTEGER 9)"
  by (simp_all add: demo_db_def demo_schema_def demo_values_def cstr_def used_class_def fun_eq_iff)

lemma demo_names: "range_block_class \<noteq> used_class (cstr ''uid'')" "used_class (cstr ''uid'') \<noteq> range_block_class"
  by (simp_all add: cstr_def used_class_def)

lemma demo_owned: "owned (mem_view demo_schema demo_db) 3 r ow \<longleftrightarrow> r = 4 \<and> ow = 8"
  by (auto simp: owned_def demo_view(2,6) simp del: mem_view_simps split: if_split_asm)

lemma demo_rstate: "rstate demo_unique (mem_view demo_schema demo_db) 2 3 4 [5, 6] [(3, 5), (9, 9)] [7]"
  by (simp add: rstate_def block_class_ok_def class_object_def block_def free_list_def demo_view demo_names demo_unique_def
      exI [of _ "Some 7"] exI [of _ None] del: mem_view_simps)

lemma demo_ranges_ok: "ranges_ok (\<lambda>c. set (demo_schema c)) demo_unique {3} 2 [7] (\<lambda>rc. []) (mem_view demo_schema demo_db)"
proof -
  let ?st = "mem_view demo_schema demo_db"
  have "range_classes (\<lambda>c. set (demo_schema c)) demo_unique {3} 2 ?st"
    by (simp add: range_classes_def block_class_ok_def class_object_def range_schema_def demo_view demo_names demo_schema_def demo_unique_def del: mem_view_simps)
  moreover have "free_list ?st 3 []" by (simp add: free_list_def demo_view del: mem_view_simps)
  moreover have "free_list ?st 2 [7]" using demo_rstate by (simp add: rstate_def)
  moreover have "gapped [(3, 5), (9, 9)]" "covered [(3, 5), (9, 9)] \<subseteq> Collect is_int32" by (auto simp: gapped_def is_int32_def)
  moreover note demo_rstate rstate_blocks [OF demo_rstate]
  ultimately show ?thesis unfolding ranges_ok_def by (auto simp: demo_owned intro!: exI [of _ "[(3, 5), (9, 9)]"])
qed

lemma demo_range_env: "range_env (mem_dbi demo_schema demo_unique) (mem_view demo_schema) (\<lambda>c. set (demo_schema c)) demo_unique {3} 2 (cstr ''uid'') 3 demo"
proof -
  have "env_ok (mem_view demo_schema) demo" by (simp add: demo_def udb_start_def env_ok_def class_cache_ok_def)
  moreover have "database demo = demo_db" by (simp add: demo_def udb_start_def)
  ultimately show ?thesis using mem_dbi_ok demo_ranges_ok demo_view(1) by (auto simp: range_env_def simp del: mem_view_simps)
qed

lemma demo_used: "used (mem_view demo_schema (database demo)) 3 8 = {3, 4, 5, 9}"
proof -
  have "used (mem_view demo_schema (database demo)) 3 8 = covered [(3, 5), (9, 9)]"
    using used_owned [OF demo_ranges_ok, of 3 4 8] rstate_numbers [OF demo_rstate] demo_owned [of 4 8]
    by (simp add: demo_def udb_start_def del: covered_simps mem_view_simps)
  moreover have "{3..5} = {3, 4, 5 :: int}" by auto
  ultimately show ?thesis by (simp add: insert_commute)
qed

section \<open>Properties\<close>

text \<open>C10: adding a number to the range of an owner (\<open>Add_Used\<close>) never panics when the number is not in use: afterwards
  exactly this number has joined the numbers of this owner, the numbers of every other owner and of
  every other attribute are as before, and the stored blocks are again sorted, apart and within 32 bits.  The one
  excluded case is the wrap-around of the C code: \<open>INT32_MIN\<close> while \<open>INT32_MAX\<close> is in use.\<close>

theorem Add_Used_inserts:
  assumes "range_env db view schema unique U bc aname rc w" "v \<notin> used (view (database w)) rc ow" "is_int32 v"
    "v = INT32_MIN \<Longrightarrow> INT32_MAX \<notin> used (view (database w)) rc ow"
  shows "\<exists>w'. Add_Used db ow aname v w = Done w' \<and> range_env db view schema unique U bc aname rc w' \<and>
    used (view (database w')) rc ow = insert v (used (view (database w)) rc ow) \<and>
    (\<forall>rd\<in>U. \<forall>ox. (rd, ox) \<noteq> (rc, ow) \<longrightarrow> used (view (database w')) rd ox = used (view (database w)) rd ox)"
proof -
  obtain fs X where R: "dbi_ok db view schema unique" "ranges_ok schema unique U bc fs X (view (database w))" "env_ok view w" "rc \<in> U"
      "cnam (view (database w)) (used_class aname) = Some rc"
    by (rule range_envE [OF assms(1)])
  obtain w' where w': "Add_Used db ow aname v w = Done w'"
      "range_updated view schema unique U bc (view (database w)) rc ow (insert v (used (view (database w)) rc ow)) w'"
    using Add_Used_updated [OF R assms(2-4)] by (auto simp: runs_def)
  then show ?thesis using range_updated_env [OF assms(1) w'(2)] by (auto simp: range_updated_def)
qed

theorem Add_Used_inserts_witness:
  "\<exists>w'. Add_Used (mem_dbi demo_schema demo_unique) 8 (cstr ''uid'') 6 demo = Done w' \<and>
    used (mem_view demo_schema (database w')) 3 8 = {3, 4, 5, 6, 9}"
  using Add_Used_inserts [OF demo_range_env, of 6 8] by (auto simp: demo_used is_int32_def)

text \<open>C11: deleting a number in use (\<open>Del_Used\<close>) never panics (the half-interval search finds its block, which is
  shortened, split or given back) and removes exactly this number: the other numbers of the owner and all
  other ranges are as before.\<close>

theorem Del_Used_removes:
  assumes "range_env db view schema unique U bc aname rc w" "v \<in> used (view (database w)) rc ow"
  shows "\<exists>w'. Del_Used db ow aname v w = Done w' \<and> range_env db view schema unique U bc aname rc w' \<and>
    used (view (database w')) rc ow = used (view (database w)) rc ow - {v} \<and>
    (\<forall>rd\<in>U. \<forall>ox. (rd, ox) \<noteq> (rc, ow) \<longrightarrow> used (view (database w')) rd ox = used (view (database w)) rd ox)"
proof -
  obtain fs X where R: "dbi_ok db view schema unique" "ranges_ok schema unique U bc fs X (view (database w))" "env_ok view w" "rc \<in> U"
      "cnam (view (database w)) (used_class aname) = Some rc"
    by (rule range_envE [OF assms(1)])
  obtain w' where w': "Del_Used db ow aname v w = Done w'"
      "range_updated view schema unique U bc (view (database w)) rc ow (used (view (database w)) rc ow - {v}) w'"
    using Del_Used_updated [OF R assms(2)] by (auto simp: runs_def)
  then show ?thesis using range_updated_env [OF assms(1) w'(2)] by (auto simp: range_updated_def)
qed

theorem Del_Used_removes_witness:
  "\<exists>w'. Del_Used (mem_dbi demo_schema demo_unique) 8 (cstr ''uid'') 4 demo = Done w' \<and>
    used (mem_view demo_schema (database w')) 3 8 = {3, 5, 9}"
  using Del_Used_removes [OF demo_range_env, of 4 8] by (auto simp: demo_used)

text \<open>C17: as long as no range is filled up to the largest 32-bit number, automatic numbering is safe: any number of
  times searching a free number (\<open>Udb_Auto_Integer\<close>) and adding it to the range gives distinct numbers from the
  minimum on, none of which was in use.\<close>

theorem auto_numbers_distinct:
  assumes "range_env db view schema unique U bc aname rc w" "used (view (database w)) rc ow \<subseteq> {..<b}" "m \<le> b" "b + int n \<le> INT32_MAX" "INT32_MIN \<le> m"
  shows "\<exists>ks w'. take_numbers (\<lambda>m. auto_search db aname m ow) (Add_Used db ow aname) m n w = Done (ks, w') \<and>
    length ks = n \<and> distinct ks \<and> set ks \<inter> used (view (database w)) rc ow = {} \<and> (\<forall>k\<in>set ks. m \<le> k) \<and>
    used (view (database w')) rc ow = used (view (database w)) rc ow \<union> set ks"
  using ranges.take_numbers_distinct [OF assms] by (auto simp: runs_def)

theorem auto_numbers_distinct_witness:
  "\<exists>ks w'. take_numbers (\<lambda>m. auto_search (mem_dbi demo_schema demo_unique) (cstr ''uid'') m 8) (Add_Used (mem_dbi demo_schema demo_unique) 8 (cstr ''uid'')) 4 3 demo = Done (ks, w') \<and>
    length ks = 3 \<and> distinct ks \<and> set ks \<inter> {3, 4, 5, 9} = {}"
  using auto_numbers_distinct [OF demo_range_env, of 8 10 4 3] by (auto simp: demo_used)

end
