(* ===== verification/NameCache.thy ===== *)
theory NameCache
  imports Range
begin

text \<open>
  Uniqueness of names: \<^verbatim>\<open>libudb/name_cache.c\<close>, with the object identifiers of \<^verbatim>\<open>libudb/lookup.c\<close> and the
  messages of \<^verbatim>\<open>libudb/errcode.c\<close>.  A collision rule maps an item to a key; the cache object of the key holds the
  items with this key in three sets by strength.

  \<open>split\<close> is \<open>Tcl_SplitList\<close>, \<open>elem\<close> is \<open>Tcl_DStringAppendElement\<close>.  The tables of \<^verbatim>\<open>inet.c\<close> are of a type \<open>'i\<close>; its
  operations are the record \<open>inet_calls\<close>.  The tables of an item are lists of their entries in the order in
  which the hash tables are traversed.
\<close>

section \<open>Object identifiers\<close>

definition int16 :: "int \<Rightarrow> int" where
  "int16 i = (i + 2 ^ 15) mod 2 ^ 16 - 2 ^ 15"

definition is_int16 :: "int \<Rightarrow> bool" where
  "is_int16 i \<longleftrightarrow> - (2 ^ 15) \<le> i \<and> i < 2 ^ 15"

definition hex_char :: "nat \<Rightarrow> u8" where
  "hex_char d = (if d < 10 then 48 + of_nat d else 87 + of_nat d)"

fun hex_nat :: "nat \<Rightarrow> cstr" where
  "hex_nat n = (if n < 16 then [hex_char n] else hex_nat (n div 16) @ [hex_char (n mod 16)])"

declare hex_nat.simps [simp del]

text \<open>\<open>%x\<close> and \<open>%lx\<close> on 32-bit words.\<close>

definition fmt_x :: "int \<Rightarrow> cstr" where
  "fmt_x i = hex_nat (nat (i mod 2 ^ 32))"

definition hex_val :: "u8 \<Rightarrow> nat option" where
  "hex_val c =
     (if 48 \<le> c \<and> c \<le> 57 then Some (unat c - 48)
      else if 97 \<le> c \<and> c \<le> 102 then Some (unat c - 87)
      else if 65 \<le> c \<and> c \<le> 70 then Some (unat c - 55) else None)"

text \<open>\<open>%x\<close> of \<open>sscanf\<close>: white space, a sign and a prefix are allowed, and a number too large becomes the largest.\<close>

definition scan_x :: "cstr \<Rightarrow> (int \<times> cstr) option" where
  "scan_x s =
     (let s = skip_space s;
          (neg, s) = (case s of c # r \<Rightarrow> if c = 45 then (True, r) else if c = 43 then (False, r) else (False, s) | [] \<Rightarrow> (False, s));
          s = (case s of z # x # d # r \<Rightarrow> if z = 48 \<and> (x = 120 \<or> x = 88) \<and> hex_val d \<noteq> None then d # r else s | _ \<Rightarrow> s);
          ds = takeWhile (\<lambda>c. hex_val c \<noteq> None) s;
          v = foldl (\<lambda>v c. 16 * v + int (the (hex_val c))) 0 ds;
          v = min v (2 ^ 32 - 1)
      in if ds = [] then None else Some ((if neg then (- v) mod 2 ^ 32 else v), dropWhile (\<lambda>c. hex_val c \<noteq> None) s))"

definition scan_dot :: "cstr \<Rightarrow> cstr option" where
  "scan_dot s = (case s of c # r \<Rightarrow> if c = 46 then Some r else None | [] \<Rightarrow> None)"

definition Udb_Get_Oid :: "('s, 'o) dbi \<Rightarrow> 'o \<Rightarrow> 's \<Rightarrow> cstr c_run" where
  "Udb_Get_Oid db x s =
     c_bind (check_some (db_identifier db x s)) (\<lambda>(volid, pageid, slotid).
       Done (fmt_x volid @ [46] @ fmt_x pageid @ [46] @ fmt_x slotid))"

definition Udb_Decode_Oid :: "('s, 'o) dbi \<Rightarrow> cstr \<Rightarrow> 's \<Rightarrow> 'o option c_run" where
  "Udb_Decode_Oid db buf s =
     (case scan_x buf of
        None \<Rightarrow> Done None
      | Some (volid, r) \<Rightarrow>
          (case Option.bind (scan_dot r) scan_x of
             None \<Rightarrow> Done None
           | Some (pageid, r) \<Rightarrow>
               (case Option.bind (scan_dot r) scan_x of
                  None \<Rightarrow> Done None
                | Some (slotid, r) \<Rightarrow>
                    c_bind (check_some (db_object db (int16 volid, int32 pageid, int16 slotid) s)) (\<lambda>x. Done (Some x)))))"

section \<open>Collision rules\<close>

abbreviation NO_COLLISION :: int where "NO_COLLISION \<equiv> 0"
abbreviation WEAK_COLLISION :: int where "WEAK_COLLISION \<equiv> 1"
abbreviation NORMAL_COLLISION :: int where "NORMAL_COLLISION \<equiv> 2"
abbreviation STRONG_COLLISION :: int where "STRONG_COLLISION \<equiv> 3"

definition atoi :: "cstr \<Rightarrow> int" where
  "atoi s = int32 (strtol10 s)"

text \<open>The collision class, the attribute list and the strengths within owner, cell, organization and everywhere.\<close>

definition Decode_Rule :: "tclvar \<Rightarrow> (cstr \<Rightarrow> cstr list option) \<Rightarrow> cstr \<Rightarrow> (cstr \<times> cstr \<times> int list) c_run" where
  "Decode_Rule getvar split rule =
     c_bind (check_some (getvar ''UNAMEIT_COLLISION_RULE'' rule)) (\<lambda>rule_data.
     c_bind (check_some (split rule_data)) (\<lambda>argv.
       if length argv \<noteq> 7 then Panic else Done (argv ! 1, argv ! 2, map (\<lambda>i. atoi (argv ! i)) [3, 4, 5, 6])))"

definition Strength_To_Slot :: "int \<Rightarrow> cstr c_run" where
  "Strength_To_Slot strength =
     (if strength = STRONG_COLLISION then Done (cstr ''strong'')
      else if strength = NORMAL_COLLISION then Done (cstr ''normal'')
      else if strength = WEAK_COLLISION then Done (cstr ''weak'') else Panic)"

text \<open>Setting an entry of a hash table.\<close>

definition tbl_set :: "'k \<Rightarrow> 'v \<Rightarrow> ('k \<times> 'v) list \<Rightarrow> ('k \<times> 'v) list" where
  "tbl_set k v t = (if k \<in> fst ` set t then map (\<lambda>p. if fst p = k then (k, v) else p) t else t @ [(k, v)])"

text \<open>The cases of \<open>Udb_Stringify_Value\<close> that are no collections; a null value fails its assertion.\<close>

definition stringify_scalar :: "('s, 'o) dbi \<Rightarrow> (cstr \<Rightarrow> cstr \<Rightarrow> cstr) \<Rightarrow> cstr \<Rightarrow> 'o db_value \<Rightarrow> 's \<Rightarrow> cstr c_run" where
  "stringify_scalar db elem string v s =
     (case v of
        DB_STRING str \<Rightarrow> Done (elem string str)
      | DB_INTEGER i \<Rightarrow> Done (elem string (fmt_ld i))
      | DB_OBJECT x \<Rightarrow> c_bind (Udb_Get_Uuid db (Some x) s) (\<lambda>u. Done (elem string u))
      | _ \<Rightarrow> Panic)"

fun collision_key ::
  "('s, 'o) dbi \<Rightarrow> (cstr \<Rightarrow> cstr \<Rightarrow> cstr) \<Rightarrow> 'o \<Rightarrow> nat \<Rightarrow> 's \<Rightarrow> cstr list \<Rightarrow> 'o option \<Rightarrow> bool \<Rightarrow> cstr \<Rightarrow> ('o option \<times> (bool \<times> cstr) option) c_run" where
  "collision_key db elem object table s [] promoted_owner owner_found key = Done (promoted_owner, Some (owner_found, key))"
| "collision_key db elem object table s (attr # attrs) promoted_owner owner_found key =
     (case db_get db object attr s of
        NOERROR v \<Rightarrow>
          if v = DB_NULL then Done (promoted_owner, None)
          else if \<not> (has_type DB_TYPE_INTEGER v \<or> has_type DB_TYPE_STRING v \<or> has_type DB_TYPE_OBJECT v) then Panic
          else if attr = cstr ''owner''
          then if \<not> has_type DB_TYPE_OBJECT v then Panic
               else let promoted_owner = (if table = 0 then DB_GET_OBJECT v else promoted_owner)
                    in c_bind (stringify_scalar db elem key (DB_MAKE_OBJECT promoted_owner) s)
                         (collision_key db elem object table s attrs promoted_owner True)
          else c_bind (stringify_scalar db elem key v s) (collision_key db elem object table s attrs promoted_owner owner_found)
      | _ \<Rightarrow> Panic)"

definition Generate_Collision ::
  "('s, 'o) dbi \<Rightarrow> (cstr \<Rightarrow> cstr \<Rightarrow> cstr) \<Rightarrow> 'o \<Rightarrow> cstr \<Rightarrow> cstr list \<Rightarrow> nat \<Rightarrow> (cstr \<times> cstr) list list \<Rightarrow> 'o option \<Rightarrow> 's \<Rightarrow>
     ('o option \<times> (cstr \<times> cstr) list list) c_run" where
  "Generate_Collision db elem object rule attrs table tables promoted_owner s =
     c_bind (collision_key db elem object table s attrs promoted_owner False []) (\<lambda>(promoted_owner, r).
       case r of
         None \<Rightarrow> Done (promoted_owner, tables)
       | Some (owner_found, key) \<Rightarrow>
           if table > 0 \<and> \<not> owner_found then Panic
           else Done (promoted_owner, tables[table := tbl_set rule key (tables ! table)]))"

section \<open>The tables of an item\<close>

record 'i cache_tables =
  uniq_tables :: "(cstr \<times> cstr) list list"
  inet_table :: 'i
  range_table :: "(cstr \<times> cstr) list"

record ('o, 'i, 'w) inet_calls =
  Udb_Inet_Populate_Tables :: "'o \<Rightarrow> 'w \<Rightarrow> ('i \<times> 'w) c_run option"
  Udb_Inet_Update :: "cstr \<Rightarrow> 'o \<Rightarrow> 'i option \<Rightarrow> 'i option \<Rightarrow> 'w \<Rightarrow> (cstr tcl_result \<times> 'w) c_run option"
  Udb_Inet_Check_Integrity :: "'w \<Rightarrow> (cstr tcl_result \<times> 'w) c_run option"
  Udb_Inet_Reset_Checks :: "'w \<Rightarrow> 'w"

fun range_entries ::
  "('s, 'o) dbi \<Rightarrow> tclvar \<Rightarrow> (cstr \<Rightarrow> cstr \<Rightarrow> cstr) \<Rightarrow> 'o \<Rightarrow> 'o option \<Rightarrow> cstr list \<Rightarrow> (cstr \<times> cstr) list \<Rightarrow> ('s, 'o, 'm) udb_scheme \<Rightarrow>
     ((cstr \<times> cstr) list \<times> ('s, 'o, 'm) udb_scheme) c_run option" where
  "range_entries db getvar elem object owner [] table w = Some (Done (table, w))"
| "range_entries db getvar elem object owner (aname # anames) table w =
     o_bind (Some (Udb_Get_Value db object aname DB_TYPE_INTEGER (database w))) (\<lambda>v.
       if v = DB_NULL then range_entries db getvar elem object owner anames table w
       else
         o_bind (Some (check_some (getvar ''UNAMEIT_AUTO_LEVEL'' aname))) (\<lambda>level.
         o_bind (Some (check_some owner)) (\<lambda>owner'.
         o_bind (Udb_Get_Promoted_Owner db getvar owner' level w) (\<lambda>(promoted, w).
         o_bind (Some (check_some promoted)) (\<lambda>promoted_owner.
         o_bind (Some (Udb_Get_Oid db promoted_owner (database w))) (\<lambda>oid.
           range_entries db getvar elem object owner anames
             (tbl_set aname (elem (elem [] (fmt_ld (DB_GET_INTEGER v))) oid) table) w))))))"

definition Populate_Range_Table ::
  "('s, 'o) dbi \<Rightarrow> tclvar \<Rightarrow> (cstr \<Rightarrow> cstr list option) \<Rightarrow> (cstr \<Rightarrow> cstr \<Rightarrow> cstr) \<Rightarrow> 'o \<Rightarrow> ('s, 'o, 'm) udb_scheme \<Rightarrow>
     ((cstr \<times> cstr) list \<times> ('s, 'o, 'm) udb_scheme) c_run option" where
  "Populate_Range_Table db getvar split elem object w =
     o_bind (Some (check_some (db_get_class_name db (db_get_class db object (database w)) (database w)))) (\<lambda>class_name.
       case getvar ''UNAMEIT_AUTO_ATTRIBUTES'' class_name of
         None \<Rightarrow> Some (Done ([], w))
       | Some ranges \<Rightarrow>
           o_bind (Some (check_some (split ranges))) (\<lambda>range_argv.
           o_bind (Some (Udb_Get_Value db object (cstr ''owner'') DB_TYPE_OBJECT (database w))) (\<lambda>v.
             range_entries db getvar elem object (DB_GET_OBJECT v) range_argv [] w)))"

definition legal_strength :: "int \<Rightarrow> bool" where
  "legal_strength i \<longleftrightarrow> i \<in> {NO_COLLISION, STRONG_COLLISION, NORMAL_COLLISION, WEAK_COLLISION}"

text \<open>One rule: the key within the owner, and with the owner replaced by its cell, organization and the root,
  unless these are the same.\<close>

definition populate_rule ::
  "('s, 'o) dbi \<Rightarrow> tclvar \<Rightarrow> (cstr \<Rightarrow> cstr list option) \<Rightarrow> (cstr \<Rightarrow> cstr \<Rightarrow> cstr) \<Rightarrow> 'o \<Rightarrow> cstr \<Rightarrow> (cstr \<times> cstr) list list \<Rightarrow>
     ('s, 'o, 'm) udb_scheme \<Rightarrow> ((cstr \<times> cstr) list list \<times> ('s, 'o, 'm) udb_scheme) c_run option" where
  "populate_rule db getvar split elem object rule tables w =
     o_bind (Some (Decode_Rule getvar split rule)) (\<lambda>(collision_class, rule_attributes, strength).
       if \<not> list_all legal_strength strength then Some Panic
       else
         o_bind (Some (check_some (split rule_attributes))) (\<lambda>attrs.
         o_bind (if strength ! 0 \<noteq> NO_COLLISION
                 then Some (Generate_Collision db elem object rule attrs 0 tables None (database w)) else Some (Done (None, tables)))
           (\<lambda>(owner, tables).
         o_bind (if strength ! 1 \<noteq> NO_COLLISION
                 then o_bind (Udb_Get_Promoted_Owner db getvar (case owner of None \<Rightarrow> object | Some x \<Rightarrow> x) (cstr ''Cell'') w) (\<lambda>(cell, w).
                        if cell \<noteq> owner
                        then o_bind (Some (Generate_Collision db elem object rule attrs 1 tables cell (database w))) (\<lambda>(cell, tables). Some (Done (cell, tables, w)))
                        else Some (Done (cell, tables, w)))
                 else Some (Done (None, tables, w)))
           (\<lambda>(cell, tables, w).
         o_bind (if strength ! 2 \<noteq> NO_COLLISION
                 then o_bind (Udb_Get_Promoted_Owner db getvar (case cell of Some x \<Rightarrow> x | None \<Rightarrow> (case owner of None \<Rightarrow> object | Some x \<Rightarrow> x)) (cstr ''Org'') w) (\<lambda>(org, w).
                        if org \<noteq> owner \<and> org \<noteq> cell
                        then o_bind (Some (Generate_Collision db elem object rule attrs 2 tables org (database w))) (\<lambda>(org, tables). Some (Done (org, tables, w)))
                        else Some (Done (org, tables, w)))
                 else Some (Done (None, tables, w)))
           (\<lambda>(org, tables, w).
         if strength ! 3 \<noteq> NO_COLLISION
         then o_bind (Udb_Get_Promoted_Owner db getvar object (cstr ''Global'') w) (\<lambda>(root, w).
                if root \<noteq> owner \<and> root \<noteq> cell \<and> root \<noteq> org
                then o_bind (Some (Generate_Collision db elem object rule attrs 3 tables root (database w))) (\<lambda>(root, tables). Some (Done (tables, w)))
                else Some (Done (tables, w)))
         else Some (Done (tables, w)))))))"

fun populate_rules ::
  "('s, 'o) dbi \<Rightarrow> tclvar \<Rightarrow> (cstr \<Rightarrow> cstr list option) \<Rightarrow> (cstr \<Rightarrow> cstr \<Rightarrow> cstr) \<Rightarrow> 'o \<Rightarrow> cstr list \<Rightarrow> (cstr \<times> cstr) list list \<Rightarrow>
     ('s, 'o, 'm) udb_scheme \<Rightarrow> ((cstr \<times> cstr) list list \<times> ('s, 'o, 'm) udb_scheme) c_run option" where
  "populate_rules db getvar split elem object [] tables w = Some (Done (tables, w))"
| "populate_rules db getvar split elem object (rule # rules) tables w =
     o_bind (populate_rule db getvar split elem object rule tables w) (\<lambda>(tables, w). populate_rules db getvar split elem object rules tables w)"

definition Udb_Populate_Caches ::
  "('s, 'o) dbi \<Rightarrow> ('o, 'i, ('s, 'o, 'm) udb_scheme) inet_calls \<Rightarrow> tclvar \<Rightarrow> (cstr \<Rightarrow> cstr list option) \<Rightarrow> (cstr \<Rightarrow> cstr \<Rightarrow> cstr) \<Rightarrow> 'o \<Rightarrow>
     ('s, 'o, 'm) udb_scheme \<Rightarrow> ('i cache_tables \<times> ('s, 'o, 'm) udb_scheme) c_run option" where
  "Udb_Populate_Caches db inet getvar split elem object w =
     o_bind (Some (check_some (db_get_class_name db (db_get_class db object (database w)) (database w)))) (\<lambda>class_name.
     o_bind (case getvar ''UNAMEIT_COLLISIONS'' class_name of
               None \<Rightarrow> Some (Done (replicate 4 [], w))
             | Some rules \<Rightarrow>
                 o_bind (Some (check_some (split rules))) (\<lambda>rule_argv. populate_rules db getvar split elem object rule_argv (replicate 4 []) w))
       (\<lambda>(tables, w).
     o_bind (Udb_Inet_Populate_Tables inet object w) (\<lambda>(inet_tbl, w).
     o_bind (Populate_Range_Table db getvar split elem object w) (\<lambda>(range_tbl, w).
       Some (Done (\<lparr>uniq_tables = tables, inet_table = inet_tbl, range_table = range_tbl\<rparr>, w))))))"

section \<open>Pending uniqueness checks\<close>

definition tbl_add :: "'k \<Rightarrow> 'k list option \<Rightarrow> 'k list option" where
  "tbl_add k t = (case t of None \<Rightarrow> Some [k] | Some ks \<Rightarrow> Some (List.insert k ks))"

definition Udb_Add_Unique_Check :: "'o \<Rightarrow> ('s, 'o, 'm) udb_scheme \<Rightarrow> ('s, 'o, 'm) udb_scheme" where
  "Udb_Add_Unique_Check object w = w\<lparr>uniqTable := tbl_add object (uniqTable w)\<rparr>"

definition Udb_Drop_Unique_Check :: "'o \<Rightarrow> ('s, 'o, 'm) udb_scheme \<Rightarrow> ('s, 'o, 'm) udb_scheme" where
  "Udb_Drop_Unique_Check object w = w\<lparr>uniqTable := map_option (removeAll object) (uniqTable w)\<rparr>"

definition Udb_Reset_Unique_Checks :: "('s, 'o, 'm) udb_scheme \<Rightarrow> ('s, 'o, 'm) udb_scheme" where
  "Udb_Reset_Unique_Checks w = w\<lparr>uniqTable := None\<rparr>"

definition slot_set :: "('s, 'o) dbi \<Rightarrow> 'o \<Rightarrow> int \<Rightarrow> 's \<Rightarrow> 'o db_collection c_run" where
  "slot_set db bucket strength s =
     c_bind (Strength_To_Slot strength) (\<lambda>slot.
     c_bind (Udb_Get_Value db bucket slot DB_TYPE_SET s) (\<lambda>v. check_some (DB_GET_COLLECTION v)))"

definition slot_size :: "('s, 'o) dbi \<Rightarrow> 'o \<Rightarrow> int \<Rightarrow> 's \<Rightarrow> nat c_run" where
  "slot_size db bucket strength s = c_bind (slot_set db bucket strength s) (\<lambda>col. Done (db_col_size db col s))"

definition Drop_Collision_Entry_If_Empty :: "('s, 'o) dbi \<Rightarrow> 'o \<Rightarrow> 'o \<Rightarrow> ('s, 'o, 'm) udb_scheme \<Rightarrow> ('s, 'o, 'm) udb_scheme c_run" where
  "Drop_Collision_Entry_If_Empty db class object w =
     c_bind (slot_size db object STRONG_COLLISION (database w)) (\<lambda>n. if n > 0 then Done w
       else c_bind (slot_size db object NORMAL_COLLISION (database w)) (\<lambda>n. if n > 0 then Done w
       else c_bind (slot_size db object WEAK_COLLISION (database w)) (\<lambda>n. if n > 0 then Done w
       else Udb_Append_Free_List db class (dbt_edit_object object) (Some (cstr ''key'')) (Udb_Drop_Unique_Check object w))))"

definition Grow_Cache_Entry :: "('s, 'o) dbi \<Rightarrow> 'o \<Rightarrow> int \<Rightarrow> 'o \<Rightarrow> ('s, 'o, 'm) udb_scheme \<Rightarrow> ('s, 'o, 'm) udb_scheme c_run" where
  "Grow_Cache_Entry db cache_object strength object w =
     c_bind (slot_set db cache_object strength (database w)) (\<lambda>col.
     c_bind (if strength = STRONG_COLLISION then Done True
             else if strength = NORMAL_COLLISION
             then if db_col_size db col (database w) > 0 then Done True
                  else c_bind (slot_size db cache_object STRONG_COLLISION (database w)) (\<lambda>n. Done (n > 0))
             else c_bind (slot_size db cache_object STRONG_COLLISION (database w)) (\<lambda>n. Done (n > 0)))
       (\<lambda>chk.
     let w = (if chk then Udb_Add_Unique_Check cache_object w else w)
     in c_bind (Udb_Add_To_Set db col object (database w)) (\<lambda>(col, s). Done (w\<lparr>database := s\<rparr>))))"

fun uniq_drop ::
  "('s, 'o) dbi \<Rightarrow> tclvar \<Rightarrow> (cstr \<Rightarrow> cstr list option) \<Rightarrow> 'o \<Rightarrow> nat \<Rightarrow> (cstr \<times> cstr) list \<Rightarrow> (cstr \<times> cstr) list option \<Rightarrow>
     ('s, 'o, 'm) udb_scheme \<Rightarrow> ((cstr \<times> cstr) list option \<times> ('s, 'o, 'm) udb_scheme) c_run" where
  "uniq_drop db getvar split object i [] new w = Done (new, w)"
| "uniq_drop db getvar split object i ((rule, old_cache_key) # entries) new w =
     c_bind (Decode_Rule getvar split rule) (\<lambda>(collision_class, attributes, strength).
     c_bind (Udb_Get_Class db collision_class w) (\<lambda>(cache_class, w).
       if Option.bind new (\<lambda>t. map_of t rule) = Some old_cache_key
       then uniq_drop db getvar split object i entries (map_option (filter (\<lambda>p. fst p \<noteq> rule)) new) w
       else
         c_bind (check_some (db_find_unique db cache_class (cstr ''key'') (DB_STRING old_cache_key) (database w))) (\<lambda>cache_object.
         c_bind (slot_set db cache_object (strength ! i) (database w)) (\<lambda>col.
         c_bind (Udb_Drop_From_Set db col object (database w)) (\<lambda>(n, s).
         c_bind (if n = 0 then Drop_Collision_Entry_If_Empty db cache_class cache_object (w\<lparr>database := s\<rparr>) else Done (w\<lparr>database := s\<rparr>))
           (uniq_drop db getvar split object i entries new))))))"

fun uniq_add ::
  "('s, 'o) dbi \<Rightarrow> tclvar \<Rightarrow> (cstr \<Rightarrow> cstr list option) \<Rightarrow> 'o \<Rightarrow> nat \<Rightarrow> (cstr \<times> cstr) list \<Rightarrow>
     ('s, 'o, 'm) udb_scheme \<Rightarrow> ('s, 'o, 'm) udb_scheme c_run" where
  "uniq_add db getvar split object i [] w = Done w"
| "uniq_add db getvar split object i ((rule, new_cache_key) # entries) w =
     c_bind (Decode_Rule getvar split rule) (\<lambda>(collision_class, attributes, strength).
     c_bind (Udb_Get_Class db collision_class w) (\<lambda>(cache_class, w).
     c_bind (case db_find_unique db cache_class (cstr ''key'') (DB_STRING new_cache_key) (database w) of
               None \<Rightarrow>
                 c_bind (Udb_Edit_Free_Object db cache_class w) (\<lambda>(t, w).
                 c_bind (Udb_Add_To_Set db (Col_New []) object (database w)) (\<lambda>(col, s).
                 c_bind (Strength_To_Slot (strength ! i)) (\<lambda>slot.
                 c_bind (Udb_Finish_Object db None (Some (dbt_put (dbt_put t (cstr ''key'') (DB_STRING new_cache_key)) slot (DB_SET col))) False (w\<lparr>database := s\<rparr>)) (\<lambda>(x, w).
                 c_bind (check_some x) (\<lambda>_. Done w)))))
             | Some cache_object \<Rightarrow> Grow_Cache_Entry db cache_object (strength ! i) object w)
       (uniq_add db getvar split object i entries)))"

fun uniq_drop_all ::
  "('s, 'o) dbi \<Rightarrow> tclvar \<Rightarrow> (cstr \<Rightarrow> cstr list option) \<Rightarrow> 'o \<Rightarrow> nat \<Rightarrow> (cstr \<times> cstr) list list \<Rightarrow> (cstr \<times> cstr) list list option \<Rightarrow>
     ('s, 'o, 'm) udb_scheme \<Rightarrow> ((cstr \<times> cstr) list list option \<times> ('s, 'o, 'm) udb_scheme) c_run" where
  "uniq_drop_all db getvar split object i [] new w = Done (new, w)"
| "uniq_drop_all db getvar split object i (old # olds) new w =
     c_bind (uniq_drop db getvar split object i old (map_option (\<lambda>t. t ! i) new) w) (\<lambda>(new_i, w).
       uniq_drop_all db getvar split object (i + 1) olds (case new_i of None \<Rightarrow> new | Some t \<Rightarrow> map_option (\<lambda>ts. ts[i := t]) new) w)"

fun uniq_add_all ::
  "('s, 'o) dbi \<Rightarrow> tclvar \<Rightarrow> (cstr \<Rightarrow> cstr list option) \<Rightarrow> 'o \<Rightarrow> nat \<Rightarrow> (cstr \<times> cstr) list list \<Rightarrow>
     ('s, 'o, 'm) udb_scheme \<Rightarrow> ('s, 'o, 'm) udb_scheme c_run" where
  "uniq_add_all db getvar split object i [] w = Done w"
| "uniq_add_all db getvar split object i (new # news) w =
     c_bind (uniq_add db getvar split object i new w) (uniq_add_all db getvar split object (i + 1) news)"

text \<open>Deletions before creations.\<close>

definition Update_Uniqueness_Caches ::
  "('s, 'o) dbi \<Rightarrow> tclvar \<Rightarrow> (cstr \<Rightarrow> cstr list option) \<Rightarrow> 'o \<Rightarrow> (cstr \<times> cstr) list list option \<Rightarrow> (cstr \<times> cstr) list list option \<Rightarrow>
     ('s, 'o, 'm) udb_scheme \<Rightarrow> ('s, 'o, 'm) udb_scheme c_run" where
  "Update_Uniqueness_Caches db getvar split object old_tables new_tables w =
     c_bind (case old_tables of None \<Rightarrow> Done (new_tables, w) | Some olds \<Rightarrow> uniq_drop_all db getvar split object 0 olds new_tables w)
       (\<lambda>(new_tables, w). case new_tables of None \<Rightarrow> Done w | Some news \<Rightarrow> uniq_add_all db getvar split object 0 news w)"

section \<open>Range entries of an item\<close>

definition decode_range :: "('s, 'o) dbi \<Rightarrow> (cstr \<Rightarrow> int option) \<Rightarrow> (cstr \<Rightarrow> cstr list option) \<Rightarrow> cstr \<Rightarrow> 's \<Rightarrow> (int \<times> 'o) c_run" where
  "decode_range db db_value_put split state s =
     c_bind (check_some (split state)) (\<lambda>argv.
       if length argv \<noteq> 2 then Panic
       else c_bind (check_some (Udb_String_To_Int32 db_value_put (argv ! 0))) (\<lambda>i.
            c_bind (Udb_Decode_Oid db (argv ! 1) s) (\<lambda>x. c_bind (check_some x) (\<lambda>owner. Done (i, owner)))))"

fun range_old ::
  "('s, 'o) dbi \<Rightarrow> (cstr \<Rightarrow> int option) \<Rightarrow> (cstr \<Rightarrow> cstr list option) \<Rightarrow> (cstr \<Rightarrow> cstr \<Rightarrow> cstr) \<Rightarrow> 'o \<Rightarrow> (cstr \<times> cstr) list \<Rightarrow> (cstr \<times> cstr) list option \<Rightarrow>
     ('s, 'o, 'm) udb_scheme \<Rightarrow> ((cstr \<times> cstr) list option \<times> ('s, 'o, 'm) udb_scheme) c_run" where
  "range_old db db_value_put split elem object [] new w = Done (new, w)"
| "range_old db db_value_put split elem object ((attribute, old_state) # entries) new w =
     c_bind (decode_range db db_value_put split old_state (database w)) (\<lambda>(old_int, old_owner).
       case Option.bind new (\<lambda>t. map_of t attribute) of
         None \<Rightarrow>
           c_bind (Udb_Delete_Range_Entry db elem old_owner attribute old_int object w) (range_old db db_value_put split elem object entries new)
       | Some new_state \<Rightarrow>
           c_bind (decode_range db db_value_put split new_state (database w)) (\<lambda>(new_int, new_owner).
           c_bind (if new_int \<noteq> old_int \<or> new_owner \<noteq> old_owner
                   then c_bind (Udb_Delete_Range_Entry db elem old_owner attribute old_int object w)
                          (Udb_Add_Range_Entry db elem new_owner attribute new_int object)
                   else Done w)
             (range_old db db_value_put split elem object entries (map_option (filter (\<lambda>p. fst p \<noteq> attribute)) new))))"

fun range_new ::
  "('s, 'o) dbi \<Rightarrow> (cstr \<Rightarrow> int option) \<Rightarrow> (cstr \<Rightarrow> cstr list option) \<Rightarrow> (cstr \<Rightarrow> cstr \<Rightarrow> cstr) \<Rightarrow> 'o \<Rightarrow> (cstr \<times> cstr) list \<Rightarrow>
     ('s, 'o, 'm) udb_scheme \<Rightarrow> ('s, 'o, 'm) udb_scheme c_run" where
  "range_new db db_value_put split elem object [] w = Done w"
| "range_new db db_value_put split elem object ((attribute, new_state) # entries) w =
     c_bind (decode_range db db_value_put split new_state (database w)) (\<lambda>(new_int, new_owner).
     c_bind (Udb_Add_Range_Entry db elem new_owner attribute new_int object w) (range_new db db_value_put split elem object entries))"

definition Update_Range_Caches ::
  "('s, 'o) dbi \<Rightarrow> (cstr \<Rightarrow> int option) \<Rightarrow> (cstr \<Rightarrow> cstr list option) \<Rightarrow> (cstr \<Rightarrow> cstr \<Rightarrow> cstr) \<Rightarrow> 'o \<Rightarrow> (cstr \<times> cstr) list option \<Rightarrow> (cstr \<times> cstr) list option \<Rightarrow>
     ('s, 'o, 'm) udb_scheme \<Rightarrow> ('s, 'o, 'm) udb_scheme c_run" where
  "Update_Range_Caches db db_value_put split elem object old_table new_table w =
     c_bind (case old_table of None \<Rightarrow> Done (new_table, w) | Some old \<Rightarrow> range_old db db_value_put split elem object old new_table w)
       (\<lambda>(new_table, w). case new_table of None \<Rightarrow> Done w | Some new \<Rightarrow> range_new db db_value_put split elem object new w)"

definition Udb_Update_Caches ::
  "('s, 'o) dbi \<Rightarrow> ('o, 'i, ('s, 'o, 'm) udb_scheme) inet_calls \<Rightarrow> tclvar \<Rightarrow> (cstr \<Rightarrow> int option) \<Rightarrow> (cstr \<Rightarrow> cstr list option) \<Rightarrow> (cstr \<Rightarrow> cstr \<Rightarrow> cstr) \<Rightarrow>
     cstr \<Rightarrow> 'o \<Rightarrow> 'i cache_tables option \<Rightarrow> 'i cache_tables option \<Rightarrow> ('s, 'o, 'm) udb_scheme \<Rightarrow> (cstr tcl_result \<times> ('s, 'o, 'm) udb_scheme) c_run option" where
  "Udb_Update_Caches db inet getvar db_value_put split elem uuid object old_tables new_tables w =
     o_bind (Udb_Inet_Update inet uuid object (map_option inet_table old_tables) (map_option inet_table new_tables) w) (\<lambda>(result, w).
       case result of
         Tcl_Error code msg \<Rightarrow> Some (Done (result, w))
       | Tcl_Ok r \<Rightarrow>
           Some (c_bind (Update_Uniqueness_Caches db getvar split object (map_option uniq_tables old_tables) (map_option uniq_tables new_tables) w) (\<lambda>w.
                 c_bind (Update_Range_Caches db db_value_put split elem object (map_option range_table old_tables) (map_option range_table new_tables) w) (\<lambda>w.
                   Done (result, w)))))"

definition Udb_Delete_All_Caches ::
  "('s, 'o) dbi \<Rightarrow> ('o, 'i, ('s, 'o, 'm) udb_scheme) inet_calls \<Rightarrow> tclvar \<Rightarrow> (cstr \<Rightarrow> int option) \<Rightarrow> (cstr \<Rightarrow> cstr list option) \<Rightarrow> (cstr \<Rightarrow> cstr \<Rightarrow> cstr) \<Rightarrow>
     cstr \<Rightarrow> 'o \<Rightarrow> ('s, 'o, 'm) udb_scheme \<Rightarrow> ('s, 'o, 'm) udb_scheme c_run option" where
  "Udb_Delete_All_Caches db inet getvar db_value_put split elem uuid object w =
     o_bind (Udb_Populate_Caches db inet getvar split elem object w) (\<lambda>(old_tables, w).
     o_bind (Udb_Update_Caches db inet getvar db_value_put split elem uuid object (Some old_tables) None w) (\<lambda>(result, w).
       case result of Tcl_Ok r \<Rightarrow> Some (Done w) | Tcl_Error code msg \<Rightarrow> Some Panic))"

section \<open>The checks at commit\<close>

fun Construct_Uuid_Attr_List ::
  "('s, 'o) dbi \<Rightarrow> tclvar \<Rightarrow> 'o \<Rightarrow> 'o db_collection \<Rightarrow> nat \<Rightarrow> nat \<Rightarrow> 's \<Rightarrow> cstr list \<Rightarrow> cstr list c_run" where
  "Construct_Uuid_Attr_List db getvar cache_class items i 0 s list = Done list"
| "Construct_Uuid_Attr_List db getvar cache_class items i (Suc n) s list =
     c_bind (Udb_Get_Collection_Value db items i DB_TYPE_OBJECT s) (\<lambda>v.
     c_bind (check_some (DB_GET_OBJECT v)) (\<lambda>obj.
     c_bind (Udb_Get_Uuid db (Some obj) s) (\<lambda>uuid.
     c_bind (check_some (db_get_class_name db (db_get_class db obj s) s)) (\<lambda>obj_class.
     c_bind (check_some (db_get_class_name db cache_class s)) (\<lambda>cache_name.
     c_bind (check_some (getvar ''UNAMEIT_COLLISION_ATTRS'' (obj_class @ cstr ''.'' @ cache_name))) (\<lambda>attr_list.
       Construct_Uuid_Attr_List db getvar cache_class items (i + 1) n s (list @ [uuid, attr_list])))))))"

definition Udb_EDIRECTUNIQ :: "('s, 'o) dbi \<Rightarrow> tclvar \<Rightarrow> 'o \<Rightarrow> 'o db_collection \<Rightarrow> nat \<Rightarrow> 's \<Rightarrow> cstr tcl_result c_run" where
  "Udb_EDIRECTUNIQ db getvar cache_class items item_count s =
     (if \<not> item_count > 1 then Panic
      else c_bind (Construct_Uuid_Attr_List db getvar cache_class items 0 item_count s [cstr ''UNAMEIT'', cstr ''EDIRECTUNIQ'']) (\<lambda>l.
        Done (Tcl_Error l (cstr ''Uniqueness violation''))))"

definition Udb_EINDIRUNIQ :: "('s, 'o) dbi \<Rightarrow> tclvar \<Rightarrow> 'o \<Rightarrow> 'o db_collection \<Rightarrow> 'o db_collection \<Rightarrow> nat \<Rightarrow> 's \<Rightarrow> cstr tcl_result c_run" where
  "Udb_EINDIRUNIQ db getvar cache_class globals locals local_count s =
     (if \<not> local_count \<ge> 1 then Panic
      else c_bind (Construct_Uuid_Attr_List db getvar cache_class globals 0 1 s [cstr ''UNAMEIT'', cstr ''EINDIRUNIQ'']) (\<lambda>l.
           c_bind (Construct_Uuid_Attr_List db getvar cache_class locals 0 local_count s l) (\<lambda>l.
             Done (Tcl_Error l (cstr ''Uniqueness violation'')))))"

definition check_bucket :: "('s, 'o) dbi \<Rightarrow> tclvar \<Rightarrow> 'o \<Rightarrow> 's \<Rightarrow> cstr tcl_result c_run" where
  "check_bucket db getvar bucket s =
     (let class = db_get_class db bucket s
      in c_bind (slot_set db bucket STRONG_COLLISION s) (\<lambda>strong_set.
         let strong_count = db_col_size db strong_set s
         in if strong_count > 1 then Udb_EDIRECTUNIQ db getvar class strong_set strong_count s
            else c_bind (slot_set db bucket NORMAL_COLLISION s) (\<lambda>normal_set.
              let normal_count = db_col_size db normal_set s
              in if normal_count > 1 then Udb_EDIRECTUNIQ db getvar class normal_set normal_count s
                 else if strong_count > 0 \<and> normal_count > 0
                 then Udb_EINDIRUNIQ db getvar class strong_set normal_set normal_count s
                 else if strong_count > 0
                 then c_bind (slot_set db bucket WEAK_COLLISION s) (\<lambda>weak_set.
                        let weak_count = db_col_size db weak_set s
                        in if weak_count > 0 then Udb_EINDIRUNIQ db getvar class strong_set weak_set weak_count s
                           else Done (Tcl_Ok []))
                 else Done (Tcl_Ok []))))"

fun unique_loop :: "('s, 'o) dbi \<Rightarrow> tclvar \<Rightarrow> 'o list \<Rightarrow> 's \<Rightarrow> (cstr tcl_result \<times> 'o list) c_run" where
  "unique_loop db getvar [] s = Done (Tcl_Ok [], [])"
| "unique_loop db getvar (bucket # buckets) s =
     c_bind (check_bucket db getvar bucket s) (\<lambda>r.
       case r of Tcl_Ok _ \<Rightarrow> unique_loop db getvar buckets s | Tcl_Error code msg \<Rightarrow> Done (r, buckets))"

definition Udb_Do_Unique_Checks :: "('s, 'o) dbi \<Rightarrow> tclvar \<Rightarrow> ('s, 'o, 'm) udb_scheme \<Rightarrow> (cstr tcl_result \<times> ('s, 'o, 'm) udb_scheme) c_run" where
  "Udb_Do_Unique_Checks db getvar w =
     (case uniqTable w of
        None \<Rightarrow> Done (Tcl_Ok [], w)
      | Some buckets \<Rightarrow> c_bind (unique_loop db getvar buckets (database w)) (\<lambda>(r, rest). Done (r, w\<lparr>uniqTable := Some rest\<rparr>)))"

end
