(* ===== verification/OidProps.thy ===== *)
theory OidProps
  imports NameCache MemDbi
begin

text \<open>
  Object identifiers as strings: the identifier that \<open>Udb_Get_Oid\<close> of \<^verbatim>\<open>libudb/lookup.c\<close> prints is read back by
  \<open>Udb_Decode_Oid\<close>.
\<close>

lemma hex_char_val:
  assumes "d < 16"
  shows "hex_val (hex_char d) = Some d" "hex_char d \<noteq> 45" "hex_char d \<noteq> 43" "hex_char d \<noteq> 32" "\<not> (9 \<le> hex_char d \<and> hex_char d \<le> 13)"
    "hex_char d \<noteq> 120" "hex_char d \<noteq> 88" "hex_char d = 48 \<longleftrightarrow> d = 0"
proof -
  have "d = 0 \<or> d = 1 \<or> d = 2 \<or> d = 3 \<or> d = 4 \<or> d = 5 \<or> d = 6 \<or> d = 7 \<or> d = 8 \<or> d = 9 \<or> d = 10 \<or> d = 11 \<or> d = 12 \<or> d = 13 \<or> d = 14 \<or> d = 15"
    using assms by presburger
  then show "hex_val (hex_char d) = Some d" "hex_char d \<noteq> 45" "hex_char d \<noteq> 43" "hex_char d \<noteq> 32" "\<not> (9 \<le> hex_char d \<and> hex_char d \<le> 13)"
    "hex_char d \<noteq> 120" "hex_char d \<noteq> 88" "hex_char d = 48 \<longleftrightarrow> d = 0"
    by (elim disjE; simp add: hex_val_def hex_char_def)+
qed

lemma hex_nat_small: "n < 16 \<Longrightarrow> hex_nat n = [hex_char n]"
  by (simp add: hex_nat.simps)

lemma hex_nat_step: "\<not> n < 16 \<Longrightarrow> hex_nat n = hex_nat (n div 16) @ [hex_char (n mod 16)]"
  by (simp add: hex_nat.simps [of n])

lemma hex_nat_digits: "c \<in> set (hex_nat n) \<Longrightarrow> \<exists>d<16. c = hex_char d"
proof (induction n rule: hex_nat.induct)
  case (1 n)
  show ?case
  proof (cases "n < 16")
    case False
    then consider "c \<in> set (hex_nat (n div 16))" | "c = hex_char (n mod 16)" using 1(2) by (auto simp: hex_nat_step)
    then show ?thesis using 1(1) [OF False] by cases (auto intro: exI [of _ "n mod 16"])
  qed (use 1(2) in \<open>auto simp: hex_nat_small\<close>)
qed

lemma hex_nat_value: "foldl (\<lambda>v c. 16 * v + int (the (hex_val c))) 0 (hex_nat n) = int n"
proof (induction n rule: hex_nat.induct)
  case (1 n)
  show ?case
  proof (cases "n < 16")
    case False
    have "16 * int (n div 16) + int (n mod 16) = int n" by (metis mult_div_mod_eq of_nat_add of_nat_mult of_nat_numeral)
    then show ?thesis using 1 [OF False] by (simp add: hex_nat_step [OF False] hex_char_val)
  qed (simp add: hex_nat_small hex_char_val)
qed

text \<open>Only zero starts with the digit zero.\<close>

lemma hex_nat_head: "\<exists>d r. hex_nat n = hex_char d # r \<and> d < 16 \<and> (d = 0 \<longrightarrow> n = 0 \<and> r = [])"
proof (induction n rule: hex_nat.induct)
  case (1 n)
  show ?case
  proof (cases "n < 16")
    case False
    then obtain d r where "hex_nat (n div 16) = hex_char d # r" "d < 16" "d = 0 \<longrightarrow> n div 16 = 0" using 1 by blast
    moreover have "n div 16 \<noteq> 0" using False by simp
    ultimately show ?thesis by (intro exI [of _ d] exI [of _ "r @ [hex_char (n mod 16)]"]) (simp add: hex_nat_step [OF False])
  qed (auto simp: hex_nat_small)
qed

text \<open>What may follow a printed number: nothing, or a character that is neither a digit nor part of a prefix.\<close>

definition no_hex :: "cstr \<Rightarrow> bool" where
  "no_hex t \<longleftrightarrow> (case t of [] \<Rightarrow> True | c # r \<Rightarrow> hex_val c = None \<and> c \<noteq> 120 \<and> c \<noteq> 88)"

lemma hex_prefix:
  assumes "no_hex t"
  shows "takeWhile (\<lambda>c. hex_val c \<noteq> None) (hex_nat n @ t) = hex_nat n" "dropWhile (\<lambda>c. hex_val c \<noteq> None) (hex_nat n @ t) = t"
proof -
  have "hex_val x \<noteq> None" if "x \<in> set (hex_nat n)" for x using hex_nat_digits [OF that] hex_char_val(1) by auto
  then show "takeWhile (\<lambda>c. hex_val c \<noteq> None) (hex_nat n @ t) = hex_nat n" "dropWhile (\<lambda>c. hex_val c \<noteq> None) (hex_nat n @ t) = t"
    using assms by (cases t; simp add: takeWhile_append2 dropWhile_append2 no_hex_def)+
qed

text \<open>Scanning what was printed.\<close>

lemma scan_x_printed:
  assumes "n < 2 ^ 32" "no_hex t"
  shows "scan_x (hex_nat n @ t) = Some (int n, t)"
proof -
  obtain d q where d: "hex_nat n = hex_char d # q" "d < 16" "d = 0 \<longrightarrow> n = 0 \<and> q = []" using hex_nat_head by blast
  let ?s = "hex_nat n @ t"
  have space: "skip_space ?s = ?s" using d(1) hex_char_val(4,5) [OF d(2)] by auto
  have sign: "(case ?s of c # r \<Rightarrow> if c = 45 then (True, r) else if c = 43 then (False, r) else (False, ?s) | [] \<Rightarrow> (False, ?s)) = (False, ?s)"
    using d hex_char_val [OF d(2)] by simp
  have prefix: "(case ?s of z # x # e # r \<Rightarrow> if z = 48 \<and> (x = 120 \<or> x = 88) \<and> hex_val e \<noteq> None then e # r else ?s | _ \<Rightarrow> ?s) = ?s"
    using d hex_char_val(8) [OF d(2)] assms(2) by (auto simp: no_hex_def split: list.split)
  have "min (int n) (2 ^ 32 - 1) = int n" using assms(1) by simp
  then show ?thesis
    unfolding scan_x_def space Let_def sign prod.case prefix using hex_prefix [OF assms(2), of n] hex_nat_value [of n] d(1) by simp
qed

lemma int16_printed:
  assumes "is_int16 i"
  shows "int16 (i mod 2 ^ 32) = i"
proof -
  have "i mod 2 ^ 32 mod 2 ^ 16 = i mod 2 ^ 16" by (rule mod_mod_cancel) simp
  then have "(i mod 2 ^ 32 + 2 ^ 15) mod 2 ^ 16 = (i + 2 ^ 15) mod 2 ^ 16" by (rule mod_add_cong) simp
  moreover have "(i + 2 ^ 15) mod 2 ^ 16 = i + 2 ^ 15" using assms by (intro mod_pos_pos_trivial) (auto simp: is_int16_def)
  ultimately show ?thesis by (simp only: int16_def add_diff_cancel_right')
qed

lemma int32_printed: "is_int32 i \<Longrightarrow> int32 (i mod 2 ^ 32) = i"
  using int32_cong [of "i mod 2 ^ 32" i] by simp

lemma scan_x_fmt: "no_hex t \<Longrightarrow> scan_x (fmt_x i @ t) = Some (i mod 2 ^ 32, t)"
  using scan_x_printed [of "nat (i mod 2 ^ 32)" t] by (simp add: fmt_x_def nat_less_iff)

section \<open>Property\<close>

text \<open>C25: an object identifier survives being printed and read: for every object whose identifier has a 16-bit
  volume, a 32-bit page and a 16-bit slot (negative numbers included), decoding the printed identifier gives the object
  back.\<close>

theorem Udb_Decode_Oid_Get_Oid:
  assumes "db_identifier db x s = Some (volid, pageid, slotid)" "is_int16 volid" "is_int32 pageid" "is_int16 slotid"
    "db_object db (volid, pageid, slotid) s = Some x"
  shows "\<exists>oid. Udb_Get_Oid db x s = Done oid \<and> Udb_Decode_Oid db oid s = Done (Some x)"
proof -
  define t where "t = 46 # fmt_x slotid"
  define oid where "oid = fmt_x volid @ 46 # fmt_x pageid @ t"
  have n: "no_hex (46 # r)" "no_hex []" for r by (simp_all add: no_hex_def hex_val_def)
  have "scan_x oid = Some (volid mod 2 ^ 32, 46 # fmt_x pageid @ t)" unfolding oid_def by (rule scan_x_fmt [OF n(1)])
  moreover have "Option.bind (scan_dot (46 # fmt_x pageid @ t)) scan_x = Some (pageid mod 2 ^ 32, t)"
    unfolding scan_dot_def using scan_x_fmt [of t pageid] n by (simp add: t_def)
  moreover have "Option.bind (scan_dot t) scan_x = Some (slotid mod 2 ^ 32, [])"
    unfolding scan_dot_def t_def using scan_x_fmt [of "[]" slotid] n by simp
  ultimately have "Udb_Decode_Oid db oid s = Done (Some x)"
    unfolding Udb_Decode_Oid_def
    by (simp only: option.case prod.case int16_printed [OF assms(2)] int16_printed [OF assms(4)] int32_printed [OF assms(3)] assms(5) check_some_def c_bind.simps)
  moreover have "Udb_Get_Oid db x s = Done oid" using assms(1) by (simp add: Udb_Get_Oid_def oid_def t_def check_some_def)
  ultimately show ?thesis by blast
qed

theorem Udb_Decode_Oid_Get_Oid_witness:
  "\<exists>oid. Udb_Get_Oid (mem_dbi (\<lambda>c. []) (\<lambda>c a. False)) 4660 \<lparr>mclasses = [], mobjects = [], mvalues = (\<lambda>x a. DB_NULL)\<rparr> = Done oid \<and>
     Udb_Decode_Oid (mem_dbi (\<lambda>c. []) (\<lambda>c a. False)) oid \<lparr>mclasses = [], mobjects = [], mvalues = (\<lambda>x a. DB_NULL)\<rparr> = Done (Some 4660)"
  by (rule Udb_Decode_Oid_Get_Oid [where volid = 0 and pageid = 4660 and slotid = 0])
     (simp_all add: mem_dbi_def is_int16_def is_int32_def)

end
