(* ===== verification/UniqueProps.thy ===== *)
theory UniqueProps
  imports NameCache MemDbi
begin

text \<open>
  Uniqueness of names, from \<^verbatim>\<open>libudb/name_cache.c\<close>: every bucket that \<open>Grow_Cache_Entry\<close> makes collide is recorded, so the
  checks at commit, which look at the recorded buckets only, find every collision.
\<close>

section \<open>Buckets\<close>

abbreviation strong_slot :: cstr where "strong_slot \<equiv> cstr ''strong''"
abbreviation normal_slot :: cstr where "normal_slot \<equiv> cstr ''normal''"
abbreviation weak_slot :: cstr where "weak_slot \<equiv> cstr ''weak''"

definition slot_items :: "'o store \<Rightarrow> 'o \<Rightarrow> cstr \<Rightarrow> 'o db_value list" where
  "slot_items st b a = (case att st b a of Some (DB_SET (Col_New vs)) \<Rightarrow> vs | _ \<Rightarrow> [])"

text \<open>Two strong or two normal items, or a strong item with another one.\<close>

definition collides :: "'o store \<Rightarrow> 'o \<Rightarrow> bool" where
  "collides st b \<longleftrightarrow>
     length (slot_items st b strong_slot) > 1 \<or> length (slot_items st b normal_slot) > 1 \<or>
     slot_items st b strong_slot \<noteq> [] \<and> (slot_items st b normal_slot \<noteq> [] \<or> slot_items st b weak_slot \<noteq> [])"

definition bucket_ok :: "'o store \<Rightarrow> 'o set \<Rightarrow> 'o \<Rightarrow> bool" where
  "bucket_ok st X b \<longleftrightarrow>
     cls st b \<noteq> None \<and>
     (\<forall>a\<in>{strong_slot, normal_slot, weak_slot}. \<exists>vs. att st b a = Some (DB_SET (Col_New vs)) \<and> distinct vs \<and> set vs \<subseteq> DB_OBJECT ` X)"

definition recorded :: "('s, 'o, 'm) udb_scheme \<Rightarrow> 'o set" where
  "recorded w = (case uniqTable w of None \<Rightarrow> {} | Some bs \<Rightarrow> set bs)"

text \<open>All buckets are well formed over the items \<open>X\<close>, and those that collide are recorded.\<close>

definition watched :: "('s \<Rightarrow> 'o store) \<Rightarrow> 'o set \<Rightarrow> 'o set \<Rightarrow> ('s, 'o, 'm) udb_scheme \<Rightarrow> bool" where
  "watched view B X w \<longleftrightarrow>
     recorded w \<subseteq> B \<and> (\<forall>b\<in>B. bucket_ok (view (database w)) X b \<and> (collides (view (database w)) b \<longrightarrow> b \<in> recorded w))"

lemma slot_names [simp]:
  "strong_slot \<noteq> normal_slot" "strong_slot \<noteq> weak_slot" "normal_slot \<noteq> weak_slot" "normal_slot \<noteq> strong_slot" "weak_slot \<noteq> strong_slot" "weak_slot \<noteq> normal_slot"
  by (simp_all add: cstr_def)

text \<open>The slot of a strength.\<close>

definition slot_of :: "int \<Rightarrow> cstr" where
  "slot_of strength = (if strength = STRONG_COLLISION then strong_slot else if strength = NORMAL_COLLISION then normal_slot else weak_slot)"

lemma Strength_To_Slot_of: "strength \<in> {WEAK_COLLISION, NORMAL_COLLISION, STRONG_COLLISION} \<Longrightarrow> Strength_To_Slot strength = Done (slot_of strength)"
  by (auto simp: Strength_To_Slot_def slot_of_def)

lemma slot_of_mem: "slot_of strength \<in> {strong_slot, normal_slot, weak_slot}"
  by (simp add: slot_of_def)

lemma bucket_slot:
  assumes "bucket_ok st X b" "a \<in> {strong_slot, normal_slot, weak_slot}"
  shows "att st b a = Some (DB_SET (Col_New (slot_items st b a)))" "distinct (slot_items st b a)" "set (slot_items st b a) \<subseteq> DB_OBJECT ` X"
    "elems st (Col_Attribute b a) = Some (slot_items st b a)"
proof -
  obtain vs where "att st b a = Some (DB_SET (Col_New vs))" "distinct vs" "set vs \<subseteq> DB_OBJECT ` X"
    using assms unfolding bucket_ok_def by blast
  then show "att st b a = Some (DB_SET (Col_New (slot_items st b a)))" "distinct (slot_items st b a)" "set (slot_items st b a) \<subseteq> DB_OBJECT ` X"
    "elems st (Col_Attribute b a) = Some (slot_items st b a)"
    by (simp_all add: slot_items_def)
qed

lemma slot_set_runs:
  assumes "dbi_ok db view schema unique" "bucket_ok (view s) X b" "strength \<in> {WEAK_COLLISION, NORMAL_COLLISION, STRONG_COLLISION}"
  shows "slot_set db b strength s = Done (Col_Attribute b (slot_of strength))"
    "db_col_size db (Col_Attribute b (slot_of strength)) s = length (slot_items (view s) b (slot_of strength))"
    "slot_size db b strength s = Done (length (slot_items (view s) b (slot_of strength)))"
proof -
  obtain c where c: "cls (view s) b = Some c" using assms(2) by (auto simp: bucket_ok_def)
  note sl = bucket_slot [OF assms(2) slot_of_mem]
  have "Udb_Get_Value db b (slot_of strength) DB_TYPE_SET s = Done (DB_SET (Col_Attribute b (slot_of strength)))"
    using Udb_Get_Value_runs [OF assms(1) c sl(1)] by simp
  then show 1: "slot_set db b strength s = Done (Col_Attribute b (slot_of strength))"
    by (simp add: slot_set_def Strength_To_Slot_of [OF assms(3)] check_some_def)
  show 2: "db_col_size db (Col_Attribute b (slot_of strength)) s = length (slot_items (view s) b (slot_of strength))"
    using dbi_reads(4) [OF assms(1) sl(4)] by simp
  show "slot_size db b strength s = Done (length (slot_items (view s) b (slot_of strength)))" by (simp add: slot_size_def 1 2)
qed

section \<open>Growing a bucket\<close>

text \<open>The effect on the store: the item is added to one slot of the bucket.\<close>

definition grown :: "'o \<Rightarrow> cstr \<Rightarrow> 'o \<Rightarrow> 'o store \<Rightarrow> 'o store \<Rightarrow> bool" where
  "grown b a x st st' \<longleftrightarrow>
     (\<exists>us. st' = set_att b a (DB_SET (Col_New us)) st \<and> set us = insert (DB_OBJECT x) (set (slot_items st b a)) \<and> distinct us)"

lemma grown_slots:
  assumes "grown b a x st st'"
  shows "set (slot_items st' b a) = insert (DB_OBJECT x) (set (slot_items st b a))" "distinct (slot_items st' b a)"
    "a' \<noteq> a \<Longrightarrow> slot_items st' b a' = slot_items st b a'" "b' \<noteq> b \<Longrightarrow> slot_items st' b' = slot_items st b'"
  using assms by (auto simp: grown_def slot_items_def fun_eq_iff)

lemma grown_bucket_ok:
  assumes "grown b a x st st'" "bucket_ok st X b'" "x \<in> X" "b = b' \<Longrightarrow> set (slot_items st b a) \<subseteq> DB_OBJECT ` X"
  shows "bucket_ok st' X b'"
proof -
  obtain us where us: "st' = set_att b a (DB_SET (Col_New us)) st" "set us = insert (DB_OBJECT x) (set (slot_items st b a))" "distinct us"
    using assms(1) by (auto simp: grown_def)
  have "\<exists>vs. att st' b' a' = Some (DB_SET (Col_New vs)) \<and> distinct vs \<and> set vs \<subseteq> DB_OBJECT ` X" if "a' \<in> {strong_slot, normal_slot, weak_slot}" for a'
  proof (cases "b = b' \<and> a = a'")
    case True
    then have "att st' b' a' = Some (DB_SET (Col_New us))" "set us \<subseteq> DB_OBJECT ` X" using us assms(3,4) by simp_all
    then show ?thesis using us(3) by blast
  next
    case False
    then have "att st' b' a' = att st b' a'" using us(1) by auto
    then show ?thesis using bucket_slot [OF assms(2) that] by metis
  qed
  moreover have "cls st' b' \<noteq> None" using assms(2) us(1) by (simp add: bucket_ok_def)
  ultimately show ?thesis unfolding bucket_ok_def by blast
qed

text \<open>When the bucket need not be recorded, growing it makes no new collision.\<close>

lemma grown_collides:
  assumes "grown b a x st st'" "collides st' b" "\<not> collides st b" "a \<in> {strong_slot, normal_slot, weak_slot}"
  shows "a = strong_slot \<or> a = normal_slot \<and> slot_items st b normal_slot \<noteq> [] \<or> slot_items st b strong_slot \<noteq> []"
proof (rule ccontr)
  assume n: "\<not> ?thesis"
  then have e: "slot_items st b strong_slot = []" by simp
  have s: "slot_items st' b strong_slot = []" using n grown_slots(3) [OF assms(1), of strong_slot] by auto
  show False
  proof (cases "a = normal_slot")
    case True
    then have "set (slot_items st' b normal_slot) = {DB_OBJECT x}" using n grown_slots(1) [OF assms(1)] by simp
    then have "length (slot_items st' b normal_slot) = 1" using grown_slots(2) [OF assms(1)] True distinct_card [of "slot_items st' b normal_slot"] by simp
    then show False using assms(2) s by (simp add: collides_def)
  next
    case False
    then have "slot_items st' b normal_slot = slot_items st b normal_slot" using grown_slots(3) [OF assms(1), of normal_slot] by simp
    then show False using assms(2,3) s by (simp add: collides_def)
  qed
qed

lemma recorded_add: "recorded (Udb_Add_Unique_Check b w) = insert b (recorded w)" "database (Udb_Add_Unique_Check b w) = database w"
  by (simp_all add: recorded_def Udb_Add_Unique_Check_def tbl_add_def split: option.split)

lemma Grow_Cache_Entry_runs:
  assumes ok: "dbi_ok db view schema unique" and w: "watched view B X w" and b: "b \<in> B" "x \<in> X"
    and st: "strength \<in> {WEAK_COLLISION, NORMAL_COLLISION, STRONG_COLLISION}"
  shows "\<exists>w'. Grow_Cache_Entry db b strength x w = Done w' \<and> watched view B X w' \<and> grown b (slot_of strength) x (view (database w)) (view (database w')) \<and>
    db_set_add db (Col_Attribute b (slot_of strength)) (DB_OBJECT x) (database w) = Some (Col_Attribute b (slot_of strength), database w')"
proof -
  define sa where "sa = view (database w)"
  have bo: "bucket_ok sa X b" using w b(1) by (simp add: watched_def sa_def)
  note slots = slot_set_runs [OF ok bo [unfolded sa_def]]
  note sl = bucket_slot [OF bo slot_of_mem [of strength]]
  define chk where "chk \<longleftrightarrow> strength = STRONG_COLLISION \<or> strength = NORMAL_COLLISION \<and> slot_items sa b normal_slot \<noteq> [] \<or> slot_items sa b strong_slot \<noteq> []"
  have c: "(if strength = STRONG_COLLISION then Done True
       else if strength = NORMAL_COLLISION
       then if db_col_size db (Col_Attribute b (slot_of strength)) (database w) > 0 then Done True
            else c_bind (slot_size db b STRONG_COLLISION (database w)) (\<lambda>n. Done (n > 0))
       else c_bind (slot_size db b STRONG_COLLISION (database w)) (\<lambda>n. Done (n > 0))) = Done chk"
    using slots(2) [OF st] slots(3) [of STRONG_COLLISION] by (auto simp: chk_def sa_def slot_of_def)
  define w1 where "w1 = (if chk then Udb_Add_Unique_Check b w else w)"
  have w1: "database w1 = database w" "recorded w1 = recorded w \<union> (if chk then {b} else {})" by (simp_all add: w1_def recorded_add)
  obtain us s1 where s1: "db_set_add db (Col_Attribute b (slot_of strength)) (DB_OBJECT x) (database w) = Some (Col_Attribute b (slot_of strength), s1)"
    "set us = insert (DB_OBJECT x) (set (slot_items sa b (slot_of strength)))" "distinct us" "view s1 = set_elems us (Col_Attribute b (slot_of strength)) sa"
    using set_add [OF ok sl(4) [unfolded sa_def], of "DB_OBJECT x"] sl(2) by (auto simp: sa_def)
  have v: "view s1 = set_att b (slot_of strength) (DB_SET (Col_New us)) sa" using s1(4) sl(1) by simp
  have g: "grown b (slot_of strength) x sa (view s1)" using s1(2,3) v by (auto simp: grown_def)
  define w2 where "w2 = w1\<lparr>database := s1\<rparr>"
  have "Grow_Cache_Entry db b strength x w = Done w2"
    unfolding Grow_Cache_Entry_def slots(1) [OF st] c_bind.simps c
    using s1(1) w1(1) by (simp add: w1_def [symmetric] Udb_Add_To_Set_def check_some_def w2_def)
  moreover have "watched view B X w2"
  proof -
    have r: "recorded w2 = recorded w1" by (simp add: w2_def recorded_def)
    have "bucket_ok (view s1) X b'" if "b' \<in> B" for b'
      by (rule grown_bucket_ok [OF g _ b(2)]) (use w that sl(3) in \<open>simp_all add: watched_def sa_def\<close>)
    moreover have "b' \<in> recorded w1" if "b' \<in> B" "collides (view s1) b'" for b'
    proof (cases "b' = b")
      case True
      have "b \<in> recorded w \<or> chk"
      proof (cases "collides sa b")
        case False
        then have "slot_of strength = strong_slot \<or> slot_of strength = normal_slot \<and> slot_items sa b normal_slot \<noteq> [] \<or> slot_items sa b strong_slot \<noteq> []"
          using grown_collides [OF g _ _ slot_of_mem] that(2) True by simp
        then show ?thesis by (auto simp: chk_def slot_of_def split: if_split_asm)
      qed (use w b(1) in \<open>simp add: watched_def sa_def\<close>)
      then show ?thesis using w1(2) True by auto
    next
      case False
      then have "collides sa b'" using that(2) grown_slots(4) [OF g False] by (simp add: collides_def)
      then show ?thesis using w that(1) w1(2) by (simp add: watched_def sa_def)
    qed
    ultimately show ?thesis using w w1(2) b(1) r by (auto simp: watched_def w2_def)
  qed
  ultimately show ?thesis using g s1(1) by (auto simp: sa_def w2_def)
qed

section \<open>The checks\<close>

text \<open>A collision can be reported: the items have identifiers, and the attributes that collide are known for each class.\<close>

definition reportable :: "('s, 'o) dbi \<Rightarrow> tclvar \<Rightarrow> 'o set \<Rightarrow> 'o set \<Rightarrow> 's \<Rightarrow> bool" where
  "reportable db getvar B X s \<longleftrightarrow>
     (\<forall>b\<in>B. \<forall>x\<in>X. \<exists>u cn bn attrs. Udb_Get_Uuid db (Some x) s = Done u \<and> db_get_class_name db (db_get_class db x s) s = Some cn \<and>
        db_get_class_name db (db_get_class db b s) s = Some bn \<and> getvar ''UNAMEIT_COLLISION_ATTRS'' (cn @ cstr ''.'' @ bn) = Some attrs)"

lemma Construct_Uuid_Attr_List_runs:
  assumes "dbi_ok db view schema unique" "reportable db getvar B X s" "b \<in> B" "elems (view s) col = Some vs" "set vs \<subseteq> DB_OBJECT ` X" "i + n \<le> length vs"
  shows "\<exists>l. Construct_Uuid_Attr_List db getvar (db_get_class db b s) col i n s list = Done l"
  using assms(6)
proof (induction n arbitrary: i list)
  case (Suc n)
  then have i: "i < length vs" by simp
  then obtain x where x: "vs ! i = DB_OBJECT x" "x \<in> X" using assms(5) nth_mem [OF i] by (meson imageE subsetD)
  have "Udb_Get_Collection_Value db col i DB_TYPE_OBJECT s = Done (DB_OBJECT x)"
    using dbi_reads(5) [OF assms(1,4) i] x(1) by (simp add: Udb_Get_Collection_Value_def)
  moreover obtain u cn bn attrs where "Udb_Get_Uuid db (Some x) s = Done u" "db_get_class_name db (db_get_class db x s) s = Some cn"
      "db_get_class_name db (db_get_class db b s) s = Some bn" "getvar ''UNAMEIT_COLLISION_ATTRS'' (cn @ cstr ''.'' @ bn) = Some attrs"
    using assms(2,3) x(2) unfolding reportable_def by blast
  ultimately show ?case using Suc.IH [of "i + 1" "list @ [u, attrs]"] Suc.prems by (simp add: check_some_def)
qed simp

lemma check_bucket_runs:
  assumes ok: "dbi_ok db view schema unique" and r: "reportable db getvar B X s" and b: "b \<in> B" "bucket_ok (view s) X b"
  shows "\<exists>r. check_bucket db getvar b s = Done r \<and> (if collides (view s) b then \<exists>code msg. r = Tcl_Error code msg else r = Tcl_Ok [])"
proof -
  let ?n = "\<lambda>a. length (slot_items (view s) b a)"
  note set = slot_set_runs [OF ok b(2)]
  have S: "slot_set db b STRONG_COLLISION s = Done (Col_Attribute b strong_slot)" "db_col_size db (Col_Attribute b strong_slot) s = ?n strong_slot"
    "slot_set db b NORMAL_COLLISION s = Done (Col_Attribute b normal_slot)" "db_col_size db (Col_Attribute b normal_slot) s = ?n normal_slot"
    "slot_set db b WEAK_COLLISION s = Done (Col_Attribute b weak_slot)" "db_col_size db (Col_Attribute b weak_slot) s = ?n weak_slot"
    using set(1,2) [of STRONG_COLLISION] set(1,2) [of NORMAL_COLLISION] set(1,2) [of WEAK_COLLISION] by (simp_all add: slot_of_def)
  have L: "\<exists>l. Construct_Uuid_Attr_List db getvar (db_get_class db b s) (Col_Attribute b a) 0 n s list = Done l"
    if "a \<in> {strong_slot, normal_slot, weak_slot}" "n \<le> ?n a" for a n list
    by (rule Construct_Uuid_Attr_List_runs [OF ok r b(1) bucket_slot(4) [OF b(2) that(1)] bucket_slot(3) [OF b(2) that(1)]]) (use that(2) in simp)
  have D: "\<exists>code msg. Udb_EDIRECTUNIQ db getvar (db_get_class db b s) (Col_Attribute b a) (?n a) s = Done (Tcl_Error code msg)"
    if "a \<in> {strong_slot, normal_slot, weak_slot}" "?n a > 1" for a
    using L [OF that(1), of "?n a" "[cstr ''UNAMEIT'', cstr ''EDIRECTUNIQ'']"] that(2) by (auto simp: Udb_EDIRECTUNIQ_def)
  have I: "\<exists>code msg. Udb_EINDIRUNIQ db getvar (db_get_class db b s) (Col_Attribute b strong_slot) (Col_Attribute b a) (?n a) s = Done (Tcl_Error code msg)"
    if m: "a \<in> {strong_slot, normal_slot, weak_slot}" and ca: "?n a > 0" and pos: "?n strong_slot > 0" for a
  proof -
    obtain l where "Construct_Uuid_Attr_List db getvar (db_get_class db b s) (Col_Attribute b strong_slot) 0 1 s [cstr ''UNAMEIT'', cstr ''EINDIRUNIQ''] = Done l"
      using L [of strong_slot 1 "[cstr ''UNAMEIT'', cstr ''EINDIRUNIQ'']"] pos by auto
    moreover obtain l' where "Construct_Uuid_Attr_List db getvar (db_get_class db b s) (Col_Attribute b a) 0 (?n a) s l = Done l'"
      using L [OF m, of "?n a" l] by blast
    moreover have "Suc 0 \<le> ?n a" using ca by linarith
    ultimately show ?thesis by (simp add: Udb_EINDIRUNIQ_def del: Construct_Uuid_Attr_List.simps)
  qed
  have eq: "check_bucket db getvar b s =
    (if ?n strong_slot > 1 then Udb_EDIRECTUNIQ db getvar (db_get_class db b s) (Col_Attribute b strong_slot) (?n strong_slot) s
     else if ?n normal_slot > 1 then Udb_EDIRECTUNIQ db getvar (db_get_class db b s) (Col_Attribute b normal_slot) (?n normal_slot) s
     else if ?n strong_slot > 0 \<and> ?n normal_slot > 0
     then Udb_EINDIRUNIQ db getvar (db_get_class db b s) (Col_Attribute b strong_slot) (Col_Attribute b normal_slot) (?n normal_slot) s
     else if ?n strong_slot > 0 \<and> ?n weak_slot > 0
     then Udb_EINDIRUNIQ db getvar (db_get_class db b s) (Col_Attribute b strong_slot) (Col_Attribute b weak_slot) (?n weak_slot) s
     else Done (Tcl_Ok []))"
    unfolding check_bucket_def Let_def S c_bind.simps by (simp add: S(6))
  have col: "collides (view s) b \<longleftrightarrow> ?n strong_slot > 1 \<or> ?n normal_slot > 1 \<or> ?n strong_slot > 0 \<and> ?n normal_slot > 0 \<or> ?n strong_slot > 0 \<and> ?n weak_slot > 0"
    by (auto simp: collides_def)
  show ?thesis unfolding eq col using D [of strong_slot] D [of normal_slot] I [of normal_slot] I [of weak_slot] by auto
qed

lemma unique_loop_runs:
  assumes "dbi_ok db view schema unique" "reportable db getvar B X s" "\<And>b. b \<in> B \<Longrightarrow> bucket_ok (view s) X b" "set bs \<subseteq> B"
  shows "\<exists>r rest. unique_loop db getvar bs s = Done (r, rest) \<and>
    (if \<exists>b\<in>set bs. collides (view s) b then \<exists>code msg. r = Tcl_Error code msg else r = Tcl_Ok [])"
  using assms(4)
proof (induction bs)
  case (Cons b bs)
  obtain r where r: "check_bucket db getvar b s = Done r" "if collides (view s) b then \<exists>code msg. r = Tcl_Error code msg else r = Tcl_Ok []"
    using check_bucket_runs [OF assms(1,2), of b] assms(3) [of b] Cons.prems by auto
  show ?case
  proof (cases "collides (view s) b")
    case True
    then show ?thesis using r by auto
  next
    case False
    then show ?thesis using r Cons by auto
  qed
qed simp

section \<open>Property\<close>

text \<open>Growing buckets one after the other.\<close>

fun grow_all :: "('s, 'o) dbi \<Rightarrow> ('o \<times> int \<times> 'o) list \<Rightarrow> ('s, 'o, 'm) udb_scheme \<Rightarrow> ('s, 'o, 'm) udb_scheme c_run" where
  "grow_all db [] w = Done w"
| "grow_all db ((b, strength, x) # gs) w = c_bind (Grow_Cache_Entry db b strength x w) (grow_all db gs)"

text \<open>Adding an element to a set leaves identifiers and class names alone.\<close>

definition reports_kept :: "('s, 'o) dbi \<Rightarrow> tclvar \<Rightarrow> 'o set \<Rightarrow> 'o set \<Rightarrow> bool" where
  "reports_kept db getvar B X \<longleftrightarrow>
     (\<forall>col v s col' s'. db_set_add db col v s = Some (col', s') \<and> reportable db getvar B X s \<longrightarrow> reportable db getvar B X s')"

lemma grow_all_runs:
  assumes "dbi_ok db view schema unique" "reports_kept db getvar B X" "watched view B X w" "reportable db getvar B X (database w)"
    "\<And>b strength x. (b, strength, x) \<in> set gs \<Longrightarrow> b \<in> B \<and> x \<in> X \<and> strength \<in> {WEAK_COLLISION, NORMAL_COLLISION, STRONG_COLLISION}"
  shows "\<exists>w'. grow_all db gs w = Done w' \<and> watched view B X w' \<and> reportable db getvar B X (database w')"
  using assms(3-)
proof (induction gs arbitrary: w)
  case (Cons g gs)
  obtain b strength x where g: "g = (b, strength, x)" by (cases g)
  then obtain w1 where w1: "Grow_Cache_Entry db b strength x w = Done w1" "watched view B X w1"
    "db_set_add db (Col_Attribute b (slot_of strength)) (DB_OBJECT x) (database w) = Some (Col_Attribute b (slot_of strength), database w1)"
    using Grow_Cache_Entry_runs [OF assms(1) Cons.prems(1), of b x strength] Cons.prems(3) [of b strength x] by auto
  have "reportable db getvar B X (database w1)" using assms(2) w1(3) Cons.prems(2) unfolding reports_kept_def by blast
  then show ?case using Cons.IH [of w1] Cons.prems(3) g w1(1,2) by auto
qed simp

text \<open>C13: every collision of names is caught.  Starting from buckets whose collisions are recorded (none, after a commit), any
  sequence of items is added to buckets with any strengths; then the recorded collisions are still all there are, and
  the uniqueness checks at commit fail exactly when some bucket, recorded or not, holds two strong or two normal items
  or a strong item with another one.\<close>

theorem collisions_caught:
  assumes "dbi_ok db view schema unique" "reports_kept db getvar B X" "watched view B X w" "reportable db getvar B X (database w)"
    "\<And>b strength x. (b, strength, x) \<in> set gs \<Longrightarrow> b \<in> B \<and> x \<in> X \<and> strength \<in> {WEAK_COLLISION, NORMAL_COLLISION, STRONG_COLLISION}"
  shows "\<exists>w' r w''. grow_all db gs w = Done w' \<and> watched view B X w' \<and> Udb_Do_Unique_Checks db getvar w' = Done (r, w'') \<and>
    (if \<exists>b\<in>B. collides (view (database w')) b then \<exists>code msg. r = Tcl_Error code msg else r = Tcl_Ok [])"
proof -
  obtain w' where w': "grow_all db gs w = Done w'" "watched view B X w'" and rep: "reportable db getvar B X (database w')"
    using grow_all_runs [OF assms] by blast
  have "\<exists>r w''. Udb_Do_Unique_Checks db getvar w' = Done (r, w'') \<and>
    (if \<exists>b\<in>B. collides (view (database w')) b then \<exists>code msg. r = Tcl_Error code msg else r = Tcl_Ok [])"
  proof (cases "uniqTable w'")
    case None
    then have "\<not> (\<exists>b\<in>B. collides (view (database w')) b)" using w'(2) by (auto simp: watched_def recorded_def)
    then show ?thesis using None by (simp add: Udb_Do_Unique_Checks_def)
  next
    case (Some bs)
    then have bs: "set bs \<subseteq> B" "(\<exists>b\<in>B. collides (view (database w')) b) \<longleftrightarrow> (\<exists>b\<in>set bs. collides (view (database w')) b)"
      "\<And>b. b \<in> B \<Longrightarrow> bucket_ok (view (database w')) X b" using w'(2) by (auto simp: watched_def recorded_def)
    obtain r rest where "unique_loop db getvar bs (database w') = Done (r, rest)"
      "if \<exists>b\<in>set bs. collides (view (database w')) b then \<exists>code msg. r = Tcl_Error code msg else r = Tcl_Ok []"
      using unique_loop_runs [OF assms(1) rep bs(3) bs(1)] by blast
    then show ?thesis using Some bs(2) by (simp add: Udb_Do_Unique_Checks_def)
  qed
  then show ?thesis using w' by blast
qed

text \<open>Two hosts and the bucket of one name.\<close>

definition names_db :: mem where
  "names_db =
     \<lparr>mclasses = [(cstr ''host'', 8), (cstr ''host_name'', 9)], mobjects = [(1, 9), (2, 8), (3, 8)],
      mvalues = (\<lambda>x a. if x = 1 then DB_SET (Col_New []) else DB_STRING (cstr (if x = 2 then ''a'' else ''b'')))\<rparr>"

definition names_schema :: "nat \<Rightarrow> cstr list" where
  "names_schema c = (if c = 9 then [strong_slot, normal_slot, weak_slot] else [cstr ''uuid''])"

abbreviation names_dbi :: "(mem, nat) dbi" where "names_dbi \<equiv> mem_dbi names_schema (\<lambda>c a. False)"
abbreviation names_var :: tclvar where "names_var \<equiv> \<lambda>a k. if k = cstr ''host.host_name'' then Some (cstr ''name'') else None"

lemma names_watched: "watched (mem_view names_schema) {1} {2, 3} (udb_start names_db)"
  by (simp add: watched_def udb_start_def recorded_def bucket_ok_def collides_def slot_items_def names_db_def names_schema_def)

text \<open>What a report needs, in terms of the memory.\<close>

lemma names_reportable:
  "reportable names_dbi names_var {1} {2, 3} s \<longleftrightarrow>
     (\<forall>x\<in>{2, 3}. \<exists>u cn bn. Udb_Get_Uuid names_dbi (Some x) s = Done u \<and>
        map_option fst (find (\<lambda>p. snd p = (case map_of (mobjects s) x of None \<Rightarrow> 0 | Some c \<Rightarrow> c)) (mclasses s)) = Some cn \<and>
        map_option fst (find (\<lambda>p. snd p = (case map_of (mobjects s) 1 of None \<Rightarrow> 0 | Some c \<Rightarrow> c)) (mclasses s)) = Some bn \<and>
        cn @ cstr ''.'' @ bn = cstr ''host.host_name'')"
  by (auto simp: reportable_def mem_dbi_def)

lemma names_uuid:
  "Udb_Get_Uuid names_dbi (Some x) s = Done u \<Longrightarrow> \<exists>t. mvalues s x (cstr ''uuid'') = DB_STRING t"
  by (auto simp: Udb_Get_Uuid_def Udb_Get_Value_def Udb_Get_Value_opt_def check_some_def mem_dbi_def
      split: option.split_asm if_split_asm db_value.split_asm) (cases "mvalues s x (cstr ''uuid'')"; simp)+

lemma names_uuid_cong:
  "mobjects s' = mobjects s \<Longrightarrow> mvalues s' x (cstr ''uuid'') = mvalues s x (cstr ''uuid'') \<Longrightarrow> Udb_Get_Uuid names_dbi (Some x) s' = Udb_Get_Uuid names_dbi (Some x) s"
  by (cases "map_of (mobjects s) x") (simp_all add: Udb_Get_Uuid_def Udb_Get_Value_def Udb_Get_Value_opt_def check_some_def mem_dbi_def)

lemma names_kept: "reports_kept names_dbi names_var {1} {2, 3}"
  unfolding reports_kept_def
proof (intro allI impI, elim conjE)
  fix col v s col' s' assume a: "db_set_add names_dbi col v s = Some (col', s')" and r: "reportable names_dbi names_var {1} {2, 3} s"
  obtain us vs where c: "s' = mem_col_set names_schema col us s" "elems (mem_view names_schema s) col = Some vs"
    using a by (auto simp: mem_dbi_def mem_col_change_def split: option.split_asm)
  have m: "mclasses s' = mclasses s" "mobjects s' = mobjects s" by (cases col; simp add: c)+
  have "Udb_Get_Uuid names_dbi (Some x) s' = Udb_Get_Uuid names_dbi (Some x) s" if x: "x \<in> {2, 3}" for x
  proof (rule names_uuid_cong [OF m(2)])
    obtain t where "mvalues s x (cstr ''uuid'') = DB_STRING t" using r x names_uuid unfolding names_reportable by blast
    then show "mvalues s' x (cstr ''uuid'') = mvalues s x (cstr ''uuid'')"
      using c by (cases col) (auto simp: mem_set_def split: option.split_asm if_split_asm)
  qed
  then show "reportable names_dbi names_var {1} {2, 3} s'" using r unfolding names_reportable m by simp
qed

lemma names_start: "reportable names_dbi names_var {1} {2, 3} (database (udb_start names_db))"
proof -
  have u: "Udb_Get_Uuid names_dbi (Some 2) names_db = Done (cstr ''a'')" "Udb_Get_Uuid names_dbi (Some 3) names_db = Done (cstr ''b'')"
    by (simp_all add: names_db_def Udb_Get_Uuid_def Udb_Get_Value_def Udb_Get_Value_opt_def check_some_def mem_dbi_def names_schema_def cstr_def)
  have n: "cstr ''host'' @ cstr ''.'' @ cstr ''host_name'' = cstr ''host.host_name''" by (simp add: cstr_def)
  have d: "database (udb_start names_db) = names_db" by (simp add: udb_start_def)
  show ?thesis unfolding names_reportable d by (simp add: u n) (simp add: names_db_def n)
qed

text \<open>Two hosts are added with normal strength to the bucket.\<close>

theorem collisions_caught_witness:
  "\<exists>w' r w''. grow_all names_dbi [(1, NORMAL_COLLISION, 2), (1, NORMAL_COLLISION, 3)] (udb_start names_db) = Done w' \<and>
     Udb_Do_Unique_Checks names_dbi names_var w' = Done (r, w'') \<and>
     (if \<exists>b\<in>{1}. collides (mem_view names_schema (database w')) b then \<exists>code msg. r = Tcl_Error code msg else r = Tcl_Ok [])"
proof -
  have "b \<in> {1} \<and> x \<in> {2, 3} \<and> strength \<in> {WEAK_COLLISION, NORMAL_COLLISION, STRONG_COLLISION}"
    if "(b, strength, x) \<in> set [(1, NORMAL_COLLISION, 2), (1, NORMAL_COLLISION, 3)]" for b strength and x :: nat
    using that by auto
  then have "\<exists>w' r w''. grow_all names_dbi [(1, NORMAL_COLLISION, 2), (1, NORMAL_COLLISION, 3)] (udb_start names_db) = Done w' \<and>
     watched (mem_view names_schema) {1} {2, 3} w' \<and> Udb_Do_Unique_Checks names_dbi names_var w' = Done (r, w'') \<and>
     (if \<exists>b\<in>{1}. collides (mem_view names_schema (database w')) b then \<exists>code msg. r = Tcl_Error code msg else r = Tcl_Ok [])"
    by (rule collisions_caught [OF mem_dbi_ok names_kept names_watched names_start])
  then show ?thesis by blast
qed

end
