(* ===== verification/Relations.thy ===== *)
theory Relations
  imports NameCache
begin

text \<open>
  References between items: \<^verbatim>\<open>libudb/relation.c\<close>.  A relation object stands for one pointer from an item (\<open>lhs\<close>) to an
  item (\<open>rhs\<close>); the relations to an item form a doubly linked list for each action, headed by the attribute
  \<open>backp/\<close>\<^emph>\<open>action\<close> of the item.  Items whose deletion is blocked and items that may lie on a loop are recorded and
  checked at commit.

  \<open>unameit_delete\<close> is the evaluation of the Tcl command of this name.  The recursion over the items of a loop
  check is bounded by its first argument; \<open>None\<close> is a computation that has not ended.
\<close>

section \<open>Relation lists\<close>

definition Backpointer_Name :: "cstr \<Rightarrow> cstr c_run" where
  "Backpointer_Name action = (if \<not> length action < 16 then Panic else Done (cstr ''backp/'' @ action))"

definition Build_Relation :: "('s, 'o) dbi \<Rightarrow> 'o otmpl \<Rightarrow> 'o \<Rightarrow> cstr \<Rightarrow> ('s, 'o, 'm) udb_scheme \<Rightarrow> ('s, 'o, 'm) udb_scheme c_run" where
  "Build_Relation db template rhs backp w =
     (let t = dbt_put (dbt_put template (cstr ''rhs'') (DB_OBJECT rhs)) (cstr ''prev'') (DB_OBJECT rhs)
      in c_bind (Udb_Get_Value db rhs backp DB_TYPE_OBJECT (database w)) (\<lambda>v.
         c_bind (Udb_Finish_Object db None (Some (dbt_put t (cstr ''next'') v)) False w) (\<lambda>(newRel, w).
         c_bind (check_some newRel) (\<lambda>newRel.
         c_bind (put_checked db rhs backp (DB_OBJECT newRel) w) (\<lambda>w.
           case DB_GET_OBJECT v of
             None \<Rightarrow> Done w
           | Some next \<Rightarrow> put_checked db next (cstr ''prev'') (DB_OBJECT newRel) w)))))"

definition New_Relation :: "('s, 'o) dbi \<Rightarrow> 'o \<Rightarrow> 'o \<Rightarrow> 'o \<Rightarrow> cstr \<Rightarrow> ('s, 'o, 'm) udb_scheme \<Rightarrow> ('s, 'o, 'm) udb_scheme c_run" where
  "New_Relation db relclass lhs rhs backp w =
     c_bind (Udb_Edit_Free_Object db relclass w) (\<lambda>(t, w). Build_Relation db (dbt_put t (cstr ''lhs'') (DB_OBJECT lhs)) rhs backp w)"

definition Update_Relation ::
  "('s, 'o) dbi \<Rightarrow> 'o \<Rightarrow> 'o \<Rightarrow> 'o \<Rightarrow> 'o option \<Rightarrow> cstr \<Rightarrow> ('s, 'o, 'm) udb_scheme \<Rightarrow> ('s, 'o, 'm) udb_scheme c_run" where
  "Update_Relation db relclass relation rhs newrhs backp w =
     c_bind (Udb_Get_Value db relation (cstr ''prev'') DB_TYPE_OBJECT (database w)) (\<lambda>v.
     c_bind (check_some (DB_GET_OBJECT v)) (\<lambda>prev.
     c_bind (Udb_Get_Value db relation (cstr ''next'') DB_TYPE_OBJECT (database w)) (\<lambda>v.
     c_bind (if prev \<noteq> rhs then put_checked db prev (cstr ''next'') v w else put_checked db prev backp v w) (\<lambda>w.
     c_bind (case DB_GET_OBJECT v of
               None \<Rightarrow> Done w
             | Some next \<Rightarrow> put_checked db next (cstr ''prev'') (DB_OBJECT prev) w) (\<lambda>w.
       case newrhs of
         Some newrhs \<Rightarrow> Build_Relation db (dbt_edit_object relation) newrhs backp w
       | None \<Rightarrow> Udb_Append_Free_List db relclass (dbt_edit_object relation) (Some (cstr ''lhs'')) w)))))"

section \<open>Pending checks\<close>

definition Add_Reference_Check :: "'o \<Rightarrow> ('s, 'o, 'm) udb_scheme \<Rightarrow> ('s, 'o, 'm) udb_scheme" where
  "Add_Reference_Check object w = w\<lparr>refTable := tbl_add object (refTable w)\<rparr>"

definition Udb_Reset_Reference_Checks :: "('s, 'o, 'm) udb_scheme \<Rightarrow> ('s, 'o, 'm) udb_scheme" where
  "Udb_Reset_Reference_Checks w = w\<lparr>refTable := None\<rparr>"

fun loop_insert :: "cstr \<Rightarrow> db_type \<Rightarrow> 'o \<Rightarrow> (cstr \<times> db_type option \<times> 'o list) list \<Rightarrow> (cstr \<times> db_type option \<times> 'o list) list" where
  "loop_insert aname type object [] = [(aname, Some type, [object])]"
| "loop_insert aname type object ((a, t, xs) # es) =
     (if a = aname then (a, t, List.insert object xs) # es else (a, t, xs) # loop_insert aname type object es)"

definition Add_Loop_Check :: "'o \<Rightarrow> cstr \<Rightarrow> db_type \<Rightarrow> ('s, 'o, 'm) udb_scheme \<Rightarrow> ('s, 'o, 'm) udb_scheme" where
  "Add_Loop_Check object aname type w =
     w\<lparr>loopTable := Some (loop_insert aname type object (case loopTable w of None \<Rightarrow> [] | Some es \<Rightarrow> es))\<rparr>"

definition Drop_Loop_Check :: "'o \<Rightarrow> ('s, 'o, 'm) udb_scheme \<Rightarrow> ('s, 'o, 'm) udb_scheme" where
  "Drop_Loop_Check object w = w\<lparr>loopTable := map_option (map (\<lambda>(a, t, xs). (a, t, removeAll object xs))) (loopTable w)\<rparr>"

definition Udb_Reset_Loop_Checks :: "('s, 'o, 'm) udb_scheme \<Rightarrow> ('s, 'o, 'm) udb_scheme" where
  "Udb_Reset_Loop_Checks w = w\<lparr>loopTable := None\<rparr>"

definition Maybe_Add_Loop_Check ::
  "('s, 'o) dbi \<Rightarrow> tclvar \<Rightarrow> 'o \<Rightarrow> 'o \<Rightarrow> cstr \<Rightarrow> db_type \<Rightarrow> ('s, 'o, 'm) udb_scheme \<Rightarrow> ('s, 'o, 'm) udb_scheme c_run" where
  "Maybe_Add_Loop_Check db getvar class object aname type w =
     c_bind (Udb_Get_Class_Name db class w) (\<lambda>(cname, w).
       Done (if getvar ''UNAMEIT_DETECT_LOOPS'' (cname @ cstr ''.'' @ aname) \<noteq> None then Add_Loop_Check object aname type w else w))"

section \<open>Relations of an item\<close>

definition Update_Scalar_Relation ::
  "('s, 'o) dbi \<Rightarrow> tclvar \<Rightarrow> 'o \<Rightarrow> 'o \<Rightarrow> cstr \<Rightarrow> 'o option \<Rightarrow> bool \<Rightarrow> bool \<Rightarrow> ('s, 'o, 'm) udb_scheme \<Rightarrow> ('s, 'o, 'm) udb_scheme c_run" where
  "Update_Scalar_Relation db getvar lhs_class lhs aname rhs new_object dont_loopcheck w =
     c_bind (Udb_Relation_Class db aname w) (\<lambda>(relclass, w).
     c_bind (Udb_Get_Relaction db getvar lhs_class aname w) (\<lambda>(action, w).
     c_bind (Backpointer_Name action) (\<lambda>backp.
     c_bind (case (if new_object then None else db_find_unique db relclass (cstr ''lhs'') (DB_OBJECT lhs) (database w)) of
               Some relation \<Rightarrow>
                 c_bind (Udb_Get_Value db relation (cstr ''rhs'') DB_TYPE_OBJECT (database w)) (\<lambda>v.
                 c_bind (check_some (DB_GET_OBJECT v)) (\<lambda>oldrhs. Update_Relation db relclass relation oldrhs rhs backp w))
             | None \<Rightarrow> (case rhs of None \<Rightarrow> Done w | Some rhs \<Rightarrow> New_Relation db relclass lhs rhs backp w)) (\<lambda>w.
       case rhs of
         Some rhs \<Rightarrow>
           if \<not> new_object \<and> \<not> dont_loopcheck
           then Maybe_Add_Loop_Check db getvar (db_get_class db rhs (database w)) rhs aname DB_TYPE_OBJECT w
           else Done w
       | None \<Rightarrow> Done w))))"

fun collection_objects :: "('s, 'o) dbi \<Rightarrow> 'o db_collection \<Rightarrow> nat \<Rightarrow> nat \<Rightarrow> 's \<Rightarrow> 'o list \<Rightarrow> 'o list c_run" where
  "collection_objects db col i 0 s xs = Done xs"
| "collection_objects db col i (Suc n) s xs =
     c_bind (Udb_Get_Collection_Value db col i DB_TYPE_OBJECT s) (\<lambda>v.
     c_bind (check_some (DB_GET_OBJECT v)) (\<lambda>x. collection_objects db col (i + 1) n s (List.insert x xs)))"

text \<open>The old relations: kept, and dropped from the table of new ones, or freed.\<close>

fun old_relations ::
  "('s, 'o) dbi \<Rightarrow> 'o \<Rightarrow> cstr \<Rightarrow> 'o db_value list list \<Rightarrow> 'o list \<Rightarrow> ('s, 'o, 'm) udb_scheme \<Rightarrow> ('o list \<times> ('s, 'o, 'm) udb_scheme) c_run" where
  "old_relations db relclass backp [] rhs_table w = Done (rhs_table, w)"
| "old_relations db relclass backp (row # rows) rhs_table w =
     (case row of
        [r, x] \<Rightarrow>
          c_bind (check_some (DB_GET_OBJECT r)) (\<lambda>rhs_elem.
          c_bind (check_some (DB_GET_OBJECT x)) (\<lambda>relation.
            if rhs_elem \<in> set rhs_table then old_relations db relclass backp rows (removeAll rhs_elem rhs_table) w
            else c_bind (Update_Relation db relclass relation rhs_elem None backp w) (old_relations db relclass backp rows rhs_table)))
      | _ \<Rightarrow> Panic)"

fun new_relations :: "('s, 'o) dbi \<Rightarrow> 'o \<Rightarrow> 'o \<Rightarrow> cstr \<Rightarrow> 'o list \<Rightarrow> ('s, 'o, 'm) udb_scheme \<Rightarrow> ('s, 'o, 'm) udb_scheme c_run" where
  "new_relations db relclass lhs backp [] w = Done w"
| "new_relations db relclass lhs backp (rhs # rhss) w =
     c_bind (New_Relation db relclass lhs rhs backp w) (new_relations db relclass lhs backp rhss)"

definition Update_Vector_Relation ::
  "('s, 'o) dbi \<Rightarrow> tclvar \<Rightarrow> 'o \<Rightarrow> 'o \<Rightarrow> cstr \<Rightarrow> 'o db_collection option \<Rightarrow> bool \<Rightarrow> bool \<Rightarrow> ('s, 'o, 'm) udb_scheme \<Rightarrow> ('s, 'o, 'm) udb_scheme c_run" where
  "Update_Vector_Relation db getvar lhs_class lhs aname rhs new_object dont_loopcheck w =
     c_bind (Udb_Relation_Class db aname w) (\<lambda>(relclass, w).
     c_bind (Udb_Get_Relaction db getvar lhs_class aname w) (\<lambda>(action, w).
     c_bind (Backpointer_Name action) (\<lambda>backp.
     c_bind (case rhs of None \<Rightarrow> Done [] | Some col \<Rightarrow> collection_objects db col 0 (db_col_size db col (database w)) (database w) []) (\<lambda>rhs_table.
     c_bind (if new_object then Done (rhs_table, w)
             else
               c_bind (Udb_Get_Class_Name db relclass w) (\<lambda>(relcname, w).
               c_bind (Udb_Run_Query db (cstr ''select x.'' @ [34] @ cstr ''rhs'' @ [34] @ cstr '', x from '' @ [34] @ relcname @ [34] @
                         cstr '' x where x.'' @ [34] @ cstr ''lhs'' @ [34] @ cstr '' = ?'') [DB_OBJECT lhs] True (database w)) (\<lambda>rows.
               c_bind (check_some rows) (\<lambda>rows. old_relations db relclass backp rows rhs_table w)))) (\<lambda>(rhs_table, w).
       if rhs_table = [] then Done w
       else
         c_bind (if \<not> new_object \<and> \<not> dont_loopcheck then Maybe_Add_Loop_Check db getvar lhs_class lhs aname DB_TYPE_SET w else Done w)
           (new_relations db relclass lhs backp rhs_table))))))"

text \<open>The changed pointer attributes of an item, with the domain type of each value.\<close>

fun Udb_Update_Relations ::
  "('s, 'o) dbi \<Rightarrow> tclvar \<Rightarrow> 'o \<Rightarrow> 'o \<Rightarrow> (cstr \<times> db_type \<times> 'o db_value) list \<Rightarrow> bool \<Rightarrow> bool \<Rightarrow> ('s, 'o, 'm) udb_scheme \<Rightarrow> ('s, 'o, 'm) udb_scheme c_run" where
  "Udb_Update_Relations db getvar class object [] new_object dont_loopcheck w = Done w"
| "Udb_Update_Relations db getvar class object ((aname, type, value) # relations) new_object dont_loopcheck w =
     c_bind (case type of
               DB_TYPE_OBJECT \<Rightarrow> Update_Scalar_Relation db getvar class object aname (DB_GET_OBJECT value) new_object dont_loopcheck w
             | DB_TYPE_SET \<Rightarrow> Update_Vector_Relation db getvar class object aname (DB_GET_COLLECTION value) new_object dont_loopcheck w
             | DB_TYPE_SEQUENCE \<Rightarrow> Update_Vector_Relation db getvar class object aname (DB_GET_COLLECTION value) new_object dont_loopcheck w
             | _ \<Rightarrow> Panic)
       (Udb_Update_Relations db getvar class object relations new_object dont_loopcheck)"

section \<open>Deleting an item\<close>

fun skip_objects :: "('s, 'o) dbi \<Rightarrow> 'o \<Rightarrow> 'o db_collection \<Rightarrow> nat \<Rightarrow> nat \<Rightarrow> 's \<Rightarrow> 'o db_value list \<Rightarrow> 'o db_value list c_run" where
  "skip_objects db rhs col i 0 s vs = Done vs"
| "skip_objects db rhs col i (Suc n) s vs =
     c_bind (Udb_Get_Collection_Value db col i DB_TYPE_OBJECT s) (\<lambda>v.
       skip_objects db rhs col (i + 1) n s (if DB_GET_OBJECT v = Some rhs then vs else vs @ [v]))"

definition Nullify_Attribute ::
  "('s, 'o) dbi \<Rightarrow> ('o, 'i, ('s, 'o, 'm) udb_scheme) inet_calls \<Rightarrow> tclvar \<Rightarrow> (cstr \<Rightarrow> int option) \<Rightarrow> (cstr \<Rightarrow> cstr list option) \<Rightarrow> (cstr \<Rightarrow> cstr \<Rightarrow> cstr) \<Rightarrow>
     cstr \<Rightarrow> 'o \<Rightarrow> cstr \<Rightarrow> 'o \<Rightarrow> ('s, 'o, 'm) udb_scheme \<Rightarrow> ('s, 'o, 'm) udb_scheme c_run option" where
  "Nullify_Attribute db inet getvar db_value_put split elem uuid lhs aname rhs w =
     (let lhs_class = db_get_class db lhs (database w)
      in case Udb_Attribute_Domain db lhs_class aname w of
           (None, w) \<Rightarrow> Some Panic
         | (Some domain, w) \<Rightarrow>
             let type = db_domain_type domain
             in if type = DB_TYPE_SET \<or> type = DB_TYPE_SEQUENCE
                then Some (
                  c_bind (Udb_Get_Value db lhs aname type (database w)) (\<lambda>v.
                  c_bind (check_some (DB_GET_COLLECTION v)) (\<lambda>col.
                  c_bind (skip_objects db rhs col 0 (db_col_size db col (database w)) (database w) []) (\<lambda>vs.
                  c_bind (Udb_Finish_Object db (Some lhs_class)
                            (Some (dbt_put (dbt_edit_object lhs) aname (if type = DB_TYPE_SET then DB_SET (Col_New vs) else DB_SEQUENCE (Col_New vs)))) False w) (\<lambda>(x, w).
                    if x = Some lhs then Done w else Panic)))))
                else if type = DB_TYPE_OBJECT
                then
                  o_bind (Udb_Populate_Caches db inet getvar split elem lhs w) (\<lambda>(old_tables, w).
                  o_bind (Some (Udb_Finish_Object db (Some lhs_class) (Some (dbt_put (dbt_edit_object lhs) aname DB_NULL)) False w)) (\<lambda>(x, w).
                    if x \<noteq> Some lhs then Some Panic
                    else
                      o_bind (Udb_Populate_Caches db inet getvar split elem lhs w) (\<lambda>(new_tables, w).
                      o_bind (Udb_Update_Caches db inet getvar db_value_put split elem uuid lhs (Some old_tables) (Some new_tables) w) (\<lambda>(result, w).
                        Some (Done w)))))
                else Some Panic)"

fun drop_lhs ::
  "('s, 'o) dbi \<Rightarrow> tclvar \<Rightarrow> 'o \<Rightarrow> 'o \<Rightarrow> cstr list \<Rightarrow> ('s, 'o, 'm) udb_scheme \<Rightarrow> ('s, 'o, 'm) udb_scheme c_run" where
  "drop_lhs db getvar lhs_class lhs [] w = Done w"
| "drop_lhs db getvar lhs_class lhs (aname # relattrs) w =
     (case Udb_Attribute_Domain db lhs_class aname w of
        (None, w) \<Rightarrow> Panic
      | (Some domain, w) \<Rightarrow>
          c_bind (case db_domain_type domain of
                    DB_TYPE_OBJECT \<Rightarrow> Update_Scalar_Relation db getvar lhs_class lhs aname None False True w
                  | DB_TYPE_SET \<Rightarrow> Update_Vector_Relation db getvar lhs_class lhs aname None False True w
                  | DB_TYPE_SEQUENCE \<Rightarrow> Update_Vector_Relation db getvar lhs_class lhs aname None False True w
                  | _ \<Rightarrow> Panic)
            (drop_lhs db getvar lhs_class lhs relattrs))"

definition Drop_Lhs_Relations :: "('s, 'o) dbi \<Rightarrow> tclvar \<Rightarrow> 'o \<Rightarrow> 'o \<Rightarrow> ('s, 'o, 'm) udb_scheme \<Rightarrow> ('s, 'o, 'm) udb_scheme c_run" where
  "Drop_Lhs_Relations db getvar lhs_class lhs w =
     c_bind (Udb_Get_Relattributes db getvar lhs_class w) (\<lambda>(relattrs, w). drop_lhs db getvar lhs_class lhs relattrs w)"

partial_function (option) cascade_loop ::
  "('s, 'o) dbi \<Rightarrow> (cstr \<Rightarrow> ('s, 'o, 'm) udb_scheme \<Rightarrow> (cstr tcl_result \<times> ('s, 'o, 'm) udb_scheme) c_run option) \<Rightarrow> 'o \<Rightarrow>
     ('s, 'o, 'm) udb_scheme \<Rightarrow> (cstr tcl_result \<times> ('s, 'o, 'm) udb_scheme) c_run option" where
  "cascade_loop db unameit_delete rhs w =
     o_bind (Some (Udb_Get_Value db rhs (cstr ''backp/Cascade'') DB_TYPE_OBJECT (database w))) (\<lambda>v.
       case DB_GET_OBJECT v of
         None \<Rightarrow> Some (Done (Tcl_Ok [], w))
       | Some relation \<Rightarrow>
           o_bind (Some (Udb_Get_Value db relation (cstr ''lhs'') DB_TYPE_OBJECT (database w))) (\<lambda>v.
           o_bind (Some (check_some (DB_GET_OBJECT v))) (\<lambda>lhs.
           o_bind (Some (Udb_Get_Uuid db (Some lhs) (database w))) (\<lambda>uuid.
           o_bind (unameit_delete uuid w) (\<lambda>p.
             case fst p of
               Tcl_Error code msg \<Rightarrow> Some (Done (fst p, snd p))
             | Tcl_Ok r \<Rightarrow> cascade_loop db unameit_delete rhs (snd p))))))"

partial_function (option) nullify_loop ::
  "('s, 'o) dbi \<Rightarrow> ('o, 'i, ('s, 'o, 'm) udb_scheme) inet_calls \<Rightarrow> tclvar \<Rightarrow> (cstr \<Rightarrow> int option) \<Rightarrow> (cstr \<Rightarrow> cstr list option) \<Rightarrow> (cstr \<Rightarrow> cstr \<Rightarrow> cstr) \<Rightarrow> 'o \<Rightarrow>
     ('s, 'o, 'm) udb_scheme \<Rightarrow> ('s, 'o, 'm) udb_scheme c_run option" where
  "nullify_loop db inet getvar db_value_put split elem rhs w =
     o_bind (Some (Udb_Get_Value db rhs (cstr ''backp/Nullify'') DB_TYPE_OBJECT (database w))) (\<lambda>v.
       case DB_GET_OBJECT v of
         None \<Rightarrow> Some (Done w)
       | Some relation \<Rightarrow>
           o_bind (Some (Udb_Get_Value db relation (cstr ''lhs'') DB_TYPE_OBJECT (database w))) (\<lambda>v.
           o_bind (Some (check_some (DB_GET_OBJECT v))) (\<lambda>lhs.
           o_bind (Some (Udb_Relation_Attribute db (db_get_class db relation (database w)) w)) (\<lambda>p.
           o_bind (Some (Udb_Get_Uuid db (Some lhs) (database (snd p)))) (\<lambda>uuid.
           o_bind (Nullify_Attribute db inet getvar db_value_put split elem uuid lhs (fst p) rhs (snd p)) (\<lambda>w.
           o_bind (Some (Update_Relation db (db_get_class db relation (database w)) relation rhs None (cstr ''backp/Nullify'') w)) (\<lambda>w.
             nullify_loop db inet getvar db_value_put split elem rhs w)))))))"

definition Process_Rhs_Relations ::
  "('s, 'o) dbi \<Rightarrow> ('o, 'i, ('s, 'o, 'm) udb_scheme) inet_calls \<Rightarrow> tclvar \<Rightarrow> (cstr \<Rightarrow> int option) \<Rightarrow> (cstr \<Rightarrow> cstr list option) \<Rightarrow> (cstr \<Rightarrow> cstr \<Rightarrow> cstr) \<Rightarrow>
     (cstr \<Rightarrow> ('s, 'o, 'm) udb_scheme \<Rightarrow> (cstr tcl_result \<times> ('s, 'o, 'm) udb_scheme) c_run option) \<Rightarrow> 'o \<Rightarrow>
     ('s, 'o, 'm) udb_scheme \<Rightarrow> (cstr tcl_result \<times> ('s, 'o, 'm) udb_scheme) c_run option" where
  "Process_Rhs_Relations db inet getvar db_value_put split elem unameit_delete rhs w =
     o_bind (cascade_loop db unameit_delete rhs w) (\<lambda>(result, w).
       case result of
         Tcl_Error code msg \<Rightarrow> Some (Done (result, w))
       | Tcl_Ok r \<Rightarrow>
           o_bind (nullify_loop db inet getvar db_value_put split elem rhs w) (\<lambda>w.
           o_bind (Some (Udb_Get_Value db rhs (cstr ''backp/Block'') DB_TYPE_OBJECT (database w))) (\<lambda>v.
             Some (Done (Tcl_Ok [], if v \<noteq> DB_NULL then Add_Reference_Check rhs w else w)))))"

definition Udb_Delete_Object ::
  "('s, 'o) dbi \<Rightarrow> ('o, 'i, ('s, 'o, 'm) udb_scheme) inet_calls \<Rightarrow> tclvar \<Rightarrow> (cstr \<Rightarrow> int option) \<Rightarrow> (cstr \<Rightarrow> cstr list option) \<Rightarrow> (cstr \<Rightarrow> cstr \<Rightarrow> cstr) \<Rightarrow>
     (cstr \<Rightarrow> ('s, 'o, 'm) udb_scheme \<Rightarrow> (cstr tcl_result \<times> ('s, 'o, 'm) udb_scheme) c_run option) \<Rightarrow> 'o \<Rightarrow> cstr \<Rightarrow> 'o \<Rightarrow>
     ('s, 'o, 'm) udb_scheme \<Rightarrow> (cstr tcl_result \<times> ('s, 'o, 'm) udb_scheme) c_run option" where
  "Udb_Delete_Object db inet getvar db_value_put split elem unameit_delete class uuid object w =
     o_bind (Udb_Delete_All_Caches db inet getvar db_value_put split elem uuid object w) (\<lambda>w.
     o_bind (Some (Drop_Lhs_Relations db getvar class object w)) (\<lambda>w.
     o_bind (Some (Udb_Finish_Object db (Some class) (Some (dbt_edit_object object)) True (Drop_Loop_Check object w))) (\<lambda>(x, w).
       if x \<noteq> Some object then Some Panic
       else
         o_bind (Some (Udb_Cache_Object uuid object True w)) (\<lambda>w.
           Process_Rhs_Relations db inet getvar db_value_put split elem unameit_delete object w))))"

section \<open>Checks of references at commit\<close>

text \<open>A reference to a deleted item: the item, the attribute and the deleted item.\<close>

definition Reference_Error ::
  "('s, 'o) dbi \<Rightarrow> (cstr \<Rightarrow> cstr \<Rightarrow> cstr) \<Rightarrow> 'o \<Rightarrow> 'o \<Rightarrow> ('s, 'o, 'm) udb_scheme \<Rightarrow> (cstr \<times> ('s, 'o, 'm) udb_scheme) c_run" where
  "Reference_Error db elem rhs relation w =
     c_bind (Udb_Get_Value db relation (cstr ''lhs'') DB_TYPE_OBJECT (database w)) (\<lambda>v.
     c_bind (Udb_Relation_Attribute db (db_get_class db relation (database w)) w) (\<lambda>(aname, w).
     c_bind (Udb_Get_Uuid db (DB_GET_OBJECT v) (database w)) (\<lambda>lhs_uuid.
     c_bind (Udb_Get_Uuid db (Some rhs) (database w)) (\<lambda>rhs_uuid. Done (elem (elem (elem [] lhs_uuid) aname) rhs_uuid, w)))))"

text \<open>\<open>n\<close> is the number of errors that may still be reported.\<close>

fun ref_walk ::
  "('s, 'o) dbi \<Rightarrow> (cstr \<Rightarrow> cstr \<Rightarrow> cstr) \<Rightarrow> 'o \<Rightarrow> 'o option \<Rightarrow> nat \<Rightarrow> cstr list \<Rightarrow> ('s, 'o, 'm) udb_scheme \<Rightarrow> (nat \<times> cstr list \<times> ('s, 'o, 'm) udb_scheme) c_run" where
  "ref_walk db elem object relation 0 errs w = Done (0, errs, w)"
| "ref_walk db elem object relation (Suc n) errs w =
     (case relation of
        None \<Rightarrow> Done (Suc n, errs, w)
      | Some rel \<Rightarrow>
          c_bind (Reference_Error db elem object rel w) (\<lambda>(e, w).
          c_bind (Udb_Get_Value db rel (cstr ''next'') DB_TYPE_OBJECT (database w)) (\<lambda>v.
            ref_walk db elem object (DB_GET_OBJECT v) n (errs @ [e]) w)))"

fun ref_loop ::
  "('s, 'o) dbi \<Rightarrow> (cstr \<Rightarrow> cstr \<Rightarrow> cstr) \<Rightarrow> 'o list \<Rightarrow> nat \<Rightarrow> cstr list \<Rightarrow> ('s, 'o, 'm) udb_scheme \<Rightarrow> ('o list \<times> cstr list \<times> ('s, 'o, 'm) udb_scheme) c_run" where
  "ref_loop db elem [] n errs w = Done ([], errs, w)"
| "ref_loop db elem (object # objects) n errs w =
     (if n = 0 then Done (object # objects, errs, w)
      else
        c_bind (Udb_Get_Value db object (cstr ''backp/Block'') DB_TYPE_OBJECT (database w)) (\<lambda>v.
        c_bind (ref_walk db elem object (DB_GET_OBJECT v) n errs w) (\<lambda>(n, errs, w). ref_loop db elem objects n errs w)))"

definition Udb_EREFINTEGRITY :: "cstr list \<Rightarrow> cstr tcl_result" where
  "Udb_EREFINTEGRITY errs = Tcl_Error (cstr ''UNAMEIT'' # cstr ''EREFINTEGRITY'' # errs) (cstr ''Dangling references to deleted item'')"

definition Udb_Do_Reference_Checks ::
  "('s, 'o) dbi \<Rightarrow> (cstr \<Rightarrow> cstr \<Rightarrow> cstr) \<Rightarrow> ('s, 'o, 'm) udb_scheme \<Rightarrow> (cstr tcl_result \<times> ('s, 'o, 'm) udb_scheme) c_run" where
  "Udb_Do_Reference_Checks db elem w =
     (case refTable w of
        None \<Rightarrow> Done (Tcl_Ok [], w)
      | Some objects \<Rightarrow>
          c_bind (ref_loop db elem objects 10 [] w) (\<lambda>(rest, errs, w).
            Done (if errs \<noteq> [] then Udb_EREFINTEGRITY errs else Tcl_Ok [], w\<lparr>refTable := Some rest\<rparr>)))"

section \<open>Checks of loops at commit\<close>

text \<open>The result is the item that closes a loop, the identifiers of the items on it and the verified items.\<close>

function Collection_Loop_Leaf ::
  "nat \<Rightarrow> ('s, 'o) dbi \<Rightarrow> 's \<Rightarrow> cstr \<Rightarrow> 'o set \<Rightarrow> 'o set \<Rightarrow> 'o \<Rightarrow> cstr list \<Rightarrow> ('o option \<times> cstr list \<times> 'o set) c_run option"
and collection_scan ::
  "nat \<Rightarrow> ('s, 'o) dbi \<Rightarrow> 's \<Rightarrow> cstr \<Rightarrow> 'o set \<Rightarrow> 'o set \<Rightarrow> 'o \<Rightarrow> 'o db_collection \<Rightarrow> nat \<Rightarrow> nat \<Rightarrow> cstr list \<Rightarrow> ('o option \<times> cstr list \<times> 'o set) c_run option"
where
  "Collection_Loop_Leaf 0 db s aname verified path object loop_uuids = None"
| "Collection_Loop_Leaf (Suc n) db s aname verified path object loop_uuids =
     (if object \<in> verified then Some (Done (None, loop_uuids, verified))
      else case db_get db object aname s of
        ER_OTHER \<Rightarrow> Some Panic
      | ER_OBJ_INVALID_ATTRIBUTE \<Rightarrow> Some (Done (None, loop_uuids, insert object verified))
      | NOERROR v \<Rightarrow>
          if v = DB_NULL then Some (Done (None, loop_uuids, insert object verified))
          else case DB_GET_COLLECTION v of
            None \<Rightarrow> Some Panic
          | Some col \<Rightarrow> collection_scan n db s aname verified path object col 0 (db_col_size db col s) loop_uuids)"
| "collection_scan n db s aname verified path object col i 0 loop_uuids = Some (Done (None, loop_uuids, insert object verified))"
| "collection_scan n db s aname verified path object col i (Suc k) loop_uuids =
     o_bind (Some (Udb_Get_Collection_Value db col i DB_TYPE_OBJECT s)) (\<lambda>v.
     o_bind (Some (check_some (DB_GET_OBJECT v))) (\<lambda>next.
       if next \<in> path
       then o_bind (Some (Udb_Get_Uuid db (Some next) s)) (\<lambda>u. Some (Done (Some next, [u], verified)))
       else
         o_bind (Collection_Loop_Leaf n db s aname verified (insert next path) next loop_uuids) (\<lambda>(leaf, loop_uuids, verified).
           case leaf of
             None \<Rightarrow> collection_scan n db s aname verified path object col (i + 1) k loop_uuids
           | Some l \<Rightarrow>
               if l \<in> path
               then o_bind (Some (Udb_Get_Uuid db (Some next) s)) (\<lambda>u. Some (Done (Some l, loop_uuids @ [u], verified)))
               else Some (Done (Some l, loop_uuids, verified)))))"
  by pat_completeness auto
termination
  by (relation "inv_image (less_than <*lex*> less_than)
        (\<lambda>x. case x of Inl (n, _) \<Rightarrow> (n, 0) | Inr (n, db, s, aname, verified, path, object, col, i, k, us) \<Rightarrow> (n, Suc k))") auto

fun Scalar_Loop_Leaf ::
  "nat \<Rightarrow> ('s, 'o) dbi \<Rightarrow> 's \<Rightarrow> cstr \<Rightarrow> 'o set \<Rightarrow> 'o set \<Rightarrow> 'o \<Rightarrow> cstr list \<Rightarrow> ('o option \<times> cstr list \<times> 'o set) c_run option" where
  "Scalar_Loop_Leaf 0 db s aname verified path object loop_uuids = None"
| "Scalar_Loop_Leaf (Suc n) db s aname verified path object loop_uuids =
     (if object \<in> verified then Some (Done (None, loop_uuids, verified))
      else case db_get db object aname s of
        ER_OTHER \<Rightarrow> Some Panic
      | ER_OBJ_INVALID_ATTRIBUTE \<Rightarrow> Some (Done (None, loop_uuids, insert object verified))
      | NOERROR v \<Rightarrow>
          if v = DB_NULL then Some (Done (None, loop_uuids, insert object verified))
          else case DB_GET_OBJECT v of
            None \<Rightarrow> Some Panic
          | Some next \<Rightarrow>
              if next \<in> path
              then o_bind (Some (Udb_Get_Uuid db (Some next) s)) (\<lambda>u. Some (Done (Some next, [u], verified)))
              else
                o_bind (Scalar_Loop_Leaf n db s aname verified (insert next path) next loop_uuids) (\<lambda>(leaf, loop_uuids, verified).
                  case leaf of
                    None \<Rightarrow> Some (Done (None, loop_uuids, insert object verified))
                  | Some l \<Rightarrow>
                      if l \<in> path
                      then o_bind (Some (Udb_Get_Uuid db (Some next) s)) (\<lambda>u. Some (Done (Some l, loop_uuids @ [u], verified)))
                      else Some (Done (Some l, loop_uuids, verified))))"

definition Loop_Leaf ::
  "nat \<Rightarrow> ('s, 'o) dbi \<Rightarrow> 's \<Rightarrow> cstr \<Rightarrow> db_type \<Rightarrow> 'o set \<Rightarrow> 'o \<Rightarrow> ('o option \<times> cstr list \<times> 'o set) c_run option" where
  "Loop_Leaf n db s aname atype verified object =
     (if atype = DB_TYPE_SET \<or> atype = DB_TYPE_SEQUENCE then Collection_Loop_Leaf n db s aname verified {object} object []
      else Scalar_Loop_Leaf n db s aname verified {object} object [])"

fun loop_objects :: "nat \<Rightarrow> ('s, 'o) dbi \<Rightarrow> (cstr \<Rightarrow> cstr \<Rightarrow> cstr) \<Rightarrow> 's \<Rightarrow> cstr \<Rightarrow> db_type \<Rightarrow> 'o set \<Rightarrow> 'o list \<Rightarrow> cstr tcl_result c_run option" where
  "loop_objects n db elem s aname atype verified [] = Some (Done (Tcl_Ok []))"
| "loop_objects n db elem s aname atype verified (object # objects) =
     o_bind (Loop_Leaf n db s aname atype verified object) (\<lambda>(leaf, loop_uuids, verified).
       if leaf \<noteq> None then Some (Done (Udb_Error ''ELOOP'' [aname, foldl elem [] loop_uuids]))
       else loop_objects n db elem s aname atype (insert object verified) objects)"

text \<open>The type slot of each table that is checked is taken out of it.\<close>

fun loop_attributes ::
  "nat \<Rightarrow> ('s, 'o) dbi \<Rightarrow> (cstr \<Rightarrow> cstr \<Rightarrow> cstr) \<Rightarrow> 's \<Rightarrow> (cstr \<times> db_type option \<times> 'o list) list \<Rightarrow>
     (cstr tcl_result \<times> (cstr \<times> db_type option \<times> 'o list) list) c_run option" where
  "loop_attributes n db elem s [] = Some (Done (Tcl_Ok [], []))"
| "loop_attributes n db elem s ((aname, type, objects) # es) =
     o_bind (Some (check_some type)) (\<lambda>atype.
     o_bind (loop_objects n db elem s aname atype {} objects) (\<lambda>r.
       case r of
         Tcl_Error code msg \<Rightarrow> Some (Done (r, (aname, None, objects) # es))
       | Tcl_Ok _ \<Rightarrow>
           o_bind (loop_attributes n db elem s es) (\<lambda>(r, es). Some (Done (r, (aname, None, objects) # es)))))"

definition Udb_Do_Loop_Checks ::
  "nat \<Rightarrow> ('s, 'o) dbi \<Rightarrow> (cstr \<Rightarrow> cstr \<Rightarrow> cstr) \<Rightarrow> ('s, 'o, 'm) udb_scheme \<Rightarrow> (cstr tcl_result \<times> ('s, 'o, 'm) udb_scheme) c_run option" where
  "Udb_Do_Loop_Checks n db elem w =
     (case loopTable w of
        None \<Rightarrow> Some (Done (Tcl_Ok [], w))
      | Some es \<Rightarrow> o_bind (loop_attributes n db elem (database w) es) (\<lambda>(r, es). Some (Done (r, w\<lparr>loopTable := Some es\<rparr>))))"

end
