(* ===== verification/RelationProps.thy ===== *)
theory RelationProps
  imports Relations LookupProps MemDbi
begin

text \<open>
  The lists of relation objects of \<^verbatim>\<open>libudb/relation.c\<close>: making, moving and dropping a relation are insertion at the front
  and removal on lists, for all items at once.
\<close>

section \<open>Doubly linked lists\<close>

fun dll :: "('o \<rightharpoonup> 'o) \<Rightarrow> ('o \<rightharpoonup> 'o) \<Rightarrow> 'o \<Rightarrow> 'o option \<Rightarrow> 'o list \<Rightarrow> bool" where
  "dll pv nx prev p [] \<longleftrightarrow> p = None"
| "dll pv nx prev p (r # rs) \<longleftrightarrow> p = Some r \<and> r \<notin> set rs \<and> pv r = Some prev \<and> dll pv nx r (nx r) rs"

lemma dll_distinct: "dll pv nx prev p rs \<Longrightarrow> distinct rs"
  by (induction rs arbitrary: prev p) auto

lemma dll_cong: "dll pv nx prev p rs \<Longrightarrow> (\<And>r. r \<in> set rs \<Longrightarrow> pv' r = pv r \<and> nx' r = nx r) \<Longrightarrow> dll pv' nx' prev p rs"
  by (induction rs arbitrary: prev p) auto

text \<open>The neighbours of a new first element.\<close>

lemma dll_front:
  assumes "dll pv nx h p rs" "x \<notin> set rs"
  shows "dll (case p of None \<Rightarrow> pv(x \<mapsto> h) | Some n \<Rightarrow> pv(x \<mapsto> h, n \<mapsto> x)) (nx(x := p)) h (Some x) (x # rs)"
proof (cases rs)
  case (Cons n ns)
  then have n: "p = Some n" "n \<notin> set ns" "dll pv nx n (nx n) ns" using assms(1) by simp_all
  then have "dll (pv(x \<mapsto> h, n \<mapsto> x)) (nx(x := p)) n (nx n) ns" using assms(2) Cons by (intro dll_cong [OF n(3)]) auto
  then show ?thesis using n assms(2) Cons by auto
qed (use assms in auto)

text \<open>An element in the middle, and taking it out.\<close>

lemma dll_middle:
  assumes "dll pv nx prev p (as @ r # bs)"
  shows "pv r = Some (last (prev # as)) \<and> dll pv nx r (nx r) bs \<and> r \<notin> set as \<and> r \<notin> set bs"
  using assms
proof (induction as arbitrary: prev p)
  case (Cons a as)
  then have "dll pv nx a (nx a) (as @ r # bs)" "r \<noteq> a" by auto
  then show ?case using Cons.IH [of a "nx a"] by simp
qed simp

lemma dll_unlink_front:
  assumes "dll pv nx r q bs"
  shows "dll (case q of None \<Rightarrow> pv | Some n \<Rightarrow> pv(n \<mapsto> prev)) nx prev q bs"
proof (cases bs)
  case (Cons n ns)
  then have n: "q = Some n" "n \<notin> set ns" "dll pv nx n (nx n) ns" using assms by simp_all
  have "dll (pv(n \<mapsto> prev)) nx n (nx n) ns" by (rule dll_cong [OF n(3)]) (use n(2) in auto)
  then show ?thesis using n Cons by simp
qed (use assms in simp)

lemma dll_unlink:
  assumes "dll pv nx prev p (as @ r # bs)" "prev \<notin> set as"
  shows "dll (case nx r of None \<Rightarrow> pv | Some n \<Rightarrow> pv(n \<mapsto> last (prev # as))) (if as = [] then nx else nx(last as := nx r)) prev
    (if as = [] then nx r else p) (as @ bs)"
  using assms
proof (induction as arbitrary: prev p)
  case Nil
  then have "dll pv nx r (nx r) bs" by simp
  from dll_unlink_front [OF this, of prev] show ?case by (simp only: last_ConsL append_Nil refl if_True)
next
  case (Cons a as)
  let ?pv = "case nx r of None \<Rightarrow> pv | Some n \<Rightarrow> pv(n \<mapsto> last (a # as))" and ?nx = "nx(last (a # as) := nx r)"
  have a: "p = Some a" "a \<notin> set (as @ r # bs)" "pv a = Some prev" "dll pv nx a (nx a) (as @ r # bs)" using Cons.prems(1) by simp_all
  have n: "nx r \<noteq> Some a" using dll_middle [OF a(4)] a(2) by (cases bs) auto
  have IH: "dll ?pv (if as = [] then nx else nx(last as := nx r)) a (if as = [] then nx r else nx a) (as @ bs)"
    using Cons.IH [OF a(4)] a(2) by simp
  have "dll ?pv ?nx a (?nx a) (as @ bs)"
  proof (cases "as = []")
    case True
    then show ?thesis using IH a(2) by (auto intro: dll_cong)
  next
    case False
    then have "last as \<noteq> a" using a(2) by auto
    then show ?thesis using IH False by simp
  qed
  moreover have "?pv a = Some prev" using a(3) n by (auto split: option.split)
  moreover have l: "last (prev # a # as) = last (a # as)" by simp
  ultimately show ?case unfolding l using a(1,2) by (simp del: last.simps fun_upd_apply)
qed

section \<open>Relation lists in the store\<close>

abbreviation lhs_att :: cstr where "lhs_att \<equiv> cstr ''lhs''"
abbreviation rhs_att :: cstr where "rhs_att \<equiv> cstr ''rhs''"
abbreviation prev_att :: cstr where "prev_att \<equiv> cstr ''prev''"
abbreviation next_att :: cstr where "next_att \<equiv> cstr ''next''"

lemma att_names [simp]:
  "lhs_att \<noteq> rhs_att" "lhs_att \<noteq> prev_att" "lhs_att \<noteq> next_att" "lhs_att \<noteq> nextfree" "rhs_att \<noteq> lhs_att" "rhs_att \<noteq> prev_att" "rhs_att \<noteq> next_att" "rhs_att \<noteq> nextfree"
  "prev_att \<noteq> lhs_att" "prev_att \<noteq> rhs_att" "prev_att \<noteq> next_att" "prev_att \<noteq> nextfree" "next_att \<noteq> lhs_att" "next_att \<noteq> rhs_att" "next_att \<noteq> prev_att" "next_att \<noteq> nextfree"
  "nextfree \<noteq> lhs_att" "nextfree \<noteq> rhs_att" "nextfree \<noteq> prev_att" "nextfree \<noteq> next_att"
  by (simp_all add: cstr_def)

definition link :: "'o store \<Rightarrow> cstr \<Rightarrow> 'o \<rightharpoonup> 'o" where
  "link st a x = (case att st x a of Some v \<Rightarrow> DB_GET_OBJECT v | None \<Rightarrow> None)"

text \<open>The relation objects to the item \<open>h\<close> whose attribute \<open>b\<close> heads the list.  \<open>K\<close> are the classes of relations.\<close>

definition relation_ok :: "'o store \<Rightarrow> 'o set \<Rightarrow> 'o \<Rightarrow> 'o \<Rightarrow> bool" where
  "relation_ok st K h r \<longleftrightarrow>
     cls st r \<in> Some ` K \<and> (\<exists>y. att st r prev_att = Some (DB_OBJECT y)) \<and> (\<exists>p. att st r next_att = Some (DB_MAKE_OBJECT p)) \<and>
     att st r rhs_att = Some (DB_OBJECT h)"

definition rel_list :: "'o store \<Rightarrow> 'o set \<Rightarrow> 'o \<times> cstr \<Rightarrow> 'o list \<Rightarrow> bool" where
  "rel_list st K hb rs \<longleftrightarrow>
     (\<exists>p. att st (fst hb) (snd hb) = Some (DB_MAKE_OBJECT p)) \<and> (\<forall>r\<in>set rs. relation_ok st K (fst hb) r) \<and>
     dll (link st prev_att) (link st next_att) (fst hb) (link st (snd hb) (fst hb)) rs"

text \<open>The classes of relations: their schema, and the list of free objects of each.\<close>

definition rel_class :: "('o \<Rightarrow> cstr set) \<Rightarrow> ('o \<Rightarrow> cstr \<Rightarrow> bool) \<Rightarrow> 'o store \<Rightarrow> 'o set \<Rightarrow> 'o list \<Rightarrow> 'o \<Rightarrow> bool" where
  "rel_class schema unique st K xs k \<longleftrightarrow>
     class_object unique st k \<and> cls st k \<notin> Some ` K \<and> {lhs_att, rhs_att, prev_att, next_att, nextfree} \<subseteq> schema k \<and>
     (\<forall>a\<in>{rhs_att, prev_att, next_att, nextfree}. \<not> unique k a) \<and> free_list st k xs"

text \<open>All lists: \<open>L\<close> gives the list of each head, \<open>F\<close> the free objects of each class.  No object is in two lists.\<close>

definition rel_state ::
  "('o \<Rightarrow> cstr set) \<Rightarrow> ('o \<Rightarrow> cstr \<Rightarrow> bool) \<Rightarrow> 'o set \<Rightarrow> ('o \<times> cstr) set \<Rightarrow> ('o \<times> cstr \<Rightarrow> 'o list) \<Rightarrow> ('o \<Rightarrow> 'o list) \<Rightarrow> 'o store \<Rightarrow> bool" where
  "rel_state schema unique K H L F st \<longleftrightarrow>
     (\<forall>k\<in>K. rel_class schema unique st K (F k) k) \<and>
     (\<forall>hb\<in>H. rel_list st K hb (L hb) \<and> snd hb \<notin> {lhs_att, rhs_att, prev_att, next_att, nextfree} \<and>
        (\<exists>c. cls st (fst hb) = Some c \<and> c \<notin> K \<and> \<not> unique c (snd hb))) \<and>
     (\<forall>hb\<in>H. \<forall>hb'\<in>H. hb \<noteq> hb' \<longrightarrow> set (L hb) \<inter> set (L hb') = {}) \<and>
     (\<forall>hb\<in>H. \<forall>k\<in>K. set (L hb) \<inter> set (F k) = {})"

lemma link_set_att [simp]:
  "link (set_att x a (DB_OBJECT y) st) a' = (if a' = a then (link st a)(x \<mapsto> y) else link st a')"
  "link (set_att x a (DB_MAKE_OBJECT p) st) a' = (if a' = a then (link st a)(x := p) else link st a')"
  by (auto simp: link_def fun_eq_iff)

lemma made_object [simp]: "\<exists>p. DB_OBJECT x = DB_MAKE_OBJECT p"
  by (metis DB_MAKE_OBJECT_simps(6))

lemma link_att: "att st x a = Some (DB_MAKE_OBJECT p) \<Longrightarrow> link st a x = p" "att st x a = Some (DB_OBJECT y) \<Longrightarrow> link st a x = Some y"
  by (simp_all add: link_def)

text \<open>A list is the same in a store that agrees on its objects.\<close>

lemma rel_list_cong:
  assumes "rel_list st K hb rs" "att st' (fst hb) (snd hb) = att st (fst hb) (snd hb)"
    "\<And>r. r \<in> set rs \<Longrightarrow> cls st' r = cls st r" "\<And>r a. r \<in> set rs \<Longrightarrow> a \<in> {prev_att, next_att, rhs_att} \<Longrightarrow> att st' r a = att st r a"
  shows "rel_list st' K hb rs"
proof -
  have "dll (link st' prev_att) (link st' next_att) (fst hb) (link st (snd hb) (fst hb)) rs"
    by (rule dll_cong [of "link st prev_att" "link st next_att"]) (use assms in \<open>auto simp: rel_list_def link_def\<close>)
  moreover have "relation_ok st' K (fst hb) r" if "r \<in> set rs" for r
    using assms(1) assms(3,4) [OF that] that by (auto simp: rel_list_def relation_ok_def)
  moreover have "link st' (snd hb) (fst hb) = link st (snd hb) (fst hb)" using assms(2) by (simp add: link_def)
  ultimately show ?thesis using assms(1,2) by (auto simp: rel_list_def)
qed

lemma rel_class_cong:
  assumes "rel_class schema unique st K xs k" "cls st' k = cls st k" "free_list st' k xs'"
  shows "rel_class schema unique st' K xs' k"
  using assms by (simp add: rel_class_def class_object_def)

section \<open>Linking a relation\<close>

text \<open>The object that becomes the relation: a new one, or one that is in no list.\<close>

definition spare :: "'o store \<Rightarrow> 'o set \<Rightarrow> ('o \<times> cstr) set \<Rightarrow> ('o \<times> cstr \<Rightarrow> 'o list) \<Rightarrow> ('o \<Rightarrow> 'o list) \<Rightarrow> 'o \<Rightarrow> 'o \<Rightarrow> bool" where
  "spare st K H L F k x \<longleftrightarrow> x \<notin> dom (cls st) \<or> cls st x = Some k \<and> (\<forall>hb\<in>H. x \<notin> set (L hb)) \<and> (\<forall>k'\<in>K. x \<notin> set (F k'))"

text \<open>The store after the relation \<open>x\<close> was put in front of the list of \<open>(h, b)\<close>, whose first relation was \<open>p\<close>.\<close>

definition fronted :: "'o store \<Rightarrow> 'o \<Rightarrow> 'o \<times> cstr \<Rightarrow> 'o option \<Rightarrow> 'o \<Rightarrow> 'o store \<Rightarrow> bool" where
  "fronted st k hb p x st' \<longleftrightarrow>
     cnam st' = cnam st \<and> cls st' = (cls st)(x \<mapsto> k) \<and>
     (\<forall>y a. y \<noteq> x \<and> (y, a) \<noteq> hb \<and> (Some y = p \<longrightarrow> a \<noteq> prev_att) \<longrightarrow> att st' y a = att st y a) \<and>
     att st' (fst hb) (snd hb) = Some (DB_OBJECT x) \<and> (\<forall>n. p = Some n \<longrightarrow> att st' n prev_att = Some (DB_OBJECT x)) \<and>
     att st' x rhs_att = Some (DB_OBJECT (fst hb)) \<and> att st' x prev_att = Some (DB_OBJECT (fst hb)) \<and> att st' x next_att = Some (DB_MAKE_OBJECT p)"

lemma rel_stateD:
  assumes "rel_state schema unique K H L F st" "hb \<in> H"
  shows "rel_list st K hb (L hb)" "hb' \<in> H \<Longrightarrow> fst hb \<notin> set (L hb')" "\<exists>c. cls st (fst hb) = Some c \<and> c \<notin> K \<and> \<not> unique c (snd hb)"
    "snd hb \<notin> {lhs_att, rhs_att, prev_att, next_att, nextfree}"
proof -
  show "rel_list st K hb (L hb)" using assms unfolding rel_state_def by blast
  show c: "\<exists>c. cls st (fst hb) = Some c \<and> c \<notin> K \<and> \<not> unique c (snd hb)" using assms unfolding rel_state_def by blast
  show "snd hb \<notin> {lhs_att, rhs_att, prev_att, next_att, nextfree}" using assms unfolding rel_state_def by blast
  show "fst hb \<notin> set (L hb')" if "hb' \<in> H"
  proof -
    have "rel_list st K hb' (L hb')" using assms that unfolding rel_state_def by blast
    then show ?thesis using c unfolding rel_list_def relation_ok_def by auto
  qed
qed

lemma rel_class_in:
  assumes "rel_state schema unique K H L F st" "k \<in> K"
  shows "cls st k \<noteq> None" "cls st k \<notin> Some ` K" "free_list st k (F k)" "x \<in> set (F k) \<Longrightarrow> cls st x = Some k"
  using assms free_list_class [of st k "F k" x] by (auto simp: rel_state_def rel_class_def class_object_def)

lemma fronted_rel_list:
  assumes st: "rel_state schema unique K H L F st" and hb: "hb \<in> H" and k: "k \<in> K" and x: "spare st K H L F k x"
    and f: "fronted st k hb (link st (snd hb) (fst hb)) x st'"
  shows "rel_list st' K hb (x # L hb)"
proof -
  let ?p = "link st (snd hb) (fst hb)" and ?rs = "L hb"
  have l: "rel_list st K hb ?rs" by (rule rel_stateD(1) [OF st hb])
  have xr: "x \<notin> set ?rs" using x l hb by (auto simp: spare_def rel_list_def relation_ok_def)
  have h: "fst hb \<notin> set ?rs" "fst hb \<noteq> x"
    using rel_stateD(2) [OF st hb hb] rel_stateD(3) [OF st hb] x k by (auto simp: spare_def)
  have p: "\<And>n. ?p = Some n \<Longrightarrow> n \<in> set ?rs" using l by (cases ?rs) (auto simp: rel_list_def)
  have frame: "att st' r a = att st r a" if "r \<in> set ?rs" "a \<noteq> prev_att \<or> ?p \<noteq> Some r" for r a
    using f that xr h(1) unfolding fronted_def by (metis fst_conv)
  have pv: "att st' r prev_att = (if ?p = Some r then Some (DB_OBJECT x) else att st r prev_att)" if "r \<in> set ?rs" for r
    using f frame [OF that, of prev_att] by (auto simp: fronted_def)
  have "relation_ok st' K (fst hb) r" if "r \<in> set ?rs" for r
  proof -
    have "relation_ok st K (fst hb) r" using l that by (simp add: rel_list_def)
    moreover have "cls st' r = cls st r" using f xr that by (auto simp: fronted_def)
    ultimately show ?thesis using frame [OF that] pv [OF that] by (auto simp: relation_ok_def)
  qed
  moreover have "relation_ok st' K (fst hb) x" using f k by (auto simp: relation_ok_def fronted_def)
  moreover have "dll (link st' prev_att) (link st' next_att) (fst hb) (Some x) (x # ?rs)"
  proof (rule dll_cong)
    show "dll (case ?p of None \<Rightarrow> (link st prev_att)(x \<mapsto> fst hb) | Some n \<Rightarrow> (link st prev_att)(x \<mapsto> fst hb, n \<mapsto> x)) ((link st next_att)(x := ?p))
      (fst hb) (Some x) (x # ?rs)"
      by (rule dll_front [OF _ xr]) (use l in \<open>simp add: rel_list_def\<close>)
    fix r assume "r \<in> set (x # ?rs)"
    then consider "r = x" | "r \<in> set ?rs" "r \<noteq> x" using xr by auto
    then show "link st' prev_att r = (case ?p of None \<Rightarrow> (link st prev_att)(x \<mapsto> fst hb) | Some n \<Rightarrow> (link st prev_att)(x \<mapsto> fst hb, n \<mapsto> x)) r \<and>
      link st' next_att r = ((link st next_att)(x := ?p)) r"
    proof cases
      case 1
      have "?p \<noteq> Some x" using p xr by auto
      then show ?thesis using f 1 by (auto simp: fronted_def link_att split: option.split)
    next
      case 2
      then show ?thesis using pv [OF 2(1)] frame [OF 2(1), of next_att] by (auto simp: link_def split: option.split)
    qed
  qed
  moreover have "att st' (fst hb) (snd hb) = Some (DB_MAKE_OBJECT (Some x))" "link st' (snd hb) (fst hb) = Some x"
    using f by (simp_all add: fronted_def link_def)
  ultimately show ?thesis unfolding rel_list_def by auto
qed

lemma spare_apart:
  assumes st: "rel_state schema unique K H L F st" and k: "k \<in> K" and x: "spare st K H L F k x"
  shows "hb \<in> H \<Longrightarrow> fst hb \<noteq> x" "hb \<in> H \<Longrightarrow> x \<notin> set (L hb)" "k' \<in> K \<Longrightarrow> k' \<noteq> x" "k' \<in> K \<Longrightarrow> x \<notin> set (F k')"
proof -
  show "fst hb \<noteq> x" if "hb \<in> H" using rel_stateD(3) [OF st that] x k by (auto simp: spare_def)
  show "x \<notin> set (L hb)" if "hb \<in> H" using rel_stateD(1) [OF st that] x that by (auto simp: spare_def rel_list_def relation_ok_def)
  show "k' \<noteq> x" if "k' \<in> K" using rel_class_in(1,2) [OF st that] x k by (auto simp: spare_def)
  show "x \<notin> set (F k')" if "k' \<in> K" using rel_class_in(4) [OF st that, of x] x that by (auto simp: spare_def)
qed

lemma first_in_list:
  assumes "rel_list st K hb rs" "link st (snd hb) (fst hb) = Some n"
  shows "n \<in> set rs"
  using assms by (cases rs) (auto simp: rel_list_def)

lemma in_list_class:
  assumes "rel_state schema unique K H L F st" "hb \<in> H" "r \<in> set (L hb)"
  shows "cls st r \<in> Some ` K"
  using rel_stateD(1) [OF assms(1,2)] assms(3) by (simp add: rel_list_def relation_ok_def)

lemma fronted_rel_state:
  assumes st: "rel_state schema unique K H L F st" and hb: "hb \<in> H" and k: "k \<in> K" and x: "spare st K H L F k x"
    and f: "fronted st k hb (link st (snd hb) (fst hb)) x st'"
  shows "rel_state schema unique K H (L(hb := x # L hb)) F st'"
proof -
  let ?p = "link st (snd hb) (fst hb)"
  note ap = spare_apart [OF st k x]
  have n: "n \<in> set (L hb)" if "?p = Some n" for n using first_in_list [OF rel_stateD(1) [OF st hb] that] .
  have cls: "cls st' = (cls st)(x \<mapsto> k)" using f by (simp add: fronted_def)
  have frame: "att st' y a = att st y a" if "y \<noteq> x" "(y, a) \<noteq> hb" "y \<notin> set (L hb)" for y a
  proof -
    have F: "\<forall>y a. y \<noteq> x \<and> (y, a) \<noteq> hb \<and> (Some y = ?p \<longrightarrow> a \<noteq> prev_att) \<longrightarrow> att st' y a = att st y a" using f unfolding fronted_def by (elim conjE) assumption
    have "Some y \<noteq> ?p" using n [of y] that(3) by auto
    then show ?thesis using F that(1,2) by simp
  qed
  have lists: "rel_list st' K hb' ((L(hb := x # L hb)) hb')" if hb': "hb' \<in> H" for hb'
  proof (cases "hb' = hb")
    case True
    then show ?thesis using fronted_rel_list [OF st hb k x f] by simp
  next
    case False
    have d: "set (L hb') \<inter> set (L hb) = {}" using st hb hb' False unfolding rel_state_def by blast
    have "rel_list st' K hb' (L hb')"
    proof (rule rel_list_cong [OF rel_stateD(1) [OF st hb']])
      show "att st' (fst hb') (snd hb') = att st (fst hb') (snd hb')"
        by (rule frame) (use ap(1) [OF hb'] False rel_stateD(2) [OF st hb' hb] in auto)
      show "cls st' r = cls st r" if "r \<in> set (L hb')" for r using ap(2) [OF hb'] that cls by auto
      show "att st' r a = att st r a" if "r \<in> set (L hb')" for r a
        by (rule frame) (use that ap(2) [OF hb'] d rel_stateD(2) [OF st hb hb'] in auto)
    qed
    then show ?thesis using False by simp
  qed
  have classes: "rel_class schema unique st' K (F k') k'" if k': "k' \<in> K" for k'
  proof (rule rel_class_cong [of schema unique st])
    show "rel_class schema unique st K (F k') k'" using st k' unfolding rel_state_def by blast
    show "cls st' k' = cls st k'" using cls ap(3) [OF k'] by simp
    show "free_list st' k' (F k')"
    proof (rule free_list_cong [OF rel_class_in(3) [OF st k']])
      have "k' \<notin> set (L hb)" using rel_class_in(2) [OF st k'] in_list_class [OF st hb] by auto
      then show "att st' k' nextfree = att st k' nextfree"
        by (intro frame) (use ap(3) [OF k'] rel_stateD(4) [OF st hb] in auto)
      fix y assume y: "y \<in> set (F k')"
      have yx: "y \<noteq> x" using ap(4) [OF k'] y by auto
      then show "cls st' y = cls st y" using cls by simp
      have "y \<notin> set (L hb)" using st hb k' y unfolding rel_state_def by blast
      then show "att st' y nextfree = att st y nextfree" by (intro frame) (use yx rel_stateD(4) [OF st hb] in auto)
    qed
  qed
  have heads: "\<exists>c. cls st' (fst hb') = Some c \<and> c \<notin> K \<and> \<not> unique c (snd hb')" if "hb' \<in> H" for hb'
    using rel_stateD(3) [OF st that] ap(1) [OF that] cls by simp
  have apart: "set ((L(hb := x # L hb)) hb1) \<inter> set ((L(hb := x # L hb)) hb2) = {}" if "hb1 \<in> H" "hb2 \<in> H" "hb1 \<noteq> hb2" for hb1 hb2
  proof -
    have "set (L hb1) \<inter> set (L hb2) = {}" using st that unfolding rel_state_def by blast
    then show ?thesis using that ap(2) [OF that(1)] ap(2) [OF that(2)] by (cases "hb1 = hb"; cases "hb2 = hb") auto
  qed
  have free: "set ((L(hb := x # L hb)) hb') \<inter> set (F k') = {}" if "hb' \<in> H" "k' \<in> K" for hb' k'
  proof -
    have "set (L hb') \<inter> set (F k') = {}" using st that unfolding rel_state_def by blast
    then show ?thesis using ap(4) [OF that(2)] by (cases "hb' = hb") auto
  qed
  show ?thesis unfolding rel_state_def
    by (intro conjI ballI impI) (fact classes lists apart free heads rel_stateD(4) [OF st])+
qed

text \<open>The relation is written, then the head of the list and the former first relation.\<close>

lemma Build_Relation_runs:
  fixes w :: "('s, 'o, 'm) udb_scheme"
  assumes ok: "dbi_ok db view schema unique" and e: "env_ok view w" and st: "rel_state schema unique K H L F (view (database w))"
    and hb: "hb \<in> H" and k: "k \<in> K"
    and t: "t = dbt_create_object k \<or> (\<exists>x. t = dbt_edit_object x \<and> cls (view (database w)) x = Some k \<and> spare (view (database w)) K H L F k x)"
    and qs: "fst ` set qs \<subseteq> {lhs_att}" "no_clash unique (view (database w)) k None qs"
    and Q: "\<And>x w'. env_ok view w' \<Longrightarrow> rel_state schema unique K H (L(hb := x # L hb)) F (view (database w')) \<Longrightarrow> spare (view (database w)) K H L F k x \<Longrightarrow>
      (\<And>y. t = dbt_edit_object y \<Longrightarrow> x = y) \<Longrightarrow> (\<And>a v. map_of (rev qs) a = Some v \<Longrightarrow> att (view (database w')) x a = Some v) \<Longrightarrow>
      (\<And>y. y \<noteq> x \<Longrightarrow> att (view (database w')) y lhs_att = att (view (database w)) y lhs_att) \<Longrightarrow> Q w'"
  shows "runs (Build_Relation db (foldl (\<lambda>t (a, v). dbt_put t a v) t qs) (fst hb) (snd hb) w) Q"
proof -
  define sa where "sa = view (database w)"
  define p where "p = link sa (snd hb) (fst hb)"
  note st' = st [folded sa_def]
  obtain c where c: "cls sa (fst hb) = Some c" "c \<notin> K" "\<not> unique c (snd hb)" using rel_stateD(3) [OF st' hb] by blast
  have l: "rel_list sa K hb (L hb)" by (rule rel_stateD(1) [OF st' hb])
  then have p: "att sa (fst hb) (snd hb) = Some (DB_MAKE_OBJECT p)" by (auto simp: rel_list_def p_def link_att)
  have bn: "snd hb \<notin> {lhs_att, rhs_att, prev_att, next_att, nextfree}" by (rule rel_stateD(4) [OF st' hb])
  have v: "Udb_Get_Value db (fst hb) (snd hb) DB_TYPE_OBJECT (database w) = Done (DB_MAKE_OBJECT p)"
    using Udb_Get_Value_runs [OF ok, of "database w" "fst hb" c "snd hb" "DB_MAKE_OBJECT p" DB_TYPE_OBJECT] c(1) p by (cases p) (simp_all add: sa_def)
  have kc: "rel_class schema unique sa K (F k) k" using st' k by (simp add: rel_state_def)
  define ps where "ps = qs @ [(rhs_att, DB_OBJECT (fst hb)), (prev_att, DB_OBJECT (fst hb)), (next_att, DB_MAKE_OBJECT p)]"
  have tp: "dbt_put (dbt_put (dbt_put (foldl (\<lambda>t (a, v). dbt_put t a v) t qs) rhs_att (DB_OBJECT (fst hb))) prev_att (DB_OBJECT (fst hb))) next_att (DB_MAKE_OBJECT p) =
    foldl (\<lambda>t (a, v). dbt_put t a v) t ps" by (simp add: ps_def)
  have sub: "fst ` set ps \<subseteq> schema k" using qs(1) kc by (auto simp: ps_def rel_class_def)
  have nc: "no_clash unique sa k None ps" using qs(2) kc by (auto simp: no_clash_def ps_def rel_class_def sa_def)
  have tk: "t = dbt_create_object k \<and> k \<in> dom (cls (view (database w))) \<or> (\<exists>x. t = dbt_edit_object x \<and> cls (view (database w)) x = Some k)"
    using t rel_class_in(1) [OF st' k] by (auto simp: sa_def)
  have step: "runs (Udb_Finish_Object db None (Some (foldl (\<lambda>t (a, v). dbt_put t a v) t ps)) False w)
    (\<lambda>(newRel, w). runs (check_some newRel) (\<lambda>newRel. runs (put_checked db (fst hb) (snd hb) (DB_OBJECT newRel) w) (\<lambda>w.
       runs (case DB_GET_OBJECT (DB_MAKE_OBJECT p) of None \<Rightarrow> Done w | Some next \<Rightarrow> put_checked db next prev_att (DB_OBJECT newRel) w) Q)))"
  proof (rule Udb_Finish_Object_runs [OF ok e sub _ tk])
    show "no_clash unique (view (database w)) k None ps" using nc by (simp add: sa_def)
    fix x and w1 :: "('s, 'o, 'm) udb_scheme"
    assume e1: "env_ok view w1" and W: "written (view (database w)) k t ps x (view (database w1))"
    define s1 where "s1 = view (database w1)"
    have sp: "spare sa K H L F k x" using W t by (auto simp: written_def spare_def sa_def)
    note ap = spare_apart [OF st' k sp]
    have tx: "\<And>y. t = dbt_edit_object y \<Longrightarrow> x = y" using W by (auto simp: written_def)
    have W': "cnam s1 = cnam sa" "cls s1 = (cls sa)(x \<mapsto> k)" "\<And>y. y \<noteq> x \<Longrightarrow> att s1 y = att sa y" "\<And>a v. map_of (rev ps) a = Some v \<Longrightarrow> att s1 x a = Some v"
      using W by (auto simp: written_def sa_def s1_def)
    have lq: "map_of (rev qs) a = None" if "a \<noteq> lhs_att" for a using qs(1) that by (auto simp: map_of_eq_None_iff)
    have fin: "Q w'" if e': "env_ok view w'" and f: "fronted sa k hb p x (view (database w'))" and q: "\<And>a. a \<in> {lhs_att} \<Longrightarrow> att (view (database w')) x a = att s1 x a" for w' :: "('s, 'o, 'm) udb_scheme"
    proof (rule Q [OF e'])
      show "rel_state schema unique K H (L(hb := x # L hb)) F (view (database w'))"
        by (rule fronted_rel_state [OF st' hb k sp]) (use f in \<open>simp add: p_def\<close>)
      show "spare (view (database w)) K H L F k x" using sp by (simp add: sa_def)
      show "att (view (database w')) x a = Some v" if "map_of (rev qs) a = Some v" for a v
      proof -
        have "a = lhs_att" using lq [of a] that by (cases "a = lhs_att") auto
        moreover have "map_of (rev ps) a = Some v" using that \<open>a = lhs_att\<close> by (simp add: ps_def)
        ultimately show ?thesis using W'(4) q [of a] by simp
      qed
      show "att (view (database w')) y lhs_att = att (view (database w)) y lhs_att" if "y \<noteq> x" for y
      proof -
        have F: "\<forall>y a. y \<noteq> x \<and> (y, a) \<noteq> hb \<and> (Some y = p \<longrightarrow> a \<noteq> prev_att) \<longrightarrow> att (view (database w')) y a = att sa y a"
          using f unfolding fronted_def by (elim conjE) assumption
        moreover have "(y, lhs_att) \<noteq> hb" using bn by (cases hb) auto
        ultimately show ?thesis using that by (simp add: sa_def)
      qed
    qed (use tx in auto)
    have "runs (put_checked db (fst hb) (snd hb) (DB_OBJECT x) w1) (\<lambda>w.
       runs (case DB_GET_OBJECT (DB_MAKE_OBJECT p) of None \<Rightarrow> Done w | Some next \<Rightarrow> put_checked db next prev_att (DB_OBJECT x) w) Q)"
    proof (rule put_checked_runs [OF ok, of w1 "fst hb" c])
      show "cls (view (database w1)) (fst hb) = Some c" using W'(2) ap(1) [OF hb] c(1) by (simp add: s1_def)
      show "att (view (database w1)) (fst hb) (snd hb) \<noteq> None" using W'(3) ap(1) [OF hb] p by (simp add: s1_def)
      fix s2 assume s2: "view s2 = set_att (fst hb) (snd hb) (DB_OBJECT x) (view (database w1))"
      have x1: "att s1 x rhs_att = Some (DB_OBJECT (fst hb))" "att s1 x prev_att = Some (DB_OBJECT (fst hb))" "att s1 x next_att = Some (DB_MAKE_OBJECT p)"
        using W'(4) by (simp_all add: ps_def)
      have e2: "env_ok view (w1\<lparr>database := s2\<rparr>)" using e1 s2 by simp
      show "runs (case DB_GET_OBJECT (DB_MAKE_OBJECT p) of None \<Rightarrow> Done (w1\<lparr>database := s2\<rparr>) | Some next \<Rightarrow> put_checked db next prev_att (DB_OBJECT x) (w1\<lparr>database := s2\<rparr>)) Q"
      proof (cases p)
        case None
        have "fronted sa k hb p x (view s2)"
          using W' x1 ap(1) [OF hb] None unfolding fronted_def s2 s1_def [symmetric] by auto
        then show ?thesis using fin [OF e2] None s2 ap(1) [OF hb] by (simp add: s1_def)
      next
        case (Some n)
        have nl: "n \<in> set (L hb)" using first_in_list [OF l] Some by (simp add: p_def)
        have ne: "n \<noteq> x" "n \<noteq> fst hb" using ap(2) [OF hb] nl rel_stateD(2) [OF st' hb hb] by auto
        obtain k' where k': "cls sa n = Some k'" "k' \<in> K" using in_list_class [OF st' hb nl] by auto
        have "runs (put_checked db n prev_att (DB_OBJECT x) (w1\<lparr>database := s2\<rparr>)) Q"
        proof (rule put_checked_runs [OF ok, of _ n k'])
          show "cls (view (database (w1\<lparr>database := s2\<rparr>))) n = Some k'" using s2 W'(2) ne k'(1) by (simp add: s1_def)
          have "relation_ok sa K (fst hb) n" using l nl by (simp add: rel_list_def)
          then show "att (view (database (w1\<lparr>database := s2\<rparr>))) n prev_att \<noteq> None" using s2 ne W'(3) [OF ne(1)] by (auto simp: relation_ok_def s1_def)
          show "\<not> unique k' prev_att" using st' k'(2) by (simp add: rel_state_def rel_class_def)
          fix s3 assume s3: "view s3 = set_att n prev_att (DB_OBJECT x) (view (database (w1\<lparr>database := s2\<rparr>)))"
          have v3: "view s3 = set_att n prev_att (DB_OBJECT x) (set_att (fst hb) (snd hb) (DB_OBJECT x) s1)" using s3 s2 by (simp add: s1_def)
          have "fronted sa k hb p x (view s3)"
            using W' x1 ap(1) [OF hb] ne Some unfolding fronted_def v3 by auto
          moreover have "env_ok view (w1\<lparr>database := s2, database := s3\<rparr>)" using e1 v3 s1_def by simp
          ultimately show "Q (w1\<lparr>database := s2, database := s3\<rparr>)" using fin v3 ne ap(1) [OF hb] by simp
        qed
        then show ?thesis using Some by simp
      qed
    qed (use c(3) in simp)
    then show "case (Some x, w1) of (newRel, w) \<Rightarrow> runs (check_some newRel) (\<lambda>newRel. runs (put_checked db (fst hb) (snd hb) (DB_OBJECT newRel) w) (\<lambda>w.
       runs (case DB_GET_OBJECT (DB_MAKE_OBJECT p) of None \<Rightarrow> Done w | Some next \<Rightarrow> put_checked db next prev_att (DB_OBJECT newRel) w) Q))" by simp
  qed
  show ?thesis unfolding Build_Relation_def Let_def v runs_bind runs_Done tp runs_case_prod using step by (simp add: case_prod_beta)
qed

text \<open>Taking a free object keeps the lists.\<close>

lemma taken_rel_state:
  assumes st: "rel_state schema unique K H L F st" and k: "k \<in> K" and T: "taken st k (F k) t st'"
  shows "rel_state schema unique K H L (F(k := tl (F k))) st'"
    "t = dbt_create_object k \<or> (\<exists>x. t = dbt_edit_object x \<and> cls st' x = Some k \<and> spare st' K H L (F(k := tl (F k))) k x)"
proof -
  note fr = taken_frame [OF T]
  have at: "att st' y a = att st y a" if "a \<noteq> nextfree" for y a using fr(3) [of y] fr(4) [of a] that by (cases "y = k") auto
  have kL: "k \<notin> set (L hb)" if "hb \<in> H" for hb using in_list_class [OF st that] rel_class_in(2) [OF st k] by auto
  have lists: "rel_list st' K hb (L hb)" if "hb \<in> H" for hb
    by (rule rel_list_cong [OF rel_stateD(1) [OF st that]]) (use at rel_stateD(4) [OF st that] fr(2) in auto)
  have fl: "free_list st' k (tl (F k))" using T rel_class_in(3) [OF st k] by (auto simp: taken_def split: list.split_asm)
  have classes: "rel_class schema unique st' K ((F(k := tl (F k))) k') k'" if k': "k' \<in> K" for k'
  proof (rule rel_class_cong [of schema unique st])
    show "rel_class schema unique st K (F k') k'" using st k' by (simp add: rel_state_def)
    show "free_list st' k' ((F(k := tl (F k))) k')"
    proof (cases "k' = k")
      case False
      have "free_list st' k' (F k')"
      proof (rule free_list_cong [OF rel_class_in(3) [OF st k']])
        show "att st' k' nextfree = att st k' nextfree" using fr(3) [OF False] by simp
        fix y assume y: "y \<in> set (F k')"
        then have "y \<noteq> k" using rel_class_in(4) [OF st k' y] rel_class_in(2) [OF st k] k' by auto
        then show "att st' y nextfree = att st y nextfree" using fr(3) by simp
      qed (use fr(2) in simp)
      then show ?thesis using False by simp
    qed (use fl in simp)
  qed (use fr(2) in simp)
  have tl: "set ((F(k := tl (F k))) k') \<subseteq> set (F k')" for k' by (cases "k' = k"; cases "F k") auto
  have free: "set (L hb) \<inter> set ((F(k := tl (F k))) k') = {}" if "hb \<in> H" "k' \<in> K" for hb k'
  proof -
    have "set (L hb) \<inter> set (F k') = {}" using st that unfolding rel_state_def by blast
    then show ?thesis using tl [of k'] by blast
  qed
  have heads: "\<exists>c. cls st' (fst hb) = Some c \<and> c \<notin> K \<and> \<not> unique c (snd hb)" if "hb \<in> H" for hb
    using rel_stateD(3) [OF st that] fr(2) by simp
  have apart: "set (L hb1) \<inter> set (L hb2) = {}" if "hb1 \<in> H" "hb2 \<in> H" "hb1 \<noteq> hb2" for hb1 hb2
    using st that unfolding rel_state_def by blast
  show "rel_state schema unique K H L (F(k := tl (F k))) st'"
    unfolding rel_state_def by (intro conjI ballI impI) (fact classes lists apart free heads rel_stateD(4) [OF st])+
  show "t = dbt_create_object k \<or> (\<exists>x. t = dbt_edit_object x \<and> cls st' x = Some k \<and> spare st' K H L (F(k := tl (F k))) k x)"
  proof (cases "F k")
    case Nil
    then show ?thesis using T by (simp add: taken_def)
  next
    case (Cons x ys)
    have x: "t = dbt_edit_object x" "cls st x = Some k" "x \<notin> set ys" using T Cons by (auto simp: taken_def)
    have "x \<notin> set (L hb)" if "hb \<in> H" for hb using st that k Cons unfolding rel_state_def by force
    moreover have "x \<notin> set ((F(k := tl (F k))) k')" if "k' \<in> K" for k' using x rel_class_in(4) [OF st that, of x] Cons by auto
    ultimately show ?thesis using x fr(2) unfolding spare_def by simp
  qed
qed

text \<open>A new relation comes first in its list.\<close>

lemma New_Relation_runs:
  fixes w :: "('s, 'o, 'm) udb_scheme"
  assumes ok: "dbi_ok db view schema unique" and e: "env_ok view w" and st: "rel_state schema unique K H L F (view (database w))"
    and hb: "hb \<in> H" and k: "k \<in> K"
    and u: "unique k lhs_att \<Longrightarrow> (\<And>y. cls (view (database w)) y = Some k \<Longrightarrow> att (view (database w)) y lhs_att \<noteq> Some (DB_OBJECT lhs))"
    and Q: "\<And>x F' w'. env_ok view w' \<Longrightarrow> rel_state schema unique K H (L(hb := x # L hb)) F' (view (database w')) \<Longrightarrow>
      att (view (database w')) x lhs_att = Some (DB_OBJECT lhs) \<Longrightarrow> (\<And>hb. hb \<in> H \<Longrightarrow> x \<notin> set (L hb)) \<Longrightarrow>
      (\<And>y. y \<noteq> x \<Longrightarrow> att (view (database w')) y lhs_att = att (view (database w)) y lhs_att) \<Longrightarrow> Q w'"
  shows "runs (New_Relation db k lhs (fst hb) (snd hb) w) Q"
proof -
  have co: "class_object unique (view (database w)) k" using st k by (simp add: rel_state_def rel_class_def)
  have "runs (Udb_Edit_Free_Object db k w) (\<lambda>(t, w). runs (Build_Relation db (foldl (\<lambda>t (a, v). dbt_put t a v) t [(lhs_att, DB_OBJECT lhs)]) (fst hb) (snd hb) w) Q)"
  proof (rule Udb_Edit_Free_Object_runs [OF ok e rel_class_in(3) [OF st k] co], unfold prod.case)
    fix t and w1 :: "('s, 'o, 'm) udb_scheme"
    assume e1: "env_ok view w1" and T: "taken (view (database w)) k (F k) t (view (database w1))"
    note tr = taken_rel_state [OF st k T] and fr = taken_frame [OF T]
    have at: "att (view (database w1)) y lhs_att = att (view (database w)) y lhs_att" for y
      using fr(3) [of y] fr(4) [of lhs_att] by (cases "y = k") auto
    show "runs (Build_Relation db (foldl (\<lambda>t (a, v). dbt_put t a v) t [(lhs_att, DB_OBJECT lhs)]) (fst hb) (snd hb) w1) Q"
    proof (rule Build_Relation_runs [OF ok e1 tr(1) hb k tr(2)])
      show "no_clash unique (view (database w1)) k None [(lhs_att, DB_OBJECT lhs)]" using u fr(2) at by (auto simp: no_clash_def)
      fix x and w' :: "('s, 'o, 'm) udb_scheme"
      assume a: "env_ok view w'" "rel_state schema unique K H (L(hb := x # L hb)) (F(k := tl (F k))) (view (database w'))"
        "spare (view (database w1)) K H L (F(k := tl (F k))) k x"
        "\<And>a v. map_of (rev [(lhs_att, DB_OBJECT lhs)]) a = Some v \<Longrightarrow> att (view (database w')) x a = Some v"
        "\<And>y. y \<noteq> x \<Longrightarrow> att (view (database w')) y lhs_att = att (view (database w1)) y lhs_att"
      show "Q w'" by (rule Q [OF a(1,2)]) (use a(4) spare_apart(2) [OF tr(1) k a(3)] a(5) at in auto)
    qed simp
  qed
  then show ?thesis unfolding New_Relation_def runs_bind runs_case_prod by simp
qed

section \<open>Taking a relation out of its list\<close>

text \<open>The store after the neighbours of a relation have been linked: \<open>z\<close> is the place before it, \<open>q\<close> the relation after it.\<close>

definition unlinked :: "'o store \<Rightarrow> 'o \<times> cstr \<Rightarrow> 'o \<Rightarrow> 'o option \<Rightarrow> 'o store \<Rightarrow> bool" where
  "unlinked st z y q st' \<longleftrightarrow>
     cnam st' = cnam st \<and> cls st' = cls st \<and> att st' (fst z) (snd z) = Some (DB_MAKE_OBJECT q) \<and>
     (\<forall>n. q = Some n \<longrightarrow> att st' n prev_att = Some (DB_OBJECT y)) \<and>
     (\<forall>x a. (x, a) \<noteq> z \<and> (Some x = q \<longrightarrow> a \<noteq> prev_att) \<longrightarrow> att st' x a = att st x a)"

lemma unlinked_rel_list:
  assumes l: "rel_list st K hb (as @ r # bs)" and h: "fst hb \<notin> set (as @ r # bs)" and b: "snd hb \<notin> {rhs_att, prev_att, next_att}"
    and u: "unlinked st (if as = [] then hb else (last as, next_att)) (last (fst hb # as)) (link st next_att r) st'"
  shows "rel_list st' K hb (as @ bs)"
proof -
  let ?h = "fst hb" and ?q = "link st next_att r" and ?z = "if as = [] then hb else (last as, next_att)" and ?y = "last (fst hb # as)"
  let ?pv = "link st prev_att" and ?nx = "link st next_att"
  have d: "dll ?pv ?nx ?h (link st (snd hb) ?h) (as @ r # bs)" using l by (simp add: rel_list_def)
  have dist: "distinct (as @ r # bs)" by (rule dll_distinct [OF d])
  have U: "cls st' = cls st" "att st' (fst ?z) (snd ?z) = Some (DB_MAKE_OBJECT ?q)" "\<And>n. ?q = Some n \<Longrightarrow> att st' n prev_att = Some (DB_OBJECT ?y)"
    "\<And>x a. (x, a) \<noteq> ?z \<Longrightarrow> (Some x = ?q \<Longrightarrow> a \<noteq> prev_att) \<Longrightarrow> att st' x a = att st x a"
    using u unfolding unlinked_def by blast+
  have q: "n \<in> set bs" if "?q = Some n" for n using dll_middle [OF d] that by (cases bs) auto
  have pv: "att st' x prev_att = (if ?q = Some x then Some (DB_OBJECT ?y) else att st x prev_att)" if "x \<in> set (as @ bs)" for x
    using U(3) [of x] U(4) [of x prev_att] b by (cases hb) auto
  have nx: "att st' x next_att = (if as \<noteq> [] \<and> x = last as then Some (DB_MAKE_OBJECT ?q) else att st x next_att)" if "x \<in> set (as @ bs)" for x
    using U(2) U(4) [of x next_att] b by (cases hb) (auto split: if_split_asm)
  have rh: "att st' x rhs_att = att st x rhs_att" for x using U(4) [of x rhs_att] b by (cases hb) auto
  have "relation_ok st' K ?h x" if "x \<in> set (as @ bs)" for x
  proof -
    have "relation_ok st K ?h x" using l that by (simp add: rel_list_def)
    then show ?thesis using pv [OF that] nx [OF that] rh [of x] U(1) by (auto simp: relation_ok_def)
  qed
  moreover have hd: "att st' ?h (snd hb) = (if as = [] then Some (DB_MAKE_OBJECT ?q) else att st ?h (snd hb))"
  proof (cases "as = []")
    case False
    have "?h \<noteq> last as" using h False by auto
    moreover have "Some ?h \<noteq> ?q" using q [of ?h] h by auto
    ultimately show ?thesis using U(4) [of ?h "snd hb"] False by (cases hb) auto
  qed (use U(2) in simp)
  moreover have "dll (link st' prev_att) (link st' next_att) ?h (if as = [] then ?q else link st (snd hb) ?h) (as @ bs)"
  proof (rule dll_cong [OF dll_unlink [OF d]])
    fix x assume x: "x \<in> set (as @ bs)"
    show "link st' prev_att x = (case ?nx r of None \<Rightarrow> ?pv | Some n \<Rightarrow> ?pv(n \<mapsto> last (?h # as))) x \<and>
      link st' next_att x = (if as = [] then ?nx else ?nx(last as := ?nx r)) x"
      using pv [OF x] nx [OF x] by (auto simp: link_def split: option.split)
  qed (use h in auto)
  moreover have "link st' (snd hb) ?h = (if as = [] then ?q else link st (snd hb) ?h)" using hd by (simp add: link_def)
  ultimately show ?thesis using l unfolding rel_list_def by auto
qed

lemma unlinked_rel_state:
  assumes st: "rel_state schema unique K H L F st" and hb: "hb \<in> H" and L: "L hb = as @ r # bs" and k: "cls st r = Some k"
    and u: "unlinked st (if as = [] then hb else (last as, next_att)) (last (fst hb # as)) (link st next_att r) st'"
  shows "rel_state schema unique K H (L(hb := as @ bs)) F st'" "spare st' K H (L(hb := as @ bs)) F k r"
proof -
  let ?q = "link st next_att r" and ?z = "if as = [] then hb else (last as, next_att)"
  have l: "rel_list st K hb (as @ r # bs)" using rel_stateD(1) [OF st hb] L by simp
  then have d: "dll (link st prev_att) (link st next_att) (fst hb) (link st (snd hb) (fst hb)) (as @ r # bs)" by (simp add: rel_list_def)
  have U: "cls st' = cls st" "\<And>x a. (x, a) \<noteq> ?z \<Longrightarrow> (Some x = ?q \<Longrightarrow> a \<noteq> prev_att) \<Longrightarrow> att st' x a = att st x a"
    using u unfolding unlinked_def by blast+
  have bn: "snd hb \<notin> {lhs_att, rhs_att, prev_att, next_att, nextfree}" by (rule rel_stateD(4) [OF st hb])
  have q: "n \<in> set (L hb)" if "?q = Some n" for n using dll_middle [OF d] that L by (cases bs) auto
  have frame: "att st' x a = att st x a" if "x \<notin> set (L hb)" "(x, a) \<noteq> hb" for x a
  proof (rule U(2))
    show "(x, a) \<noteq> ?z" using that L last_in_set [of as] by auto
    show "a \<noteq> prev_att" if "Some x = ?q" using q [of x] that \<open>x \<notin> set (L hb)\<close> by simp
  qed
  have lists: "rel_list st' K hb' ((L(hb := as @ bs)) hb')" if hb': "hb' \<in> H" for hb'
  proof (cases "hb' = hb")
    case True
    have "rel_list st' K hb (as @ bs)" by (rule unlinked_rel_list [OF l _ _ u]) (use rel_stateD(2) [OF st hb hb] L bn in auto)
    then show ?thesis using True by simp
  next
    case False
    have dj: "set (L hb') \<inter> set (L hb) = {}" using st hb hb' False unfolding rel_state_def by blast
    have "rel_list st' K hb' (L hb')"
    proof (rule rel_list_cong [OF rel_stateD(1) [OF st hb']])
      show "att st' (fst hb') (snd hb') = att st (fst hb') (snd hb')"
        by (rule frame) (use False rel_stateD(2) [OF st hb' hb] in auto)
      show "att st' x a = att st x a" if "x \<in> set (L hb')" for x a
        by (rule frame) (use that dj rel_stateD(2) [OF st hb hb'] in auto)
    qed (use U(1) in simp)
    then show ?thesis using False by simp
  qed
  have nf: "att st' x nextfree = att st x nextfree" for x using U(2) [of x nextfree] bn by (cases hb) auto
  have classes: "rel_class schema unique st' K (F k') k'" if k': "k' \<in> K" for k'
  proof (rule rel_class_cong [of schema unique st])
    show "rel_class schema unique st K (F k') k'" using st k' by (simp add: rel_state_def)
    show "free_list st' k' (F k')" by (rule free_list_cong [OF rel_class_in(3) [OF st k']]) (use nf U(1) in simp_all)
  qed (use U(1) in simp)
  have heads: "\<exists>c. cls st' (fst hb') = Some c \<and> c \<notin> K \<and> \<not> unique c (snd hb')" if "hb' \<in> H" for hb'
    using rel_stateD(3) [OF st that] U(1) by simp
  have sub: "set ((L(hb := as @ bs)) hb') \<subseteq> set (L hb')" for hb' using L by auto
  have apart: "set ((L(hb := as @ bs)) hb1) \<inter> set ((L(hb := as @ bs)) hb2) = {}" if "hb1 \<in> H" "hb2 \<in> H" "hb1 \<noteq> hb2" for hb1 hb2
  proof -
    have "set (L hb1) \<inter> set (L hb2) = {}" using st that unfolding rel_state_def by blast
    then show ?thesis using sub [of hb1] sub [of hb2] by blast
  qed
  have free: "set ((L(hb := as @ bs)) hb') \<inter> set (F k') = {}" if "hb' \<in> H" "k' \<in> K" for hb' k'
  proof -
    have "set (L hb') \<inter> set (F k') = {}" using st that unfolding rel_state_def by blast
    then show ?thesis using sub [of hb'] by blast
  qed
  show "rel_state schema unique K H (L(hb := as @ bs)) F st'" unfolding rel_state_def
    by (intro conjI ballI impI) (fact classes lists apart free heads rel_stateD(4) [OF st])+
  have rl: "r \<in> set (L hb)" "r \<notin> set as" "r \<notin> set bs" using L dll_distinct [OF d] by auto
  have "r \<notin> set ((L(hb := as @ bs)) hb')" if "hb' \<in> H" for hb'
  proof (cases "hb' = hb")
    case False
    then have "set (L hb) \<inter> set (L hb') = {}" using st hb that unfolding rel_state_def by blast
    then show ?thesis using False rl by auto
  qed (use rl in simp)
  moreover have "r \<notin> set (F k')" if "k' \<in> K" for k' using st hb that rl(1) unfolding rel_state_def by blast
  ultimately show "spare st' K H (L(hb := as @ bs)) F k r" using k U(1) by (simp add: spare_def)
qed

text \<open>Linking the neighbours.\<close>

lemma unlink_runs:
  fixes w :: "('s, 'o, 'm) udb_scheme"
  assumes ok: "dbi_ok db view schema unique" and e: "env_ok view w" and st: "rel_state schema unique K H L F (view (database w))"
    and hb: "hb \<in> H" and L: "L hb = as @ r # bs"
    and Q: "\<And>w'. env_ok view w' \<Longrightarrow> unlinked (view (database w)) (if as = [] then hb else (last as, next_att)) (last (fst hb # as))
      (link (view (database w)) next_att r) (view (database w')) \<Longrightarrow> Q w'"
  shows "runs (if last (fst hb # as) \<noteq> fst hb then put_checked db (last (fst hb # as)) next_att (DB_MAKE_OBJECT (link (view (database w)) next_att r)) w
      else put_checked db (last (fst hb # as)) (snd hb) (DB_MAKE_OBJECT (link (view (database w)) next_att r)) w)
    (\<lambda>w1. runs (case link (view (database w)) next_att r of None \<Rightarrow> Done w1 | Some n \<Rightarrow> put_checked db n prev_att (DB_OBJECT (last (fst hb # as))) w1) Q)"
proof -
  define sa where "sa = view (database w)"
  define q where "q = link sa next_att r"
  define y where "y = last (fst hb # as)"
  define z where "z = (if as = [] then hb else (last as, next_att))"
  note st' = st [folded sa_def] and Q' = Q [folded sa_def, folded q_def y_def z_def]
  have l: "rel_list sa K hb (as @ r # bs)" using rel_stateD(1) [OF st' hb] L by simp
  then have d: "dll (link sa prev_att) (link sa next_att) (fst hb) (link sa (snd hb) (fst hb)) (as @ r # bs)" by (simp add: rel_list_def)
  have hn: "fst hb \<notin> set (as @ r # bs)" using rel_stateD(2) [OF st' hb hb] L by simp
  have bn: "snd hb \<notin> {lhs_att, rhs_att, prev_att, next_att, nextfree}" by (rule rel_stateD(4) [OF st' hb])
  have yh: "y \<noteq> fst hb \<longleftrightarrow> as \<noteq> []"
  proof (cases "as = []")
    case False
    then have "last as \<noteq> fst hb" using hn by (metis Un_iff last_in_set set_append)
    then show ?thesis using False by (simp add: y_def)
  qed (simp add: y_def)
  have zy: "fst z = y" by (simp add: z_def y_def)
  have z: "\<exists>c. cls sa (fst z) = Some c \<and> att sa (fst z) (snd z) \<noteq> None \<and> \<not> unique c (snd z)"
  proof (cases "as = []")
    case True
    then show ?thesis using rel_stateD(3) [OF st' hb] l by (auto simp: z_def rel_list_def)
  next
    case False
    then have "last as \<in> set (L hb)" "relation_ok sa K (fst hb) (last as)" using l L by (simp_all add: rel_list_def)
    then show ?thesis using False st' in_list_class [OF st' hb, of "last as"] by (auto simp: z_def relation_ok_def rel_state_def rel_class_def)
  qed
  then obtain c where c: "cls sa (fst z) = Some c" "att sa (fst z) (snd z) \<noteq> None" "\<not> unique c (snd z)" by blast
  have "runs (put_checked db (fst z) (snd z) (DB_MAKE_OBJECT q) w) (\<lambda>w1. runs (case q of None \<Rightarrow> Done w1 | Some n \<Rightarrow> put_checked db n prev_att (DB_OBJECT y) w1) Q)"
  proof (rule put_checked_runs [OF ok, of w "fst z" c])
    fix s1 assume s1: "view s1 = set_att (fst z) (snd z) (DB_MAKE_OBJECT q) (view (database w))"
    have e1: "env_ok view (w\<lparr>database := s1\<rparr>)" using e s1 by simp
    show "runs (case q of None \<Rightarrow> Done (w\<lparr>database := s1\<rparr>) | Some n \<Rightarrow> put_checked db n prev_att (DB_OBJECT y) (w\<lparr>database := s1\<rparr>)) Q"
    proof (cases q)
      case None
      have "unlinked sa z y q (view s1)" using s1 None by (cases z) (auto simp: unlinked_def sa_def)
      then have "Q (w\<lparr>database := s1\<rparr>)" by (intro Q' [OF e1]) simp
      then show ?thesis using None by simp
    next
      case (Some n)
      have nb: "n \<in> set bs" using dll_middle [OF d] Some by (cases bs) (auto simp: q_def)
      then have nL: "n \<in> set (L hb)" "relation_ok sa K (fst hb) n" using l L by (simp_all add: rel_list_def)
      have nz: "z \<noteq> (n, prev_att)" using bn by (cases hb) (auto simp: z_def)
      obtain k where k: "cls sa n = Some k" "k \<in> K" using in_list_class [OF st' hb nL(1)] by auto
      have "runs (put_checked db n prev_att (DB_OBJECT y) (w\<lparr>database := s1\<rparr>)) Q"
      proof (rule put_checked_runs [OF ok, of _ n k])
        show "cls (view (database (w\<lparr>database := s1\<rparr>))) n = Some k" using s1 k(1) by (simp add: sa_def)
        show "att (view (database (w\<lparr>database := s1\<rparr>))) n prev_att \<noteq> None" using s1 nL(2) by (auto simp: relation_ok_def sa_def)
        show "\<not> unique k prev_att" using st' k(2) by (simp add: rel_state_def rel_class_def)
        fix s2 assume s2: "view s2 = set_att n prev_att (DB_OBJECT y) (view (database (w\<lparr>database := s1\<rparr>)))"
        have "unlinked sa z y q (view s2)" using s1 s2 Some nz by (cases z) (auto simp: unlinked_def sa_def)
        moreover have "env_ok view (w\<lparr>database := s1, database := s2\<rparr>)" using e s1 s2 by simp
        ultimately show "Q (w\<lparr>database := s1, database := s2\<rparr>)" by (intro Q') simp_all
      qed
      then show ?thesis using Some by simp
    qed
  qed (use c in \<open>simp_all add: sa_def\<close>)
  moreover have "snd z = (if y \<noteq> fst hb then next_att else snd hb)" using yh by (simp add: z_def)
  ultimately show ?thesis unfolding sa_def [symmetric] q_def [symmetric] y_def [symmetric] zy by (simp split: if_split_asm)
qed

text \<open>A spare object is given back.\<close>

lemma freed_rel_state:
  assumes st: "rel_state schema unique K H L F st" and k: "k \<in> K" and x: "spare st K H L F k x" "cls st x = Some k"
    and f: "freed st k (F k) (Some lhs_att) x st'"
  shows "rel_state schema unique K H L (F(k := x # F k)) st'"
proof -
  note ap = spare_apart [OF st k x(1)]
  have cls: "cls st' = cls st" and fl: "free_list st' k (x # F k)" using f by (simp_all add: freed_def)
  have fr: "att st' y a = att st y a" if "y \<noteq> x" "a \<noteq> nextfree \<or> y \<noteq> k" for y a using f that unfolding freed_def by (cases "y = k") auto
  have lists: "rel_list st' K hb (L hb)" if hb: "hb \<in> H" for hb
  proof (rule rel_list_cong [OF rel_stateD(1) [OF st hb]])
    show "att st' (fst hb) (snd hb) = att st (fst hb) (snd hb)" by (rule fr) (use ap(1) [OF hb] rel_stateD(4) [OF st hb] in auto)
    show "att st' r a = att st r a" if "r \<in> set (L hb)" "a \<in> {prev_att, next_att, rhs_att}" for r a by (rule fr) (use that ap(2) [OF hb] in auto)
  qed (use cls in simp)
  have classes: "rel_class schema unique st' K ((F(k := x # F k)) k') k'" if k': "k' \<in> K" for k'
  proof (rule rel_class_cong [of schema unique st])
    show "rel_class schema unique st K (F k') k'" using st k' by (simp add: rel_state_def)
    show "free_list st' k' ((F(k := x # F k)) k')"
    proof (cases "k' = k")
      case False
      have "free_list st' k' (F k')"
      proof (rule free_list_cong [OF rel_class_in(3) [OF st k']])
        show "att st' k' nextfree = att st k' nextfree" by (rule fr) (use ap(3) [OF k'] False in auto)
        fix y assume y: "y \<in> set (F k')"
        have "y \<noteq> k" using rel_class_in(4) [OF st k' y] rel_class_in(2) [OF st k] k' by auto
        then show "att st' y nextfree = att st y nextfree" by (intro fr) (use ap(4) [OF k'] y in auto)
      qed (use cls in simp)
      then show ?thesis using False by simp
    qed (use fl in simp)
  qed (use cls in simp)
  have heads: "\<exists>c. cls st' (fst hb) = Some c \<and> c \<notin> K \<and> \<not> unique c (snd hb)" if "hb \<in> H" for hb
    using rel_stateD(3) [OF st that] cls by simp
  have apart: "set (L hb1) \<inter> set (L hb2) = {}" if "hb1 \<in> H" "hb2 \<in> H" "hb1 \<noteq> hb2" for hb1 hb2
    using st that unfolding rel_state_def by blast
  have free: "set (L hb) \<inter> set ((F(k := x # F k)) k') = {}" if "hb \<in> H" "k' \<in> K" for hb k'
  proof -
    have "set (L hb) \<inter> set (F k') = {}" using st that unfolding rel_state_def by blast
    then show ?thesis using ap(2) [OF that(1)] by (cases "k' = k") auto
  qed
  show ?thesis unfolding rel_state_def by (intro conjI ballI impI) (fact classes lists apart free heads rel_stateD(4) [OF st])+
qed

text \<open>The lists after the relation \<open>r\<close> has left the list of \<open>hb\<close>, and joined that of another item.\<close>

definition moved :: "'o \<Rightarrow> 'o \<times> cstr \<Rightarrow> 'o option \<Rightarrow> ('o \<times> cstr \<Rightarrow> 'o list) \<Rightarrow> 'o \<times> cstr \<Rightarrow> 'o list" where
  "moved r hb newrhs L =
     (let L = L(hb := remove1 r (L hb)) in case newrhs of None \<Rightarrow> L | Some h \<Rightarrow> L((h, snd hb) := r # L (h, snd hb)))"

lemma Update_Relation_runs:
  fixes w :: "('s, 'o, 'm) udb_scheme"
  assumes ok: "dbi_ok db view schema unique" and e: "env_ok view w" and st: "rel_state schema unique K H L F (view (database w))"
    and hb: "hb \<in> H" and r: "r \<in> set (L hb)" and k: "cls (view (database w)) r = Some k" and new: "\<And>h. newrhs = Some h \<Longrightarrow> (h, snd hb) \<in> H"
    and Q: "\<And>F' w'. env_ok view w' \<Longrightarrow> rel_state schema unique K H (moved r hb newrhs L) F' (view (database w')) \<Longrightarrow> Q w'"
  shows "runs (Update_Relation db k r (fst hb) newrhs (snd hb) w) Q"
proof -
  define sa where "sa = view (database w)"
  note st' = st [folded sa_def] and kr = k [folded sa_def]
  have kK: "k \<in> K" using in_list_class [OF st' hb r] kr by auto
  obtain as bs where L: "L hb = as @ r # bs" "r \<notin> set as" using split_list_first [OF r] by blast
  have l: "rel_list sa K hb (as @ r # bs)" using rel_stateD(1) [OF st' hb] L by simp
  then have d: "dll (link sa prev_att) (link sa next_att) (fst hb) (link sa (snd hb) (fst hb)) (as @ r # bs)" by (simp add: rel_list_def)
  have ro: "relation_ok sa K (fst hb) r" using l by (simp add: rel_list_def)
  then have at: "att sa r prev_att = Some (DB_OBJECT (last (fst hb # as)))" "att sa r next_att = Some (DB_MAKE_OBJECT (link sa next_att r))"
    using dll_middle [OF d] by (auto simp: relation_ok_def link_att)
  have "has_type DB_TYPE_OBJECT (DB_MAKE_OBJECT (link sa next_att r)) \<or> DB_MAKE_OBJECT (link sa next_att r) = DB_NULL"
    by (cases "link sa next_att r") simp_all
  then have g: "Udb_Get_Value db r prev_att DB_TYPE_OBJECT (database w) = Done (DB_OBJECT (last (fst hb # as)))"
    "Udb_Get_Value db r next_att DB_TYPE_OBJECT (database w) = Done (DB_MAKE_OBJECT (link sa next_att r))"
    using Udb_Get_Value_runs [OF ok k at(1) [unfolded sa_def], of DB_TYPE_OBJECT] Udb_Get_Value_runs [OF ok k at(2) [unfolded sa_def], of DB_TYPE_OBJECT]
    by (simp_all add: sa_def)
  have rm: "remove1 r (L hb) = as @ bs" using L by (simp add: remove1_append)
  have fin: "runs (case newrhs of Some newrhs \<Rightarrow> Build_Relation db (dbt_edit_object r) newrhs (snd hb) w1
      | None \<Rightarrow> Udb_Append_Free_List db k (dbt_edit_object r) (Some lhs_att) w1) Q"
    if e1: "env_ok view w1" and u: "unlinked sa (if as = [] then hb else (last as, next_att)) (last (fst hb # as)) (link sa next_att r) (view (database w1))"
    for w1 :: "('s, 'o, 'm) udb_scheme"
  proof -
    note s1 = unlinked_rel_state [OF st' hb L(1) kr u]
    have c1: "cls (view (database w1)) r = Some k" using u kr by (simp add: unlinked_def)
    show ?thesis
    proof (cases newrhs)
      case None
      have kc: "rel_class schema unique (view (database w1)) K (F k) k" using s1(1) kK by (simp add: rel_state_def)
      have "runs (Udb_Append_Free_List db k (dbt_edit_object r) (Some lhs_att) w1) Q"
      proof (rule free_runs [OF ok e1 rel_class_in(3) [OF s1(1) kK] _ c1])
        fix w2 :: "('s, 'o, 'm) udb_scheme"
        assume e2: "env_ok view w2" and f: "freed (view (database w1)) k (F k) (Some lhs_att) r (view (database w2))"
        show "Q w2" by (rule Q [OF e2]) (use freed_rel_state [OF s1(1) kK s1(2) c1 f] None rm in \<open>simp add: moved_def\<close>)
      qed (use kc spare_apart(4) [OF s1(1) kK s1(2) kK] in \<open>auto simp: rel_class_def\<close>)
      then show ?thesis using None by simp
    next
      case (Some h)
      have "runs (Build_Relation db (foldl (\<lambda>t (a, v). dbt_put t a v) (dbt_edit_object r) []) (fst (h, snd hb)) (snd (h, snd hb)) w1) Q"
      proof (rule Build_Relation_runs [OF ok e1 s1(1) new [OF Some] kK])
        fix x and w2 :: "('s, 'o, 'm) udb_scheme"
        assume a: "env_ok view w2" "rel_state schema unique K H ((L(hb := as @ bs))((h, snd hb) := x # (L(hb := as @ bs)) (h, snd hb))) F (view (database w2))"
          "\<And>y. dbt_edit_object r = dbt_edit_object y \<Longrightarrow> x = y"
        have "x = r" using a(3) by simp
        then show "Q w2" by (intro Q [OF a(1)]) (use a(2) Some rm in \<open>simp add: moved_def Let_def\<close>)
      qed (use c1 s1(2) in \<open>simp_all add: no_clash_def del: fun_upd_apply\<close>)
      then show ?thesis using Some by simp
    qed
  qed
  have "runs (if last (fst hb # as) \<noteq> fst hb then put_checked db (last (fst hb # as)) next_att (DB_MAKE_OBJECT (link sa next_att r)) w
      else put_checked db (last (fst hb # as)) (snd hb) (DB_MAKE_OBJECT (link sa next_att r)) w)
    (\<lambda>w1. runs (case link sa next_att r of None \<Rightarrow> Done w1 | Some n \<Rightarrow> put_checked db n prev_att (DB_OBJECT (last (fst hb # as))) w1)
      (\<lambda>w1. runs (case newrhs of Some newrhs \<Rightarrow> Build_Relation db (dbt_edit_object r) newrhs (snd hb) w1
        | None \<Rightarrow> Udb_Append_Free_List db k (dbt_edit_object r) (Some lhs_att) w1) Q))"
    unfolding sa_def by (rule unlink_runs [OF ok e st hb L(1)]) (use fin in \<open>simp add: sa_def\<close>)
  then show ?thesis unfolding Update_Relation_def runs_bind g runs_Done runs_check_some DB_GET_OBJECT.simps DB_MAKE_OBJECT_simps by (simp del: last.simps)
qed

section \<open>The operations on lists\<close>

text \<open>
  The calls of \<^verbatim>\<open>relation.c\<close> that change lists: a relation of class \<open>k\<close> from \<open>lhs\<close> to the item of \<open>hb\<close> is
  made, or the relation \<open>r\<close> of the list of \<open>hb\<close> is moved to another item or dropped.
\<close>

datatype 'o rel_call = Relate 'o 'o "'o \<times> cstr" | Redirect 'o "'o \<times> cstr" "'o option"

fun rel_call_run :: "('s, 'o) dbi \<Rightarrow> 'o rel_call \<Rightarrow> ('s, 'o, 'm) udb_scheme \<Rightarrow> ('s, 'o, 'm) udb_scheme c_run" where
  "rel_call_run db (Relate k lhs hb) w = New_Relation db k lhs (fst hb) (snd hb) w"
| "rel_call_run db (Redirect r hb new) w = Update_Relation db (db_get_class db r (database w)) r (fst hb) new (snd hb) w"

text \<open>When a call is allowed.  A unique \<open>lhs\<close> attribute admits one relation of the class for an object.\<close>

fun rel_call_ok :: "('o \<Rightarrow> cstr \<Rightarrow> bool) \<Rightarrow> 'o set \<Rightarrow> ('o \<times> cstr) set \<Rightarrow> ('o \<times> cstr \<Rightarrow> 'o list) \<Rightarrow> 'o store \<Rightarrow> 'o rel_call \<Rightarrow> bool" where
  "rel_call_ok unique K H L st (Relate k lhs hb) \<longleftrightarrow>
     hb \<in> H \<and> k \<in> K \<and> (unique k lhs_att \<longrightarrow> (\<forall>y. cls st y = Some k \<longrightarrow> att st y lhs_att \<noteq> Some (DB_OBJECT lhs)))"
| "rel_call_ok unique K H L st (Redirect r hb new) \<longleftrightarrow> hb \<in> H \<and> r \<in> set (L hb) \<and> (\<forall>h. new = Some h \<longrightarrow> (h, snd hb) \<in> H)"

text \<open>The abstract operations: insertion at the front of a list of an object that is in none, removal, and both.\<close>

inductive list_step :: "('o \<times> cstr) set \<Rightarrow> ('o \<times> cstr \<Rightarrow> 'o list) \<Rightarrow> 'o rel_call \<Rightarrow> ('o \<times> cstr \<Rightarrow> 'o list) \<Rightarrow> bool" for H where
  step_relate: "\<forall>hb\<in>H. x \<notin> set (L hb) \<Longrightarrow> list_step H L (Relate k lhs hb) (L(hb := x # L hb))"
| step_drop: "list_step H L (Redirect r hb None) (L(hb := remove1 r (L hb)))"
| step_move: "M = L(hb := remove1 r (L hb)) \<Longrightarrow> list_step H L (Redirect r hb (Some h)) (M((h, snd hb) := r # M (h, snd hb)))"

lemma list_step_moved: "list_step H L (Redirect r hb new) (moved r hb new L)"
proof (cases new)
  case (Some h)
  show ?thesis using step_move [OF refl, of H L r hb h] unfolding Some moved_def Let_def option.case .
qed (simp add: moved_def step_drop)

text \<open>C6: The doubly linked lists that \<^verbatim>\<open>New_Relation\<close> and \<^verbatim>\<open>Update_Relation\<close> keep in the database refine lists of relation
  objects per item.  In a database whose relation objects form well-linked lists (\<open>rel_state\<close>: the back pointer attribute of each
  item heads the list of the relations whose \<^verbatim>\<open>rhs\<close> it is, \<^verbatim>\<open>next\<close> and \<^verbatim>\<open>prev\<close> agree, no object is in two lists or
  both in use and free), each call ends without an error, does to the lists what the abstract operation does (a relation
  object that is in no list is put at the front; a relation leaves the list it is in, and joins the front of another or goes to
  the free list), and leaves all lists of all items well linked.
\<close>

theorem relation_lists_refine:
  fixes w :: "('s, 'o, 'm) udb_scheme"
  assumes "dbi_ok db view schema unique" "env_ok view w" "rel_state schema unique K H L F (view (database w))"
    "rel_call_ok unique K H L (view (database w)) call"
  shows "\<exists>w' L' F'. rel_call_run db call w = Done w' \<and> env_ok view w' \<and> list_step H L call L' \<and> rel_state schema unique K H L' F' (view (database w'))"
proof -
  have "runs (rel_call_run db call w) (\<lambda>w'. \<exists>L' F'. env_ok view w' \<and> list_step H L call L' \<and> rel_state schema unique K H L' F' (view (database w')))"
  proof (cases call)
    case (Relate k lhs hb)
    show ?thesis unfolding Relate rel_call_run.simps
      by (rule New_Relation_runs [OF assms(1-3), of hb k lhs]) (use assms(4) in \<open>auto simp: Relate intro!: step_relate exI simp del: fun_upd_apply\<close>)
  next
    case (Redirect r hb new)
    then have c: "hb \<in> H" "r \<in> set (L hb)" "\<And>h. new = Some h \<Longrightarrow> (h, snd hb) \<in> H" using assms(4) by simp_all
    obtain k where k: "cls (view (database w)) r = Some k" using in_list_class [OF assms(3) c(1,2)] by auto
    have "k \<in> K" using in_list_class [OF assms(3) c(1,2)] k by auto
    then have "db_get_class db r (database w) = k" by (intro dbi_reads(2) [OF assms(1) k] rel_class_in(1) [OF assms(3)])
    then have r: "rel_call_run db (Redirect r hb new) w = Update_Relation db k r (fst hb) new (snd hb) w" by simp
    show ?thesis unfolding Redirect r
      by (rule Update_Relation_runs [OF assms(1-3) c(1,2) k c(3)]) (assumption | rule list_step_moved | rule exI conjI)+
  qed
  then show ?thesis unfolding runs_def by blast
qed

text \<open>
  A database with a class of relations (1), two groups (3, 4) whose \<^verbatim>\<open>members\<close> attribute heads the list of memberships, and a
  person (5): the group 3 has the membership 6 and another one is made.
\<close>

definition groups_schema :: "nat \<Rightarrow> cstr list" where
  "groups_schema c =
     (if c = 1 then [lhs_att, rhs_att, prev_att, next_att, nextfree] else if c = 2 then [cstr ''members''] else [nextfree])"

definition groups_db :: mem where
  "groups_db =
     \<lparr>mclasses = [(cstr ''membership'', 1), (cstr ''group'', 2)], mobjects = [(1, 9), (3, 2), (4, 2), (5, 8), (6, 1)],
      mvalues = (\<lambda>x a. if x = 3 then DB_OBJECT 6
        else if x = 6 \<and> a = lhs_att then DB_OBJECT 5 else if x = 6 \<and> (a = rhs_att \<or> a = prev_att) then DB_OBJECT 3 else DB_NULL)\<rparr>"

abbreviation groups_lists :: "nat \<times> cstr \<Rightarrow> nat list" where "groups_lists hb \<equiv> if fst hb = 3 then [6] else []"
abbreviation groups_heads :: "(nat \<times> cstr) set" where "groups_heads \<equiv> {(3, cstr ''members''), (4, cstr ''members'')}"

lemma groups_rel_state:
  "rel_state (\<lambda>c. set (groups_schema c)) (\<lambda>c a. False) {1} groups_heads groups_lists (\<lambda>k. []) (mem_view groups_schema groups_db)"
proof -
  have n: "\<exists>p. DB_NULL = DB_MAKE_OBJECT p" by (metis DB_MAKE_OBJECT_simps(7))
  show ?thesis
    by (simp add: rel_state_def rel_class_def class_object_def free_list_def rel_list_def relation_ok_def link_def groups_db_def groups_schema_def n)
      (simp add: cstr_def n)
qed

theorem relation_lists_refine_witness:
  "\<exists>w' L' F'. rel_call_run (mem_dbi groups_schema (\<lambda>c a. False)) (Relate 1 5 (3, cstr ''members'')) (udb_start groups_db) = Done w' \<and>
     env_ok (mem_view groups_schema) w' \<and> list_step groups_heads groups_lists (Relate 1 5 (3, cstr ''members'')) L' \<and>
     rel_state (\<lambda>c. set (groups_schema c)) (\<lambda>c a. False) {1} groups_heads L' F' (mem_view groups_schema (database w'))"
proof (rule relation_lists_refine [OF mem_dbi_ok])
  show "env_ok (mem_view groups_schema) (udb_start groups_db)" by (simp add: env_ok_def class_cache_ok_def udb_start_def)
  have d: "database (udb_start groups_db) = groups_db" by (simp add: udb_start_def)
  show "rel_state (\<lambda>c. set (groups_schema c)) (\<lambda>c a. False) {1} groups_heads groups_lists (\<lambda>k. []) (mem_view groups_schema (database (udb_start groups_db)))"
    unfolding d by (rule groups_rel_state)
qed simp

end
