(* ===== verification/LoopCheck.thy ===== *)
theory LoopCheck
  imports Relations MemDbi
begin

text \<open>
  The loop checks of \<^verbatim>\<open>libudb/relation.c\<close>: on a finite set of items closed under an attribute they end, they accept exactly when
  no loop can be reached from a recorded item, and the identifiers they report are those of the items on a loop.
\<close>

section \<open>The graph of an attribute\<close>

text \<open>The items that an item points to.\<close>

definition scalar_succs :: "('s, 'o) dbi \<Rightarrow> 's \<Rightarrow> cstr \<Rightarrow> 'o \<Rightarrow> 'o list" where
  "scalar_succs db s aname x =
     (case db_get db x aname s of NOERROR v \<Rightarrow> (case DB_GET_OBJECT v of None \<Rightarrow> [] | Some y \<Rightarrow> [y]) | _ \<Rightarrow> [])"

definition col_item :: "('s, 'o) dbi \<Rightarrow> 's \<Rightarrow> 'o db_collection \<Rightarrow> nat \<Rightarrow> 'o option" where
  "col_item db s col i = (case Udb_Get_Collection_Value db col i DB_TYPE_OBJECT s of Done v \<Rightarrow> DB_GET_OBJECT v | _ \<Rightarrow> None)"

definition collection_succs :: "('s, 'o) dbi \<Rightarrow> 's \<Rightarrow> cstr \<Rightarrow> 'o \<Rightarrow> 'o list" where
  "collection_succs db s aname x =
     (case db_get db x aname s of
        NOERROR v \<Rightarrow> (case DB_GET_COLLECTION v of None \<Rightarrow> [] | Some col \<Rightarrow> List.map_filter (col_item db s col) [0..<db_col_size db col s])
      | _ \<Rightarrow> [])"

definition succs :: "('s, 'o) dbi \<Rightarrow> 's \<Rightarrow> cstr \<Rightarrow> db_type \<Rightarrow> 'o \<Rightarrow> 'o list" where
  "succs db s aname atype =
     (if atype = DB_TYPE_SET \<or> atype = DB_TYPE_SEQUENCE then collection_succs db s aname else scalar_succs db s aname)"

fun walk :: "('o \<Rightarrow> 'o list) \<Rightarrow> 'o \<Rightarrow> 'o list \<Rightarrow> 'o \<Rightarrow> bool" where
  "walk f x [] z \<longleftrightarrow> z \<in> set (f x)"
| "walk f x (y # ys) z \<longleftrightarrow> y \<in> set (f x) \<and> walk f y ys z"

definition edges :: "('o \<Rightarrow> 'o list) \<Rightarrow> ('o \<times> 'o) set" where
  "edges f = {(x, y). y \<in> set (f x)}"

text \<open>No loop is reached from \<open>x\<close>.\<close>

definition loop_free :: "('o \<Rightarrow> 'o list) \<Rightarrow> 'o \<Rightarrow> bool" where
  "loop_free f x \<longleftrightarrow> (\<forall>y ys. (x, y) \<in> (edges f)\<^sup>* \<longrightarrow> \<not> walk f y ys y)"

text \<open>The items are well formed: the attribute of each is absent, null or points to items of the set, and each has an
  identifier.\<close>

definition scalar_ok :: "('s, 'o) dbi \<Rightarrow> 's \<Rightarrow> cstr \<Rightarrow> 'o set \<Rightarrow> 'o \<Rightarrow> bool" where
  "scalar_ok db s aname N x \<longleftrightarrow>
     (case db_get db x aname s of
        NOERROR v \<Rightarrow> v = DB_NULL \<or> (\<exists>y\<in>N. v = DB_OBJECT y)
      | ER_OBJ_INVALID_ATTRIBUTE \<Rightarrow> True | ER_OTHER \<Rightarrow> False)"

definition collection_ok :: "('s, 'o) dbi \<Rightarrow> 's \<Rightarrow> cstr \<Rightarrow> 'o set \<Rightarrow> 'o \<Rightarrow> bool" where
  "collection_ok db s aname N x \<longleftrightarrow>
     (case db_get db x aname s of
        NOERROR v \<Rightarrow> v = DB_NULL \<or>
          (\<exists>col. DB_GET_COLLECTION v = Some col \<and>
             (\<forall>i<db_col_size db col s. \<exists>y\<in>N. Udb_Get_Collection_Value db col i DB_TYPE_OBJECT s = Done (DB_OBJECT y)))
      | ER_OBJ_INVALID_ATTRIBUTE \<Rightarrow> True | ER_OTHER \<Rightarrow> False)"

definition graph_ok :: "('s, 'o) dbi \<Rightarrow> 's \<Rightarrow> cstr \<Rightarrow> db_type \<Rightarrow> 'o set \<Rightarrow> ('o \<Rightarrow> cstr) \<Rightarrow> bool" where
  "graph_ok db s aname atype N uuid \<longleftrightarrow>
     finite N \<and> (\<forall>x\<in>N. Udb_Get_Uuid db (Some x) s = Done (uuid x) \<and>
       (if atype = DB_TYPE_SET \<or> atype = DB_TYPE_SEQUENCE then collection_ok db s aname N x else scalar_ok db s aname N x))"

section \<open>Loops\<close>

lemma walk_append: "walk f x ys y \<Longrightarrow> walk f y zs z \<Longrightarrow> walk f x (ys @ y # zs) z"
  by (induction ys arbitrary: x) auto

lemma walk_reach: "walk f x ys z \<Longrightarrow> (x, z) \<in> (edges f)\<^sup>+"
proof (induction ys arbitrary: x)
  case (Cons y ys)
  then have "(x, y) \<in> edges f" "(y, z) \<in> (edges f)\<^sup>+" by (auto simp: edges_def)
  then show ?case by (rule trancl_into_trancl2)
qed (auto simp: edges_def)

lemma reach_walk: "(x, y) \<in> (edges f)\<^sup>* \<Longrightarrow> x = y \<or> (\<exists>ys. walk f x ys y)"
proof (induction rule: converse_rtrancl_induct)
  case (step x z)
  then show ?case
    by (metis (no_types, lifting) case_prodD edges_def mem_Collect_eq walk.simps)
qed simp

text \<open>An item from whose successors no loop is reached is on no loop itself.\<close>

lemma loop_free_succs:
  assumes "\<And>y. y \<in> set (f x) \<Longrightarrow> loop_free f y"
  shows "loop_free f x"
  unfolding loop_free_def
proof (intro allI impI notI)
  fix y ys assume r: "(x, y) \<in> (edges f)\<^sup>*" and w: "walk f y ys y"
  show False
  proof (cases "x = y")
    case True
    obtain z where z: "z \<in> set (f x)" "(z, y) \<in> (edges f)\<^sup>*" using w True walk_reach by (cases ys) (force intro: trancl_into_rtrancl)+
    then show False using assms [OF z(1)] w by (auto simp: loop_free_def)
  next
    case False
    then obtain z where "z \<in> set (f x)" "(z, y) \<in> (edges f)\<^sup>*" using r by (auto elim: converse_rtranclE simp: edges_def)
    then show False using assms w by (auto simp: loop_free_def)
  qed
qed

lemma loop_free_succ: "loop_free f x \<Longrightarrow> y \<in> set (f x) \<Longrightarrow> loop_free f y"
proof -
  assume l: "loop_free f x" and y: "y \<in> set (f x)"
  have "(x, z) \<in> (edges f)\<^sup>*" if "(y, z) \<in> (edges f)\<^sup>*" for z
    using that y by (auto simp: edges_def intro: converse_rtrancl_into_rtrancl)
  then show "loop_free f y" using l by (auto simp: loop_free_def)
qed

section \<open>One search\<close>

text \<open>What a search from \<open>x\<close> with the items \<open>P\<close> on the path gives: no loop, or the items of a loop as far as it has been
  unwound.\<close>

definition searched :: "('o \<Rightarrow> 'o list) \<Rightarrow> ('o \<Rightarrow> cstr) \<Rightarrow> 'o set \<Rightarrow> 'o set \<Rightarrow> 'o \<Rightarrow> 'o option \<times> cstr list \<times> 'o set \<Rightarrow> bool" where
  "searched f uuid V P x r \<longleftrightarrow>
     (case r of (leaf, us, V') \<Rightarrow>
        (\<forall>v\<in>V'. loop_free f v) \<and>
        (case leaf of
           None \<Rightarrow> x \<in> V'
         | Some l \<Rightarrow> \<not> loop_free f x \<and> (x, l) \<in> (edges f)\<^sup>* \<and> (\<exists>ys. walk f (if l \<in> P then x else l) ys l \<and> us = uuid l # map uuid (rev ys))))"

lemma searched_back:
  assumes "\<And>v. v \<in> V \<Longrightarrow> loop_free f v" "y \<in> set (f x)" "y \<in> P" "(y, x) \<in> (edges f)\<^sup>*"
  shows "searched f uuid V P x (Some y, [uuid y], V)"
proof -
  have "\<not> loop_free f x"
  proof
    assume "loop_free f x"
    then have l: "loop_free f y" using assms(2) by (rule loop_free_succ)
    obtain ys where "walk f y ys y"
      using reach_walk [OF assms(4)] assms(2) walk_append [of f y _ x "[]" y] by (metis walk.simps(1))
    then show False using l by (auto simp: loop_free_def)
  qed
  moreover have "walk f x [] y" "(x, y) \<in> (edges f)\<^sup>*" using assms(2) by (auto simp: edges_def)
  ultimately show ?thesis using assms(1,3) by (auto simp: searched_def intro!: exI [of _ "[]"])
qed

lemma searched_unwind:
  assumes "searched f uuid V (insert y P) y (Some l, us, V')" "y \<in> set (f x)" "y \<notin> P"
  shows "searched f uuid V P x (Some l, if l \<in> P then us @ [uuid y] else us, V')"
proof -
  obtain ys where ys: "walk f (if l \<in> insert y P then y else l) ys l" "us = uuid l # map uuid (rev ys)" and n: "\<not> loop_free f y" "(y, l) \<in> (edges f)\<^sup>*"
    and V: "\<forall>v\<in>V'. loop_free f v"
    using assms(1) by (auto simp: searched_def)
  have "(x, y) \<in> edges f" using assms(2) by (simp add: edges_def)
  then have nx: "\<not> loop_free f x" "(x, l) \<in> (edges f)\<^sup>*" using n loop_free_succ assms(2) by (metis, metis converse_rtrancl_into_rtrancl)
  show ?thesis
  proof (cases "l \<in> P")
    case True
    then have "walk f x (y # ys) l" "us @ [uuid y] = uuid l # map uuid (rev (y # ys))" using ys assms(2) by simp_all
    then show ?thesis using True nx V unfolding searched_def by (auto simp del: walk.simps)
  next
    case False
    then have "walk f l ys l" using ys(1) by (cases "l = y") auto
    then show ?thesis using False ys(2) nx V by (auto simp: searched_def)
  qed
qed

lemma searched_none:
  assumes "\<And>v. v \<in> V \<Longrightarrow> loop_free f v" "\<And>y. y \<in> set (f x) \<Longrightarrow> loop_free f y"
  shows "searched f uuid V0 P x (None, us, insert x V)"
  using assms loop_free_succs [of f x] by (auto simp: searched_def)

lemma fuel_step: "finite N \<Longrightarrow> y \<in> N \<Longrightarrow> y \<notin> P \<Longrightarrow> card (N - P) \<le> n \<Longrightarrow> card (N - insert y P) < n"
  by (metis (no_types, lifting) DiffI Diff_insert card_Diff1_less finite_Diff order_less_le_trans)

lemma Scalar_Loop_Leaf_searched:
  assumes g: "finite N" "\<And>x. x \<in> N \<Longrightarrow> Udb_Get_Uuid db (Some x) s = Done (uuid x) \<and> scalar_ok db s aname N x"
    and "object \<in> N" "\<And>v. v \<in> V \<Longrightarrow> loop_free (scalar_succs db s aname) v" "card (N - P) < n"
    "\<And>p. p \<in> P \<Longrightarrow> (p, object) \<in> (edges (scalar_succs db s aname))\<^sup>*" "P \<subseteq> N"
  shows "\<exists>r. Scalar_Loop_Leaf n db s aname V P object us = Some (Done r) \<and> searched (scalar_succs db s aname) uuid V P object r"
  using assms(3-)
proof (induction n arbitrary: V P object us)
  case (Suc n)
  let ?f = "scalar_succs db s aname"
  have ok: "scalar_ok db s aname N object" using g(2) Suc.prems(1) by simp
  consider (ver) "object \<in> V" | (none) "object \<notin> V" "db_get db object aname s = ER_OBJ_INVALID_ATTRIBUTE \<or> db_get db object aname s = NOERROR DB_NULL"
    | (succ) y where "object \<notin> V" "y \<in> N" "db_get db object aname s = NOERROR (DB_OBJECT y)"
    using ok by (auto simp: scalar_ok_def split: db_reply.split_asm)
  then show ?case
  proof cases
    case ver
    then show ?thesis using Suc.prems(2) by (auto simp: searched_def)
  next
    case none
    then have "?f object = []" by (auto simp: scalar_succs_def)
    then have "searched ?f uuid V P object (None, us, insert object V)" by (intro searched_none) (use Suc.prems(2) in auto)
    then show ?thesis using none by auto
  next
    case succ
    have y: "?f object = [y]" using succ by (simp add: scalar_succs_def)
    show ?thesis
    proof (cases "y \<in> P")
      case True
      have "searched ?f uuid V P object (Some y, [uuid y], V)" by (rule searched_back) (use Suc.prems True y in auto)
      then show ?thesis using succ True g(2) by simp
    next
      case False
      have "\<exists>r. Scalar_Loop_Leaf n db s aname V (insert y P) y us = Some (Done r) \<and> searched ?f uuid V (insert y P) y r"
      proof (rule Suc.IH [OF succ(2)])
        show "card (N - insert y P) < n" using fuel_step [OF g(1) succ(2) False, of n] Suc.prems(3) by simp
        show "(p, y) \<in> (edges ?f)\<^sup>*" if "p \<in> insert y P" for p
          using that Suc.prems(4) [of p] y by (auto simp: edges_def intro: rtrancl_into_rtrancl)
      qed (use Suc.prems succ in auto)
      then obtain leaf us' V' where r: "Scalar_Loop_Leaf n db s aname V (insert y P) y us = Some (Done (leaf, us', V'))"
        "searched ?f uuid V (insert y P) y (leaf, us', V')" by (metis prod_cases3)
      show ?thesis
      proof (cases leaf)
        case None
        have "searched ?f uuid V P object (None, us', insert object V')"
          by (rule searched_none) (use r(2) None y in \<open>auto simp: searched_def\<close>)
        then show ?thesis using succ False r(1) None by simp
      next
        case (Some l)
        have "searched ?f uuid V P object (Some l, if l \<in> P then us' @ [uuid y] else us', V')"
          by (rule searched_unwind) (use r(2) Some y False in auto)
        then show ?thesis using succ False r(1) Some g(2) by (auto split: if_split_asm)
      qed
    qed
  qed
qed simp

lemma collection_items:
  assumes "db_get db x aname s = NOERROR v" "DB_GET_COLLECTION v = Some col"
    "\<And>i. i < db_col_size db col s \<Longrightarrow> Udb_Get_Collection_Value db col i DB_TYPE_OBJECT s = Done (DB_OBJECT (item i))"
  shows "set (collection_succs db s aname x) = item ` {..<db_col_size db col s}"
proof -
  have "col_item db s col i = Some (item i)" if "i < db_col_size db col s" for i using assms(3) that by (simp add: col_item_def)
  then have "set (List.map_filter (col_item db s col) [0..<db_col_size db col s]) = item ` {..<db_col_size db col s}"
    by (auto simp: List.map_filter_def image_iff)
  then show ?thesis using assms(1,2) by (simp add: collection_succs_def)
qed

lemma collection_scan_searched:
  assumes IH: "\<And>V Q y us. y \<in> N \<Longrightarrow> (\<And>v. v \<in> V \<Longrightarrow> loop_free f v) \<Longrightarrow> card (N - Q) < n \<Longrightarrow>
      (\<And>p. p \<in> Q \<Longrightarrow> (p, y) \<in> (edges f)\<^sup>*) \<Longrightarrow> Q \<subseteq> N \<Longrightarrow>
      \<exists>r. Collection_Loop_Leaf n db s aname V Q y us = Some (Done r) \<and> searched f uuid V Q y r"
    and N: "finite N" "\<And>x. x \<in> N \<Longrightarrow> Udb_Get_Uuid db (Some x) s = Done (uuid x)"
    and item: "\<And>i. i < cnt \<Longrightarrow> item i \<in> N \<and> Udb_Get_Collection_Value db col i DB_TYPE_OBJECT s = Done (DB_OBJECT (item i))"
    and f: "set (f object) = item ` {..<cnt}"
    and P: "card (N - P) \<le> n" "\<And>p. p \<in> P \<Longrightarrow> (p, object) \<in> (edges f)\<^sup>*" "P \<subseteq> N"
    and "i + k = cnt" "\<And>v. v \<in> V \<Longrightarrow> loop_free f v" "\<And>j. j < i \<Longrightarrow> loop_free f (item j)"
  shows "\<exists>r. collection_scan n db s aname V P object col i k us = Some (Done r) \<and> searched f uuid V P object r"
  using assms(9-)
proof (induction k arbitrary: i V us)
  case 0
  have "searched f uuid V P object (None, us, insert object V)" by (rule searched_none) (use 0 f in auto)
  then show ?case by simp
next
  case (Suc k)
  have i: "i < cnt" using Suc.prems(1) by simp
  note it = item [OF i]
  have e: "item i \<in> set (f object)" using f i by simp
  show ?case
  proof (cases "item i \<in> P")
    case True
    have "searched f uuid V P object (Some (item i), [uuid (item i)], V)" by (rule searched_back) (use Suc.prems e P True in auto)
    then show ?thesis using True it N(2) by (simp add: check_some_def)
  next
    case False
    have "\<exists>r. Collection_Loop_Leaf n db s aname V (insert (item i) P) (item i) us = Some (Done r) \<and> searched f uuid V (insert (item i) P) (item i) r"
    proof (rule IH)
      show "card (N - insert (item i) P) < n" using fuel_step [OF N(1) _ False P(1)] it by simp
      show "(p, item i) \<in> (edges f)\<^sup>*" if "p \<in> insert (item i) P" for p
        using that P(2) [of p] e by (auto simp: edges_def intro: rtrancl_into_rtrancl)
    qed (use Suc.prems it P in auto)
    then obtain leaf us' V' where r: "Collection_Loop_Leaf n db s aname V (insert (item i) P) (item i) us = Some (Done (leaf, us', V'))"
      "searched f uuid V (insert (item i) P) (item i) (leaf, us', V')" by (metis prod_cases3)
    show ?thesis
    proof (cases leaf)
      case None
      have V': "\<And>v. v \<in> V' \<Longrightarrow> loop_free f v" "loop_free f (item i)" using r(2) None by (auto simp: searched_def)
      have "\<exists>r. collection_scan n db s aname V' P object col (i + 1) k us' = Some (Done r) \<and> searched f uuid V' P object r"
        by (rule Suc.IH) (use Suc.prems V' in \<open>auto simp: less_Suc_eq\<close>)
      moreover have "searched f uuid V' P object r = searched f uuid V P object r" for r by (simp add: searched_def)
      ultimately show ?thesis using False it r(1) None by (simp add: check_some_def)
    next
      case (Some l)
      have "searched f uuid V P object (Some l, if l \<in> P then us' @ [uuid (item i)] else us', V')"
        by (rule searched_unwind) (use r(2) Some e False in auto)
      then show ?thesis using False it r(1) Some N(2) by (auto simp: check_some_def split: if_split_asm)
    qed
  qed
qed

lemma Collection_Loop_Leaf_searched:
  assumes g: "finite N" "\<And>x. x \<in> N \<Longrightarrow> Udb_Get_Uuid db (Some x) s = Done (uuid x) \<and> collection_ok db s aname N x"
    and "object \<in> N" "\<And>v. v \<in> V \<Longrightarrow> loop_free (collection_succs db s aname) v" "card (N - P) < n"
    "\<And>p. p \<in> P \<Longrightarrow> (p, object) \<in> (edges (collection_succs db s aname))\<^sup>*" "P \<subseteq> N"
  shows "\<exists>r. Collection_Loop_Leaf n db s aname V P object us = Some (Done r) \<and> searched (collection_succs db s aname) uuid V P object r"
  using assms(3-)
proof (induction n arbitrary: V P object us)
  case (Suc n)
  let ?f = "collection_succs db s aname"
  have ok: "collection_ok db s aname N object" using g(2) Suc.prems(1) by simp
  consider (ver) "object \<in> V" | (none) "object \<notin> V" "db_get db object aname s = ER_OBJ_INVALID_ATTRIBUTE \<or> db_get db object aname s = NOERROR DB_NULL"
    | (col) v col where "object \<notin> V" "db_get db object aname s = NOERROR v" "v \<noteq> DB_NULL" "DB_GET_COLLECTION v = Some col"
        "\<forall>i<db_col_size db col s. \<exists>y\<in>N. Udb_Get_Collection_Value db col i DB_TYPE_OBJECT s = Done (DB_OBJECT y)"
    using ok by (auto simp: collection_ok_def split: db_reply.split_asm)
  then show ?case
  proof cases
    case ver
    then show ?thesis using Suc.prems(2) by (auto simp: searched_def)
  next
    case none
    then have "?f object = []" by (auto simp: collection_succs_def)
    then have "searched ?f uuid V P object (None, us, insert object V)" by (intro searched_none) (use Suc.prems(2) in auto)
    then show ?thesis using none by auto
  next
    case col
    obtain item where item: "\<And>i. i < db_col_size db col s \<Longrightarrow> item i \<in> N \<and> Udb_Get_Collection_Value db col i DB_TYPE_OBJECT s = Done (DB_OBJECT (item i))"
      using col(5) by metis
    have "\<exists>r. collection_scan n db s aname V P object col 0 (db_col_size db col s) us = Some (Done r) \<and> searched ?f uuid V P object r"
    proof (rule collection_scan_searched [OF Suc.IH g(1) _ item])
      show "set (?f object) = item ` {..<db_col_size db col s}" by (rule collection_items [OF col(2,4)]) (use item in blast)
      show "card (N - P) \<le> n" using Suc.prems(3) by simp
    qed (use Suc.prems g(2) in auto)
    then show ?thesis using col by simp
  qed
qed simp

section \<open>All checks\<close>

lemma Loop_Leaf_searched:
  assumes g: "graph_ok db s aname atype N uuid" and x: "object \<in> N" and V: "\<And>v. v \<in> V \<Longrightarrow> loop_free (succs db s aname atype) v" and n: "card N \<le> n"
  shows "\<exists>r. Loop_Leaf n db s aname atype V object = Some (Done r) \<and> searched (succs db s aname atype) uuid V {object} object r"
proof -
  have N: "finite N" "card (N - {object}) < n" using g fuel_step [of N object "{}" n] x n by (auto simp: graph_ok_def)
  show ?thesis
  proof (cases "atype = DB_TYPE_SET \<or> atype = DB_TYPE_SEQUENCE")
    case True
    then have "succs db s aname atype = collection_succs db s aname" by (simp add: succs_def)
    then show ?thesis using Collection_Loop_Leaf_searched [of N db s uuid aname object V "{object}" n "[]"] g x V N True
      by (auto simp: Loop_Leaf_def graph_ok_def)
  next
    case False
    then have "succs db s aname atype = scalar_succs db s aname" by (simp add: succs_def)
    then show ?thesis using Scalar_Loop_Leaf_searched [of N db s uuid aname object V "{object}" n "[]"] g x V N False
      by (auto simp: Loop_Leaf_def graph_ok_def)
  qed
qed

text \<open>An error of the loop checks names the attribute and the items of a loop in their order.\<close>

definition reports_loop :: "('s, 'o) dbi \<Rightarrow> (cstr \<Rightarrow> cstr \<Rightarrow> cstr) \<Rightarrow> 's \<Rightarrow> (cstr \<Rightarrow> 'o \<Rightarrow> cstr) \<Rightarrow> (cstr \<times> db_type option \<times> 'o list) list \<Rightarrow> cstr tcl_result \<Rightarrow> bool" where
  "reports_loop db elem s uuid es r \<longleftrightarrow>
     (\<exists>aname atype xs x l ys. (aname, Some atype, xs) \<in> set es \<and> x \<in> set xs \<and> (x, l) \<in> (edges (succs db s aname atype))\<^sup>* \<and>
        walk (succs db s aname atype) l ys l \<and> r = Udb_Error ''ELOOP'' [aname, foldl elem [] (map (uuid aname) (l # rev ys))])"

definition all_loop_free :: "('s, 'o) dbi \<Rightarrow> 's \<Rightarrow> (cstr \<times> db_type option \<times> 'o list) list \<Rightarrow> bool" where
  "all_loop_free db s es \<longleftrightarrow> (\<forall>(aname, type, xs)\<in>set es. \<forall>x\<in>set xs. loop_free (succs db s aname (the type)) x)"

lemma reports_loop_mono: "reports_loop db elem s uuid es r \<Longrightarrow> set es \<subseteq> set fs \<Longrightarrow> reports_loop db elem s uuid fs r"
  unfolding reports_loop_def by (elim exE conjE, intro exI conjI) (rule subsetD, assumption+)

lemma loop_objects_spec:
  assumes g: "graph_ok db s aname atype N uuid" and n: "card N \<le> n"
    and "set xs \<subseteq> N" "\<And>v. v \<in> V \<Longrightarrow> loop_free (succs db s aname atype) v"
  shows "\<exists>r. loop_objects n db elem s aname atype V xs = Some (Done r) \<and>
    (if \<forall>x\<in>set xs. loop_free (succs db s aname atype) x then r = Tcl_Ok []
     else \<exists>x\<in>set xs. \<exists>l ys. (x, l) \<in> (edges (succs db s aname atype))\<^sup>* \<and> walk (succs db s aname atype) l ys l \<and>
       r = Udb_Error ''ELOOP'' [aname, foldl elem [] (map uuid (l # rev ys))])"
  using assms(3-)
proof (induction xs arbitrary: V)
  case (Cons x xs)
  let ?f = "succs db s aname atype"
  have "\<exists>r. Loop_Leaf n db s aname atype V x = Some (Done r) \<and> searched ?f uuid V {x} x r"
    by (rule Loop_Leaf_searched [OF g _ _ n]) (use Cons.prems in auto)
  then obtain leaf us V' where r: "Loop_Leaf n db s aname atype V x = Some (Done (leaf, us, V'))" "searched ?f uuid V {x} x (leaf, us, V')"
    by (metis prod_cases3)
  show ?case
  proof (cases leaf)
    case None
    then have V': "\<And>v. v \<in> insert x V' \<Longrightarrow> loop_free ?f v" using r(2) by (auto simp: searched_def)
    obtain q where q: "loop_objects n db elem s aname atype (insert x V') xs = Some (Done q)"
      "if \<forall>x\<in>set xs. loop_free ?f x then q = Tcl_Ok []
       else \<exists>x\<in>set xs. \<exists>l ys. (x, l) \<in> (edges ?f)\<^sup>* \<and> walk ?f l ys l \<and> q = Udb_Error ''ELOOP'' [aname, foldl elem [] (map uuid (l # rev ys))]"
      using Cons.IH [of "insert x V'"] Cons.prems(1) V' by auto
    have eq: "(\<forall>y\<in>set (x # xs). loop_free ?f y) \<longleftrightarrow> (\<forall>y\<in>set xs. loop_free ?f y)" using V' [of x] by simp
    have "loop_objects n db elem s aname atype V (x # xs) = Some (Done q)" using r(1) None q(1) by simp
    then show ?thesis using q(2) unfolding eq by (intro exI [of _ q]) (auto split: if_split_asm)
  next
    case (Some l)
    then obtain ys where l: "\<not> loop_free ?f x" "(x, l) \<in> (edges ?f)\<^sup>*" "walk ?f l ys l" "us = map uuid (l # rev ys)"
      using r(2) by (auto simp: searched_def split: if_split_asm)
    then show ?thesis using r(1) Some by auto
  qed
qed simp

lemma loop_attributes_spec:
  assumes "\<And>aname type xs. (aname, type, xs) \<in> set es \<Longrightarrow>
      \<exists>atype N. type = Some atype \<and> graph_ok db s aname atype N (uuid aname) \<and> card N \<le> n \<and> set xs \<subseteq> N"
  shows "\<exists>r es'. loop_attributes n db elem s es = Some (Done (r, es')) \<and>
    (if all_loop_free db s es then r = Tcl_Ok [] else reports_loop db elem s uuid es r)"
  using assms
proof (induction es)
  case (Cons e es)
  obtain aname type xs where e: "e = (aname, type, xs)" by (cases e)
  then obtain atype N where a: "type = Some atype" "graph_ok db s aname atype N (uuid aname)" "card N \<le> n" "set xs \<subseteq> N"
    using Cons.prems [of aname type xs] by auto
  let ?f = "succs db s aname atype"
  obtain r where r: "loop_objects n db elem s aname atype {} xs = Some (Done r)"
    "if \<forall>x\<in>set xs. loop_free ?f x then r = Tcl_Ok []
     else \<exists>x\<in>set xs. \<exists>l ys. (x, l) \<in> (edges ?f)\<^sup>* \<and> walk ?f l ys l \<and> r = Udb_Error ''ELOOP'' [aname, foldl elem [] (map (uuid aname) (l # rev ys))]"
    using loop_objects_spec [OF a(2,3,4), of "{}" elem] by auto
  show ?case
  proof (cases "\<forall>x\<in>set xs. loop_free ?f x")
    case True
    obtain r' es' where R: "loop_attributes n db elem s es = Some (Done (r', es'))"
      "if all_loop_free db s es then r' = Tcl_Ok [] else reports_loop db elem s uuid es r'"
      using Cons.IH Cons.prems by (metis list.set_intros(2))
    have "all_loop_free db s (e # es) \<longleftrightarrow> all_loop_free db s es" using True e a(1) by (auto simp: all_loop_free_def)
    moreover have "reports_loop db elem s uuid es r' \<Longrightarrow> reports_loop db elem s uuid (e # es) r'" by (rule reports_loop_mono) auto
    ultimately show ?thesis using R r True e a(1) by (auto simp: check_some_def)
  next
    case False
    then obtain x l ys where x: "x \<in> set xs" "(x, l) \<in> (edges ?f)\<^sup>*" "walk ?f l ys l" "r = Udb_Error ''ELOOP'' [aname, foldl elem [] (map (uuid aname) (l # rev ys))]"
      using r(2) unfolding if_not_P [OF False] by blast
    have "reports_loop db elem s uuid (e # es) r" unfolding reports_loop_def
      by (intro exI [of _ aname] exI [of _ atype] exI [of _ xs] exI [of _ x] exI [of _ l] exI [of _ ys]) (use x e a(1) in simp)
    moreover have "\<not> all_loop_free db s (e # es)" using False e a(1) by (auto simp: all_loop_free_def)
    ultimately show ?thesis using r(1) x(4) e a(1) by (simp add: check_some_def Udb_Error_def)
  qed
qed (simp add: all_loop_free_def)

section \<open>Property\<close>

text \<open>C12: on a finite set of items that is closed under the recorded attributes the loop checks at commit always end (the
  recursion is no deeper than the number of items), accept exactly when no loop can be reached from a recorded item,
  and otherwise report \<open>ELOOP\<close> with the identifiers of the items of a loop, in the order of the loop.\<close>

theorem loop_checks_decide:
  assumes "loopTable w = Some es"
    "\<And>aname type xs. (aname, type, xs) \<in> set es \<Longrightarrow>
      \<exists>atype N. type = Some atype \<and> graph_ok db (database w) aname atype N (uuid aname) \<and> card N \<le> n \<and> set xs \<subseteq> N"
  shows "\<exists>r w'. Udb_Do_Loop_Checks n db elem w = Some (Done (r, w')) \<and>
    (if all_loop_free db (database w) es then r = Tcl_Ok [] else reports_loop db elem (database w) uuid es r)"
proof -
  obtain r es' where R: "loop_attributes n db elem (database w) es = Some (Done (r, es'))"
    "if all_loop_free db (database w) es then r = Tcl_Ok [] else reports_loop db elem (database w) uuid es r"
    using loop_attributes_spec [of es db "database w" uuid n elem] assms(2) by blast
  then show ?thesis using assms(1) by (simp add: Udb_Do_Loop_Checks_def)
qed

text \<open>Three groups: the first is owned by the second, the second and the third by each other.\<close>

definition loop_db :: mem where
  "loop_db =
     \<lparr>mclasses = [(cstr ''group'', 9)], mobjects = [(1, 9), (2, 9), (3, 9)],
      mvalues = (\<lambda>x a. if a = cstr ''uuid'' then DB_STRING (cstr (if x = 1 then ''a'' else if x = 2 then ''b'' else ''c''))
                      else DB_OBJECT (if x = 2 then 3 else 2))\<rparr>"

definition loop_schema :: "nat \<Rightarrow> cstr list" where
  "loop_schema c = [cstr ''uuid'', cstr ''owner'']"

definition loop_world :: "(mem, nat) udb" where
  "loop_world = (udb_start loop_db)\<lparr>loopTable := Some [(cstr ''owner'', Some DB_TYPE_OBJECT, [1])]\<rparr>"

abbreviation loop_dbi :: "(mem, nat) dbi" where "loop_dbi \<equiv> mem_dbi loop_schema (\<lambda>c a. False)"

lemma loop_db_get:
  "db_get loop_dbi 1 (cstr ''owner'') loop_db = NOERROR (DB_OBJECT 2)" "db_get loop_dbi 2 (cstr ''owner'') loop_db = NOERROR (DB_OBJECT 3)"
  "db_get loop_dbi 3 (cstr ''owner'') loop_db = NOERROR (DB_OBJECT 2)"
  "Udb_Get_Uuid loop_dbi (Some 1) loop_db = Done (cstr ''a'')" "Udb_Get_Uuid loop_dbi (Some 2) loop_db = Done (cstr ''b'')"
  "Udb_Get_Uuid loop_dbi (Some 3) loop_db = Done (cstr ''c'')"
  by (simp_all add: mem_dbi_def loop_db_def loop_schema_def cstr_def Udb_Get_Uuid_def Udb_Get_Value_def Udb_Get_Value_opt_def check_some_def)

definition loop_uuid :: "nat \<Rightarrow> cstr" where
  "loop_uuid x = cstr (if x = 1 then ''a'' else if x = 2 then ''b'' else ''c'')"

lemma loop_graph: "graph_ok loop_dbi loop_db (cstr ''owner'') DB_TYPE_OBJECT {1, 2, 3} loop_uuid"
  using loop_db_get by (simp add: graph_ok_def scalar_ok_def loop_uuid_def)

lemma loop_not_free: "\<not> all_loop_free loop_dbi loop_db [(cstr ''owner'', Some DB_TYPE_OBJECT, [1])]"
proof -
  let ?f = "succs loop_dbi loop_db (cstr ''owner'') DB_TYPE_OBJECT"
  have "?f 1 = [2]" "?f 2 = [3]" "?f 3 = [2]" using loop_db_get by (simp_all add: succs_def scalar_succs_def)
  then have "(1, 2) \<in> (edges ?f)\<^sup>*" "walk ?f 2 [3] 2" by (auto simp: edges_def)
  then have "\<not> loop_free ?f 1" unfolding loop_free_def by blast
  then show ?thesis by (simp add: all_loop_free_def)
qed

theorem loop_checks_decide_witness:
  "\<exists>r w'. Udb_Do_Loop_Checks 3 loop_dbi (\<lambda>a b. a @ b) loop_world = Some (Done (r, w')) \<and>
     reports_loop loop_dbi (\<lambda>a b. a @ b) loop_db (\<lambda>a. loop_uuid) [(cstr ''owner'', Some DB_TYPE_OBJECT, [1])] r"
proof -
  have l: "loopTable loop_world = Some [(cstr ''owner'', Some DB_TYPE_OBJECT, [1])]" and d: "database loop_world = loop_db"
    by (simp_all add: loop_world_def udb_start_def)
  have "\<exists>N. graph_ok loop_dbi loop_db (cstr ''owner'') DB_TYPE_OBJECT N loop_uuid \<and> card N \<le> 3 \<and> 1 \<in> N"
    by (rule exI [of _ "{1, 2, 3}"]) (use loop_graph in simp)
  then show ?thesis
    using loop_checks_decide [OF l, of loop_dbi "\<lambda>a. loop_uuid" 3 "\<lambda>a b. a @ b"] loop_not_free unfolding d by auto
qed

end
