(* ===== verification/Transaction.thy ===== *)
theory Transaction
  imports Relations
begin

text \<open>
  Transactions: \<^verbatim>\<open>libudb/transaction.c\<close>.  A transaction collects changes and pending checks; a commit runs the checks, writes
  the new version and the log and makes the changes permanent, or everything is rolled back.

  \<open>eval\<close> is the evaluation of a Tcl script by the interpreter, \<open>change_schema\<close> and \<open>load_schema\<close> the two Tcl commands of the
  meta interpreter.  The time is the field \<open>now\<close>; an open log is a path whose contents grow, and writing to it
  succeeds (the program ends when it does not).
\<close>

record ('s, 'o) server = "('s, 'o) udb" +
  licenses :: license_state

definition Udb_CloseLog :: "('s, 'o, 'm) udb_scheme \<Rightarrow> ('s, 'o, 'm) udb_scheme" where
  "Udb_CloseLog w = w\<lparr>logFd := None\<rparr>"

definition Udb_OpenLog :: "('s, 'o) dbi \<Rightarrow> cstr \<Rightarrow> ('s, 'o, 'm) udb_scheme \<Rightarrow> ('s, 'o, 'm) udb_scheme c_run" where
  "Udb_OpenLog db logPrefix w =
     c_bind (if tx_class w = None then Load_Tran_Versions db w else Done w) (\<lambda>w.
       Done ((Udb_CloseLog w)\<lparr>logFd := Some (logPrefix @ cstr ''.'' @ fmt_ld (tx_dmajor w) @ cstr ''.'' @ fmt_ld (tx_dminor w))\<rparr>))"

definition log_entry :: "(cstr \<Rightarrow> cstr \<Rightarrow> cstr) \<Rightarrow> cstr option \<Rightarrow> ('s, 'o, 'm) udb_scheme \<Rightarrow> cstr" where
  "log_entry elem entry w =
     (let l = version_string (tx_dmajor w) (tx_dminor w) (tx_dmicro w) @ cstr '' '' @
              version_string (tx_smajor w) (tx_sminor w) (tx_smicro w) @ cstr '' '' @ fmt_ld (now w);
          l = elem l (clientName w);
          l = (case entry of None \<Rightarrow> l | Some e \<Rightarrow> elem l e)
      in l @ [10])"

definition WriteLog :: "(cstr \<Rightarrow> cstr \<Rightarrow> cstr) \<Rightarrow> cstr option \<Rightarrow> ('s, 'o, 'm) udb_scheme \<Rightarrow> ('s, 'o, 'm) udb_scheme" where
  "WriteLog elem entry w =
     (case logFd w of
        None \<Rightarrow> w
      | Some path \<Rightarrow> w\<lparr>logFile := (logFile w)(path := logFile w path @ log_entry elem entry w)\<rparr>)"

text \<open>The error is that of the interpreter, with its error code.\<close>

definition Udb_Force_Rollback :: "cstr list \<Rightarrow> cstr \<Rightarrow> ('s, 'o, 'm) udb_scheme \<Rightarrow> ('s, 'o, 'm) udb_scheme" where
  "Udb_Force_Rollback code msg w = (if force_rollback w then w else w\<lparr>force_rollback := True, saved_error := (code, msg)\<rparr>)"

definition Udb_Syscall ::
  "(cstr \<Rightarrow> ('s, 'o, 'm) udb_scheme \<Rightarrow> (cstr tcl_result \<times> ('s, 'o, 'm) udb_scheme) c_run option) \<Rightarrow> cstr list \<Rightarrow>
     ('s, 'o, 'm) udb_scheme \<Rightarrow> (cstr tcl_result \<times> ('s, 'o, 'm) udb_scheme) c_run option" where
  "Udb_Syscall eval argv w =
     (if length argv \<noteq> 2 then Some (Done (Udb_Error ''EUSAGE'' [hd argv, cstr ''script''], w))
      else if force_rollback w then Some (Done (Tcl_Error [] [], w))
      else
        let save = syscall_db_updated w
        in o_bind (eval (argv ! 1) (w\<lparr>syscall_db_updated := False\<rparr>)) (\<lambda>(result, w).
             let w = (case result of
                        Tcl_Ok r \<Rightarrow> w
                      | Tcl_Error code msg \<Rightarrow> if syscall_db_updated w then Udb_Force_Rollback code msg w else w)
             in Some (Done (result, w\<lparr>syscall_db_updated := save\<rparr>))))"

definition reset_checks :: "('o, 'i, ('s, 'o, 'm) udb_scheme) inet_calls \<Rightarrow> ('s, 'o, 'm) udb_scheme \<Rightarrow> ('s, 'o, 'm) udb_scheme" where
  "reset_checks inet w = Udb_Inet_Reset_Checks inet (Udb_Reset_Loop_Checks (Udb_Reset_Unique_Checks (Udb_Reset_Reference_Checks w)))"

definition Udb_Do_Rollback ::
  "('s, 'o) dbi \<Rightarrow> ('o, 'i, ('s, 'o, 'm) server_scheme) inet_calls \<Rightarrow> ('s, 'o, 'm) server_scheme \<Rightarrow> (cstr tcl_result \<times> ('s, 'o, 'm) server_scheme) c_run" where
  "Udb_Do_Rollback db inet w =
     (let w = w\<lparr>tx_class := None, new_tx_dmicro := False, new_tx_smicro := False\<rparr>
      in if \<not> force_rollback w \<and> \<not> tx_db_updated w then Done (Tcl_Ok [], Udb_Uncache_Items True False w)
         else
           let result = (if force_rollback w then Tcl_Error (fst (saved_error w)) (snd (saved_error w)) else Tcl_Ok []);
               w = Udb_Uncache_Items True False (reset_checks inet (w\<lparr>schema_modified := False, force_rollback := False\<rparr>));
               w = w\<lparr>licenses := Udb_Rollback_License_Limits (licenses w)\<rparr>
           in c_bind (check_some (db_abort_transaction db (database w))) (\<lambda>s. Done (result, w\<lparr>database := s\<rparr>)))"

definition Udb_Rollback ::
  "('s, 'o) dbi \<Rightarrow> ('o, 'i, ('s, 'o, 'm) server_scheme) inet_calls \<Rightarrow> ('s, 'o, 'm) server_scheme \<Rightarrow> (cstr tcl_result \<times> ('s, 'o, 'm) server_scheme) c_run" where
  "Udb_Rollback db inet w = Udb_Do_Rollback db inet w"

definition Udb_Transaction ::
  "('s, 'o) dbi \<Rightarrow> ('o, 'i, ('s, 'o, 'm) server_scheme) inet_calls \<Rightarrow> cstr list \<Rightarrow> ('s, 'o, 'm) server_scheme \<Rightarrow> (cstr tcl_result \<times> ('s, 'o, 'm) server_scheme) c_run" where
  "Udb_Transaction db inet argv w =
     (if length argv = 3 \<and> argv ! 1 = cstr ''-restore_mode''
      then c_bind (Udb_Do_Rollback db inet (w\<lparr>restore_mode := if argv ! 2 = cstr ''schema'' then RESTORESCHEMA else RESTOREDATA\<rparr>))
             (\<lambda>(r, w). Done (r, Udb_Server_Principal w))
      else if length argv \<noteq> 2 then Done (Udb_Error ''EUSAGE'' [hd argv, cstr ''clientName''], w)
      else c_bind (Udb_Do_Rollback db inet (w\<lparr>clientName := take 255 (argv ! 1)\<rparr>)) (\<lambda>(r, w). Done (r, Udb_Server_Principal w)))"

text \<open>The test of the arguments reads \<open>argv[1]\<close> when there is none.\<close>

definition Udb_Version :: "('s, 'o) dbi \<Rightarrow> cstr list \<Rightarrow> ('s, 'o, 'm) udb_scheme \<Rightarrow> (cstr tcl_result \<times> ('s, 'o, 'm) udb_scheme) c_run" where
  "Udb_Version db argv w =
     (if length argv < 2 then Overrun
      else if length argv \<noteq> 2 \<and> argv ! 1 \<noteq> cstr ''data'' \<and> argv ! 1 \<noteq> cstr ''schema''
      then Done (Udb_Error ''EUSAGE'' [hd argv, cstr ''data|schema''], w)
      else
        c_bind (if tx_class w = None then Load_Tran_Versions db w else Done w) (\<lambda>w.
          Done (Tcl_Ok (if argv ! 1 = cstr ''data'' then version_string (tx_dmajor w) (tx_dminor w) (tx_dmicro w)
                        else version_string (tx_smajor w) (tx_sminor w) (tx_smicro w)), w)))"

section \<open>Commit\<close>

text \<open>The micro version of the data and of the schema is raised when a change needs it.\<close>

definition raise_dmicro :: "('s, 'o) dbi \<Rightarrow> ('s, 'o, 'm) udb_scheme \<Rightarrow> ('s, 'o, 'm) udb_scheme c_run" where
  "raise_dmicro db w =
     (if new_tx_dmicro w
      then let m = int32 (tx_dmicro w + 1)
           in c_bind (check_some (tx_class w)) (\<lambda>c.
              c_bind (put_checked db c (cstr ''data_micro'') (DB_INTEGER m) (w\<lparr>tx_dmicro := m\<rparr>)) (\<lambda>w. Done (w\<lparr>new_tx_dmicro := False\<rparr>)))
      else Done w)"

definition raise_smicro :: "('s, 'o) dbi \<Rightarrow> ('s, 'o, 'm) udb_scheme \<Rightarrow> ('s, 'o, 'm) udb_scheme c_run" where
  "raise_smicro db w =
     (if new_tx_smicro w
      then let m = int32 (tx_smicro w + 1)
           in c_bind (check_some (tx_class w)) (\<lambda>c.
              c_bind (put_checked db c (cstr ''schema_micro'') (DB_INTEGER m) (w\<lparr>tx_smicro := m\<rparr>)) (\<lambda>w. Done (w\<lparr>new_tx_smicro := False\<rparr>)))
      else Done w)"

text \<open>The checks in their order, up to the first that fails.  \<open>n\<close> bounds the recursion of the loop checks.\<close>

fun run_checks ::
  "(('s, 'o, 'm) udb_scheme \<Rightarrow> (cstr tcl_result \<times> ('s, 'o, 'm) udb_scheme) c_run option) list \<Rightarrow> ('s, 'o, 'm) udb_scheme \<Rightarrow>
     (cstr tcl_result \<times> ('s, 'o, 'm) udb_scheme) c_run option" where
  "run_checks [] w = Some (Done (Tcl_Ok [], w))"
| "run_checks (chk # chks) w =
     o_bind (chk w) (\<lambda>(r, w). case r of Tcl_Ok _ \<Rightarrow> run_checks chks w | Tcl_Error code msg \<Rightarrow> Some (Done (r, w)))"

definition commit_checks ::
  "nat \<Rightarrow> ('s, 'o) dbi \<Rightarrow> ('o, 'i, ('s, 'o, 'm) udb_scheme) inet_calls \<Rightarrow> tclvar \<Rightarrow> (cstr \<Rightarrow> cstr \<Rightarrow> cstr) \<Rightarrow>
     ('s, 'o, 'm) udb_scheme \<Rightarrow> (cstr tcl_result \<times> ('s, 'o, 'm) udb_scheme) c_run option" where
  "commit_checks n db inet getvar elem w =
     run_checks
       ((if restore_mode w \<noteq> RESTOREDATA
         then [\<lambda>w. Some (Udb_Do_Reference_Checks db elem w), \<lambda>w. Some (Udb_Do_Unique_Checks db getvar w), Udb_Do_Loop_Checks n db elem] else []) @
        (if restore_mode w = NORESTORE then [Udb_Inet_Check_Integrity inet] else [])) w"

text \<open>A failed commit: the changes are rolled back and the error is given.\<close>

definition commit_fails ::
  "('s, 'o) dbi \<Rightarrow> ('o, 'i, ('s, 'o, 'm) server_scheme) inet_calls \<Rightarrow> cstr tcl_result \<Rightarrow> ('s, 'o, 'm) server_scheme \<Rightarrow> (cstr tcl_result \<times> ('s, 'o, 'm) server_scheme) c_run" where
  "commit_fails db inet r w =
     c_bind (Udb_Do_Rollback db inet w) (\<lambda>(r', w). Done (case r' of Tcl_Ok _ \<Rightarrow> r | Tcl_Error code msg \<Rightarrow> r', w))"

definition Udb_Do_Commit ::
  "nat \<Rightarrow> ('s, 'o) dbi \<Rightarrow> ('o, 'i, ('s, 'o, 'm) server_scheme) inet_calls \<Rightarrow> tclvar \<Rightarrow> (cstr \<Rightarrow> cstr \<Rightarrow> cstr) \<Rightarrow>
     (('s, 'o, 'm) server_scheme \<Rightarrow> (cstr tcl_result \<times> ('s, 'o, 'm) server_scheme) c_run option) \<Rightarrow>
     (('s, 'o, 'm) server_scheme \<Rightarrow> (cstr tcl_result \<times> ('s, 'o, 'm) server_scheme) c_run option) \<Rightarrow>
     cstr option \<Rightarrow> ('s, 'o, 'm) server_scheme \<Rightarrow> (cstr tcl_result \<times> ('s, 'o, 'm) server_scheme) c_run option" where
  "Udb_Do_Commit n db inet getvar elem change_schema load_schema logEntry w =
     (if force_rollback w then Some (Udb_Do_Rollback db inet w)
      else if \<not> tx_db_updated w then Some (Done (Tcl_Ok [], w))
      else
        o_bind (commit_checks n db inet getvar elem w) (\<lambda>(r, w).
          case r of
            Tcl_Error code msg \<Rightarrow> Some (commit_fails db inet r w)
          | Tcl_Ok _ \<Rightarrow>
              let schema = schema_modified w
              in o_bind (if schema then change_schema w else Some (Done (Tcl_Ok [], w))) (\<lambda>(r, w).
                case r of
                  Tcl_Error code msg \<Rightarrow> Some (commit_fails db inet r w)
                | Tcl_Ok _ \<Rightarrow>
                    let w = (if schema then Udb_Uncache_Schema w else w)
                    in o_bind (Some (raise_dmicro db w)) (\<lambda>w.
                       o_bind (Some (raise_smicro db w)) (\<lambda>w.
                       let w = WriteLog elem logEntry w
                       in o_bind (Some (check_some (db_commit_transaction db (database w)))) (\<lambda>s.
                          let w = Udb_Uncache_Items False False (w\<lparr>database := s\<rparr>);
                              w = reset_checks inet (w\<lparr>licenses := Udb_Update_License_Limits (licenses w)\<rparr>);
                              w = w\<lparr>tx_db_updated := False\<rparr>
                          in if schema_modified w
                             then o_bind (load_schema w) (\<lambda>(r, w).
                               case r of Tcl_Ok _ \<Rightarrow> Some (Done (Tcl_Ok [], w\<lparr>schema_modified := False\<rparr>)) | Tcl_Error code msg \<Rightarrow> Some Panic)
                             else Some (Done (Tcl_Ok [], w))))))))"

record commit_opts =
  dmajor :: "cstr option"
  dminor :: "cstr option"
  smajor :: "cstr option"
  sminor :: "cstr option"
  noCommit :: bool

text \<open>The loop over the options stops at the last argument.\<close>

fun parse_opts :: "cstr list \<Rightarrow> commit_opts \<Rightarrow> commit_opts \<times> cstr list" where
  "parse_opts (a # b # argv) opts =
     (if c_at a 0 \<noteq> ch (CHR ''-'') then (opts, a # b # argv)
      else if a = cstr ''--'' then (opts, b # argv)
      else if a = cstr ''-dataMajor'' then parse_opts argv (opts\<lparr>dmajor := Some b\<rparr>)
      else if a = cstr ''-dataMinor'' then parse_opts argv (opts\<lparr>dminor := Some b\<rparr>)
      else if a = cstr ''-schemaMajor'' then parse_opts argv (opts\<lparr>smajor := Some b\<rparr>)
      else if a = cstr ''-schemaMinor'' then parse_opts argv (opts\<lparr>sminor := Some b\<rparr>)
      else if a = cstr ''-noCommit'' then parse_opts (b # argv) (opts\<lparr>noCommit := True\<rparr>)
      else (opts, a # b # argv))"
| "parse_opts argv opts = (opts, argv)"

definition not_an_integer :: "cstr \<Rightarrow> cstr tcl_result" where
  "not_an_integer input = Tcl_Error [] (cstr ''expected integer but got '' @ [34] @ input @ [34])"

text \<open>Setting one of the two version numbers: \<open>Inl\<close> is the message for a bad number.\<close>

definition set_data_version ::
  "('s, 'o) dbi \<Rightarrow> (cstr \<Rightarrow> int option) \<Rightarrow> cstr option \<Rightarrow> cstr option \<Rightarrow> bool \<Rightarrow> ('s, 'o, 'm) udb_scheme \<Rightarrow>
     (cstr option \<times> ('s, 'o, 'm) udb_scheme) c_run" where
  "set_data_version db db_value_put major minor nocommit w =
     c_bind (case major of
               None \<Rightarrow> Done (None, w)
             | Some a \<Rightarrow>
                 (case Udb_String_To_Int32 db_value_put a of
                    None \<Rightarrow> Done (Some a, w)
                  | Some i \<Rightarrow> c_bind (check_some (tx_class w)) (\<lambda>c.
                      c_bind (put_checked db c (cstr ''data_major'') (DB_INTEGER i) (w\<lparr>tx_dmajor := i\<rparr>)) (\<lambda>w. Done (None, w\<lparr>tx_dminor := 0\<rparr>)))))
       (\<lambda>(bad, w).
     if bad \<noteq> None then Done (bad, w)
     else case (case minor of None \<Rightarrow> Inr w | Some a \<Rightarrow> (case Udb_String_To_Int32 db_value_put a of None \<Rightarrow> Inl a | Some i \<Rightarrow> Inr (w\<lparr>tx_dminor := i\<rparr>))) of
            Inl a \<Rightarrow> Done (Some a, w)
          | Inr w \<Rightarrow>
              if major \<noteq> None \<or> minor \<noteq> None
              then let w = w\<lparr>tx_db_updated := True\<rparr>
                   in c_bind (check_some (tx_class w)) (\<lambda>c.
                      c_bind (put_checked db c (cstr ''data_minor'') (DB_INTEGER (tx_dminor w)) w) (\<lambda>w.
                        Done (None, w\<lparr>new_tx_dmicro := True, tx_dmicro := if nocommit then 0 else -1\<rparr>)))
              else Done (None, w))"

definition set_schema_version ::
  "('s, 'o) dbi \<Rightarrow> (cstr \<Rightarrow> int option) \<Rightarrow> cstr option \<Rightarrow> cstr option \<Rightarrow> bool \<Rightarrow> ('s, 'o, 'm) udb_scheme \<Rightarrow>
     (cstr option \<times> ('s, 'o, 'm) udb_scheme) c_run" where
  "set_schema_version db db_value_put major minor nocommit w =
     c_bind (case major of
               None \<Rightarrow> Done (None, w)
             | Some a \<Rightarrow>
                 (case Udb_String_To_Int32 db_value_put a of
                    None \<Rightarrow> Done (Some a, w)
                  | Some i \<Rightarrow> c_bind (check_some (tx_class w)) (\<lambda>c.
                      c_bind (put_checked db c (cstr ''schema_major'') (DB_INTEGER i) (w\<lparr>tx_smajor := i\<rparr>)) (\<lambda>w. Done (None, w\<lparr>tx_sminor := 0\<rparr>)))))
       (\<lambda>(bad, w).
     if bad \<noteq> None then Done (bad, w)
     else case (case minor of None \<Rightarrow> Inr w | Some a \<Rightarrow> (case Udb_String_To_Int32 db_value_put a of None \<Rightarrow> Inl a | Some i \<Rightarrow> Inr (w\<lparr>tx_sminor := i\<rparr>))) of
            Inl a \<Rightarrow> Done (Some a, w)
          | Inr w \<Rightarrow>
              if major \<noteq> None \<or> minor \<noteq> None
              then let w = w\<lparr>tx_db_updated := True\<rparr>
                   in c_bind (check_some (tx_class w)) (\<lambda>c.
                      c_bind (put_checked db c (cstr ''schema_minor'') (DB_INTEGER (tx_sminor w)) w) (\<lambda>w.
                        Done (None, w\<lparr>new_tx_smicro := True, tx_smicro := if nocommit then 0 else -1\<rparr>)))
              else Done (None, w))"

text \<open>After a bad number the transaction is rolled back, and the result is that of the rollback.\<close>

definition Udb_Commit ::
  "nat \<Rightarrow> ('s, 'o) dbi \<Rightarrow> ('o, 'i, ('s, 'o, 'm) server_scheme) inet_calls \<Rightarrow> tclvar \<Rightarrow> (cstr \<Rightarrow> int option) \<Rightarrow> (cstr \<Rightarrow> cstr \<Rightarrow> cstr) \<Rightarrow>
     (('s, 'o, 'm) server_scheme \<Rightarrow> (cstr tcl_result \<times> ('s, 'o, 'm) server_scheme) c_run option) \<Rightarrow>
     (('s, 'o, 'm) server_scheme \<Rightarrow> (cstr tcl_result \<times> ('s, 'o, 'm) server_scheme) c_run option) \<Rightarrow>
     cstr list \<Rightarrow> ('s, 'o, 'm) server_scheme \<Rightarrow> (cstr tcl_result \<times> ('s, 'o, 'm) server_scheme) c_run option" where
  "Udb_Commit n db inet getvar db_value_put elem change_schema load_schema argv w =
     (let (opts, args) = parse_opts (tl argv) \<lparr>dmajor = None, dminor = None, smajor = None, sminor = None, noCommit = False\<rparr>
      in if length args > 1 then Some (Done (Udb_Error ''EUSAGE'' [hd argv, cstr ''?logEntry?''], w))
         else
           let bad = (\<lambda>a w. if noCommit opts then Done (not_an_integer a, w) else Udb_Do_Rollback db inet w)
           in o_bind (Some (if tx_class w = None then Load_Tran_Versions db w else Done w)) (\<lambda>w.
              o_bind (Some (set_data_version db db_value_put (dmajor opts) (dminor opts) (noCommit opts) w)) (\<lambda>(r, w).
                case r of
                  Some a \<Rightarrow> Some (bad a w)
                | None \<Rightarrow>
                    o_bind (Some (set_schema_version db db_value_put (smajor opts) (sminor opts) (noCommit opts) w)) (\<lambda>(r, w).
                      case r of
                        Some a \<Rightarrow> Some (bad a w)
                      | None \<Rightarrow>
                          if noCommit opts then Some (Done (Tcl_Ok [], w))
                          else Udb_Do_Commit n db inet getvar elem change_schema load_schema
                                 (case args of [] \<Rightarrow> None | e # _ \<Rightarrow> Some e) w))))"

end
