(* ===== verification/TransactionProps.thy ===== *)
theory TransactionProps
  imports Transaction MemDbi
begin

text \<open>
  A commit is all or nothing: \<open>Udb_Do_Commit\<close> of \<^verbatim>\<open>libudb/transaction.c\<close> makes the changes permanent, logs them once and
  keeps the license counters, or gives the database, the log and the counters back as they were.
\<close>

section \<open>What a commit relies on\<close>

text \<open>The database: \<open>current\<close> is the store the program sees, \<open>committed\<close> the one last made permanent.  An attribute
  that an object has can be written, and only a commit makes changes permanent.\<close>

definition tx_ok :: "('s, 'o) dbi \<Rightarrow> ('s \<Rightarrow> 'o store) \<Rightarrow> ('s \<Rightarrow> 'o store) \<Rightarrow> bool" where
  "tx_ok db current committed \<longleftrightarrow>
     (\<forall>s. \<exists>s'. db_commit_transaction db s = Some s' \<and> current s' = current s \<and> committed s' = current s) \<and>
     (\<forall>s. \<exists>s'. db_abort_transaction db s = Some s' \<and> current s' = committed s \<and> committed s' = committed s) \<and>
     (\<forall>s x a v. att (current s) x a \<noteq> None \<longrightarrow>
        (\<exists>s'. db_put db x a v s = Some s' \<and> current s' = set_att x a v (current s) \<and> committed s' = committed s))"

text \<open>The state of the transaction itself is kept: versions, log, counters.\<close>

definition ctl_same :: "('s, 'o, 'm) server_scheme \<Rightarrow> ('s, 'o, 'm) server_scheme \<Rightarrow> bool" where
  "ctl_same w w' \<longleftrightarrow>
     licenses w' = licenses w \<and> logFd w' = logFd w \<and> logFile w' = logFile w \<and> clientName w' = clientName w \<and> now w' = now w \<and>
     force_rollback w' = force_rollback w \<and> tx_db_updated w' = tx_db_updated w \<and> schema_modified w' = schema_modified w \<and> tx_class w' = tx_class w \<and>
     tx_dmajor w' = tx_dmajor w \<and> tx_dminor w' = tx_dminor w \<and> tx_dmicro w' = tx_dmicro w \<and>
     tx_smajor w' = tx_smajor w \<and> tx_sminor w' = tx_sminor w \<and> tx_smicro w' = tx_smicro w \<and>
     new_tx_dmicro w' = new_tx_dmicro w \<and> new_tx_smicro w' = new_tx_smicro w"

definition tx_same :: "('s, 'o, 'm) server_scheme \<Rightarrow> ('s, 'o, 'm) server_scheme \<Rightarrow> bool" where
  "tx_same w w' \<longleftrightarrow> database w' = database w \<and> ctl_same w w'"

definition tables_empty :: "('s, 'o, 'm) server_scheme \<Rightarrow> bool" where
  "tables_empty w \<longleftrightarrow> refTable w = None \<and> uniqTable w = None \<and> loopTable w = None"

definition in_transaction :: "('s \<Rightarrow> 'o store) \<Rightarrow> ('s, 'o, 'm) server_scheme \<Rightarrow> ('s, 'o, 'm) server_scheme \<Rightarrow> bool" where
  "in_transaction committed w w' \<longleftrightarrow>
     tx_db_updated w' \<and> \<not> force_rollback w' \<and> committed (database w') = committed (database w) \<and> logFile w' = logFile w \<and>
     Udb_Rollback_License_Limits (licenses w') = Udb_Rollback_License_Limits (licenses w)"

text \<open>The check of the addresses reads the database only, and dropping its tables touches nothing else.\<close>

definition inet_ok :: "('o, 'i, ('s, 'o, 'm) server_scheme) inet_calls \<Rightarrow> bool" where
  "inet_ok inet \<longleftrightarrow>
     (\<forall>w r w'. Udb_Inet_Check_Integrity inet w = Some (Done (r, w')) \<longrightarrow> tx_same w w') \<and>
     (\<forall>w. tx_same w (Udb_Inet_Reset_Checks inet w)) \<and> (\<forall>w. tables_empty w \<longrightarrow> tables_empty (Udb_Inet_Reset_Checks inet w))"

text \<open>
  The two scripts on the schema.  The one that changes it runs inside the transaction, which it neither ends nor commits; what it does
  to the database and to the versions is left open.  The one that loads it runs once the changes are permanent, reads
  the database only, and succeeds.
\<close>

definition schema_ok ::
  "('s \<Rightarrow> 'o store) \<Rightarrow> ('s \<Rightarrow> 'o store) \<Rightarrow> (('s, 'o, 'm) server_scheme \<Rightarrow> (cstr tcl_result \<times> ('s, 'o, 'm) server_scheme) c_run option) \<Rightarrow>
     (('s, 'o, 'm) server_scheme \<Rightarrow> (cstr tcl_result \<times> ('s, 'o, 'm) server_scheme) c_run option) \<Rightarrow> bool" where
  "schema_ok current committed change_schema load_schema \<longleftrightarrow>
     (\<forall>w r w'. tx_db_updated w \<and> \<not> force_rollback w \<and> change_schema w = Some (Done (r, w')) \<longrightarrow> in_transaction committed w w') \<and>
     (\<forall>w. \<not> tx_db_updated w \<and> tables_empty w \<and> committed (database w) = current (database w) \<longrightarrow>
        (\<exists>r w'. load_schema w = Some (Done (Tcl_Ok r, w')) \<and> tx_same w w' \<and> tables_empty w'))"

text \<open>The checks of a commit, then the change of the schema if it has been modified.\<close>

definition commit_prepare ::
  "nat \<Rightarrow> ('s, 'o) dbi \<Rightarrow> ('o, 'i, ('s, 'o, 'm) udb_scheme) inet_calls \<Rightarrow> tclvar \<Rightarrow> (cstr \<Rightarrow> cstr \<Rightarrow> cstr) \<Rightarrow>
     (('s, 'o, 'm) udb_scheme \<Rightarrow> (cstr tcl_result \<times> ('s, 'o, 'm) udb_scheme) c_run option) \<Rightarrow>
     ('s, 'o, 'm) udb_scheme \<Rightarrow> (cstr tcl_result \<times> ('s, 'o, 'm) udb_scheme) c_run option" where
  "commit_prepare n db inet getvar elem change_schema w =
     o_bind (commit_checks n db inet getvar elem w) (\<lambda>(r, w).
       case r of Tcl_Error code msg \<Rightarrow> Some (Done (r, w)) | Tcl_Ok _ \<Rightarrow> if schema_modified w then change_schema w else Some (Done (Tcl_Ok [], w)))"

section \<open>The checks keep the transaction\<close>

lemma tx_same_refl [simp]: "tx_same w w"
  by (simp add: tx_same_def ctl_same_def)

lemma tx_same_trans: "tx_same u v \<Longrightarrow> tx_same v w \<Longrightarrow> tx_same u w"
  by (simp add: tx_same_def ctl_same_def)

lemma ctl_same_trans: "ctl_same u v \<Longrightarrow> ctl_same v w \<Longrightarrow> ctl_same u w"
  by (simp add: ctl_same_def)

lemma o_bind_Done: "o_bind m f = Some (Done y) \<longleftrightarrow> (\<exists>x. m = Some (Done x) \<and> f x = Some (Done y))"
  by (auto simp: o_bind_def Option.bind_eq_Some_conv split: c_run.split_asm)

lemma Udb_Get_Class_Name_same: "Udb_Get_Class_Name db c w = Done (n, w') \<Longrightarrow> tx_same w w'"
  by (auto simp: Udb_Get_Class_Name_def c_bind_Done tx_same_def ctl_same_def split: option.split_asm)

lemma Udb_Relation_Attribute_same: "Udb_Relation_Attribute db c w = Done (n, w') \<Longrightarrow> tx_same w w'"
  unfolding Udb_Relation_Attribute_def c_bind_Done
  by (elim exE conjE) (auto dest!: Udb_Get_Class_Name_same simp del: dropWhile_eq_Cons_conv dropWhile_eq_Nil_conv split: prod.split_asm list.split_asm)

lemma Reference_Error_same: "Reference_Error db elem rhs rel w = Done (e, w') \<Longrightarrow> tx_same w w'"
  by (auto simp: Reference_Error_def c_bind_Done dest: Udb_Relation_Attribute_same)

lemma ref_walk_same: "ref_walk db elem x rel n errs w = Done (k, es, w') \<Longrightarrow> tx_same w w'"
proof (induction db elem x rel n errs w rule: ref_walk.induct)
  case (2 db elem x rel n errs w)
  show ?case
  proof (cases rel)
    case (Some y)
    then show ?thesis using 2 by (auto simp: c_bind_Done dest: Reference_Error_same intro: tx_same_trans)
  qed (use 2(2) in simp)
qed simp

lemma ref_loop_same: "ref_loop db elem xs n errs w = Done (rest, es, w') \<Longrightarrow> tx_same w w'"
proof (induction db elem xs n errs w rule: ref_loop.induct)
  case (2 db elem x xs n errs w)
  then show ?case by (auto simp: c_bind_Done dest: ref_walk_same intro: tx_same_trans split: if_split_asm)
qed simp

lemma tables_same: "tx_same u v \<Longrightarrow> tx_same u (v\<lparr>refTable := r\<rparr>)" "tx_same u v \<Longrightarrow> tx_same u (v\<lparr>uniqTable := q\<rparr>)" "tx_same u v \<Longrightarrow> tx_same u (v\<lparr>loopTable := l\<rparr>)"
  by (simp_all add: tx_same_def ctl_same_def)

lemma Udb_Do_Reference_Checks_same: "Udb_Do_Reference_Checks db elem w = Done (r, w') \<Longrightarrow> tx_same w w'"
  by (auto simp: Udb_Do_Reference_Checks_def c_bind_Done dest: ref_loop_same intro: tables_same split: option.split_asm)

lemma Udb_Do_Unique_Checks_same: "Udb_Do_Unique_Checks db getvar w = Done (r, w') \<Longrightarrow> tx_same w w'"
  by (auto simp: Udb_Do_Unique_Checks_def c_bind_Done intro: tables_same split: option.split_asm)

lemma Udb_Do_Loop_Checks_same: "Udb_Do_Loop_Checks n db elem w = Some (Done (r, w')) \<Longrightarrow> tx_same w w'"
  by (auto simp: Udb_Do_Loop_Checks_def o_bind_Done intro: tables_same split: option.split_asm)

lemma run_checks_same:
  assumes "\<And>chk w r w'. chk \<in> set chks \<Longrightarrow> chk w = Some (Done (r, w')) \<Longrightarrow> tx_same w w'" "run_checks chks w = Some (Done (r, w'))"
  shows "tx_same w w'"
  using assms
proof (induction chks arbitrary: w)
  case (Cons chk chks)
  obtain r1 v where c: "chk w = Some (Done (r1, v))" "(case r1 of Tcl_Ok _ \<Rightarrow> run_checks chks v | Tcl_Error code msg \<Rightarrow> Some (Done (r1, v))) = Some (Done (r, w'))"
    using Cons.prems(2) by (auto simp: o_bind_Done)
  have "tx_same w v" by (rule Cons.prems(1) [of chk w r1 v]) (simp_all add: c(1))
  moreover have "tx_same v w'" using c(2) Cons.IH [of v] Cons.prems(1) by (auto split: tcl_result.split_asm)
  ultimately show ?case by (rule tx_same_trans)
qed simp

lemma commit_checks_same:
  assumes "inet_ok inet" "commit_checks n db inet getvar elem w = Some (Done (r, w'))"
  shows "tx_same w w'"
  using assms(2) unfolding commit_checks_def
  by (rule run_checks_same [rotated])
     (use assms(1) in \<open>auto simp: inet_ok_def dest: Udb_Do_Reference_Checks_same Udb_Do_Unique_Checks_same Udb_Do_Loop_Checks_same split: if_split_asm\<close>)

lemma commit_prepare_same:
  assumes "inet_ok inet" "schema_ok current committed change_schema load_schema" "tx_db_updated w" "\<not> force_rollback w"
    and "commit_prepare n db inet getvar elem change_schema w = Some (Done (r, w'))"
  shows "in_transaction committed w w'" "schema_modified w \<or> tx_same w w'"
proof -
  obtain r1 v where c: "commit_checks n db inet getvar elem w = Some (Done (r1, v))"
    "(case r1 of Tcl_Error code msg \<Rightarrow> Some (Done (r1, v)) | Tcl_Ok _ \<Rightarrow> if schema_modified v then change_schema v else Some (Done (Tcl_Ok [], v))) = Some (Done (r, w'))"
    using assms(5) by (auto simp: commit_prepare_def o_bind_Done)
  have v: "tx_same w v" by (rule commit_checks_same [OF assms(1) c(1)])
  then have V: "tx_db_updated v" "\<not> force_rollback v" "in_transaction committed w v" "schema_modified v = schema_modified w"
    using assms(3,4) by (auto simp: tx_same_def ctl_same_def in_transaction_def)
  consider "v = w'" | "schema_modified v" "change_schema v = Some (Done (r, w'))" using c(2) by (auto split: tcl_result.split_asm if_split_asm)
  then have "in_transaction committed w w' \<and> (schema_modified w \<or> tx_same w w')"
  proof cases
    case 2
    then have "in_transaction committed v w'" using assms(2) V(1,2) unfolding schema_ok_def by blast
    then show ?thesis using V(3,4) 2(1) by (simp add: in_transaction_def)
  qed (use v V(3) in simp)
  then show "in_transaction committed w w'" "schema_modified w \<or> tx_same w w'" by auto
qed

section \<open>Rolling back and committing\<close>

lemmas same_defs = tx_same_def ctl_same_def tables_empty_def

lemma reset_checks_same:
  assumes "inet_ok inet"
  shows "tx_same w (reset_checks inet w)" "tables_empty (reset_checks inet w)"
proof -
  let ?v = "Udb_Reset_Loop_Checks (Udb_Reset_Unique_Checks (Udb_Reset_Reference_Checks w))"
  have "tx_same w ?v" "tables_empty ?v"
    by (simp_all add: same_defs Udb_Reset_Loop_Checks_def Udb_Reset_Unique_Checks_def Udb_Reset_Reference_Checks_def)
  moreover have "tx_same ?v (reset_checks inet w)" using assms by (simp add: inet_ok_def reset_checks_def)
  ultimately show "tx_same w (reset_checks inet w)" by (blast intro: tx_same_trans)
  show "tables_empty (reset_checks inet w)" using \<open>tables_empty ?v\<close> assms by (simp add: inet_ok_def reset_checks_def)
qed

definition rolled_back :: "('s \<Rightarrow> 'o store) \<Rightarrow> ('s \<Rightarrow> 'o store) \<Rightarrow> ('s, 'o, 'm) server_scheme \<Rightarrow> ('s, 'o, 'm) server_scheme \<Rightarrow> bool" where
  "rolled_back current committed w w' \<longleftrightarrow>
     current (database w') = committed (database w) \<and> committed (database w') = committed (database w) \<and>
     logFile w' = logFile w \<and> licenses w' = Udb_Rollback_License_Limits (licenses w) \<and>
     tables_empty w' \<and> itemCache w' = Map.empty \<and> tx_class w' = None \<and> \<not> force_rollback w' \<and> \<not> schema_modified w'"

lemma Udb_Do_Rollback_rolls_back:
  assumes "tx_ok db current committed" "inet_ok inet" "tx_db_updated w \<or> force_rollback w"
  shows "\<exists>w'. Udb_Do_Rollback db inet w =
    Done (if force_rollback w then Tcl_Error (fst (saved_error w)) (snd (saved_error w)) else Tcl_Ok [], w') \<and> rolled_back current committed w w'"
proof -
  define v where "v = w\<lparr>tx_class := None, new_tx_dmicro := False, new_tx_smicro := False, schema_modified := False, force_rollback := False\<rparr>"
  define u where "u = Udb_Uncache_Items True False (reset_checks inet v)"
  obtain s where s: "db_abort_transaction db (database u) = Some s" "current s = committed (database u)" "committed s = committed (database u)"
    using assms(1) unfolding tx_ok_def by blast
  have "Udb_Do_Rollback db inet w =
    Done (if force_rollback w then Tcl_Error (fst (saved_error w)) (snd (saved_error w)) else Tcl_Ok [],
      u\<lparr>licenses := Udb_Rollback_License_Limits (licenses u), database := s\<rparr>)"
    using assms(3) s(1) by (auto simp: Udb_Do_Rollback_def Let_def v_def [symmetric] u_def [symmetric] check_some_def)
  moreover have "rolled_back current committed w (u\<lparr>licenses := Udb_Rollback_License_Limits (licenses u), database := s\<rparr>)"
    using reset_checks_same [OF assms(2), of v] s(2,3) by (simp add: rolled_back_def u_def v_def same_defs Udb_Uncache_Items_def)
  ultimately show ?thesis by blast
qed

text \<open>What the program saw before, with the raised versions in the version object, is what it sees and what is permanent.\<close>

definition versions_raised :: "('s, 'o, 'm) server_scheme \<Rightarrow> 'o store \<Rightarrow> 'o store" where
  "versions_raised w st =
     (let c = the (tx_class w);
          st = (if new_tx_dmicro w then set_att c (cstr ''data_micro'') (DB_INTEGER (int32 (tx_dmicro w + 1))) st else st)
      in if new_tx_smicro w then set_att c (cstr ''schema_micro'') (DB_INTEGER (int32 (tx_smicro w + 1))) st else st)"

definition made_permanent ::
  "(cstr \<Rightarrow> cstr \<Rightarrow> cstr) \<Rightarrow> cstr option \<Rightarrow> ('s \<Rightarrow> 'o store) \<Rightarrow> ('s \<Rightarrow> 'o store) \<Rightarrow> ('s, 'o, 'm) server_scheme \<Rightarrow> ('s, 'o, 'm) server_scheme \<Rightarrow> bool" where
  "made_permanent elem logEntry current committed w w' \<longleftrightarrow>
     current (database w') = versions_raised w (current (database w)) \<and> committed (database w') = versions_raised w (current (database w)) \<and>
     logFile w' = (case logFd w of None \<Rightarrow> logFile w | Some path \<Rightarrow> (logFile w)(path := logFile w path @ log_entry elem logEntry w')) \<and>
     tx_dmicro w' = (if new_tx_dmicro w then int32 (tx_dmicro w + 1) else tx_dmicro w) \<and>
     tx_smicro w' = (if new_tx_smicro w then int32 (tx_smicro w + 1) else tx_smicro w) \<and>
     licenses w' = Udb_Update_License_Limits (licenses w) \<and>
     tables_empty w' \<and> \<not> tx_db_updated w' \<and> \<not> schema_modified w' \<and> \<not> new_tx_dmicro w' \<and> \<not> new_tx_smicro w'"

text \<open>Whenever a version is to be raised, the version object is known and has the two attributes.\<close>

definition versions_ok :: "('s \<Rightarrow> 'o store) \<Rightarrow> ('s, 'o, 'm) server_scheme \<Rightarrow> bool" where
  "versions_ok current w \<longleftrightarrow>
     (new_tx_dmicro w \<or> new_tx_smicro w \<longrightarrow>
        (\<exists>c. tx_class w = Some c \<and> att (current (database w)) c (cstr ''data_micro'') \<noteq> None \<and> att (current (database w)) c (cstr ''schema_micro'') \<noteq> None))"

lemma raise_dmicro_runs:
  assumes "tx_ok db current committed" "versions_ok current w"
  shows "\<exists>s. raise_dmicro db w = Done (w\<lparr>database := s, tx_dmicro := if new_tx_dmicro w then int32 (tx_dmicro w + 1) else tx_dmicro w, new_tx_dmicro := False\<rparr>) \<and>
    current s = (if new_tx_dmicro w then set_att (the (tx_class w)) (cstr ''data_micro'') (DB_INTEGER (int32 (tx_dmicro w + 1))) (current (database w)) else current (database w))"
proof (cases "new_tx_dmicro w")
  case True
  then obtain c where c: "tx_class w = Some c" "att (current (database w)) c (cstr ''data_micro'') \<noteq> None" using assms(2) by (auto simp: versions_ok_def)
  obtain s where s: "db_put db c (cstr ''data_micro'') (DB_INTEGER (int32 (tx_dmicro w + 1))) (database w) = Some s"
    "current s = set_att c (cstr ''data_micro'') (DB_INTEGER (int32 (tx_dmicro w + 1))) (current (database w))"
    using assms(1) c(2) unfolding tx_ok_def by blast
  then show ?thesis using True c(1) by (intro exI [of _ s]) (simp add: raise_dmicro_def put_checked_def check_some_def Let_def)
next
  case False
  then show ?thesis by (intro exI [of _ "database w"]) (simp add: raise_dmicro_def)
qed

lemma raise_smicro_runs:
  assumes "tx_ok db current committed" "versions_ok current w"
  shows "\<exists>s. raise_smicro db w = Done (w\<lparr>database := s, tx_smicro := if new_tx_smicro w then int32 (tx_smicro w + 1) else tx_smicro w, new_tx_smicro := False\<rparr>) \<and>
    current s = (if new_tx_smicro w then set_att (the (tx_class w)) (cstr ''schema_micro'') (DB_INTEGER (int32 (tx_smicro w + 1))) (current (database w)) else current (database w))"
proof (cases "new_tx_smicro w")
  case True
  then obtain c where c: "tx_class w = Some c" "att (current (database w)) c (cstr ''schema_micro'') \<noteq> None" using assms(2) by (auto simp: versions_ok_def)
  obtain s where s: "db_put db c (cstr ''schema_micro'') (DB_INTEGER (int32 (tx_smicro w + 1))) (database w) = Some s"
    "current s = set_att c (cstr ''schema_micro'') (DB_INTEGER (int32 (tx_smicro w + 1))) (current (database w))"
    using assms(1) c(2) unfolding tx_ok_def by blast
  then show ?thesis using True c(1) by (intro exI [of _ s]) (simp add: raise_smicro_def put_checked_def check_some_def Let_def)
next
  case False
  then show ?thesis by (intro exI [of _ "database w"]) (simp add: raise_smicro_def)
qed

text \<open>The end of a commit, once all checks have passed.\<close>

definition commit_finish ::
  "('s, 'o) dbi \<Rightarrow> ('o, 'i, ('s, 'o, 'm) server_scheme) inet_calls \<Rightarrow> (cstr \<Rightarrow> cstr \<Rightarrow> cstr) \<Rightarrow>
     (('s, 'o, 'm) server_scheme \<Rightarrow> (cstr tcl_result \<times> ('s, 'o, 'm) server_scheme) c_run option) \<Rightarrow>
     cstr option \<Rightarrow> ('s, 'o, 'm) server_scheme \<Rightarrow> (cstr tcl_result \<times> ('s, 'o, 'm) server_scheme) c_run option" where
  "commit_finish db inet elem load_schema logEntry w =
     o_bind (Some (raise_dmicro db w)) (\<lambda>w.
     o_bind (Some (raise_smicro db w)) (\<lambda>w.
       let w = WriteLog elem logEntry w
       in o_bind (Some (check_some (db_commit_transaction db (database w)))) (\<lambda>s.
          let w = Udb_Uncache_Items False False (w\<lparr>database := s\<rparr>);
              w = reset_checks inet (w\<lparr>licenses := Udb_Update_License_Limits (licenses w)\<rparr>);
              w = w\<lparr>tx_db_updated := False\<rparr>
          in if schema_modified w
             then o_bind (load_schema w) (\<lambda>(r, w).
               case r of Tcl_Ok _ \<Rightarrow> Some (Done (Tcl_Ok [], w\<lparr>schema_modified := False\<rparr>)) | Tcl_Error code msg \<Rightarrow> Some Panic)
             else Some (Done (Tcl_Ok [], w)))))"

lemma Udb_Do_Commit_steps:
  assumes "tx_db_updated w" "\<not> force_rollback w"
  shows "Udb_Do_Commit n db inet getvar elem change_schema load_schema logEntry w =
    o_bind (commit_checks n db inet getvar elem w) (\<lambda>(r, w).
      case r of Tcl_Error code msg \<Rightarrow> Some (commit_fails db inet r w)
      | Tcl_Ok _ \<Rightarrow> o_bind (if schema_modified w then change_schema w else Some (Done (Tcl_Ok [], w))) (\<lambda>(r, v).
          case r of Tcl_Error code msg \<Rightarrow> Some (commit_fails db inet r v)
          | Tcl_Ok _ \<Rightarrow> commit_finish db inet elem load_schema logEntry (if schema_modified w then Udb_Uncache_Schema v else v)))"
  unfolding Udb_Do_Commit_def commit_finish_def Let_def by (simp only: assms if_True if_False not_True_eq_False)

lemma made_permanent_loaded:
  "\<not> schema_modified x \<Longrightarrow> made_permanent elem logEntry current committed w (x\<lparr>schema_modified := False\<rparr>) = made_permanent elem logEntry current committed w x"
  by (simp add: made_permanent_def log_entry_def tables_empty_def cong: option.case_cong)

lemma commit_finish_permanent:
  assumes "tx_ok db current committed" "inet_ok inet" "schema_ok current committed change_schema load_schema" "versions_ok current w"
  shows "\<exists>w'. commit_finish db inet elem load_schema logEntry w = Some (Done (Tcl_Ok [], w')) \<and> made_permanent elem logEntry current committed w w'"
proof -
  obtain s1 where s1: "raise_dmicro db w = Done (w\<lparr>database := s1, tx_dmicro := if new_tx_dmicro w then int32 (tx_dmicro w + 1) else tx_dmicro w, new_tx_dmicro := False\<rparr>)"
    and c1: "current s1 = (if new_tx_dmicro w then set_att (the (tx_class w)) (cstr ''data_micro'') (DB_INTEGER (int32 (tx_dmicro w + 1))) (current (database w)) else current (database w))"
    using raise_dmicro_runs [OF assms(1,4)] by blast
  define w1 where "w1 = w\<lparr>database := s1, tx_dmicro := if new_tx_dmicro w then int32 (tx_dmicro w + 1) else tx_dmicro w, new_tx_dmicro := False\<rparr>"
  have "versions_ok current w1" using assms(4) c1 unfolding versions_ok_def w1_def by auto
  then obtain s2 where s2: "raise_smicro db w1 = Done (w1\<lparr>database := s2, tx_smicro := if new_tx_smicro w1 then int32 (tx_smicro w1 + 1) else tx_smicro w1, new_tx_smicro := False\<rparr>)"
    and c2: "current s2 = (if new_tx_smicro w1 then set_att (the (tx_class w1)) (cstr ''schema_micro'') (DB_INTEGER (int32 (tx_smicro w1 + 1))) (current s1) else current s1)"
    using raise_smicro_runs [OF assms(1), of w1] unfolding w1_def by auto
  define w2 where "w2 = WriteLog elem logEntry (w1\<lparr>database := s2, tx_smicro := if new_tx_smicro w1 then int32 (tx_smicro w1 + 1) else tx_smicro w1, new_tx_smicro := False\<rparr>)"
  obtain s3 where s3: "db_commit_transaction db (database w2) = Some s3" "current s3 = current (database w2)" "committed s3 = current (database w2)"
    using assms(1) unfolding tx_ok_def by blast
  have "database w2 = s2" by (simp add: w2_def WriteLog_def split: option.split)
  then have st: "current s3 = versions_raised w (current (database w))" "committed s3 = versions_raised w (current (database w))"
    using s3 c1 c2 by (simp_all add: versions_raised_def w1_def Let_def)
  define v where "v = (Udb_Uncache_Items False False (w2\<lparr>database := s3\<rparr>))\<lparr>licenses := Udb_Update_License_Limits (licenses w2)\<rparr>"
  define u where "u = (reset_checks inet v)\<lparr>tx_db_updated := False\<rparr>"
  have eq: "commit_finish db inet elem load_schema logEntry w =
    (if schema_modified u then o_bind (load_schema u) (\<lambda>(r, w).
       case r of Tcl_Ok _ \<Rightarrow> Some (Done (Tcl_Ok [], w\<lparr>schema_modified := False\<rparr>)) | Tcl_Error code msg \<Rightarrow> Some Panic)
     else Some (Done (Tcl_Ok [], u)))"
    using s1 s2 s3(1) by (simp add: commit_finish_def Let_def check_some_def w1_def [symmetric] w2_def [symmetric] u_def v_def Udb_Uncache_Items_def)
  have same: "tx_same v (reset_checks inet v)" "tables_empty (reset_checks inet v)" by (rule reset_checks_same [OF assms(2)])+
  have log: "logFile v = (case logFd w of None \<Rightarrow> logFile w | Some path \<Rightarrow> (logFile w)(path := logFile w path @ log_entry elem logEntry v))"
    by (simp add: v_def w2_def w1_def WriteLog_def log_entry_def Udb_Uncache_Items_def split: option.split)
  have perm: "made_permanent elem logEntry current committed w (x\<lparr>schema_modified := False\<rparr>)" if x: "tx_same u x" "tables_empty x" for x
  proof -
    have "log_entry elem logEntry x = log_entry elem logEntry v" using x(1) same(1) by (simp add: log_entry_def same_defs u_def)
    moreover have "log_entry elem logEntry (x\<lparr>schema_modified := False\<rparr>) = log_entry elem logEntry x" by (simp add: log_entry_def)
    moreover have "licenses v = Udb_Update_License_Limits (licenses w)" "tx_dmicro v = (if new_tx_dmicro w then int32 (tx_dmicro w + 1) else tx_dmicro w)"
      "tx_smicro v = (if new_tx_smicro w then int32 (tx_smicro w + 1) else tx_smicro w)" "\<not> new_tx_dmicro v" "\<not> new_tx_smicro v" "database v = s3"
      by (auto simp: v_def w2_def w1_def WriteLog_def Udb_Uncache_Items_def split: option.split)
    ultimately show ?thesis using x same log st by (simp add: made_permanent_def same_defs u_def cong: option.case_cong)
  qed
  show ?thesis
  proof (cases "schema_modified u")
    case True
    have not_updated: "\<not> tx_db_updated u" by (simp add: u_def)
    have "database u = s3" using same(1) by (simp add: u_def v_def same_defs Udb_Uncache_Items_def)
    moreover have "tables_empty u" using same(2) by (simp add: u_def tables_empty_def)
    ultimately obtain r x where x: "load_schema u = Some (Done (Tcl_Ok r, x))" "tx_same u x" "tables_empty x"
      using assms(3) st by (metis schema_ok_def not_updated)
    then show ?thesis using eq True perm [OF x(2,3)] by simp
  next
    case False
    have "tables_empty u" using same(2) by (simp add: u_def tables_empty_def)
    then have "made_permanent elem logEntry current committed w u" using perm [of u] made_permanent_loaded [OF False, of elem logEntry current committed w] by simp
    then show ?thesis using eq False by simp
  qed
qed

lemma commit_fails_rolls_back:
  assumes "tx_ok db current committed" "inet_ok inet" "tx_db_updated w" "\<not> force_rollback w"
  shows "\<exists>w'. commit_fails db inet r w = Done (r, w') \<and> rolled_back current committed w w'"
  using Udb_Do_Rollback_rolls_back [OF assms(1,2), of w] assms(3,4) by (auto simp: commit_fails_def)

lemma made_permanent_cong:
  assumes "tx_same w x"
  shows "made_permanent elem logEntry current committed x w' = made_permanent elem logEntry current committed w w'"
  using assms by (simp add: made_permanent_def versions_raised_def tx_same_def ctl_same_def cong: option.case_cong)

section \<open>Property\<close>

text \<open>C4: a commit with pending changes is all or nothing.  When a check or the change of the schema fails, the commit gives that
  error, what the program sees is again what was last made permanent, nothing is logged, the license counters are
  taken back and no pending check is left.  When they pass, exactly what the program saw after them, with the raised versions in the
  version object, is what it sees and what is permanent; one entry with the new versions is appended to the open
  log, and the counters are kept.  Without a change of the schema, what it saw after the checks is what it saw before.\<close>

theorem commit_all_or_nothing:
  assumes "tx_ok db current committed" "inet_ok inet" "schema_ok current committed change_schema load_schema"
    and w: "tx_db_updated w" "\<not> force_rollback w" "versions_ok current w1"
    and prep: "commit_prepare n db inet getvar elem change_schema w = Some (Done (r, w1))"
  shows "(schema_modified w \<or> tx_same w w1) \<and>
    (\<exists>r' w'. Udb_Do_Commit n db inet getvar elem change_schema load_schema logEntry w = Some (Done (r', w')) \<and>
      (case r of
         Tcl_Error code msg \<Rightarrow> r' = r \<and> rolled_back current committed w w'
       | Tcl_Ok _ \<Rightarrow> r' = Tcl_Ok [] \<and> made_permanent elem logEntry current committed w1 w'))"
proof -
  obtain r1 v where c: "commit_checks n db inet getvar elem w = Some (Done (r1, v))"
    "(case r1 of Tcl_Error code msg \<Rightarrow> Some (Done (r1, v)) | Tcl_Ok _ \<Rightarrow> if schema_modified v then change_schema v else Some (Done (Tcl_Ok [], v))) = Some (Done (r, w1))"
    using prep by (auto simp: commit_prepare_def o_bind_Done)
  note same = commit_prepare_same [OF assms(2,3) w(1,2) prep]
  let ?commit = "Udb_Do_Commit n db inet getvar elem change_schema load_schema logEntry w"
  have "\<exists>r' w'. ?commit = Some (Done (r', w')) \<and>
      (case r of Tcl_Error code msg \<Rightarrow> r' = r \<and> rolled_back current committed w w'
       | Tcl_Ok _ \<Rightarrow> r' = Tcl_Ok [] \<and> made_permanent elem logEntry current committed w1 w')"
  proof (cases r)
    case (Tcl_Error code msg)
    have "?commit = Some (commit_fails db inet r w1)"
      using c Tcl_Error by (auto simp: Udb_Do_Commit_steps [OF w(1,2)] split: tcl_result.split_asm if_split_asm)
    moreover obtain w' where "commit_fails db inet r w1 = Done (r, w')" "rolled_back current committed w1 w'"
      using commit_fails_rolls_back [OF assms(1,2), of w1 r] same(1) by (auto simp: in_transaction_def)
    ultimately show ?thesis using Tcl_Error same(1) by (auto simp: rolled_back_def in_transaction_def)
  next
    case (Tcl_Ok a)
    define x where "x = (if schema_modified v then Udb_Uncache_Schema w1 else w1)"
    have "?commit = commit_finish db inet elem load_schema logEntry x"
      using c Tcl_Ok by (auto simp: Udb_Do_Commit_steps [OF w(1,2)] x_def split: tcl_result.split_asm if_split_asm)
    moreover have x: "tx_same w1 x" by (simp add: x_def tx_same_def ctl_same_def Udb_Uncache_Schema_def)
    moreover have "versions_ok current x" using w(3) x by (auto simp: versions_ok_def tx_same_def ctl_same_def)
    ultimately obtain w' where "?commit = Some (Done (Tcl_Ok [], w'))" "made_permanent elem logEntry current committed x w'"
      using commit_finish_permanent [OF assms(1-3)] by metis
    then show ?thesis using Tcl_Ok made_permanent_cong [OF x] by auto
  qed
  then show ?thesis using same(2) by blast
qed

text \<open>A database in memory with transactions: the state the program sees and the one last made permanent.\<close>

definition lift_db :: "('s, 'o) dbi \<Rightarrow> ('s \<times> 's, 'o) dbi" where
  "lift_db db =
     \<lparr>db_find_class = (\<lambda>n s. db_find_class db n (fst s)), db_get_class = (\<lambda>x s. db_get_class db x (fst s)),
      db_get_class_name = (\<lambda>c s. db_get_class_name db c (fst s)), db_identifier = (\<lambda>x s. db_identifier db x (fst s)),
      db_object = (\<lambda>i s. db_object db i (fst s)), db_is_subclass = (\<lambda>c d s. db_is_subclass db c d (fst s)),
      db_get_attributes = (\<lambda>c s. db_get_attributes db c (fst s)), db_get = (\<lambda>x a s. db_get db x a (fst s)),
      db_put = (\<lambda>x a v s. map_option (\<lambda>t. (t, snd s)) (db_put db x a v (fst s))),
      db_find_unique = (\<lambda>c a v s. db_find_unique db c a v (fst s)),
      dbt_finish_object = (\<lambda>t s. map_option (\<lambda>(x, t). (x, t, snd s)) (dbt_finish_object db t (fst s))),
      db_col_size = (\<lambda>col s. db_col_size db col (fst s)), db_col_get = (\<lambda>col i s. db_col_get db col i (fst s)),
      db_col_insert = (\<lambda>col i v s. map_option (\<lambda>(c, t). (c, t, snd s)) (db_col_insert db col i v (fst s))),
      db_col_drop_element = (\<lambda>col i s. map_option (\<lambda>(c, t). (c, t, snd s)) (db_col_drop_element db col i (fst s))),
      db_set_add = (\<lambda>col v s. map_option (\<lambda>(c, t). (c, t, snd s)) (db_set_add db col v (fst s))),
      db_set_drop = (\<lambda>col v s. map_option (\<lambda>(c, t). (c, t, snd s)) (db_set_drop db col v (fst s))),
      db_value_compare = (\<lambda>v w s. db_value_compare db v w (fst s)), db_execute = (\<lambda>q vs s. db_execute db q vs (fst s)),
      db_commit_transaction = (\<lambda>s. Some (fst s, fst s)), db_abort_transaction = (\<lambda>s. Some (snd s, snd s))\<rparr>"

lemma lift_db_tx_ok: "tx_ok (lift_db (mem_dbi S u)) (\<lambda>s. mem_view S (fst s)) (\<lambda>s. mem_view S (snd s))"
proof -
  have "\<exists>s'. db_put (mem_dbi S u) x a v s = Some s' \<and> mem_view S s' = set_att x a v (mem_view S s)" if "att (mem_view S s) x a \<noteq> None" for s x a v
    using that mem_set_view [of s x "the (map_of (mobjects s) x)" a S v]
    by (auto simp: mem_dbi_def mem_view_def split: option.split_asm if_split_asm)
  then have "\<exists>s'. db_put (lift_db (mem_dbi S u)) x a v s = Some s' \<and> mem_view S (fst s') = set_att x a v (mem_view S (fst s)) \<and> mem_view S (snd s') = mem_view S (snd s)"
    if "att (mem_view S (fst s)) x a \<noteq> None" for s x a v using that by (fastforce simp: lift_db_def)
  then show ?thesis unfolding tx_ok_def by (auto simp: lift_db_def simp del: not_None_eq)
qed

text \<open>A transaction that has changed the version object, with an open log; the check of the addresses gives \<open>r\<close>.\<close>

definition tx_db :: mem where
  "tx_db = \<lparr>mclasses = [(cstr ''unameit_transaction'', 1)], mobjects = [(1, 0)], mvalues = (\<lambda>x a. DB_INTEGER 0)\<rparr>"

abbreviation tx_attrs :: "nat \<Rightarrow> cstr list" where
  "tx_attrs \<equiv> \<lambda>c. [cstr ''data_minor'', cstr ''data_micro'', cstr ''schema_micro'']"

abbreviation tx_dbi :: "(mem \<times> mem, nat) dbi" where "tx_dbi \<equiv> lift_db (mem_dbi tx_attrs (\<lambda>c a. False))"
abbreviation tx_current :: "mem \<times> mem \<Rightarrow> nat store" where "tx_current \<equiv> \<lambda>s. mem_view tx_attrs (fst s)"
abbreviation tx_committed :: "mem \<times> mem \<Rightarrow> nat store" where "tx_committed \<equiv> \<lambda>s. mem_view tx_attrs (snd s)"

definition tx_world :: "(mem \<times> mem, nat) server" where
  "tx_world =
     udb.extend ((udb_start (mem_set 1 (cstr ''data_minor'') (DB_INTEGER 5) tx_db, tx_db))\<lparr>tx_db_updated := True, new_tx_dmicro := True, tx_class := Some 1, logFd := Some (cstr ''log'')\<rparr>)
       (server.fields
         \<lparr>license_start = 0, license_end = 0, license_host_units = 10, license_person_units = 10, current_item_units = 0,
          current_host_units = 0, current_person_units = 0, delta_item_units = 1, delta_host_units = 1, delta_person_units = 0\<rparr>)"

definition tx_inet :: "cstr tcl_result \<Rightarrow> (nat, unit, (mem \<times> mem, nat) server) inet_calls" where
  "tx_inet r =
     \<lparr>Udb_Inet_Populate_Tables = (\<lambda>x w. None), Udb_Inet_Update = (\<lambda>u x a b w. None),
      Udb_Inet_Check_Integrity = (\<lambda>w. Some (Done (r, w))), Udb_Inet_Reset_Checks = (\<lambda>w. w)\<rparr>"

abbreviation tx_scripts :: "(mem \<times> mem, nat) server \<Rightarrow> (cstr tcl_result \<times> (mem \<times> mem, nat) server) c_run option" where
  "tx_scripts \<equiv> \<lambda>w. Some (Done (Tcl_Ok [], w))"

lemma tx_world_ok: "tx_db_updated tx_world" "\<not> force_rollback tx_world" "\<not> schema_modified tx_world"
  by (simp_all add: tx_world_def udb_start_def udb.defs server.defs)

lemma tx_world_versions: "tx_same tx_world w \<Longrightarrow> versions_ok tx_current w"
  by (simp add: tx_same_def ctl_same_def tx_world_def udb_start_def udb.defs server.defs versions_ok_def mem_view_def tx_db_def mem_set_def)

lemma tx_world_raised:
  "tx_same tx_world w \<Longrightarrow> versions_raised w (tx_current (database w)) = set_att 1 (cstr ''data_micro'') (DB_INTEGER 1) (tx_current (database tx_world))"
  by (simp add: versions_raised_def tx_same_def ctl_same_def) (simp add: tx_world_def udb_start_def udb.defs server.defs int32_def)

lemma tx_world_start:
  "att (tx_current (database tx_world)) 1 (cstr ''data_minor'') = Some (DB_INTEGER 5)" "att (tx_committed (database tx_world)) 1 (cstr ''data_minor'') = Some (DB_INTEGER 0)"
  "cstr ''data_minor'' \<noteq> cstr ''data_micro''"
  by (simp_all add: tx_world_def udb_start_def udb.defs server.defs mem_view_def mem_set_def tx_db_def) (simp add: cstr_def)

lemma tx_inet_ok: "inet_ok (tx_inet r)" "schema_ok tx_current tx_committed tx_scripts tx_scripts"
  by (simp_all add: inet_ok_def tx_inet_def schema_ok_def in_transaction_def)

lemma tx_world_prepare:
  "\<exists>w1. commit_prepare 0 tx_dbi (tx_inet r) (\<lambda>a b. None) (@) tx_scripts tx_world =
       Some (Done (case r of Tcl_Ok _ \<Rightarrow> Tcl_Ok [] | Tcl_Error code msg \<Rightarrow> r, w1)) \<and> tx_same tx_world w1"
  by (simp add: commit_prepare_def commit_checks_def tx_world_def udb_start_def udb.defs server.defs tx_inet_def Udb_Do_Reference_Checks_def
      Udb_Do_Unique_Checks_def Udb_Do_Loop_Checks_def split: tcl_result.split)

theorem commit_all_or_nothing_witness:
  "(\<exists>w'. Udb_Do_Commit 0 tx_dbi (tx_inet (Tcl_Ok [])) (\<lambda>a b. None) (@) tx_scripts tx_scripts None tx_world = Some (Done (Tcl_Ok [], w')) \<and>
      att (tx_committed (database w')) 1 (cstr ''data_minor'') = Some (DB_INTEGER 5) \<and>
      att (tx_committed (database w')) 1 (cstr ''data_micro'') = Some (DB_INTEGER 1)) \<and>
   (\<exists>w'. Udb_Do_Commit 0 tx_dbi (tx_inet (Tcl_Error [] [])) (\<lambda>a b. None) (@) tx_scripts tx_scripts None tx_world = Some (Done (Tcl_Error [] [], w')) \<and>
      att (tx_current (database w')) 1 (cstr ''data_minor'') = Some (DB_INTEGER 0))"
proof (rule conjI)
  note commit = commit_all_or_nothing [OF lift_db_tx_ok tx_inet_ok tx_world_ok(1,2), where n = 0 and getvar = "\<lambda>a b. None" and elem = "(@)" and logEntry = None]
  obtain w1 where w1: "commit_prepare 0 tx_dbi (tx_inet (Tcl_Ok [])) (\<lambda>a b. None) (@) tx_scripts tx_world = Some (Done (Tcl_Ok [], w1))" "tx_same tx_world w1"
    using tx_world_prepare [of "Tcl_Ok []"] by auto
  obtain w' where w': "Udb_Do_Commit 0 tx_dbi (tx_inet (Tcl_Ok [])) (\<lambda>a b. None) (@) tx_scripts tx_scripts None tx_world = Some (Done (Tcl_Ok [], w'))"
    "tx_committed (database w') = versions_raised w1 (tx_current (database w1))"
    using commit [OF tx_world_versions [OF w1(2)] w1(1)] by (auto simp: made_permanent_def)
  have "att (tx_committed (database w')) 1 (cstr ''data_minor'') = Some (DB_INTEGER 5) \<and> att (tx_committed (database w')) 1 (cstr ''data_micro'') = Some (DB_INTEGER 1)"
    unfolding w'(2) tx_world_raised [OF w1(2)] using tx_world_start(1,3) by simp
  then show "\<exists>w'. Udb_Do_Commit 0 tx_dbi (tx_inet (Tcl_Ok [])) (\<lambda>a b. None) (@) tx_scripts tx_scripts None tx_world = Some (Done (Tcl_Ok [], w')) \<and>
      att (tx_committed (database w')) 1 (cstr ''data_minor'') = Some (DB_INTEGER 5) \<and>
      att (tx_committed (database w')) 1 (cstr ''data_micro'') = Some (DB_INTEGER 1)"
    using w'(1) by blast
  obtain w1 where w1: "commit_prepare 0 tx_dbi (tx_inet (Tcl_Error [] [])) (\<lambda>a b. None) (@) tx_scripts tx_world = Some (Done (Tcl_Error [] [], w1))" "tx_same tx_world w1"
    using tx_world_prepare [of "Tcl_Error [] []"] by auto
  obtain w' where w': "Udb_Do_Commit 0 tx_dbi (tx_inet (Tcl_Error [] [])) (\<lambda>a b. None) (@) tx_scripts tx_scripts None tx_world = Some (Done (Tcl_Error [] [], w'))"
    "tx_current (database w') = tx_committed (database tx_world)"
    using commit [OF tx_world_versions [OF w1(2)] w1(1)] by (auto simp: rolled_back_def)
  have "att (tx_current (database w')) 1 (cstr ''data_minor'') = Some (DB_INTEGER 0)" unfolding w'(2) by (rule tx_world_start(2))
  then show "\<exists>w'. Udb_Do_Commit 0 tx_dbi (tx_inet (Tcl_Error [] [])) (\<lambda>a b. None) (@) tx_scripts tx_scripts None tx_world = Some (Done (Tcl_Error [] [], w')) \<and>
      att (tx_current (database w')) 1 (cstr ''data_minor'') = Some (DB_INTEGER 0)"
    using w'(1) by blast
qed

end
