(* ===== verification/Items.thy ===== *)
theory Items
  imports Transaction
begin

text \<open>
  The commands that change items: \<^verbatim>\<open>libudb/create.c\<close>, \<^verbatim>\<open>update.c\<close> and \<^verbatim>\<open>delete.c\<close>, with the conversion of
  attribute values from strings in \<^verbatim>\<open>libudb/convert.c\<close>.

  \<open>db_value_put\<close> is the conversion of a string to an integer by the database, \<open>db_col_add\<close> adds a value to a new
  collection of the given type, and \<open>not_unique\<close> tells whether the error of a failed \<open>dbt_finish_object\<close> is that of
  a unique attribute.  An item is written with its caches and relations; the license counters follow.
\<close>

section \<open>Values from strings\<close>

definition Udb_String_To_Int32_Value :: "(cstr \<Rightarrow> int option) \<Rightarrow> cstr \<Rightarrow> 'o db_value option" where
  "Udb_String_To_Int32_Value db_value_put input =
     (if input = [] then Some DB_NULL else map_option DB_INTEGER (db_value_put input))"

text \<open>Whether a pointer attribute has referential integrity; one of the address tree is protected.\<close>

definition refint_action :: "('s, 'o) dbi \<Rightarrow> tclvar \<Rightarrow> 'o \<Rightarrow> cstr \<Rightarrow> ('s, 'o, 'm) udb_scheme \<Rightarrow> (bool \<times> ('s, 'o, 'm) udb_scheme) c_run" where
  "refint_action db getvar class aname w =
     c_bind (Udb_Get_Relaction db getvar class aname w) (\<lambda>(action, w).
       if action \<noteq> cstr ''Block'' \<and> action \<noteq> cstr ''Cascade'' \<and> action \<noteq> cstr ''Nullify''
       then if action = cstr ''Network'' then Done (False, w) else Panic
       else Done (True, w))"

text \<open>The elements of a collection; null elements are ignored.\<close>

fun scan_elements ::
  "(cstr \<Rightarrow> ('s, 'o, 'm) udb_scheme \<Rightarrow> (('o db_value \<times> bool) tcl_result \<times> ('s, 'o, 'm) udb_scheme) c_run) \<Rightarrow> ('o db_value list \<Rightarrow> 'o db_value \<Rightarrow> 'o db_value list) \<Rightarrow>
     cstr list \<Rightarrow> 'o db_value list \<Rightarrow> ('s, 'o, 'm) udb_scheme \<Rightarrow> ('o db_value list tcl_result \<times> ('s, 'o, 'm) udb_scheme) c_run" where
  "scan_elements scan add [] col w = Done (Tcl_Ok col, w)"
| "scan_elements scan add (input # inputs) col w =
     c_bind (scan input w) (\<lambda>(result, w).
       case result of
         Tcl_Error code msg \<Rightarrow> Done (Tcl_Error code msg, w)
       | Tcl_Ok (value, _) \<Rightarrow> scan_elements scan add inputs (if value = DB_NULL then col else add col value) w)"

text \<open>
  \<open>dorefint\<close> tells whether the pointer to the flag is given; the flag is the second part of the result.  A collection
  inside a collection writes the flag through a null pointer.  The call that reports a wrong class of the referenced item
  does not end its arguments, so that \<open>Udb_Error\<close> reads beyond them.
\<close>

definition scan_collection ::
  "('s, 'o) dbi \<Rightarrow> tclvar \<Rightarrow> (cstr \<Rightarrow> cstr list option) \<Rightarrow> 'o \<Rightarrow> cstr \<Rightarrow> cstr \<Rightarrow> 'o db_domain \<Rightarrow> ('o db_collection \<Rightarrow> 'o db_value) \<Rightarrow> ('o db_value list \<Rightarrow> 'o db_value \<Rightarrow> 'o db_value list) \<Rightarrow>
     (cstr \<Rightarrow> ('s, 'o, 'm) udb_scheme \<Rightarrow> (('o db_value \<times> bool) tcl_result \<times> ('s, 'o, 'm) udb_scheme) c_run) \<Rightarrow> bool \<Rightarrow> cstr \<Rightarrow> ('s, 'o, 'm) udb_scheme \<Rightarrow>
     (('o db_value \<times> bool) tcl_result \<times> ('s, 'o, 'm) udb_scheme) c_run" where
  "scan_collection db getvar split class uuid aname element_domain mk add scan dorefint input w =
     (case split input of
        None \<Rightarrow> Done (Udb_Error ''ENOTLIST'' [uuid, aname, input], w)
      | Some input_argv \<Rightarrow>
          if \<not> dorefint then Overrun
          else
            let refint = (db_domain_type element_domain = DB_TYPE_OBJECT)
            in c_bind (if refint then refint_action db getvar class aname w else Done (True, w)) (\<lambda>(ok, w).
                 if \<not> ok then Done (Udb_Error ''EPROTECTED'' [uuid, aname], w)
                 else c_bind (scan_elements scan add input_argv [] w) (\<lambda>(result, w).
                   Done (case result of Tcl_Error code msg \<Rightarrow> Tcl_Error code msg | Tcl_Ok vs \<Rightarrow> Tcl_Ok (mk (Col_New vs), refint), w))))"

definition scan_object ::
  "('s, 'o) dbi \<Rightarrow> tclvar \<Rightarrow> 'o \<Rightarrow> cstr \<Rightarrow> cstr \<Rightarrow> 'o option \<Rightarrow> bool \<Rightarrow> cstr \<Rightarrow> ('s, 'o, 'm) udb_scheme \<Rightarrow>
     (('o db_value \<times> bool) tcl_result \<times> ('s, 'o, 'm) udb_scheme) c_run" where
  "scan_object db getvar class uuid aname dclass dorefint input w =
     c_bind (if dorefint then refint_action db getvar class aname w else Done (True, w)) (\<lambda>(ok, w).
       if \<not> ok then Done (Udb_Error ''EPROTECTED'' [uuid, aname], w)
       else if input = [] then Done (Tcl_Ok (DB_NULL, True), w)
       else if \<not> Uuid_Valid input then Done (Udb_Error ''ENOTREFUUID'' [uuid, aname, input], w)
       else c_bind (Udb_Find_Object db input w) (\<lambda>(x, w).
         case x of
           None \<Rightarrow> Done (Udb_Error ''ENXREFITEM'' [uuid, aname, input], w)
         | Some x \<Rightarrow> c_bind (check_some dclass) (\<lambda>super.
             let (isa, w) = Udb_ISA db (db_get_class db x (database w)) super w
             in if \<not> isa then Overrun else Done (Tcl_Ok (DB_OBJECT x, True), w))))"

primrec Scan_Value ::
  "('s, 'o) dbi \<Rightarrow> tclvar \<Rightarrow> (cstr \<Rightarrow> int option) \<Rightarrow> (cstr \<Rightarrow> cstr list option) \<Rightarrow> (db_type \<Rightarrow> 'o db_value list \<Rightarrow> 'o db_value \<Rightarrow> 'o db_value list) \<Rightarrow>
     'o \<Rightarrow> cstr \<Rightarrow> cstr \<Rightarrow> 'o db_domain \<Rightarrow> bool \<Rightarrow> cstr \<Rightarrow> ('s, 'o, 'm) udb_scheme \<Rightarrow> (('o db_value \<times> bool) tcl_result \<times> ('s, 'o, 'm) udb_scheme) c_run" where
  "Scan_Value db getvar db_value_put split db_col_add class uuid aname (Dom_Scalar type dclass) dorefint input w =
     (case type of
        DB_TYPE_INTEGER \<Rightarrow>
          Done (case Udb_String_To_Int32_Value db_value_put input of
                  Some v \<Rightarrow> Tcl_Ok (v, False)
                | None \<Rightarrow> Udb_Error ''ENOTINT'' [uuid, aname, input], w)
      | DB_TYPE_STRING \<Rightarrow>
          if input \<noteq> [] then Done (Tcl_Ok (DB_STRING input, False), w)
          else c_bind (Udb_Get_Class_Name db class w) (\<lambda>(cname, w).
            Done (Tcl_Ok (if Udb_Attr_Is_Nullable getvar cname aname then DB_NULL else DB_STRING [], False), w))
      | DB_TYPE_OBJECT \<Rightarrow> scan_object db getvar class uuid aname dclass dorefint input w
      | _ \<Rightarrow> Panic)"
| "Scan_Value db getvar db_value_put split db_col_add class uuid aname (Dom_Set d) dorefint input w =
     scan_collection db getvar split class uuid aname d DB_SET (db_col_add DB_TYPE_SET)
       (Scan_Value db getvar db_value_put split db_col_add class uuid aname d False) dorefint input w"
| "Scan_Value db getvar db_value_put split db_col_add class uuid aname (Dom_Sequence d) dorefint input w =
     scan_collection db getvar split class uuid aname d DB_SEQUENCE (db_col_add DB_TYPE_SEQUENCE)
       (Scan_Value db getvar db_value_put split db_col_add class uuid aname d False) dorefint input w"

text \<open>The changed pointer attributes are collected with the type of their values.\<close>

type_synonym 'o relations = "(cstr \<times> db_type \<times> 'o db_value) list"

definition Udb_Set_Attribute ::
  "('s, 'o) dbi \<Rightarrow> tclvar \<Rightarrow> (cstr \<Rightarrow> int option) \<Rightarrow> (cstr \<Rightarrow> cstr list option) \<Rightarrow> (db_type \<Rightarrow> 'o db_value list \<Rightarrow> 'o db_value \<Rightarrow> 'o db_value list) \<Rightarrow>
     cstr \<Rightarrow> 'o \<Rightarrow> 'o otmpl \<Rightarrow> cstr \<Rightarrow> cstr \<Rightarrow> 'o relations \<Rightarrow> ('s, 'o, 'm) udb_scheme \<Rightarrow>
     (('o otmpl \<times> 'o relations) tcl_result \<times> ('s, 'o, 'm) udb_scheme) c_run" where
  "Udb_Set_Attribute db getvar db_value_put split db_col_add uuid object template aname input relations w =
     (if Udb_Attr_Is_Protected getvar aname then Done (Udb_Error ''EPROTECTED'' [uuid, aname], w)
      else
        let class = db_get_class db object (database w)
        in case Udb_Attribute_Domain db class aname w of
             (None, w) \<Rightarrow> Done (Udb_Error ''ENOATTR'' [uuid, aname], w)
           | (Some domain, w) \<Rightarrow>
               c_bind (Scan_Value db getvar db_value_put split db_col_add class uuid aname domain True input w) (\<lambda>(result, w).
                 Done (case result of
                         Tcl_Error code msg \<Rightarrow> Tcl_Error code msg
                       | Tcl_Ok (value, dorefint) \<Rightarrow>
                           Tcl_Ok (dbt_put template aname value,
                                   if dorefint then tbl_set aname (db_domain_type domain, value) relations else relations), w)))"

section \<open>Creating and undeleting\<close>

fun pairs :: "cstr list \<Rightarrow> (cstr \<times> cstr) list" where
  "pairs (a # v # argv) = (a, v) # pairs argv"
| "pairs argv = []"

text \<open>A data item must have an owner, unless the attribute is kept by the address tree.\<close>

definition owner_missing ::
  "('s, 'o) dbi \<Rightarrow> tclvar \<Rightarrow> 'o \<Rightarrow> ('s, 'o, 'm) udb_scheme \<Rightarrow> (bool \<times> ('s, 'o, 'm) udb_scheme) c_run" where
  "owner_missing db getvar class w =
     c_bind (Lookup.Udb_Is_Data_Class db class w) (\<lambda>(data, w).
       if data
       then c_bind (Udb_Get_Relaction db getvar class (cstr ''owner'') w) (\<lambda>(action, w). Done (action \<noteq> cstr ''Network'', w))
       else Done (False, w))"

text \<open>
  The loop over the attributes, which ends with the template, the changed pointers and whether a root is made.  The
  owner is asked for after the last attribute, so not at all when there is none.  \<open>null_owner\<close> decides about an empty
  owner: only the root cell and the root role may have it, and an undeleted item never.
\<close>

fun create_attributes ::
  "('s, 'o) dbi \<Rightarrow> tclvar \<Rightarrow> (cstr \<Rightarrow> int option) \<Rightarrow> (cstr \<Rightarrow> cstr list option) \<Rightarrow> (db_type \<Rightarrow> 'o db_value list \<Rightarrow> 'o db_value \<Rightarrow> 'o db_value list) \<Rightarrow>
     (('s, 'o, 'm) udb_scheme \<Rightarrow> (bool \<times> ('s, 'o, 'm) udb_scheme) c_run) \<Rightarrow> cstr \<Rightarrow> 'o \<Rightarrow> (cstr \<times> cstr) list \<Rightarrow>
     'o otmpl \<Rightarrow> 'o relations \<Rightarrow> bool \<Rightarrow> bool \<Rightarrow> ('s, 'o, 'm) udb_scheme \<Rightarrow>
     (('o otmpl \<times> 'o relations \<times> bool) tcl_result \<times> ('s, 'o, 'm) udb_scheme) c_run" where
  "create_attributes db getvar db_value_put split db_col_add null_owner uuid class [] template relations owner_set set_root w =
     Done (Tcl_Ok (template, relations, set_root), w)"
| "create_attributes db getvar db_value_put split db_col_add null_owner uuid class ((aname, input) # args) template relations owner_set set_root w =
     c_bind (Udb_Set_Attribute db getvar db_value_put split db_col_add uuid class template aname input relations w) (\<lambda>(ok, w).
       case ok of
         Tcl_Error code msg \<Rightarrow> Done (Tcl_Error code msg, w)
       | Tcl_Ok (template, relations) \<Rightarrow>
           c_bind (if aname = cstr ''owner'' \<and> input = [] then null_owner w else Done (True, w)) (\<lambda>(allowed, w).
             if \<not> allowed then Done (Udb_Error ''ENULL'' [uuid, aname], w)
             else
               let set_root = (set_root \<or> aname = cstr ''owner'' \<and> input = []);
                   owner_set = (owner_set \<or> aname = cstr ''owner'')
               in c_bind (if args = [] \<and> \<not> owner_set then owner_missing db getvar class w else Done (False, w)) (\<lambda>(missing, w).
                    if missing then Done (Udb_Error ''ENULL'' [uuid, cstr ''owner''], w)
                    else create_attributes db getvar db_value_put split db_col_add null_owner uuid class args template relations owner_set set_root w)))"

definition root_may_be_made :: "('s, 'o) dbi \<Rightarrow> cstr \<Rightarrow> 'o \<Rightarrow> ('s, 'o, 'm) udb_scheme \<Rightarrow> (bool \<times> ('s, 'o, 'm) udb_scheme) c_run" where
  "root_may_be_made db cname class w =
     (if cname = cstr ''cell'' \<or> cname = cstr ''role'' then c_bind (Udb_Get_Root db class w) (\<lambda>(root, w). Done (root = None, w))
      else Done (False, w))"

text \<open>\<open>Udb_Adjust_License_Count\<close> asks for the kind of the class.\<close>

definition adjust_license ::
  "('s, 'o) dbi \<Rightarrow> 'o \<Rightarrow> int \<Rightarrow> ('s, 'o, 'm) server_scheme \<Rightarrow> ('s, 'o, 'm) server_scheme c_run" where
  "adjust_license db class count w =
     c_bind (Lookup.Udb_Is_Data_Class db class w) (\<lambda>(data, w).
       let (host, w) = (if data then Lookup.Udb_Is_Host_Class db class w else (False, w));
           (person, w) = (if data \<and> \<not> host then Lookup.Udb_Is_Person_Class db class w else (False, w))
       in Done (w\<lparr>licenses := Udb_Adjust_License_Count
                   \<lparr>Udb_Is_Data_Class = (\<lambda>c. data), Udb_Is_Host_Class = (\<lambda>c. host), Udb_Is_Person_Class = (\<lambda>c. person)\<rparr>
                   class count (licenses w)\<rparr>))"

text \<open>After the object has been written: its caches, its root, its relations, the counters and the table of new items.\<close>

definition create_finish ::
  "('s, 'o) dbi \<Rightarrow> ('o, 'i, ('s, 'o, 'm) server_scheme) inet_calls \<Rightarrow> tclvar \<Rightarrow> (cstr \<Rightarrow> int option) \<Rightarrow> (cstr \<Rightarrow> cstr list option) \<Rightarrow> (cstr \<Rightarrow> cstr \<Rightarrow> cstr) \<Rightarrow>
     cstr \<Rightarrow> 'o \<Rightarrow> 'o \<Rightarrow> 'o relations \<Rightarrow> bool \<Rightarrow> bool \<Rightarrow> ('s, 'o, 'm) server_scheme \<Rightarrow> (cstr tcl_result \<times> ('s, 'o, 'm) server_scheme) c_run option" where
  "create_finish db inet getvar db_value_put split elem uuid class object relations set_root dont_loopcheck w =
     o_bind (Udb_Populate_Caches db inet getvar split elem object w) (\<lambda>(new_tables, w).
     o_bind (Udb_Update_Caches db inet getvar db_value_put split elem uuid object None (Some new_tables) w) (\<lambda>(result, w).
       case result of
         Tcl_Error code msg \<Rightarrow> Some (Done (Tcl_Error code msg, Udb_Force_Rollback code msg w))
       | Tcl_Ok r \<Rightarrow>
           Some (c_bind (if set_root then Udb_Set_Root db class object w else Done w) (\<lambda>w.
                 c_bind (Udb_Update_Relations db getvar class object relations True dont_loopcheck w) (\<lambda>w.
                 c_bind (adjust_license db class 1 w) (\<lambda>w.
                 c_bind (Udb_New_Object uuid object w) (\<lambda>w. Done (Tcl_Ok [], w))))))))"

definition Udb_Create ::
  "('s, 'o) dbi \<Rightarrow> ('o, 'i, ('s, 'o, 'm) server_scheme) inet_calls \<Rightarrow> tclvar \<Rightarrow> (cstr \<Rightarrow> int option) \<Rightarrow> (cstr \<Rightarrow> cstr list option) \<Rightarrow> (cstr \<Rightarrow> cstr \<Rightarrow> cstr) \<Rightarrow>
     (db_type \<Rightarrow> 'o db_value list \<Rightarrow> 'o db_value \<Rightarrow> 'o db_value list) \<Rightarrow> ('s \<Rightarrow> bool) \<Rightarrow> cstr list \<Rightarrow>
     ('s, 'o, 'm) server_scheme \<Rightarrow> (cstr tcl_result \<times> ('s, 'o, 'm) server_scheme) c_run option" where
  "Udb_Create db inet getvar db_value_put split elem db_col_add not_unique argv w =
     (let args = tl argv; cname = args ! 0; uuid = args ! 1
      in if length args < 2 \<or> length args mod 2 \<noteq> 0
         then Some (Done (Udb_Error ''EUSAGE'' [hd argv, cstr ''class uuid ?attribute value? ...''], w))
         else if \<not> Uuid_Valid uuid then Some (Done (Udb_Error ''ENOTUUID'' [uuid], w))
         else if Udb_Over_License_Count (licenses w) then Some (Done (Udb_Error ''EUNITCOUNT'' [uuid], w))
         else case Udb_Get_Class_opt db cname w of
           (None, w) \<Rightarrow> Some (Done (Udb_Error ''ENXREFCLASS'' [uuid, cname], w))
         | (Some class, w) \<Rightarrow>
             o_bind (Some (Udb_Is_Item_Class db class w)) (\<lambda>(item, w).
               if \<not> item then Some (Done (Udb_Error ''ENXREFCLASS'' [uuid, cname], w))
               else
                 o_bind (Some (Udb_Class_Is_Readonly db getvar class w)) (\<lambda>(readonly, w).
                   if readonly then Some (Done (Udb_Error ''EREADONLY'' [uuid, cname], w))
                   else
                     o_bind (Some (create_attributes db getvar db_value_put split db_col_add (root_may_be_made db cname class) uuid class (pairs (drop 2 args))
                                     (dbt_put (dbt_create_object class) (cstr ''uuid'') (DB_STRING uuid)) [] False False w)) (\<lambda>(ok, w).
                       case ok of
                         Tcl_Error code msg \<Rightarrow> Some (Done (Tcl_Error code msg, w))
                       | Tcl_Ok (template, relations, set_root) \<Rightarrow>
                           o_bind (Some (Udb_Finish_Object db (Some class) (Some template) False w)) (\<lambda>(object, w).
                             case object of
                               None \<Rightarrow>
                                 if not_unique (database w) then Some (Done (Udb_Error ''EUSEDUUID'' [uuid], w)) else Some Panic
                             | Some object \<Rightarrow>
                                 create_finish db inet getvar db_value_put split elem uuid class object relations set_root
                                   (restore_mode w = RESTOREDATA) w)))))"

definition Udb_Undelete ::
  "('s, 'o) dbi \<Rightarrow> ('o, 'i, ('s, 'o, 'm) server_scheme) inet_calls \<Rightarrow> tclvar \<Rightarrow> (cstr \<Rightarrow> int option) \<Rightarrow> (cstr \<Rightarrow> cstr list option) \<Rightarrow> (cstr \<Rightarrow> cstr \<Rightarrow> cstr) \<Rightarrow>
     (db_type \<Rightarrow> 'o db_value list \<Rightarrow> 'o db_value \<Rightarrow> 'o db_value list) \<Rightarrow> cstr list \<Rightarrow>
     ('s, 'o, 'm) server_scheme \<Rightarrow> (cstr tcl_result \<times> ('s, 'o, 'm) server_scheme) c_run option" where
  "Udb_Undelete db inet getvar db_value_put split elem db_col_add argv w =
     (let args = tl argv; uuid = args ! 0
      in if length args < 1 \<or> length args mod 2 \<noteq> 1
         then Some (Done (Udb_Error ''EUSAGE'' [hd argv, cstr ''uuid ?attribute value? ...''], w))
         else if \<not> Uuid_Valid uuid then Some (Done (Udb_Error ''ENOTUUID'' [uuid], w))
         else if Udb_Over_License_Count (licenses w) then Some (Done (Udb_Error ''EUNITCOUNT'' [uuid], w))
         else
           o_bind (Some (Udb_Find_Any_Object db uuid w)) (\<lambda>(x, w).
             case x of
               None \<Rightarrow> Some (Done (Udb_Error ''ENXITEM'' [uuid], w))
             | Some object \<Rightarrow>
                 o_bind (Some (Udb_Find_Object db uuid w)) (\<lambda>(y, w).
                   if y \<noteq> None then Some (Done (Udb_Error ''EUSEDUUID'' [uuid], w))
                   else
                     let class = db_get_class db object (database w)
                     in o_bind (Some (Udb_Class_Is_Readonly db getvar class w)) (\<lambda>(readonly, w).
                          if readonly
                          then o_bind (Some (Udb_Get_Class_Name db class w)) (\<lambda>(name, w). Some (Done (Udb_Error ''EREADONLY'' [uuid, name], w)))
                          else
                            o_bind (Some (create_attributes db getvar db_value_put split db_col_add (\<lambda>w. Done (False, w)) uuid class (pairs (drop 1 args))
                                            (dbt_put (dbt_edit_object object) (cstr ''deleted'') DB_NULL) [] False False w)) (\<lambda>(ok, w).
                              case ok of
                                Tcl_Error code msg \<Rightarrow> Some (Done (Tcl_Error code msg, w))
                              | Tcl_Ok (template, relations, set_root) \<Rightarrow>
                                  o_bind (Some (Udb_Finish_Object db (Some class) (Some template) False w)) (\<lambda>(x, w).
                                    if x \<noteq> Some object then Some Panic
                                    else create_finish db inet getvar db_value_put split elem uuid class object relations False False w))))))"

section \<open>Updating\<close>

text \<open>Items stay in their cell, and cells in their organization.\<close>

definition Check_Owner ::
  "('s, 'o) dbi \<Rightarrow> tclvar \<Rightarrow> cstr \<Rightarrow> 'o \<Rightarrow> cstr \<Rightarrow> ('s, 'o, 'm) udb_scheme \<Rightarrow> (unit tcl_result \<times> ('s, 'o, 'm) udb_scheme) c_run option" where
  "Check_Owner db getvar uuid object owner w =
     o_bind (Udb_Get_Cell db getvar None False (Some object) w) (\<lambda>(oldCell, w).
       if owner = [] then Some (Done (Udb_Error ''ENULL'' [uuid, cstr ''owner'', owner], w))
       else if oldCell = Some object then Some (Done (Tcl_Ok (), w))
       else
         o_bind (Some (Udb_Find_Object db owner w)) (\<lambda>(newOwner, w).
         o_bind (Some (check_some newOwner)) (\<lambda>newOwner.
         o_bind (Udb_Get_Cell db getvar (Some object) False (Some newOwner) w) (\<lambda>(newCell, w).
           Some (Done (if newCell \<noteq> oldCell then Udb_Error ''ECELLMOVE'' [uuid, cstr ''owner'', owner] else Tcl_Ok (), w))))))"

definition Check_Organization ::
  "('s, 'o) dbi \<Rightarrow> tclvar \<Rightarrow> cstr \<Rightarrow> 'o \<Rightarrow> cstr \<Rightarrow> ('s, 'o, 'm) udb_scheme \<Rightarrow> (unit tcl_result \<times> ('s, 'o, 'm) udb_scheme) c_run option" where
  "Check_Organization db getvar uuid object org w =
     o_bind (Udb_Get_Cell db getvar None True (Some object) w) (\<lambda>(oldOrg, w).
     o_bind (Some (if org = [] then Done (object, w)
                   else c_bind (Udb_Find_Object db org w) (\<lambda>(x, w). c_bind (check_some x) (\<lambda>x. Done (x, w))))) (\<lambda>(newOrg, w).
       Some (Done (if oldOrg \<noteq> Some newOrg then Udb_Error ''EORGMOVE'' [uuid, cstr ''cellorg'', org] else Tcl_Ok (), w))))"

definition update_checks ::
  "('s, 'o) dbi \<Rightarrow> tclvar \<Rightarrow> cstr \<Rightarrow> 'o \<Rightarrow> cstr \<Rightarrow> cstr \<Rightarrow> ('s, 'o, 'm) udb_scheme \<Rightarrow> (unit tcl_result \<times> ('s, 'o, 'm) udb_scheme) c_run option" where
  "update_checks db getvar uuid object aname input w =
     (if aname = cstr ''owner'' then Check_Owner db getvar uuid object input w
      else if aname = cstr ''cellorg'' then Check_Organization db getvar uuid object input w
      else Some (Done (Tcl_Ok (), w)))"

fun update_attributes ::
  "('s, 'o) dbi \<Rightarrow> tclvar \<Rightarrow> (cstr \<Rightarrow> int option) \<Rightarrow> (cstr \<Rightarrow> cstr list option) \<Rightarrow> (db_type \<Rightarrow> 'o db_value list \<Rightarrow> 'o db_value \<Rightarrow> 'o db_value list) \<Rightarrow>
     cstr \<Rightarrow> 'o \<Rightarrow> (cstr \<times> cstr) list \<Rightarrow> 'o otmpl \<Rightarrow> 'o relations \<Rightarrow> ('s, 'o, 'm) udb_scheme \<Rightarrow>
     (('o otmpl \<times> 'o relations) tcl_result \<times> ('s, 'o, 'm) udb_scheme) c_run option" where
  "update_attributes db getvar db_value_put split db_col_add uuid object [] template relations w = Some (Done (Tcl_Ok (template, relations), w))"
| "update_attributes db getvar db_value_put split db_col_add uuid object ((aname, input) # args) template relations w =
     o_bind (Some (Udb_Set_Attribute db getvar db_value_put split db_col_add uuid object template aname input relations w)) (\<lambda>(ok, w).
       case ok of
         Tcl_Error code msg \<Rightarrow> Some (Done (Tcl_Error code msg, w))
       | Tcl_Ok (template, relations) \<Rightarrow>
           o_bind (update_checks db getvar uuid object aname input w) (\<lambda>(ok, w).
             case ok of
               Tcl_Error code msg \<Rightarrow> Some (Done (Tcl_Error code msg, w))
             | Tcl_Ok _ \<Rightarrow> update_attributes db getvar db_value_put split db_col_add uuid object args template relations w))"

definition Udb_Update ::
  "('s, 'o) dbi \<Rightarrow> ('o, 'i, ('s, 'o, 'm) udb_scheme) inet_calls \<Rightarrow> tclvar \<Rightarrow> (cstr \<Rightarrow> int option) \<Rightarrow> (cstr \<Rightarrow> cstr list option) \<Rightarrow> (cstr \<Rightarrow> cstr \<Rightarrow> cstr) \<Rightarrow>
     (db_type \<Rightarrow> 'o db_value list \<Rightarrow> 'o db_value \<Rightarrow> 'o db_value list) \<Rightarrow> cstr list \<Rightarrow>
     ('s, 'o, 'm) udb_scheme \<Rightarrow> (cstr tcl_result \<times> ('s, 'o, 'm) udb_scheme) c_run option" where
  "Udb_Update db inet getvar db_value_put split elem db_col_add argv w =
     (let uuid = argv ! 1; args = drop 2 argv
      in if length argv < 2 \<or> length argv mod 2 \<noteq> 0 then Some (Done (Udb_Error ''EUSAGE'' [hd argv, cstr ''uuid ?attr value?...''], w))
         else if \<not> Uuid_Valid uuid then Some (Done (Udb_Error ''ENOTUUID'' [uuid], w))
         else
           o_bind (Some (Udb_Find_Object db uuid w)) (\<lambda>(x, w).
             case x of
               None \<Rightarrow> Some (Done (Udb_Error ''ENXITEM'' [uuid], w))
             | Some object \<Rightarrow>
                 let class = db_get_class db object (database w)
                 in o_bind (Some (Udb_Class_Is_Readonly db getvar class w)) (\<lambda>(readonly, w).
                      if readonly
                      then o_bind (Some (Udb_Get_Class_Name db class w)) (\<lambda>(name, w). Some (Done (Udb_Error ''EREADONLY'' [uuid, name], w)))
                      else if args = [] then Some (Done (Tcl_Ok [], w))
                      else
                        o_bind (Udb_Populate_Caches db inet getvar split elem object w) (\<lambda>(oldTables, w).
                        o_bind (update_attributes db getvar db_value_put split db_col_add uuid object (pairs args) (dbt_edit_object object) [] w) (\<lambda>(ok, w).
                          case ok of
                            Tcl_Error code msg \<Rightarrow> Some (Done (Tcl_Error code msg, w))
                          | Tcl_Ok (template, relations) \<Rightarrow>
                              o_bind (Some (Udb_Finish_Object db (Some class) (Some template) False w)) (\<lambda>(x, w).
                                if x \<noteq> Some object then Some Panic
                                else
                                  o_bind (Udb_Populate_Caches db inet getvar split elem object w) (\<lambda>(newTables, w).
                                  o_bind (Udb_Update_Caches db inet getvar db_value_put split elem uuid object (Some oldTables) (Some newTables) w) (\<lambda>(result, w).
                                    case result of
                                      Tcl_Error code msg \<Rightarrow> Some (Done (Tcl_Error code msg, Udb_Force_Rollback code msg w))
                                    | Tcl_Ok r \<Rightarrow>
                                        Some (c_bind (Udb_Update_Relations db getvar class object relations (restore_mode w = RESTOREDATA) False w)
                                                (\<lambda>w. Done (Tcl_Ok [], w)))))))))))"

section \<open>Deleting\<close>

definition Udb_Delete ::
  "('s, 'o) dbi \<Rightarrow> ('o, 'i, ('s, 'o, 'm) server_scheme) inet_calls \<Rightarrow> tclvar \<Rightarrow> (cstr \<Rightarrow> int option) \<Rightarrow> (cstr \<Rightarrow> cstr list option) \<Rightarrow> (cstr \<Rightarrow> cstr \<Rightarrow> cstr) \<Rightarrow>
     (cstr \<Rightarrow> ('s, 'o, 'm) server_scheme \<Rightarrow> (cstr tcl_result \<times> ('s, 'o, 'm) server_scheme) c_run option) \<Rightarrow> cstr list \<Rightarrow>
     ('s, 'o, 'm) server_scheme \<Rightarrow> (cstr tcl_result \<times> ('s, 'o, 'm) server_scheme) c_run option" where
  "Udb_Delete db inet getvar db_value_put split elem unameit_delete argv w =
     (let uuid = argv ! 1
      in if length argv < 2 then Some (Done (Udb_Error ''EUSAGE'' [hd argv, cstr ''uuid''], w))
         else if \<not> Uuid_Valid uuid then Some (Done (Udb_Error ''ENOTUUID'' [uuid], w))
         else
           o_bind (Some (Udb_Find_Object db uuid w)) (\<lambda>(x, w).
             case x of
               None \<Rightarrow> Some (Done (Udb_Error ''ENXITEM'' [uuid], w))
             | Some object \<Rightarrow>
                 let class = db_get_class db object (database w)
                 in o_bind (Some (Udb_Class_Is_Readonly db getvar class w)) (\<lambda>(readonly, w).
                      if readonly
                      then o_bind (Some (Udb_Get_Class_Name db class w)) (\<lambda>(name, w). Some (Done (Udb_Error ''EREADONLY'' [uuid, name], w)))
                      else
                        o_bind (Some (adjust_license db class (-1) w)) (\<lambda>w.
                          Udb_Delete_Object db inet getvar db_value_put split elem unameit_delete class uuid object w))))"

end
