(* ===== verification/ItemProps.thy ===== *)
theory ItemProps
  imports Items TransactionProps
begin

text \<open>
  What the commands on items promise: a command that fails leaves no trace, and what clients put into items is of
  the declared domains.
\<close>

section \<open>Lookups leave the database alone\<close>

text \<open>What is cached of the schema is what the database says.\<close>

definition lookup_ok :: "('s, 'o) dbi \<Rightarrow> ('s, 'o, 'm) udb_scheme \<Rightarrow> bool" where
  "lookup_ok db w \<longleftrightarrow>
     (\<forall>c a d. domainCache w c a = Some d \<longrightarrow> map_of (db_get_attributes db c (database w)) a = Some d) \<and>
     (\<forall>super c isa. subClassCache w super c = Some isa \<longrightarrow> isa = db_is_subclass db c super (database w))"

lemma lookup_ok_updates [simp]:
  "lookup_ok db (w\<lparr>classCache := a\<rparr>) \<longleftrightarrow> lookup_ok db w" "lookup_ok db (w\<lparr>classNameCache := b\<rparr>) \<longleftrightarrow> lookup_ok db w"
  "lookup_ok db (w\<lparr>refintCache := c\<rparr>) \<longleftrightarrow> lookup_ok db w" "lookup_ok db (w\<lparr>itemCache := d\<rparr>) \<longleftrightarrow> lookup_ok db w"
  "lookup_ok db (w\<lparr>rootCache := e\<rparr>) \<longleftrightarrow> lookup_ok db w" "lookup_ok db (w\<lparr>item_class := x\<rparr>) \<longleftrightarrow> lookup_ok db w"
  "lookup_ok db (w\<lparr>prot_item_class := x\<rparr>) \<longleftrightarrow> lookup_ok db w" "lookup_ok db (w\<lparr>data_class := x\<rparr>) \<longleftrightarrow> lookup_ok db w"
  "lookup_ok db (w\<lparr>cell_class := x\<rparr>) \<longleftrightarrow> lookup_ok db w" "lookup_ok db (w\<lparr>schema_modified := y\<rparr>) \<longleftrightarrow> lookup_ok db w"
  "lookup_ok db (w\<lparr>new_tx_dmicro := y\<rparr>) \<longleftrightarrow> lookup_ok db w" "lookup_ok db (w\<lparr>new_tx_smicro := y\<rparr>) \<longleftrightarrow> lookup_ok db w"
  by (simp_all add: lookup_ok_def)

text \<open>The database, what is beyond the statics of the library (the license counters), and the record of changes are as before, and
  the caches stay right.\<close>

definition unchanged :: "('s, 'o) dbi \<Rightarrow> ('s, 'o, 'm) udb_scheme \<Rightarrow> ('s, 'o, 'm) udb_scheme \<Rightarrow> bool" where
  "unchanged db w w' \<longleftrightarrow>
     database w' = database w \<and> udb.more w' = udb.more w \<and> syscall_db_updated w' = syscall_db_updated w \<and> (lookup_ok db w \<longrightarrow> lookup_ok db w')"

named_theorems unch \<open>calls that leave the database unchanged\<close>

lemma unchanged_refl [simp]: "unchanged db w w"
  by (simp add: unchanged_def)

lemma unchanged_trans: "unchanged db u v \<Longrightarrow> unchanged db v w \<Longrightarrow> unchanged db u w"
  by (simp add: unchanged_def)

lemma unchanged_licenses: "unchanged db w w' \<Longrightarrow> database w' = database w \<and> licenses w' = licenses (w :: ('s, 'o, 'm) server_scheme)"
  by (cases w; cases w') (simp add: unchanged_def)

text \<open>A run that ends, ends in a state with the same database.\<close>

definition keeps :: "('s, 'o) dbi \<Rightarrow> ('s, 'o, 'm) udb_scheme \<Rightarrow> ('r \<times> ('s, 'o, 'm) udb_scheme) c_run \<Rightarrow> bool" where
  "keeps db w m \<longleftrightarrow> (\<forall>r w'. m = Done (r, w') \<longrightarrow> unchanged db w w')"

lemma keeps_simps [simp]: "keeps db w Panic" "keeps db w Overrun" "keeps db w (Done p) \<longleftrightarrow> unchanged db w (snd p)"
  by (cases p; simp add: keeps_def)+

lemma keeps_bind:
  assumes "keeps db w m" "\<And>r w'. m = Done (r, w') \<Longrightarrow> unchanged db w w' \<Longrightarrow> keeps db w' (f (r, w'))"
  shows "keeps db w (c_bind m f)"
  using assms by (cases m) (auto simp: keeps_def intro: unchanged_trans)

lemma keeps_pure: "(\<And>x. m = Done x \<Longrightarrow> keeps db w (f x)) \<Longrightarrow> keeps db w (c_bind m f)"
  by (cases m) auto

lemma keeps_case_prod: "(\<And>a b. p = (a, b) \<Longrightarrow> keeps db w (f a b)) \<Longrightarrow> keeps db w (case p of (a, b) \<Rightarrow> f a b)"
  by (cases p) simp

lemma Udb_Get_Class_opt_unch: "unchanged db w (snd (Udb_Get_Class_opt db n w))"
  by (simp add: Udb_Get_Class_opt_def unchanged_def split: option.split)

lemma Udb_ISA_unch: "unchanged db w (snd (Udb_ISA db c d w))"
  by (auto simp: Udb_ISA_def unchanged_def lookup_ok_def Let_def split: option.split)

lemma Udb_Attribute_Domain_unch: "unchanged db w (snd (Udb_Attribute_Domain db c a w))"
  by (auto simp: Udb_Attribute_Domain_def unchanged_def lookup_ok_def split: option.split)

lemma Udb_Get_Class_keeps [unch]: "keeps db w (Udb_Get_Class db n w)"
  using Udb_Get_Class_opt_unch [of db w n] by (auto simp: Udb_Get_Class_def split: prod.split option.split)

lemma class_statics_keep [unch]: "keeps db w (ITEM_CLASS db w)" "keeps db w (PROT_ITEM_CLASS db w)" "keeps db w (DATA_CLASS db w)" "keeps db w (CELL_CLASS db w)"
  using Udb_Get_Class_keeps [of db w]
  by (auto simp: ITEM_CLASS_def PROT_ITEM_CLASS_def DATA_CLASS_def CELL_CLASS_def keeps_def unchanged_def c_bind_Done split: option.split_asm)

lemma Udb_Is_Item_Class_keeps [unch]: "keeps db w (Udb_Is_Item_Class db c w)"
  unfolding Udb_Is_Item_Class_def by (rule keeps_bind [OF class_statics_keep(1)]) (simp add: Udb_ISA_unch)

lemma Udb_Is_Data_Class_keeps [unch]: "keeps db w (Lookup.Udb_Is_Data_Class db c w)"
  unfolding Lookup.Udb_Is_Data_Class_def by (rule keeps_bind [OF class_statics_keep(3)]) (simp add: Udb_ISA_unch)

lemma Udb_Get_Class_Name_keeps [unch]: "keeps db w (Udb_Get_Class_Name db c w)"
  by (auto simp: Udb_Get_Class_Name_def keeps_def unchanged_def c_bind_Done split: option.split_asm)

lemma Udb_Class_Is_Readonly_keeps [unch]: "keeps db w (Udb_Class_Is_Readonly db getvar c w)"
  unfolding Udb_Class_Is_Readonly_def by (rule keeps_bind [OF Udb_Get_Class_Name_keeps]) simp

lemma Udb_Get_Relaction_keeps [unch]: "keeps db w (Udb_Get_Relaction db getvar c a w)"
proof (cases "refintCache w c a")
  case None
  show ?thesis unfolding Udb_Get_Relaction_def None option.case
    by (rule keeps_bind [OF Udb_Get_Class_Name_keeps], unfold prod.case, rule keeps_pure) (simp add: unchanged_def)
qed (simp add: Udb_Get_Relaction_def)

lemma fetch_item_keeps [unch]: "keeps db w (fetch_item db u w)"
proof (cases "itemCache w u")
  case None
  show ?thesis unfolding fetch_item_def None option.case
  proof (cases "\<not> Uuid_Valid u")
    case False
    then show "keeps db w (if \<not> Uuid_Valid u then Panic else c_bind (ITEM_CLASS db w) (\<lambda>(item, w).
      case db_find_unique db item (cstr ''uuid'') (DB_STRING u) (database w) of None \<Rightarrow> Done (None, w)
      | Some x \<Rightarrow> (case db_get db x (cstr ''deleted'') (database w) of
          NOERROR v \<Rightarrow> let cobj = (x, v \<noteq> DB_NULL) in Done (Some cobj, w\<lparr>itemCache := (itemCache w)(u \<mapsto> cobj)\<rparr>) | _ \<Rightarrow> Panic)))"
      by (auto intro!: keeps_bind [OF class_statics_keep(1)] simp: unchanged_def Let_def split: option.split db_reply.split)
  qed simp
qed (simp add: fetch_item_def)

lemma find_keeps [unch]: "keeps db w (Udb_Find_Object db u w)" "keeps db w (Udb_Find_Any_Object db u w)"
  unfolding Udb_Find_Object_def Udb_Find_Any_Object_def by (auto intro!: keeps_bind [OF fetch_item_keeps])

lemma Udb_Get_Root_keeps [unch]: "keeps db w (Udb_Get_Root db c w)"
  by (auto simp: Udb_Get_Root_def keeps_def unchanged_def c_bind_Done split: option.split_asm)

text \<open>The same for computations that may not end.\<close>

definition okeeps :: "('s, 'o) dbi \<Rightarrow> ('s, 'o, 'm) udb_scheme \<Rightarrow> ('r \<times> ('s, 'o, 'm) udb_scheme) c_run option \<Rightarrow> bool" where
  "okeeps db w m \<longleftrightarrow> (\<forall>r. m = Some r \<longrightarrow> keeps db w r)"

lemma okeeps_simps [simp]: "okeeps db w None" "okeeps db w (Some m) \<longleftrightarrow> keeps db w m"
  by (simp_all add: okeeps_def)

lemma okeeps_bind:
  assumes "okeeps db w m" "\<And>r w'. m = Some (Done (r, w')) \<Longrightarrow> unchanged db w w' \<Longrightarrow> okeeps db w' (f (r, w'))"
  shows "okeeps db w (o_bind m f)"
proof (cases m)
  case (Some r)
  then show ?thesis using assms by (cases r) (auto simp: okeeps_def keeps_def intro: unchanged_trans)
qed simp

lemma okeeps_pure: "(\<And>x. m = Done x \<Longrightarrow> okeeps db w (f x)) \<Longrightarrow> okeeps db w (o_bind (Some m) f)"
  by (cases m) auto

lemma keeps_from: "unchanged db w v \<Longrightarrow> keeps db v m \<Longrightarrow> keeps db w m"
  by (cases m) (auto intro: unchanged_trans)

lemma okeeps_from: "unchanged db w v \<Longrightarrow> okeeps db v m \<Longrightarrow> okeeps db w m"
  by (cases m) (auto intro: keeps_from)

lemma keeps_Done: "keeps db w m \<Longrightarrow> m = Done (r, w') \<Longrightarrow> unchanged db w w'"
  by (simp add: keeps_def)

lemma Udb_Get_Cell_okeeps [unch]: "okeeps db w (Udb_Get_Cell db getvar loopobj get_org x w)"
proof -
  have "keeps db w y" if "Udb_Get_Cell db getvar loopobj get_org x w = Some y" for y
  proof (rule Udb_Get_Cell.raw_induct [of "\<lambda>db getvar loopobj get_org x w y. keeps db w y", OF _ that], goal_cases)
    case (1 f db getvar loopobj get_org ob w y)
    show ?case
    proof (cases ob)
      case None
      then show ?thesis using 1(2) by auto
    next
      case (Some x)
      let ?c = "db_get_class db x (database w)"
      show ?thesis
      proof (cases "CELL_CLASS db w")
        case (Done p)
        obtain cell w1 where p: "p = (cell, w1)" by (cases p)
        obtain isa w2 where i: "Udb_ISA db ?c cell w1 = (isa, w2)" by (cases "Udb_ISA db ?c cell w1")
        have u: "unchanged db w w2"
          using keeps_Done [OF class_statics_keep(4), of db w cell w1] Done p Udb_ISA_unch [of db w1 ?c cell] i by (auto intro: unchanged_trans)
        show ?thesis
        proof (cases "isa \<or> loopobj = Some x")
          case True
          then show ?thesis using 1(2) Some Done p i u
            by (cases "Udb_Get_Value db x (cstr ''cellorg'') DB_TYPE_OBJECT (database w2)") (auto simp: Let_def split: if_split_asm)
        next
          case False
          show ?thesis
          proof (cases "Udb_Get_Relaction db getvar ?c (cstr ''owner'') w2")
            case D: (Done q)
            obtain action w3 where q: "q = (action, w3)" by (cases q)
            have u3: "unchanged db w w3" using unchanged_trans [OF u keeps_Done [OF Udb_Get_Relaction_keeps D [unfolded q]]] .
            show ?thesis using 1(2) Some Done p i False D q u3 keeps_from [OF u3]
              by (cases "Udb_Get_Value db x (cstr ''owner'') DB_TYPE_OBJECT (database w3)") (auto simp: Let_def split: if_split_asm dest!: 1(1))
          qed (use 1(2) Some Done p i False in \<open>auto simp: Let_def\<close>)
        qed
      qed (use 1(2) Some in auto)
    qed
  qed
  then show ?thesis by (simp add: okeeps_def)
qed

lemma Udb_Get_Promoted_Owner_okeeps [unch]: "okeeps db w (Udb_Get_Promoted_Owner db getvar owner p w)"
  by (auto simp: Udb_Get_Promoted_Owner_def intro!: unch keeps_bind [OF class_statics_keep(4)])

lemma range_entries_okeeps: "okeeps db w (range_entries db getvar elem x owner anames t w)"
proof (induction anames arbitrary: t w)
  case (Cons a anames)
  have "okeeps db w (o_bind (Udb_Get_Promoted_Owner db getvar o' level w) (\<lambda>(promoted, w).
      o_bind (Some (check_some promoted)) (\<lambda>promoted_owner. o_bind (Some (Udb_Get_Oid db promoted_owner (database w))) (\<lambda>oid.
      range_entries db getvar elem x owner anames (tbl_set a (elem (elem [] v) oid) t) w))))" for o' level v
    by (rule okeeps_bind [OF Udb_Get_Promoted_Owner_okeeps], unfold prod.case, (rule okeeps_pure)+, rule Cons.IH)
  then show ?case by (auto intro!: okeeps_pure simp: Cons.IH)
qed simp

lemma Populate_Range_Table_okeeps: "okeeps db w (Populate_Range_Table db getvar split elem x w)"
  by (auto simp: Populate_Range_Table_def intro!: okeeps_pure range_entries_okeeps split: option.split)

text \<open>What holds of the result, if there is one.\<close>

definition oends :: "('a \<Rightarrow> bool) \<Rightarrow> 'a c_run option \<Rightarrow> bool" where
  "oends Q m \<longleftrightarrow> (\<forall>x. m = Some (Done x) \<longrightarrow> Q x)"

lemma oends_simps [simp]:
  "oends Q None" "oends Q (Some Panic)" "oends Q (Some Overrun)" "oends Q (Some (Done x)) \<longleftrightarrow> Q x"
  "oends Q (o_bind m f) \<longleftrightarrow> oends (\<lambda>x. oends Q (f x)) m" "oends Q (Some (c_bind n g)) \<longleftrightarrow> oends (\<lambda>x. oends Q (Some (g x))) (Some n)"
  by (auto simp: oends_def o_bind_Done c_bind_Done)

lemma oends_mono: "oends P m \<Longrightarrow> (\<And>x. m = Some (Done x) \<Longrightarrow> P x \<Longrightarrow> Q x) \<Longrightarrow> oends Q m"
  by (auto simp: oends_def)

lemma oends_True: "(\<And>x. Q x) \<Longrightarrow> oends Q m"
  by (simp add: oends_def)

lemma okeeps_oends: "okeeps db w m \<longleftrightarrow> oends (\<lambda>x. unchanged db w (snd x)) m"
  by (cases m) (auto simp: okeeps_def keeps_def oends_def)

lemma oends_keeps: "okeeps db w m \<Longrightarrow> (\<And>r w'. unchanged db w w' \<Longrightarrow> Q (r, w')) \<Longrightarrow> oends Q m"
  by (auto simp: okeeps_oends intro: oends_mono)

text \<open>One level of promotion in \<open>populate_rule\<close>.\<close>

lemma promotion_keeps:
  assumes "unchanged db w0 w" "\<And>y. unchanged db w0 (snd (snd y)) \<Longrightarrow> Q y"
  shows "oends Q (if b then o_bind (Udb_Get_Promoted_Owner db getvar x l w) (\<lambda>p.
        if P p then o_bind (Some (G p)) (\<lambda>q. Some (Done (fst q, snd q, snd p))) else Some (Done (fst p, t0, snd p))) else Some (Done (d, t0, w)))"
proof (cases b)
  case True
  have "oends Q (if P p then o_bind (Some (G p)) (\<lambda>q. Some (Done (fst q, snd q, snd p))) else Some (Done (fst p, t0, snd p)))"
    if "unchanged db w (snd p)" for p
    using unchanged_trans [OF assms(1) that] by (cases "G p") (auto intro: assms(2))
  then show ?thesis unfolding if_P [OF True] oends_simps by (intro oends_keeps [OF Udb_Get_Promoted_Owner_okeeps]) simp
qed (use assms in simp)

lemma last_promotion_keeps:
  assumes "unchanged db w0 w"
  shows "oends (\<lambda>x. unchanged db w0 (snd x)) (if b then o_bind (Udb_Get_Promoted_Owner db getvar x l w) (\<lambda>p.
        if P p then o_bind (Some (G p)) (\<lambda>q. Some (Done (snd q, snd p))) else Some (Done (t0, snd p))) else Some (Done (t0, w)))"
proof (cases b)
  case True
  have "oends (\<lambda>x. unchanged db w0 (snd x)) (if P p then o_bind (Some (G p)) (\<lambda>q. Some (Done (snd q, snd p))) else Some (Done (t0, snd p)))"
    if "unchanged db w (snd p)" for p
    using unchanged_trans [OF assms(1) that] by (cases "G p") auto
  then show ?thesis unfolding if_P [OF True] oends_simps by (intro oends_keeps [OF Udb_Get_Promoted_Owner_okeeps]) simp
qed (use assms in simp)

lemma populate_rule_okeeps: "okeeps db w (populate_rule db getvar split elem x rule tables w)"
proof -
  have "oends (\<lambda>x. unchanged db w (snd x)) (populate_rule db getvar split elem x rule tables w)"
    unfolding populate_rule_def oends_simps
  proof (rule oends_True, unfold case_prod_beta oends_simps, goal_cases)
    case (1 r)
    show ?case
    proof (cases "\<not> list_all legal_strength (snd (snd r))")
      case False
      show ?thesis unfolding if_not_P [OF False] oends_simps
        by (rule oends_True, rule oends_True, rule promotion_keeps [OF unchanged_refl], rule promotion_keeps, assumption,
            rule last_promotion_keeps, assumption)
    qed simp
  qed
  then show ?thesis by (simp add: okeeps_oends)
qed

lemma populate_rules_okeeps: "okeeps db w (populate_rules db getvar split elem x rules tables w)"
proof (induction rules arbitrary: tables w)
  case (Cons r rules)
  show ?case by (auto intro!: okeeps_bind [OF populate_rule_okeeps] Cons.IH)
qed simp

text \<open>The table of \<^verbatim>\<open>inet.c\<close> is filled without a change, as the other tables are.\<close>

definition populate_keeps :: "('s, 'o) dbi \<Rightarrow> ('o, 'i, ('s, 'o, 'm) udb_scheme) inet_calls \<Rightarrow> bool" where
  "populate_keeps db inet \<longleftrightarrow> (\<forall>x w. okeeps db w (Udb_Inet_Populate_Tables inet x w))"

lemma Udb_Populate_Caches_okeeps:
  assumes "populate_keeps db inet"
  shows "okeeps db w (Udb_Populate_Caches db inet getvar split elem x w)"
  unfolding Udb_Populate_Caches_def
proof (rule okeeps_pure, rule okeeps_bind, goal_cases)
  case (1 cn)
  show ?case by (auto intro!: okeeps_pure populate_rules_okeeps split: option.split)
next
  case (2 cn r w')
  show ?case unfolding prod.case
    by (rule okeeps_bind) (use assms in \<open>auto simp: populate_keeps_def intro!: okeeps_bind [OF Populate_Range_Table_okeeps]\<close>)
qed

section \<open>Reading attribute values keeps the database\<close>

lemma refint_action_keeps [unch]: "keeps db w (refint_action db getvar c a w)"
  unfolding refint_action_def by (rule keeps_bind [OF Udb_Get_Relaction_keeps]) auto

lemma scan_elements_keeps:
  assumes "\<And>input w. keeps db w (scan input w)"
  shows "keeps db w (scan_elements scan add inputs col w)"
proof (induction inputs arbitrary: col w)
  case (Cons i inputs)
  show ?case by (auto intro!: keeps_bind [OF assms] Cons.IH split: tcl_result.split prod.split)
qed simp

lemma scan_object_keeps: "keeps db w (scan_object db getvar c u a dc r input w)"
proof -
  have f: "keeps db w (if r then refint_action db getvar c a w else Done (True, w))" by (simp add: unch)
  have g: "keeps db w (case x of None \<Rightarrow> Done (Udb_Error ''ENXREFITEM'' [u, a, input], w)
      | Some x \<Rightarrow> c_bind (check_some dc) (\<lambda>super. let (isa, w) = Udb_ISA db (db_get_class db x (database w)) super w
          in if \<not> isa then Overrun else Done (Tcl_Ok (DB_OBJECT x, True), w)))" for x and w :: "('a, 'b, 'c) udb_scheme"
    using Udb_ISA_unch [of db w] by (auto intro!: keeps_pure split: option.split prod.split dest: arg_cong [of _ _ snd]) (metis snd_conv)+
  show ?thesis unfolding scan_object_def
    by (rule keeps_bind [OF f]) (auto intro!: keeps_bind [OF find_keeps(1)] g)
qed

lemma scan_collection_keeps:
  assumes "\<And>input w. keeps db w (scan input w)"
  shows "keeps db w (scan_collection db getvar split c u a d mk add scan r input w)"
proof -
  have e: "keeps db w (c_bind (scan_elements scan add vs [] w) (\<lambda>(result, w). Done (f result, w)))"
    for vs and f :: "_ \<Rightarrow> ('b db_value \<times> bool) tcl_result" and w :: "('a, 'b, 'c) udb_scheme"
    by (rule keeps_bind [OF scan_elements_keeps [OF assms]]) simp
  show ?thesis unfolding scan_collection_def Let_def
    by (auto intro!: keeps_bind [OF refint_action_keeps] e split: option.split)
qed

lemma Scan_Value_keeps: "keeps db w (Scan_Value db getvar db_value_put split db_col_add c u a d r input w)"
proof (induction d arbitrary: r input w)
  case (Dom_Scalar t dc)
  show ?case by (cases t) (auto intro!: keeps_bind [OF Udb_Get_Class_Name_keeps] scan_object_keeps)
qed (simp_all add: scan_collection_keeps)

lemma Udb_Set_Attribute_keeps [unch]: "keeps db w (Udb_Set_Attribute db getvar db_value_put split db_col_add u x t a input rels w)"
proof -
  have "keeps db w (c_bind (Scan_Value db getvar db_value_put split db_col_add c u a d True input w') (\<lambda>(result, w). Done (f result, w)))"
    if u: "unchanged db w w'" for c d w' and f :: "_ \<Rightarrow> ('b otmpl \<times> 'b relations) tcl_result"
    by (rule keeps_from [OF u], rule keeps_bind [OF Scan_Value_keeps]) simp
  then show ?thesis using Udb_Attribute_Domain_unch [of db w "db_get_class db x (database w)" a]
    by (auto simp: Udb_Set_Attribute_def Let_def split: prod.split option.split)
qed

lemma owner_missing_keeps [unch]: "keeps db w (owner_missing db getvar c w)"
  unfolding owner_missing_def by (rule keeps_bind [OF Udb_Is_Data_Class_keeps]) (auto intro!: keeps_bind [OF Udb_Get_Relaction_keeps])

lemma create_attributes_keeps:
  assumes "\<And>w. keeps db w (null_owner w)"
  shows "keeps db w (create_attributes db getvar db_value_put split db_col_add null_owner u c args t rels os sr w)"
proof (induction args arbitrary: t rels os sr w)
  case (Cons p args)
  obtain a v where p: "p = (a, v)" by (cases p)
  show ?case unfolding p create_attributes.simps Let_def
    by (rule keeps_bind [OF Udb_Set_Attribute_keeps])
      (auto intro!: keeps_bind [OF assms] keeps_bind [OF owner_missing_keeps] Cons.IH split: tcl_result.split)
qed simp

lemma Check_keeps: "okeeps db w (Check_Owner db getvar u x o' w)" "okeeps db w (Check_Organization db getvar u x o' w)"
proof -
  have f: "okeeps db w (Some (Udb_Find_Object db o' w))" for w :: "('a, 'b, 'c) udb_scheme" by (simp add: unch)
  show "okeeps db w (Check_Owner db getvar u x o' w)" unfolding Check_Owner_def
  proof (rule okeeps_bind [OF Udb_Get_Cell_okeeps], goal_cases)
    case (1 r w')
    have "okeeps db w' (o_bind (Some (Udb_Find_Object db o' w')) (\<lambda>(newOwner, w). o_bind (Some (check_some newOwner)) (\<lambda>newOwner.
       o_bind (Udb_Get_Cell db getvar (Some x) False (Some newOwner) w) (\<lambda>(newCell, w).
         Some (Done (if newCell \<noteq> r then Udb_Error ''ECELLMOVE'' [u, cstr ''owner'', o'] else Tcl_Ok (), w))))))"
      by (rule okeeps_bind [OF f], unfold prod.case, rule okeeps_pure) (auto intro!: okeeps_bind [OF Udb_Get_Cell_okeeps])
    then show ?case by simp
  qed
  show "okeeps db w (Check_Organization db getvar u x o' w)" unfolding Check_Organization_def
  proof (rule okeeps_bind [OF Udb_Get_Cell_okeeps], goal_cases)
    case (1 r w')
    have "keeps db w' (c_bind (Udb_Find_Object db o' w') (\<lambda>(x, w). c_bind (check_some x) (\<lambda>x. Done (x, w))))"
      by (rule keeps_bind [OF find_keeps(1)], unfold prod.case, rule keeps_pure) simp
    then have "okeeps db w' (Some (if o' = [] then Done (x, w') else c_bind (Udb_Find_Object db o' w') (\<lambda>(x, w). c_bind (check_some x) (\<lambda>x. Done (x, w)))))"
      by simp
    then show ?case unfolding prod.case by (rule okeeps_bind) simp
  qed
qed

lemma update_attributes_okeeps: "okeeps db w (update_attributes db getvar db_value_put split db_col_add u x args t rels w)"
proof (induction args arbitrary: t rels w)
  case (Cons p args)
  obtain a v where p: "p = (a, v)" by (cases p)
  have c: "okeeps db w (update_checks db getvar u x a v w)" for w :: "('a, 'b, 'c) udb_scheme" by (simp add: update_checks_def Check_keeps)
  show ?case unfolding p update_attributes.simps
    by (rule okeeps_bind) (auto intro!: okeeps_bind [OF c] Cons.IH simp: unch split: tcl_result.split)
qed simp

section \<open>Failures\<close>

text \<open>A failed command has changed nothing, or its changes are recorded.\<close>

definition fails_clean :: "('s, 'o) dbi \<Rightarrow> ('s, 'o, 'm) udb_scheme \<Rightarrow> ('r tcl_result \<times> ('s, 'o, 'm) udb_scheme) c_run option \<Rightarrow> bool" where
  "fails_clean db w m \<longleftrightarrow>
     oends (\<lambda>(r, w'). case r of Tcl_Ok _ \<Rightarrow> True | Tcl_Error code msg \<Rightarrow> unchanged db w w' \<or> force_rollback w' \<or> syscall_db_updated w') m"

lemma fails_clean_simps [simp]:
  "fails_clean db w None" "fails_clean db w (Some Panic)" "fails_clean db w (Some Overrun)" "fails_clean db w (Some (Done (Tcl_Ok x, w')))"
  "fails_clean db w (Some (Done (Tcl_Error code msg, w'))) \<longleftrightarrow> unchanged db w w' \<or> force_rollback w' \<or> syscall_db_updated w'"
  "fails_clean db w (Some (Done (Udb_Error e args, w'))) \<longleftrightarrow> unchanged db w w' \<or> force_rollback w' \<or> syscall_db_updated w'"
  by (simp_all add: fails_clean_def Udb_Error_def)

lemma fails_clean_from: "unchanged db w v \<Longrightarrow> fails_clean db v m \<Longrightarrow> fails_clean db w m"
  unfolding fails_clean_def by (erule oends_mono) (auto split: tcl_result.split intro: unchanged_trans)

lemma fails_clean_bind:
  assumes "okeeps db w m" "\<And>r w'. m = Some (Done (r, w')) \<Longrightarrow> fails_clean db w' (f (r, w'))"
  shows "fails_clean db w (o_bind m f)"
proof -
  have "oends (\<lambda>x. fails_clean db w (f x)) m" unfolding oends_def
  proof (intro allI impI)
    fix x assume x: "m = Some (Done x)"
    then have "unchanged db w (snd x)" using assms(1) by simp
    then show "fails_clean db w (f x)" using assms(2) [of "fst x" "snd x"] x by (auto intro: fails_clean_from)
  qed
  then show ?thesis by (simp add: fails_clean_def)
qed

lemma Load_Tran_Versions_unch:
  assumes "Load_Tran_Versions db w = Done w'"
  shows "unchanged db w w'"
proof -
  have "keeps db w (c_bind (Load_Tran_Versions db w) (\<lambda>w. Done ((), w)))" unfolding Load_Tran_Versions_def c_bind_assoc case_prod_beta
    by (rule keeps_bind [OF Udb_Get_Class_keeps], unfold fst_conv snd_conv, (rule keeps_pure)+) (auto simp: unchanged_def lookup_ok_def)
  then show ?thesis using assms by simp
qed

lemma Schema_Updated_keeps [unch]: "keeps db w (Schema_Updated db c w)"
  unfolding Schema_Updated_def by (rule keeps_bind [OF Udb_Is_Data_Class_keeps]) (simp add: unchanged_def)

text \<open>Writing an item: nothing has changed, or the change is recorded; always when it has been written.\<close>

lemma Udb_Finish_Object_ends:
  "oends (\<lambda>(x, w'). (x = None \<longrightarrow> unchanged db w w' \<or> syscall_db_updated w') \<and> (x \<noteq> None \<longrightarrow> syscall_db_updated w')) (Some (Udb_Finish_Object db (Some c) (Some t) del w))"
proof (cases "restore_mode w = NORESTORE")
  case True
  define l where "l = (if tx_class w = None then Load_Tran_Versions db w else Done w)"
  have l: "unchanged db w w1" if "l = Done w1" for w1
    using that Load_Tran_Versions_unch by (auto simp: l_def split: if_split_asm)
  show ?thesis
  proof (cases l)
    case (Done w1)
    show ?thesis
    proof (cases "Schema_Updated db c w1")
      case S: (Done p)
      obtain b w2 where p: "p = (b, w2)" by (cases p)
      have u: "unchanged db w w2" using unchanged_trans [OF l [OF Done] keeps_Done [OF Schema_Updated_keeps S [unfolded p]]] .
      then show ?thesis using True Done S p unfolding l_def
        by (auto simp: Udb_Finish_Object_def check_some_def Let_def unchanged_def split: option.split)
    qed (use True Done in \<open>auto simp: Udb_Finish_Object_def check_some_def l_def Let_def\<close>)
  qed (use True in \<open>auto simp: Udb_Finish_Object_def check_some_def l_def\<close>)
next
  case False
  have "oends (\<lambda>x. syscall_db_updated (snd x)) (Some (Schema_Updated db c (w\<lparr>tx_db_updated := True, syscall_db_updated := True, database := s\<rparr>)))" for s
    by (rule oends_keeps [of db "w\<lparr>tx_db_updated := True, syscall_db_updated := True, database := s\<rparr>"]) (auto simp: unch unchanged_def)
  then show ?thesis using False by (auto simp: Udb_Finish_Object_def check_some_def Let_def case_prod_beta split: option.split intro: oends_mono)
qed

text \<open>After the item has been written, a failure forces a rollback.\<close>

lemma create_finish_ends:
  "fails_clean db v (create_finish db inet getvar db_value_put split elem u c x rels root dont w)"
  unfolding fails_clean_def create_finish_def oends_simps
  by (rule oends_True, unfold case_prod_beta oends_simps, rule oends_True)
    (auto simp: Udb_Force_Rollback_def c_bind_Done oends_def split: tcl_result.split)

lemma Udb_Create_fails_clean:
  fixes w :: "('s, 'o, 'm) server_scheme"
  assumes "populate_keeps db inet"
  shows "fails_clean db w (Udb_Create db inet getvar db_value_put split elem db_col_add not_unique argv w)"
proof -
  have F: "fails_clean db w (o_bind (Some (Udb_Finish_Object db (Some c) (Some t) False w)) (\<lambda>(object, w).
      case object of None \<Rightarrow> if not_unique (database w) then Some (Done (Udb_Error ''EUSEDUUID'' [u], w)) else Some Panic
      | Some object \<Rightarrow> create_finish db inet getvar db_value_put split elem u c object rels root (restore_mode w = RESTOREDATA) w))"
    for c t u rels root and w :: "('s, 'o, 'm) server_scheme"
    unfolding fails_clean_def oends_simps
  proof (rule oends_mono [OF Udb_Finish_Object_ends], goal_cases)
    case (1 x)
    then show ?case using create_finish_ends [of db w inet getvar db_value_put split elem u c] by (cases x) (auto simp: fails_clean_def Udb_Error_def split: option.split)
  qed
  have r: "keeps db w (root_may_be_made db n c w)" for n c and w :: "('s, 'o, 'm) server_scheme"
    by (auto simp: root_may_be_made_def intro!: keeps_bind [OF Udb_Get_Root_keeps])
  have A: "fails_clean db w (o_bind (Some (create_attributes db getvar db_value_put split db_col_add (root_may_be_made db n c) u c args t [] False False w)) (\<lambda>(ok, w).
      case ok of Tcl_Error code msg \<Rightarrow> Some (Done (Tcl_Error code msg, w))
      | Tcl_Ok (template, relations, set_root) \<Rightarrow> o_bind (Some (Udb_Finish_Object db (Some c) (Some template) False w)) (\<lambda>(object, w).
          case object of None \<Rightarrow> if not_unique (database w) then Some (Done (Udb_Error ''EUSEDUUID'' [u], w)) else Some Panic
          | Some object \<Rightarrow> create_finish db inet getvar db_value_put split elem u c object relations set_root (restore_mode w = RESTOREDATA) w)))"
    for n c u args t and w :: "('s, 'o, 'm) server_scheme"
    by (rule fails_clean_bind) (auto intro!: create_attributes_keeps r split: tcl_result.split prod.split intro: F)
  have C: "fails_clean db w (o_bind (Some (Udb_Is_Item_Class db c v)) f)" if "unchanged db w v" "\<And>r w'. fails_clean db w' (f (r, w'))" for c v f
    by (rule fails_clean_from [OF that(1)], rule fails_clean_bind) (simp_all add: unch that(2))
  have R: "fails_clean db w (o_bind (Some (Udb_Class_Is_Readonly db getvar c w)) f)" if "\<And>r w'. fails_clean db w' (f (r, w'))"
    for c f and w :: "('s, 'o, 'm) server_scheme"
    by (rule fails_clean_bind) (simp_all add: unch that)
  show ?thesis using Udb_Get_Class_opt_unch [of db w "tl argv ! 0"] unfolding Udb_Create_def Let_def
    by (auto split: prod.split option.split intro!: C R A simp del: One_nat_def)
qed

lemma Udb_Undelete_fails_clean:
  fixes w :: "('s, 'o, 'm) server_scheme"
  shows "fails_clean db w (Udb_Undelete db inet getvar db_value_put split elem db_col_add argv w)"
proof -
  have F: "fails_clean db w (o_bind (Some (Udb_Finish_Object db (Some c) (Some t) False w)) (\<lambda>(y, w).
      if y \<noteq> Some x then Some Panic else create_finish db inet getvar db_value_put split elem u c x rels False False w))"
    for c t u x rels and w :: "('s, 'o, 'm) server_scheme"
    unfolding fails_clean_def oends_simps
  proof (rule oends_True, goal_cases)
    case (1 y)
    show ?case using create_finish_ends [of db w inet getvar db_value_put split elem u c x rels False False "snd y"] by (cases y) (auto simp: fails_clean_def)
  qed
  have A: "fails_clean db w (o_bind (Some (create_attributes db getvar db_value_put split db_col_add (\<lambda>w. Done (False, w)) u c args t [] False False w)) (\<lambda>(ok, w).
      case ok of Tcl_Error code msg \<Rightarrow> Some (Done (Tcl_Error code msg, w))
      | Tcl_Ok (template, relations, set_root) \<Rightarrow> o_bind (Some (Udb_Finish_Object db (Some c) (Some template) False w)) (\<lambda>(y, w).
          if y \<noteq> Some x then Some Panic else create_finish db inet getvar db_value_put split elem u c x relations False False w)))"
    for c u x args t and w :: "('s, 'o, 'm) server_scheme"
    by (rule fails_clean_bind) (auto intro!: create_attributes_keeps split: tcl_result.split prod.split intro: F)
  show ?thesis unfolding Udb_Undelete_def Let_def
    by (auto intro!: fails_clean_bind A simp: unch simp del: One_nat_def split: option.split)
qed

lemma Udb_Update_fails_clean:
  fixes w :: "('s, 'o, 'm) udb_scheme"
  assumes "populate_keeps db inet"
  shows "fails_clean db w (Udb_Update db inet getvar db_value_put split elem db_col_add argv w)"
proof -
  have C: "oends (\<lambda>(r, w'). case r of Tcl_Ok _ \<Rightarrow> True | Tcl_Error code msg \<Rightarrow> unchanged db v w' \<or> force_rollback w' \<or> syscall_db_updated w')
     (o_bind (Udb_Populate_Caches db inet getvar split elem x w) (\<lambda>(newTables, w).
      o_bind (Udb_Update_Caches db inet getvar db_value_put split elem u x old (Some newTables) w) (\<lambda>(result, w).
        case result of Tcl_Error code msg \<Rightarrow> Some (Done (Tcl_Error code msg, Udb_Force_Rollback code msg w))
        | Tcl_Ok r \<Rightarrow> Some (c_bind (Udb_Update_Relations db getvar c x rels (restore_mode w = RESTOREDATA) False w) (\<lambda>w. Done (Tcl_Ok [], w))))))"
    for v x u c rels old and w :: "('s, 'o, 'm) udb_scheme"
    unfolding oends_simps
    by (rule oends_True, unfold case_prod_beta oends_simps, rule oends_True)
      (auto simp: Udb_Force_Rollback_def c_bind_Done oends_def split: tcl_result.split)
  have F: "fails_clean db w (o_bind (Some (Udb_Finish_Object db (Some c) (Some t) False w)) (\<lambda>(y, w). if y \<noteq> Some x then Some Panic else
      o_bind (Udb_Populate_Caches db inet getvar split elem x w) (\<lambda>(newTables, w).
      o_bind (Udb_Update_Caches db inet getvar db_value_put split elem u x (Some old) (Some newTables) w) (\<lambda>(result, w).
        case result of Tcl_Error code msg \<Rightarrow> Some (Done (Tcl_Error code msg, Udb_Force_Rollback code msg w))
        | Tcl_Ok r \<Rightarrow> Some (c_bind (Udb_Update_Relations db getvar c x rels (restore_mode w = RESTOREDATA) False w) (\<lambda>w. Done (Tcl_Ok [], w)))))))"
    for c t u x rels old and w :: "('s, 'o, 'm) udb_scheme"
    unfolding fails_clean_def oends_simps(5) [of _ "Some (Udb_Finish_Object db (Some c) (Some t) False w)"]
  proof (rule oends_True, goal_cases)
    case (1 y)
    show ?case using C [of w x "snd y" u "Some old" c rels] by (cases y) auto
  qed
  show ?thesis unfolding Udb_Update_def Let_def
    by (auto intro!: fails_clean_bind Udb_Populate_Caches_okeeps [OF assms] update_attributes_okeeps F simp: unch simp del: One_nat_def
      split: option.split tcl_result.split prod.split)
qed

text \<open>The Tcl command that a cascading deletion evaluates does not forget changes.\<close>

definition delete_records :: "(cstr \<Rightarrow> ('s, 'o, 'm) udb_scheme \<Rightarrow> (cstr tcl_result \<times> ('s, 'o, 'm) udb_scheme) c_run option) \<Rightarrow> bool" where
  "delete_records del \<longleftrightarrow> (\<forall>u w r w'. del u w = Some (Done (r, w')) \<and> syscall_db_updated w \<longrightarrow> syscall_db_updated w')"

lemma cascade_loop_records:
  assumes "delete_records del" "cascade_loop db del rhs w = Some (Done (r, w'))" "syscall_db_updated w"
  shows "syscall_db_updated w'"
proof -
  have "\<forall>r w'. del = D \<longrightarrow> y = Done (r, w') \<longrightarrow> syscall_db_updated w \<longrightarrow> syscall_db_updated w'" if "cascade_loop db D rhs w = Some y" for D y
  proof (rule cascade_loop.raw_induct [of "\<lambda>db D rhs w y. \<forall>r w'. del = D \<longrightarrow> y = Done (r, w') \<longrightarrow> syscall_db_updated w \<longrightarrow> syscall_db_updated w'", OF _ that], goal_cases)
    case (1 f db D rhs w y)
    show ?case
    proof (intro allI impI)
      fix r w' assume a: "del = D" "y = Done (r, w')" "syscall_db_updated w"
      obtain v where v: "Udb_Get_Value db rhs (cstr ''backp/Cascade'') DB_TYPE_OBJECT (database w) = Done v" using 1(2) a(2) by (auto simp: o_bind_Done)
      show "syscall_db_updated w'"
      proof (cases "DB_GET_OBJECT v")
        case None
        then show ?thesis using 1(2) v a by auto
      next
        case (Some relation)
        then obtain u p where p: "D u w = Some (Done p)"
          "(case fst p of Tcl_Ok r \<Rightarrow> f db D rhs (snd p) | Tcl_Error code msg \<Rightarrow> Some (Done (fst p, snd p))) = Some (Done (r, w'))"
          using 1(2) v a(2) by (auto simp: o_bind_Done)
        have "syscall_db_updated (snd p)" using assms(1) p(1) a by (cases p) (auto simp: delete_records_def)
        then show ?thesis using p(2) 1(1) [of db D rhs "snd p"] a(1) by (cases "fst p") auto
      qed
    qed
  qed
  then show ?thesis using assms by blast
qed

lemma Udb_Delete_Object_fails:
  fixes w :: "('s, 'o, 'm) udb_scheme"
  assumes "delete_records del"
  shows "fails_clean db v (Udb_Delete_Object db inet getvar db_value_put split elem del c u x w)"
proof -
  have P: "fails_clean db v (Process_Rhs_Relations db inet getvar db_value_put split elem del x w)" if "syscall_db_updated w" for w :: "('s, 'o, 'm) udb_scheme"
  proof -
    have "oends (\<lambda>(r, w'). syscall_db_updated w') (cascade_loop db del x w)" using cascade_loop_records [OF assms _ that] by (auto simp: oends_def)
    then show ?thesis unfolding fails_clean_def Process_Rhs_Relations_def oends_simps
      by (rule oends_mono) (auto simp: oends_def o_bind_Done split: tcl_result.split tcl_result.split_asm)
  qed
  have F: "oends (\<lambda>y. syscall_db_updated (snd y) \<or> fst y \<noteq> Some x) (Some (Udb_Finish_Object db (Some c) (Some t) True w))"
    for t and w :: "('s, 'o, 'm) udb_scheme"
    by (rule oends_mono [OF Udb_Finish_Object_ends]) auto
  have K: "oends syscall_db_updated (Some (Udb_Cache_Object u x True w))" if "syscall_db_updated w" for w :: "('s, 'o, 'm) udb_scheme"
    using that by (simp add: Udb_Cache_Object_def)
  show ?thesis unfolding fails_clean_def Udb_Delete_Object_def oends_simps
  proof (rule oends_True, rule oends_True, rule oends_mono [OF F], goal_cases)
    case (1 w1 w2 y)
    then show ?case using P by (cases y) (auto intro!: oends_mono [OF K] simp: fails_clean_def)
  qed
qed

lemma Udb_Delete_fails_clean:
  fixes w :: "('s, 'o, 'm) server_scheme"
  assumes "delete_records del"
  shows "fails_clean db w (Udb_Delete db inet getvar db_value_put split elem del argv w)"
proof -
  have D: "fails_clean db w (o_bind (Some m) (\<lambda>w. Udb_Delete_Object db inet getvar db_value_put split elem del c u x w))"
    for m c u x and w :: "('s, 'o, 'm) server_scheme"
    using Udb_Delete_Object_fails [OF assms] by (cases m) auto
  show ?thesis unfolding Udb_Delete_def Let_def
    by (auto intro!: fails_clean_bind D simp: unch simp del: One_nat_def split: option.split)
qed

section \<open>The commands under the system call\<close>

datatype item_call = Create "cstr list" | Undelete "cstr list" | Update "cstr list" | Delete "cstr list"

fun item_command ::
  "('s, 'o) dbi \<Rightarrow> ('o, 'i, ('s, 'o, 'm) server_scheme) inet_calls \<Rightarrow> tclvar \<Rightarrow> (cstr \<Rightarrow> int option) \<Rightarrow> (cstr \<Rightarrow> cstr list option) \<Rightarrow> (cstr \<Rightarrow> cstr \<Rightarrow> cstr) \<Rightarrow>
     (db_type \<Rightarrow> 'o db_value list \<Rightarrow> 'o db_value \<Rightarrow> 'o db_value list) \<Rightarrow> ('s \<Rightarrow> bool) \<Rightarrow>
     (cstr \<Rightarrow> ('s, 'o, 'm) server_scheme \<Rightarrow> (cstr tcl_result \<times> ('s, 'o, 'm) server_scheme) c_run option) \<Rightarrow> item_call \<Rightarrow>
     ('s, 'o, 'm) server_scheme \<Rightarrow> (cstr tcl_result \<times> ('s, 'o, 'm) server_scheme) c_run option" where
  "item_command db inet getvar db_value_put split elem db_col_add not_unique del (Create argv) w =
     Udb_Create db inet getvar db_value_put split elem db_col_add not_unique argv w"
| "item_command db inet getvar db_value_put split elem db_col_add not_unique del (Undelete argv) w =
     Udb_Undelete db inet getvar db_value_put split elem db_col_add argv w"
| "item_command db inet getvar db_value_put split elem db_col_add not_unique del (Update argv) w =
     Udb_Update db inet getvar db_value_put split elem db_col_add argv w"
| "item_command db inet getvar db_value_put split elem db_col_add not_unique del (Delete argv) w =
     Udb_Delete db inet getvar db_value_put split elem del argv w"

text \<open>C5: A command on items that fails leaves no trace.  The command creates, undeletes, updates or deletes an item, with any
  arguments, under \<^verbatim>\<open>Udb_Syscall\<close>, as the server evaluates the requests of clients.  If the result is an error,
  then the database and the license counters are as they were before the call, or a rollback of the whole transaction is forced, so
  that nothing of it can be committed.  The address tree is assumed to read only when it saves the state of an item, and the
  nested deletions of a cascade to keep the record that something was changed.\<close>

theorem failed_command_leaves_no_trace:
  fixes w :: "('s, 'o, 'm) server_scheme"
  assumes "populate_keeps db inet" "delete_records del"
    "Udb_Syscall (\<lambda>script. item_command db inet getvar db_value_put split elem db_col_add not_unique del command) argv w = Some (Done (Tcl_Error code msg, w'))"
  shows "database w' = database w \<and> licenses w' = licenses w \<or> force_rollback w'"
proof -
  let ?w = "w\<lparr>syscall_db_updated := False\<rparr>"
  have f: "fails_clean db ?w (item_command db inet getvar db_value_put split elem db_col_add not_unique del command ?w)"
    by (cases command) (simp_all add: Udb_Create_fails_clean [OF assms(1)] Udb_Undelete_fails_clean Udb_Update_fails_clean [OF assms(1)] Udb_Delete_fails_clean [OF assms(2)])
  consider "length argv \<noteq> 2 \<or> force_rollback w" | "length argv = 2" "\<not> force_rollback w" by blast
  then show ?thesis
  proof cases
    case 1
    then have "w' = w" using assms(3) unfolding Udb_Syscall_def by (auto simp: Udb_Error_def split: if_split_asm)
    then show ?thesis by simp
  next
    case 2
    then obtain w1 where w1: "item_command db inet getvar db_value_put split elem db_col_add not_unique del command ?w = Some (Done (Tcl_Error code msg, w1))"
      "w' = (if syscall_db_updated w1 then Udb_Force_Rollback code msg w1 else w1)\<lparr>syscall_db_updated := syscall_db_updated w\<rparr>"
      using assms(3) by (auto simp: Udb_Syscall_def Let_def o_bind_Done split: prod.split_asm tcl_result.split_asm)
    then show ?thesis using f unchanged_licenses [of db ?w w1] by (auto simp: Udb_Force_Rollback_def split: if_split_asm)
  qed
qed

text \<open>
  The witness: in a database with an item class an item is created while the address tree refuses its address, after the item
  has been written; a rollback is forced.
\<close>

definition item_db :: mem where
  "item_db =
     \<lparr>mclasses = [(cstr ''unameit_item'', 5), (cstr ''unameit_data_item'', 6)], mobjects = [(5, 5), (6, 6)], mvalues = (\<lambda>x a. DB_NULL)\<rparr>"

definition item_schema :: "nat \<Rightarrow> cstr list" where
  "item_schema c = (if c = 5 then [cstr ''uuid'', cstr ''deleted'', cstr ''name''] else [])"

definition item_dbi :: "(mem, nat) dbi" where
  "item_dbi = mem_dbi item_schema (\<lambda>c a. a = cstr ''uuid'')"

definition item_world :: "(mem, nat) server" where
  "item_world =
     udb.extend ((udb_start item_db)\<lparr>restore_mode := RESTOREDATA\<rparr>)
       (server.fields
         \<lparr>license_start = 0, license_end = 0, license_host_units = 10, license_person_units = 10, current_item_units = 0,
          current_host_units = 0, current_person_units = 0, delta_item_units = 0, delta_host_units = 0, delta_person_units = 0\<rparr>)"

definition item_inet :: "(nat, unit, (mem, nat) server) inet_calls" where
  "item_inet =
     \<lparr>Udb_Inet_Populate_Tables = (\<lambda>x w. Some (Done ((), w))), Udb_Inet_Update = (\<lambda>u x a b w. Some (Done (Udb_Error ''EBADADDR'' [u], w))),
      Udb_Inet_Check_Integrity = (\<lambda>w. Some (Done (Tcl_Ok [], w))), Udb_Inet_Reset_Checks = (\<lambda>w. w)\<rparr>"

definition item_uuid :: cstr where
  "item_uuid = take (R64 - 1) (Udb_Radix64_Encode (replicate RDATA 0))"

lemma item_uuid_valid: "Uuid_Valid item_uuid"
  using Radix64_decode_encode [of "replicate RDATA 0"] by (simp add: Uuid_Valid_def item_uuid_def)

lemmas lookup_defs = Udb_Get_Class_opt_def Udb_Get_Class_def Udb_ISA_def ITEM_CLASS_def DATA_CLASS_def Udb_Is_Item_Class_def Lookup.Udb_Is_Data_Class_def
  Udb_Get_Class_Name_def Udb_Class_Is_Readonly_def check_some_def

lemma item_world_simps [simp]:
  "database item_world = item_db" "restore_mode item_world = RESTOREDATA" "classCache item_world = Map.empty" "item_class item_world = None"
  "data_class item_world = None" "classNameCache item_world = Map.empty" "subClassCache item_world = (\<lambda>c. Map.empty)" "\<not> force_rollback item_world"
  "\<not> Udb_Over_License_Count (licenses item_world)" "domainCache item_world = (\<lambda>c. Map.empty)"
  "refintCache item_world = (\<lambda>c. Map.empty)"
  by (simp_all add: item_world_def udb_start_def udb.defs server.defs Udb_Over_License_Count_def int32_def)

lemma item_dbi_simps [simp]:
  "db_find_class item_dbi n s = map_of (mclasses s) n" "db_get_class_name item_dbi c s = map_option fst (find (\<lambda>p. snd p = c) (mclasses s))"
  "db_is_subclass item_dbi c d s \<longleftrightarrow> c = d" "db_get_class item_dbi x s = (case map_of (mobjects s) x of None \<Rightarrow> 0 | Some c \<Rightarrow> c)"
  "dbt_finish_object item_dbi t s = mem_finish item_schema (\<lambda>c a. a = cstr ''uuid'') t s"
  "db_get_attributes item_dbi c s = map (\<lambda>a. (a, Dom_Scalar DB_TYPE_OTHER None)) (item_schema c)"
  by (simp_all add: item_dbi_def mem_dbi_def)

lemma item_create:
  "\<exists>w'. Udb_Create item_dbi item_inet (\<lambda>a b. None) (\<lambda>s. None) (\<lambda>s. None) (@) (\<lambda>t vs v. vs @ [v]) (\<lambda>s. False) [cstr ''unameit_create'', cstr ''unameit_item'', item_uuid]
      (item_world\<lparr>syscall_db_updated := False\<rparr>) = Some (Done (Udb_Error ''EBADADDR'' [item_uuid], w'))"
proof -
  have f: "\<exists>s'. mem_finish item_schema (\<lambda>c a. a = cstr ''uuid'') (OTMPL (Inl 5) [(cstr ''uuid'', DB_STRING item_uuid)]) item_db = Some (7, s') \<and>
      mclasses s' = mclasses item_db \<and> mobjects s' = (7, 5) # mobjects item_db"
    by (simp add: item_db_def item_schema_def mem_clash_def mem_fresh_def Let_def mem_set_def)
  then obtain s' where s': "mem_finish item_schema (\<lambda>c a. a = cstr ''uuid'') (OTMPL (Inl 5) [(cstr ''uuid'', DB_STRING item_uuid)]) item_db = Some (7, s')"
    "mclasses s' = mclasses item_db" "mobjects s' = (7, 5) # mobjects item_db" by blast
  have c: "map_of (mclasses item_db) (cstr ''unameit_item'') = Some 5" "map_of (mclasses item_db) (cstr ''unameit_data_item'') = Some 6"
    "find (\<lambda>p. snd p = 5) (mclasses item_db) = Some (cstr ''unameit_item'', 5)"
    by (simp_all add: item_db_def cstr_def)
  have n: "cstr ''unameit_data_item'' \<noteq> cstr ''unameit_item''" by (simp add: cstr_def)
  show ?thesis
    by (simp add: Udb_Create_def item_uuid_valid lookup_defs c n s' Let_def Udb_Finish_Object_def Schema_Updated_def create_finish_def Udb_Populate_Caches_def
        Populate_Range_Table_def Udb_Update_Caches_def item_inet_def Udb_Error_def del: mem_finish.simps)
qed

theorem failed_command_leaves_no_trace_witness:
  "\<exists>code msg w'. Udb_Syscall (\<lambda>script. item_command item_dbi item_inet (\<lambda>a b. None) (\<lambda>s. None) (\<lambda>s. None) (@) (\<lambda>t vs v. vs @ [v]) (\<lambda>s. False) (\<lambda>u w. None)
       (Create [cstr ''unameit_create'', cstr ''unameit_item'', item_uuid])) [[], []] item_world = Some (Done (Tcl_Error code msg, w')) \<and>
     (database w' = database item_world \<and> licenses w' = licenses item_world \<or> force_rollback w')"
proof -
  have i: "populate_keeps item_dbi item_inet" by (simp add: populate_keeps_def item_inet_def)
  have d: "delete_records (\<lambda>u w. None)" by (simp add: delete_records_def)
  obtain code msg w' where r: "Udb_Syscall (\<lambda>script. item_command item_dbi item_inet (\<lambda>a b. None) (\<lambda>s. None) (\<lambda>s. None) (@) (\<lambda>t vs v. vs @ [v]) (\<lambda>s. False) (\<lambda>u w. None)
       (Create [cstr ''unameit_create'', cstr ''unameit_item'', item_uuid])) [[], []] item_world = Some (Done (Tcl_Error code msg, w'))"
    using item_create by (auto simp: Udb_Syscall_def Udb_Error_def Let_def)
  show ?thesis using r failed_command_leaves_no_trace [OF i d r] by blast
qed

section \<open>Typing\<close>

text \<open>The values of a domain: null, or a value of its type; an object of its class or a subclass, a collection of such elements.\<close>

definition instance_of :: "('s, 'o) dbi \<Rightarrow> 's \<Rightarrow> 'o \<Rightarrow> 'o \<Rightarrow> bool" where
  "instance_of db s c x \<longleftrightarrow> db_get_class db x s = c \<or> db_is_subclass db (db_get_class db x s) c s"

fun in_domain :: "('s, 'o) dbi \<Rightarrow> 's \<Rightarrow> 'o db_domain \<Rightarrow> 'o db_value \<Rightarrow> bool" where
  "in_domain db s (Dom_Scalar type c) v \<longleftrightarrow>
     v = DB_NULL \<or> has_type type v \<and> (\<forall>x. v = DB_OBJECT x \<longrightarrow> (\<exists>super. c = Some super \<and> instance_of db s super x))"
| "in_domain db s (Dom_Set d) v \<longleftrightarrow> (\<exists>vs. v = DB_SET (Col_New vs) \<and> (\<forall>u\<in>set vs. u \<noteq> DB_NULL \<and> in_domain db s d u))"
| "in_domain db s (Dom_Sequence d) v \<longleftrightarrow> (\<exists>vs. v = DB_SEQUENCE (Col_New vs) \<and> (\<forall>u\<in>set vs. u \<noteq> DB_NULL \<and> in_domain db s d u))"

definition pointer_domain :: "'o db_domain \<Rightarrow> bool" where
  "pointer_domain d \<longleftrightarrow> db_domain_type (db_domain_set d) = DB_TYPE_OBJECT"

text \<open>Adding to a new collection adds no other elements.\<close>

definition col_add_ok :: "(db_type \<Rightarrow> 'o db_value list \<Rightarrow> 'o db_value \<Rightarrow> 'o db_value list) \<Rightarrow> bool" where
  "col_add_ok db_col_add \<longleftrightarrow> (\<forall>t vs v. set (db_col_add t vs v) \<subseteq> insert v (set vs))"

lemma Udb_ISA_right:
  assumes "lookup_ok db w" "Udb_ISA db c d w = (b, w')"
  shows "b \<longleftrightarrow> c = d \<or> db_is_subclass db c d (database w)"
  using assms by (auto simp: Udb_ISA_def lookup_ok_def Let_def split: if_split_asm option.split_asm)

lemma scan_object_typed:
  assumes "lookup_ok db w" "scan_object db getvar c u a dc r input w = Done (Tcl_Ok (v, f), w')"
  shows "in_domain db (database w) (Dom_Scalar DB_TYPE_OBJECT dc) v \<and> f"
proof -
  obtain ok w1 where 1: "(if r then refint_action db getvar c a w else Done (True, w)) = Done (ok, w1)" using assms(2) by (auto simp: scan_object_def c_bind_Done)
  then have u: "unchanged db w w1" using keeps_Done [OF refint_action_keeps] by (auto split: if_split_asm)
  show ?thesis
  proof (cases "input = []")
    case True
    then show ?thesis using assms(2) 1 by (auto simp: scan_object_def Udb_Error_def split: if_split_asm)
  next
    case False
    then obtain y w2 where 2: "Udb_Find_Object db input w1 = Done (y, w2)" and ok: "ok" "Uuid_Valid input"
      using assms(2) 1 by (auto simp: scan_object_def c_bind_Done Udb_Error_def split: if_split_asm)
    have u2: "unchanged db w w2" using unchanged_trans [OF u keeps_Done [OF find_keeps(1) 2]] .
    obtain x super where 3: "y = Some x" "dc = Some super"
      using assms(2) 1 2 ok False by (auto simp: scan_object_def Udb_Error_def check_some_def split: option.split_asm)
    obtain isa w3 where i: "Udb_ISA db (db_get_class db x (database w2)) super w2 = (isa, w3)" by fastforce
    have "isa" "v = DB_OBJECT x" "f" using assms(2) 1 2 3 ok False i by (auto simp: scan_object_def check_some_def split: if_split_asm)
    moreover have "lookup_ok db w2" "database w2 = database w" using u2 assms(1) by (auto simp: unchanged_def)
    ultimately show ?thesis using Udb_ISA_right [OF _ i] 3 by (auto simp: instance_of_def)
  qed
qed

lemma scan_elements_typed:
  assumes "lookup_ok db w" "scan_elements scan add inputs col w = Done (Tcl_Ok vs, w')" "\<And>vs v. set (add vs v) \<subseteq> insert v (set vs)"
    and "\<And>input w. keeps db w (scan input w)"
    and "\<And>input w v f w'. lookup_ok db w \<Longrightarrow> scan input w = Done (Tcl_Ok (v, f), w') \<Longrightarrow> in_domain db (database w) d v"
    and "\<forall>u\<in>set col. u \<noteq> DB_NULL \<and> in_domain db (database w) d u"
  shows "\<forall>u\<in>set vs. u \<noteq> DB_NULL \<and> in_domain db (database w) d u"
  using assms(1,2,6)
proof (induction inputs arbitrary: col w)
  case (Cons i inputs)
  obtain r w1 where r: "scan i w = Done (r, w1)" using Cons.prems(2) by (auto simp: c_bind_Done)
  obtain v f where 1: "scan i w = Done (Tcl_Ok (v, f), w1)"
    "scan_elements scan add inputs (if v = DB_NULL then col else add col v) w1 = Done (Tcl_Ok vs, w')"
    using Cons.prems(2) r by (cases r) auto
  have u: "unchanged db w w1" by (rule keeps_Done [OF assms(4) 1(1)])
  then have w1: "lookup_ok db w1" "database w1 = database w" using Cons.prems(1) by (simp_all add: unchanged_def)
  have v: "in_domain db (database w) d v" by (rule assms(5) [OF Cons.prems(1) 1(1)])
  have "\<forall>u\<in>set (if v = DB_NULL then col else add col v). u \<noteq> DB_NULL \<and> in_domain db (database w1) d u"
  proof (cases "v = DB_NULL")
    case False
    have "u \<noteq> DB_NULL \<and> in_domain db (database w1) d u" if "u \<in> set (add col v)" for u
      using that assms(3) [of col v] Cons.prems(3) v False unfolding w1(2) by blast
    then show ?thesis using False by simp
  qed (use Cons.prems(3) w1(2) in simp)
  from Cons.IH [OF w1(1) 1(2) this] show ?case unfolding w1(2) .
qed simp

lemma scan_collection_typed:
  assumes "lookup_ok db w" "scan_collection db getvar split c u a d mk add scan r input w = Done (Tcl_Ok (v, f), w')"
    and "\<And>vs v. set (add vs v) \<subseteq> insert v (set vs)" "\<And>input w. keeps db w (scan input w)"
    and "\<And>input w v f w'. lookup_ok db w \<Longrightarrow> scan input w = Done (Tcl_Ok (v, f), w') \<Longrightarrow> in_domain db (database w) d v"
  shows "\<exists>vs. v = mk (Col_New vs) \<and> (\<forall>u\<in>set vs. u \<noteq> DB_NULL \<and> in_domain db (database w) d u) \<and> (f \<longleftrightarrow> db_domain_type d = DB_TYPE_OBJECT)"
proof -
  obtain inputs where i: "split input = Some inputs" "r" using assms(2) by (auto simp: scan_collection_def Udb_Error_def split: option.split_asm if_split_asm)
  obtain ok w1 where 1: "(if db_domain_type d = DB_TYPE_OBJECT then refint_action db getvar c a w else Done (True, w)) = Done (ok, w1)"
    using assms(2) i by (auto simp: scan_collection_def c_bind_Done Let_def)
  then have "unchanged db w w1" using keeps_Done [OF refint_action_keeps] by (auto split: if_split_asm)
  then have w1: "lookup_ok db w1" "database w1 = database w" using assms(1) by (simp_all add: unchanged_def)
  obtain vs w2 where 2: "scan_elements scan add inputs [] w1 = Done (Tcl_Ok vs, w2)" "v = mk (Col_New vs)" "f \<longleftrightarrow> db_domain_type d = DB_TYPE_OBJECT"
    using assms(2) i 1 by (auto simp: scan_collection_def c_bind_Done Let_def Udb_Error_def split: if_split_asm tcl_result.split_asm)
  have "\<forall>u\<in>set vs. u \<noteq> DB_NULL \<and> in_domain db (database w1) d u"
    by (rule scan_elements_typed [OF w1(1) 2(1) assms(3,4)]) (use assms(5) in auto)
  then show ?thesis using 2(2,3) w1(2) by auto
qed

lemma Scan_Value_typed:
  assumes "col_add_ok db_col_add" "lookup_ok db w" "Scan_Value db getvar db_value_put split db_col_add c u a d r input w = Done (Tcl_Ok (v, f), w')"
  shows "in_domain db (database w) d v \<and> (f \<longleftrightarrow> pointer_domain d)"
  using assms(2,3)
proof (induction d arbitrary: r input w v f w')
  case (Dom_Scalar t dc)
  show ?case
  proof (cases t)
    case DB_TYPE_OBJECT
    then show ?thesis using scan_object_typed [OF Dom_Scalar.prems(1), of getvar c u a dc r input v f w'] Dom_Scalar.prems(2) by (simp add: pointer_domain_def)
  qed (use Dom_Scalar.prems(2) in \<open>auto simp: pointer_domain_def c_bind_Done Udb_String_To_Int32_Value_def Udb_Error_def split: if_split_asm option.split_asm\<close>)
next
  case (Dom_Set d)
  have "\<exists>vs. v = DB_SET (Col_New vs) \<and> (\<forall>u\<in>set vs. u \<noteq> DB_NULL \<and> in_domain db (database w) d u) \<and> (f \<longleftrightarrow> db_domain_type d = DB_TYPE_OBJECT)"
    by (rule scan_collection_typed [OF Dom_Set.prems(1) Dom_Set.prems(2) [unfolded Scan_Value.simps]])
      (use assms(1) Dom_Set.IH in \<open>auto simp: col_add_ok_def Scan_Value_keeps\<close>)
  then show ?case by (auto simp: pointer_domain_def)
next
  case (Dom_Sequence d)
  have "\<exists>vs. v = DB_SEQUENCE (Col_New vs) \<and> (\<forall>u\<in>set vs. u \<noteq> DB_NULL \<and> in_domain db (database w) d u) \<and> (f \<longleftrightarrow> db_domain_type d = DB_TYPE_OBJECT)"
    by (rule scan_collection_typed [OF Dom_Sequence.prems(1) Dom_Sequence.prems(2) [unfolded Scan_Value.simps]])
      (use assms(1) Dom_Sequence.IH in \<open>auto simp: col_add_ok_def Scan_Value_keeps\<close>)
  then show ?case by (auto simp: pointer_domain_def)
qed

text \<open>
  What the attributes put into a template and the changed pointers amount to: every attribute is one of the class, unprotected, with
  a value of its domain, and the pointers to be maintained are those put last.
\<close>

definition well_typed :: "('s, 'o) dbi \<Rightarrow> 's \<Rightarrow> tclvar \<Rightarrow> 'o \<Rightarrow> (cstr \<times> 'o db_value) list \<Rightarrow> 'o relations \<Rightarrow> bool" where
  "well_typed db s getvar c ps rels \<longleftrightarrow>
     (\<forall>(a, v)\<in>set ps. \<not> Udb_Attr_Is_Protected getvar a \<and> (\<exists>d. map_of (db_get_attributes db c s) a = Some d \<and> in_domain db s d v)) \<and>
     (\<forall>a t v. map_of rels a = Some (t, v) \<longleftrightarrow>
        (\<exists>d. map_of (db_get_attributes db c s) a = Some d \<and> pointer_domain d \<and> t = db_domain_type d \<and> map_of (rev ps) a = Some v))"

lemma map_of_tbl_set: "map_of (tbl_set k v t) = (map_of t)(k \<mapsto> v)"
proof -
  have "map_of (map (\<lambda>p. if fst p = k then (k, v) else p) t) x = map_of t x" if "x \<noteq> k" for x using that by (induction t) auto
  moreover have "map_of (map (\<lambda>p. if fst p = k then (k, v) else p) t) k = Some v" if "k \<in> fst ` set t" using that by (induction t) auto
  moreover have "map_of t k = None" if "k \<notin> fst ` set t" using that by (simp add: map_of_eq_None_iff)
  ultimately show ?thesis by (auto simp: tbl_set_def fun_eq_iff map_add_def split: option.split)
qed

lemma Udb_Attribute_Domain_right:
  assumes "lookup_ok db w" "Udb_Attribute_Domain db c a w = (Some d, w')"
  shows "map_of (db_get_attributes db c (database w)) a = Some d"
  using assms by (auto simp: Udb_Attribute_Domain_def lookup_ok_def split: option.split_asm)

lemma Udb_Set_Attribute_typed:
  assumes "col_add_ok db_col_add" "lookup_ok db w" "well_typed db (database w) getvar (db_get_class db x (database w)) ps rels"
    and "Udb_Set_Attribute db getvar db_value_put split db_col_add u x (OTMPL b (qs @ ps)) a input rels w = Done (Tcl_Ok (t, rels'), w')"
  shows "\<exists>v. t = OTMPL b (qs @ ps @ [(a, v)]) \<and> well_typed db (database w) getvar (db_get_class db x (database w)) (ps @ [(a, v)]) rels'"
proof -
  let ?c = "db_get_class db x (database w)"
  have pr: "\<not> Udb_Attr_Is_Protected getvar a" using assms(4) by (auto simp: Udb_Set_Attribute_def Udb_Error_def split: if_split_asm)
  obtain d w1 where d: "Udb_Attribute_Domain db ?c a w = (Some d, w1)"
    using assms(4) pr by (auto simp: Udb_Set_Attribute_def Udb_Error_def Let_def split: prod.split_asm option.split_asm)
  have at: "map_of (db_get_attributes db ?c (database w)) a = Some d" by (rule Udb_Attribute_Domain_right [OF assms(2) d])
  have "unchanged db w w1" using Udb_Attribute_Domain_unch [of db w ?c a] d by simp
  then have w1: "lookup_ok db w1" "database w1 = database w" using assms(2) by (simp_all add: unchanged_def)
  obtain r where r: "Scan_Value db getvar db_value_put split db_col_add ?c u a d True input w1 = Done (r, w')"
    using assms(4) pr d by (auto simp: Udb_Set_Attribute_def c_bind_Done Let_def)
  obtain v f where v: "Scan_Value db getvar db_value_put split db_col_add ?c u a d True input w1 = Done (Tcl_Ok (v, f), w')"
    "t = OTMPL b (qs @ ps @ [(a, v)])" "rels' = (if f then tbl_set a (db_domain_type d, v) rels else rels)"
    using assms(4) pr d r by (cases r) (auto simp: Udb_Set_Attribute_def Let_def)
  have T: "in_domain db (database w) d v \<and> (f \<longleftrightarrow> pointer_domain d)" using Scan_Value_typed [OF assms(1) w1(1) v(1)] w1(2) by simp
  have "well_typed db (database w) getvar ?c (ps @ [(a, v)]) rels'"
    using assms(3) pr at T v(3) unfolding well_typed_def by (auto simp: map_of_tbl_set split: if_split_asm)
  then show ?thesis using v(2) by blast
qed

lemma create_attributes_typed:
  assumes "col_add_ok db_col_add" "\<And>w. keeps db w (null_owner w)"
    and "lookup_ok db w" "well_typed db (database w) getvar (db_get_class db c (database w)) ps rels"
    and "create_attributes db getvar db_value_put split db_col_add null_owner u c args (OTMPL b (qs @ ps)) rels os sr w = Done (Tcl_Ok (t, rels', root), w')"
  shows "\<exists>ps'. t = OTMPL b (qs @ ps @ ps') \<and> map fst ps' = map fst args \<and> well_typed db (database w) getvar (db_get_class db c (database w)) (ps @ ps') rels'"
  using assms(3-)
proof (induction args arbitrary: ps rels os sr w)
  case (Cons p args)
  obtain a input where p: "p = (a, input)" by (cases p)
  obtain r w1 where r: "Udb_Set_Attribute db getvar db_value_put split db_col_add u c (OTMPL b (qs @ ps)) a input rels w = Done (r, w1)"
    using Cons.prems(3) p by (auto simp: c_bind_Done)
  obtain t1 rels1 where t1: "r = Tcl_Ok (t1, rels1)" using Cons.prems(3) p r by (cases r) auto
  obtain v where v: "t1 = OTMPL b (qs @ ps @ [(a, v)])" "well_typed db (database w) getvar (db_get_class db c (database w)) (ps @ [(a, v)]) rels1"
    using Udb_Set_Attribute_typed [OF assms(1) Cons.prems(1,2) r [unfolded t1]] by blast
  have u1: "unchanged db w w1" by (rule keeps_Done [OF Udb_Set_Attribute_keeps r])
  obtain al w2 where 2: "(if a = cstr ''owner'' \<and> input = [] then null_owner w1 else Done (True, w1)) = Done (al, w2)"
    using Cons.prems(3) p r t1 by (auto simp: c_bind_Done simp del: create_attributes.simps(1))
  have u2: "unchanged db w w2" using 2 keeps_Done [OF assms(2)] u1 by (auto split: if_split_asm intro: unchanged_trans)
  have al: "al" using Cons.prems(3) p r t1 2 by (auto simp: Udb_Error_def split: if_split_asm)
  let ?os = "os \<or> a = cstr ''owner''" and ?sr = "sr \<or> a = cstr ''owner'' \<and> input = []"
  obtain mi w3 where 3: "(if args = [] \<and> \<not> ?os then owner_missing db getvar c w2 else Done (False, w2)) = Done (mi, w3)"
    using Cons.prems(3) p r t1 2 al by (auto simp: c_bind_Done Let_def simp del: create_attributes.simps(1))
  have u3: "unchanged db w w3" using 3 unchanged_trans [OF u2 keeps_Done [OF owner_missing_keeps, of db getvar c w2 mi w3]] u2 by (auto split: if_split_asm)
  have rest: "create_attributes db getvar db_value_put split db_col_add null_owner u c args t1 rels1 ?os ?sr w3 = Done (Tcl_Ok (t, rels', root), w')"
    using Cons.prems(3) p r t1 2 al 3 by (auto simp: Let_def Udb_Error_def split: if_split_asm)
  have w3: "lookup_ok db w3" "database w3 = database w" using u3 Cons.prems(1) by (simp_all add: unchanged_def)
  have v': "well_typed db (database w3) getvar (db_get_class db c (database w3)) (ps @ [(a, v)]) rels1" unfolding w3(2) by (rule v(2))
  obtain ps' where "t = OTMPL b (qs @ (ps @ [(a, v)]) @ ps')" "map fst ps' = map fst args"
    "well_typed db (database w3) getvar (db_get_class db c (database w3)) ((ps @ [(a, v)]) @ ps') rels'"
    using Cons.IH [OF w3(1) v'] rest v(1) by auto
  then show ?case unfolding w3(2) using p by (intro exI [of _ "(a, v) # ps'"]) simp
qed auto

lemma update_attributes_typed:
  assumes "col_add_ok db_col_add" "lookup_ok db w" "well_typed db (database w) getvar (db_get_class db x (database w)) ps rels"
    and "update_attributes db getvar db_value_put split db_col_add u x args (OTMPL b ps) rels w = Some (Done (Tcl_Ok (t, rels'), w'))"
  shows "\<exists>ps'. t = OTMPL b (ps @ ps') \<and> map fst ps' = map fst args \<and> well_typed db (database w) getvar (db_get_class db x (database w)) (ps @ ps') rels'"
  using assms(2-)
proof (induction args arbitrary: ps rels w)
  case (Cons p args)
  obtain a input where p: "p = (a, input)" by (cases p)
  obtain r w1 where r: "Udb_Set_Attribute db getvar db_value_put split db_col_add u x (OTMPL b ([] @ ps)) a input rels w = Done (r, w1)"
    using Cons.prems(3) p by (auto simp: o_bind_Done)
  obtain t1 rels1 where t1: "r = Tcl_Ok (t1, rels1)" using Cons.prems(3) p r by (cases r) auto
  obtain v where v: "t1 = OTMPL b (ps @ [(a, v)])" "well_typed db (database w) getvar (db_get_class db x (database w)) (ps @ [(a, v)]) rels1"
    using Udb_Set_Attribute_typed [OF assms(1) Cons.prems(1,2) r [unfolded t1]] by auto
  have u1: "unchanged db w w1" by (rule keeps_Done [OF Udb_Set_Attribute_keeps r])
  obtain r2 w2 where 2: "update_checks db getvar u x a input w1 = Some (Done (r2, w2))"
    using Cons.prems(3) p r t1 by (auto simp: o_bind_Done simp del: update_attributes.simps(1))
  have "okeeps db w1 (update_checks db getvar u x a input w1)" by (simp add: update_checks_def Check_keeps)
  then have u2: "unchanged db w w2" using 2 u1 by (auto intro: unchanged_trans)
  have rest: "update_attributes db getvar db_value_put split db_col_add u x args t1 rels1 w2 = Some (Done (Tcl_Ok (t, rels'), w'))"
    using Cons.prems(3) p r t1 2 by (cases r2) auto
  have w2: "lookup_ok db w2" "database w2 = database w" using u2 Cons.prems(1) by (simp_all add: unchanged_def)
  have v': "well_typed db (database w2) getvar (db_get_class db x (database w2)) (ps @ [(a, v)]) rels1" unfolding w2(2) by (rule v(2))
  obtain ps' where "t = OTMPL b ((ps @ [(a, v)]) @ ps')" "map fst ps' = map fst args"
    "well_typed db (database w2) getvar (db_get_class db x (database w2)) ((ps @ [(a, v)]) @ ps') rels'"
    using Cons.IH [OF w2(1) v'] rest v(1) by auto
  then show ?case unfolding w2(2) using p by (intro exI [of _ "(a, v) # ps'"]) simp
qed auto

text \<open>C7: What clients put into items is well typed.  Whenever the loop over the attributes of \<^verbatim>\<open>Udb_Create\<close> or of \<^verbatim>\<open>Udb_Update\<close>
  accepts the arguments, the template holds exactly the given attributes in their order, each of which exists in the class and is not protected,
  with a value of its declared domain: null or of the declared type, references to items of the declared class or a subclass, collections without
  null elements whose elements are of the element domain.  The table of pointers whose relations are then maintained holds exactly the
  attributes with a pointer domain, each with the value put last.\<close>

theorem item_attributes_well_typed:
  assumes "col_add_ok db_col_add" "lookup_ok db w"
  shows "(create_attributes db getvar db_value_put split db_col_add (root_may_be_made db cname c) u c args
        (dbt_put (dbt_create_object c) (cstr ''uuid'') (DB_STRING u)) [] False False w = Done (Tcl_Ok (t, rels, root), w') \<longrightarrow>
      (\<exists>ps. t = OTMPL (Inl c) ((cstr ''uuid'', DB_STRING u) # ps) \<and> map fst ps = map fst args \<and>
        well_typed db (database w) getvar (db_get_class db c (database w)) ps rels)) \<and>
    (update_attributes db getvar db_value_put split db_col_add u x args (dbt_edit_object x) [] w = Some (Done (Tcl_Ok (t', rels'), w'')) \<longrightarrow>
      (\<exists>ps. t' = OTMPL (Inr x) ps \<and> map fst ps = map fst args \<and> well_typed db (database w) getvar (db_get_class db x (database w)) ps rels'))"
proof (intro conjI impI)
  have e: "well_typed db s getvar k [] []" for s k by (simp add: well_typed_def)
  have r: "keeps db w (root_may_be_made db cname c w)" for w
    by (auto simp: root_may_be_made_def intro!: keeps_bind [OF Udb_Get_Root_keeps])
  show "\<exists>ps. t = OTMPL (Inl c) ((cstr ''uuid'', DB_STRING u) # ps) \<and> map fst ps = map fst args \<and>
      well_typed db (database w) getvar (db_get_class db c (database w)) ps rels"
    if "create_attributes db getvar db_value_put split db_col_add (root_may_be_made db cname c) u c args
      (dbt_put (dbt_create_object c) (cstr ''uuid'') (DB_STRING u)) [] False False w = Done (Tcl_Ok (t, rels, root), w')"
    using create_attributes_typed [where qs = "[(cstr ''uuid'', DB_STRING u)]", OF assms(1) r assms(2) e] that by simp
  show "\<exists>ps. t' = OTMPL (Inr x) ps \<and> map fst ps = map fst args \<and> well_typed db (database w) getvar (db_get_class db x (database w)) ps rels'"
    if "update_attributes db getvar db_value_put split db_col_add u x args (dbt_edit_object x) [] w = Some (Done (Tcl_Ok (t', rels'), w''))"
    using update_attributes_typed [OF assms e that] by simp
qed

text \<open>The witness: an item class with a name and a set of references.\<close>

definition typed_dbi :: "(mem, nat) dbi" where
  "typed_dbi = item_dbi\<lparr>db_get_attributes := \<lambda>c s. [(cstr ''name'', Dom_Scalar DB_TYPE_STRING None), (cstr ''friends'', Dom_Set (Dom_Scalar DB_TYPE_OBJECT (Some 5)))]\<rparr>"

definition typed_var :: tclvar where
  "typed_var a k = (if a = ''UNAMEIT_REF_INTEGRITY'' then Some (cstr ''Nullify'') else None)"

abbreviation typed_args :: "(cstr \<times> cstr) list" where
  "typed_args \<equiv> [(cstr ''name'', cstr ''x''), (cstr ''friends'', [])]"

lemma typed_names: "cstr ''name'' \<noteq> cstr ''owner''" "cstr ''friends'' \<noteq> cstr ''owner''" "cstr ''friends'' \<noteq> cstr ''name''" "cstr ''name'' \<noteq> cstr ''cellorg''" "cstr ''friends'' \<noteq> cstr ''cellorg''"
  "cstr ''Nullify'' \<noteq> cstr ''Block''" "cstr ''Nullify'' \<noteq> cstr ''Cascade''" "cstr ''x'' \<noteq> []" "map_of (mclasses item_db) (cstr ''unameit_data_item'') = Some 6"
  "find (\<lambda>p. snd p = 5) (mclasses item_db) = Some (cstr ''unameit_item'', 5)" "map_of (mobjects item_db) 5 = Some 5"
  by (simp_all add: item_db_def cstr_def)

lemma typed_create:
  "\<exists>t rels root w'. create_attributes typed_dbi typed_var (\<lambda>s. None) (\<lambda>s. Some []) (\<lambda>t vs v. vs @ [v]) (root_may_be_made typed_dbi (cstr ''unameit_item'') 5) item_uuid 5 typed_args
      (dbt_put (dbt_create_object 5) (cstr ''uuid'') (DB_STRING item_uuid)) [] False False item_world = Done (Tcl_Ok (t, rels, root), w')"
  by (simp add: typed_dbi_def typed_var_def typed_names Udb_Set_Attribute_def Udb_Attribute_Domain_def Udb_Attr_Is_Protected_def scan_collection_def refint_action_def
      Udb_Get_Relaction_def legal_action_def lookup_defs owner_missing_def Let_def)
    (rule exI [of _ False], simp)

theorem item_attributes_well_typed_witness:
  "\<exists>t rels root w' ps. create_attributes typed_dbi typed_var (\<lambda>s. None) (\<lambda>s. Some []) (\<lambda>t vs v. vs @ [v]) (root_may_be_made typed_dbi (cstr ''unameit_item'') 5) item_uuid 5 typed_args
      (dbt_put (dbt_create_object 5) (cstr ''uuid'') (DB_STRING item_uuid)) [] False False item_world = Done (Tcl_Ok (t, rels, root), w') \<and>
    t = OTMPL (Inl 5) ((cstr ''uuid'', DB_STRING item_uuid) # ps) \<and> map fst ps = map fst typed_args \<and>
    well_typed typed_dbi (database item_world) typed_var (db_get_class typed_dbi 5 (database item_world)) ps rels"
proof -
  have c: "col_add_ok (\<lambda>t vs v. vs @ [v])" by (auto simp: col_add_ok_def)
  have l: "lookup_ok typed_dbi item_world" by (simp add: lookup_ok_def)
  obtain t rels root w' where r: "create_attributes typed_dbi typed_var (\<lambda>s. None) (\<lambda>s. Some []) (\<lambda>t vs v. vs @ [v]) (root_may_be_made typed_dbi (cstr ''unameit_item'') 5) item_uuid 5 typed_args
      (dbt_put (dbt_create_object 5) (cstr ''uuid'') (DB_STRING item_uuid)) [] False False item_world = Done (Tcl_Ok (t, rels, root), w')"
    using typed_create by blast
  show ?thesis using item_attributes_well_typed [OF c l, THEN conjunct1, THEN mp, OF r] r by blast
qed

end
