(* ===== verification/Fetch.thy ===== *)
theory Fetch
  imports Items
begin

text \<open>
  Items for clients: \<^verbatim>\<open>libudb/tcl_mem.c\<close>, \<^verbatim>\<open>fetch.c\<close> and \<^verbatim>\<open>dump.c\<close>.  The fetched attributes are collected in a table per object, objects
  that are referenced are fetched as far as they are needed to name them, and everything is turned into a Tcl list or Tcl variables.

  A Tcl list that is built in a string is modelled by what it parses to: elements and sublists (\<open>tcl_obj\<close>).  Setting Tcl variables and
  writing to a channel are arguments; the message of a command of Tcl that fails is not modelled.  The domain of a collection is \<open>col_domain\<close>.
\<close>

section \<open>Tables\<close>

datatype 'o Value = Val_Integer int | Val_String cstr | Val_Object 'o | Val_List "'o list"

text \<open>The tables of the objects, in the order of their traversal, and the objects whose fetching is delayed; a null value is \<open>None\<close>.\<close>

record 'o stream =
  objects :: "('o \<times> (cstr \<times> 'o Value option) list) list"
  delayed :: "'o list option"

definition oTbl :: "'o stream \<Rightarrow> 'o \<Rightarrow> (cstr \<times> 'o Value option) list option" where
  "oTbl st x = map_of (objects st) x"

text \<open>\<open>Tcl_CreateHashEntry\<close>: a new entry is null.\<close>

definition new_object :: "'o \<Rightarrow> 'o stream \<Rightarrow> 'o stream" where
  "new_object x st = (if oTbl st x = None then st\<lparr>objects := tbl_set x [] (objects st)\<rparr> else st)"

definition attrs_of :: "'o stream \<Rightarrow> 'o \<Rightarrow> (cstr \<times> 'o Value option) list" where
  "attrs_of st x = (case oTbl st x of None \<Rightarrow> [] | Some t \<Rightarrow> t)"

definition has_entry :: "'o stream \<Rightarrow> 'o \<Rightarrow> cstr \<Rightarrow> bool" where
  "has_entry st x a \<longleftrightarrow> map_of (attrs_of st x) a \<noteq> None"

definition new_entry :: "'o \<Rightarrow> cstr \<Rightarrow> 'o stream \<Rightarrow> 'o stream" where
  "new_entry x a st = (if has_entry st x a then st else st\<lparr>objects := tbl_set x (tbl_set a None (attrs_of st x)) (objects st)\<rparr>)"

definition set_entry :: "'o \<Rightarrow> cstr \<Rightarrow> 'o Value \<Rightarrow> 'o stream \<Rightarrow> 'o stream" where
  "set_entry x a v st = st\<lparr>objects := tbl_set x (tbl_set a (Some v) (attrs_of st x)) (objects st)\<rparr>"

definition Udb_Delay_Fetch :: "'o \<Rightarrow> 'o stream \<Rightarrow> 'o stream" where
  "Udb_Delay_Fetch x st = (if has_entry st x (cstr ''uuid'') then st else st\<lparr>delayed := tbl_add x (delayed st)\<rparr>)"

fun stringify_elements ::
  "('s, 'o) dbi \<Rightarrow> (cstr \<Rightarrow> cstr \<Rightarrow> cstr) \<Rightarrow> db_type \<Rightarrow> 'o db_collection \<Rightarrow> nat \<Rightarrow> nat \<Rightarrow> 's \<Rightarrow> cstr \<Rightarrow> cstr c_run" where
  "stringify_elements db elem type col i 0 s str = Done str"
| "stringify_elements db elem type col i (Suc n) s str =
     c_bind (Udb_Get_Collection_Value db col i type s) (\<lambda>v.
     c_bind (stringify_scalar db elem str v s) (stringify_elements db elem type col (i + 1) n s))"

fun store_objects ::
  "('s, 'o) dbi \<Rightarrow> 'o db_collection \<Rightarrow> nat \<Rightarrow> nat \<Rightarrow> 's \<Rightarrow> 'o list \<Rightarrow> 'o stream \<Rightarrow> ('o list \<times> 'o stream) c_run" where
  "store_objects db col i 0 s xs st = Done (xs, st)"
| "store_objects db col i (Suc n) s xs st =
     c_bind (Udb_Get_Collection_Value db col i DB_TYPE_OBJECT s) (\<lambda>v.
     c_bind (check_some (DB_GET_OBJECT v)) (\<lambda>x. store_objects db col (i + 1) n s (xs @ [x]) (Udb_Delay_Fetch x st)))"

text \<open>The attribute name is absent for the class of the object.  A value that is there already is kept.\<close>

definition Udb_Store_Value ::
  "('s, 'o) dbi \<Rightarrow> ('o db_collection \<Rightarrow> 's \<Rightarrow> 'o db_domain) \<Rightarrow> (cstr \<Rightarrow> cstr \<Rightarrow> cstr) \<Rightarrow> 'o \<Rightarrow> cstr option \<Rightarrow> 'o db_value \<Rightarrow> 's \<Rightarrow> 'o stream \<Rightarrow> 'o stream c_run" where
  "Udb_Store_Value db col_domain elem object aname value s st =
     (let a = (case aname of None \<Rightarrow> cstr ''Class'' | Some a \<Rightarrow> a);
          stored = (case map_of (attrs_of st object) a of Some (Some v) \<Rightarrow> True | _ \<Rightarrow> False);
          st = new_entry object a (new_object object st)
      in if stored \<or> value = DB_NULL then Done st
         else case value of
           DB_INTEGER i \<Rightarrow> Done (set_entry object a (Val_Integer i) st)
         | DB_STRING str \<Rightarrow> Done (set_entry object a (Val_String str) st)
         | DB_OBJECT x \<Rightarrow> Done (set_entry object a (Val_Object x) (if aname \<noteq> None then Udb_Delay_Fetch x st else st))
         | DB_NULL \<Rightarrow> Done st
         | _ \<Rightarrow>
             c_bind (check_some (DB_GET_COLLECTION value)) (\<lambda>col.
             let n = db_col_size db col s; type = db_domain_type (db_domain_set (col_domain col s))
             in if type = DB_TYPE_STRING \<or> type = DB_TYPE_INTEGER
                then c_bind (stringify_elements db elem type col 0 n s []) (\<lambda>str. Done (set_entry object a (Val_String str) st))
                else if type = DB_TYPE_OBJECT
                then c_bind (store_objects db col 0 n s [] st) (\<lambda>(xs, st). Done (set_entry object a (Val_List xs) st))
                else Panic))"

section \<open>Fetching what names the objects\<close>

fun name_attributes ::
  "('s, 'o) dbi \<Rightarrow> ('o db_collection \<Rightarrow> 's \<Rightarrow> 'o db_domain) \<Rightarrow> (cstr \<Rightarrow> cstr \<Rightarrow> cstr) \<Rightarrow> 'o \<Rightarrow> cstr list \<Rightarrow> 's \<Rightarrow> 'o stream \<Rightarrow> 'o stream c_run" where
  "name_attributes db col_domain elem x [] s st = Done st"
| "name_attributes db col_domain elem x (a # anames) s st =
     c_bind (if has_entry st x a then Done st
             else case db_get db x a s of
               NOERROR v \<Rightarrow> Udb_Store_Value db col_domain elem x (Some a) v s st
             | _ \<Rightarrow> Panic)
       (name_attributes db col_domain elem x anames s)"

definition fetch_class ::
  "('s, 'o) dbi \<Rightarrow> ('o db_collection \<Rightarrow> 's \<Rightarrow> 'o db_domain) \<Rightarrow> (cstr \<Rightarrow> cstr \<Rightarrow> cstr) \<Rightarrow> 'o \<Rightarrow> 's \<Rightarrow> 'o stream \<Rightarrow> ('o \<times> 'o stream) c_run" where
  "fetch_class db col_domain elem x s st =
     (case map_of (attrs_of st x) (cstr ''Class'') of
        Some (Some v) \<Rightarrow> (case v of Val_Object c \<Rightarrow> Done (c, st) | _ \<Rightarrow> Panic)
      | _ \<Rightarrow>
          let c = db_get_class db x s
          in c_bind (Udb_Store_Value db col_domain elem x None (DB_OBJECT c) s st) (\<lambda>st. Done (c, st)))"

definition fetch_uuid :: "('s, 'o) dbi \<Rightarrow> ('o db_collection \<Rightarrow> 's \<Rightarrow> 'o db_domain) \<Rightarrow> (cstr \<Rightarrow> cstr \<Rightarrow> cstr) \<Rightarrow> 'o \<Rightarrow> 's \<Rightarrow> 'o stream \<Rightarrow> 'o stream c_run" where
  "fetch_uuid db col_domain elem x s st =
     (if has_entry st x (cstr ''uuid'') then Done st
      else c_bind (Udb_Get_Value db x (cstr ''uuid'') DB_TYPE_STRING s) (\<lambda>v.
        if v = DB_NULL then Panic else Udb_Store_Value db col_domain elem x (Some (cstr ''uuid'')) v s (new_entry x (cstr ''uuid'') st)))"

definition fetch_deleted :: "('s, 'o) dbi \<Rightarrow> ('o db_collection \<Rightarrow> 's \<Rightarrow> 'o db_domain) \<Rightarrow> (cstr \<Rightarrow> cstr \<Rightarrow> cstr) \<Rightarrow> 'o \<Rightarrow> 's \<Rightarrow> 'o stream \<Rightarrow> 'o stream c_run" where
  "fetch_deleted db col_domain elem x s st =
     (if has_entry st x (cstr ''deleted'') then Done st
      else c_bind (Udb_Get_Value db x (cstr ''deleted'') DB_TYPE_STRING s) (\<lambda>v.
        Udb_Store_Value db col_domain elem x (Some (cstr ''deleted'')) v s (new_entry x (cstr ''deleted'') st)))"

definition fetch_names ::
  "('s, 'o) dbi \<Rightarrow> ('o db_collection \<Rightarrow> 's \<Rightarrow> 'o db_domain) \<Rightarrow> tclvar \<Rightarrow> (cstr \<Rightarrow> cstr list option) \<Rightarrow> (cstr \<Rightarrow> cstr \<Rightarrow> cstr) \<Rightarrow> 'o \<Rightarrow> 'o \<Rightarrow>
     'o stream \<Rightarrow> ('s, 'o, 'm) udb_scheme \<Rightarrow> ('o stream \<times> ('s, 'o, 'm) udb_scheme) c_run" where
  "fetch_names db col_domain getvar split elem class x st w =
     c_bind (Udb_Get_Name_Attributes db getvar split class w) (\<lambda>(alist, w).
       case alist of
         None \<Rightarrow> Done (st, w)
       | Some anames \<Rightarrow> c_bind (name_attributes db col_domain elem x anames (database w) st) (\<lambda>st. Done (st, w)))"

definition fetch_row ::
  "('s, 'o) dbi \<Rightarrow> ('o db_collection \<Rightarrow> 's \<Rightarrow> 'o db_domain) \<Rightarrow> tclvar \<Rightarrow> (cstr \<Rightarrow> cstr list option) \<Rightarrow> (cstr \<Rightarrow> cstr \<Rightarrow> cstr) \<Rightarrow> bool \<Rightarrow> bool \<Rightarrow> 'o \<Rightarrow>
     'o stream \<Rightarrow> ('s, 'o, 'm) udb_scheme \<Rightarrow> ('o stream \<times> ('s, 'o, 'm) udb_scheme) c_run" where
  "fetch_row db col_domain getvar split elem nameFields deletedFlag x st w =
     (if oTbl st x = None then Panic
      else
        c_bind (fetch_uuid db col_domain elem x (database w) st) (\<lambda>st.
        let st = (if nameFields then new_entry x (cstr ''Class'') st else st)
        in if \<not> has_entry st x (cstr ''Class'') then Done (st, w)
           else
             c_bind (fetch_class db col_domain elem x (database w) st) (\<lambda>(class, st).
             c_bind (if deletedFlag then fetch_deleted db col_domain elem x (database w) st else Done st) (\<lambda>st.
               if \<not> nameFields then Done (st, w) else fetch_names db col_domain getvar split elem class x st w))))"

fun fetch_rows ::
  "('s, 'o) dbi \<Rightarrow> ('o db_collection \<Rightarrow> 's \<Rightarrow> 'o db_domain) \<Rightarrow> tclvar \<Rightarrow> (cstr \<Rightarrow> cstr list option) \<Rightarrow> (cstr \<Rightarrow> cstr \<Rightarrow> cstr) \<Rightarrow> bool \<Rightarrow> bool \<Rightarrow> 'o list \<Rightarrow>
     'o stream \<Rightarrow> ('s, 'o, 'm) udb_scheme \<Rightarrow> ('o stream \<times> ('s, 'o, 'm) udb_scheme) c_run" where
  "fetch_rows db col_domain getvar split elem nameFields deletedFlag [] st w = Done (st, w)"
| "fetch_rows db col_domain getvar split elem nameFields deletedFlag (x # xs) st w =
     c_bind (fetch_row db col_domain getvar split elem nameFields deletedFlag x st w) (\<lambda>(st, w). fetch_rows db col_domain getvar split elem nameFields deletedFlag xs st w)"

text \<open>The array has \<open>FETCH_COUNT\<close> elements and its end is marked by a null pointer after the last object: with a full array, this writes
  beyond it.  What \<open>db_fetch_array\<close> locks is not modelled.\<close>

abbreviation FETCH_COUNT :: nat where "FETCH_COUNT \<equiv> 64"

definition Do_Fetch ::
  "('s, 'o) dbi \<Rightarrow> ('o db_collection \<Rightarrow> 's \<Rightarrow> 'o db_domain) \<Rightarrow> tclvar \<Rightarrow> (cstr \<Rightarrow> cstr list option) \<Rightarrow> (cstr \<Rightarrow> cstr \<Rightarrow> cstr) \<Rightarrow> bool \<Rightarrow> bool \<Rightarrow> 'o list \<Rightarrow>
     'o stream \<Rightarrow> ('s, 'o, 'm) udb_scheme \<Rightarrow> ('o stream \<times> ('s, 'o, 'm) udb_scheme) c_run" where
  "Do_Fetch db col_domain getvar split elem nameFields deletedFlag oArray st w =
     (if length oArray \<ge> FETCH_COUNT then Overrun else fetch_rows db col_domain getvar split elem nameFields deletedFlag oArray st w)"

text \<open>Whether a delayed object still has to be read; its table is made.\<close>

definition fetch_needed ::
  "('s, 'o) dbi \<Rightarrow> tclvar \<Rightarrow> (cstr \<Rightarrow> cstr list option) \<Rightarrow> bool \<Rightarrow> bool \<Rightarrow> 'o \<Rightarrow> 'o stream \<Rightarrow> ('s, 'o, 'm) udb_scheme \<Rightarrow>
     (bool \<times> 'o stream \<times> ('s, 'o, 'm) udb_scheme) c_run" where
  "fetch_needed db getvar split nameFields deletedFlag x st w =
     (let st = new_object x st
      in if \<not> has_entry st x (cstr ''uuid'') then Done (True, st, w)
         else
           let st = (if nameFields then new_entry x (cstr ''Class'') st else st)
           in case map_of (attrs_of st x) (cstr ''Class'') of
                None \<Rightarrow> Done (True, st, w)
              | Some cval \<Rightarrow>
                  if deletedFlag \<and> \<not> has_entry st x (cstr ''deleted'') then Done (True, st, w)
                  else case cval of
                    None \<Rightarrow> Done (True, st, w)
                  | Some v \<Rightarrow>
                      if \<not> nameFields then Done (False, st, w)
                      else case v of
                        Val_Object class \<Rightarrow>
                          c_bind (Udb_Get_Name_Attributes db getvar split class w) (\<lambda>(alist, w).
                            Done (case alist of None \<Rightarrow> False | Some anames \<Rightarrow> \<not> list_all (has_entry st x) anames, st, w))
                      | _ \<Rightarrow> Panic)"

text \<open>
  The objects are read in batches; reading one batch may delay more objects.  One step of the two loops takes an object out of the
  table of delayed objects (\<open>Inl\<close>: the array, the tables and the library), or ends them (\<open>Inr\<close>).
\<close>

definition fetch_array ::
  "('s, 'o) dbi \<Rightarrow> ('o db_collection \<Rightarrow> 's \<Rightarrow> 'o db_domain) \<Rightarrow> tclvar \<Rightarrow> (cstr \<Rightarrow> cstr list option) \<Rightarrow> (cstr \<Rightarrow> cstr \<Rightarrow> cstr) \<Rightarrow> bool \<Rightarrow> bool \<Rightarrow> 'o list \<Rightarrow> 'o stream \<Rightarrow> ('s, 'o, 'm) udb_scheme \<Rightarrow>
     ('o list \<times> 'o stream \<times> ('s, 'o, 'm) udb_scheme + 'o stream \<times> ('s, 'o, 'm) udb_scheme) c_run" where
  "fetch_array db col_domain getvar split elem nameFields deletedFlag oArray st w =
     c_bind (Do_Fetch db col_domain getvar split elem nameFields deletedFlag oArray st w) (\<lambda>(st, w). Done (Inl ([], st, w)))"

definition fetch_step ::
  "('s, 'o) dbi \<Rightarrow> ('o db_collection \<Rightarrow> 's \<Rightarrow> 'o db_domain) \<Rightarrow> tclvar \<Rightarrow> (cstr \<Rightarrow> cstr list option) \<Rightarrow> (cstr \<Rightarrow> cstr \<Rightarrow> cstr) \<Rightarrow> bool \<Rightarrow> bool \<Rightarrow> 'o list \<times> 'o stream \<times> ('s, 'o, 'm) udb_scheme \<Rightarrow>
     ('o list \<times> 'o stream \<times> ('s, 'o, 'm) udb_scheme + 'o stream \<times> ('s, 'o, 'm) udb_scheme) c_run" where
  "fetch_step db col_domain getvar split elem nameFields deletedFlag = (\<lambda>(oArray, st, w).
     case delayed st of
       None \<Rightarrow> Panic
     | Some [] \<Rightarrow> if oArray = [] then Done (Inr (st\<lparr>delayed := None\<rparr>, w)) else fetch_array db col_domain getvar split elem nameFields deletedFlag oArray st w
     | Some (x # queue) \<Rightarrow>
         c_bind (fetch_needed db getvar split nameFields deletedFlag x (st\<lparr>delayed := Some queue\<rparr>) w) (\<lambda>(needed, st, w).
           if \<not> needed then Done (Inl (oArray, st, w))
           else if length oArray + 1 = FETCH_COUNT then fetch_array db col_domain getvar split elem nameFields deletedFlag (oArray @ [x]) st w
           else Done (Inl (oArray @ [x], st, w))))"

text \<open>\<open>None\<close> is a loop that does not end.\<close>

partial_function (option) loop_steps :: "('a \<Rightarrow> ('a + 'b) c_run) \<Rightarrow> 'a \<Rightarrow> 'b c_run option" where
  "loop_steps step x = o_bind (Some (step x)) (\<lambda>r. case r of Inl y \<Rightarrow> loop_steps step y | Inr z \<Rightarrow> Some (Done z))"

definition Fetch_Objects ::
  "('s, 'o) dbi \<Rightarrow> ('o db_collection \<Rightarrow> 's \<Rightarrow> 'o db_domain) \<Rightarrow> tclvar \<Rightarrow> (cstr \<Rightarrow> cstr list option) \<Rightarrow> (cstr \<Rightarrow> cstr \<Rightarrow> cstr) \<Rightarrow> bool \<Rightarrow> bool \<Rightarrow>
     'o stream \<Rightarrow> ('s, 'o, 'm) udb_scheme \<Rightarrow> ('o stream \<times> ('s, 'o, 'm) udb_scheme) c_run option" where
  "Fetch_Objects db col_domain getvar split elem nameFields deletedFlag st w =
     (if delayed st = None then Some (Done (st, w)) else loop_steps (fetch_step db col_domain getvar split elem nameFields deletedFlag) ([], st, w))"

section \<open>Encoding\<close>

datatype tcl_obj = Elem cstr | Sublist "tcl_obj list"

text \<open>The identifier of a referenced object, which must have been fetched.\<close>

definition ref_uuid :: "'o stream \<Rightarrow> 'o \<Rightarrow> cstr c_run" where
  "ref_uuid st x =
     (case map_of (attrs_of st x) (cstr ''uuid'') of
        Some (Some v) \<Rightarrow> (case v of Val_String u \<Rightarrow> Done u | _ \<Rightarrow> Panic)
      | _ \<Rightarrow> Overrun)"

text \<open>The identifier of the object itself: its type is not checked.\<close>

definition own_uuid :: "(cstr \<times> 'o Value option) list \<Rightarrow> cstr c_run" where
  "own_uuid attrs =
     (case map_of attrs (cstr ''uuid'') of
        None \<Rightarrow> Panic
      | Some (Some v) \<Rightarrow> (case v of Val_String u \<Rightarrow> Done u | _ \<Rightarrow> Overrun)
      | _ \<Rightarrow> Overrun)"

fun ref_uuids :: "'o stream \<Rightarrow> 'o list \<Rightarrow> cstr list c_run" where
  "ref_uuids st [] = Done []"
| "ref_uuids st (x # xs) = c_bind (ref_uuid st x) (\<lambda>u. c_bind (ref_uuids st xs) (\<lambda>us. Done (u # us)))"

definition encode_value :: "'o stream \<Rightarrow> 'o Value option \<Rightarrow> tcl_obj c_run" where
  "encode_value st v =
     (case v of
        None \<Rightarrow> Done (Elem [])
      | Some (Val_Integer i) \<Rightarrow> Done (Elem (fmt_ld i))
      | Some (Val_String str) \<Rightarrow> Done (Elem str)
      | Some (Val_Object x) \<Rightarrow> c_bind (ref_uuid st x) (\<lambda>u. Done (Elem u))
      | Some (Val_List xs) \<Rightarrow> c_bind (ref_uuids st xs) (\<lambda>us. Done (Sublist (map Elem us))))"

text \<open>Tcl variables: \<open>Tcl_SetVar2\<close> with the array, the index, the value and whether it is appended as a list element.\<close>

type_synonym 'v setvar = "cstr \<Rightarrow> cstr \<Rightarrow> cstr \<Rightarrow> bool \<Rightarrow> 'v \<Rightarrow> 'v option"

fun set_elements :: "'v setvar \<Rightarrow> cstr \<Rightarrow> cstr \<Rightarrow> tcl_obj list \<Rightarrow> 'v \<Rightarrow> 'v option" where
  "set_elements setvar uuid a [] vars = Some vars"
| "set_elements setvar uuid a (Elem u # es) vars = Option.bind (setvar uuid a u True vars) (set_elements setvar uuid a es)"
| "set_elements setvar uuid a (Sublist l # es) vars = set_elements setvar uuid a es vars"

fun set_field :: "'v setvar \<Rightarrow> cstr \<Rightarrow> cstr \<Rightarrow> tcl_obj \<Rightarrow> 'v \<Rightarrow> 'v option" where
  "set_field setvar uuid a (Elem str) vars = setvar uuid a str False vars"
| "set_field setvar uuid a (Sublist es) vars = Option.bind (setvar uuid a [] False vars) (set_elements setvar uuid a es)"

text \<open>The fields of an object, as list elements or as variables; \<open>None\<close> is an error of Tcl.  The elements of a list are read
  before the variable is reset, where the code interleaves the two.\<close>

fun encode_fields ::
  "'v setvar \<Rightarrow> bool \<Rightarrow> 'o stream \<Rightarrow> cstr \<Rightarrow> (cstr \<times> 'o Value option) list \<Rightarrow> tcl_obj list \<Rightarrow> 'v \<Rightarrow> (tcl_obj list \<times> 'v) option c_run" where
  "encode_fields setvar streamFlag st uuid [] l vars = Done (Some (l, vars))"
| "encode_fields setvar streamFlag st uuid ((a, v) # attrs) l vars =
     (if a = cstr ''uuid'' then encode_fields setvar streamFlag st uuid attrs l vars
      else
        c_bind (encode_value st v) (\<lambda>e.
          if streamFlag then encode_fields setvar streamFlag st uuid attrs (l @ [Elem a, e]) vars
          else case set_field setvar uuid a e vars of
            None \<Rightarrow> Done None
          | Some vars \<Rightarrow> encode_fields setvar streamFlag st uuid attrs l vars))"

fun encode_objects ::
  "('s, 'o) dbi \<Rightarrow> 'v setvar \<Rightarrow> bool \<Rightarrow> 'o stream \<Rightarrow> ('o \<times> (cstr \<times> 'o Value option) list) list \<Rightarrow> tcl_obj list \<Rightarrow> 'v \<Rightarrow> ('s, 'o, 'm) udb_scheme \<Rightarrow>
     ((tcl_obj list \<times> 'v) option \<times> ('s, 'o, 'm) udb_scheme) c_run" where
  "encode_objects db setvar streamFlag st [] l vars w = Done (Some (l, vars), w)"
| "encode_objects db setvar streamFlag st ((x, attrs) # obs) l vars w =
     (case map_of attrs (cstr ''Class'') of
        None \<Rightarrow> encode_objects db setvar streamFlag st obs l vars w
      | Some None \<Rightarrow> Overrun
      | Some (Some cval) \<Rightarrow>
          (case cval of
             Val_Object class \<Rightarrow>
               c_bind (Udb_Get_Class_Name db class w) (\<lambda>(class_name, w).
               c_bind (own_uuid attrs) (\<lambda>uuid.
               let rest = filter (\<lambda>p. fst p \<noteq> cstr ''Class'') attrs
               in if streamFlag
                  then c_bind (encode_fields setvar streamFlag st uuid rest [Elem (cstr ''Class''), Elem class_name] vars) (\<lambda>r.
                         case r of
                           None \<Rightarrow> Done (None, w)
                         | Some (es, vars) \<Rightarrow> encode_objects db setvar streamFlag st obs (l @ [Elem uuid, Sublist es]) vars w)
                  else case setvar uuid (cstr ''Class'') class_name False vars of
                    None \<Rightarrow> Done (None, w)
                  | Some vars \<Rightarrow>
                      c_bind (encode_fields setvar streamFlag st uuid rest [] vars) (\<lambda>r.
                        case r of
                          None \<Rightarrow> Done (None, w)
                        | Some (es, vars) \<Rightarrow> encode_objects db setvar streamFlag st obs l vars w)))
           | _ \<Rightarrow> Panic))"

definition Udb_Stream_Encode ::
  "('s, 'o) dbi \<Rightarrow> ('o db_collection \<Rightarrow> 's \<Rightarrow> 'o db_domain) \<Rightarrow> tclvar \<Rightarrow> (cstr \<Rightarrow> cstr list option) \<Rightarrow> (cstr \<Rightarrow> cstr \<Rightarrow> cstr) \<Rightarrow> 'v setvar \<Rightarrow> bool \<Rightarrow> bool \<Rightarrow> bool \<Rightarrow>
     tcl_obj list \<Rightarrow> 'v \<Rightarrow> 'o stream \<Rightarrow> ('s, 'o, 'm) udb_scheme \<Rightarrow> ((tcl_obj list \<times> 'v) tcl_result \<times> ('s, 'o, 'm) udb_scheme) c_run option" where
  "Udb_Stream_Encode db col_domain getvar split elem setvar nameFields streamFlag deletedFlag result vars st w =
     o_bind (Fetch_Objects db col_domain getvar split elem nameFields deletedFlag st w) (\<lambda>(st, w).
       Some (c_bind (encode_objects db setvar streamFlag st (objects st) result vars w) (\<lambda>(r, w).
         Done (case r of None \<Rightarrow> Tcl_Error [] [] | Some p \<Rightarrow> Tcl_Ok p, w))))"

section \<open>The command fetch\<close>

fun fetch_all ::
  "('s, 'o) dbi \<Rightarrow> ('o db_collection \<Rightarrow> 's \<Rightarrow> 'o db_domain) \<Rightarrow> (cstr \<Rightarrow> cstr \<Rightarrow> cstr) \<Rightarrow> 'o \<Rightarrow> 'o \<Rightarrow> cstr list \<Rightarrow> 'o stream \<Rightarrow> ('s, 'o, 'm) udb_scheme \<Rightarrow>
     ('o stream \<times> ('s, 'o, 'm) udb_scheme) c_run" where
  "fetch_all db col_domain elem class x [] st w = Done (st, w)"
| "fetch_all db col_domain elem class x (a # attrs) st w =
     (case Udb_Attribute_Domain db class a w of
        (None, w) \<Rightarrow> Panic
      | (Some domain, w) \<Rightarrow>
          c_bind (Udb_Attribute_Is_Printable db domain w) (\<lambda>(printable, w).
            if \<not> printable then fetch_all db col_domain elem class x attrs st w
            else case db_get db x a (database w) of
              NOERROR v \<Rightarrow> c_bind (Udb_Store_Value db col_domain elem x (Some a) v (database w) st) (\<lambda>st. fetch_all db col_domain elem class x attrs st w)
            | _ \<Rightarrow> Panic))"

fun fetch_some ::
  "('s, 'o) dbi \<Rightarrow> ('o db_collection \<Rightarrow> 's \<Rightarrow> 'o db_domain) \<Rightarrow> (cstr \<Rightarrow> cstr \<Rightarrow> cstr) \<Rightarrow> 'o \<Rightarrow> 'o \<Rightarrow> cstr \<Rightarrow> cstr list \<Rightarrow> 'o stream \<Rightarrow> ('s, 'o, 'm) udb_scheme \<Rightarrow>
     ('o stream tcl_result \<times> ('s, 'o, 'm) udb_scheme) c_run" where
  "fetch_some db col_domain elem class x uuid [] st w = Done (Tcl_Ok st, w)"
| "fetch_some db col_domain elem class x uuid (a # attrs) st w =
     (case Udb_Attribute_Domain db class a w of
        (None, w) \<Rightarrow> Done (Udb_Error ''ENOATTR'' [uuid, a], w)
      | (Some domain, w) \<Rightarrow>
          c_bind (Udb_Attribute_Is_Printable db domain w) (\<lambda>(printable, w).
            if \<not> printable then Done (Udb_Error ''ENOATTR'' [uuid, a], w)
            else case db_get db x a (database w) of
              NOERROR v \<Rightarrow> c_bind (Udb_Store_Value db col_domain elem x (Some a) v (database w) st) (\<lambda>st. fetch_some db col_domain elem class x uuid attrs st w)
            | _ \<Rightarrow> Panic))"

definition Do_Fetch_Processing ::
  "('s, 'o) dbi \<Rightarrow> ('o db_collection \<Rightarrow> 's \<Rightarrow> 'o db_domain) \<Rightarrow> (cstr \<Rightarrow> cstr \<Rightarrow> cstr) \<Rightarrow> 'o \<Rightarrow> 'o \<Rightarrow> cstr \<Rightarrow> cstr list \<Rightarrow> bool \<Rightarrow> 'o stream \<Rightarrow> ('s, 'o, 'm) udb_scheme \<Rightarrow>
     ('o stream tcl_result \<times> ('s, 'o, 'm) udb_scheme) c_run" where
  "Do_Fetch_Processing db col_domain elem class x uuid argv nameFields st w =
     c_bind (Udb_Store_Value db col_domain elem x None (DB_OBJECT class) (database w) st) (\<lambda>st.
     c_bind (Udb_Find_Object db uuid w) (\<lambda>(found, w).
     c_bind (Udb_Store_Value db col_domain elem x (Some (cstr ''deleted'')) (if found \<noteq> None then DB_NULL else DB_STRING (cstr ''Yes'')) (database w) st) (\<lambda>st.
     let st = (if nameFields then Udb_Delay_Fetch x st else st)
     in c_bind (Udb_Store_Value db col_domain elem x (Some (cstr ''uuid'')) (DB_STRING uuid) (database w) st) (\<lambda>st.
          if argv = []
          then c_bind (fetch_all db col_domain elem class x (Udb_Get_Attributes db class w) st w) (\<lambda>(st, w). Done (Tcl_Ok st, w))
          else fetch_some db col_domain elem class x uuid argv st w))))"

fun fetch_items ::
  "('s, 'o) dbi \<Rightarrow> ('o db_collection \<Rightarrow> 's \<Rightarrow> 'o db_domain) \<Rightarrow> (cstr \<Rightarrow> cstr \<Rightarrow> cstr) \<Rightarrow> cstr list \<Rightarrow> cstr list \<Rightarrow> bool \<Rightarrow> 'o stream \<Rightarrow> ('s, 'o, 'm) udb_scheme \<Rightarrow>
     ('o stream tcl_result \<times> ('s, 'o, 'm) udb_scheme) c_run" where
  "fetch_items db col_domain elem [] argv nameFields st w = Done (Tcl_Ok st, w)"
| "fetch_items db col_domain elem (uuid # uuids) argv nameFields st w =
     (if \<not> Uuid_Valid uuid then Done (Udb_Error ''ENOTUUID'' [uuid], w)
      else c_bind (fetch_item db uuid w) (\<lambda>(r, w).
        case r of
          None \<Rightarrow> Done (Udb_Error ''ENXITEM'' [uuid], w)
        | Some (x, deleted) \<Rightarrow>
            c_bind (Do_Fetch_Processing db col_domain elem (db_get_class db x (database w)) x uuid argv nameFields st w) (\<lambda>(result, w).
              case result of
                Tcl_Error code msg \<Rightarrow> Done (Tcl_Error code msg, w)
              | Tcl_Ok st \<Rightarrow> fetch_items db col_domain elem uuids argv nameFields st w)))"

fun fetch_flags :: "cstr list \<Rightarrow> bool \<Rightarrow> bool \<Rightarrow> bool \<times> bool \<times> cstr list" where
  "fetch_flags [] nameFields streamFlag = (nameFields, streamFlag, [])"
| "fetch_flags (a # argv) nameFields streamFlag =
     (if a = cstr ''-nameFields'' then fetch_flags argv True streamFlag
      else if a = cstr ''-stream'' then fetch_flags argv nameFields True
      else (nameFields, streamFlag, a # argv))"

abbreviation empty_stream :: "'o stream" where "empty_stream \<equiv> \<lparr>objects = [], delayed = None\<rparr>"

text \<open>The result of the command is the list of the objects; it is empty where Tcl variables are set.\<close>

definition Udb_Fetch ::
  "('s, 'o) dbi \<Rightarrow> ('o db_collection \<Rightarrow> 's \<Rightarrow> 'o db_domain) \<Rightarrow> tclvar \<Rightarrow> (cstr \<Rightarrow> cstr list option) \<Rightarrow> (cstr \<Rightarrow> cstr \<Rightarrow> cstr) \<Rightarrow> 'v setvar \<Rightarrow> cstr list \<Rightarrow>
     'v \<Rightarrow> ('s, 'o, 'm) udb_scheme \<Rightarrow> ((tcl_obj list \<times> 'v) tcl_result \<times> ('s, 'o, 'm) udb_scheme) c_run option" where
  "Udb_Fetch db col_domain getvar split elem setvar argv vars w =
     (let (nameFields, streamFlag, args) = fetch_flags (tl argv) False False
      in if args = [] then Some (Done (Udb_Error ''EUSAGE'' [hd argv, cstr ''?-nameFields? ?-stream? uuidlist ?args? ...''], w))
         else case split (hd args) of
           None \<Rightarrow> Some (Done (Tcl_Error [] [], w))
         | Some uuids \<Rightarrow>
             o_bind (Some (fetch_items db col_domain elem uuids (tl args) nameFields empty_stream w)) (\<lambda>(result, w).
               case result of
                 Tcl_Error code msg \<Rightarrow> Some (Done (Tcl_Error code msg, w))
               | Tcl_Ok st \<Rightarrow>
                   o_bind (Udb_Stream_Encode db col_domain getvar split elem setvar nameFields streamFlag True [] vars st w) (\<lambda>(result, w).
                     case result of
                       Tcl_Error code msg \<Rightarrow> Some (Done (Tcl_Error code msg, w))
                     | Tcl_Ok (l, vars) \<Rightarrow>
                         if streamFlag \<and> l = [] \<and> uuids \<noteq> [] then Some Panic else Some (Done (Tcl_Ok (l, vars), w)))))"

section \<open>Dumping classes\<close>

text \<open>\<open>Decode_Value\<close> appends an element for a value; for a collection, it is called for each element (\<open>Inr\<close>: the collection, the next index,
  the elements that are left and what has been appended).\<close>

partial_function (option) Decode_Value ::
  "('s, 'o) dbi \<Rightarrow> 's \<Rightarrow> 'o db_value + 'o db_collection \<times> nat \<times> nat \<times> tcl_obj list \<Rightarrow> tcl_obj c_run option" where
  "Decode_Value db s arg =
     (case arg of
        Inl v \<Rightarrow>
          (case v of
             DB_NULL \<Rightarrow> Some (Done (Elem []))
           | DB_STRING str \<Rightarrow> Some (Done (Elem str))
           | DB_INTEGER i \<Rightarrow> Some (Done (Elem (fmt_ld i)))
           | DB_OBJECT x \<Rightarrow> Some (c_bind (Udb_Get_Oid db x s) (\<lambda>oid. Done (Elem oid)))
           | DB_SET col \<Rightarrow> Decode_Value db s (Inr (col, 0, db_col_size db col s, []))
           | DB_SEQUENCE col \<Rightarrow> Decode_Value db s (Inr (col, 0, db_col_size db col s, [])))
      | Inr r \<Rightarrow>
          (case r of (col, i, n, l) \<Rightarrow>
             if n = 0 then Some (Done (Sublist l))
             else case db_col_get db col i s of
               None \<Rightarrow> Some Panic
             | Some v \<Rightarrow> o_bind (Decode_Value db s (Inl v)) (\<lambda>e. Decode_Value db s (Inr (col, i + 1, n - 1, l @ [e])))))"

fun decode_columns :: "('s, 'o) dbi \<Rightarrow> 's \<Rightarrow> 'o db_value list \<Rightarrow> nat \<Rightarrow> nat \<Rightarrow> tcl_obj list \<Rightarrow> tcl_obj list c_run option" where
  "decode_columns db s row i 0 l = Some (Done l)"
| "decode_columns db s row i (Suc n) l =
     (if i \<ge> length row then Some Panic else o_bind (Decode_Value db s (Inl (row ! i))) (\<lambda>e. decode_columns db s row (i + 1) n (l @ [e])))"

text \<open>Writing a line to the channel tells whether all of it was written.  The message of the operating system is not modelled.\<close>

definition Dump_Object ::
  "('s, 'o) dbi \<Rightarrow> (tcl_obj list \<Rightarrow> 'c \<Rightarrow> bool \<times> 'c) \<Rightarrow> 'o db_value list \<Rightarrow> cstr \<Rightarrow> 'o \<Rightarrow> nat \<Rightarrow> 's \<Rightarrow> 'c \<Rightarrow> (unit tcl_result \<times> 'c) c_run option" where
  "Dump_Object db write row uuid x argc s output =
     o_bind (Some (Udb_Get_Oid db x s)) (\<lambda>oid.
     o_bind (if argc = 0 then Some (Done []) else o_bind (decode_columns db s row 2 argc []) (\<lambda>l. Some (Done [Sublist l]))) (\<lambda>l.
       case write ([Elem oid, Elem uuid] @ l) output of (complete, output) \<Rightarrow>
         Some (Done (if complete then Tcl_Ok () else Tcl_Error [] (cstr ''Write to output file failed''), output))))"

text \<open>The channels: absent if there is none of this name, and whether it is writable.\<close>

definition Decode_Channel :: "(cstr \<Rightarrow> bool option) \<Rightarrow> cstr \<Rightarrow> unit tcl_result" where
  "Decode_Channel channels name =
     (case channels name of
        None \<Rightarrow> Tcl_Error [] []
      | Some writable \<Rightarrow>
          if writable then Tcl_Ok () else Tcl_Error [] (cstr ''channel '' @ [34] @ name @ [34] @ cstr '' wasn'' @ [39] @ cstr ''t opened for writing''))"

text \<open>The cursor is not at its end when the loop is left after an error, which fails the check behind it.\<close>

fun dump_loop ::
  "('s, 'o) dbi \<Rightarrow> (tcl_obj list \<Rightarrow> 'c \<Rightarrow> bool \<times> 'c) \<Rightarrow> 'o db_value list list \<Rightarrow> nat \<Rightarrow> nat \<Rightarrow> 's \<Rightarrow> 'c \<Rightarrow> (nat \<times> 'c) c_run option" where
  "dump_loop db write [] argc count s output = Some (Done (count, output))"
| "dump_loop db write (row # rows) argc count s output =
     (if length row < 2 then Some Panic
      else case (row ! 0, row ! 1) of
        (DB_OBJECT x, DB_STRING uuid) \<Rightarrow>
          o_bind (Dump_Object db write row uuid x argc s output) (\<lambda>(result, output).
            case result of
              Tcl_Error code msg \<Rightarrow> Some Panic
            | Tcl_Ok r \<Rightarrow> dump_loop db write rows argc (count + 1) s output)
      | _ \<Rightarrow> Some Panic)"

definition Dump_Rows ::
  "('s, 'o) dbi \<Rightarrow> (tcl_obj list \<Rightarrow> 'c \<Rightarrow> bool \<times> 'c) \<Rightarrow> 'o db_value list list \<Rightarrow> nat \<Rightarrow> 's \<Rightarrow> 'c \<Rightarrow> (cstr tcl_result \<times> 'c) c_run option" where
  "Dump_Rows db write rows argc s output =
     o_bind (dump_loop db write rows argc 0 s output) (\<lambda>(count, output).
       if count = length rows then Some (Done (Tcl_Ok (fmt_ld (int (length rows))), output)) else Some Panic)"

fun dump_columns :: "('s, 'o) dbi \<Rightarrow> 'o \<Rightarrow> cstr \<Rightarrow> cstr list \<Rightarrow> cstr \<Rightarrow> ('s, 'o, 'm) udb_scheme \<Rightarrow> cstr tcl_result \<times> ('s, 'o, 'm) udb_scheme" where
  "dump_columns db class cname [] query w = (Tcl_Ok query, w)"
| "dump_columns db class cname (a # attrs) query w =
     (case Udb_Attribute_Domain db class a w of
        (None, w) \<Rightarrow> (Udb_Error ''ENOATTR'' [cname, a], w)
      | (Some domain, w) \<Rightarrow> dump_columns db class cname attrs (query @ cstr '', '' @ [34] @ a @ [34]) w)"

abbreviation not_deleted :: cstr where "not_deleted \<equiv> [34] @ cstr '' x where x.'' @ [34] @ cstr ''deleted'' @ [34] @ cstr '' IS NULL''"

definition run_dump ::
  "('s, 'o) dbi \<Rightarrow> (tcl_obj list \<Rightarrow> 'c \<Rightarrow> bool \<times> 'c) \<Rightarrow> cstr \<Rightarrow> nat \<Rightarrow> 'c \<Rightarrow> ('s, 'o, 'm) udb_scheme \<Rightarrow> (cstr tcl_result \<times> 'c \<times> ('s, 'o, 'm) udb_scheme) c_run option" where
  "run_dump db write query argc output w =
     o_bind (Some (c_bind (Udb_Run_Query db query [] True (database w)) check_some)) (\<lambda>rows.
     o_bind (Dump_Rows db write rows argc (database w) output) (\<lambda>(result, output). Some (Done (result, output, w))))"

definition Udb_Dump_Class ::
  "('s, 'o) dbi \<Rightarrow> (cstr \<Rightarrow> bool option) \<Rightarrow> (tcl_obj list \<Rightarrow> 'c \<Rightarrow> bool \<times> 'c) \<Rightarrow> cstr list \<Rightarrow> 'c \<Rightarrow> ('s, 'o, 'm) udb_scheme \<Rightarrow>
     (cstr tcl_result \<times> 'c \<times> ('s, 'o, 'm) udb_scheme) c_run option" where
  "Udb_Dump_Class db channels write argv output w =
     (if length argv < 4 then Some (Done (Udb_Error ''EUSAGE'' [hd argv, cstr ''file class attribute ?attribute ...?''], output, w))
      else case Decode_Channel channels (argv ! 1) of
        Tcl_Error code msg \<Rightarrow> Some (Done (Tcl_Error code msg, output, w))
      | Tcl_Ok _ \<Rightarrow>
          (case Udb_Get_Class_opt db (argv ! 2) w of
             (None, w) \<Rightarrow> Some (Done (Udb_Error ''ENXCLASS'' [argv ! 2], output, w))
           | (Some class, w) \<Rightarrow>
               (case dump_columns db class (argv ! 2) (drop 3 argv) (cstr ''select x, x.uuid'') w of
                  (Tcl_Error code msg, w) \<Rightarrow> Some (Done (Tcl_Error code msg, output, w))
                | (Tcl_Ok query, w) \<Rightarrow>
                    run_dump db write (query @ cstr '' from '' @ [34] @ (argv ! 2) @ not_deleted) (length argv - 3) output w)))"

definition Udb_Dump_Protected ::
  "('s, 'o) dbi \<Rightarrow> (cstr \<Rightarrow> bool option) \<Rightarrow> (tcl_obj list \<Rightarrow> 'c \<Rightarrow> bool \<times> 'c) \<Rightarrow> cstr list \<Rightarrow> 'c \<Rightarrow> ('s, 'o, 'm) udb_scheme \<Rightarrow>
     (cstr tcl_result \<times> 'c \<times> ('s, 'o, 'm) udb_scheme) c_run option" where
  "Udb_Dump_Protected db channels write argv output w =
     (if length argv \<noteq> 3 then Some (Done (Udb_Error ''EUSAGE'' [hd argv, cstr ''file class''], output, w))
      else case Decode_Channel channels (argv ! 1) of
        Tcl_Error code msg \<Rightarrow> Some (Done (Tcl_Error code msg, output, w))
      | Tcl_Ok _ \<Rightarrow>
          (case Udb_Get_Class_opt db (argv ! 2) w of
             (None, w) \<Rightarrow> Some (Done (Udb_Error ''ENXCLASS'' [argv ! 2], output, w))
           | (Some class, w) \<Rightarrow>
               run_dump db write (cstr ''select x, item[x].uuid from unameit_protected_item, all '' @ [34] @ (argv ! 2) @ not_deleted) 0 output w))"

definition Udb_OidCmd :: "('s, 'o) dbi \<Rightarrow> cstr list \<Rightarrow> ('s, 'o, 'm) udb_scheme \<Rightarrow> (cstr tcl_result \<times> ('s, 'o, 'm) udb_scheme) c_run" where
  "Udb_OidCmd db argv w =
     (if length argv \<noteq> 2 then Done (Udb_Error ''EUSAGE'' [hd argv, cstr ''uuid''], w)
      else if \<not> Uuid_Valid (argv ! 1) then Done (Udb_Error ''ENOTUUID'' [argv ! 1], w)
      else c_bind (Udb_Find_Object db (argv ! 1) w) (\<lambda>(x, w).
        case x of
          None \<Rightarrow> Done (Udb_Error ''ENXITEM'' [argv ! 1], w)
        | Some x \<Rightarrow> c_bind (Udb_Get_Oid db x (database w)) (\<lambda>oid. Done (Tcl_Ok oid, w))))"

end
