(* ===== verification/FetchProps.thy ===== *)
theory FetchProps
  imports Fetch ItemProps
begin

text \<open>
  The fetching of items (\<^verbatim>\<open>tcl_mem.c\<close>, \<^verbatim>\<open>fetch.c\<close>): the loop of \<open>Fetch_Objects\<close> ends, and then everything that is encoded has been
  fetched, so that no reference is followed to an object without identifier; but 64 objects at once overrun the array of the loop.
\<close>

section \<open>Tables\<close>

abbreviation UUID :: cstr where "UUID \<equiv> cstr ''uuid''"
abbreviation CLASS :: cstr where "CLASS \<equiv> cstr ''Class''"

definition entry :: "'o stream \<Rightarrow> 'o \<Rightarrow> cstr \<Rightarrow> 'o Value option option" where
  "entry st x a = map_of (attrs_of st x) a"

definition keyed :: "('k \<times> 'v) list \<Rightarrow> bool" where "keyed t \<longleftrightarrow> distinct (map fst t)"

definition tables_ok :: "'o stream \<Rightarrow> bool" where
  "tables_ok st \<longleftrightarrow> keyed (objects st) \<and> (\<forall>x t. oTbl st x = Some t \<longrightarrow> keyed t)"

lemma keyed_tbl_set:
  assumes "keyed t"
  shows "keyed (tbl_set k v t)"
proof (cases "k \<in> fst ` set t")
  case True
  have "map fst (map (\<lambda>p. if fst p = k then (k, v) else p) t) = map fst t" by simp
  then show ?thesis using True assms unfolding keyed_def tbl_set_def by (simp only: if_True)
next
  case False
  then show ?thesis using assms by (simp add: keyed_def tbl_set_def)
qed

lemma attrs_of_update: "attrs_of (st\<lparr>objects := tbl_set x t (objects st)\<rparr>) y = (if y = x then t else attrs_of st y)"
  by (simp add: attrs_of_def oTbl_def map_of_tbl_set)

lemma has_entry_entry: "has_entry st x a \<longleftrightarrow> entry st x a \<noteq> None"
  by (simp add: has_entry_def entry_def)

lemma new_object_simps [simp]:
  "entry (new_object x st) y b = entry st y b" "delayed (new_object x st) = delayed st"
  "oTbl (new_object x st) y = (if y = x then Some (attrs_of st x) else oTbl st y)"
  by (auto simp: entry_def new_object_def attrs_of_def oTbl_def map_of_tbl_set)

lemma new_entry_simps [simp]:
  "entry (new_entry x a st) y b = (if y = x \<and> b = a \<and> entry st x a = None then Some None else entry st y b)" "delayed (new_entry x a st) = delayed st"
  by (auto simp: entry_def new_entry_def has_entry_def attrs_of_update map_of_tbl_set)

lemma set_entry_simps [simp]:
  "entry (set_entry x a v st) y b = (if y = x \<and> b = a then Some (Some v) else entry st y b)" "delayed (set_entry x a v st) = delayed st"
  by (auto simp: entry_def set_entry_def attrs_of_update map_of_tbl_set)

lemma delayed_entry [simp]: "entry (st\<lparr>delayed := d\<rparr>) x a = entry st x a" "oTbl (st\<lparr>delayed := d\<rparr>) = oTbl st"
  by (auto simp: entry_def attrs_of_def oTbl_def)

lemma Udb_Delay_Fetch_entry [simp]: "entry (Udb_Delay_Fetch x st) y a = entry st y a"
  by (simp add: Udb_Delay_Fetch_def)

lemma tables_ok_update: "tables_ok st \<Longrightarrow> keyed t \<Longrightarrow> tables_ok (st\<lparr>objects := tbl_set x t (objects st)\<rparr>)"
  by (auto simp: tables_ok_def oTbl_def map_of_tbl_set keyed_tbl_set split: if_splits)

lemma tables_ok_attrs: "tables_ok st \<Longrightarrow> keyed (attrs_of st x)"
  by (auto simp: tables_ok_def attrs_of_def keyed_def split: option.split)

lemma tables_ok_simps [simp]:
  assumes "tables_ok st"
  shows "tables_ok (new_object x st)" "tables_ok (new_entry x a st)" "tables_ok (set_entry x a v st)" "tables_ok (st\<lparr>delayed := d\<rparr>)" "tables_ok (Udb_Delay_Fetch x st)"
  using assms by (auto simp: new_object_def new_entry_def set_entry_def Udb_Delay_Fetch_def tables_ok_attrs
      intro!: tables_ok_update keyed_tbl_set) (auto simp: tables_ok_def keyed_def)

lemma tables_ok_entry:
  assumes "tables_ok st" "(x, t) \<in> set (objects st)"
  shows "map_of t a = entry st x a" "keyed t"
proof -
  have "oTbl st x = Some t" using assms by (auto simp: tables_ok_def keyed_def oTbl_def)
  then show "map_of t a = entry st x a" "keyed t" using assms(1) by (auto simp: entry_def attrs_of_def tables_ok_def)
qed

section \<open>What is stored\<close>

fun refs :: "'o Value \<Rightarrow> 'o set" where
  "refs (Val_Object x) = {x}"
| "refs (Val_List xs) = set xs"
| "refs v = {}"

definition known :: "'o stream \<Rightarrow> 'o \<Rightarrow> bool" where "known st x \<longleftrightarrow> entry st x UUID \<noteq> None"
definition waiting :: "'o stream \<Rightarrow> 'o list" where "waiting st = (case delayed st of None \<Rightarrow> [] | Some xs \<Rightarrow> xs)"

text \<open>Only the delayed objects change, and only objects without identifier are delayed.\<close>

definition delays :: "'o stream \<Rightarrow> 'o stream \<Rightarrow> bool" where
  "delays st st' \<longleftrightarrow> (\<exists>d. st' = st\<lparr>delayed := d\<rparr>) \<and> (\<exists>ys. waiting st' = ys @ waiting st \<and> (\<forall>y\<in>set ys. \<not> known st y))"

lemma delaysD:
  assumes "delays st st'"
  shows "entry st' x a = entry st x a" "known st' x = known st x" "set (waiting st) \<subseteq> set (waiting st')" "tables_ok st \<Longrightarrow> tables_ok st'"
    "\<exists>ys. waiting st' = ys @ waiting st \<and> (\<forall>y\<in>set ys. \<not> known st y)"
  using assms by (auto simp: delays_def known_def)

lemma delays_refl [simp]: "delays st st"
proof -
  have "st = st\<lparr>delayed := delayed st\<rparr>" by simp
  then show ?thesis unfolding delays_def by (intro conjI exI [of _ "[]"] exI [of _ "delayed st"]) simp_all
qed

lemma delays_trans: "delays st st' \<Longrightarrow> delays st' st'' \<Longrightarrow> delays st st''"
  by (fastforce simp: delays_def known_def)

lemma Udb_Delay_Fetch_delays: "delays st (Udb_Delay_Fetch x st)" "known st x \<or> x \<in> set (waiting (Udb_Delay_Fetch x st))"
proof -
  have q: "waiting (st\<lparr>delayed := tbl_add x (delayed st)\<rparr>) = List.insert x (waiting st)" by (simp add: waiting_def tbl_add_def split: option.split)
  show "known st x \<or> x \<in> set (waiting (Udb_Delay_Fetch x st))" using q by (simp add: Udb_Delay_Fetch_def has_entry_entry known_def)
  show "delays st (Udb_Delay_Fetch x st)"
  proof (cases "known st x")
    case False
    then show ?thesis using q by (auto simp: Udb_Delay_Fetch_def has_entry_entry known_def delays_def List.insert_def)
  qed (simp add: Udb_Delay_Fetch_def has_entry_entry known_def)
qed

lemma store_objects_delays:
  assumes "store_objects db col i n s xs st = Done (ys, st')"
  shows "delays st st' \<and> (\<forall>y\<in>set ys. y \<in> set xs \<or> known st y \<or> y \<in> set (waiting st'))"
  using assms
proof (induction n arbitrary: i xs st)
  case (Suc n)
  obtain y where y: "store_objects db col (i + 1) n s (xs @ [y]) (Udb_Delay_Fetch y st) = Done (ys, st')"
    using Suc.prems by (auto simp: c_bind_Done)
  note IH = Suc.IH [OF y] and D = Udb_Delay_Fetch_delays [of st y]
  show ?case
    using IH D(2) delays_trans [OF D(1) conjunct1 [OF IH]] delaysD(2) [OF D(1)] delaysD(3) [OF conjunct1 [OF IH]] by auto
qed auto

text \<open>Storing a value: it is there already or null, or it is stored with its references delayed.\<close>

lemma store_cases:
  fixes db :: "('s, 'o) dbi"
  assumes "Udb_Store_Value db col_domain elem x aname v s st = Done st'" "a = (case aname of None \<Rightarrow> CLASS | Some a \<Rightarrow> a)"
  obtains (kept) "st' = new_entry x a (new_object x st)" "v = DB_NULL \<or> (\<exists>u. entry st x a = Some (Some u))"
  | (stored) st1 val where "st' = set_entry x a val st1" "delays (new_entry x a (new_object x st)) st1" "\<nexists>u. entry st x a = Some (Some u)"
      "aname \<noteq> None \<Longrightarrow> \<forall>y\<in>refs val. known st1 y \<or> y \<in> set (waiting st1)" "\<And>u. v = DB_STRING u \<Longrightarrow> val = Val_String u" "\<And>c. v = DB_OBJECT c \<Longrightarrow> val = Val_Object c"
proof -
  define st0 where "st0 = new_entry x a (new_object x st)"
  define old where "old \<longleftrightarrow> (case entry st x a of Some (Some v) \<Rightarrow> True | _ \<Rightarrow> False)"
  note A = assms(1) [unfolded Udb_Store_Value_def Let_def, folded assms(2) entry_def, folded st0_def old_def]
  have old: "old \<longleftrightarrow> (\<exists>u. entry st x a = Some (Some u))" by (auto simp: old_def split: option.split)
  show thesis
  proof (cases "old \<or> v = DB_NULL")
    case True
    then show thesis using A kept old by (auto simp: st0_def)
  next
    case False
    have coll: thesis if c: "v = DB_SET col \<or> v = DB_SEQUENCE col" for col
    proof -
      consider str where "st' = set_entry x a (Val_String str) st0" | ys st1 where "store_objects db col 0 (db_col_size db col s) s [] st0 = Done (ys, st1)" "st' = set_entry x a (Val_List ys) st1"
        using A c False by (elim disjE) (auto simp: c_bind_Done check_some_def split: if_split_asm)
      then show thesis
      proof cases
        case 1
        then show thesis using stored [folded st0_def, OF 1 delays_refl] c False old by auto
      next
        case 2
        note D = store_objects_delays [OF 2(1)]
        show thesis
        proof (rule stored [folded st0_def, OF 2(2)])
          show "\<forall>y\<in>refs (Val_List ys). known st1 y \<or> y \<in> set (waiting st1)" using D delaysD(2) [OF conjunct1 [OF D]] by auto
        qed (use D c False old in auto)
      qed
    qed
    show thesis
    proof (cases v)
      case (DB_OBJECT y)
      define st1 where "st1 = (if aname \<noteq> None then Udb_Delay_Fetch y st0 else st0)"
      have "delays st0 st1" "aname \<noteq> None \<Longrightarrow> known st1 y \<or> y \<in> set (waiting st1)"
        using Udb_Delay_Fetch_delays [of st0 y] delaysD(2) [OF Udb_Delay_Fetch_delays(1) [of st0 y]] by (auto simp: st1_def)
      moreover have "st' = set_entry x a (Val_Object y) st1" using A False DB_OBJECT by (simp add: st1_def)
      ultimately show thesis using False DB_OBJECT old by (intro stored [folded st0_def, of "Val_Object y" st1]) auto
    next
      case (DB_INTEGER i)
      then show thesis using A False old by (intro stored [folded st0_def, of "Val_Integer i" st0]) auto
    next
      case (DB_STRING u)
      then show thesis using A False old by (intro stored [folded st0_def, of "Val_String u" st0]) auto
    qed (use False coll in auto)
  qed
qed

section \<open>What has been fetched\<close>

text \<open>
  Identifiers are strings, classes are objects, and except for the objects of \<open>P\<close> and the delayed ones, whatever has a class
  has an identifier, and whatever is referenced has one.
\<close>

definition resolved :: "'o set \<Rightarrow> 'o stream \<Rightarrow> bool" where
  "resolved P st \<longleftrightarrow>
     tables_ok st \<and>
     (\<forall>x. known st x \<longrightarrow> (\<exists>u. entry st x UUID = Some (Some (Val_String u)))) \<and>
     (\<forall>x v. entry st x CLASS = Some (Some v) \<longrightarrow> (\<exists>c. v = Val_Object c)) \<and>
     (\<forall>x. entry st x CLASS \<noteq> None \<longrightarrow> x \<notin> P \<union> set (waiting st) \<longrightarrow> known st x \<and> entry st x CLASS \<noteq> Some None) \<and>
     (\<forall>x a v. entry st x a = Some (Some v) \<longrightarrow> a \<noteq> CLASS \<longrightarrow> (\<forall>y\<in>refs v. known st y \<or> y \<in> P \<union> set (waiting st)))"

text \<open>Entries are only added, a value stays, and only objects without identifier are delayed.\<close>

definition grown :: "'o stream \<Rightarrow> 'o stream \<Rightarrow> bool" where
  "grown st st' \<longleftrightarrow>
     (\<forall>x a. entry st x a \<noteq> None \<longrightarrow> entry st' x a \<noteq> None) \<and>
     (\<forall>x a v. entry st x a = Some (Some v) \<longrightarrow> entry st' x a = Some (Some v)) \<and>
     (\<exists>ys. waiting st' = ys @ waiting st \<and> (\<forall>y\<in>set ys. \<not> known st y))"

lemma grown_refl [simp]: "grown st st" by (simp add: grown_def)

lemma grown_known: "grown st st' \<Longrightarrow> known st x \<Longrightarrow> known st' x"
  unfolding grown_def known_def by blast

lemma grown_trans:
  assumes "grown st st'" "grown st' st''"
  shows "grown st st''"
proof -
  obtain ys ys' where "waiting st' = ys @ waiting st" "\<forall>y\<in>set ys. \<not> known st y" "waiting st'' = ys' @ waiting st'" "\<forall>y\<in>set ys'. \<not> known st' y"
    using assms unfolding grown_def by blast
  then have "waiting st'' = (ys' @ ys) @ waiting st" "\<forall>y\<in>set (ys' @ ys). \<not> known st y" using grown_known [OF assms(1)] by auto
  then show ?thesis using assms unfolding grown_def by metis
qed

lemma grown_value: "grown st st' \<Longrightarrow> entry st x a = Some (Some v) \<Longrightarrow> entry st' x a = Some (Some v)"
  by (simp add: grown_def)

lemma attr_cases: "UUID \<noteq> CLASS" "cstr ''deleted'' \<noteq> UUID" "cstr ''deleted'' \<noteq> CLASS" by (simp_all add: cstr_def)

lemma waiting_simps [simp]:
  "waiting (new_object x st) = waiting st" "waiting (new_entry x a st) = waiting st" "waiting (set_entry x a v st) = waiting st"
  by (simp_all add: waiting_def)

lemma store_grown:
  assumes "Udb_Store_Value db col_domain elem x aname v s st = Done st'" "a = (case aname of None \<Rightarrow> CLASS | Some a \<Rightarrow> a)"
  shows "grown st st'" "entry st' x a \<noteq> None" "v = DB_OBJECT c \<Longrightarrow> entry st' x a \<noteq> Some None"
proof -
  from assms have "grown st st' \<and> entry st' x a \<noteq> None \<and> (v = DB_OBJECT c \<longrightarrow> entry st' x a \<noteq> Some None)"
  proof (cases rule: store_cases)
    case kept
    then show ?thesis by (auto simp: grown_def)
  next
    case (stored st1 val)
    note D = delaysD [OF stored(2)]
    obtain ys where ys: "waiting st1 = ys @ waiting st" "\<forall>y\<in>set ys. \<not> known (new_entry x a (new_object x st)) y" using D(5) by auto
    then have "\<forall>y\<in>set ys. \<not> known st y" by (auto simp: known_def split: if_splits)
    then show ?thesis using stored(1,3) D(1) ys(1) by (auto simp: grown_def)
  qed
  then show "grown st st'" "entry st' x a \<noteq> None" "v = DB_OBJECT c \<Longrightarrow> entry st' x a \<noteq> Some None" by auto
qed

text \<open>A larger set of entries and delayed objects; a new value is resolved where it is stored.\<close>

lemma resolved_after:
  assumes "resolved P st" "grown st st'" "tables_ok st'"
    and "\<And>y. known st' y \<Longrightarrow> \<not> known st y \<Longrightarrow> \<exists>u. entry st' y UUID = Some (Some (Val_String u))"
    and "\<And>y v. entry st' y CLASS = Some (Some v) \<Longrightarrow> entry st y CLASS \<noteq> Some (Some v) \<Longrightarrow> \<exists>c. v = Val_Object c"
    and "\<And>y. entry st' y CLASS \<noteq> None \<Longrightarrow> entry st y CLASS = None \<Longrightarrow> y \<in> P"
    and "\<And>z a v y. entry st' z a = Some (Some v) \<Longrightarrow> entry st z a \<noteq> Some (Some v) \<Longrightarrow> a \<noteq> CLASS \<Longrightarrow> y \<in> refs v \<Longrightarrow> known st' y \<or> y \<in> set (waiting st')"
  shows "resolved P st'"
proof -
  have w: "set (waiting st) \<subseteq> set (waiting st')" and k: "\<And>x. known st x \<Longrightarrow> known st' x" using assms(2) by (auto simp: grown_def known_def)
  have e: "\<And>x a v. entry st x a = Some (Some v) \<Longrightarrow> entry st' x a = Some (Some v)" using assms(2) by (auto simp: grown_def)
  show ?thesis unfolding resolved_def
  proof (intro conjI allI impI)
    fix x assume "known st' x"
    then show "\<exists>u. entry st' x UUID = Some (Some (Val_String u))" using assms(1,4) e unfolding resolved_def by blast
  next
    fix x v assume "entry st' x CLASS = Some (Some v)"
    then show "\<exists>c. v = Val_Object c" using assms(1,5) unfolding resolved_def by blast
  next
    fix x assume x: "entry st' x CLASS \<noteq> None" "x \<notin> P \<union> set (waiting st')"
    then have "entry st x CLASS \<noteq> None" "x \<notin> P \<union> set (waiting st)" using assms(6) w by auto
    then have "known st x" "entry st x CLASS \<noteq> Some None" using assms(1) unfolding resolved_def by auto
    then obtain v where "entry st x CLASS = Some (Some v)" using \<open>entry st x CLASS \<noteq> None\<close> by auto
    then show "known st' x" "entry st' x CLASS \<noteq> Some None" using k [OF \<open>known st x\<close>] e by auto
  next
    fix x a v assume v: "entry st' x a = Some (Some v)" "a \<noteq> CLASS"
    show "\<forall>y\<in>refs v. known st' y \<or> y \<in> P \<union> set (waiting st')"
    proof (cases "entry st x a = Some (Some v)")
      case True
      then have "\<forall>y\<in>refs v. known st y \<or> y \<in> P \<union> set (waiting st)" using assms(1) v(2) unfolding resolved_def by blast
      then show ?thesis using k w by blast
    qed (use assms(7) [OF v(1) _ v(2)] in blast)
  qed (rule assms(3))
qed

lemma store_resolved:
  assumes "Udb_Store_Value db col_domain elem x aname v s st = Done st'" "resolved P st" "x \<in> P"
    and "case aname of None \<Rightarrow> \<exists>c. v = DB_OBJECT c | Some a \<Rightarrow> (a = UUID \<longrightarrow> known st x \<or> (\<exists>u. v = DB_STRING u)) \<and> (a = CLASS \<longrightarrow> (\<exists>c. entry st x CLASS = Some (Some c)))"
  shows "resolved P st'"
proof -
  define a where "a = (case aname of None \<Rightarrow> CLASS | Some a \<Rightarrow> a)"
  have tb: "tables_ok st" using assms(2) by (simp add: resolved_def)
  from assms(1) a_def show ?thesis
  proof (cases rule: store_cases)
    case kept
    then show ?thesis using assms(2-4) a_def attr_cases by (auto simp: resolved_def known_def split: option.splits)
  next
    case (stored st1 val)
    note D = delaysD [OF stored(2)]
    have E: "entry st' y b = (if y = x \<and> b = a then Some (Some val) else entry st y b)" for y b using stored(1) D(1) by auto
    have W: "waiting st' = waiting st1" using stored(1) by simp
    show ?thesis
    proof (rule resolved_after [OF assms(2) store_grown(1) [OF assms(1) a_def]])
      show "tables_ok st'" using stored(1) D(4) tb by simp
    next
      fix y assume "known st' y" "\<not> known st y"
      then show "\<exists>u. entry st' y UUID = Some (Some (Val_String u))" using E assms(4) a_def attr_cases stored(5)
        by (auto simp: known_def split: option.splits if_splits)
    next
      fix y u assume "entry st' y CLASS = Some (Some u)" "entry st y CLASS \<noteq> Some (Some u)"
      then show "\<exists>c. u = Val_Object c" using E assms(4) a_def stored(3,6) by (auto split: option.splits if_splits)
    next
      fix y assume "entry st' y CLASS \<noteq> None" "entry st y CLASS = None"
      then show "y \<in> P" using E assms(3) by (auto split: if_splits)
    next
      fix z b u y assume "entry st' z b = Some (Some u)" "entry st z b \<noteq> Some (Some u)" "b \<noteq> CLASS" "y \<in> refs u"
      then have "aname \<noteq> None" "y \<in> refs val" using E a_def by (auto split: if_splits option.splits)
      then show "known st' y \<or> y \<in> set (waiting st')" using stored(4) W E D(2) stored(1) by (auto simp: known_def)
    qed
  qed
qed

lemma resolved_drop:
  assumes "resolved (insert x P) st" "known st x" "entry st x CLASS \<noteq> Some None"
  shows "resolved P st"
  using assms unfolding resolved_def by blast

lemma resolved_mono: "resolved P st \<Longrightarrow> P \<subseteq> Q \<Longrightarrow> resolved Q st"
  unfolding resolved_def by blast

lemma new_entry_grown: "grown st (new_entry x a st)"
  by (auto simp: grown_def)

lemma new_entry_resolved: "resolved P st \<Longrightarrow> x \<in> P \<Longrightarrow> a \<noteq> UUID \<Longrightarrow> resolved P (new_entry x a st)"
  unfolding resolved_def by (auto simp: known_def)

lemma store_new_entry:
  assumes "oTbl st x \<noteq> None" "entry st x a = None"
  shows "Udb_Store_Value db col_domain elem x (Some a) v s (new_entry x a st) = Udb_Store_Value db col_domain elem x (Some a) v s st"
proof -
  have n: "entry (new_entry x a st) x a = Some None" using assms(2) by simp
  have "oTbl (new_entry x a st) x \<noteq> None" using assms by (auto simp: new_entry_def oTbl_def map_of_tbl_set)
  then have o: "new_object x st = st" "new_object x (new_entry x a st) = new_entry x a st" using assms by (auto simp: new_object_def)
  have "new_entry x a (new_entry x a st) = new_entry x a st" using n by (subst (1) new_entry_def) (simp add: has_entry_entry)
  then show ?thesis using assms(2) n o by (simp add: Udb_Store_Value_def flip: entry_def)
qed

lemma store_attr:
  assumes "Udb_Store_Value db col_domain elem x (Some a) v s st = Done st'" "resolved P st" "x \<in> P" "known st x" "entry st x CLASS = Some (Some c)"
  shows "resolved P st' \<and> grown st st'"
  using store_resolved [OF assms(1-3)] store_grown(1) [OF assms(1) refl] assms(4,5) by simp

lemma name_attributes_resolved:
  assumes "name_attributes db col_domain elem x anames s st = Done st'" "resolved P st" "x \<in> P" "known st x" "entry st x CLASS = Some (Some c)"
  shows "resolved P st' \<and> grown st st'"
  using assms
proof (induction anames arbitrary: st)
  case (Cons a anames)
  then obtain st1 where 1: "has_entry st x a \<and> st1 = st \<or> (\<exists>v. Udb_Store_Value db col_domain elem x (Some a) v s st = Done st1)"
    "name_attributes db col_domain elem x anames s st1 = Done st'"
    by (auto simp: c_bind_Done split: if_splits db_reply.splits)
  have "resolved P st1 \<and> grown st st1" if "Udb_Store_Value db col_domain elem x (Some a) v s st = Done st1" for v
    using that Cons.prems(2-5) by (rule store_attr)
  then have g: "resolved P st1 \<and> grown st st1" using 1(1) Cons.prems(2) by auto
  then have k: "known st1 x" "entry st1 x CLASS = Some (Some c)" using grown_known [OF _ Cons.prems(4)] grown_value [OF _ Cons.prems(5)] by auto
  show ?case using Cons.IH [OF 1(2) conjunct1 [OF g] Cons.prems(3) k] grown_trans [OF conjunct2 [OF g]] by auto
qed simp

lemma fetch_class_resolved:
  assumes "fetch_class db col_domain elem x s st = Done (c, st')" "resolved P st" "x \<in> P"
  shows "resolved P st' \<and> grown st st' \<and> (\<exists>v. entry st' x CLASS = Some (Some v))"
proof (cases "\<exists>v. entry st x CLASS = Some (Some v)")
  case True
  then have "st' = st" using assms(1) by (auto simp: fetch_class_def split: Value.splits simp flip: entry_def)
  then show ?thesis using True assms(2) by simp
next
  case False
  then have st: "Udb_Store_Value db col_domain elem x None (DB_OBJECT (db_get_class db x s)) s st = Done st'"
    using assms(1) by (auto simp: fetch_class_def Let_def c_bind_Done simp flip: entry_def split: option.splits)
  show ?thesis using store_resolved [OF st assms(2,3)] store_grown [OF st refl] by auto
qed

lemma fetch_uuid_resolved:
  assumes "fetch_uuid db col_domain elem x s st = Done st'" "resolved P st" "x \<in> P" "oTbl st x \<noteq> None"
  shows "resolved P st' \<and> grown st st' \<and> known st' x"
proof (cases "has_entry st x UUID")
  case False
  then obtain v where v: "Udb_Get_Value db x UUID DB_TYPE_STRING s = Done v" "v \<noteq> DB_NULL" "Udb_Store_Value db col_domain elem x (Some UUID) v s (new_entry x UUID st) = Done st'"
    using assms(1) by (auto simp: fetch_uuid_def c_bind_Done split: if_splits)
  then have "has_type DB_TYPE_STRING v" by (auto simp: c_bind_Done Udb_Get_Value_def Udb_Get_Value_opt_def check_some_def split: if_splits option.splits db_reply.splits)
  then obtain u where u: "v = DB_STRING u" by (cases v) auto
  have st: "Udb_Store_Value db col_domain elem x (Some UUID) (DB_STRING u) s st = Done st'"
    using v(3) u store_new_entry [OF assms(4), of UUID] False unfolding has_entry_entry by metis
  show ?thesis using store_resolved [OF st assms(2,3)] store_grown [OF st refl] attr_cases by (auto simp: known_def)
qed (use assms in \<open>auto simp: fetch_uuid_def known_def has_entry_entry\<close>)

lemma fetch_deleted_resolved:
  assumes "fetch_deleted db col_domain elem x s st = Done st'" "resolved P st" "x \<in> P" "known st x" "entry st x CLASS = Some (Some c)"
  shows "resolved P st' \<and> grown st st'"
proof (cases "has_entry st x (cstr ''deleted'')")
  case False
  let ?st = "new_entry x (cstr ''deleted'') st"
  obtain v where v: "Udb_Store_Value db col_domain elem x (Some (cstr ''deleted'')) v s ?st = Done st'"
    using assms(1) False by (auto simp: fetch_deleted_def c_bind_Done)
  have r: "resolved P ?st" using new_entry_resolved [OF assms(2,3)] attr_cases by simp
  have k: "known ?st x" "entry ?st x CLASS = Some (Some c)" using assms(4,5) attr_cases by (auto simp: known_def)
  show ?thesis using store_attr [OF v r assms(3) k] grown_trans [OF new_entry_grown [of st x "cstr ''deleted''"]] by blast
qed (use assms in \<open>simp add: fetch_deleted_def\<close>)

lemma fetch_names_resolved:
  assumes "fetch_names db col_domain getvar split elem class x st w = Done (st', w')" "resolved P st" "x \<in> P" "known st x" "entry st x CLASS = Some (Some c)"
  shows "resolved P st' \<and> grown st st'"
proof -
  consider "st' = st" | anames s where "name_attributes db col_domain elem x anames s st = Done st'"
    using assms(1) by (auto simp: fetch_names_def c_bind_Done split: option.splits)
  then show ?thesis using assms(2) name_attributes_resolved [where db = db, OF _ assms(2-5)] by cases auto
qed

lemma fetch_row_resolved:
  assumes "fetch_row db col_domain getvar split elem nameFields deletedFlag x st w = Done (st', w')" "resolved (insert x P) st"
  shows "resolved P st' \<and> grown st st' \<and> known st' x"
proof -
  have o: "oTbl st x \<noteq> None" using assms(1) by (auto simp: fetch_row_def simp del: not_None_eq split: if_split_asm)
  obtain st1 where u: "fetch_uuid db col_domain elem x (database w) st = Done st1" using assms(1) o by (auto simp: fetch_row_def c_bind_Done)
  note 1 = fetch_uuid_resolved [OF u assms(2) insertI1 o]
  define st2 where "st2 = (if nameFields then new_entry x CLASS st1 else st1)"
  have g: "grown st1 st2" by (simp add: st2_def new_entry_grown)
  have 2: "resolved (insert x P) st2" "grown st st2" "known st2 x"
    using 1 attr_cases new_entry_resolved [of "insert x P" st1 x CLASS] grown_trans [OF _ g] grown_known [OF g] by (auto simp: st2_def)
  have A: "(if \<not> has_entry st2 x CLASS then Done (st2, w)
      else c_bind (fetch_class db col_domain elem x (database w) st2) (\<lambda>(class, st).
        c_bind (if deletedFlag then fetch_deleted db col_domain elem x (database w) st else Done st) (\<lambda>st.
          if \<not> nameFields then Done (st, w) else fetch_names db col_domain getvar split elem class x st w))) = Done (st', w')"
    using assms(1) o unfolding fetch_row_def u Let_def by (simp add: st2_def cong: if_cong)
  show ?thesis
  proof (cases "has_entry st2 x CLASS")
    case False
    then show ?thesis using A 2 resolved_drop [of x P st2] by (auto simp: has_entry_entry)
  next
    case True
    then obtain cl st3 st4 where P: "fetch_class db col_domain elem x (database w) st2 = Done (cl, st3)"
        "(if deletedFlag then fetch_deleted db col_domain elem x (database w) st3 else Done st3) = Done st4"
        "(if \<not> nameFields then Done (st4, w) else fetch_names db col_domain getvar split elem cl x st4 w) = Done (st', w')"
      using A by (auto simp: c_bind_Done)
    obtain c where 3: "resolved (insert x P) st3" "grown st2 st3" "entry st3 x CLASS = Some (Some c)"
      using fetch_class_resolved [OF P(1) 2(1) insertI1] by auto
    have 4: "resolved (insert x P) st4" "grown st3 st4"
      using P(2) 3(1) fetch_deleted_resolved [where db = db, OF _ 3(1) insertI1 grown_known [OF 3(2) 2(3)] 3(3)] by (auto split: if_splits)
    have k4: "known st4 x" "entry st4 x CLASS = Some (Some c)" using grown_known [OF 4(2)] grown_known [OF 3(2) 2(3)] grown_value [OF 4(2) 3(3)] by auto
    have 5: "resolved (insert x P) st'" "grown st4 st'"
      using P(3) 4(1) fetch_names_resolved [where db = db and w = w and w' = w', OF _ 4(1) insertI1 k4] by (auto split: if_splits)
    have "resolved P st'" using resolved_drop [OF 5(1) grown_known [OF 5(2) k4(1)]] grown_value [OF 5(2) k4(2)] by simp
    then show ?thesis using grown_known [OF 5(2) k4(1)] grown_trans [OF 2(2) grown_trans [OF 3(2) grown_trans [OF 4(2) 5(2)]]] by simp
  qed
qed

lemma fetch_rows_resolved:
  assumes "fetch_rows db col_domain getvar split elem nameFields deletedFlag xs st w = Done (st', w')" "resolved (set xs \<union> P) st"
  shows "resolved P st' \<and> grown st st' \<and> (\<forall>x\<in>set xs. known st' x)"
  using assms
proof (induction xs arbitrary: st w)
  case (Cons x xs)
  obtain st1 w1 where 1: "fetch_row db col_domain getvar split elem nameFields deletedFlag x st w = Done (st1, w1)"
    "fetch_rows db col_domain getvar split elem nameFields deletedFlag xs st1 w1 = Done (st', w')"
    using Cons.prems(1) by (auto simp: c_bind_Done)
  have r: "resolved (set xs \<union> P) st1 \<and> grown st st1 \<and> known st1 x" using Cons.prems(2) by (intro fetch_row_resolved [OF 1(1)]) simp
  note IH = Cons.IH [OF 1(2) conjunct1 [OF r]]
  then show ?case using r grown_trans grown_known by (metis set_ConsD)
qed simp

section \<open>The loop\<close>

lemma new_object_resolved: "resolved P st \<Longrightarrow> resolved P (new_object x st)"
  by (auto simp: resolved_def known_def)

lemma fetch_needed_resolved:
  assumes "fetch_needed db getvar split nameFields deletedFlag x st w = Done (needed, st', w')" "resolved (insert x P) st"
  shows "resolved (if needed then insert x P else P) st' \<and> known st' = known st \<and> waiting st' = waiting st"
proof -
  define st1 where "st1 = (if nameFields then new_entry x CLASS (new_object x st) else new_object x st)"
  have 1: "resolved (insert x P) st1" "known st1 = known st" "waiting st1 = waiting st"
    using new_entry_resolved [OF new_object_resolved [OF assms(2)] insertI1, of CLASS] new_object_resolved [OF assms(2)] attr_cases
    by (auto simp: st1_def known_def fun_eq_iff)
  show ?thesis
  proof (cases "known st x")
    case False
    then show ?thesis using assms new_object_resolved [OF assms(2)]
      by (auto simp: fetch_needed_def has_entry_entry known_def fun_eq_iff)
  next
    case True
    then have "st' = st1" "\<not> needed \<Longrightarrow> entry st1 x CLASS \<noteq> Some None"
      using assms(1) by (auto simp: fetch_needed_def has_entry_entry known_def Let_def st1_def c_bind_Done entry_def [symmetric] split: option.splits if_split_asm Value.splits)
    then show ?thesis using 1 True resolved_drop [OF 1(1)] by auto
  qed
qed

lemma loop_steps_ends:
  assumes "wf R" "I x" "\<And>x y. I x \<Longrightarrow> step x = Done (Inl y) \<Longrightarrow> I y \<and> (y, x) \<in> R" "\<And>x z. I x \<Longrightarrow> step x = Done (Inr z) \<Longrightarrow> Q z"
  shows "\<exists>r. loop_steps step x = Some r \<and> (\<forall>z. r = Done z \<longrightarrow> Q z)"
  using assms(1,2)
proof (induction x rule: wf_induct_rule)
  case (less x)
  show ?case
  proof (cases "step x")
    case (Done r)
    then show ?thesis
    proof (cases r)
      case (Inl y)
      then show ?thesis using less.IH [of y] assms(3) [OF less.prems] Done by (subst loop_steps.simps) simp
    next
      case (Inr z)
      then show ?thesis using assms(4) [OF less.prems] Done by (subst loop_steps.simps) simp
    qed
  qed (subst loop_steps.simps, simp)+
qed

text \<open>
  Each turn makes an object known, or takes a known one out of the array or the queue, or moves one from the queue to the array.
\<close>

definition fetch_order :: "(('o list \<times> 'o stream \<times> ('s, 'o, 'm) udb_scheme) \<times> ('o list \<times> 'o stream \<times> ('s, 'o, 'm) udb_scheme)) set" where
  "fetch_order = measures [\<lambda>(oArray, st, w). card {x. \<not> known st x}, \<lambda>(oArray, st, w). length (filter (known st) (waiting st @ oArray)), \<lambda>(oArray, st, w). length (waiting st)]"

lemma fetch_array_order:
  assumes "finite (UNIV :: 'o set)" "grown (st :: 'o stream) st'" "\<forall>x\<in>set oArray. known st' x" "oArray \<noteq> []"
  shows "(([], st', w'), (oArray, st, w)) \<in> fetch_order"
proof -
  have sub: "{x. \<not> known st' x} \<subseteq> {x. \<not> known st x}" using grown_known [OF assms(2)] by blast
  have fin: "finite {x. \<not> known st x}" using assms(1) rev_finite_subset by blast
  show ?thesis
  proof (cases "known st' = known st")
    case True
    obtain ys where "waiting st' = ys @ waiting st" "\<forall>y\<in>set ys. \<not> known st y" using assms(2) by (auto simp: grown_def)
    then show ?thesis using assms(3,4) True by (simp add: fetch_order_def filter_id_conv)
  next
    case False
    then have "{x. \<not> known st' x} \<subset> {x. \<not> known st x}" using sub by (auto simp: fun_eq_iff)
    then show ?thesis using psubset_card_mono [OF fin] by (simp add: fetch_order_def)
  qed
qed

lemma waiting_take:
  assumes "delayed st = Some (x # xs)" "resolved P st"
  shows "resolved (insert x P) (st\<lparr>delayed := Some xs\<rparr>)" "waiting st = x # xs" "waiting (st\<lparr>delayed := Some xs\<rparr>) = xs" "known (st\<lparr>delayed := d\<rparr>) = known st"
proof -
  show w: "waiting st = x # xs" "waiting (st\<lparr>delayed := Some xs\<rparr>) = xs" using assms(1) by (simp_all add: waiting_def)
  show k: "known (st\<lparr>delayed := d\<rparr>) = known st" for d by (simp add: known_def fun_eq_iff)
  show "resolved (insert x P) (st\<lparr>delayed := Some xs\<rparr>)" using assms(2) unfolding resolved_def w k by auto
qed

lemma fetch_step_resolved:
  assumes "finite (UNIV :: 'o set)" "resolved (set oArray) (st :: 'o stream)"
    and "fetch_step db col_domain getvar split elem nameFields deletedFlag (oArray, st, w) = Done r"
  shows "case r of Inl (oArray', st', w') \<Rightarrow> resolved (set oArray') st' \<and> ((oArray', st', w'), (oArray, st, w)) \<in> fetch_order
    | Inr (st', w') \<Rightarrow> resolved {} st' \<and> delayed st' = None"
proof (cases "waiting st")
  case Nil
  then have d: "delayed st = Some []" using assms(3) by (auto simp: fetch_step_def waiting_def split: option.splits)
  show ?thesis
  proof (cases "oArray = []")
    case True
    have "resolved {} (st\<lparr>delayed := None\<rparr>)" using assms(2) True d unfolding resolved_def by (simp add: known_def waiting_def)
    then show ?thesis using assms(3) d True by (auto simp: fetch_step_def)
  next
    case False
    then obtain st' w' where r: "r = Inl ([], st', w')" "fetch_rows db col_domain getvar split elem nameFields deletedFlag oArray st w = Done (st', w')"
      using assms(3) d by (auto simp: fetch_step_def fetch_array_def Do_Fetch_def c_bind_Done split: if_splits)
    then show ?thesis using fetch_rows_resolved [OF r(2), of "{}"] assms(2) fetch_array_order [OF assms(1)] False by auto
  qed
next
  case (Cons x xs)
  then have d: "delayed st = Some (x # xs)" by (auto simp: waiting_def split: option.splits)
  note T = waiting_take [OF d assms(2)]
  obtain needed st1 w1 where n: "fetch_needed db getvar split nameFields deletedFlag x (st\<lparr>delayed := Some xs\<rparr>) w = Done (needed, st1, w1)"
    and r: "r = Inl (if needed then oArray @ [x] else oArray, st1, w1)"
    using assms(3) d by (auto simp: fetch_step_def fetch_array_def Do_Fetch_def c_bind_Done split: if_splits)
  show ?thesis using fetch_needed_resolved [OF n T(1)] r T(2-4) by (auto simp: fetch_order_def)
qed

lemma Fetch_Objects_resolved:
  assumes "finite (UNIV :: 'o set)" "resolved {} (st :: 'o stream)"
  shows "\<exists>r. Fetch_Objects db col_domain getvar split elem nameFields deletedFlag st w = Some r \<and> (\<forall>st' w'. r = Done (st', w') \<longrightarrow> resolved {} st' \<and> delayed st' = None)"
proof (cases "delayed st")
  case (Some q)
  let ?I = "\<lambda>(oArray, st, w). resolved (set oArray) st" and ?Q = "\<lambda>(st, w). resolved {} st \<and> delayed st = None"
  have "\<exists>r. loop_steps (fetch_step db col_domain getvar split elem nameFields deletedFlag) ([], st, w) = Some r \<and> (\<forall>z. r = Done z \<longrightarrow> ?Q z)"
  proof (rule loop_steps_ends [where R = fetch_order and I = ?I])
    show "wf fetch_order" by (simp add: fetch_order_def)
  next
    fix p q assume "?I p" "fetch_step db col_domain getvar split elem nameFields deletedFlag p = Done (Inl q)"
    then show "?I q \<and> (q, p) \<in> fetch_order" using fetch_step_resolved [OF assms(1)] by (cases p) fastforce
  next
    fix p z assume "?I p" "fetch_step db col_domain getvar split elem nameFields deletedFlag p = Done (Inr z)"
    then show "?Q z" using fetch_step_resolved [OF assms(1)] by (cases p) fastforce
  qed (use assms(2) in simp)
  then show ?thesis using Some by (auto simp: Fetch_Objects_def)
qed (use assms in \<open>simp add: Fetch_Objects_def\<close>)

section \<open>Encoding\<close>

lemma ref_uuid_known:
  assumes "resolved P st" "known st x"
  shows "\<exists>u. ref_uuid st x = Done u"
  using assms by (auto simp: resolved_def ref_uuid_def simp flip: entry_def)

lemma ref_uuids_known: "resolved P st \<Longrightarrow> \<forall>x\<in>set xs. known st x \<Longrightarrow> \<exists>us. ref_uuids st xs = Done us"
proof (induction xs)
  case (Cons x xs)
  then show ?case using ref_uuid_known [of P st x] by auto
qed simp

lemma encode_value_known:
  assumes "resolved P st" "\<And>u y. v = Some u \<Longrightarrow> y \<in> refs u \<Longrightarrow> known st y"
  shows "\<exists>e. encode_value st v = Done e"
proof (cases v)
  case (Some u)
  then show ?thesis using assms(2) ref_uuid_known [OF assms(1)] ref_uuids_known [OF assms(1)] by (cases u) (fastforce simp: encode_value_def)+
qed (simp add: encode_value_def)

lemma encode_fields_known:
  assumes "\<And>a v. (a, v) \<in> set t \<Longrightarrow> \<exists>e. encode_value st v = Done e"
  shows "\<exists>r. encode_fields setvar streamFlag st uuid t l vars = Done r"
  using assms
proof (induction t arbitrary: l vars)
  case (Cons p t)
  obtain a v where p: "p = (a, v)" by (cases p)
  obtain e where e: "encode_value st v = Done e" using Cons.prems p by auto
  have "\<exists>r. encode_fields setvar streamFlag st uuid t l vars = Done r" for l vars
    by (rule Cons.IH) (use Cons.prems in \<open>auto simp: p\<close>)
  then show ?case using p e by (auto split: option.split)
qed simp

lemma encode_objects_done:
  assumes "resolved {} st" "delayed st = None" "\<And>c s. db_get_class_name db c s \<noteq> None" "set obs \<subseteq> set (objects st)"
  shows "\<exists>r. encode_objects db setvar streamFlag st obs l vars w = Done r"
  using assms(4)
proof (induction obs arbitrary: l vars w)
  case (Cons p obs)
  obtain x t where p: "p = (x, t)" by (cases p)
  have W: "waiting st = []" using assms(2) by (simp add: waiting_def)
  have tb: "map_of t a = entry st x a" "keyed t" for a using tables_ok_entry [of st x t] assms(1) Cons.prems p by (auto simp: resolved_def)
  note IH = Cons.IH [OF subset_trans [OF set_subset_Cons Cons.prems]]
  show ?case
  proof (cases "entry st x CLASS")
    case None
    then show ?thesis using IH p tb by simp
  next
    case (Some cv)
    then have k: "known st x" and "cv \<noteq> None" using assms(1) W unfolding resolved_def by auto
    then obtain c where c: "entry st x CLASS = Some (Some (Val_Object c))"
      using assms(1) Some unfolding resolved_def by blast
    obtain n w1 where n: "Udb_Get_Class_Name db c w = Done (n, w1)"
      using assms(3) [of c "database w"] by (cases "classNameCache w c") (auto simp: Udb_Get_Class_Name_def check_some_def)
    obtain u where u: "own_uuid t = Done u" using assms(1) k by (auto simp: own_uuid_def tb resolved_def)
    have "\<exists>e. encode_value st v = Done e" if v: "(a, v) \<in> set (filter (\<lambda>p. fst p \<noteq> CLASS) t)" for a v
    proof (rule encode_value_known [OF assms(1)])
      fix u y assume "v = Some u" "y \<in> refs u"
      moreover have "entry st x a = Some v" "a \<noteq> CLASS" using v tb by (auto simp: keyed_def simp flip: tb(1))
      ultimately show "known st y" using assms(1) W unfolding resolved_def by auto
    qed
    then have F: "\<exists>r. encode_fields setvar streamFlag st u (filter (\<lambda>p. fst p \<noteq> CLASS) t) l vars = Done r" for l vars
      by (rule encode_fields_known)
    let ?fields = "encode_fields setvar streamFlag st u (filter (\<lambda>p. fst p \<noteq> CLASS) t)"
    have eq: "encode_objects db setvar streamFlag st (p # obs) l vars w =
      (if streamFlag
       then c_bind (?fields [Elem CLASS, Elem n] vars) (\<lambda>r.
         case r of None \<Rightarrow> Done (None, w1) | Some (es, vars) \<Rightarrow> encode_objects db setvar streamFlag st obs (l @ [Elem u, Sublist es]) vars w1)
       else case setvar u CLASS n False vars of
         None \<Rightarrow> Done (None, w1)
       | Some vars \<Rightarrow> c_bind (?fields [] vars) (\<lambda>r.
           case r of None \<Rightarrow> Done (None, w1) | Some (es, vars) \<Rightarrow> encode_objects db setvar streamFlag st obs l vars w1))"
      unfolding p encode_objects.simps(2) tb(1) c Let_def option.case Value.case n u c_bind.simps prod.case ..
    have cont: "\<exists>q. (case r of None \<Rightarrow> Done (None, w1) | Some (es, vars) \<Rightarrow> encode_objects db setvar streamFlag st obs (k es) vars w1) = Done q" for r k
      using IH by (simp split: option.split)
    show ?thesis
    proof (cases streamFlag)
      case True
      obtain r where "?fields [Elem CLASS, Elem n] vars = Done r" using F by blast
      then show ?thesis unfolding eq using True cont [of "\<lambda>es. l @ [Elem u, Sublist es]" r] by (cases r) auto
    next
      case False
      show ?thesis
      proof (cases "setvar u CLASS n False vars")
        case (Some vars')
        obtain r where "?fields [] vars' = Done r" using F by blast
        then show ?thesis unfolding eq using False Some cont [of "\<lambda>es. l" r] by (cases r) auto
      qed (use eq False in simp)
    qed
  qed
qed simp

section \<open>The items of a command\<close>

lemma delays_grown: "delays st st' \<Longrightarrow> grown st st'"
  using delaysD(5) [of st st'] by (auto simp: grown_def delaysD(1))

lemma delays_resolved: "delays st st' \<Longrightarrow> resolved P st \<Longrightarrow> resolved P st'"
  by (rule resolved_after [OF _ delays_grown]) (auto simp: delaysD resolved_def)

lemma fetch_all_resolved:
  assumes "fetch_all db col_domain elem c x attrs st w = Done (st', w')" "resolved P st" "x \<in> P" "known st x" "entry st x CLASS = Some (Some k)"
  shows "resolved P st' \<and> grown st st'"
  using assms
proof (induction attrs arbitrary: st w)
  case (Cons a attrs)
  consider w1 where "fetch_all db col_domain elem c x attrs st w1 = Done (st', w')"
    | v s st1 w1 where "Udb_Store_Value db col_domain elem x (Some a) v s st = Done st1" "fetch_all db col_domain elem c x attrs st1 w1 = Done (st', w')"
    using Cons.prems(1) by (auto simp: c_bind_Done split: prod.split_asm option.split_asm if_split_asm db_reply.split_asm)
  then show ?case
  proof cases
    case 1
    then show ?thesis using Cons.IH Cons.prems(2-5) by blast
  next
    case 2
    note S = store_attr [OF 2(1) Cons.prems(2-5)]
    then have "known st1 x" "entry st1 x CLASS = Some (Some k)" using grown_known [OF _ Cons.prems(4)] grown_value [OF _ Cons.prems(5)] by auto
    then show ?thesis using Cons.IH [OF 2(2) conjunct1 [OF S] Cons.prems(3)] grown_trans [OF conjunct2 [OF S]] by blast
  qed
qed simp

lemma fetch_some_resolved:
  assumes "fetch_some db col_domain elem c x uuid attrs st w = Done (Tcl_Ok st', w')" "resolved P st" "x \<in> P" "known st x" "entry st x CLASS = Some (Some k)"
  shows "resolved P st' \<and> grown st st'"
  using assms
proof (induction attrs arbitrary: st w)
  case (Cons a attrs)
  obtain v s st1 w1 where 2: "Udb_Store_Value db col_domain elem x (Some a) v s st = Done st1" "fetch_some db col_domain elem c x uuid attrs st1 w1 = Done (Tcl_Ok st', w')"
    using Cons.prems(1) by (auto simp: c_bind_Done Udb_Error_def split: prod.split_asm option.split_asm if_split_asm db_reply.split_asm)
  note S = store_attr [OF 2(1) Cons.prems(2-5)]
  then have "known st1 x" "entry st1 x CLASS = Some (Some k)" using grown_known [OF _ Cons.prems(4)] grown_value [OF _ Cons.prems(5)] by auto
  then show ?case using Cons.IH [OF 2(2) conjunct1 [OF S] Cons.prems(3)] grown_trans [OF conjunct2 [OF S]] by blast
qed simp

lemma Do_Fetch_Processing_resolved:
  assumes "Do_Fetch_Processing db col_domain elem c x uuid argv nameFields st w = Done (Tcl_Ok st', w')" "resolved P st"
  shows "resolved P st'"
proof -
  let ?P = "insert x P"
  obtain st1 s1 v st2 st3 w2 where
    1: "Udb_Store_Value db col_domain elem x None (DB_OBJECT c) (database w) st = Done st1" and
    2: "Udb_Store_Value db col_domain elem x (Some (cstr ''deleted'')) v s1 st1 = Done st2" and
    3: "Udb_Store_Value db col_domain elem x (Some UUID) (DB_STRING uuid) s1 (if nameFields then Udb_Delay_Fetch x st2 else st2) = Done st3" and
    4: "(\<exists>attrs. fetch_all db col_domain elem c x attrs st3 w2 = Done (st', w')) \<or> fetch_some db col_domain elem c x uuid argv st3 w2 = Done (Tcl_Ok st', w')"
    using assms(1) unfolding Do_Fetch_Processing_def Let_def c_bind_Done case_prod_beta
    by (elim exE conjE) (rule that, assumption+, auto simp: c_bind_Done split: if_split_asm)
  have r1: "resolved ?P st1" using store_resolved [OF 1 resolved_mono [OF assms(2)]] by auto
  obtain k where k1: "entry st1 x CLASS = Some (Some k)" using store_grown(2) [OF 1 refl] store_grown(3) [OF 1 refl refl] by auto
  have r2: "resolved ?P st2" using store_resolved [OF 2 r1] attr_cases by auto
  have k2: "entry st2 x CLASS = Some (Some k)" using grown_value [OF store_grown(1) [OF 2 refl] k1] .
  define std where "std = (if nameFields then Udb_Delay_Fetch x st2 else st2)"
  have d: "delays st2 std" by (simp add: std_def Udb_Delay_Fetch_delays(1))
  have 3: "Udb_Store_Value db col_domain elem x (Some UUID) (DB_STRING uuid) s1 std = Done st3" using 3 by (simp add: std_def)
  have r3: "resolved ?P st3" using store_resolved [OF 3 delays_resolved [OF d r2]] attr_cases by auto
  have k3: "entry st3 x CLASS = Some (Some k)" "known st3 x"
    using grown_value [OF store_grown(1) [OF 3 refl] grown_value [OF delays_grown [OF d] k2]] store_grown(2) [OF 3 refl] by (auto simp: known_def)
  have r4: "resolved ?P st' \<and> grown st3 st'"
    using 4 fetch_all_resolved [OF _ r3 insertI1 k3(2,1)] fetch_some_resolved [OF _ r3 insertI1 k3(2,1)] by blast
  then show ?thesis using resolved_drop [of x P st'] grown_known [OF _ k3(2)] grown_value [OF _ k3(1)] by auto
qed

lemma fetch_items_resolved:
  assumes "fetch_items db col_domain elem uuids argv nameFields st w = Done (Tcl_Ok st', w')" "resolved P st"
  shows "resolved P st'"
  using assms
proof (induction uuids arbitrary: st w)
  case (Cons uuid uuids)
  obtain c x r w1 w2 where p: "Do_Fetch_Processing db col_domain elem c x uuid argv nameFields st w1 = Done (r, w2)"
    "(case r of Tcl_Error code msg \<Rightarrow> Done (Tcl_Error code msg, w2) | Tcl_Ok st1 \<Rightarrow> fetch_items db col_domain elem uuids argv nameFields st1 w2) = Done (Tcl_Ok st', w')"
    using Cons.prems(1) by (auto simp: c_bind_Done Udb_Error_def split: if_split_asm option.split_asm)
  then obtain st1 where r: "r = Tcl_Ok st1" by (cases r) auto
  show ?case using Cons.IH [of st1 w2] Do_Fetch_Processing_resolved [OF _ Cons.prems(2)] p by (simp add: r) blast
qed simp

lemma empty_stream_resolved: "resolved {} empty_stream"
  by (simp add: resolved_def known_def entry_def attrs_of_def oTbl_def tables_ok_def keyed_def)

section \<open>The array\<close>

lemma fetch_loop_overruns:
  assumes "delayed st = Some queue" "\<forall>x\<in>set queue. \<not> known st x" "length oArray < FETCH_COUNT" "FETCH_COUNT \<le> length oArray + length queue"
  shows "loop_steps (fetch_step db col_domain getvar split elem nameFields deletedFlag) (oArray, st, w) = Some Overrun"
  using assms
proof (induction queue arbitrary: oArray st)
  case (Cons x queue)
  let ?st = "new_object x (st\<lparr>delayed := Some queue\<rparr>)"
  have "fetch_needed db getvar split nameFields deletedFlag x (st\<lparr>delayed := Some queue\<rparr>) w = Done (True, ?st, w)"
    using Cons.prems(2) by (simp add: fetch_needed_def has_entry_entry known_def)
  then have step: "fetch_step db col_domain getvar split elem nameFields deletedFlag (oArray, st, w) =
      (if length oArray + 1 = FETCH_COUNT then Overrun else Done (Inl (oArray @ [x], ?st, w)))"
    using Cons.prems(1) by (simp add: fetch_step_def fetch_array_def Do_Fetch_def)
  show ?case
  proof (cases "length oArray + 1 = FETCH_COUNT")
    case True
    then show ?thesis using step by (subst loop_steps.simps) simp
  next
    case False
    have "loop_steps (fetch_step db col_domain getvar split elem nameFields deletedFlag) (oArray @ [x], ?st, w) = Some Overrun"
      by (rule Cons.IH) (use Cons.prems False in \<open>auto simp: known_def\<close>)
    then show ?thesis using step False by (subst loop_steps.simps) simp
  qed
qed simp

section \<open>Property\<close>

text \<open>C24: when the items of a \<open>fetch\<close> command have been stored in the tables, the loop of \<open>Fetch_Objects\<close> that reads the delayed
  objects ends; if it ends normally, the encoding ends normally as well: every object whose class is encoded and every object
  that is referenced has its identifier by then, so that no missing entry is read.  But when \<open>FETCH_COUNT\<close> objects without identifier
  are delayed at once, the loop writes beyond its array.\<close>

theorem fetch_ends_with_identifiers:
  fixes db :: "('s, 'o) dbi"
  assumes "finite (UNIV :: 'o set)" "\<forall>c s. db_get_class_name db c s \<noteq> None"
    and "fetch_items db col_domain elem uuids argv nameFields empty_stream w = Done (Tcl_Ok st, w1)"
  shows "\<exists>r. Fetch_Objects db col_domain getvar split elem nameFields deletedFlag st w1 = Some r \<and>
    (\<forall>p. r = Done p \<longrightarrow>
       (\<exists>q. Udb_Stream_Encode db col_domain getvar split elem setvar nameFields streamFlag deletedFlag l vars st w1 = Some (Done q))) \<and>
    (\<forall>queue. delayed st = Some queue \<and> FETCH_COUNT \<le> length queue \<and> (\<forall>x\<in>set queue. \<not> has_entry st x (cstr ''uuid'')) \<longrightarrow> r = Overrun)"
proof -
  have R: "resolved {} st" by (rule fetch_items_resolved [OF assms(3) empty_stream_resolved])
  obtain r where r: "Fetch_Objects db col_domain getvar split elem nameFields deletedFlag st w1 = Some r"
    "\<forall>st' w'. r = Done (st', w') \<longrightarrow> resolved {} st' \<and> delayed st' = None"
    using Fetch_Objects_resolved [OF assms(1) R] by blast
  have "\<exists>q. Udb_Stream_Encode db col_domain getvar split elem setvar nameFields streamFlag deletedFlag l vars st w1 = Some (Done q)" if p: "r = Done p" for p
  proof -
    obtain st' w2 where p': "p = (st', w2)" by (cases p)
    then have "resolved {} st'" "delayed st' = None" using r(2) p by auto
    then have "\<exists>q. encode_objects db setvar streamFlag st' (objects st') l vars w2 = Done q"
      by (rule encode_objects_done) (use assms(2) in auto)
    then show ?thesis using r(1) p p' by (auto simp: Udb_Stream_Encode_def split: prod.split)
  qed
  moreover have "r = Overrun" if q: "delayed st = Some queue" "FETCH_COUNT \<le> length queue" "\<forall>x\<in>set queue. \<not> has_entry st x (cstr ''uuid'')" for queue
    using fetch_loop_overruns [of st queue "[]" db col_domain getvar split elem nameFields deletedFlag w1] q r(1)
    by (simp add: Fetch_Objects_def has_entry_entry known_def)
  ultimately show ?thesis using r(1) by blast
qed

text \<open>An item (1) with an owner (2), of one class (9).\<close>

definition pair_dbi :: "(unit, u8) dbi" where
  "pair_dbi =
     \<lparr>db_find_class = (\<lambda>n s. Some 9), db_get_class = (\<lambda>x s. 9), db_get_class_name = (\<lambda>c s. Some (cstr ''unameit_item'')), db_identifier = (\<lambda>x s. None),
      db_object = (\<lambda>i s. None), db_is_subclass = (\<lambda>c d s. c = d), db_get_attributes = (\<lambda>c s. [(cstr ''owner'', Dom_Scalar DB_TYPE_OBJECT (Some 9))]),
      db_get = (\<lambda>x a s. NOERROR (if a = cstr ''uuid'' then DB_STRING (cstr ''the owner'') else if a = cstr ''owner'' \<and> x = 1 then DB_OBJECT 2 else DB_NULL)),
      db_put = (\<lambda>x a v s. None), db_find_unique = (\<lambda>c a v s. Some 1), dbt_finish_object = (\<lambda>t s. None), db_col_size = (\<lambda>c s. 0), db_col_get = (\<lambda>c i s. None),
      db_col_insert = (\<lambda>c i v s. None), db_col_drop_element = (\<lambda>c i s. None), db_set_add = (\<lambda>c v s. None), db_set_drop = (\<lambda>c v s. None),
      db_value_compare = (\<lambda>v u s. v = u), db_execute = (\<lambda>q vs s. None), db_commit_transaction = Some, db_abort_transaction = Some\<rparr>"

lemmas pair_simps = pair_dbi_def udb_start_def Udb_Attribute_Domain_def Udb_Attribute_Is_Printable_def lookup_defs

lemmas table_defs = Udb_Store_Value_def Let_def new_object_def new_entry_def set_entry_def Udb_Delay_Fetch_def has_entry_def attrs_of_def oTbl_def tbl_set_def tbl_add_def

definition pair_stream :: "u8 stream" where
  "pair_stream =
     \<lparr>objects = [(1, [(CLASS, Some (Val_Object 9)), (cstr ''deleted'', None), (UUID, Some (Val_String item_uuid)), (cstr ''owner'', Some (Val_Object 2))])],
      delayed = Some [2]\<rparr>"

abbreviation pair_domain :: "u8 db_collection \<Rightarrow> unit \<Rightarrow> u8 db_domain" where "pair_domain \<equiv> \<lambda>c s. Dom_Scalar DB_TYPE_OBJECT None"

lemma pair_names:
  "cstr ''deleted'' \<noteq> UUID" "cstr ''deleted'' \<noteq> CLASS" "UUID \<noteq> CLASS" "cstr ''owner'' \<noteq> UUID" "cstr ''owner'' \<noteq> CLASS" "cstr ''owner'' \<noteq> cstr ''deleted''"
  by (simp_all add: cstr_def)

lemma pair_items: "\<exists>w1. fetch_items pair_dbi pair_domain (@) [item_uuid] [cstr ''owner''] False empty_stream (udb_start ()) = Done (Tcl_Ok pair_stream, w1)"
  by (simp add: item_uuid_valid fetch_item_def pair_simps Do_Fetch_Processing_def Udb_Find_Object_def pair_stream_def table_defs pair_names pair_names [symmetric])

lemma pair_fetched: "\<exists>st. Fetch_Objects pair_dbi pair_domain (\<lambda>a b. None) (\<lambda>s. None) (@) False True pair_stream w = Some (Done (st, w))"
  by (simp add: Fetch_Objects_def pair_stream_def loop_steps.simps [of _ "([], _, _)"] loop_steps.simps [of _ "([2], _, _)"] fetch_step_def fetch_needed_def fetch_array_def
      Do_Fetch_def fetch_row_def fetch_uuid_def Udb_Get_Value_def Udb_Get_Value_opt_def pair_dbi_def check_some_def table_defs pair_names pair_names [symmetric])

theorem fetch_ends_with_identifiers_witness:
  "\<exists>w1 q. fetch_items pair_dbi pair_domain (@) [item_uuid] [cstr ''owner''] False empty_stream (udb_start ()) = Done (Tcl_Ok pair_stream, w1) \<and>
     Udb_Stream_Encode pair_dbi pair_domain (\<lambda>a b. None) (\<lambda>s. None) (@) (\<lambda>x a v app vars. None) False True True [] () pair_stream w1 = Some (Done q)"
proof -
  obtain w1 where w1: "fetch_items pair_dbi pair_domain (@) [item_uuid] [cstr ''owner''] False empty_stream (udb_start ()) = Done (Tcl_Ok pair_stream, w1)"
    using pair_items by blast
  have n: "\<forall>c s. db_get_class_name pair_dbi c s \<noteq> None" by (simp add: pair_dbi_def)
  obtain st where "Fetch_Objects pair_dbi pair_domain (\<lambda>a b. None) (\<lambda>s. None) (@) False True pair_stream w1 = Some (Done (st, w1))"
    using pair_fetched by blast
  then show ?thesis
    using w1 fetch_ends_with_identifiers [OF finite n w1, of "\<lambda>a b. None" "\<lambda>s. None" True "\<lambda>x a v app vars. None" True "[]" "()"] by auto
qed

end
