(* ===== verification/Spec2Isabelle.thy ===== *)
theory Spec2Isabelle
  imports
    Prelude Radix Address Md5 License Uuid Conn ConnSend ConnRecv ConnMessages ConnServer DesMd5 Auth
    Dbi MemDbi Lookup LookupProps Range RangeBlocks RangeProps NameCache OidProps UniqueProps Relations
    RelationProps LoopCheck Transaction TransactionProps Items ItemProps Fetch FetchProps
begin

text \<open>
  A verification development for UName*It, a name space management system: a server written in C
  that keeps hosts, networks, users and names in an object database, and clients that talk to it over
  authenticated TCP connections.  The C code is a set of Tcl extension libraries (\<^verbatim>\<open>lib*\<close>) and
  small programs around them.

  \<^bold>\<open>Parts and their theories.\<close>  A client program calls \<^verbatim>\<open>libconn\<close>, which opens a connection
  (\<^verbatim>\<open>conn.c\<close> over \<^verbatim>\<open>conn_stream.c\<close>), authenticates (\<^verbatim>\<open>auth.c\<close> and its modules), and sends one
  message per request; the server loop of \<^verbatim>\<open>conn.c\<close> serves all connections in one process, and hands
  each request to \<^verbatim>\<open>libudb\<close>.  Messages may carry a DES/MD5 check (\<^verbatim>\<open>desmd5.c\<close> over \<^verbatim>\<open>md5.c\<close>).
  Objects are named by UUIDs (\<^verbatim>\<open>libuuid\<close>), which are printed with the codecs of \<^verbatim>\<open>libradix\<close>;
  network addresses are computed with by \<^verbatim>\<open>libaddress\<close>; \<^verbatim>\<open>libudb/license.c\<close> counts what a license
  allows, with keys made by \<^verbatim>\<open>unameitkey\<close>.

  \<^item> \<open>Prelude\<close>: bytes and C strings, the result type of a Tcl command, the error formats of
    \<^verbatim>\<open>errcode.c\<close> and Tcl itself, and the lemmas on lists, words and characters used everywhere.
  \<^item> \<open>Radix\<close> (\<^verbatim>\<open>libradix/radix.c\<close>): \<open>encode64\<close>/\<open>decode64\<close> and the hexadecimal commands.  Round trips, and
    that the decoders accept exactly what the encoders produce.
  \<^item> \<open>Address\<close> (\<^verbatim>\<open>libaddress/address.c\<close>, the table made by \<^verbatim>\<open>include/make_cbits.c\<close>, the conversions of
    \<^verbatim>\<open>libudb/convert.c\<close> used there): the commands on hexadecimal addresses and masks, against their
    reading as binary numbers.
  \<^item> \<open>Md5\<close> (\<^verbatim>\<open>libconn/md5.c\<close>): the streaming digest equals a definition of MD5 on whole messages.
  \<^item> \<open>License\<close> (\<^verbatim>\<open>libudb/license.c\<close>, \<^verbatim>\<open>unameitkey/main.c\<close>): key generation and validation, and the usage
    counters as a refinement of a log of committed and tentative changes.
  \<^item> \<open>Uuid\<close> (\<^verbatim>\<open>libuuid/uuid.c\<close>): the clock, the sequence number and its file, creation and printing.
  \<^item> \<open>Conn\<close> (\<^verbatim>\<open>libconn/conn.c\<close>, \<^verbatim>\<open>conn_stream.c\<close>, \<^verbatim>\<open>include/conn.h\<close>): the connection record, the
    iovec window and its transfer through a socket, messages, and the server loop.
    \<open>ConnSend\<close> and \<open>ConnRecv\<close> prove what the two directions do, once for every integrity check that
    meets the contracts \<open>write_mic_contract\<close> and \<open>read_mic_contract\<close>; \<open>ConnMessages\<close> interprets them for
    plain connections and states the round trip of a message; \<open>ConnServer\<close> is about the loop.
  \<^item> \<open>DesMd5\<close> (\<^verbatim>\<open>libconn/desmd5.c\<close>): the integrity check, with the two contracts interpreted for it;
    the session invariant of two communicating ends.
  \<^item> \<open>Auth\<close> (\<^verbatim>\<open>libconn/auth.c\<close>, \<^verbatim>\<open>trivial.c\<close>, \<^verbatim>\<open>passwd.c\<close>): registry and modules; a login through all
    layers.

  \<^item> \<open>Dbi\<close> (\<^verbatim>\<open>libudb/misc.c\<close>): the object database as a record \<open>dbi\<close> of its API functions over a state of any
    type, the static variables of \<^verbatim>\<open>libudb\<close> as the record \<open>udb\<close>, the access functions, and the laws \<open>dbi_ok\<close> that
    the proofs rely on.  \<open>MemDbi\<close> implements the interface in memory and has the laws.
  \<^item> \<open>Lookup\<close>, \<open>LookupProps\<close> (\<^verbatim>\<open>libudb/lookup.c\<close>, \<open>Udb_Finish_Object\<close> of \<^verbatim>\<open>transaction.c\<close>): class, item and
    root caches, free lists of objects, protected items, cells and principals.
  \<^item> \<open>Range\<close>, \<open>RangeBlocks\<close>, \<open>RangeProps\<close> (\<^verbatim>\<open>libudb/range.c\<close>): used numbers as sorted blocks.  Adding and
    removing a number implement insertion and removal on the set of used numbers (locale \<open>number_pool\<close>), and the
    search never gives a number twice.
  \<^item> \<open>NameCache\<close>, \<open>UniqueProps\<close>, \<open>OidProps\<close> (\<^verbatim>\<open>libudb/name_cache.c\<close>, parts of \<^verbatim>\<open>errcode.c\<close> and \<^verbatim>\<open>convert.c\<close>): collision
    rules, the cache objects of keys, the pending uniqueness checks, and object identifiers as strings.  Every collision
    that additions to cache objects make is caught by the checks of the commit.
  \<^item> \<open>Relations\<close>, \<open>RelationProps\<close>, \<open>LoopCheck\<close> (\<^verbatim>\<open>libudb/relation.c\<close>): relation objects for pointers, deletion with its
    actions, reference and loop checks.  The doubly linked lists of relation objects refine lists per item; the loop
    check ends and decides.
  \<^item> \<open>Transaction\<close>, \<open>TransactionProps\<close> (\<^verbatim>\<open>libudb/transaction.c\<close>): versions, log, system calls, commit and
    rollback over all of the above and the license counters; a commit makes exactly what was seen permanent, or nothing.
  \<^item> \<open>Items\<close>, \<open>ItemProps\<close> (\<^verbatim>\<open>libudb/create.c\<close>, \<^verbatim>\<open>update.c\<close>, \<^verbatim>\<open>delete.c\<close>, \<^verbatim>\<open>convert.c\<close>): the commands that
    create, undelete, update and delete items, over all parts above, and the conversion of attribute values.  What they accept is
    well typed; a command that fails leaves no trace or forces a rollback.
  \<^item> \<open>Fetch\<close>, \<open>FetchProps\<close> (\<^verbatim>\<open>libudb/tcl_mem.c\<close>, \<^verbatim>\<open>fetch.c\<close>, \<^verbatim>\<open>dump.c\<close>): the tables of fetched attributes, the reading of
    referenced objects in batches, the encoding as Tcl list or variables, and the dump of classes.  The reading ends, and then every
    object that is named has its identifier.

  \<^bold>\<open>How code becomes definitions.\<close>  A C struct is a record with the field names of the source, an
  enum a datatype.  Machine integers are words of their width, or \<open>int\<close> where the source has
  guards that exclude overflow; C strings are byte lists without the terminator.  Static variables
  are fields of a state record that is passed and returned.  A command for Tcl returns
  \<open>tcl_result\<close>: a value, or the list \<open>errorCode\<close> with a message.  In \<open>Conn\<close> and above, \<open>c_run\<close>
  is the result of C code that may also panic (\<open>Panic\<close>: a failed \<open>assert\<close> or \<open>check\<close>) or touch
  memory it does not own (\<open>Overrun\<close>).  Code outside the repository is an argument: the socket is
  a script of what \<open>recv\<close> and \<open>send\<close> answer, the clock a list of readings, the DES library two
  functions, the Tcl interpreter a function from the words of a command to its result.

  \<^bold>\<open>Loops and bounds.\<close>  Loops are structural recursions or functions with a termination proof.  The
  loop inside \<open>Unameit_Conn_Progress\<close> is bounded by the code itself (at most 17 packets before it
  yields).  \<open>drive\<close> repeats \<open>Unameit_Conn_Progress\<close> a given number of times, and the theorems show that a
  number above the length of the socket's script (\<open>recv_fuel\<close> for the receiving side) completes the
  message.  The server loop runs over the given results of \<open>select\<close>.  UUID creation, which may
  wait for the clock, takes as many readings as it is given; a theorem shows the inputs where
  it never returns.

  The recursion of the loop checks takes a bound on its depth; the number of items is enough.  Following owners
  (\<open>Udb_Get_Cell\<close>), emptying a list of relations and the loop of \<open>Fetch_Objects\<close> (\<open>loop_steps\<close>) are partial functions into
  \<open>option\<close>; the last is shown to end when there are finitely many objects.

  \<^bold>\<open>Hypotheses on code outside the model.\<close>  \<open>dbi_ok\<close> and \<open>tx_ok\<close> idealise the database: a write of an existing attribute succeeds
  whatever its value.  \<open>inet_ok\<close> and \<open>populate_keeps\<close> say of \<^verbatim>\<open>inet.c\<close> that its checks only read and that its other entry points keep the
  caches; \<open>schema_ok\<close> says of the schema scripts that they neither commit nor end the transaction, and that loading a
  committed schema succeeds.  Octet and digit counts in \<open>Radix\<close> and \<open>Address\<close> are unbounded where no caller comes near
  the limit of the C type; \<open>%lx\<close> is that of a 32-bit \<open>long\<close>.

  \<^bold>\<open>Not modelled.\<close>  In \<^verbatim>\<open>libudb\<close>, \<^verbatim>\<open>inet.c\<close> (address blocks; its four entry points are arguments of \<open>NameCache\<close> and
  \<open>Transaction\<close>), \<^verbatim>\<open>qbe.c\<close> (text of queries for the database), the Tcl commands in \<^verbatim>\<open>schema.c\<close>.  Hash tables are maps or lists in the order
  of their traversal; allocation is not modelled.  The Kerberos modules are sequences of library calls; \<^verbatim>\<open>libether\<close>, the programs' \<^verbatim>\<open>main.c\<close> and the
  Windows port are system calls; \<^verbatim>\<open>libcanon/fcrypt.c\<close> is vendored; the remaining libraries are
  written in Tcl.
\<close>

end
